(* ===== verification/Cigar_Prelude.thy ===== *)
theory Cigar_Prelude
  imports Main "HOL-Library.Word" "HOL-Library.List_Lexorder" "HOL-Library.Char_ord"
    "HOL-Library.FSet"
begin

text \<open>
  Shared vocabulary of the development: the Rust result type and its \<open>?\<close> operator, checked
  and wrapping machine arithmetic, byte-level string predicates, the slice idioms of the source
  (\<open>windows(2)\<close>, \<open>binary_search\<close>), reachability of step relations, and the collections of
  simplification rules used by the component theories.

  Strings are lists of bytes, as a Rust \<open>str\<close> is; \<open>len()\<close> is the list length and the derived
  order is the byte-lexicographic one, which is the order of the library theories imported here.
  \<open>usize\<close> quantities that are lengths or sums of lengths are \<open>nat\<close>; \<open>u64\<close> counters on which
  the code calls \<open>checked_add\<close> are 64-bit words. Timestamps (\<open>i128\<close> nanoseconds) are \<open>int\<close>.
\<close>

named_theorems cigar_defs \<open>definitions unfolded when an operation is executed symbolically\<close>
named_theorems result_simps \<open>inversion rules for results of sequenced operations\<close>
named_theorems frame_simps \<open>fields an operation leaves unchanged\<close>

type_synonym u64 = "64 word"
type_synonym u32 = "32 word"
type_synonym u16 = "16 word"
type_synonym record_id = string
type_synonym content_digest = string
type_synonym version_id = string
type_synonym timestamp = int

subsection \<open>Results\<close>

text \<open>\<open>Result<T, E>\<close> is a sum with the error on the left; \<open>rbind\<close> is the \<open>?\<close> operator.\<close>

type_synonym ('e, 'a) result = "'e + 'a"

definition rbind :: "('e, 'a) result \<Rightarrow> ('a \<Rightarrow> ('e, 'b) result) \<Rightarrow> ('e, 'b) result" where
  "rbind r f = (case r of Inl e \<Rightarrow> Inl e | Inr a \<Rightarrow> f a)"

definition ensure :: "bool \<Rightarrow> 'e \<Rightarrow> ('e, unit) result" where
  "ensure c e = (if c then Inr () else Inl e)"

definition ok_or :: "'a option \<Rightarrow> 'e \<Rightarrow> ('e, 'a) result" where
  "ok_or x e = (case x of None \<Rightarrow> Inl e | Some a \<Rightarrow> Inr a)"

definition map_err :: "('e \<Rightarrow> 'f) \<Rightarrow> ('e, 'a) result \<Rightarrow> ('f, 'a) result" where
  "map_err g r = (case r of Inl e \<Rightarrow> Inl (g e) | Inr a \<Rightarrow> Inr a)"

definition is_ok :: "('e, 'a) result \<Rightarrow> bool" where
  "is_ok r = (case r of Inl _ \<Rightarrow> False | Inr _ \<Rightarrow> True)"

lemma rbind_simps [simp]:
  "rbind (Inl e) f = Inl e"
  "rbind (Inr a) f = f a"
  by (simp_all add: rbind_def)

lemma rbind_eq_Inr_iff [result_simps]:
  "rbind r f = Inr b \<longleftrightarrow> (\<exists>a. r = Inr a \<and> f a = Inr b)"
  by (simp add: rbind_def split: sum.splits)

lemma rbind_eq_Inl_iff [result_simps]:
  "rbind r f = Inl e \<longleftrightarrow> r = Inl e \<or> (\<exists>a. r = Inr a \<and> f a = Inl e)"
  by (auto simp: rbind_def split: sum.splits)

lemma ensure_eq_Inr_iff [simp]: "ensure c e = Inr u \<longleftrightarrow> c"
  by (simp add: ensure_def)

lemma ensure_eq_Inl_iff [simp]: "ensure c e = Inl e' \<longleftrightarrow> \<not> c \<and> e' = e"
  by (auto simp: ensure_def)

lemma ensure_simps [simp]:
  "ensure True e = Inr ()"
  "ensure False e = Inl e"
  by (simp_all add: ensure_def)

lemma ok_or_simps [simp]:
  "ok_or None e = Inl e"
  "ok_or (Some a) e = Inr a"
  by (simp_all add: ok_or_def)

lemma ok_or_eq_Inr_iff [result_simps]: "ok_or x e = Inr a \<longleftrightarrow> x = Some a"
  by (simp add: ok_or_def split: option.splits)

lemma ok_or_eq_Inl_iff [result_simps]: "ok_or x e = Inl e' \<longleftrightarrow> x = None \<and> e' = e"
  by (auto simp: ok_or_def split: option.splits)

lemma map_err_simps [simp]:
  "map_err g (Inl e) = Inl (g e)"
  "map_err g (Inr a) = Inr a"
  by (simp_all add: map_err_def)

lemma map_err_eq_Inr_iff [result_simps]: "map_err g r = Inr a \<longleftrightarrow> r = Inr a"
  by (simp add: map_err_def split: sum.splits)

lemma map_err_eq_Inl_iff [result_simps]: "map_err g r = Inl e \<longleftrightarrow> (\<exists>d. r = Inl d \<and> e = g d)"
  by (auto simp: map_err_def split: sum.splits)

lemma is_ok_simps [simp]:
  "is_ok (Inl e) \<longleftrightarrow> False"
  "is_ok (Inr a) \<longleftrightarrow> True"
  by (simp_all add: is_ok_def)

lemma is_ok_iff [result_simps]: "is_ok r \<longleftrightarrow> (\<exists>a. r = Inr a)"
  by (cases r) simp_all

subsection \<open>Machine integers\<close>

definition checked_add :: "'a::len word \<Rightarrow> 'a word \<Rightarrow> 'a word option" where
  "checked_add a b = (if unat a + unat b < 2 ^ LENGTH('a) then Some (a + b) else None)"

definition checked_sub :: "'a::len word \<Rightarrow> 'a word \<Rightarrow> 'a word option" where
  "checked_sub a b = (if b \<le> a then Some (a - b) else None)"

definition saturating_add :: "'a::len word \<Rightarrow> 'a word \<Rightarrow> 'a word" where
  "saturating_add a b = (if unat a + unat b < 2 ^ LENGTH('a) then a + b else - 1)"

text \<open>The \<open>-\<close> of \<open>usize\<close> in the release profile: it wraps at 64 bits.\<close>

definition usize_sub :: "nat \<Rightarrow> nat \<Rightarrow> nat" where
  "usize_sub a b = (if b \<le> a then a - b else a + 2 ^ 64 - b)"

lemma checked_add_SomeD:
  fixes a b :: "'a::len word"
  assumes "checked_add a b = Some c"
  shows "unat c = unat a + unat b"
  using assms by (auto simp: checked_add_def unat_word_ariths split: if_splits)

lemma checked_add_one_SomeD:
  fixes a :: u64
  assumes "checked_add a 1 = Some c"
  shows "unat c = Suc (unat a)"
  using checked_add_SomeD [OF assms] by simp

lemma checked_add_one_eq_None_iff: "checked_add (a :: u64) 1 = None \<longleftrightarrow> a = - 1"
proof -
  have bound: "unat a < 2 ^ 64" using unsigned_less [of a] by simp
  have top: "unat (- 1 :: u64) = 2 ^ 64 - 1" by (simp only: unsigned_minus_1_eq_mask) (simp add: mask_eq_exp_minus_1)
  have "a = - 1 \<longleftrightarrow> unat a = 2 ^ 64 - 1" by (simp only: word_unat_eq_iff top)
  with bound show ?thesis by (auto simp: checked_add_def)
qed

lemma checked_sub_SomeD:
  fixes a b :: "'a::len word"
  assumes "checked_sub a b = Some c"
  shows "unat a = unat c + unat b"
  using assms by (auto simp: checked_sub_def unat_sub word_le_nat_alt split: if_splits)

lemma usize_sub_exact [simp]: "b \<le> a \<Longrightarrow> usize_sub a b = a - b"
  by (simp add: usize_sub_def)

text \<open>\<open>Instant\<close> counts seconds in an \<open>i64\<close>; \<open>checked_add\<close> fails past its end.\<close>

definition instant_end :: nat where
  "instant_end = 2 ^ 63 * 1000000000"

subsection \<open>Bytes\<close>

definition byte :: "char \<Rightarrow> nat" where
  "byte c = of_char c"

definition is_ascii_control :: "char \<Rightarrow> bool" where
  "is_ascii_control c \<longleftrightarrow> byte c < 32 \<or> byte c = 127"

definition is_ascii_graphic :: "char \<Rightarrow> bool" where
  "is_ascii_graphic c \<longleftrightarrow> 33 \<le> byte c \<and> byte c \<le> 126"

definition is_ascii_digit :: "char \<Rightarrow> bool" where
  "is_ascii_digit c \<longleftrightarrow> 48 \<le> byte c \<and> byte c \<le> 57"

definition is_lower_hex_letter :: "char \<Rightarrow> bool" where
  "is_lower_hex_letter c \<longleftrightarrow> 97 \<le> byte c \<and> byte c \<le> 102"

definition is_ascii_hexdigit :: "char \<Rightarrow> bool" where
  "is_ascii_hexdigit c \<longleftrightarrow> is_ascii_digit c \<or> is_lower_hex_letter c \<or> (65 \<le> byte c \<and> byte c \<le> 70)"

text \<open>The text bound that the policy, connector and store contracts repeat.\<close>

definition bounded_text :: "nat \<Rightarrow> string \<Rightarrow> bool" where
  "bounded_text n s \<longleftrightarrow> s \<noteq> [] \<and> length s \<le> n \<and> \<not> list_ex is_ascii_control s"

lemmas byte_defs = byte_def is_ascii_control_def is_ascii_graphic_def is_ascii_digit_def
  is_lower_hex_letter_def is_ascii_hexdigit_def

subsection \<open>Big-endian integers\<close>

text \<open>\<open>to_be_bytes\<close> and \<open>from_be_bytes\<close>.\<close>

fun be_bytes :: "nat \<Rightarrow> nat \<Rightarrow> string" where
  "be_bytes 0 n = []"
| "be_bytes (Suc k) n = be_bytes k (n div 256) @ [char_of (n mod 256)]"

definition be_value :: "string \<Rightarrow> nat" where
  "be_value bs = foldl (\<lambda>n c. 256 * n + byte c) 0 bs"

lemma byte_less [simp]: "byte c < 256"
  by (simp add: byte_def)

lemma byte_char_of [simp]: "byte (char_of n) = n mod 256"
  unfolding byte_def by (rule of_char_of)

lemma length_be_bytes [simp]: "length (be_bytes k n) = k"
  by (induction k arbitrary: n) simp_all

lemma be_bytes_eq_Nil_iff [simp]: "be_bytes k n = [] \<longleftrightarrow> k = 0"
  by (metis length_0_conv length_be_bytes)

lemma be_bytes_inject: "m < 256 ^ k \<Longrightarrow> n < 256 ^ k \<Longrightarrow> be_bytes k m = be_bytes k n \<longleftrightarrow> m = n"
proof (induction k arbitrary: m n)
  case (Suc k)
  have "m div 256 < 256 ^ k" "n div 256 < 256 ^ k" using Suc.prems by (simp_all add: div_less_iff_less_mult ac_simps)
  moreover have "char_of (m mod 256) = (char_of (n mod 256) :: char) \<longleftrightarrow> m mod 256 = n mod 256"
    by (metis byte_char_of mod_mod_trivial)
  ultimately show ?case using Suc.IH [of "m div 256" "n div 256"]
    by (auto) (metis div_mult_mod_eq)
qed simp

lemma char_of_byte [simp]: "char_of (byte c) = c"
  by (simp add: byte_def)

lemma be_value_be_bytes: "be_value (be_bytes k n) = n mod 256 ^ k"
proof (induction k arbitrary: n)
  case (Suc k)
  have "be_value (be_bytes (Suc k) n) = 256 * (n div 256 mod 256 ^ k) + n mod 256"
    using Suc [of "n div 256"] by (simp add: be_value_def)
  also have "\<dots> = n mod 256 ^ Suc k"
    by (simp add: mod_mult2_eq)
  finally show ?case .
qed (simp add: be_value_def)

lemma be_bytes_be_value: "be_bytes (length bs) (be_value bs) = bs"
  by (induction bs rule: rev_induct) (simp_all add: be_value_def)

lemma be_value_less: "be_value bs < 256 ^ length bs"
  by (metis be_bytes_be_value be_value_be_bytes mod_less_divisor zero_less_numeral zero_less_power)

subsection \<open>Hexadecimal text\<close>

text \<open>\<open>write!(output, "{byte:02x}")\<close> for every byte, and its inverse on pairs of digits.\<close>

definition hex_digit :: "nat \<Rightarrow> char" where
  "hex_digit n = char_of (if n < 10 then 48 + n else 87 + n)"

fun hex :: "string \<Rightarrow> string" where
  "hex [] = []"
| "hex (b # bs) = hex_digit (byte b div 16) # hex_digit (byte b mod 16) # hex bs"

definition hex_value :: "char \<Rightarrow> nat" where
  "hex_value c = (if is_ascii_digit c then byte c - 48 else byte c - 87)"

fun unhex_pairs :: "string \<Rightarrow> string" where
  "unhex_pairs (a # b # cs) = char_of (16 * hex_value a + hex_value b) # unhex_pairs cs"
| "unhex_pairs _ = []"

lemma byte_hex_digit: "n < 16 \<Longrightarrow> byte (hex_digit n) = (if n < 10 then 48 + n else 87 + n)"
  by (simp add: hex_digit_def)

lemma hex_digit_canonical:
  "n < 16 \<Longrightarrow> is_ascii_digit (hex_digit n) \<or> is_lower_hex_letter (hex_digit n)"
  by (auto simp: is_ascii_digit_def is_lower_hex_letter_def byte_hex_digit)

lemma hex_value_hex_digit: "n < 16 \<Longrightarrow> hex_value (hex_digit n) = n"
  by (auto simp: hex_value_def is_ascii_digit_def byte_hex_digit)

lemma hex_digit_hex_value:
  assumes "is_ascii_digit c \<or> is_lower_hex_letter c"
  shows "hex_value c < 16 \<and> hex_digit (hex_value c) = c"
proof -
  have "hex_digit (hex_value c) = char_of (byte c)"
    using assms by (auto simp: hex_digit_def hex_value_def is_ascii_digit_def is_lower_hex_letter_def)
  then show ?thesis
    using assms by (auto simp: hex_value_def is_ascii_digit_def is_lower_hex_letter_def)
qed

lemma length_hex [simp]: "length (hex bs) = 2 * length bs"
  by (induction bs) simp_all

lemma list_all_hex: "list_all (\<lambda>c. is_ascii_digit c \<or> is_lower_hex_letter c) (hex bs)"
proof (induction bs)
  case (Cons b bs)
  have "byte b div 16 < 16" and "byte b mod 16 < 16" using byte_less [of b] by linarith+
  with Cons show ?case by (simp add: hex_digit_canonical)
qed simp

lemma unhex_pairs_hex [simp]: "unhex_pairs (hex bs) = bs"
proof (induction bs)
  case (Cons b bs)
  have d: "byte b div 16 < 16" "byte b mod 16 < 16" using byte_less [of b] by linarith+
  have "16 * (byte b div 16) + byte b mod 16 = byte b" by simp
  with Cons d show ?case by (simp add: hex_value_hex_digit)
qed simp

lemma hex_unhex_pairs:
  assumes "list_all (\<lambda>c. is_ascii_digit c \<or> is_lower_hex_letter c) s" and "even (length s)"
  shows "hex (unhex_pairs s) = s"
  using assms
proof (induction s rule: unhex_pairs.induct)
  case (1 a b cs)
  then have a: "hex_value a < 16 \<and> hex_digit (hex_value a) = a"
    and b: "hex_value b < 16 \<and> hex_digit (hex_value b) = b"
    by (simp_all add: hex_digit_hex_value)
  then have "(16 * hex_value a + hex_value b) mod 256 = 16 * hex_value a + hex_value b" by simp
  with a b 1 show ?case by simp
qed auto

subsection \<open>Slices\<close>

text \<open>\<open>values.windows(2).all(|w| w[0] < w[1])\<close>\<close>

fun strictly_sorted_unique :: "'a::linorder list \<Rightarrow> bool" where
  "strictly_sorted_unique (x # y # zs) \<longleftrightarrow> x < y \<and> strictly_sorted_unique (y # zs)"
| "strictly_sorted_unique _ \<longleftrightarrow> True"

lemma strictly_sorted_unique_iff: "strictly_sorted_unique xs \<longleftrightarrow> sorted_wrt (<) xs"
proof (induction xs rule: strictly_sorted_unique.induct)
  case (1 x y zs)
  then show ?case by (auto intro: less_trans)
qed simp_all

lemma strictly_sorted_unique_distinct: "strictly_sorted_unique xs \<Longrightarrow> distinct xs"
  by (simp add: strictly_sorted_unique_iff strict_sorted_iff)

text \<open>
  \<open>slice::binary_search_by\<close>: the loop of the standard library keeps a base and a size and
  halves the size; the comparison of the element at the base decides the result. \<open>below x\<close>
  says that \<open>x\<close> compares greater than the key.
\<close>

function bs_loop :: "('a \<Rightarrow> bool) \<Rightarrow> 'a list \<Rightarrow> nat \<Rightarrow> nat \<Rightarrow> nat" where
  "bs_loop gt xs base sz =
     (if sz \<le> 1 then base
      else let half = sz div 2; mid = base + half
           in bs_loop gt xs (if gt (xs ! mid) then base else mid) (sz - half))"
  by pat_completeness auto
termination
  by (relation "measure (\<lambda>(gt, xs, base, sz). sz)") auto

declare bs_loop.simps [simp del]

definition binary_search_by :: "('b::linorder) \<Rightarrow> ('a \<Rightarrow> 'b) \<Rightarrow> 'a list \<Rightarrow> nat option" where
  "binary_search_by k f xs =
     (if xs = [] then None
      else let i = bs_loop (\<lambda>x. k < f x) xs 0 (length xs)
           in if f (xs ! i) = k then Some i else None)"

lemma bs_loop_range:
  assumes "0 < sz" and "base + sz \<le> length xs"
  shows "base \<le> bs_loop gt xs base sz \<and> bs_loop gt xs base sz < base + sz"
  using assms
proof (induction gt xs base sz rule: bs_loop.induct)
  case (1 gt xs base sz)
  show ?case
  proof (cases "sz \<le> 1")
    case True
    with 1(2) show ?thesis by (simp add: bs_loop.simps)
  next
    case False
    let ?half = "sz div 2"
    let ?base = "if gt (xs ! (base + ?half)) then base else base + ?half"
    have "?base \<le> bs_loop gt xs ?base (sz - ?half) \<and>
      bs_loop gt xs ?base (sz - ?half) < ?base + (sz - ?half)"
      using False 1(3) by (intro 1(1)) auto
    with False show ?thesis
      by (auto simp add: bs_loop.simps [of gt xs base sz] Let_def split: if_splits)
  qed
qed

lemma binary_search_by_SomeD:
  assumes "binary_search_by k f xs = Some i"
  shows "i < length xs \<and> f (xs ! i) = k"
  using assms bs_loop_range [of "length xs" 0 xs "\<lambda>x. k < f x"]
  by (auto simp: binary_search_by_def Let_def split: if_splits)

lemma bs_loop_finds:
  fixes f :: "'a \<Rightarrow> 'b::linorder"
  assumes sorted: "sorted_wrt (\<lambda>x y. f x < f y) xs" and key: "f (xs ! j) = k"
  shows "base + sz \<le> length xs \<Longrightarrow> base \<le> j \<Longrightarrow> j < base + sz \<Longrightarrow>
    bs_loop (\<lambda>x. k < f x) xs base sz = j"
proof (induction sz arbitrary: base rule: less_induct)
  case (less sz)
  show ?case
  proof (cases "sz \<le> 1")
    case True
    with less.prems show ?thesis by (simp add: bs_loop.simps)
  next
    case False
    let ?half = "sz div 2"
    let ?mid = "base + ?half"
    have mid: "?mid < length xs" and j: "j < length xs" using False less.prems by auto
    have lt: "f (xs ! a) < f (xs ! b)" if "a < b" "b < length xs" for a b
      using sorted_wrt_nth_less [OF sorted that] .
    have cmp: "k < f (xs ! ?mid) \<longleftrightarrow> j < ?mid"
      using lt [of j ?mid] lt [of ?mid j] mid j key by (cases j ?mid rule: linorder_cases) auto
    have "bs_loop (\<lambda>x. k < f x) xs (if k < f (xs ! ?mid) then base else ?mid) (sz - ?half) = j"
      using False less.prems cmp by (intro less.IH) auto
    with False show ?thesis
      by (simp add: bs_loop.simps [of _ xs base sz] Let_def)
  qed
qed

lemma binary_search_by_eq_None_iff:
  fixes f :: "'a \<Rightarrow> 'b::linorder"
  assumes "sorted_wrt (\<lambda>x y. f x < f y) xs"
  shows "binary_search_by k f xs = None \<longleftrightarrow> k \<notin> f ` set xs"
proof
  assume none: "binary_search_by k f xs = None"
  show "k \<notin> f ` set xs"
  proof
    assume "k \<in> f ` set xs"
    then obtain j where j: "j < length xs" and key: "f (xs ! j) = k"
      by (auto simp: in_set_conv_nth)
    have "bs_loop (\<lambda>x. k < f x) xs 0 (length xs) = j"
      using j by (intro bs_loop_finds [OF assms key]) auto
    with none j key show False by (auto simp: binary_search_by_def Let_def split: if_splits)
  qed
next
  assume "k \<notin> f ` set xs"
  then show "binary_search_by k f xs = None"
    using binary_search_by_SomeD [of k f xs]
    by (cases "binary_search_by k f xs") auto
qed

text \<open>
  \<open>is_subset\<close> of the protocol crate searches each child value in the parent slice. A success
  always means inclusion; with a strictly sorted parent it is exactly inclusion.
\<close>

definition slice_contains_sorted :: "'a::linorder list \<Rightarrow> 'a \<Rightarrow> bool" where
  "slice_contains_sorted xs x \<longleftrightarrow> binary_search_by x id xs \<noteq> None"

lemma slice_contains_sorted_sound: "slice_contains_sorted xs x \<Longrightarrow> x \<in> set xs"
  using binary_search_by_SomeD [of x id xs] by (auto simp: slice_contains_sorted_def)

lemma slice_contains_sorted_iff:
  "strictly_sorted_unique xs \<Longrightarrow> slice_contains_sorted xs x \<longleftrightarrow> x \<in> set xs"
  by (simp add: slice_contains_sorted_def binary_search_by_eq_None_iff
      strictly_sorted_unique_iff)

subsection \<open>Reachability and invariants\<close>

inductive reach :: "('s \<Rightarrow> bool) \<Rightarrow> ('s \<Rightarrow> 's \<Rightarrow> bool) \<Rightarrow> 's \<Rightarrow> bool"
  for init :: "'s \<Rightarrow> bool" and step :: "'s \<Rightarrow> 's \<Rightarrow> bool" where
  reach_init: "init s \<Longrightarrow> reach init step s"
| reach_step: "reach init step s \<Longrightarrow> step s t \<Longrightarrow> reach init step t"

lemma reach_run: "reach init step s \<Longrightarrow> step\<^sup>*\<^sup>* s t \<Longrightarrow> reach init step t"
  by (rotate_tac, induction rule: rtranclp_induct) (auto intro: reach_step)

text \<open>
  The contract of a component with an inductive invariant: the start states satisfy it and every
  step keeps it. A component's theory interprets the locale on its own start states and steps.
\<close>

locale invariant_system =
  fixes init :: "'s \<Rightarrow> bool" and step :: "'s \<Rightarrow> 's \<Rightarrow> bool" and invar :: "'s \<Rightarrow> bool"
  assumes invar_init: "init s \<Longrightarrow> invar s"
    and invar_step: "invar s \<Longrightarrow> step s t \<Longrightarrow> invar t"
begin

lemma invar_reach: "reach init step s \<Longrightarrow> invar s"
  by (induction rule: reach.induct) (auto intro: invar_init invar_step)

lemma invar_run: "step\<^sup>*\<^sup>* s t \<Longrightarrow> invar s \<Longrightarrow> invar t"
  by (induction rule: rtranclp_induct) (auto intro: invar_step)

end

end
