(* ===== verification/BTree_Map.thy ===== *)
theory BTree_Map
  imports Cigar_Prelude
begin

text \<open>
  The ordered maps of the source. A \<open>BTreeMap<K, V>\<close> is the strictly sorted list of its entries:
  iteration order, \<open>pop_first\<close> and "first key that \<dots>" are then ordinary list operations. The
  locale \<open>ordered_map\<close> is the interface the components use; it is interpreted here on the
  sorted lists, and the components cite its lemmas through that interpretation.
\<close>

type_synonym ('k, 'v) btree = "('k \<times> 'v) list"

definition bt_invar :: "('k::linorder, 'v) btree \<Rightarrow> bool" where
  "bt_invar m \<longleftrightarrow> sorted_wrt (<) (map fst m)"

abbreviation bt_get :: "('k, 'v) btree \<Rightarrow> 'k \<Rightarrow> 'v option" where
  "bt_get \<equiv> map_of"

fun bt_insert :: "'k::linorder \<Rightarrow> 'v \<Rightarrow> ('k, 'v) btree \<Rightarrow> ('k, 'v) btree" where
  "bt_insert k v [] = [(k, v)]"
| "bt_insert k v ((k', v') # m) =
     (if k < k' then (k, v) # (k', v') # m
      else if k = k' then (k, v) # m
      else (k', v') # bt_insert k v m)"

definition bt_remove :: "'k \<Rightarrow> ('k, 'v) btree \<Rightarrow> ('k, 'v) btree" where
  "bt_remove k m = filter (\<lambda>(k', _). k' \<noteq> k) m"

definition bt_retain :: "('k \<Rightarrow> 'v \<Rightarrow> bool) \<Rightarrow> ('k, 'v) btree \<Rightarrow> ('k, 'v) btree" where
  "bt_retain p m = filter (\<lambda>(k, v). p k v) m"

definition bt_keys :: "('k, 'v) btree \<Rightarrow> 'k list" where
  "bt_keys m = map fst m"

definition bt_values :: "('k, 'v) btree \<Rightarrow> 'v list" where
  "bt_values m = map snd m"

text \<open>\<open>get_mut\<close> followed by a write through the reference: the value at an existing key changes.\<close>

definition bt_update :: "'k \<Rightarrow> ('v \<Rightarrow> 'v) \<Rightarrow> ('k, 'v) btree \<Rightarrow> ('k, 'v) btree" where
  "bt_update k f m = map (\<lambda>(k', v). (k', if k' = k then f v else v)) m"

subsection \<open>The representation\<close>

lemma bt_invar_Nil [simp]: "bt_invar []"
  by (simp add: bt_invar_def)

lemma bt_invar_distinct: "bt_invar m \<Longrightarrow> distinct (map fst m)"
  by (simp add: bt_invar_def strict_sorted_iff)

lemma set_map_fst_bt_insert [simp]: "fst ` set (bt_insert k v m) = insert k (fst ` set m)"
  by (induction k v m rule: bt_insert.induct) auto

lemma bt_invar_insert: "bt_invar m \<Longrightarrow> bt_invar (bt_insert k v m)"
proof (induction k v m rule: bt_insert.induct)
  case (2 k v k' v' m)
  have keys: "fst x \<in> insert k (fst ` set m)" if "x \<in> set (bt_insert k v m)" for x
    using that set_map_fst_bt_insert [of k v m] by blast
  show ?case
  proof (cases k k' rule: linorder_cases)
    case greater
    with 2 keys show ?thesis by (fastforce simp: bt_invar_def)
  qed (use "2.prems" in \<open>auto simp: bt_invar_def intro: less_trans\<close>)
qed (simp add: bt_invar_def)

lemma bt_invar_filter: "bt_invar m \<Longrightarrow> bt_invar (filter P m)"
proof (induction m)
  case (Cons x m)
  then show ?case by (auto simp: bt_invar_def)
qed simp

lemma bt_invar_remove: "bt_invar m \<Longrightarrow> bt_invar (bt_remove k m)"
  by (simp add: bt_remove_def bt_invar_filter)

lemma bt_invar_retain: "bt_invar m \<Longrightarrow> bt_invar (bt_retain p m)"
  by (simp add: bt_retain_def bt_invar_filter)

lemma bt_invar_tl: "bt_invar m \<Longrightarrow> bt_invar (tl m)"
  by (cases m) (simp_all add: bt_invar_def)

lemma bt_keys_update [simp]: "bt_keys (bt_update k f m) = bt_keys m"
  by (induction m) (auto simp: bt_update_def bt_keys_def)

lemma bt_invar_update: "bt_invar m \<Longrightarrow> bt_invar (bt_update k f m)"
  using bt_keys_update [of k f m] by (simp add: bt_invar_def bt_keys_def)

lemma bt_get_insert: "bt_get (bt_insert k v m) = (bt_get m)(k \<mapsto> v)"
  by (induction k v m rule: bt_insert.induct) auto

lemma bt_get_remove: "bt_get (bt_remove k m) = (bt_get m)(k := None)"
  by (induction m) (auto simp: bt_remove_def)

lemma bt_get_update: "bt_get (bt_update k f m) = (bt_get m)(k := map_option f (bt_get m k))"
  by (induction m) (auto simp: bt_update_def)

lemma bt_get_filter:
  assumes "distinct (map fst m)"
  shows "map_of (filter (\<lambda>(k, v). p k v) m) k =
    (case map_of m k of None \<Rightarrow> None | Some v \<Rightarrow> if p k v then Some v else None)"
  using assms
proof (induction m)
  case (Cons x m)
  then show ?case
    by (cases x) (auto split: option.splits dest: map_of_SomeD intro: rev_image_eqI)
qed simp

lemma bt_get_retain:
  "bt_invar m \<Longrightarrow> bt_get (bt_retain p m) k =
    (case bt_get m k of None \<Rightarrow> None | Some v \<Rightarrow> if p k v then Some v else None)"
  by (simp add: bt_retain_def bt_get_filter bt_invar_distinct)

lemma length_bt_insert:
  "bt_invar m \<Longrightarrow> length (bt_insert k v m) = (if bt_get m k = None then Suc (length m) else length m)"
proof (induction k v m rule: bt_insert.induct)
  case (2 k v k' v' m)
  then show ?case
    by (cases k k' rule: linorder_cases) (auto simp: bt_invar_def map_of_eq_None_iff)
qed simp

lemma filter_keys_bt_insert:
  "length (filter P (bt_keys (bt_insert k v m))) \<le> length (filter P (bt_keys m)) + (if P k then 1 else 0)"
  by (induction k v m rule: bt_insert.induct) (auto simp: bt_keys_def)

lemma set_bt_insert: "bt_invar m \<Longrightarrow> set (bt_insert k v m) = insert (k, v) (set (bt_remove k m))"
proof (induction k v m rule: bt_insert.induct)
  case (2 k v k' v' m)
  have "filter (\<lambda>(x, _). x \<noteq> k) m = m" if "k \<le> k'"
    using "2.prems" that by (intro filter_True) (auto simp: bt_invar_def)
  with 2 show ?case
    by (cases k k' rule: linorder_cases) (auto simp: bt_remove_def bt_invar_def)
qed (simp add: bt_remove_def)

lemma bt_ext:
  assumes "bt_invar m" "bt_invar m'" "\<And>k v. bt_get m k = Some v \<longleftrightarrow> bt_get m' k = Some v"
  shows "m = m'"
proof (rule map_sorted_distinct_set_unique [of fst])
  have "bt_get m k = bt_get m' k" for k
    using assms(3) [of k "the (bt_get m k)"] assms(3) [of k "the (bt_get m' k)"]
    by (cases "bt_get m k"; cases "bt_get m' k") simp_all
  then have "bt_get m = bt_get m'" by (rule ext)
  then show set: "set m = set m'" using assms(1,2) by (simp add: map_of_inject_set bt_invar_distinct)
  have "inj_on fst (set m)" using bt_invar_distinct [OF assms(1)] by (simp add: distinct_map)
  with set show "inj_on fst (set m \<union> set m')" by simp
qed (use assms in \<open>auto simp: bt_invar_def strict_sorted_iff\<close>)

subsection \<open>The interface\<close>

locale ordered_map =
  fixes empty :: "'m"
    and insert :: "'k::linorder \<Rightarrow> 'v \<Rightarrow> 'm \<Rightarrow> 'm"
    and remove :: "'k \<Rightarrow> 'm \<Rightarrow> 'm"
    and lookup :: "'m \<Rightarrow> 'k \<Rightarrow> 'v option"
    and entries :: "'m \<Rightarrow> ('k \<times> 'v) list"
    and invar :: "'m \<Rightarrow> bool"
  assumes invar_empty: "invar empty"
    and invar_insert: "invar m \<Longrightarrow> invar (insert k v m)"
    and invar_remove: "invar m \<Longrightarrow> invar (remove k m)"
    and entries_empty: "entries empty = []"
    and entries_sorted: "invar m \<Longrightarrow> sorted_wrt (<) (map fst (entries m))"
    and lookup_entries: "invar m \<Longrightarrow> lookup m = map_of (entries m)"
    and lookup_insert: "invar m \<Longrightarrow> lookup (insert k v m) = (lookup m)(k \<mapsto> v)"
    and lookup_remove: "invar m \<Longrightarrow> lookup (remove k m) = (lookup m)(k := None)"
begin

lemma lookup_eq_Some_iff: "invar m \<Longrightarrow> lookup m k = Some v \<longleftrightarrow> (k, v) \<in> set (entries m)"
  using entries_sorted [of m] by (simp add: lookup_entries strict_sorted_iff)

lemma lookup_eq_None_iff: "invar m \<Longrightarrow> lookup m k = None \<longleftrightarrow> k \<notin> fst ` set (entries m)"
  by (simp add: lookup_entries map_of_eq_None_iff)

lemma insert_then_lookup: "invar m \<Longrightarrow> lookup (insert k v m) k = Some v"
  by (simp add: lookup_insert)

lemma entries_insert: "invar m \<Longrightarrow>
  set (entries (insert k v m)) = Set.insert (k, v) {(k', v') \<in> set (entries m). k' \<noteq> k}"
proof -
  assume m: "invar m"
  have "(k', v') \<in> set (entries (insert k v m)) \<longleftrightarrow>
    (k', v') \<in> Set.insert (k, v) {(k', v') \<in> set (entries m). k' \<noteq> k}" for k' v'
    using m by (auto simp flip: lookup_eq_Some_iff [OF invar_insert [OF m]] lookup_eq_Some_iff
        simp: lookup_insert split: if_splits)
  then show ?thesis by auto
qed

lemma entries_remove: "invar m \<Longrightarrow>
  set (entries (remove k m)) = {(k', v') \<in> set (entries m). k' \<noteq> k}"
proof -
  assume m: "invar m"
  have "(k', v') \<in> set (entries (remove k m)) \<longleftrightarrow>
    (k', v') \<in> {(k', v') \<in> set (entries m). k' \<noteq> k}" for k' v'
    using m by (auto simp flip: lookup_eq_Some_iff [OF invar_remove [OF m]] lookup_eq_Some_iff
        simp: lookup_remove split: if_splits)
  then show ?thesis by auto
qed

end

interpretation bt: ordered_map "[]" bt_insert bt_remove bt_get "\<lambda>m. m" bt_invar
  by unfold_locales
    (simp_all add: bt_invar_insert bt_invar_remove bt_get_insert bt_get_remove, simp add: bt_invar_def)

text \<open>
  Sums over the values in any commutative monoid: byte and job counts as numbers, and the queued
  jobs themselves as multisets.
\<close>

definition bt_sum :: "('v \<Rightarrow> 'b::comm_monoid_add) \<Rightarrow> ('k, 'v) btree \<Rightarrow> 'b" where
  "bt_sum f m = sum_list (map f (bt_values m))"

lemma bt_sum_simps [simp]:
  "bt_sum f [] = 0"
  "bt_sum f (x # m) = f (snd x) + bt_sum f m"
  by (simp_all add: bt_sum_def bt_values_def)

lemma bt_sum_insert_fresh: "bt_get m k = None \<Longrightarrow> bt_sum f (bt_insert k v m) = f v + bt_sum f m"
  by (induction k v m rule: bt_insert.induct) (auto simp: ac_simps split: if_splits)

lemma bt_remove_absent: "k \<notin> fst ` set m \<Longrightarrow> bt_remove k m = m"
  by (force simp: bt_remove_def intro!: filter_True)

lemma bt_update_absent: "k \<notin> fst ` set m \<Longrightarrow> bt_update k g m = m"
  by (force simp: bt_update_def intro!: map_idI)

lemma bt_sum_remove:
  "bt_invar m \<Longrightarrow> bt_get m k = Some v \<Longrightarrow> bt_sum f m = f v + bt_sum f (bt_remove k m)"
proof (induction m)
  case (Cons x m)
  have "k \<notin> fst ` set m" if "fst x = k" using Cons.prems(1) that by (auto simp: bt_invar_def)
  with Cons show ?case
    by (auto simp: bt_remove_def bt_invar_def ac_simps bt_remove_absent [unfolded bt_remove_def]
        split: if_splits)
qed simp

lemma bt_sum_remove_le: "bt_sum f (bt_remove k m) \<le> (bt_sum f m :: nat)"
  by (induction m) (auto simp: bt_remove_def)

lemma bt_sum_update:
  "bt_invar m \<Longrightarrow> bt_get m k = Some v \<Longrightarrow>
    bt_sum f (bt_update k g m) + f v = bt_sum f m + f (g v)"
proof (induction m)
  case (Cons x m)
  obtain k' v' where x: "x = (k', v')" by (cases x)
  have inv: "bt_invar m" using Cons.prems(1) by (simp add: bt_invar_def)
  show ?case
  proof (cases "k' = k")
    case True
    then have "bt_update k g m = m"
      using Cons.prems x by (intro bt_update_absent) (auto simp: bt_invar_def)
    with True Cons.prems x show ?thesis by (simp add: bt_update_def ac_simps)
  next
    case False
    with Cons.prems x have "bt_sum f (bt_update k g m) + f v = bt_sum f m + f (g v)"
      by (intro Cons.IH inv) simp
    with False x show ?thesis by (simp add: bt_update_def add.assoc)
  qed
qed simp

lemma bt_sum_ge: "bt_get m k = Some v \<Longrightarrow> f v \<le> (bt_sum f m :: nat)"
  by (induction m) (auto split: if_splits)

lemma bt_sum_eq_0_iff: "bt_sum f m = (0 :: nat) \<longleftrightarrow> (\<forall>(k, v) \<in> set m. f v = 0)"
  by (induction m) auto

end
