(* ===== verification/Broker_Auth.thy ===== *)
theory Broker_Auth
  imports Cigar_Prelude
begin

text \<open>
  The connection handshake of the context broker (\<open>cigar-context/src/broker/authentication.rs\<close>
  and the helpers of \<open>broker/mod.rs\<close> it calls). SHA-256 and HMAC-SHA256 come from external
  crates: they are the two fields of \<open>broker_crypto\<close>, a parameter of every definition that calls
  them. \<open>random_id\<close> draws from the operating system, so the drawn bytes (or its failure) are an
  argument.
\<close>

datatype context_error =
  CtxInvalidInput | CtxLimitExceeded | CtxRequiredUnavailable | CtxBudgetUnsatisfiable
  | CtxTokenizer | CtxIntegrity | CtxBaseMismatch

datatype broker_error =
  AccessDenied | Stale | Conflict | Quota | InvalidInput | Unavailable | Context context_error

record broker_credential =
  cred_epoch :: string
  cred_secret :: string

record broker_crypto =
  sha256 :: "string \<Rightarrow> string"
  hmac_sha256 :: "string \<Rightarrow> string \<Rightarrow> string"

text \<open>The documented output size of both primitives.\<close>

definition crypto_ok :: "broker_crypto \<Rightarrow> bool" where
  "crypto_ok C \<longleftrightarrow> (\<forall>m. length (sha256 C m) = 32) \<and> (\<forall>k m. length (hmac_sha256 C k m) = 32)"

subsection \<open>Hexadecimal text\<close>

definition canonical_hex :: "string \<Rightarrow> bool" where
  "canonical_hex s \<longleftrightarrow>
     length s = 64 \<and> list_all (\<lambda>c. is_ascii_digit c \<or> is_lower_hex_letter c) s"

definition unhex :: "string \<Rightarrow> (broker_error, string) result" where
  "unhex s = (if canonical_hex s then Inr (unhex_pairs s) else Inl AccessDenied)"

definition random_id :: "string option \<Rightarrow> (broker_error, string) result" where
  "random_id drawn = (case drawn of None \<Rightarrow> Inl Unavailable | Some bs \<Rightarrow> Inr (hex bs))"

subsection \<open>Handshake messages\<close>

definition BROKER_PROTOCOL :: string where
  "BROKER_PROTOCOL = ''cigar.context-broker.v1''"

definition server_proof_domain :: string where
  "server_proof_domain = ''cigar.broker-server-proof.v1'' @ [CHR 0x00]"

definition client_proof_domain :: string where
  "client_proof_domain = ''cigar.broker-client-proof.v1'' @ [CHR 0x00]"

record client_hello =
  hello_protocol :: string
  hello_epoch :: string
  hello_grant_id :: string
  hello_nonce :: string

record server_proof =
  sp_protocol :: string
  sp_epoch :: string
  sp_grant_id :: string
  sp_client_nonce :: string
  sp_server_nonce :: string
  sp_proof :: string

record client_proof =
  cp_protocol :: string
  cp_proof :: string

definition grant_id :: "broker_crypto \<Rightarrow> broker_credential \<Rightarrow> (broker_error, string) result" where
  "grant_id C cred =
     (if \<not> canonical_hex (cred_epoch cred) \<or> \<not> canonical_hex (cred_secret cred)
      then Inl AccessDenied
      else Inr (hex (sha256 C (''cigar.broker-grant-id.v1'' @ [CHR 0x00] @
                               cred_epoch cred @ cred_secret cred))))"

definition server_key_new :: "broker_credential \<Rightarrow> (broker_error, string) result" where
  "server_key_new cred = unhex (cred_secret cred)"

definition mac_message :: "string \<Rightarrow> server_proof \<Rightarrow> string" where
  "mac_message domain p =
     domain @ sp_epoch p @ sp_grant_id p @ sp_client_nonce p @ sp_server_nonce p"

definition mac :: "broker_crypto \<Rightarrow> string \<Rightarrow> string \<Rightarrow> server_proof \<Rightarrow> string" where
  "mac C key domain p = hmac_sha256 C key (mac_message domain p)"

definition hello_valid :: "client_hello \<Rightarrow> bool" where
  "hello_valid h \<longleftrightarrow> hello_protocol h = BROKER_PROTOCOL \<and> canonical_hex (hello_epoch h) \<and>
     canonical_hex (hello_grant_id h) \<and> canonical_hex (hello_nonce h)"

definition hello_matches :: "client_hello \<Rightarrow> server_proof \<Rightarrow> bool" where
  "hello_matches h p \<longleftrightarrow> hello_valid h \<and> sp_protocol p = BROKER_PROTOCOL \<and>
     sp_epoch p = hello_epoch h \<and> sp_grant_id p = hello_grant_id h \<and>
     sp_client_nonce p = hello_nonce h \<and> canonical_hex (sp_server_nonce p) \<and>
     canonical_hex (sp_proof p)"

definition hello_new ::
    "broker_crypto \<Rightarrow> string option \<Rightarrow> broker_credential \<Rightarrow> (broker_error, client_hello) result" where
  "hello_new C drawn cred =
     rbind (grant_id C cred) (\<lambda>g.
     rbind (random_id drawn) (\<lambda>n.
       Inr \<lparr>hello_protocol = BROKER_PROTOCOL, hello_epoch = cred_epoch cred,
            hello_grant_id = g, hello_nonce = n\<rparr>))"

definition key_prove ::
    "broker_crypto \<Rightarrow> string option \<Rightarrow> string \<Rightarrow> client_hello \<Rightarrow> (broker_error, server_proof) result" where
  "key_prove C drawn key h =
     (if \<not> hello_valid h then Inl AccessDenied
      else rbind (random_id drawn) (\<lambda>n.
        let p = \<lparr>sp_protocol = BROKER_PROTOCOL, sp_epoch = hello_epoch h,
                 sp_grant_id = hello_grant_id h, sp_client_nonce = hello_nonce h,
                 sp_server_nonce = n, sp_proof = []\<rparr>
        in Inr (p\<lparr>sp_proof := hex (mac C key server_proof_domain p)\<rparr>)))"

definition verify_server ::
    "broker_crypto \<Rightarrow> client_hello \<Rightarrow> broker_credential \<Rightarrow> server_proof
      \<Rightarrow> (broker_error, client_proof) result" where
  "verify_server C h cred p =
     (if hello_epoch h \<noteq> cred_epoch cred then Inl AccessDenied
      else rbind (grant_id C cred) (\<lambda>g.
        if hello_grant_id h \<noteq> g \<or> \<not> hello_matches h p then Inl AccessDenied
        else rbind (server_key_new cred) (\<lambda>key.
          rbind (unhex (sp_proof p)) (\<lambda>tag.
            if mac C key server_proof_domain p \<noteq> tag then Inl AccessDenied
            else Inr \<lparr>cp_protocol = BROKER_PROTOCOL,
                      cp_proof = hex (mac C key client_proof_domain p)\<rparr>))))"

definition verify_client ::
    "broker_crypto \<Rightarrow> string \<Rightarrow> client_hello \<Rightarrow> server_proof \<Rightarrow> client_proof
      \<Rightarrow> (broker_error, broker_credential) result" where
  "verify_client C key h p c =
     (if \<not> hello_matches h p \<or> cp_protocol c \<noteq> BROKER_PROTOCOL then Inl AccessDenied
      else rbind (unhex (cp_proof c)) (\<lambda>tag.
        if mac C key client_proof_domain p \<noteq> tag then Inl AccessDenied
        else Inr \<lparr>cred_epoch = hello_epoch h, cred_secret = hex key\<rparr>))"

subsection \<open>Hexadecimal round trips\<close>

lemma canonical_hex_hex [simp]: "canonical_hex (hex bs) \<longleftrightarrow> length bs = 32"
  by (auto simp: canonical_hex_def list_all_hex)

lemma unhex_eq_Inr_iff [result_simps]:
  "unhex s = Inr bs \<longleftrightarrow> canonical_hex s \<and> bs = unhex_pairs s"
  by (auto simp: unhex_def)

lemma hex_of_unhex: "unhex s = Inr bs \<Longrightarrow> hex bs = s"
  by (auto simp: unhex_def canonical_hex_def intro: hex_unhex_pairs split: if_splits)

lemma unhex_hex: "length bs = 32 \<Longrightarrow> unhex (hex bs) = Inr bs"
  by (simp add: unhex_def)

lemmas handshake_defs = hello_new_def key_prove_def verify_server_def verify_client_def
  server_key_new_def grant_id_def random_id_def hello_valid_def hello_matches_def

lemma handshake_completes:
  assumes "crypto_ok C"
    and "canonical_hex (cred_epoch cred)" and "canonical_hex (cred_secret cred)"
    and "length n1 = 32" and "length n2 = 32"
  shows "\<exists>h key p c. hello_new C (Some n1) cred = Inr h \<and> server_key_new cred = Inr key \<and>
    key_prove C (Some n2) key h = Inr p \<and> verify_server C h cred p = Inr c \<and>
    verify_client C key h p c = Inr cred"
proof -
  have "hex (unhex_pairs (cred_secret cred)) = cred_secret cred"
    using assms(3) by (intro hex_of_unhex) (simp add: unhex_def)
  with assms show ?thesis
    by (simp add: handshake_defs crypto_ok_def unhex_def mac_def mac_message_def Let_def)
qed

definition example_crypto :: broker_crypto where
  "example_crypto = \<lparr>sha256 = (\<lambda>m. replicate 32 (CHR ''s'')),
     hmac_sha256 = (\<lambda>k m. replicate 32 (CHR ''h''))\<rparr>"

definition example_credential :: broker_credential where
  "example_credential = \<lparr>cred_epoch = replicate 64 (CHR ''e''), cred_secret = replicate 64 (CHR ''a'')\<rparr>"

lemma canonical_hex_replicate:
  "canonical_hex (replicate 64 (CHR ''e''))" "canonical_hex (replicate 64 (CHR ''a''))"
  by (simp_all add: canonical_hex_def list_all_iff byte_defs)

definition example_hello :: client_hello where
  "example_hello = \<lparr>hello_protocol = BROKER_PROTOCOL, hello_epoch = replicate 64 (CHR ''e''),
     hello_grant_id = replicate 64 (CHR ''a''), hello_nonce = replicate 64 (CHR ''a'')\<rparr>"

definition example_proof :: server_proof where
  "example_proof = \<lparr>sp_protocol = BROKER_PROTOCOL, sp_epoch = replicate 64 (CHR ''e''),
     sp_grant_id = replicate 64 (CHR ''a''), sp_client_nonce = replicate 64 (CHR ''a''),
     sp_server_nonce = replicate 64 (CHR ''e''), sp_proof = replicate 64 (CHR ''e'')\<rparr>"

lemma example_hello_matches:
  "hello_matches example_hello example_proof"
  "hello_matches example_hello (example_proof\<lparr>sp_server_nonce := replicate 64 (CHR ''a'')\<rparr>)"
  by (simp_all add: hello_matches_def hello_valid_def example_hello_def example_proof_def
      canonical_hex_replicate)

text \<open>
  The authenticated message is unambiguous: two proofs whose variable components are 64
  hexadecimal bytes feed the same bytes to the MAC exactly if the role domain, the epoch, the
  grant and both challenges agree, so a server proof is never a client proof and a proof of one
  connection is never one of another.
\<close>

theorem mac_message_injective:
  assumes "d \<in> {server_proof_domain, client_proof_domain}"
    and "d' \<in> {server_proof_domain, client_proof_domain}"
    and "hello_matches h p" and "hello_matches h' p'"
  shows "mac_message d p = mac_message d' p' \<longleftrightarrow>
    d = d' \<and> sp_epoch p = sp_epoch p' \<and> sp_grant_id p = sp_grant_id p' \<and>
    sp_client_nonce p = sp_client_nonce p' \<and> sp_server_nonce p = sp_server_nonce p'"
proof -
  have "length d = length d'"
    using assms(1,2) by (auto simp: server_proof_domain_def client_proof_domain_def)
  moreover have "length (sp_epoch p) = 64 \<and> length (sp_grant_id p) = 64 \<and>
    length (sp_client_nonce p) = 64" "length (sp_epoch p') = 64 \<and> length (sp_grant_id p') = 64 \<and>
    length (sp_client_nonce p') = 64"
    using assms(3,4) by (auto simp: hello_matches_def hello_valid_def canonical_hex_def)
  ultimately show ?thesis by (simp add: mac_message_def)
qed

theorem mac_message_injective_witness:
  "mac_message server_proof_domain example_proof \<noteq>
    mac_message server_proof_domain (example_proof\<lparr>sp_server_nonce := replicate 64 (CHR ''a'')\<rparr>)"
  using mac_message_injective [of server_proof_domain server_proof_domain, OF _ _
      example_hello_matches]
  by (simp add: example_proof_def)

end
