(* ===== verification/Broker_Scheduler.thy ===== *)
theory Broker_Scheduler
  imports BTree_Map Broker_Auth "HOL-Library.Multiset"
begin

text \<open>
  Bounded admission and round-robin dispatch of the context broker
  (\<open>cigar-context/src/broker/scheduler.rs\<close>).

  A request's cancellation flag is an \<open>Arc<AtomicU8>\<close> shared by the queue, the connection handler
  and the dequeued job. The flags live in an explicit heap: an address is an index, allocation
  appends. Handlers may cancel and finished jobs may be dropped while the scheduler runs, so
  \<open>dispatch\<close> takes, besides its clock reading, the accesses of other threads that happen before
  its load and between its load and its compare-and-exchange. Every call of \<open>Instant::now\<close> is a
  separate argument. Instants are nanoseconds.
\<close>

subsection \<open>Cancellation cells\<close>

datatype cell = QUEUED | DISPATCHED | FINISHED | CANCELLED

type_synonym heap = "cell list"
type_synonym instant = nat

text \<open>An address is a live handle; the value outside the heap is immaterial.\<close>

definition cell_at :: "heap \<Rightarrow> nat \<Rightarrow> cell" where
  "cell_at h a = (if a < length h then h ! a else FINISHED)"

definition compare_exchange :: "heap \<Rightarrow> nat \<Rightarrow> cell \<Rightarrow> cell \<Rightarrow> heap \<times> (cell, cell) result" where
  "compare_exchange h a old new =
     (if cell_at h a = old then (h[a := new], Inr old) else (h, Inl (cell_at h a)))"

definition cancel :: "heap \<Rightarrow> nat \<Rightarrow> heap \<times> bool" where
  "cancel h a =
     (case compare_exchange h a QUEUED CANCELLED of
        (h', Inr _) \<Rightarrow> (h', True)
      | (h', Inl c) \<Rightarrow> (h', c = CANCELLED))"

definition scheduled_drop :: "heap \<Rightarrow> nat \<Rightarrow> heap" where
  "scheduled_drop h a = fst (compare_exchange h a DISPATCHED FINISHED)"

text \<open>What other threads may do to the flags.\<close>

datatype access = Cancels nat | Drops nat

fun access_cell :: "heap \<Rightarrow> access \<Rightarrow> heap" where
  "access_cell h (Cancels a) = fst (cancel h a)"
| "access_cell h (Drops a) = scheduled_drop h a"

definition interfere :: "heap \<Rightarrow> access list \<Rightarrow> heap" where
  "interfere h as = foldl access_cell h as"

record tick =
  tk_now :: instant
  tk_before :: "access list"
  tk_mid :: "access list"

subsection \<open>The data model\<close>

definition MAX_LIFETIME_MS :: nat where
  "MAX_LIFETIME_MS = 86400000"

record queue_limits =
  ql_max_agents :: nat
  ql_max_agent_jobs :: nat
  ql_max_agent_bytes :: nat
  ql_max_host_jobs :: nat
  ql_max_host_bytes :: nat
  ql_max_wait_ms :: nat

definition queue_limits_default :: queue_limits where
  "queue_limits_default = \<lparr>ql_max_agents = 128, ql_max_agent_jobs = 1024,
     ql_max_agent_bytes = 32 * 1024 * 1024, ql_max_host_jobs = 8,
     ql_max_host_bytes = 32 * 1024 * 1024, ql_max_wait_ms = 30000\<rparr>"

record agent_queue_limits =
  al_max_jobs :: nat
  al_max_bytes :: nat

definition agent_queue_limits_default :: agent_queue_limits where
  "agent_queue_limits_default = \<lparr>al_max_jobs = 8, al_max_bytes = 4 * 1024 * 1024\<rparr>"

datatype dispatch_status = Ready | Expired | Cancelled

record 'a queued =
  q_payload :: 'a
  q_bytes :: nat
  q_enqueued :: instant
  q_expires :: instant
  q_cell :: nat

record 'a scheduled =
  sc_payload :: "'a option"
  sc_status :: dispatch_status
  sc_delay :: nat
  sc_cell :: nat

record 'a lane =
  ln_agent :: string
  ln_key :: string
  ln_limits :: agent_queue_limits
  ln_expires :: instant
  ln_jobs :: "'a queued list"
  ln_bytes :: nat

record 'a broker_scheduler =
  bs_epoch :: string
  bs_limits :: queue_limits
  bs_lanes :: "(string, 'a lane) btree"
  bs_active :: "string list"
  bs_host :: "'a queued list"
  bs_host_bytes :: nat
  bs_host_turn :: bool

definition scheduled_take :: "'a scheduled \<Rightarrow> 'a option \<times> 'a scheduled" where
  "scheduled_take x = (sc_payload x, x\<lparr>sc_payload := None\<rparr>)"

subsection \<open>Operations\<close>

definition deadline :: "instant \<Rightarrow> nat \<Rightarrow> (broker_error, instant) result" where
  "deadline now ms =
     (if now + ms * 1000000 < instant_end then Inr (now + ms * 1000000) else Inl InvalidInput)"

definition valid_id :: "string \<Rightarrow> bool" where
  "valid_id i \<longleftrightarrow> i \<noteq> [] \<and> length i \<le> 128 \<and> list_all is_ascii_graphic i"

definition scheduler_new :: "string \<Rightarrow> queue_limits \<Rightarrow> (broker_error, 'a broker_scheduler) result" where
  "scheduler_new epoch limits =
     (if length epoch \<noteq> 64
         \<or> \<not> list_all is_ascii_hexdigit epoch
         \<or> ql_max_agents limits = 0
         \<or> ql_max_agents limits > 128
         \<or> ql_max_agent_jobs limits < 2
         \<or> ql_max_agent_jobs limits > 65536
         \<or> ql_max_agent_bytes limits < 2
         \<or> ql_max_agent_bytes limits > 1024 * 1024 * 1024
         \<or> ql_max_host_jobs limits = 0
         \<or> ql_max_host_jobs limits > 128
         \<or> ql_max_host_bytes limits = 0
         \<or> ql_max_host_bytes limits > 1024 * 1024 * 1024
         \<or> ql_max_wait_ms limits = 0
         \<or> ql_max_wait_ms limits > MAX_LIFETIME_MS
      then Inl InvalidInput
      else Inr \<lparr>bs_epoch = epoch, bs_limits = limits, bs_lanes = [], bs_active = [], bs_host = [],
                bs_host_bytes = 0, bs_host_turn = True\<rparr>)"

definition validate_lane_limits ::
    "'a broker_scheduler \<Rightarrow> agent_queue_limits \<Rightarrow> (broker_error, unit) result" where
  "validate_lane_limits s limits =
     (if al_max_jobs limits = 0
         \<or> al_max_jobs limits > ql_max_agent_jobs (bs_limits s) div 2
         \<or> al_max_bytes limits = 0
         \<or> al_max_bytes limits > ql_max_agent_bytes (bs_limits s) div 2
      then Inl InvalidInput else Inr ())"

definition validate_job :: "'a broker_scheduler \<Rightarrow> nat \<Rightarrow> nat \<Rightarrow> (broker_error, unit) result" where
  "validate_job s bytes wait_ms =
     (if bytes = 0 \<or> wait_ms = 0 \<or> wait_ms > ql_max_wait_ms (bs_limits s)
      then Inl InvalidInput else Inr ())"

definition credential_key ::
    "broker_crypto \<Rightarrow> 'a broker_scheduler \<Rightarrow> broker_credential \<Rightarrow> (broker_error, string) result" where
  "credential_key C s cred =
     (if cred_epoch cred \<noteq> bs_epoch s then Inl AccessDenied else grant_id C cred)"

definition dispatch :: "tick \<Rightarrow> heap \<Rightarrow> 'a queued \<Rightarrow> heap \<times> 'a scheduled" where
  "dispatch tk h q =
     (let h0 = interfere h (tk_before tk);
          loaded = cell_at h0 (q_cell q);
          h1 = interfere h0 (tk_mid tk);
          (h2, status) =
            (if loaded = CANCELLED then (h1, Cancelled)
             else if q_expires q \<le> tk_now tk then (fst (cancel h1 (q_cell q)), Expired)
             else (case compare_exchange h1 (q_cell q) QUEUED DISPATCHED of
                     (h2, Inr _) \<Rightarrow> (h2, Ready)
                   | (h2, Inl _) \<Rightarrow> (h2, Cancelled)))
      in (h2, \<lparr>sc_payload = Some (q_payload q), sc_status = status,
               sc_delay = tk_now tk - q_enqueued q, sc_cell = q_cell q\<rparr>))"

text \<open>\<open>.map(|job| { let _ = job.cancellation.cancel(); dispatch(job) })\<close>\<close>

fun cancel_jobs :: "(nat \<Rightarrow> tick) \<Rightarrow> heap \<Rightarrow> 'a queued list \<Rightarrow> heap \<times> 'a scheduled list" where
  "cancel_jobs env h [] = (h, [])"
| "cancel_jobs env h (q # qs) =
     (let (h1, _) = cancel h (q_cell q);
          (h2, x) = dispatch (env (q_cell q)) h1 q;
          (h3, xs) = cancel_jobs env h2 qs
      in (h3, x # xs))"

definition remove_lane ::
    "(nat \<Rightarrow> tick) \<Rightarrow> heap \<Rightarrow> 'a broker_scheduler \<Rightarrow> string
      \<Rightarrow> heap \<times> 'a broker_scheduler \<times> 'a scheduled list" where
  "remove_lane env h s key =
     (let s1 = s\<lparr>bs_active := filter (\<lambda>a. a \<noteq> key) (bs_active s)\<rparr>
      in case bt_get (bs_lanes s1) key of
           None \<Rightarrow> (h, s1, [])
         | Some lane \<Rightarrow>
             let s2 = s1\<lparr>bs_lanes := bt_remove key (bs_lanes s1)\<rparr>;
                 (h', xs) = cancel_jobs env h (ln_jobs lane)
             in (h', s2, xs))"

definition lane_of_agent :: "'a broker_scheduler \<Rightarrow> string \<Rightarrow> string option" where
  "lane_of_agent s agent = map_option fst (find (\<lambda>(_, lane). ln_agent lane = agent) (bs_lanes s))"

text \<open>The checks of \<open>host_register\<close> up to its first write, and what they compute.\<close>

definition register_guards ::
    "broker_crypto \<Rightarrow> instant \<Rightarrow> 'a broker_scheduler \<Rightarrow> string \<Rightarrow> broker_credential
      \<Rightarrow> agent_queue_limits \<Rightarrow> nat \<Rightarrow> (broker_error, string \<times> string \<times> instant) result" where
  "register_guards C now s agent cred limits lease_ms =
     rbind (validate_lane_limits s limits) (\<lambda>_.
     rbind (ensure (valid_id agent \<and> lease_ms \<noteq> 0 \<and> lease_ms \<le> MAX_LIFETIME_MS) InvalidInput) (\<lambda>_.
     rbind (credential_key C s cred) (\<lambda>key.
     rbind (server_key_new cred) (\<lambda>server_key.
     rbind (ensure (\<not> (bt_get (bs_lanes s) key \<noteq> None
               \<or> (lane_of_agent s agent = None
                  \<and> length (bs_lanes s) \<ge> ql_max_agents (bs_limits s)))) Quota) (\<lambda>_.
     rbind (deadline now lease_ms) (\<lambda>expires. Inr (key, server_key, expires)))))))"

definition host_register ::
    "broker_crypto \<Rightarrow> (nat \<Rightarrow> tick) \<Rightarrow> instant \<Rightarrow> heap \<Rightarrow> 'a broker_scheduler \<Rightarrow> string
      \<Rightarrow> broker_credential \<Rightarrow> agent_queue_limits \<Rightarrow> nat
      \<Rightarrow> heap \<times> 'a broker_scheduler \<times> (broker_error, 'a scheduled list) result" where
  "host_register C env now h s agent cred limits lease_ms =
     (case register_guards C now s agent cred limits lease_ms of
        Inl e \<Rightarrow> (h, s, Inl e)
      | Inr (key, server_key, expires) \<Rightarrow>
          let (h1, s1, cancelled) =
                (case lane_of_agent s agent of None \<Rightarrow> (h, s, [])
                 | Some previous \<Rightarrow> remove_lane env h s previous);
              s2 = s1\<lparr>bs_lanes := bt_insert key
                     \<lparr>ln_agent = agent, ln_key = server_key, ln_limits = limits,
                      ln_expires = expires, ln_jobs = [], ln_bytes = 0\<rparr> (bs_lanes s1)\<rparr>
          in (h1, s2, Inr cancelled))"

text \<open>\<open>self.lanes.get(key).filter(|lane| lane.expires > Instant::now()).ok_or(AccessDenied)\<close>\<close>

definition live_lane :: "instant \<Rightarrow> 'a broker_scheduler \<Rightarrow> string \<Rightarrow> (broker_error, 'a lane) result" where
  "live_lane now s key =
     (case bt_get (bs_lanes s) key of
        None \<Rightarrow> Inl AccessDenied
      | Some lane \<Rightarrow> if ln_expires lane > now then Inr lane else Inl AccessDenied)"

definition handshake_lane ::
    "instant \<Rightarrow> 'a broker_scheduler \<Rightarrow> client_hello \<Rightarrow> (broker_error, 'a lane) result" where
  "handshake_lane now s hello =
     (if \<not> hello_valid hello \<or> hello_epoch hello \<noteq> bs_epoch s then Inl AccessDenied
      else live_lane now s (hello_grant_id hello))"

definition scheduler_server_proof ::
    "broker_crypto \<Rightarrow> instant \<Rightarrow> string option \<Rightarrow> 'a broker_scheduler \<Rightarrow> client_hello
      \<Rightarrow> (broker_error, server_proof) result" where
  "scheduler_server_proof C now drawn s hello =
     rbind (handshake_lane now s hello) (\<lambda>lane. key_prove C drawn (ln_key lane) hello)"

definition authenticate_client ::
    "broker_crypto \<Rightarrow> instant \<Rightarrow> 'a broker_scheduler \<Rightarrow> client_hello \<Rightarrow> server_proof \<Rightarrow> client_proof
      \<Rightarrow> (broker_error, broker_credential) result" where
  "authenticate_client C now s hello server client =
     rbind (handshake_lane now s hello) (\<lambda>lane.
     rbind (verify_client C (ln_key lane) hello server client) (\<lambda>cred.
     rbind (grant_id C cred) (\<lambda>g.
       if g \<noteq> hello_grant_id hello then Inl AccessDenied else Inr cred)))"

definition host_revoke ::
    "(nat \<Rightarrow> tick) \<Rightarrow> heap \<Rightarrow> 'a broker_scheduler \<Rightarrow> string
      \<Rightarrow> heap \<times> 'a broker_scheduler \<times> 'a scheduled list" where
  "host_revoke env h s agent =
     (case lane_of_agent s agent of None \<Rightarrow> (h, s, []) | Some key \<Rightarrow> remove_lane env h s key)"

definition lane_push :: "'a queued \<Rightarrow> 'a lane \<Rightarrow> 'a lane" where
  "lane_push q lane = lane\<lparr>ln_jobs := ln_jobs lane @ [q], ln_bytes := ln_bytes lane + q_bytes q\<rparr>"

text \<open>The checks of \<open>enqueue_agent\<close> up to its first write, and what they compute.\<close>

definition enqueue_guards ::
    "broker_crypto \<Rightarrow> instant \<Rightarrow> instant \<Rightarrow> 'a broker_scheduler \<Rightarrow> broker_credential \<Rightarrow> nat \<Rightarrow> nat
      \<Rightarrow> (broker_error, string \<times> 'a lane \<times> instant) result" where
  "enqueue_guards C now1 now2 s cred encoded_bytes wait_ms =
     rbind (validate_job s encoded_bytes wait_ms) (\<lambda>_.
     rbind (credential_key C s cred) (\<lambda>key.
     rbind (live_lane now1 s key) (\<lambda>lane.
     rbind (ensure (\<not> (bt_sum (\<lambda>l. length (ln_jobs l)) (bs_lanes s) \<ge> ql_max_agent_jobs (bs_limits s)
              \<or> encoded_bytes > usize_sub (ql_max_agent_bytes (bs_limits s)) (bt_sum ln_bytes (bs_lanes s))
              \<or> length (ln_jobs lane) \<ge> al_max_jobs (ln_limits lane)
              \<or> encoded_bytes > usize_sub (al_max_bytes (ln_limits lane)) (ln_bytes lane))) Quota) (\<lambda>_.
     rbind (deadline now2 wait_ms) (\<lambda>d. Inr (key, lane, min d (ln_expires lane)))))))"

definition enqueue_agent ::
    "broker_crypto \<Rightarrow> instant \<Rightarrow> instant \<Rightarrow> instant \<Rightarrow> heap \<Rightarrow> 'a broker_scheduler
      \<Rightarrow> broker_credential \<Rightarrow> 'a \<Rightarrow> nat \<Rightarrow> nat
      \<Rightarrow> heap \<times> 'a broker_scheduler \<times> (broker_error, nat) result" where
  "enqueue_agent C now1 now2 now3 h s cred payload encoded_bytes wait_ms =
     (case enqueue_guards C now1 now2 s cred encoded_bytes wait_ms of
        Inl e \<Rightarrow> (h, s, Inl e)
      | Inr (key, lane, expires) \<Rightarrow>
          let q = \<lparr>q_payload = payload, q_bytes = encoded_bytes, q_enqueued = now3,
                   q_expires = expires, q_cell = length h\<rparr>
          in (h @ [QUEUED],
              s\<lparr>bs_active := (if ln_jobs lane = [] then bs_active s @ [key] else bs_active s),
                bs_lanes := bt_update key (lane_push q) (bs_lanes s)\<rparr>,
              Inr (length h)))"

definition enqueue_host ::
    "instant \<Rightarrow> instant \<Rightarrow> heap \<Rightarrow> 'a broker_scheduler \<Rightarrow> 'a \<Rightarrow> nat \<Rightarrow> nat
      \<Rightarrow> heap \<times> 'a broker_scheduler \<times> (broker_error, nat) result" where
  "enqueue_host now1 now2 h s payload encoded_bytes wait_ms =
     (case rbind (validate_job s encoded_bytes wait_ms) (\<lambda>_.
           ensure (\<not> (length (bs_host s) \<ge> ql_max_host_jobs (bs_limits s)
             \<or> encoded_bytes > usize_sub (ql_max_host_bytes (bs_limits s)) (bs_host_bytes s))) Quota) of
        Inl e \<Rightarrow> (h, s, Inl e)
      | Inr _ \<Rightarrow>
          (case deadline now2 wait_ms of
             Inl e \<Rightarrow> (h @ [QUEUED], s, Inl e)
           | Inr expires \<Rightarrow>
               (h @ [QUEUED],
                s\<lparr>bs_host := bs_host s @ [\<lparr>q_payload = payload, q_bytes = encoded_bytes,
                     q_enqueued = now1, q_expires = expires, q_cell = length h\<rparr>],
                  bs_host_bytes := bs_host_bytes s + encoded_bytes\<rparr>,
                Inr (length h))))"

definition pop ::
    "tick \<Rightarrow> heap \<Rightarrow> 'a broker_scheduler \<Rightarrow> heap \<times> 'a broker_scheduler \<times> 'a scheduled option" where
  "pop tk h s =
     (if bs_host s \<noteq> [] \<and> (bs_host_turn s \<or> bs_active s = [])
      then let s1 = s\<lparr>bs_host_turn := False\<rparr>
           in case bs_host s1 of
                [] \<Rightarrow> (h, s1, None)
              | q # qs \<Rightarrow>
                  let s2 = s1\<lparr>bs_host := qs, bs_host_bytes := usize_sub (bs_host_bytes s1) (q_bytes q)\<rparr>;
                      (h', x) = dispatch tk h q
                  in (h', s2, Some x)
      else case bs_active s of
             [] \<Rightarrow> (h, s, None)
           | key # rest \<Rightarrow>
               let s1 = s\<lparr>bs_active := rest, bs_host_turn := True\<rparr>
               in case bt_get (bs_lanes s1) key of
                    None \<Rightarrow> (h, s1, None)
                  | Some lane \<Rightarrow>
                      (case ln_jobs lane of
                         [] \<Rightarrow> (h, s1, None)
                       | q # qs \<Rightarrow>
                           let s2 = s1\<lparr>bs_lanes := bt_update key
                                         (\<lambda>l. l\<lparr>ln_jobs := qs, ln_bytes := usize_sub (ln_bytes l) (q_bytes q)\<rparr>)
                                         (bs_lanes s1),
                                       bs_active := (if qs \<noteq> [] then rest @ [key] else rest)\<rparr>;
                               (h', x) = dispatch tk h q
                           in (h', s2, Some x)))"

definition scheduler_len :: "'a broker_scheduler \<Rightarrow> nat" where
  "scheduler_len s = length (bs_host s) + bt_sum (\<lambda>l. length (ln_jobs l)) (bs_lanes s)"

definition scheduler_is_empty :: "'a broker_scheduler \<Rightarrow> bool" where
  "scheduler_is_empty s \<longleftrightarrow> scheduler_len s = 0"

fun remove_lanes ::
    "(nat \<Rightarrow> tick) \<Rightarrow> heap \<Rightarrow> 'a broker_scheduler \<Rightarrow> string list
      \<Rightarrow> heap \<times> 'a broker_scheduler \<times> 'a scheduled list" where
  "remove_lanes env h s [] = (h, s, [])"
| "remove_lanes env h s (key # keys) =
     (let (h1, s1, xs) = remove_lane env h s key;
          (h2, s2, ys) = remove_lanes env h1 s1 keys
      in (h2, s2, xs @ ys))"

definition host_prune ::
    "(nat \<Rightarrow> tick) \<Rightarrow> instant \<Rightarrow> heap \<Rightarrow> 'a broker_scheduler
      \<Rightarrow> heap \<times> 'a broker_scheduler \<times> 'a scheduled list" where
  "host_prune env now h s =
     remove_lanes env h s (map fst (filter (\<lambda>(_, lane). ln_expires lane \<le> now) (bs_lanes s)))"

definition host_drain ::
    "(nat \<Rightarrow> tick) \<Rightarrow> heap \<Rightarrow> 'a broker_scheduler
      \<Rightarrow> heap \<times> 'a broker_scheduler \<times> 'a scheduled list" where
  "host_drain env h s =
     (let (h1, s1, xs) = remove_lanes env h s (bt_keys (bs_lanes s));
          (h2, ys) = cancel_jobs env h1 (bs_host s1)
      in (h2, s1\<lparr>bs_host := [], bs_host_bytes := 0\<rparr>, xs @ ys))"

definition scheduler_drop :: "heap \<Rightarrow> 'a broker_scheduler \<Rightarrow> heap" where
  "scheduler_drop h s =
     foldl (\<lambda>h q. fst (cancel h (q_cell q))) h
       (bs_host s @ concat (map (\<lambda>lane. ln_jobs lane) (bt_values (bs_lanes s))))"


subsection \<open>The flag protocol\<close>

text \<open>
  How a flag can evolve: other threads cancel queued flags and finish dispatched ones; only the
  scheduler moves a queued flag of \<open>A\<close> to dispatched.
\<close>

definition cell_env :: "cell \<Rightarrow> cell \<Rightarrow> bool" where
  "cell_env c d \<longleftrightarrow> d = c \<or> (c = QUEUED \<and> d = CANCELLED) \<or> (c = DISPATCHED \<and> d = FINISHED)"

definition heap_le :: "nat set \<Rightarrow> heap \<Rightarrow> heap \<Rightarrow> bool" where
  "heap_le A h h' \<longleftrightarrow> length h \<le> length h' \<and>
     (\<forall>a < length h. cell_env (cell_at h a) (cell_at h' a) \<or> (a \<in> A \<and> cell_at h a = QUEUED))"

lemma heap_le_refl [simp]: "heap_le A h h"
  by (simp add: heap_le_def cell_env_def)

lemma cell_env_trans: "cell_env b c \<Longrightarrow> cell_env c d \<Longrightarrow> cell_env b d"
  by (auto simp: cell_env_def)

lemma cell_env_QUEUED: "cell_env c QUEUED \<longleftrightarrow> c = QUEUED"
  by (auto simp: cell_env_def)

lemma heap_le_trans:
  assumes "heap_le A h h'" and "heap_le B h' h''"
  shows "heap_le (A \<union> B) h h''"
  unfolding heap_le_def
proof (intro conjI allI impI)
  show "length h \<le> length h''" using assms by (simp add: heap_le_def)
next
  fix a assume a: "a < length h"
  with assms have "cell_env (cell_at h a) (cell_at h' a) \<or> a \<in> A \<and> cell_at h a = QUEUED"
    and "cell_env (cell_at h' a) (cell_at h'' a) \<or> a \<in> B \<and> cell_at h' a = QUEUED"
    by (simp_all add: heap_le_def)
  then show "cell_env (cell_at h a) (cell_at h'' a) \<or> a \<in> A \<union> B \<and> cell_at h a = QUEUED"
    using cell_env_trans [of "cell_at h a" "cell_at h' a" "cell_at h'' a"]
    by (auto simp: cell_env_QUEUED)
qed

lemma heap_le_trans_env: "heap_le {} h h' \<Longrightarrow> heap_le {} h' h'' \<Longrightarrow> heap_le {} h h''"
  using heap_le_trans [of "{}" h h' "{}" h''] by simp

lemma heap_le_mono: "heap_le A h h' \<Longrightarrow> A \<subseteq> B \<Longrightarrow> heap_le B h h'"
  unfolding heap_le_def by blast

lemma heap_le_alloc [simp]: "heap_le A h (h @ [c])"
  by (auto simp: heap_le_def cell_env_def cell_at_def nth_append)

lemma heap_leD:
  assumes "heap_le A h h'"
  shows "length h \<le> length h'"
    and "a < length h \<Longrightarrow> cell_at h a = CANCELLED \<Longrightarrow> cell_at h' a = CANCELLED"
    and "a < length h \<Longrightarrow> cell_at h a \<noteq> QUEUED \<Longrightarrow> cell_at h' a \<noteq> QUEUED"
    and "a < length h \<Longrightarrow> a \<notin> A \<Longrightarrow> cell_at h a \<in> {QUEUED, CANCELLED} \<Longrightarrow>
      cell_at h' a \<in> {QUEUED, CANCELLED}"
  using assms unfolding heap_le_def cell_env_def by fastforce+

lemma cell_at_update: "cell_at (h[a := c]) b = (if b = a \<and> a < length h then c else cell_at h b)"
  by (auto simp: cell_at_def)

lemma heap_le_compare_exchange:
  "cell_env old new \<Longrightarrow> heap_le {} h (fst (compare_exchange h a old new))"
  by (auto simp: compare_exchange_def heap_le_def cell_at_update cell_env_def)

lemma fst_cancel: "fst (cancel h a) = fst (compare_exchange h a QUEUED CANCELLED)"
  by (simp add: cancel_def split: prod.splits sum.splits)

lemma snd_cancel: "snd (cancel h a) \<longleftrightarrow> cell_at h a = QUEUED \<or> cell_at h a = CANCELLED"
  by (auto simp: cancel_def compare_exchange_def)

lemma heap_le_cancel [simp]: "heap_le {} h (fst (cancel h a))"
  unfolding fst_cancel by (rule heap_le_compare_exchange) (simp add: cell_env_def)

lemma cancel_not_queued: "cell_at (fst (cancel h a)) a \<noteq> QUEUED"
  by (auto simp: fst_cancel compare_exchange_def cell_at_update) (simp add: cell_at_def)

lemma cancel_true_cell:
  "snd (cancel h a) \<Longrightarrow> a < length h \<and> cell_at (fst (cancel h a)) a = CANCELLED"
  by (auto simp: snd_cancel fst_cancel compare_exchange_def cell_at_update)
    (auto simp: cell_at_def split: if_splits)

lemma length_cancel [simp]: "length (fst (cancel h a)) = length h"
  by (simp add: fst_cancel compare_exchange_def)

lemma heap_le_access: "heap_le {} h (access_cell h x)"
proof (cases x)
  case (Drops a)
  have "heap_le {} h (scheduled_drop h a)"
    unfolding scheduled_drop_def by (rule heap_le_compare_exchange) (simp add: cell_env_def)
  with Drops show ?thesis by simp
qed simp

lemma heap_le_interfere [simp]: "heap_le {} h (interfere h as)"
proof (induction as arbitrary: h)
  case (Cons x as)
  have "heap_le {} (access_cell h x) (interfere h (x # as))"
    using Cons [of "access_cell h x"] by (simp add: interfere_def)
  then show ?case by (rule heap_le_trans_env [OF heap_le_access])
qed (simp add: interfere_def)

lemma not_queued_stable: "heap_le A h h' \<Longrightarrow> length h' = length h \<Longrightarrow>
  cell_at h a \<noteq> QUEUED \<Longrightarrow> cell_at h' a \<noteq> QUEUED"
  using heap_leD(3) [of A h h' a] by (cases "a < length h") (auto simp: cell_at_def)

lemma length_access [simp]: "length (access_cell h x) = length h"
  by (cases x) (auto simp: scheduled_drop_def compare_exchange_def)

lemma length_interfere [simp]: "length (interfere h as) = length h"
  by (induction as arbitrary: h) (simp_all add: interfere_def)

lemma dispatch_fields:
  "sc_payload (snd (dispatch tk h q)) = Some (q_payload q)"
  "sc_cell (snd (dispatch tk h q)) = q_cell q"
  "length (fst (dispatch tk h q)) = length h"
  by (auto simp: dispatch_def Let_def compare_exchange_def split: prod.splits)

lemma heap_le_dispatch: "heap_le {q_cell q} h (fst (dispatch tk h q))"
proof -
  let ?h1 = "interfere (interfere h (tk_before tk)) (tk_mid tk)"
  have env: "heap_le {} h ?h1" by (rule heap_le_trans_env [OF heap_le_interfere heap_le_interfere])
  have "heap_le {q_cell q} ?h1 (fst (dispatch tk h q))"
    by (auto simp: dispatch_def Let_def fst_cancel compare_exchange_def heap_le_def
        cell_at_update cell_env_def split: prod.splits)
  with heap_le_trans [OF env] show ?thesis by simp
qed

lemma dispatch_Ready:
  assumes "sc_status (snd (dispatch tk h q)) = Ready"
  shows "cell_at h (q_cell q) = QUEUED" and "cell_at (fst (dispatch tk h q)) (q_cell q) = DISPATCHED"
    and "tk_now tk < q_expires q"
proof -
  let ?h1 = "interfere (interfere h (tk_before tk)) (tk_mid tk)"
  have q: "cell_at ?h1 (q_cell q) = QUEUED"
    and d: "fst (dispatch tk h q) = ?h1[q_cell q := DISPATCHED]" and e: "tk_now tk < q_expires q"
    using assms by (auto simp: dispatch_def Let_def compare_exchange_def split: if_splits)
  have "heap_le {} h ?h1" by (rule heap_le_trans_env [OF heap_le_interfere heap_le_interfere])
  then show "cell_at h (q_cell q) = QUEUED" using not_queued_stable [of "{}" h ?h1 "q_cell q"] q by auto
  have "q_cell q < length ?h1" using q by (auto simp: cell_at_def split: if_splits)
  then show "cell_at (fst (dispatch tk h q)) (q_cell q) = DISPATCHED" by (simp add: d cell_at_update)
  show "tk_now tk < q_expires q" by (rule e)
qed

lemma dispatch_not_queued:
  assumes "cell_at h (q_cell q) \<noteq> QUEUED"
  shows "sc_status (snd (dispatch tk h q)) \<noteq> Ready" and "heap_le {} h (fst (dispatch tk h q))"
proof -
  show "sc_status (snd (dispatch tk h q)) \<noteq> Ready" using dispatch_Ready(1) assms by blast
  show "heap_le {} h (fst (dispatch tk h q))"
    using heap_le_dispatch [of q h tk] assms by (auto simp: heap_le_def)
qed

lemma cancel_jobs_Cons:
  "cancel_jobs env h (q # qs) =
     (let d = dispatch (env (q_cell q)) (fst (cancel h (q_cell q))) q;
          r = cancel_jobs env (fst d) qs
      in (fst r, snd d # snd r))"
  by (simp add: Let_def split_beta)

declare cancel_jobs.simps(2) [simp del]

lemma cancel_jobs_ids:
  "map sc_cell (snd (cancel_jobs env h qs)) = map q_cell qs"
  "map sc_payload (snd (cancel_jobs env h qs)) = map (\<lambda>q. Some (q_payload q)) qs"
  "length (fst (cancel_jobs env h qs)) = length h"
  by (induction qs arbitrary: h) (simp_all add: cancel_jobs_Cons Let_def dispatch_fields)

lemma cancel_jobs_never_ready:
  "\<forall>x \<in> set (snd (cancel_jobs env h qs)). sc_status x \<noteq> Ready"
  by (induction qs arbitrary: h)
    (simp_all add: cancel_jobs_Cons Let_def dispatch_not_queued(1) cancel_not_queued)

lemma heap_le_cancel_jobs [simp]: "heap_le {} h (fst (cancel_jobs env h qs))"
proof (induction qs arbitrary: h)
  case (Cons q qs)
  let ?h1 = "fst (cancel h (q_cell q))"
  let ?h2 = "fst (dispatch (env (q_cell q)) ?h1 q)"
  have "heap_le {} ?h1 ?h2" by (rule dispatch_not_queued(2)) (rule cancel_not_queued)
  then have "heap_le {} ?h1 (fst (cancel_jobs env ?h2 qs))"
    using Cons.IH by (rule heap_le_trans_env)
  with heap_le_cancel have "heap_le {} h (fst (cancel_jobs env ?h2 qs))"
    by (rule heap_le_trans_env)
  then show ?case by (simp add: cancel_jobs_Cons Let_def)
qed simp

lemma dispatch_not_ready_env:
  assumes "sc_status (snd (dispatch tk h q)) \<noteq> Ready"
  shows "heap_le {} h (fst (dispatch tk h q))"
proof -
  let ?h1 = "interfere (interfere h (tk_before tk)) (tk_mid tk)"
  have env: "heap_le {} h ?h1" by (rule heap_le_trans_env [OF heap_le_interfere heap_le_interfere])
  have "fst (dispatch tk h q) = ?h1 \<or> fst (dispatch tk h q) = fst (cancel ?h1 (q_cell q))"
    using assms by (auto simp: dispatch_def Let_def compare_exchange_def split: if_splits)
  then show ?thesis using env heap_le_trans_env [OF env heap_le_cancel] by auto
qed

end
