(* ===== verification/Broker_Dispatch.thy ===== *)
theory Broker_Dispatch
  imports Broker_Scheduler
begin

text \<open>
  Correctness of the broker scheduler: its invariant and that every operation keeps it, the
  conservation of jobs, the flag protocol across arbitrary interleavings of operations, and the
  order of dispatch. \<open>sched_exec\<close> runs one operation of the public interface on the flags and the
  scheduler and returns what it hands out and what it admits; sequences of operations are lists.
\<close>

subsection \<open>Operation sequences\<close>

datatype 'a sched_op =
    OpRegister "nat \<Rightarrow> tick" instant string broker_credential agent_queue_limits nat
  | OpRevoke "nat \<Rightarrow> tick" string
  | OpEnqueueAgent instant instant instant broker_credential 'a nat nat
  | OpEnqueueHost instant instant 'a nat nat
  | OpPop tick
  | OpPrune "nat \<Rightarrow> tick" instant
  | OpDrain "nat \<Rightarrow> tick"
  | OpCancel nat
  | OpDropScheduled nat

type_synonym 'a sched_state = "heap \<times> 'a broker_scheduler"
type_synonym 'a job_id = "nat \<times> 'a option"

definition job_id :: "'a queued \<Rightarrow> 'a job_id" where
  "job_id q = (q_cell q, Some (q_payload q))"

definition scheduled_id :: "'a scheduled \<Rightarrow> 'a job_id" where
  "scheduled_id x = (sc_cell x, sc_payload x)"

text \<open>The new state, the jobs handed out and the jobs admitted.\<close>

fun sched_exec ::
    "broker_crypto \<Rightarrow> 'a sched_op \<Rightarrow> 'a sched_state
      \<Rightarrow> 'a sched_state \<times> 'a scheduled list \<times> 'a job_id list" where
  "sched_exec C (OpRegister env now agent cred limits lease_ms) (h, s) =
     (let (h', s', r) = host_register C env now h s agent cred limits lease_ms
      in ((h', s'), case r of Inl _ \<Rightarrow> [] | Inr xs \<Rightarrow> xs, []))"
| "sched_exec C (OpRevoke env agent) (h, s) =
     (let (h', s', xs) = host_revoke env h s agent in ((h', s'), xs, []))"
| "sched_exec C (OpEnqueueAgent n1 n2 n3 cred payload bytes wait_ms) (h, s) =
     (let (h', s', r) = enqueue_agent C n1 n2 n3 h s cred payload bytes wait_ms
      in ((h', s'), [], case r of Inl _ \<Rightarrow> [] | Inr a \<Rightarrow> [(a, Some payload)]))"
| "sched_exec C (OpEnqueueHost n1 n2 payload bytes wait_ms) (h, s) =
     (let (h', s', r) = enqueue_host n1 n2 h s payload bytes wait_ms
      in ((h', s'), [], case r of Inl _ \<Rightarrow> [] | Inr a \<Rightarrow> [(a, Some payload)]))"
| "sched_exec C (OpPop tk) (h, s) =
     (let (h', s', r) = pop tk h s in ((h', s'), case r of None \<Rightarrow> [] | Some x \<Rightarrow> [x], []))"
| "sched_exec C (OpPrune env now) (h, s) =
     (let (h', s', xs) = host_prune env now h s in ((h', s'), xs, []))"
| "sched_exec C (OpDrain env) (h, s) =
     (let (h', s', xs) = host_drain env h s in ((h', s'), xs, []))"
| "sched_exec C (OpCancel a) (h, s) = ((fst (cancel h a), s), [], [])"
| "sched_exec C (OpDropScheduled a) (h, s) = ((scheduled_drop h a, s), [], [])"

fun sched_run ::
    "broker_crypto \<Rightarrow> 'a sched_op list \<Rightarrow> 'a sched_state
      \<Rightarrow> 'a sched_state \<times> 'a scheduled list \<times> 'a job_id list" where
  "sched_run C [] st = (st, [], [])"
| "sched_run C (op # ops) st =
     (let (st1, out1, adm1) = sched_exec C op st;
          (st2, out2, adm2) = sched_run C ops st1
      in (st2, out1 @ out2, adm1 @ adm2))"

subsection \<open>The invariant\<close>

definition limits_ok :: "queue_limits \<Rightarrow> bool" where
  "limits_ok L \<longleftrightarrow> ql_max_agents L \<le> 128 \<and> 2 \<le> ql_max_agent_jobs L \<and> ql_max_agent_jobs L \<le> 65536 \<and>
     2 \<le> ql_max_agent_bytes L \<and> ql_max_agent_bytes L \<le> 2 ^ 30 \<and>
     0 < ql_max_host_jobs L \<and> ql_max_host_jobs L \<le> 128 \<and>
     0 < ql_max_host_bytes L \<and> ql_max_host_bytes L \<le> 2 ^ 30"

definition lane_ok :: "queue_limits \<Rightarrow> 'a lane \<Rightarrow> bool" where
  "lane_ok L l \<longleftrightarrow> al_max_jobs (ln_limits l) \<le> ql_max_agent_jobs L div 2 \<and>
     al_max_bytes (ln_limits l) \<le> ql_max_agent_bytes L div 2 \<and>
     ln_bytes l = sum_list (map q_bytes (ln_jobs l)) \<and>
     length (ln_jobs l) \<le> al_max_jobs (ln_limits l) \<and> ln_bytes l \<le> al_max_bytes (ln_limits l)"

text \<open>What the queues may hold: every counter is exact and every limit is respected.\<close>

definition sched_ok :: "'a broker_scheduler \<Rightarrow> bool" where
  "sched_ok s \<longleftrightarrow>
     limits_ok (bs_limits s) \<and> bt_invar (bs_lanes s) \<and>
     (\<forall>k l. bt_get (bs_lanes s) k = Some l \<longrightarrow> lane_ok (bs_limits s) l) \<and>
     (\<forall>k l k' l'. bt_get (bs_lanes s) k = Some l \<longrightarrow> bt_get (bs_lanes s) k' = Some l' \<longrightarrow>
        ln_agent l = ln_agent l' \<longrightarrow> k = k') \<and>
     length (bs_lanes s) \<le> ql_max_agents (bs_limits s) \<and>
     distinct (bs_active s) \<and>
     (\<forall>k. k \<in> set (bs_active s) \<longleftrightarrow> (\<exists>l. bt_get (bs_lanes s) k = Some l \<and> ln_jobs l \<noteq> [])) \<and>
     bt_sum (\<lambda>l. length (ln_jobs l)) (bs_lanes s) \<le> ql_max_agent_jobs (bs_limits s) \<and>
     bt_sum ln_bytes (bs_lanes s) \<le> ql_max_agent_bytes (bs_limits s) \<and>
     bs_host_bytes s = sum_list (map q_bytes (bs_host s)) \<and>
     length (bs_host s) \<le> ql_max_host_jobs (bs_limits s) \<and>
     bs_host_bytes s \<le> ql_max_host_bytes (bs_limits s)"

definition queued_ids :: "'a broker_scheduler \<Rightarrow> 'a job_id multiset" where
  "queued_ids s = mset (map job_id (bs_host s)) +
     bt_sum (\<lambda>l. mset (map job_id (ln_jobs l))) (bs_lanes s)"

text \<open>Queued jobs own distinct flags, none of which has been dispatched.\<close>

definition heap_ok :: "heap \<Rightarrow> 'a broker_scheduler \<Rightarrow> bool" where
  "heap_ok h s \<longleftrightarrow> (\<forall>a. count (image_mset fst (queued_ids s)) a \<le> 1) \<and>
     (\<forall>a p. (a, p) \<in># queued_ids s \<longrightarrow> a < length h \<and> cell_at h a \<in> {QUEUED, CANCELLED})"

definition sched_inv :: "'a sched_state \<Rightarrow> bool" where
  "sched_inv st \<longleftrightarrow> sched_ok (snd st) \<and> heap_ok (fst st) (snd st)"

lemma heap_ok_step:
  assumes "heap_ok h s" and "heap_le A h h'" and ids: "queued_ids s = queued_ids s' + X"
    and "A \<subseteq> fst ` set_mset X"
  shows "heap_ok h' s'"
proof -
  have one: "count (image_mset fst (queued_ids s')) a + count (image_mset fst X) a \<le> 1" for a
    using assms(1) ids by (auto simp: heap_ok_def)
  have "a < length h' \<and> cell_at h' a \<in> {QUEUED, CANCELLED}" if mem: "(a, p) \<in># queued_ids s'" for a p
  proof -
    have "a \<in># image_mset fst (queued_ids s')" using mem by force
    then have "0 < count (image_mset fst (queued_ids s')) a" by (simp only: count_greater_zero_iff)
    then have "count (image_mset fst X) a = 0" using one [of a] by linarith
    then have "a \<notin># image_mset fst X" by (rule count_eq_zero_iff [THEN iffD1])
    then have "a \<notin> A" using assms(4) by auto
    moreover have "a < length h" "cell_at h a \<in> {QUEUED, CANCELLED}"
      using assms(1) mem ids by (auto simp: heap_ok_def)
    ultimately show ?thesis using heap_leD(1,4) [OF assms(2)] by (meson order_less_le_trans)
  qed
  moreover have "count (image_mset fst (queued_ids s')) a \<le> 1" for a using one [of a] by simp
  ultimately show ?thesis by (auto simp: heap_ok_def)
qed

lemma heap_ok_alloc:
  assumes "heap_ok h s" and "queued_ids s' = add_mset (length h, p) (queued_ids s)"
  shows "heap_ok (h @ [QUEUED]) s'"
proof -
  have "length h \<notin># image_mset fst (queued_ids s)" using assms(1) by (auto simp: heap_ok_def)
  then have "count (image_mset fst (queued_ids s)) (length h) = 0" by (simp only: not_in_iff)
  with assms show ?thesis
    by (auto simp: heap_ok_def cell_at_def nth_append less_Suc_eq)
qed

lemma heap_ok_env: "heap_ok h s \<Longrightarrow> heap_le {} h h' \<Longrightarrow> heap_ok h' s"
  using heap_ok_step [of h s "{}" h' s "{#}"] by simp

subsection \<open>Removing lanes\<close>

text \<open>
  The common contract of the operations that give up queued work: the scheduler stays well formed,
  nothing becomes ready, and the jobs handed out are exactly the jobs that left the queues.
\<close>

definition gives_up ::
    "heap \<Rightarrow> 'a broker_scheduler \<Rightarrow> heap \<Rightarrow> 'a broker_scheduler \<Rightarrow> 'a scheduled list \<Rightarrow> bool" where
  "gives_up h s h' s' xs \<longleftrightarrow> sched_ok s' \<and> heap_le {} h h' \<and>
     bs_limits s' = bs_limits s \<and> bs_epoch s' = bs_epoch s \<and>
     queued_ids s = queued_ids s' + mset (map scheduled_id xs) \<and>
     (\<forall>x \<in> set xs. sc_status x \<noteq> Ready)"

lemma gives_up_refl: "sched_ok s \<Longrightarrow> gives_up h s h s []"
  by (simp add: gives_up_def)

lemma gives_up_trans:
  "gives_up h s h1 s1 xs \<Longrightarrow> gives_up h1 s1 h2 s2 ys \<Longrightarrow> gives_up h s h2 s2 (xs @ ys)"
  unfolding gives_up_def
  by (intro conjI) (auto intro: heap_le_trans_env simp: ac_simps)

lemma cancel_jobs_scheduled_ids:
  "map scheduled_id (snd (cancel_jobs env h qs)) = map job_id (qs :: 'a queued list)"
proof -
  have "map scheduled_id xs = zip (map sc_cell xs) (map sc_payload xs)" for xs :: "'a scheduled list"
    by (induction xs) (simp_all add: scheduled_id_def)
  moreover have "map job_id qs = zip (map q_cell qs) (map (\<lambda>q. Some (q_payload q)) qs)"
    by (induction qs) (simp_all add: job_id_def)
  ultimately show ?thesis by (simp only: cancel_jobs_ids)
qed

lemma bt_sum_one: "bt_sum (\<lambda>_. 1) m = length m"
  by (induction m) simp_all

lemma length_bt_remove:
  "bt_invar m \<Longrightarrow> bt_get m k = Some v \<Longrightarrow> length m = Suc (length (bt_remove k m))"
  using bt_sum_remove [of m k v "\<lambda>_. 1 :: nat"] by (simp add: bt_sum_one [symmetric])

lemma sched_ok_remove:
  assumes ok: "sched_ok s" and lane: "bt_get (bs_lanes s) k = Some l"
  shows "sched_ok (s\<lparr>bs_active := filter (\<lambda>a. a \<noteq> k) (bs_active s),
    bs_lanes := bt_remove k (bs_lanes s)\<rparr>)"
proof -
  let ?m = "bs_lanes s"
  have inv: "bt_invar ?m" using ok by (simp add: sched_ok_def)
  have sums: "bt_sum (\<lambda>l. length (ln_jobs l)) (bt_remove k ?m) \<le> bt_sum (\<lambda>l. length (ln_jobs l)) ?m"
    "bt_sum ln_bytes (bt_remove k ?m) \<le> bt_sum ln_bytes ?m"
    by (rule bt_sum_remove_le)+
  show ?thesis
    using ok sums length_bt_remove [OF inv lane] bt_invar_remove [OF inv]
    unfolding sched_ok_def by (auto simp: bt_get_remove)
qed

lemma remove_lane_gives_up:
  assumes ok: "sched_ok s" and run: "remove_lane env h s k = (h', s', xs)"
  shows "gives_up h s h' s' xs"
proof (cases "bt_get (bs_lanes s) k")
  case None
  then have "filter (\<lambda>a. a \<noteq> k) (bs_active s) = bs_active s"
    using ok by (intro filter_True) (auto simp: sched_ok_def)
  with None ok run show ?thesis by (simp add: remove_lane_def Let_def gives_up_refl)
next
  case (Some l)
  have inv: "bt_invar (bs_lanes s)" using ok by (simp add: sched_ok_def)
  have s': "s' = s\<lparr>bs_active := filter (\<lambda>a. a \<noteq> k) (bs_active s), bs_lanes := bt_remove k (bs_lanes s)\<rparr>"
    and h': "h' = fst (cancel_jobs env h (ln_jobs l))" and xs: "xs = snd (cancel_jobs env h (ln_jobs l))"
    using run Some by (auto simp: remove_lane_def Let_def split: prod.splits)
  show ?thesis
    using sched_ok_remove [OF ok Some] cancel_jobs_never_ready [of env h "ln_jobs l"]
    by (simp add: gives_up_def s' h' xs cancel_jobs_scheduled_ids queued_ids_def
        bt_sum_remove [OF inv Some] ac_simps)
qed

lemma remove_lanes_gives_up:
  "sched_ok s \<Longrightarrow> remove_lanes env h s ks = (h', s', xs) \<Longrightarrow> gives_up h s h' s' xs"
proof (induction ks arbitrary: h s h' s' xs)
  case Nil
  then show ?case by (simp add: gives_up_refl)
next
  case (Cons k ks)
  obtain h1 s1 ys where 1: "remove_lane env h s k = (h1, s1, ys)" by (metis prod_cases3)
  obtain h2 s2 zs where 2: "remove_lanes env h1 s1 ks = (h2, s2, zs)" by (metis prod_cases3)
  have "gives_up h s h1 s1 ys" using Cons.prems(1) 1 by (rule remove_lane_gives_up)
  moreover from this have "gives_up h1 s1 h2 s2 zs" using 2 by (intro Cons.IH) (simp_all add: gives_up_def)
  ultimately show ?case using Cons.prems(2) 1 2 by (auto intro: gives_up_trans)
qed

lemma remove_lane_lanes:
  "remove_lane env h s k = (h', s', xs) \<Longrightarrow> bs_lanes s' = bt_remove k (bs_lanes s)"
  by (auto simp: remove_lane_def Let_def map_of_eq_None_iff bt_remove_absent split: option.splits prod.splits)

lemma remove_lanes_lanes:
  "remove_lanes env h s ks = (h', s', xs) \<Longrightarrow> bs_lanes s' = filter (\<lambda>(k, _). k \<notin> set ks) (bs_lanes s)"
proof (induction ks arbitrary: h s xs)
  case (Cons k ks)
  obtain h1 s1 ys where 1: "remove_lane env h s k = (h1, s1, ys)" by (metis prod_cases3)
  obtain zs where "remove_lanes env h1 s1 ks = (h', s', zs)"
    using Cons.prems 1 by (auto split: prod.splits)
  from Cons.IH [OF this] remove_lane_lanes [OF 1] show ?case
    by (simp add: bt_remove_def) (rule arg_cong [where f = "\<lambda>p. filter p (bs_lanes s)"], auto)
qed (simp add: filter_True split_beta)

lemma remove_lanes_all:
  "remove_lanes env h s (bt_keys (bs_lanes s)) = (h', s', xs) \<Longrightarrow> bs_lanes s' = []"
  by (drule remove_lanes_lanes) (force simp: bt_keys_def filter_empty_conv)

lemma host_revoke_gives_up:
  "sched_ok s \<Longrightarrow> host_revoke env h s agent = (h', s', xs) \<Longrightarrow> gives_up h s h' s' xs"
  by (auto simp: host_revoke_def gives_up_refl remove_lane_gives_up split: option.splits)

lemma host_prune_gives_up:
  "sched_ok s \<Longrightarrow> host_prune env now h s = (h', s', xs) \<Longrightarrow> gives_up h s h' s' xs"
  unfolding host_prune_def by (rule remove_lanes_gives_up)

lemma host_drain_gives_up:
  assumes ok: "sched_ok s" and run: "host_drain env h s = (h', s', xs)"
  shows "gives_up h s h' s' xs"
proof -
  obtain h1 s1 ys where 1: "remove_lanes env h s (bt_keys (bs_lanes s)) = (h1, s1, ys)"
    by (metis prod_cases3)
  let ?c = "cancel_jobs env h1 (bs_host s1)"
  have g: "gives_up h s h1 s1 ys" using remove_lanes_gives_up [OF ok 1] .
  have s': "s' = s1\<lparr>bs_host := [], bs_host_bytes := 0\<rparr>" and h': "h' = fst ?c" and xs: "xs = ys @ snd ?c"
    using run 1 by (auto simp: host_drain_def split_beta)
  have "sched_ok s'" using g by (auto simp: s' gives_up_def sched_ok_def limits_ok_def)
  then have "gives_up h1 s1 h' s' (snd ?c)"
    using cancel_jobs_never_ready [of env h1 "bs_host s1"]
    by (simp add: gives_up_def s' h' cancel_jobs_scheduled_ids queued_ids_def ac_simps)
  with g show ?thesis unfolding xs by (rule gives_up_trans)
qed

subsection \<open>Admission\<close>

lemma lane_of_agent_SomeD:
  assumes "sched_ok s" and "lane_of_agent s agent = Some k"
  shows "\<exists>l. bt_get (bs_lanes s) k = Some l \<and> ln_agent l = agent"
proof -
  obtain l where "(k, l) \<in> set (bs_lanes s)" and "ln_agent l = agent"
    using assms(2) by (auto simp: lane_of_agent_def find_Some_iff dest: nth_mem)
  then show ?thesis using assms(1) by (auto simp: sched_ok_def bt.lookup_eq_Some_iff)
qed

lemma lane_of_agent_NoneD:
  "lane_of_agent s agent = None \<Longrightarrow> bt_get (bs_lanes s) k = Some l \<Longrightarrow> ln_agent l \<noteq> agent"
  by (force simp: lane_of_agent_def find_None_iff dest: map_of_SomeD)

lemma sched_ok_register:
  assumes ok: "sched_ok s" and fresh: "bt_get (bs_lanes s) key = None"
    and agent: "\<And>k l. bt_get (bs_lanes s) k = Some l \<Longrightarrow> ln_agent l \<noteq> ln_agent new"
    and room: "length (bs_lanes s) < ql_max_agents (bs_limits s)"
    and new: "lane_ok (bs_limits s) new" "ln_jobs new = []"
  shows "sched_ok (s\<lparr>bs_lanes := bt_insert key new (bs_lanes s)\<rparr>)"
    and "queued_ids (s\<lparr>bs_lanes := bt_insert key new (bs_lanes s)\<rparr>) = queued_ids s"
proof -
  have inv: "bt_invar (bs_lanes s)" using ok by (simp add: sched_ok_def)
  have bytes: "ln_bytes new = 0" using new by (simp add: lane_ok_def)
  have idle: "key \<notin> set (bs_active s)" using ok fresh by (simp add: sched_ok_def)
  note sums = bt_sum_insert_fresh [OF fresh, where v = new]
  show "sched_ok (s\<lparr>bs_lanes := bt_insert key new (bs_lanes s)\<rparr>)"
    using ok room new bytes bt_invar_insert [OF inv] length_bt_insert [OF inv, of key new] fresh idle agent
    unfolding sched_ok_def
    by (simp add: bt_get_insert sums) (metis option.distinct(1))
  show "queued_ids (s\<lparr>bs_lanes := bt_insert key new (bs_lanes s)\<rparr>) = queued_ids s"
    by (simp add: queued_ids_def sums new)
qed

lemma register_guards_InrD:
  assumes "register_guards C now s agent cred limits lease_ms = Inr (key, sk, expires)"
  shows "credential_key C s cred = Inr key" and "server_key_new cred = Inr sk"
    and "validate_lane_limits s limits = Inr ()" and "bt_get (bs_lanes s) key = None"
    and "lane_of_agent s agent = None \<longrightarrow> length (bs_lanes s) < ql_max_agents (bs_limits s)"
    and "deadline now lease_ms = Inr expires"
  using assms by (auto simp: register_guards_def result_simps not_le)

lemma host_register_gives_up:
  assumes ok: "sched_ok s"
    and run: "host_register C env now h s agent cred limits lease_ms = (h', s', r)"
  shows "gives_up h s h' s' (case r of Inl _ \<Rightarrow> [] | Inr xs \<Rightarrow> xs)"
proof (cases "register_guards C now s agent cred limits lease_ms")
  case (Inl e)
  with run ok show ?thesis by (auto simp: host_register_def gives_up_refl)
next
  case (Inr x)
  obtain key sk expires where "x = (key, sk, expires)" by (cases x)
  with Inr have guards: "register_guards C now s agent cred limits lease_ms = Inr (key, sk, expires)"
    by simp
  note lim = register_guards_InrD(3) [OF guards] and fresh = register_guards_InrD(4) [OF guards]
    and room = register_guards_InrD(5) [OF guards]
  let ?new = "\<lparr>ln_agent = agent, ln_key = sk, ln_limits = limits, ln_expires = expires,
    ln_jobs = [], ln_bytes = 0\<rparr>"
  obtain h1 s1 xs where rm1: "(case lane_of_agent s agent of None \<Rightarrow> (h, s, [])
      | Some k \<Rightarrow> remove_lane env h s k) = (h1, s1, xs)" by (metis prod_cases3)
  then have r: "r = Inr xs" and s': "s' = s1\<lparr>bs_lanes := bt_insert key ?new (bs_lanes s1)\<rparr>"
    and h': "h1 = h'"
    using run guards by (auto simp: host_register_def Let_def)
  note rm = rm1 [unfolded h']
  have g: "gives_up h s h' s1 xs"
    using rm ok by (auto simp: gives_up_refl remove_lane_gives_up split: option.splits)
  then have ok1: "sched_ok s1" and L: "bs_limits s1 = bs_limits s" by (simp_all add: gives_up_def)
  have post: "bt_get (bs_lanes s1) key = None \<and> length (bs_lanes s1) < ql_max_agents (bs_limits s1) \<and>
    (\<forall>k l. bt_get (bs_lanes s1) k = Some l \<longrightarrow> ln_agent l \<noteq> agent)"
  proof (cases "lane_of_agent s agent")
    case None
    with rm room fresh show ?thesis using lane_of_agent_NoneD [OF None] by simp
  next
    case (Some k)
    obtain l where l: "bt_get (bs_lanes s) k = Some l" "ln_agent l = agent"
      using lane_of_agent_SomeD [OF ok Some] by blast
    have lanes: "bs_lanes s1 = bt_remove k (bs_lanes s)"
      using rm Some l by (auto simp: remove_lane_def Let_def split_beta)
    have inv: "bt_invar (bs_lanes s)" and len: "length (bs_lanes s) \<le> ql_max_agents (bs_limits s)"
      using ok by (simp_all add: sched_ok_def)
    have "\<forall>k' l'. bt_get (bs_lanes s) k' = Some l' \<longrightarrow> ln_agent l' = agent \<longrightarrow> k' = k"
      using ok l unfolding sched_ok_def by blast
    then show ?thesis
      using length_bt_remove [OF inv l(1)] len fresh by (auto simp: lanes bt_get_remove L)
  qed
  have new: "lane_ok (bs_limits s1) ?new"
    using lim by (auto simp: lane_ok_def validate_lane_limits_def L split: if_splits)
  have "sched_ok s'" and "queued_ids s' = queued_ids s1"
    unfolding s' using post new by (auto intro!: sched_ok_register [OF ok1])
  then show ?thesis using g by (simp add: r gives_up_def) (simp add: s')
qed

lemma sched_ok_update_lane:
  assumes ok: "sched_ok s" and lane: "bt_get (bs_lanes s) k = Some l"
    and new: "lane_ok (bs_limits s) (g l)" "ln_agent (g l) = ln_agent l"
    and jobs: "bt_sum (\<lambda>l. length (ln_jobs l)) (bs_lanes s) + length (ln_jobs (g l))
      \<le> ql_max_agent_jobs (bs_limits s) + length (ln_jobs l)"
    and bytes: "bt_sum ln_bytes (bs_lanes s) + ln_bytes (g l)
      \<le> ql_max_agent_bytes (bs_limits s) + ln_bytes l"
    and active: "distinct act" "\<And>k'. k' \<in> set act \<longleftrightarrow>
      (if k' = k then ln_jobs (g l) \<noteq> [] else k' \<in> set (bs_active s))"
  shows "sched_ok (s\<lparr>bs_lanes := bt_update k g (bs_lanes s), bs_active := act\<rparr>)"
proof -
  have inv: "bt_invar (bs_lanes s)" using ok by (simp add: sched_ok_def)
  have len: "length (bt_update k g (bs_lanes s)) = length (bs_lanes s)" by (simp add: bt_update_def)
  note sums = bt_sum_update [OF inv lane, where g = g]
  have "bt_sum (\<lambda>l. length (ln_jobs l)) (bt_update k g (bs_lanes s)) \<le> ql_max_agent_jobs (bs_limits s)"
    using sums [of "\<lambda>l. length (ln_jobs l)"] jobs by linarith
  moreover have "bt_sum ln_bytes (bt_update k g (bs_lanes s)) \<le> ql_max_agent_bytes (bs_limits s)"
    using sums [of ln_bytes] bytes by linarith
  moreover have "\<forall>k' l'. bt_get (bt_update k g (bs_lanes s)) k' = Some l' \<longrightarrow> lane_ok (bs_limits s) l'"
    using ok lane new(1) by (auto simp: sched_ok_def bt_get_update)
  moreover have "\<forall>k1 l1 k2 l2. bt_get (bt_update k g (bs_lanes s)) k1 = Some l1 \<longrightarrow>
      bt_get (bt_update k g (bs_lanes s)) k2 = Some l2 \<longrightarrow> ln_agent l1 = ln_agent l2 \<longrightarrow> k1 = k2"
    using ok lane new(2) unfolding sched_ok_def bt_get_update by (auto split: if_splits)
  moreover have "\<forall>k'. k' \<in> set act \<longleftrightarrow>
      (\<exists>l. bt_get (bt_update k g (bs_lanes s)) k' = Some l \<and> ln_jobs l \<noteq> [])"
    using ok lane active(2) by (auto simp: sched_ok_def bt_get_update)
  ultimately show ?thesis
    using ok active(1) bt_invar_update [OF inv] by (simp add: sched_ok_def len)
qed

lemma queued_ids_update_lane:
  assumes "sched_ok s" and "bt_get (bs_lanes s) k = Some l"
  shows "queued_ids (s\<lparr>bs_lanes := bt_update k g (bs_lanes s), bs_active := act\<rparr>)
      + mset (map job_id (ln_jobs l)) = queued_ids s + mset (map job_id (ln_jobs (g l)))"
  using bt_sum_update [of "bs_lanes s" k l "\<lambda>l. mset (map job_id (ln_jobs l))" g] assms
  by (simp add: queued_ids_def sched_ok_def add.assoc)

lemma enqueue_guards_InrD:
  assumes "enqueue_guards C now1 now2 s cred n wait_ms = Inr (key, lane, expires)" and "sched_ok s"
  shows "credential_key C s cred = Inr key" and "bt_get (bs_lanes s) key = Some lane"
    and "now1 < ln_expires lane" and "expires \<le> ln_expires lane"
    and "bt_sum (\<lambda>l. length (ln_jobs l)) (bs_lanes s) < ql_max_agent_jobs (bs_limits s)"
    and "bt_sum ln_bytes (bs_lanes s) + n \<le> ql_max_agent_bytes (bs_limits s)"
    and "length (ln_jobs lane) < al_max_jobs (ln_limits lane)"
    and "ln_bytes lane + n \<le> al_max_bytes (ln_limits lane)"
proof -
  have g: "credential_key C s cred = Inr key" "bt_get (bs_lanes s) key = Some lane"
    "now1 < ln_expires lane" "expires \<le> ln_expires lane"
    "bt_sum (\<lambda>l. length (ln_jobs l)) (bs_lanes s) < ql_max_agent_jobs (bs_limits s)"
    "length (ln_jobs lane) < al_max_jobs (ln_limits lane)"
    and q: "n \<le> usize_sub (ql_max_agent_bytes (bs_limits s)) (bt_sum ln_bytes (bs_lanes s))"
    "n \<le> usize_sub (al_max_bytes (ln_limits lane)) (ln_bytes lane)"
    using assms(1) by (auto simp: enqueue_guards_def live_lane_def result_simps not_le not_less
        split: option.splits if_splits)
  have "bt_sum ln_bytes (bs_lanes s) \<le> ql_max_agent_bytes (bs_limits s)"
    and "lane_ok (bs_limits s) lane"
    using assms(2) g(2) by (simp_all add: sched_ok_def)
  then have "bt_sum ln_bytes (bs_lanes s) \<le> ql_max_agent_bytes (bs_limits s)"
    and "ln_bytes lane \<le> al_max_bytes (ln_limits lane)" 
    unfolding lane_ok_def by blast+
  with q show "bt_sum ln_bytes (bs_lanes s) + n \<le> ql_max_agent_bytes (bs_limits s)"
    and "ln_bytes lane + n \<le> al_max_bytes (ln_limits lane)" by simp_all
  show "credential_key C s cred = Inr key" "bt_get (bs_lanes s) key = Some lane"
    "now1 < ln_expires lane" "expires \<le> ln_expires lane"
    "bt_sum (\<lambda>l. length (ln_jobs l)) (bs_lanes s) < ql_max_agent_jobs (bs_limits s)"
    "length (ln_jobs lane) < al_max_jobs (ln_limits lane)" by (fact g)+
qed

lemma enqueue_agent_admits:
  assumes ok: "sched_ok s" "heap_ok h s"
    and run: "enqueue_agent C n1 n2 n3 h s cred payload bytes wait_ms = (h', s', r)"
  shows "sched_ok s'" and "heap_ok h' s'" and "heap_le {} h h'"
    and "queued_ids s' = queued_ids s + mset (case r of Inl _ \<Rightarrow> [] | Inr a \<Rightarrow> [(a, Some payload)])"
proof -
  have "sched_ok s' \<and> heap_ok h' s' \<and> heap_le {} h h' \<and>
    queued_ids s' = queued_ids s + mset (case r of Inl _ \<Rightarrow> [] | Inr a \<Rightarrow> [(a, Some payload)])"
  proof (cases "enqueue_guards C n1 n2 s cred bytes wait_ms")
    case (Inl e)
    with run ok show ?thesis by (auto simp: enqueue_agent_def)
  next
    case (Inr x)
    obtain key lane expires where "x = (key, lane, expires)" by (cases x)
    with Inr have guards: "enqueue_guards C n1 n2 s cred bytes wait_ms = Inr (key, lane, expires)" by simp
    note g = enqueue_guards_InrD [OF guards ok(1)]
    let ?q = "\<lparr>q_payload = payload, q_bytes = bytes, q_enqueued = n3, q_expires = expires, q_cell = length h\<rparr>"
    let ?act = "if ln_jobs lane = [] then bs_active s @ [key] else bs_active s"
    have s': "s' = s\<lparr>bs_lanes := bt_update key (lane_push ?q) (bs_lanes s), bs_active := ?act\<rparr>"
      and h': "h' = h @ [QUEUED]" and r: "r = Inr (length h)"
      using run guards by (auto simp: enqueue_agent_def Let_def)
    have lane: "lane_ok (bs_limits s) lane" using ok(1) g(2) by (simp add: sched_ok_def)
    have key: "key \<in> set (bs_active s) \<longleftrightarrow> ln_jobs lane \<noteq> []" and "distinct (bs_active s)"
      using ok(1) g(2) by (simp_all add: sched_ok_def)
    then have "sched_ok s'" unfolding s' using lane g ok(1)
      by (intro sched_ok_update_lane [where l = lane]) (auto simp: lane_push_def lane_ok_def)
    moreover have ids: "queued_ids s' = add_mset (length h, Some payload) (queued_ids s)"
      using queued_ids_update_lane [OF ok(1) g(2), where g = "lane_push ?q" and act = ?act]
      by (simp add: s' lane_push_def job_id_def)
    moreover have "heap_ok h' s'" unfolding h' using ok(2) ids by (rule heap_ok_alloc)
    ultimately show ?thesis by (simp add: h' r)
  qed
  then show "sched_ok s'" "heap_ok h' s'" "heap_le {} h h'"
    "queued_ids s' = queued_ids s + mset (case r of Inl _ \<Rightarrow> [] | Inr a \<Rightarrow> [(a, Some payload)])" by auto
qed

lemma enqueue_host_admits:
  assumes ok: "sched_ok s" "heap_ok h s"
    and run: "enqueue_host n1 n2 h s payload bytes wait_ms = (h', s', r)"
  shows "sched_ok s'" and "heap_ok h' s'" and "heap_le {} h h'"
    and "queued_ids s' = queued_ids s + mset (case r of Inl _ \<Rightarrow> [] | Inr a \<Rightarrow> [(a, Some payload)])"
proof -
  have "sched_ok s' \<and> heap_ok h' s' \<and> heap_le {} h h' \<and>
    queued_ids s' = queued_ids s + mset (case r of Inl _ \<Rightarrow> [] | Inr a \<Rightarrow> [(a, Some payload)])"
  proof (cases "r = Inr (length h)")
    case False
    then show ?thesis using run ok heap_ok_env [OF ok(2) heap_le_alloc]
      by (auto simp: enqueue_host_def Let_def split: sum.splits)
  next
    case True
    have room: "length (bs_host s) < ql_max_host_jobs (bs_limits s)"
      "bs_host_bytes s + bytes \<le> ql_max_host_bytes (bs_limits s)"
      using run ok(1) unfolding True
      by (auto simp: enqueue_host_def sched_ok_def result_simps split: sum.splits)
    obtain e where s': "s' = s\<lparr>bs_host := bs_host s @ [\<lparr>q_payload = payload, q_bytes = bytes,
        q_enqueued = n1, q_expires = e, q_cell = length h\<rparr>], bs_host_bytes := bs_host_bytes s + bytes\<rparr>"
      and h': "h' = h @ [QUEUED]"
      using run unfolding True by (auto simp: enqueue_host_def split: sum.splits)
    have "sched_ok s'" using ok(1) room by (simp add: s' sched_ok_def)
    moreover have ids: "queued_ids s' = add_mset (length h, Some payload) (queued_ids s)"
      by (simp add: s' queued_ids_def job_id_def)
    moreover have "heap_ok h' s'" unfolding h' using ok(2) ids by (rule heap_ok_alloc)
    ultimately show ?thesis by (simp add: h' True)
  qed
  then show "sched_ok s'" "heap_ok h' s'" "heap_le {} h h'"
    "queued_ids s' = queued_ids s + mset (case r of Inl _ \<Rightarrow> [] | Inr a \<Rightarrow> [(a, Some payload)])" by auto
qed

subsection \<open>Dispatch\<close>

text \<open>
  What \<open>pop\<close> does, without the branches the invariant excludes: the host's first job, or the first
  job of the first active lane.
\<close>

definition pop_host :: "'a broker_scheduler \<Rightarrow> bool" where
  "pop_host s \<longleftrightarrow> bs_host s \<noteq> [] \<and> (bs_host_turn s \<or> bs_active s = [])"

lemma pop_host_step:
  assumes "pop_host s" and "sched_ok s"
  shows "pop tk h s = (fst (dispatch tk h (hd (bs_host s))),
    s\<lparr>bs_host_turn := False, bs_host := tl (bs_host s),
      bs_host_bytes := bs_host_bytes s - q_bytes (hd (bs_host s))\<rparr>,
    Some (snd (dispatch tk h (hd (bs_host s)))))"
  using assms by (cases "bs_host s") (auto simp: pop_def pop_host_def sched_ok_def Let_def split_beta)

definition after_lane_pop :: "'a broker_scheduler \<Rightarrow> 'a broker_scheduler" where
  "after_lane_pop s =
     (let key = hd (bs_active s); jobs = ln_jobs (the (bt_get (bs_lanes s) key))
      in s\<lparr>bs_lanes := bt_update key (\<lambda>l. l\<lparr>ln_jobs := tl jobs,
                          ln_bytes := usize_sub (ln_bytes l) (q_bytes (hd jobs))\<rparr>) (bs_lanes s),
           bs_active := (if tl jobs \<noteq> [] then tl (bs_active s) @ [key] else tl (bs_active s)),
           bs_host_turn := True\<rparr>)"

lemma active_lane:
  assumes "bs_active s = key # rest" and ok: "sched_ok s"
  obtains lane q qs where "bt_get (bs_lanes s) key = Some lane" and "ln_jobs lane = q # qs"
proof -
  have "key \<in> set (bs_active s)" using assms(1) by simp
  then obtain lane where lane: "bt_get (bs_lanes s) key = Some lane" and "ln_jobs lane \<noteq> []"
    using ok unfolding sched_ok_def by blast
  with that show thesis by (cases "ln_jobs lane") auto
qed

lemma pop_lane_step:
  assumes "\<not> pop_host s" and "bs_active s = key # rest"
    and "bt_get (bs_lanes s) key = Some lane" and "ln_jobs lane = q # qs"
  shows "pop tk h s = (fst (dispatch tk h q), after_lane_pop s, Some (snd (dispatch tk h q)))"
  using assms by (auto simp: pop_def pop_host_def Let_def split_beta after_lane_pop_def)

lemma after_lane_pop:
  assumes ok: "sched_ok s" and act: "bs_active s = key # rest"
    and lane: "bt_get (bs_lanes s) key = Some lane" "ln_jobs lane = q # qs"
  shows "sched_ok (after_lane_pop s)" and "queued_ids s = add_mset (job_id q) (queued_ids (after_lane_pop s))"
proof -
  let ?g = "\<lambda>l. l\<lparr>ln_jobs := qs, ln_bytes := usize_sub (ln_bytes l) (q_bytes q)\<rparr>"
  let ?act = "if qs \<noteq> [] then rest @ [key] else rest"
  let ?t = "s\<lparr>bs_lanes := bt_update key ?g (bs_lanes s), bs_active := ?act\<rparr>"
  have t: "after_lane_pop s = ?t\<lparr>bs_host_turn := True\<rparr>"
    using act lane by (simp add: after_lane_pop_def)
  have l: "lane_ok (bs_limits s) lane" and d: "distinct (key # rest)"
    and b: "bt_sum (\<lambda>l. length (ln_jobs l)) (bs_lanes s) \<le> ql_max_agent_jobs (bs_limits s)"
      "bt_sum ln_bytes (bs_lanes s) \<le> ql_max_agent_bytes (bs_limits s)"
    using ok lane(1) act by (auto simp: sched_ok_def)
  have "sched_ok ?t"
    using l d lane b act by (intro sched_ok_update_lane [OF ok lane(1)]) (auto simp: lane_ok_def)
  then show "sched_ok (after_lane_pop s)" unfolding t by (simp add: sched_ok_def)
  have "queued_ids s = add_mset (job_id q) (queued_ids ?t)"
    using queued_ids_update_lane [OF ok lane(1), where g = ?g and act = ?act] lane(2) by simp
  then show "queued_ids s = add_mset (job_id q) (queued_ids (after_lane_pop s))"
    unfolding t by (simp add: queued_ids_def)
qed

lemma pop_cases [consumes 1, case_names empty host agent]:
  assumes ok: "sched_ok s"
  obtains (empty) "bs_host s = []" "bs_active s = []" "pop tk h s = (h, s, None)"
  | (host) q qs where "pop_host s" "bs_host s = q # qs"
      "pop tk h s = (fst (dispatch tk h q), s\<lparr>bs_host_turn := False, bs_host := qs,
         bs_host_bytes := bs_host_bytes s - q_bytes q\<rparr>, Some (snd (dispatch tk h q)))"
  | (agent) key rest lane q qs where "\<not> pop_host s" "bs_active s = key # rest"
      "bt_get (bs_lanes s) key = Some lane" "ln_jobs lane = q # qs"
      "pop tk h s = (fst (dispatch tk h q), after_lane_pop s, Some (snd (dispatch tk h q)))"
proof (cases "pop_host s")
  case True
  then obtain q qs where "bs_host s = q # qs" by (cases "bs_host s") (auto simp: pop_host_def)
  then show thesis using host [of q qs] True pop_host_step [OF True ok, of tk h] by simp
next
  case False
  show thesis
  proof (cases "bs_active s")
    case Nil
    with False show thesis by (intro empty) (auto simp: pop_def pop_host_def)
  next
    case (Cons key rest)
    then obtain lane q qs where "bt_get (bs_lanes s) key = Some lane" "ln_jobs lane = q # qs"
      using active_lane [OF _ ok] by blast
    then show thesis using agent [OF False Cons] pop_lane_step [OF False Cons] by blast
  qed
qed

lemma pop_host_ok:
  assumes "sched_ok s" and "bs_host s = q # qs"
  shows "sched_ok (s\<lparr>bs_host_turn := False, bs_host := qs, bs_host_bytes := bs_host_bytes s - q_bytes q\<rparr>)"
    and "queued_ids s = add_mset (job_id q)
      (queued_ids (s\<lparr>bs_host_turn := False, bs_host := qs, bs_host_bytes := bs_host_bytes s - q_bytes q\<rparr>))"
  using assms by (auto simp: sched_ok_def queued_ids_def)

lemma scheduled_id_dispatch: "scheduled_id (snd (dispatch tk h q)) = job_id q"
  by (simp add: scheduled_id_def job_id_def dispatch_fields)

lemma pop_takes:
  assumes ok: "sched_ok s" and run: "pop tk h s = (h', s', Some x)"
  obtains q where "h' = fst (dispatch tk h q)" and "x = snd (dispatch tk h q)"
    and "sched_ok s'" and "queued_ids s = add_mset (scheduled_id x) (queued_ids s')"
  using ok
proof (cases rule: pop_cases [where tk = tk and h = h])
  case empty
  with run show thesis by simp
next
  case (host q qs)
  with run pop_host_ok [OF ok host(2)] show thesis
    by (intro that [of q]) (auto simp: scheduled_id_dispatch)
next
  case (agent key rest lane q qs)
  with run after_lane_pop [OF ok agent(2-4)] show thesis
    by (intro that [of q]) (auto simp: scheduled_id_dispatch)
qed

lemma pop_None_iff: "sched_ok s \<Longrightarrow> pop tk h s = (h', s', None) \<longleftrightarrow>
  bs_host s = [] \<and> bs_active s = [] \<and> h' = h \<and> s' = s"
  by (rule pop_cases [of s tk h]) auto

subsection \<open>Every operation keeps the invariant and loses no job\<close>

lemma gives_up_inv:
  assumes "gives_up h s h' s' xs" and "heap_ok h s"
  shows "sched_inv (h', s')"
  using assms heap_ok_step [of h s "{}" h' s' "mset (map scheduled_id xs)"]
  by (simp add: sched_inv_def gives_up_def)

text \<open>The jobs among those handed out that may run.\<close>

definition ready :: "'a scheduled list \<Rightarrow> 'a scheduled list" where
  "ready xs = filter (\<lambda>x. sc_status x = Ready) xs"

definition op_contract ::
    "'a sched_state \<Rightarrow> 'a sched_state \<Rightarrow> 'a scheduled list \<Rightarrow> 'a job_id list \<Rightarrow> bool" where
  "op_contract st st' outs adm \<longleftrightarrow> sched_inv st' \<and>
     queued_ids (snd st) + mset adm = queued_ids (snd st') + mset (map scheduled_id outs) \<and>
     heap_le (sc_cell ` set (ready outs)) (fst st) (fst st') \<and>
     distinct (map sc_cell (ready outs)) \<and>
     (\<forall>x \<in> set (ready outs). cell_at (fst st) (sc_cell x) = QUEUED \<and>
        cell_at (fst st') (sc_cell x) = DISPATCHED)"

lemma gives_up_contract:
  assumes "sched_inv (h, s)" and "gives_up h s h' s' xs"
  shows "op_contract (h, s) (h', s') xs []"
proof -
  have "ready xs = []" using assms(2) by (simp add: ready_def gives_up_def filter_empty_conv)
  then show ?thesis using assms gives_up_inv [OF assms(2)]
    by (simp add: op_contract_def sched_inv_def gives_up_def)
qed

lemma pop_contract:
  assumes inv: "sched_inv (h, s)" and run: "pop tk h s = (h', s', r)"
  shows "op_contract (h, s) (h', s') (case r of None \<Rightarrow> [] | Some x \<Rightarrow> [x]) []"
proof (cases r)
  case None
  with run inv pop_None_iff [of s tk h h' s'] show ?thesis
    by (auto simp: op_contract_def sched_inv_def ready_def)
next
  case (Some x)
  have ok: "sched_ok s" and heap: "heap_ok h s" using inv by (simp_all add: sched_inv_def)
  from pop_takes [OF ok run [unfolded Some]] obtain q where
    h': "h' = fst (dispatch tk h q)" and x: "x = snd (dispatch tk h q)" and ok': "sched_ok s'"
    and ids: "queued_ids s = add_mset (scheduled_id x) (queued_ids s')" .
  have "heap_le {sc_cell x} h h'" using heap_le_dispatch by (simp add: h' x dispatch_fields)
  then have "heap_ok h' s'"
    using heap ids by (intro heap_ok_step [of h s "{sc_cell x}" h' s' "{#scheduled_id x#}"])
      (auto simp: scheduled_id_def)
  moreover have "heap_le (sc_cell ` set (ready [x])) h h'"
  proof (cases "sc_status x = Ready")
    case True
    then show ?thesis using \<open>heap_le {sc_cell x} h h'\<close> by (simp add: ready_def)
  next
    case False
    then show ?thesis using dispatch_not_ready_env [of tk h q] by (simp add: ready_def h' x)
  qed
  ultimately show ?thesis
    using ok' ids dispatch_Ready [of tk h q]
    by (auto simp: op_contract_def sched_inv_def Some ready_def h' x dispatch_fields)
qed

lemma env_contract:
  assumes "sched_inv (h, s)" and "heap_le {} h h'"
  shows "op_contract (h, s) (h', s) [] []"
  using assms heap_ok_env [of h s h'] by (simp add: op_contract_def sched_inv_def ready_def)

lemma admit_contract:
  assumes "sched_ok s'" and "heap_ok h' s'" and "heap_le {} h h'"
    and "queued_ids s' = queued_ids s + mset adm"
  shows "op_contract (h, s) (h', s') [] adm"
  using assms by (simp add: op_contract_def sched_inv_def ready_def)

lemma sched_exec_contract:
  assumes inv: "sched_inv st" and run: "sched_exec C op st = (st', outs, adm)"
  shows "op_contract st st' outs adm"
proof -
  obtain h s h' s' where st: "st = (h, s)" "st' = (h', s')" by (metis surj_pair)
  have ok: "sched_ok s" and heap: "heap_ok h s" using inv by (simp_all add: sched_inv_def st)
  note gives = gives_up_contract [OF inv [unfolded st]]
  show ?thesis
  proof (cases op)
    case (OpRegister env now agent cred limits lease_ms)
    with run obtain r where r: "host_register C env now h s agent cred limits lease_ms = (h', s', r)"
      and outs: "outs = (case r of Inl _ \<Rightarrow> [] | Inr xs \<Rightarrow> xs)" and "adm = []"
      by (auto simp: st split: prod.splits)
    then show ?thesis using gives [OF host_register_gives_up [OF ok r]] by (simp add: st)
  next
    case (OpRevoke env agent)
    with run have r: "host_revoke env h s agent = (h', s', outs)" and "adm = []"
      by (auto simp: st split: prod.splits)
    then show ?thesis using gives [OF host_revoke_gives_up [OF ok r]] by (simp add: st)
  next
    case (OpEnqueueAgent n1 n2 n3 cred payload bytes wait_ms)
    with run obtain r where r: "enqueue_agent C n1 n2 n3 h s cred payload bytes wait_ms = (h', s', r)"
      and "outs = []" and "adm = (case r of Inl _ \<Rightarrow> [] | Inr a \<Rightarrow> [(a, Some payload)])"
      by (auto simp: st split: prod.splits)
    then show ?thesis using admit_contract [OF enqueue_agent_admits [OF ok heap r]] by (simp add: st)
  next
    case (OpEnqueueHost n1 n2 payload bytes wait_ms)
    with run obtain r where r: "enqueue_host n1 n2 h s payload bytes wait_ms = (h', s', r)"
      and "outs = []" and "adm = (case r of Inl _ \<Rightarrow> [] | Inr a \<Rightarrow> [(a, Some payload)])"
      by (auto simp: st split: prod.splits)
    then show ?thesis using admit_contract [OF enqueue_host_admits [OF ok heap r]] by (simp add: st)
  next
    case (OpPop tk)
    with run obtain r where r: "pop tk h s = (h', s', r)" and "adm = []"
      and "outs = (case r of None \<Rightarrow> [] | Some x \<Rightarrow> [x])"
      by (auto simp: st split: prod.splits)
    then show ?thesis using pop_contract [OF inv [unfolded st] r] by (simp add: st)
  next
    case (OpPrune env now)
    with run have r: "host_prune env now h s = (h', s', outs)" and "adm = []"
      by (auto simp: st split: prod.splits)
    then show ?thesis using gives [OF host_prune_gives_up [OF ok r]] by (simp add: st)
  next
    case (OpDrain env)
    with run have r: "host_drain env h s = (h', s', outs)" and "adm = []"
      by (auto simp: st split: prod.splits)
    then show ?thesis using gives [OF host_drain_gives_up [OF ok r]] by (simp add: st)
  next
    case (OpCancel a)
    with run show ?thesis using env_contract [OF inv [unfolded st] heap_le_cancel [of h a]] by (auto simp: st)
  next
    case (OpDropScheduled a)
    with run show ?thesis
      using env_contract [OF inv [unfolded st] heap_le_access [of h "Drops a"]] by (auto simp: st)
  qed
qed

definition sched_init :: "'a sched_state \<Rightarrow> bool" where
  "sched_init st \<longleftrightarrow> fst st = [] \<and> scheduler_new (bs_epoch (snd st)) (bs_limits (snd st)) = Inr (snd st)"

definition sched_step :: "broker_crypto \<Rightarrow> 'a sched_state \<Rightarrow> 'a sched_state \<Rightarrow> bool" where
  "sched_step C st st' \<longleftrightarrow> (\<exists>op. st' = fst (sched_exec C op st))"

lemma scheduler_new_ok: "scheduler_new epoch limits = Inr s \<Longrightarrow> sched_inv ([], s)"
  by (auto simp: scheduler_new_def sched_inv_def sched_ok_def limits_ok_def heap_ok_def queued_ids_def
      split: if_splits)

interpretation sched: invariant_system sched_init "sched_step C" sched_inv for C
proof
  show "sched_init st \<Longrightarrow> sched_inv st" for st :: "'a sched_state"
    using scheduler_new_ok [of "bs_epoch (snd st)" "bs_limits (snd st)" "snd st"]
    by (cases st) (simp add: sched_init_def)
  show "sched_inv st \<Longrightarrow> sched_step C st st' \<Longrightarrow> sched_inv st'" for st st' :: "'a sched_state"
    using sched_exec_contract [of st C]
    by (auto simp: sched_step_def op_contract_def) (metis eq_fst_iff)
qed

lemma sched_run_contract:
  "sched_inv st \<Longrightarrow> sched_run C ops st = (st', outs, adm) \<Longrightarrow>
    sched_inv st' \<and>
    queued_ids (snd st) + mset adm = queued_ids (snd st') + mset (map scheduled_id outs) \<and>
    heap_le (sc_cell ` set (ready outs)) (fst st) (fst st') \<and>
    distinct (map sc_cell (ready outs)) \<and>
    (\<forall>x \<in> set (ready outs). sc_cell x < length (fst st) \<longrightarrow> cell_at (fst st) (sc_cell x) = QUEUED)"
proof (induction ops arbitrary: st outs adm)
  case Nil
  then show ?case by (simp add: ready_def)
next
  case (Cons op ops)
  obtain st1 out1 adm1 where 1: "sched_exec C op st = (st1, out1, adm1)" by (metis prod_cases3)
  obtain out2 adm2 where 2: "sched_run C ops st1 = (st', out2, adm2)"
    and outs: "outs = out1 @ out2" and adm: "adm = adm1 @ adm2"
    using Cons.prems(2) 1 by (auto split: prod.splits)
  have c1: "op_contract st st1 out1 adm1" using Cons.prems(1) 1 by (rule sched_exec_contract)
  then have inv1: "sched_inv st1" by (simp add: op_contract_def)
  note c2 = Cons.IH [OF inv1 2]
  have le: "length (fst st) \<le> length (fst st1)" using c1 by (auto simp: op_contract_def heap_le_def)
  have heaps: "heap_le (sc_cell ` set (ready outs)) (fst st) (fst st')"
    using heap_le_trans [of _ "fst st" "fst st1" _ "fst st'"] c1 c2
    by (auto simp: op_contract_def outs ready_def image_Un)
  have q2: "cell_at (fst st) (sc_cell x) = QUEUED"
    if "x \<in> set (ready out2)" "sc_cell x < length (fst st)" for x
    using c2 that le c1 heap_leD(3) [of _ "fst st" "fst st1" "sc_cell x"]
    unfolding op_contract_def by (meson order_less_le_trans)
  have "sc_cell x \<noteq> sc_cell y" if "x \<in> set (ready out1)" "y \<in> set (ready out2)" for x y
  proof
    assume eq: "sc_cell x = sc_cell y"
    have "cell_at (fst st1) (sc_cell y) = DISPATCHED" using c1 that(1) eq by (auto simp: op_contract_def)
    moreover have "sc_cell y < length (fst st1)"
    proof -
      have "cell_at (fst st) (sc_cell x) = QUEUED" using c1 that(1) by (simp add: op_contract_def)
      then show ?thesis using le eq by (auto simp: cell_at_def split: if_splits)
    qed
    ultimately show False using c2 that(2) by fastforce
  qed
  then have "distinct (map sc_cell (ready outs))" "\<forall>x \<in> set (ready outs).
      sc_cell x < length (fst st) \<longrightarrow> cell_at (fst st) (sc_cell x) = QUEUED"
    using c1 c2 q2 by (auto simp: op_contract_def outs ready_def)
  moreover have "queued_ids (snd st) + mset adm = queued_ids (snd st') + mset (map scheduled_id outs)"
  proof -
    have e1: "queued_ids (snd st) + mset adm1 = queued_ids (snd st1) + mset (map scheduled_id out1)"
      using c1 by (simp add: op_contract_def)
    have "queued_ids (snd st) + mset adm = (queued_ids (snd st) + mset adm1) + mset adm2"
      by (simp add: adm ac_simps)
    also have "\<dots> = (queued_ids (snd st1) + mset adm2) + mset (map scheduled_id out1)"
      unfolding e1 by (simp add: ac_simps)
    also have "queued_ids (snd st1) + mset adm2 = queued_ids (snd st') + mset (map scheduled_id out2)"
      using c2 by simp
    finally show ?thesis by (simp add: outs ac_simps)
  qed
  ultimately show ?case using c2 heaps by simp
qed

subsection \<open>Order of dispatch\<close>

text \<open>The job \<open>q\<close> heads the lane \<open>key\<close>, and how many dispatches can precede it.\<close>

definition lane_waits :: "'a broker_scheduler \<Rightarrow> string \<Rightarrow> 'a queued \<Rightarrow> bool" where
  "lane_waits s key q \<longleftrightarrow> (\<exists>l qs. bt_get (bs_lanes s) key = Some l \<and> ln_jobs l = q # qs)"

definition lane_rank :: "'a broker_scheduler \<Rightarrow> string \<Rightarrow> nat" where
  "lane_rank s key =
     2 * length (takeWhile (\<lambda>k. k \<noteq> key) (bs_active s)) + (if bs_host_turn s then 1 else 0)"

fun is_pop :: "'a sched_op \<Rightarrow> bool" where
  "is_pop (OpPop _) = True"
| "is_pop _ = False"

text \<open>The operations that neither remove nor replace lanes.\<close>

fun keeps_lanes :: "'a sched_op \<Rightarrow> bool" where
  "keeps_lanes (OpRegister _ _ _ _ _ _) = False"
| "keeps_lanes (OpRevoke _ _) = False"
| "keeps_lanes (OpPrune _ _) = False"
| "keeps_lanes (OpDrain _) = False"
| "keeps_lanes _ = True"

lemma lane_waits_active: "sched_ok s \<Longrightarrow> lane_waits s key q \<Longrightarrow> key \<in> set (bs_active s)"
  by (auto simp: sched_ok_def lane_waits_def)

lemma length_takeWhile_neq: "x \<in> set xs \<Longrightarrow> length (takeWhile (\<lambda>k. k \<noteq> x) xs) < length xs"
  by (induction xs) auto

lemma lane_rank_less: "key \<in> set (bs_active s) \<Longrightarrow> lane_rank s key < 2 * length (bs_active s)"
  using length_takeWhile_neq [of key "bs_active s"] by (auto simp: lane_rank_def)

lemma pop_rank:
  assumes ok: "sched_ok s" and waits: "lane_waits s key q" and run: "pop tk h s = (h', s', r)"
  shows "r = Some (snd (dispatch tk h q)) \<or> lane_waits s' key q \<and> lane_rank s' key < lane_rank s key"
proof -
  have act: "key \<in> set (bs_active s)" using lane_waits_active [OF ok waits] .
  from ok show ?thesis
  proof (cases rule: pop_cases [where tk = tk and h = h])
    case empty
    with act show ?thesis by simp
  next
    case (host q0 qs)
    with act have "bs_host_turn s" by (auto simp: pop_host_def)
    with host(3) run waits show ?thesis by (auto simp: lane_waits_def lane_rank_def)
  next
    case (agent key' rest lane q0 qs)
    show ?thesis
    proof (cases "key' = key")
      case True
      with agent waits run show ?thesis by (auto simp: lane_waits_def)
    next
      case False
      with act agent(2) have "key \<in> set rest" by auto
      moreover have "s' = after_lane_pop s" using agent(5) run by simp
      ultimately show ?thesis
        using False agent(2-4) waits
        by (auto simp: lane_waits_def lane_rank_def after_lane_pop_def bt_get_update takeWhile_append1)
    qed
  qed
qed

lemma enqueue_agent_rank:
  assumes ok: "sched_ok s" and waits: "lane_waits s key q"
    and run: "enqueue_agent C n1 n2 n3 h s cred payload bytes wait_ms = (h', s', r)"
  shows "lane_waits s' key q \<and> lane_rank s' key = lane_rank s key"
proof -
  have act: "key \<in> set (bs_active s)" using lane_waits_active [OF ok waits] .
  show ?thesis
    using run waits act
    by (auto simp: enqueue_agent_def Let_def lane_waits_def lane_rank_def bt_get_update lane_push_def
        takeWhile_append1 split: sum.splits)
qed

lemma enqueue_host_rank:
  assumes "lane_waits s key q" and "enqueue_host n1 n2 h s payload bytes wait_ms = (h', s', r)"
  shows "lane_waits s' key q \<and> lane_rank s' key = lane_rank s key"
  using assms by (auto simp: enqueue_host_def lane_waits_def lane_rank_def split: sum.splits)

lemma sched_exec_rank:
  assumes "sched_inv st" and "lane_waits (snd st) key q" and "keeps_lanes op"
    and "sched_exec C op st = (st', outs, adm)"
  shows "job_id q \<in> set (map scheduled_id outs) \<or> lane_waits (snd st') key q \<and>
    lane_rank (snd st') key + (if is_pop op then 1 else 0) \<le> lane_rank (snd st) key"
proof -
  obtain h s where st: "st = (h, s)" by (cases st)
  have ok: "sched_ok s" using assms(1) by (simp add: sched_inv_def st)
  show ?thesis
    using assms(2-4)
  proof (cases op)
    case (OpPop tk)
    obtain h' s' r where r: "pop tk h s = (h', s', r)" by (metis prod_cases3)
    with OpPop assms(4) have "st' = (h', s')" "outs = (case r of None \<Rightarrow> [] | Some x \<Rightarrow> [x])"
      by (simp_all add: st)
    with OpPop pop_rank [OF ok assms(2) [unfolded st snd_conv] r] show ?thesis
      by (auto simp: st scheduled_id_dispatch)
  qed (auto simp: st split: prod.splits dest: enqueue_agent_rank [OF ok] enqueue_host_rank)
qed

lemma sched_run_rank:
  "sched_inv st \<Longrightarrow> lane_waits (snd st) key q \<Longrightarrow> list_all keeps_lanes ops \<Longrightarrow>
    lane_rank (snd st) key < length (filter is_pop ops) \<Longrightarrow> sched_run C ops st = (st', outs, adm) \<Longrightarrow>
    job_id q \<in> set (map scheduled_id outs)"
proof (induction ops arbitrary: st outs adm)
  case (Cons op ops)
  obtain st1 out1 adm1 where 1: "sched_exec C op st = (st1, out1, adm1)" by (metis prod_cases3)
  obtain out2 adm2 where 2: "sched_run C ops st1 = (st', out2, adm2)" and outs: "outs = out1 @ out2"
    using Cons.prems(5) 1 by (auto split: prod.splits)
  have inv1: "sched_inv st1" using sched_exec_contract [OF Cons.prems(1) 1] by (simp add: op_contract_def)
  consider "job_id q \<in> set (map scheduled_id out1)"
    | "lane_waits (snd st1) key q" "lane_rank (snd st1) key < length (filter is_pop ops)"
    using sched_exec_rank [OF Cons.prems(1,2) _ 1] Cons.prems(3,4) by (auto split: if_splits)
  then show ?case
  proof cases
    case 2
    then show ?thesis
      using Cons.IH [OF inv1] Cons.prems(3) \<open>sched_run C ops st1 = (st', out2, adm2)\<close> by (auto simp: outs)
  qed (auto simp: outs)
qed simp

subsection \<open>An example\<close>

definition example_scheduler :: "nat broker_scheduler" where
  "example_scheduler = \<lparr>bs_epoch = replicate 64 (CHR ''e''), bs_limits = queue_limits_default,
     bs_lanes = [], bs_active = [], bs_host = [], bs_host_bytes = 0, bs_host_turn = True\<rparr>"

definition example_tick :: tick where
  "example_tick = \<lparr>tk_now = 5, tk_before = [], tk_mid = []\<rparr>"

definition example_ops :: "nat sched_op list" where
  "example_ops = [OpRegister (\<lambda>_. example_tick) 0 ''agent'' example_credential agent_queue_limits_default 1000,
     OpEnqueueAgent 1 1 1 example_credential 7 100 1000, OpEnqueueHost 1 1 8 50 1000]"

lemma example_scheduler_init: "sched_init ([], example_scheduler)"
  by (simp add: sched_init_def example_scheduler_def scheduler_new_def queue_limits_default_def
      MAX_LIFETIME_MS_def list_all_iff byte_defs)

lemma example_grant_id:
  "grant_id example_crypto example_credential = Inr (hex (replicate 32 (CHR ''s'')))"
  by (simp add: grant_id_def example_credential_def canonical_hex_replicate example_crypto_def)

definition example_lane :: "nat lane" where
  "example_lane = \<lparr>ln_agent = ''agent'', ln_key = unhex_pairs (replicate 64 (CHR ''a'')),
     ln_limits = agent_queue_limits_default, ln_expires = 1000000000,
     ln_jobs = [\<lparr>q_payload = 7, q_bytes = 100, q_enqueued = 1, q_expires = 1000000000, q_cell = 0\<rparr>],
     ln_bytes = 100\<rparr>"

definition example_busy :: "nat broker_scheduler" where
  "example_busy = \<lparr>bs_epoch = replicate 64 (CHR ''e''), bs_limits = queue_limits_default,
     bs_lanes = [(hex (replicate 32 (CHR ''s'')), example_lane)],
     bs_active = [hex (replicate 32 (CHR ''s''))],
     bs_host = [\<lparr>q_payload = 8, q_bytes = 50, q_enqueued = 1, q_expires = 1000000001, q_cell = 1\<rparr>],
     bs_host_bytes = 50, bs_host_turn = True\<rparr>"

lemma example_run:
  "sched_run example_crypto example_ops ([], example_scheduler) =
     (([QUEUED, QUEUED], example_busy), [], [(0, Some 7), (1, Some 8)])"
  by (simp add: example_ops_def example_scheduler_def example_busy_def example_lane_def host_register_def register_guards_def
      validate_lane_limits_def queue_limits_default_def agent_queue_limits_default_def valid_id_def
      MAX_LIFETIME_MS_def credential_key_def example_grant_id [unfolded example_credential_def] server_key_new_def unhex_def
      lane_of_agent_def deadline_def instant_end_def enqueue_agent_def enqueue_guards_def
      validate_job_def live_lane_def lane_push_def enqueue_host_def bt_update_def byte_defs
      example_credential_def canonical_hex_replicate)

lemma sched_run_reach:
  "reach sched_init (sched_step C) st \<Longrightarrow> reach sched_init (sched_step C) (fst (sched_run C ops st))"
proof (induction ops arbitrary: st)
  case (Cons op ops)
  have "reach sched_init (sched_step C) (fst (sched_exec C op st))"
    using Cons.prems by (rule reach_step) (auto simp: sched_step_def)
  with Cons.IH [of "fst (sched_exec C op st)"] show ?case by (simp add: split_beta Let_def)
qed simp

lemma example_init_reach: "reach sched_init (sched_step C) ([], example_scheduler)"
  by (rule reach_init) (rule example_scheduler_init)

lemma example_reach: "reach sched_init (sched_step example_crypto) ([QUEUED, QUEUED], example_busy)"
  using sched_run_reach [OF example_init_reach, of example_crypto example_ops]
  by (simp add: example_run)

subsection \<open>Properties\<close>

text \<open>
  (C30) In every state that any sequence of operations reaches from a new scheduler, with any clock
  readings and any concurrent cancellations, the byte counters are exact, no queue exceeds its
  job or byte limit (so no counter subtraction wraps), every agent has at most one lane, the
  rotation holds exactly the lanes with work, once each, and every queued job owns its own flag,
  which has not been dispatched.
\<close>

theorem scheduler_invariant:
  assumes "reach sched_init (sched_step C) st"
  shows "sched_inv st"
  using assms by (rule sched.invar_reach)

theorem scheduler_invariant_witness: "sched_inv ([QUEUED, QUEUED], example_busy)"
  by (rule scheduler_invariant [OF example_reach])

text \<open>
  No job is lost, duplicated or invented: over any sequence of operations the jobs queued
  before, together with those admitted, are exactly the jobs still queued together with those
  handed back, identified by their flag and payload.
\<close>

theorem scheduler_conserves_jobs:
  assumes "reach sched_init (sched_step C) (h, s)"
    and "sched_run C ops (h, s) = ((h', s'), outs, adm)"
  shows "queued_ids s + mset adm = queued_ids s' + mset (map scheduled_id outs)"
  using sched_run_contract [OF sched.invar_reach [OF assms(1)] assms(2)] by simp

theorem scheduler_conserves_jobs_witness:
  "queued_ids example_scheduler + mset [(0, Some 7), (1, Some 8)]
    = queued_ids example_busy + mset (map scheduled_id [])"
  using scheduler_conserves_jobs [OF example_init_reach example_run] .

text \<open>
  (C25) Cancellation is final: when \<open>cancel\<close> returns true in a reachable state, no later operation
  ever hands out that job as ready, whatever runs concurrently; and when it returns false for a
  flag, no queued job owns that flag any more.
\<close>

theorem cancellation_is_final:
  assumes "reach sched_init (sched_step C) (h, s)"
  shows "(cancel h a = (h', True) \<longrightarrow> sched_run C ops (h', s) = (st', outs, adm) \<longrightarrow>
      (\<forall>x \<in> set outs. sc_cell x = a \<longrightarrow> sc_status x \<noteq> Ready) \<and> cell_at (fst st') a = CANCELLED) \<and>
    (cancel h a = (h', False) \<longrightarrow> a \<notin># image_mset fst (queued_ids s))"
proof (intro conjI)
  have inv: "sched_inv (h, s)" using assms by (rule sched.invar_reach)
  show "cancel h a = (h', True) \<longrightarrow> sched_run C ops (h', s) = (st', outs, adm) \<longrightarrow>
      (\<forall>x \<in> set outs. sc_cell x = a \<longrightarrow> sc_status x \<noteq> Ready) \<and> cell_at (fst st') a = CANCELLED"
  proof (intro impI)
    assume c: "cancel h a = (h', True)" and run: "sched_run C ops (h', s) = (st', outs, adm)"
    have a: "a < length h'" and cell: "cell_at h' a = CANCELLED"
      using cancel_true_cell [of h a] length_cancel [of h a] c by simp_all
    have "sched_inv (h', s)"
      using sched_exec_contract [OF inv, of C "OpCancel a"] c by (simp add: op_contract_def)
    note r = sched_run_contract [OF this run]
    have "cell_at (fst st') a = CANCELLED" using r heap_leD(2) [of _ h' "fst st'" a] a cell by auto
    moreover have "\<forall>x \<in> set outs. sc_cell x = a \<longrightarrow> sc_status x \<noteq> Ready"
      using r a cell by (auto simp: ready_def)
    ultimately show "(\<forall>x \<in> set outs. sc_cell x = a \<longrightarrow> sc_status x \<noteq> Ready) \<and> cell_at (fst st') a = CANCELLED"
      by simp
  qed
  show "cancel h a = (h', False) \<longrightarrow> a \<notin># image_mset fst (queued_ids s)"
    using inv snd_cancel [of h a] by (auto simp: sched_inv_def heap_ok_def)
qed

theorem cancellation_is_final_witness:
  "\<exists>st' outs adm. sched_run example_crypto [OpPop example_tick, OpPop example_tick]
     ([CANCELLED, QUEUED], example_busy) = (st', outs, adm) \<and>
     (\<forall>x \<in> set outs. sc_cell x = 0 \<longrightarrow> sc_status x \<noteq> Ready) \<and> cell_at (fst st') 0 = CANCELLED"
proof -
  obtain st' outs adm where run: "sched_run example_crypto [OpPop example_tick, OpPop example_tick]
     ([CANCELLED, QUEUED], example_busy) = (st', outs, adm)" by (metis prod_cases3)
  have "cancel [QUEUED, QUEUED] 0 = ([CANCELLED, QUEUED], True)"
    by (simp add: cancel_def compare_exchange_def cell_at_def)
  with cancellation_is_final [OF example_reach] run show ?thesis by blast
qed

text \<open>
  (C24) A job is handed out as ready at most once, and a job already running or finished when a
  sequence of operations starts is not handed out as ready in it.
\<close>

theorem dispatched_at_most_once:
  assumes "reach sched_init (sched_step C) (h, s)"
    and "sched_run C ops (h, s) = (st', outs, adm)"
  shows "distinct (map sc_cell (ready outs)) \<and>
    (\<forall>a < length h. h ! a \<in> {DISPATCHED, FINISHED} \<longrightarrow> a \<notin> sc_cell ` set (ready outs))"
  using sched_run_contract [OF sched.invar_reach [OF assms(1)] assms(2)]
  by (fastforce simp: cell_at_def)

theorem dispatched_at_most_once_witness:
  "distinct (map sc_cell (ready (fst (snd (sched_run example_crypto
     [OpPop example_tick, OpPop example_tick] ([QUEUED, QUEUED], example_busy))))))"
  using dispatched_at_most_once [OF example_reach] by (metis prod.collapse)

text \<open>
  (C26) Bounded waiting: once a job heads its lane, it is handed out after at most twice as many
  dispatch opportunities as there are active lanes, whatever the host and the other agents enqueue
  in the meantime (as long as no lane is registered, removed or replaced).
\<close>

theorem dispatch_is_fair:
  assumes "reach sched_init (sched_step C) (h, s)" and "lane_waits s key q"
    and "list_all keeps_lanes ops" and "2 * length (bs_active s) \<le> length (filter is_pop ops)"
    and "sched_run C ops (h, s) = (st', outs, adm)"
  shows "job_id q \<in> set (map scheduled_id outs)"
proof -
  have inv: "sched_inv (h, s)" using assms(1) by (rule sched.invar_reach)
  then have "key \<in> set (bs_active s)" using assms(2) lane_waits_active by (auto simp: sched_inv_def)
  then have "lane_rank s key < length (filter is_pop ops)" using lane_rank_less [of key s] assms(4) by simp
  then show ?thesis using sched_run_rank [OF inv _ assms(3) _ assms(5)] assms(2) by simp
qed

theorem dispatch_is_fair_witness:
  "(0, Some 7) \<in> set (map scheduled_id (fst (snd (sched_run example_crypto
     [OpPop example_tick, OpEnqueueHost 1 1 9 50 1000, OpPop example_tick]
     ([QUEUED, QUEUED], example_busy)))))"
proof -
  let ?ops = "[OpPop example_tick, OpEnqueueHost 1 1 9 50 1000, OpPop example_tick]"
  let ?q = "\<lparr>q_payload = 7, q_bytes = 100, q_enqueued = 1, q_expires = 1000000000, q_cell = 0\<rparr>"
  obtain st' outs adm where run: "sched_run example_crypto ?ops ([QUEUED, QUEUED], example_busy) = (st', outs, adm)"
    by (metis prod_cases3)
  have "lane_waits example_busy (hex (replicate 32 (CHR ''s''))) ?q"
    by (simp add: lane_waits_def example_busy_def example_lane_def)
  then have "job_id ?q \<in> set (map scheduled_id outs)"
    by (rule dispatch_is_fair [OF example_reach _ _ _ run]) (simp_all add: example_busy_def)
  then show ?thesis using run by (simp add: job_id_def)
qed

lemma scheduler_len_ids: "scheduler_len s = size (queued_ids s)"
proof -
  have "size (bt_sum (\<lambda>l. mset (map job_id (ln_jobs l))) m) = bt_sum (\<lambda>l. length (ln_jobs l)) m"
    for m :: "(string, 'a lane) btree" by (induction m) simp_all
  then show ?thesis by (simp add: scheduler_len_def queued_ids_def)
qed

lemma idle_iff_empty:
  assumes "sched_ok s"
  shows "bs_host s = [] \<and> bs_active s = [] \<longleftrightarrow> scheduler_is_empty s"
proof -
  have inv: "bt_invar (bs_lanes s)" using assms by (simp add: sched_ok_def)
  have "bs_active s = [] \<longleftrightarrow> (\<forall>k l. bt_get (bs_lanes s) k = Some l \<longrightarrow> ln_jobs l = [])"
    using assms unfolding sched_ok_def by (metis equals0D set_empty equals0I)
  also have "\<dots> \<longleftrightarrow> bt_sum (\<lambda>l. length (ln_jobs l)) (bs_lanes s) = 0"
    unfolding bt_sum_eq_0_iff bt.lookup_eq_Some_iff [OF inv] by auto
  finally show ?thesis by (auto simp: scheduler_is_empty_def scheduler_len_def)
qed

text \<open>
  Dispatch is work conserving: in a reachable state \<open>pop\<close> returns nothing exactly when the
  scheduler is empty, and otherwise hands out exactly one job, so the queue length drops by one.
\<close>

theorem pop_is_work_conserving:
  assumes "reach sched_init (sched_step C) (h, s)" and "pop tk h s = (h', s', r)"
  shows "(r = None \<longleftrightarrow> scheduler_is_empty s) \<and>
    scheduler_len s = scheduler_len s' + (if r = None then 0 else 1)"
proof -
  have inv: "sched_inv (h, s)" using assms(1) by (rule sched.invar_reach)
  then have "r = None \<longleftrightarrow> scheduler_is_empty s"
    using assms(2) pop_None_iff [of s tk h h s] pop_None_iff [of s tk h h' s'] idle_iff_empty [of s]
    by (cases r) (auto simp: sched_inv_def)
  moreover have "size (queued_ids s) = size (queued_ids s') + (if r = None then 0 else 1)"
    using pop_contract [OF inv assms(2)] by (auto simp: op_contract_def split: option.splits)
  ultimately show ?thesis by (simp add: scheduler_len_ids)
qed

theorem pop_is_work_conserving_witness:
  "scheduler_len example_busy = scheduler_len (fst (snd (pop example_tick [QUEUED, QUEUED] example_busy))) + 1"
proof -
  obtain h' s' r where p: "pop example_tick [QUEUED, QUEUED] example_busy = (h', s', r)" by (metis prod_cases3)
  have "\<not> scheduler_is_empty example_busy"
    by (simp add: scheduler_is_empty_def scheduler_len_def example_busy_def)
  with pop_is_work_conserving [OF example_reach p] p show ?thesis by auto
qed

text \<open>
  Replacing, revoking, pruning and draining fail their work definitively: none of the jobs
  they hand back is ready, all of them were queued, and after a drain nothing is queued at all.
\<close>

theorem removal_never_dispatches:
  assumes "reach sched_init (sched_step C) (h, s)"
    and "op \<in> {OpRegister env now agent cred limits lease_ms, OpRevoke env agent, OpPrune env now, OpDrain env}"
    and "sched_exec C op (h, s) = ((h', s'), outs, adm)"
  shows "ready outs = [] \<and> mset (map scheduled_id outs) \<subseteq># queued_ids s \<and>
    (op = OpDrain env \<longrightarrow> scheduler_is_empty s')"
proof -
  have inv: "sched_inv (h, s)" using assms(1) by (rule sched.invar_reach)
  then have ok: "sched_ok s" by (simp add: sched_inv_def)
  have g: "gives_up h s h' s' outs"
    using assms(2,3) host_register_gives_up [OF ok] host_revoke_gives_up [OF ok]
      host_prune_gives_up [OF ok] host_drain_gives_up [OF ok]
    by (auto split: prod.splits)
  have "scheduler_is_empty s'" if "op = OpDrain env"
  proof -
    obtain h1 s1 xs where rm: "remove_lanes env h s (bt_keys (bs_lanes s)) = (h1, s1, xs)" by (metis prod_cases3)
    have "bs_lanes s1 = []" using remove_lanes_all [OF rm] by simp
    then show ?thesis using assms(3) that rm
      by (auto simp: host_drain_def scheduler_is_empty_def scheduler_len_def split_beta)
  qed
  with g show ?thesis by (auto simp: gives_up_def ready_def filter_empty_conv)
qed

theorem removal_never_dispatches_witness:
  "ready (fst (snd (sched_exec example_crypto (OpDrain (\<lambda>_. example_tick)) ([QUEUED, QUEUED], example_busy)))) = []"
proof -
  let ?op = "OpDrain (\<lambda>_. example_tick) :: nat sched_op"
  obtain h' s' outs adm where run: "sched_exec example_crypto ?op ([QUEUED, QUEUED], example_busy) = ((h', s'), outs, adm)"
    by (metis prod_cases4 surj_pair)
  with removal_never_dispatches [OF example_reach _ run, of "\<lambda>_. example_tick"] show ?thesis by simp
qed

text \<open>
  A registered agent can authenticate: after a successful registration, as long as the lane
  has not expired, the handshake of a client that holds the registered credential succeeds through
  the scheduler and yields that credential.
\<close>

theorem registered_client_authenticates:
  assumes "crypto_ok C" and "sched_ok s"
    and "host_register C env now h s agent cred limits lease_ms = (h', s', Inr xs)"
    and "length n1 = 32" and "length n2 = 32"
    and "now1 < now + lease_ms * 1000000" and "now2 < now + lease_ms * 1000000"
  shows "\<exists>hello p c. hello_new C (Some n1) cred = Inr hello \<and>
    scheduler_server_proof C now1 (Some n2) s' hello = Inr p \<and>
    verify_server C hello cred p = Inr c \<and>
    authenticate_client C now2 s' hello p c = Inr cred"
proof -
  obtain key sk expires where guards:
    "register_guards C now s agent cred limits lease_ms = Inr (key, sk, expires)"
    using assms(3) by (cases "register_guards C now s agent cred limits lease_ms")
      (auto simp: host_register_def)
  note g = register_guards_InrD [OF guards]
  obtain h1 s1 ys where rm: "(case lane_of_agent s agent of None \<Rightarrow> (h, s, [])
      | Some k \<Rightarrow> remove_lane env h s k) = (h1, s1, ys)" by (metis prod_cases3)
  have epoch: "bs_epoch s1 = bs_epoch s"
    using rm remove_lane_gives_up [OF assms(2)] by (auto simp: gives_up_def split: option.splits)
  let ?new = "\<lparr>ln_agent = agent, ln_key = sk, ln_limits = limits, ln_expires = expires,
    ln_jobs = [], ln_bytes = 0\<rparr>"
  have s': "s' = s1\<lparr>bs_lanes := bt_insert key ?new (bs_lanes s1)\<rparr>"
    using assms(3) guards rm by (simp add: host_register_def Let_def)
  have cred: "cred_epoch cred = bs_epoch s" "grant_id C cred = Inr key"
    "canonical_hex (cred_epoch cred)" "canonical_hex (cred_secret cred)"
    using g(1) by (auto simp: credential_key_def grant_id_def split: if_splits)
  have exp: "expires = now + lease_ms * 1000000" using g(6) by (simp add: deadline_def split: if_splits)
  obtain hello key' p c where hs: "hello_new C (Some n1) cred = Inr hello" "server_key_new cred = Inr key'"
    "key_prove C (Some n2) key' hello = Inr p" "verify_server C hello cred p = Inr c"
    "verify_client C key' hello p c = Inr cred"
    using handshake_completes [OF assms(1) cred(3,4) assms(4,5)] by blast
  have hello: "hello_grant_id hello = key" "hello_epoch hello = bs_epoch s'" "hello_valid hello"
    using hs(1,3) cred by (auto simp: hello_new_def result_simps s' epoch key_prove_def split: if_splits)
  have "live_lane n s' key = Inr ?new" if "n < expires" for n
    using that by (simp add: live_lane_def s' bt_get_insert)
  then show ?thesis
    using hs g(2) hello cred(2) assms(6,7) exp
    by (auto simp: scheduler_server_proof_def authenticate_client_def handshake_lane_def)
qed

theorem registered_client_authenticates_witness:
  "\<exists>(s' :: nat broker_scheduler) hello p c.
     authenticate_client example_crypto 5 s' hello p c = Inr example_credential"
proof -
  have "\<exists>h' s' xs. host_register example_crypto (\<lambda>_. example_tick) 0 [] example_scheduler ''agent''
      example_credential agent_queue_limits_default 1000 = (h', s', Inr xs)"
    by (simp add: example_scheduler_def host_register_def register_guards_def
      validate_lane_limits_def queue_limits_default_def agent_queue_limits_default_def valid_id_def
      MAX_LIFETIME_MS_def credential_key_def example_grant_id [unfolded example_credential_def]
      server_key_new_def unhex_def lane_of_agent_def deadline_def instant_end_def byte_defs
      example_credential_def canonical_hex_replicate)
  then obtain h' s' xs where run: "host_register example_crypto (\<lambda>_. example_tick) 0 [] example_scheduler
      ''agent'' example_credential agent_queue_limits_default 1000 = (h', s', Inr xs)" by blast
  have ok: "sched_ok example_scheduler"
    using sched.invar_reach [OF example_init_reach] by (simp add: sched_inv_def)
  have "crypto_ok example_crypto" by (simp add: crypto_ok_def example_crypto_def)
  from registered_client_authenticates [OF this ok run, of "replicate 32 (CHR ''x'')"
      "replicate 32 (CHR ''y'')" 5 5] show ?thesis by (auto simp: exI)
qed

text \<open>
  (C31) Authentication is sound: a credential that the scheduler accepts has the scheduler's epoch
  and is the secret of a lane that is registered under the presented grant and has not expired,
  and the client's answer is the MAC, under that lane's key and in the client's role, of exactly
  the challenges of this connection.
\<close>

theorem authentication_is_sound:
  assumes "authenticate_client C now s hello server client = Inr cred"
  shows "\<exists>lane. bt_get (bs_lanes s) (hello_grant_id hello) = Some lane \<and> now < ln_expires lane \<and>
    cred_epoch cred = bs_epoch s \<and> cred_secret cred = hex (ln_key lane) \<and>
    grant_id C cred = Inr (hello_grant_id hello) \<and> hello_matches hello server \<and>
    cp_proof client = hex (mac C (ln_key lane) client_proof_domain server)"
  using assms hex_of_unhex [of "cp_proof client"]
  by (auto simp: authenticate_client_def handshake_lane_def live_lane_def verify_client_def result_simps
      split: if_splits option.splits)

theorem authentication_is_sound_witness:
  "\<exists>lane. bt_get (bs_lanes example_busy) (hex (replicate 32 (CHR ''s''))) = Some lane \<and>
    5 < ln_expires lane \<and> cred_secret example_credential = hex (ln_key lane)"
proof -
  let ?g = "hex (replicate 32 (CHR ''s''))"
  let ?hello = "\<lparr>hello_protocol = BROKER_PROTOCOL, hello_epoch = replicate 64 (CHR ''e''),
     hello_grant_id = ?g, hello_nonce = replicate 64 (CHR ''a'')\<rparr>"
  let ?p = "\<lparr>sp_protocol = BROKER_PROTOCOL, sp_epoch = replicate 64 (CHR ''e''), sp_grant_id = ?g,
     sp_client_nonce = replicate 64 (CHR ''a''), sp_server_nonce = replicate 64 (CHR ''a''),
     sp_proof = replicate 64 (CHR ''a'')\<rparr>"
  let ?c = "\<lparr>cp_protocol = BROKER_PROTOCOL, cp_proof = hex (replicate 32 (CHR ''h''))\<rparr>"
  have "hex (unhex_pairs (replicate 64 (CHR ''a''))) = replicate 64 (CHR ''a'')"
    by (rule hex_of_unhex) (simp add: unhex_def canonical_hex_replicate)
  moreover from this have "length (unhex_pairs (replicate 64 (CHR ''a''))) = 32"
    by (metis (no_types, lifting) canonical_hex_hex canonical_hex_replicate(2))
  ultimately have "authenticate_client example_crypto 5 example_busy ?hello ?p ?c = Inr example_credential"
    by (simp add: authenticate_client_def handshake_lane_def live_lane_def example_busy_def example_lane_def
      hello_valid_def hello_matches_def canonical_hex_replicate verify_client_def unhex_hex mac_def
      example_crypto_def grant_id_def example_credential_def)
  from authentication_is_sound [OF this] show ?thesis by auto
qed

end
