(* ===== verification/Protocol_Base.thy ===== *)
theory Protocol_Base
  imports BTree_Map
begin

text \<open>
  The shared vocabulary of the protocol crate: bounded validation errors
  (\<open>cigar-protocol/src/validation.rs\<close>), schema versions (\<open>schema.rs\<close>), identities
  (\<open>identity.rs\<close>) and extension maps (\<open>extension.rs\<close>). Validation never stops at the first
  issue: a validator pushes issues onto a list that keeps at most 32 of them, and fails if the
  list is not empty at the end.
\<close>

subsection \<open>Validation errors\<close>

datatype validation_code =
  LimitExceeded | InvalidSchema | UnsupportedSchema | InvalidIdentity | InvalidExtensionKey
  | UnknownMandatoryExtension | InvalidValue

record validation_issue =
  vi_code :: validation_code
  vi_path :: string
  vi_message :: string

type_synonym validation_errors = "validation_issue list"

definition MAX_VALIDATION_ERRORS :: nat where
  "MAX_VALIDATION_ERRORS = 32"

definition issue :: "validation_code \<Rightarrow> string \<Rightarrow> string \<Rightarrow> validation_issue" where
  "issue c p m = \<lparr>vi_code = c, vi_path = p, vi_message = m\<rparr>"

definition ve_push :: "validation_issue \<Rightarrow> validation_errors \<Rightarrow> validation_errors" where
  "ve_push i es = (if length es < MAX_VALIDATION_ERRORS then es @ [i] else es)"

definition ve_merge :: "validation_errors \<Rightarrow> validation_errors \<Rightarrow> validation_errors" where
  "ve_merge es other = foldl (\<lambda>acc i. ve_push i acc) es other"

definition into_result :: "validation_errors \<Rightarrow> (validation_errors, unit) result" where
  "into_result es = (if es = [] then Inr () else Inl es)"

text \<open>\<open>if cond { errors.push(\<dots>) }\<close>, and \<open>if let Err(e) = check { errors.merge(e) }\<close>\<close>

definition push_if :: "bool \<Rightarrow> validation_issue \<Rightarrow> validation_errors \<Rightarrow> validation_errors" where
  "push_if c i es = (if c then ve_push i es else es)"

definition merge_err :: "(validation_errors, 'a) result \<Rightarrow> validation_errors \<Rightarrow> validation_errors" where
  "merge_err r es = (case r of Inl e \<Rightarrow> ve_merge es e | Inr _ \<Rightarrow> es)"

lemma ve_push_not_Nil [simp]: "ve_push i es \<noteq> []"
  by (auto simp: ve_push_def MAX_VALIDATION_ERRORS_def)

lemma push_if_eq_Nil_iff [simp]: "push_if c i es = [] \<longleftrightarrow> \<not> c \<and> es = []"
  by (simp add: push_if_def)

lemma ve_merge_eq_Nil_iff [simp]: "ve_merge es other = [] \<longleftrightarrow> es = [] \<and> other = []"
proof (induction other rule: rev_induct)
  case (snoc x xs)
  then show ?case by (simp add: ve_merge_def)
qed (simp add: ve_merge_def)

lemma merge_err_into_result [simp]: "merge_err (into_result e) es = [] \<longleftrightarrow> es = [] \<and> e = []"
  by (simp add: merge_err_def into_result_def)

lemma into_result_eq_Inr_iff [simp]: "into_result es = Inr u \<longleftrightarrow> es = []"
  by (simp add: into_result_def)

lemma into_result_eq_Inl_iff [simp]: "into_result es = Inl e \<longleftrightarrow> e = es \<and> es \<noteq> []"
  by (auto simp: into_result_def)

lemma length_ve_push: "length es \<le> MAX_VALIDATION_ERRORS \<Longrightarrow> length (ve_push i es) \<le> MAX_VALIDATION_ERRORS"
  by (simp add: ve_push_def)

lemma length_ve_merge: "length es \<le> MAX_VALIDATION_ERRORS \<Longrightarrow> length (ve_merge es other) \<le> MAX_VALIDATION_ERRORS"
  by (induction other arbitrary: es) (simp_all add: ve_merge_def length_ve_push)

subsection \<open>Schema versions\<close>

record schema_version =
  sv_family :: string
  sv_major :: u16

definition MAX_SCHEMA_FAMILY_BYTES :: nat where
  "MAX_SCHEMA_FAMILY_BYTES = 64"

definition is_ascii_lowercase :: "char \<Rightarrow> bool" where
  "is_ascii_lowercase c \<longleftrightarrow> 97 \<le> byte c \<and> byte c \<le> 122"

fun contains_double_dot :: "string \<Rightarrow> bool" where
  "contains_double_dot (a # b # s) \<longleftrightarrow> (a = CHR ''.'' \<and> b = CHR ''.'') \<or> contains_double_dot (b # s)"
| "contains_double_dot _ \<longleftrightarrow> False"

definition valid_family :: "string \<Rightarrow> bool" where
  "valid_family f \<longleftrightarrow> \<not> (f \<noteq> [] \<and> hd f = CHR ''.'') \<and> \<not> (f \<noteq> [] \<and> last f = CHR ''.'') \<and>
     \<not> contains_double_dot f \<and>
     list_all (\<lambda>c. is_ascii_lowercase c \<or> is_ascii_digit c \<or> c = CHR ''.'' \<or> c = CHR ''-'') f"

definition schema_new :: "string \<Rightarrow> u16 \<Rightarrow> (validation_errors, schema_version) result" where
  "schema_new family major =
     (let errors =
        push_if (major = 0) (issue InvalidSchema ''/schema_version''
          ''schema major version must be positive'')
       (push_if (\<not> valid_family family) (issue InvalidSchema ''/schema_version''
          ''schema family contains an unsupported character or segment'')
       (push_if (family = [] \<or> length family > MAX_SCHEMA_FAMILY_BYTES)
          (issue LimitExceeded ''/schema_version''
            ''schema family length is outside the supported range'') []))
      in rbind (into_result errors) (\<lambda>_. Inr \<lparr>sv_family = family, sv_major = major\<rparr>))"

definition require_v1 :: "schema_version \<Rightarrow> string \<Rightarrow> (validation_errors, unit) result" where
  "require_v1 v expected =
     into_result
      (push_if (sv_major v \<noteq> 1) (issue UnsupportedSchema ''/schema_version''
         ''schema major version is unsupported'')
      (push_if (sv_family v \<noteq> expected) (issue InvalidSchema ''/schema_version''
         ''schema family does not match the record type'') []))"

function show_nat :: "nat \<Rightarrow> string" where
  "show_nat n = (if n < 10 then [char_of (48 + n)] else show_nat (n div 10) @ [char_of (48 + n mod 10)])"
  by pat_completeness auto
termination by (relation "measure id") auto

declare show_nat.simps [simp del]

definition schema_to_string :: "schema_version \<Rightarrow> string" where
  "schema_to_string v = sv_family v @ ''.v'' @ show_nat (unat (sv_major v))"

text \<open>\<open>str::rsplit_once(".v")\<close>: the last occurrence splits.\<close>

fun rsplit_once_v :: "string \<Rightarrow> (string \<times> string) option" where
  "rsplit_once_v [] = None"
| "rsplit_once_v (c # s) =
     (case rsplit_once_v s of
        Some (a, b) \<Rightarrow> Some (c # a, b)
      | None \<Rightarrow> (case s of d # r \<Rightarrow> if c = CHR ''.'' \<and> d = CHR ''v'' then Some ([], r) else None
                 | [] \<Rightarrow> None))"

text \<open>\<open>str::parse::<u16>\<close>: an optional plus sign, at least one digit, and a value below \<open>2 ^ 16\<close>.\<close>

definition digits_value :: "string \<Rightarrow> nat" where
  "digits_value ds = foldl (\<lambda>n c. 10 * n + (byte c - 48)) 0 ds"

definition parse_u16 :: "string \<Rightarrow> u16 option" where
  "parse_u16 s =
     (let ds = (case s of c # r \<Rightarrow> if c = CHR ''+'' then r else s | [] \<Rightarrow> s)
      in if ds = [] \<or> \<not> list_all is_ascii_digit ds \<or> digits_value ds \<ge> 2 ^ 16 then None
         else Some (of_nat (digits_value ds)))"

definition schema_from_str :: "string \<Rightarrow> (validation_errors, schema_version) result" where
  "schema_from_str s =
     (case rsplit_once_v s of
        None \<Rightarrow> Inl [issue InvalidSchema ''/schema_version'' ''schema version must end in `.v<major>`'']
      | Some (family, major) \<Rightarrow>
          (case parse_u16 major of
             None \<Rightarrow> Inl [issue InvalidSchema ''/schema_version''
                           ''schema major version is not an unsigned integer'']
           | Some m \<Rightarrow> schema_new family m))"

subsection \<open>Identities\<close>

definition UUID_TEXT_BYTES :: nat where
  "UUID_TEXT_BYTES = 36"

definition MAX_IDEMPOTENCY_KEY_BYTES :: nat where
  "MAX_IDEMPOTENCY_KEY_BYTES = 128"

definition hyphen_at :: "nat \<Rightarrow> bool" where
  "hyphen_at i \<longleftrightarrow> i = 8 \<or> i = 13 \<or> i = 18 \<or> i = 23"

definition get_byte :: "string \<Rightarrow> nat \<Rightarrow> char option" where
  "get_byte s i = (if i < length s then Some (s ! i) else None)"

definition validate_uuid_v7 :: "string \<Rightarrow> string \<Rightarrow> (validation_errors, unit) result" where
  "validate_uuid_v7 s path =
     (let valid_length = (length s = UUID_TEXT_BYTES);
          valid_hyphens = (valid_length \<and> list_all (\<lambda>i. get_byte s i = Some (CHR ''-'')) [8, 13, 18, 23]);
          valid_hex = list_all (\<lambda>(i, c). hyphen_at i \<or> is_ascii_digit c \<or> is_lower_hex_letter c) (enumerate 0 s);
          valid_version = (get_byte s 14 = Some (CHR ''7''));
          valid_variant = (case get_byte s 19 of None \<Rightarrow> False
                           | Some c \<Rightarrow> c \<in> {CHR ''8'', CHR ''9'', CHR ''a'', CHR ''b''})
      in if valid_length \<and> valid_hyphens \<and> valid_hex \<and> valid_version \<and> valid_variant then Inr ()
         else Inl [issue InvalidIdentity path ''identity must be a lowercase RFC 9562 UUIDv7''])"

definition record_id_new :: "string \<Rightarrow> (validation_errors, record_id) result" where
  "record_id_new s = rbind (validate_uuid_v7 s ''/record_id'') (\<lambda>_. Inr s)"

definition validate_multihash :: "string \<Rightarrow> string \<Rightarrow> (validation_errors, unit) result" where
  "validate_multihash s path =
     (if length s = 68 \<and> take 4 s = ''1220'' \<and>
         list_all (\<lambda>c. is_ascii_digit c \<or> is_lower_hex_letter c) s
      then Inr ()
      else Inl [issue InvalidIdentity path ''digest must be a lowercase SHA-256 multihash hex value''])"

definition content_digest_new :: "string \<Rightarrow> (validation_errors, content_digest) result" where
  "content_digest_new s = rbind (validate_multihash s ''/content_digest'') (\<lambda>_. Inr s)"

definition version_id_new :: "string \<Rightarrow> (validation_errors, version_id) result" where
  "version_id_new s = rbind (validate_multihash s ''/version_id'') (\<lambda>_. Inr s)"

definition idempotency_key_new :: "string \<Rightarrow> (validation_errors, string) result" where
  "idempotency_key_new s =
     (if s \<noteq> [] \<and> length s \<le> MAX_IDEMPOTENCY_KEY_BYTES \<and> list_all is_ascii_graphic s then Inr s
      else Inl [issue InvalidIdentity ''/idempotency_key''
                  ''idempotency key must be non-empty bounded printable ASCII''])"

subsection \<open>Extensions\<close>

definition MAX_EXTENSION_KEY_BYTES :: nat where "MAX_EXTENSION_KEY_BYTES = 128"
definition MAX_EXTENSION_ENTRIES :: nat where "MAX_EXTENSION_ENTRIES = 64"
definition MAX_EXTENSION_DEPTH :: nat where "MAX_EXTENSION_DEPTH = 16"
definition MAX_EXTENSION_COLLECTION_ITEMS :: nat where "MAX_EXTENSION_COLLECTION_ITEMS = 256"
definition MAX_EXTENSION_TEXT_BYTES :: nat where "MAX_EXTENSION_TEXT_BYTES = 65536"
definition MAX_EXTENSION_BYTES :: nat where "MAX_EXTENSION_BYTES = 65536"

definition extension_key_new :: "string \<Rightarrow> (validation_errors, string) result" where
  "extension_key_new s =
     (let valid_first = (case s of [] \<Rightarrow> False | c # _ \<Rightarrow> is_ascii_lowercase c \<or> is_ascii_digit c);
          valid_rest = list_all (\<lambda>c. is_ascii_lowercase c \<or> is_ascii_digit c \<or>
                         c \<in> {CHR ''.'', CHR ''_'', CHR ''/'', CHR ''-''}) (tl s)
      in if valid_first \<and> valid_rest \<and> length s \<le> MAX_EXTENSION_KEY_BYTES then Inr s
         else Inl [issue InvalidExtensionKey ''/extensions''
                     ''extension key does not match the stable bounded grammar''])"

definition is_mandatory :: "string \<Rightarrow> bool" where
  "is_mandatory k \<longleftrightarrow> take 9 k = ''required/''"

datatype canonical_value =
    VBoolean bool
  | VInteger int
  | VText string
  | VBytes string
  | VArray "canonical_value list"
  | VObject "(string \<times> canonical_value) list"

definition depth_issue :: "string \<Rightarrow> validation_issue" where
  "depth_issue path = issue LimitExceeded path ''extension nesting exceeds the configured maximum''"

definition text_issue :: "string \<Rightarrow> validation_issue" where
  "text_issue path = issue LimitExceeded path ''extension text exceeds the configured byte maximum''"

definition bytes_issue :: "string \<Rightarrow> validation_issue" where
  "bytes_issue path = issue LimitExceeded path ''extension bytes exceed the configured maximum''"

definition array_issue :: "string \<Rightarrow> validation_issue" where
  "array_issue path = issue LimitExceeded path ''extension array exceeds the configured item maximum''"

definition object_issue :: "string \<Rightarrow> validation_issue" where
  "object_issue path = issue LimitExceeded path ''extension object exceeds the configured item maximum''"

definition unknown_mandatory_issue :: validation_issue where
  "unknown_mandatory_issue =
     issue UnknownMandatoryExtension ''/extensions'' ''unknown mandatory extension is not supported''"

definition child_path :: "string \<Rightarrow> string \<Rightarrow> string" where
  "child_path path name = path @ ''/'' @ name"

text \<open>
  The recursion follows the value: array items and object members are visited in order, each one
  level deeper, and the walk stops below the maximal depth.
\<close>

fun validate_at :: "canonical_value \<Rightarrow> nat \<Rightarrow> string \<Rightarrow> validation_errors \<Rightarrow> validation_errors"
and validate_items :: "canonical_value list \<Rightarrow> nat \<Rightarrow> nat \<Rightarrow> string \<Rightarrow> validation_errors \<Rightarrow> validation_errors"
and validate_members :: "(string \<times> canonical_value) list \<Rightarrow> nat \<Rightarrow> string \<Rightarrow> validation_errors \<Rightarrow> validation_errors"
where
  "validate_at v depth path errors =
     (if depth > MAX_EXTENSION_DEPTH
      then ve_push (depth_issue path) errors
      else case v of
        VText s \<Rightarrow> push_if (length s > MAX_EXTENSION_TEXT_BYTES)
          (text_issue path) errors
      | VBytes s \<Rightarrow> push_if (length s > MAX_EXTENSION_BYTES)
          (bytes_issue path) errors
      | VArray vs \<Rightarrow> validate_items vs 0 (depth + 1) path
          (push_if (length vs > MAX_EXTENSION_COLLECTION_ITEMS)
            (array_issue path) errors)
      | VObject kvs \<Rightarrow> validate_members kvs (depth + 1) path
          (push_if (length kvs > MAX_EXTENSION_COLLECTION_ITEMS)
            (object_issue path) errors)
      | VBoolean _ \<Rightarrow> errors
      | VInteger _ \<Rightarrow> errors)"
| "validate_items [] i depth path errors = errors"
| "validate_items (v # vs) i depth path errors =
     validate_items vs (i + 1) depth path (validate_at v depth (child_path path (show_nat i)) errors)"
| "validate_members [] depth path errors = errors"
| "validate_members ((k, v) # kvs) depth path errors =
     validate_members kvs depth path (validate_at v depth (child_path path k) errors)"

type_synonym extension_map = "(string, canonical_value) btree"

fun validate_extension_entries ::
    "extension_map \<Rightarrow> string set \<Rightarrow> validation_errors \<Rightarrow> validation_errors" where
  "validate_extension_entries [] known errors = errors"
| "validate_extension_entries ((k, v) # m) known errors =
     validate_extension_entries m known
       (validate_at v 1 (child_path ''/extensions'' k)
         (push_if (is_mandatory k \<and> k \<notin> known)
           unknown_mandatory_issue
           errors))"

definition validate_known :: "extension_map \<Rightarrow> string set \<Rightarrow> (validation_errors, unit) result" where
  "validate_known m known =
     into_result (validate_extension_entries m known
       (push_if (length m > MAX_EXTENSION_ENTRIES)
         (issue LimitExceeded ''/extensions'' ''extension map exceeds the configured entry maximum'') []))"

definition extension_map_new ::
    "extension_map \<Rightarrow> string set \<Rightarrow> (validation_errors, extension_map) result" where
  "extension_map_new m known = rbind (validate_known m known) (\<lambda>_. Inr m)"

subsection \<open>Schema versions round trip\<close>

lemma byte_char_of_digit: "n < 10 \<Longrightarrow> byte (char_of (48 + n)) = 48 + n"
  by (simp add: byte_def)

lemma show_nat_digits: "list_all is_ascii_digit (show_nat n) \<and> show_nat n \<noteq> []"
proof (induction n rule: show_nat.induct)
  case (1 n)
  have "n mod 10 \<le> 9" using mod_less_divisor [of 10 n] by linarith
  with 1 show ?case
    by (simp add: show_nat.simps [of n] is_ascii_digit_def byte_char_of_digit)
qed

lemma digits_value_append: "digits_value (ds @ [c]) = 10 * digits_value ds + (byte c - 48)"
  by (simp add: digits_value_def)

lemma digits_value_show_nat [simp]: "digits_value (show_nat n) = n"
proof (induction n rule: show_nat.induct)
  case (1 n)
  show ?case
  proof (cases "n < 10")
    case True
    then show ?thesis by (simp add: show_nat.simps [of n] digits_value_def byte_char_of_digit)
  next
    case False
    then show ?thesis using 1
      by (simp add: show_nat.simps [of n] digits_value_append byte_char_of_digit)
  qed
qed

lemma rsplit_once_v_None: "list_all is_ascii_digit s \<Longrightarrow> rsplit_once_v s = None"
proof (induction s)
  case (Cons c s)
  then have "c \<noteq> CHR ''.''" by (auto simp: byte_defs)
  with Cons show ?case by (simp split: list.splits)
qed simp

lemma rsplit_once_v_append:
  assumes "list_all is_ascii_digit ds"
  shows "rsplit_once_v (f @ ''.v'' @ ds) = Some (f, ds)"
proof (induction f)
  case Nil
  have "rsplit_once_v (CHR ''v'' # ds) = None"
    using assms by (simp add: rsplit_once_v_None split: list.splits)
  then show ?case by simp
qed simp

lemma parse_u16_show_nat: "parse_u16 (show_nat (unat m)) = Some m"
proof -
  obtain c r where s: "show_nat (unat m) = c # r" using show_nat_digits [of "unat m"] by (cases "show_nat (unat m)") auto
  have "is_ascii_digit c" using show_nat_digits [of "unat m"] by (simp add: s)
  then have "c \<noteq> CHR ''+''" by (auto simp: byte_defs)
  moreover have "unat m < 2 ^ 16" using unsigned_less [of m] by simp
  ultimately show ?thesis
    using show_nat_digits [of "unat m"] digits_value_show_nat [of "unat m"]
    by (simp add: parse_u16_def s del: digits_value_show_nat)
qed

lemma schema_new_eq_Inr_iff [result_simps]:
  "schema_new f m = Inr v \<longleftrightarrow> v = \<lparr>sv_family = f, sv_major = m\<rparr> \<and> f \<noteq> [] \<and>
     length f \<le> MAX_SCHEMA_FAMILY_BYTES \<and> valid_family f \<and> m \<noteq> 0"
  by (auto simp: schema_new_def Let_def result_simps)

text \<open>
  Schema versions round trip: printing a version that the constructor accepts and parsing the
  text gives the version back, and everything the parser returns is a version the constructor
  accepts.
\<close>

theorem schema_version_round_trip:
  assumes "schema_new f m = Inr v"
  shows "schema_from_str (schema_to_string v) = Inr v \<and>
    (\<forall>s w. schema_from_str s = Inr w \<longrightarrow> schema_new (sv_family w) (sv_major w) = Inr w)"
proof -
  have "list_all is_ascii_digit (show_nat (unat m))" using show_nat_digits by blast
  from rsplit_once_v_append [OF this] have "schema_from_str (schema_to_string v) = Inr v"
    using assms by (auto simp: schema_from_str_def schema_to_string_def parse_u16_show_nat result_simps)
  moreover have "schema_new (sv_family w) (sv_major w) = Inr w" if "schema_from_str s = Inr w" for s w
    using that by (auto simp: schema_from_str_def result_simps split: option.splits)
  ultimately show ?thesis by blast
qed

lemma example_family_ok: "schema_new ''cigar.atom'' 1 = Inr \<lparr>sv_family = ''cigar.atom'', sv_major = 1\<rparr>"
  by (simp add: result_simps MAX_SCHEMA_FAMILY_BYTES_def valid_family_def is_ascii_lowercase_def byte_defs)

theorem schema_version_round_trip_witness:
  "schema_from_str (schema_to_string \<lparr>sv_family = ''cigar.atom'', sv_major = 1\<rparr>) =
    Inr \<lparr>sv_family = ''cigar.atom'', sv_major = 1\<rparr>"
  using schema_version_round_trip [OF example_family_ok] by blast

text \<open>
  The parser is more liberal than the published pattern
  \<open>[a-z][a-z0-9]*([.-][a-z0-9]+)*\.v[1-9][0-9]{0,4}\<close>: signs, leading zeros and hyphens at the
  edges of a family are accepted.
\<close>

lemma schema_parser_beyond_pattern:
  "schema_from_str ''cigar.atom.v+1'' = Inr \<lparr>sv_family = ''cigar.atom'', sv_major = 1\<rparr>"
  "schema_from_str ''cigar.atom.v01'' = Inr \<lparr>sv_family = ''cigar.atom'', sv_major = 1\<rparr>"
  "schema_from_str ''-atom-.v1'' = Inr \<lparr>sv_family = ''-atom-'', sv_major = 1\<rparr>"
  by (simp_all add: schema_from_str_def parse_u16_def digits_value_def result_simps
      MAX_SCHEMA_FAMILY_BYTES_def valid_family_def is_ascii_lowercase_def byte_defs)

subsection \<open>Extension maps\<close>

fun value_depth :: "canonical_value \<Rightarrow> nat" where
  "value_depth (VArray vs) = Suc (foldr max (map value_depth vs) 0)"
| "value_depth (VObject kvs) = Suc (foldr max (map (\<lambda>(_, v). value_depth v) kvs) 0)"
| "value_depth _ = 1"

fun value_sizes_ok :: "canonical_value \<Rightarrow> bool" where
  "value_sizes_ok (VText s) \<longleftrightarrow> length s \<le> MAX_EXTENSION_TEXT_BYTES"
| "value_sizes_ok (VBytes s) \<longleftrightarrow> length s \<le> MAX_EXTENSION_BYTES"
| "value_sizes_ok (VArray vs) \<longleftrightarrow> length vs \<le> MAX_EXTENSION_COLLECTION_ITEMS \<and> list_all value_sizes_ok vs"
| "value_sizes_ok (VObject kvs) \<longleftrightarrow> length kvs \<le> MAX_EXTENSION_COLLECTION_ITEMS \<and>
     list_all (\<lambda>(_, v). value_sizes_ok v) kvs"
| "value_sizes_ok _ \<longleftrightarrow> True"

definition value_ok :: "nat \<Rightarrow> canonical_value \<Rightarrow> bool" where
  "value_ok depth v \<longleftrightarrow> depth + value_depth v \<le> Suc MAX_EXTENSION_DEPTH \<and> value_sizes_ok v"

lemma foldr_max_le_iff: "foldr max (xs :: nat list) 0 \<le> n \<longleftrightarrow> list_all (\<lambda>x. x \<le> n) xs"
  by (induction xs) auto

lemma value_depth_pos: "0 < value_depth v"
  by (cases v) simp_all

lemma value_ok_VArray:
  "value_ok d (VArray vs) \<longleftrightarrow> d \<le> MAX_EXTENSION_DEPTH \<and> length vs \<le> MAX_EXTENSION_COLLECTION_ITEMS \<and>
     list_all (value_ok (Suc d)) vs"
proof -
  have "d + value_depth (VArray vs) \<le> Suc MAX_EXTENSION_DEPTH \<longleftrightarrow>
    d \<le> MAX_EXTENSION_DEPTH \<and> foldr max (map value_depth vs) 0 \<le> MAX_EXTENSION_DEPTH - d" by auto
  also have "\<dots> \<longleftrightarrow> d \<le> MAX_EXTENSION_DEPTH \<and>
      list_all (\<lambda>v. Suc d + value_depth v \<le> Suc MAX_EXTENSION_DEPTH) vs"
    unfolding foldr_max_le_iff by (auto simp: list_all_iff)
  finally show ?thesis by (auto simp: value_ok_def list_all_iff)
qed

lemma value_ok_VObject:
  "value_ok d (VObject kvs) \<longleftrightarrow> d \<le> MAX_EXTENSION_DEPTH \<and> length kvs \<le> MAX_EXTENSION_COLLECTION_ITEMS \<and>
     list_all (\<lambda>(_, v). value_ok (Suc d) v) kvs"
proof -
  have "d + value_depth (VObject kvs) \<le> Suc MAX_EXTENSION_DEPTH \<longleftrightarrow>
    d \<le> MAX_EXTENSION_DEPTH \<and> foldr max (map (\<lambda>(_, v). value_depth v) kvs) 0 \<le> MAX_EXTENSION_DEPTH - d" by auto
  also have "\<dots> \<longleftrightarrow> d \<le> MAX_EXTENSION_DEPTH \<and>
      list_all (\<lambda>(_, v). Suc d + value_depth v \<le> Suc MAX_EXTENSION_DEPTH) kvs"
    unfolding foldr_max_le_iff by (auto simp: list_all_iff)
  finally show ?thesis by (auto simp: value_ok_def list_all_iff)
qed

lemma validate_at_eq_Nil_iff:
  "validate_at v d p es = [] \<longleftrightarrow> es = [] \<and> value_ok d v"
  "validate_items vs i d p es = [] \<longleftrightarrow> es = [] \<and> list_all (value_ok d) vs"
  "validate_members kvs d p es = [] \<longleftrightarrow> es = [] \<and> list_all (\<lambda>(_, v). value_ok d v) kvs"
proof (induction v d p es and vs i d p es and kvs d p es
    rule: validate_at_validate_items_validate_members.induct)
  case (1 v d p es)
  show ?case
  proof (cases "d > MAX_EXTENSION_DEPTH")
    case True
    then show ?thesis using value_depth_pos [of v] by (auto simp: value_ok_def)
  next
    case False
    then show ?thesis using 1
      by (cases v) (auto simp: value_ok_VArray value_ok_VObject, auto simp: value_ok_def)
  qed
qed (auto simp del: validate_at.simps)

lemma validate_extension_entries_eq_Nil_iff:
  "validate_extension_entries m known es = [] \<longleftrightarrow> es = [] \<and>
     (\<forall>(k, v) \<in> set m. (is_mandatory k \<longrightarrow> k \<in> known) \<and> value_ok 1 v)"
  by (induction m known es rule: validate_extension_entries.induct)
    (auto simp: validate_at_eq_Nil_iff simp del: validate_at.simps)

text \<open>
  An extension map is accepted exactly when it has at most 64 entries, every mandatory key is
  known, and every value nests at most 16 levels deep with all its texts, byte strings, arrays and
  objects within their limits at every level.
\<close>

theorem extension_map_accepts_iff:
  "is_ok (extension_map_new m known) \<longleftrightarrow> length m \<le> MAX_EXTENSION_ENTRIES \<and>
     (\<forall>(k, v) \<in> set m. (is_mandatory k \<longrightarrow> k \<in> known) \<and>
        value_depth v \<le> MAX_EXTENSION_DEPTH \<and> value_sizes_ok v)"
  by (auto simp: extension_map_new_def validate_known_def result_simps
      validate_extension_entries_eq_Nil_iff value_ok_def)

theorem extension_map_accepts_iff_witness:
  "is_ok (extension_map_new [(''required/a'', VArray [VInteger 7])] {''required/a''}) \<and>
   \<not> is_ok (extension_map_new [(''required/a'', VArray [VInteger 7])] {})"
  by (simp add: extension_map_accepts_iff is_mandatory_def MAX_EXTENSION_ENTRIES_def
      MAX_EXTENSION_DEPTH_def MAX_EXTENSION_COLLECTION_ITEMS_def)

end
