(* ===== verification/Protocol_Types.thy ===== *)
theory Protocol_Types
  imports Protocol_Base
begin

text \<open>
  The closed enumerations of the protocol crate that several components compare
  (\<open>cigar-protocol/src/atom.rs\<close>, \<open>effect.rs\<close>, \<open>coordination.rs\<close>). Rust derives their order
  from the order of declaration; each type is an instance of \<open>linorder\<close> through its rank.
\<close>

datatype classification = Public | Internal | Confidential | Restricted

fun classification_rank :: "classification \<Rightarrow> nat" where
  "classification_rank Public = 0"
| "classification_rank Internal = 1"
| "classification_rank Confidential = 2"
| "classification_rank Restricted = 3"

lemma classification_rank_inject: "classification_rank a = classification_rank b \<Longrightarrow> a = b"
  by (cases a; cases b) simp_all

instantiation classification :: linorder
begin

definition less_eq_classification :: "classification \<Rightarrow> classification \<Rightarrow> bool" where
  "less_eq_classification a b \<longleftrightarrow> classification_rank a \<le> classification_rank b"

definition less_classification :: "classification \<Rightarrow> classification \<Rightarrow> bool" where
  "less_classification a b \<longleftrightarrow> classification_rank a < classification_rank b"

instance
  by standard (auto simp: less_eq_classification_def less_classification_def dest: classification_rank_inject)

end

lemmas classification_order = less_eq_classification_def less_classification_def

datatype instruction_authority = Data | Advisory | Project | System

fun instruction_authority_rank :: "instruction_authority \<Rightarrow> nat" where
  "instruction_authority_rank Data = 0"
| "instruction_authority_rank Advisory = 1"
| "instruction_authority_rank Project = 2"
| "instruction_authority_rank System = 3"

lemma instruction_authority_rank_inject: "instruction_authority_rank a = instruction_authority_rank b \<Longrightarrow> a = b"
  by (cases a; cases b) simp_all

instantiation instruction_authority :: linorder
begin

definition less_eq_instruction_authority :: "instruction_authority \<Rightarrow> instruction_authority \<Rightarrow> bool" where
  "less_eq_instruction_authority a b \<longleftrightarrow> instruction_authority_rank a \<le> instruction_authority_rank b"

definition less_instruction_authority :: "instruction_authority \<Rightarrow> instruction_authority \<Rightarrow> bool" where
  "less_instruction_authority a b \<longleftrightarrow> instruction_authority_rank a < instruction_authority_rank b"

instance
  by standard (auto simp: less_eq_instruction_authority_def less_instruction_authority_def dest: instruction_authority_rank_inject)

end

lemmas instruction_authority_order = less_eq_instruction_authority_def less_instruction_authority_def

datatype lifecycle = Active | Superseded | Tombstoned | Quarantined

fun lifecycle_rank :: "lifecycle \<Rightarrow> nat" where
  "lifecycle_rank Active = 0"
| "lifecycle_rank Superseded = 1"
| "lifecycle_rank Tombstoned = 2"
| "lifecycle_rank Quarantined = 3"

lemma lifecycle_rank_inject: "lifecycle_rank a = lifecycle_rank b \<Longrightarrow> a = b"
  by (cases a; cases b) simp_all

instantiation lifecycle :: linorder
begin

definition less_eq_lifecycle :: "lifecycle \<Rightarrow> lifecycle \<Rightarrow> bool" where
  "less_eq_lifecycle a b \<longleftrightarrow> lifecycle_rank a \<le> lifecycle_rank b"

definition less_lifecycle :: "lifecycle \<Rightarrow> lifecycle \<Rightarrow> bool" where
  "less_lifecycle a b \<longleftrightarrow> lifecycle_rank a < lifecycle_rank b"

instance
  by standard (auto simp: less_eq_lifecycle_def less_lifecycle_def dest: lifecycle_rank_inject)

end

lemmas lifecycle_order = less_eq_lifecycle_def less_lifecycle_def

datatype risk_level = Low | Medium | High | Critical

fun risk_level_rank :: "risk_level \<Rightarrow> nat" where
  "risk_level_rank Low = 0"
| "risk_level_rank Medium = 1"
| "risk_level_rank High = 2"
| "risk_level_rank Critical = 3"

lemma risk_level_rank_inject: "risk_level_rank a = risk_level_rank b \<Longrightarrow> a = b"
  by (cases a; cases b) simp_all

instantiation risk_level :: linorder
begin

definition less_eq_risk_level :: "risk_level \<Rightarrow> risk_level \<Rightarrow> bool" where
  "less_eq_risk_level a b \<longleftrightarrow> risk_level_rank a \<le> risk_level_rank b"

definition less_risk_level :: "risk_level \<Rightarrow> risk_level \<Rightarrow> bool" where
  "less_risk_level a b \<longleftrightarrow> risk_level_rank a < risk_level_rank b"

instance
  by standard (auto simp: less_eq_risk_level_def less_risk_level_def dest: risk_level_rank_inject)

end

lemmas risk_level_order = less_eq_risk_level_def less_risk_level_def

datatype capability = ReadContext | CompileContext | WriteOverlay | PublishOverlay | CreateHandoff | AcceptHandoff | InvokeTool | ProposeEffect | ApproveEffect | ReconcileEffect

fun capability_rank :: "capability \<Rightarrow> nat" where
  "capability_rank ReadContext = 0"
| "capability_rank CompileContext = 1"
| "capability_rank WriteOverlay = 2"
| "capability_rank PublishOverlay = 3"
| "capability_rank CreateHandoff = 4"
| "capability_rank AcceptHandoff = 5"
| "capability_rank InvokeTool = 6"
| "capability_rank ProposeEffect = 7"
| "capability_rank ApproveEffect = 8"
| "capability_rank ReconcileEffect = 9"

lemma capability_rank_inject: "capability_rank a = capability_rank b \<Longrightarrow> a = b"
  by (cases a; cases b) simp_all

instantiation capability :: linorder
begin

definition less_eq_capability :: "capability \<Rightarrow> capability \<Rightarrow> bool" where
  "less_eq_capability a b \<longleftrightarrow> capability_rank a \<le> capability_rank b"

definition less_capability :: "capability \<Rightarrow> capability \<Rightarrow> bool" where
  "less_capability a b \<longleftrightarrow> capability_rank a < capability_rank b"

instance
  by standard (auto simp: less_eq_capability_def less_capability_def dest: capability_rank_inject)

end

lemmas capability_order = less_eq_capability_def less_capability_def

end
