(* ===== verification/Policy_Contract.thy ===== *)
theory Policy_Contract
  imports Protocol_Types
begin

text \<open>
  Requests, decisions and rule profiles of the policy engine (\<open>cigar-policy/src/contract.rs\<close>). A
  \<open>BTreeSet\<close> is a finite set; where the engine iterates over one, it visits the elements in
  ascending order.
\<close>

definition MAX_POLICY_RULES :: nat where "MAX_POLICY_RULES = 10000"
definition MAX_POLICY_SELECTORS :: nat where "MAX_POLICY_SELECTORS = 1024"
definition MAX_POLICY_TEXT_BYTES :: nat where "MAX_POLICY_TEXT_BYTES = 512"

datatype policy_error =
  PInvalidInput | PLimitExceeded | PUnavailable | PInvalidRuleGraph | PInvalidCapability | PRevoked
  | PRequiredField

datatype policy_resource = Partition | Metadata | Content | Processor | Bundle | Handoff | Effect

datatype policy_outcome = Deny | Quarantine | RequireRefresh | Redact | RequireApproval | Allow

fun policy_outcome_rank :: "policy_outcome \<Rightarrow> nat" where
  "policy_outcome_rank Deny = 0"
| "policy_outcome_rank Quarantine = 1"
| "policy_outcome_rank RequireRefresh = 2"
| "policy_outcome_rank Redact = 3"
| "policy_outcome_rank RequireApproval = 4"
| "policy_outcome_rank Allow = 5"

lemma policy_outcome_rank_inject: "policy_outcome_rank a = policy_outcome_rank b \<Longrightarrow> a = b"
  by (cases a; cases b) simp_all

instantiation policy_outcome :: linorder
begin

definition less_eq_policy_outcome :: "policy_outcome \<Rightarrow> policy_outcome \<Rightarrow> bool" where
  "less_eq_policy_outcome a b \<longleftrightarrow> policy_outcome_rank a \<le> policy_outcome_rank b"

definition less_policy_outcome :: "policy_outcome \<Rightarrow> policy_outcome \<Rightarrow> bool" where
  "less_policy_outcome a b \<longleftrightarrow> policy_outcome_rank a < policy_outcome_rank b"

instance
  by standard (auto simp: less_eq_policy_outcome_def less_policy_outcome_def dest: policy_outcome_rank_inject)

end

lemmas policy_outcome_order = less_eq_policy_outcome_def less_policy_outcome_def

fun policy_resource_rank :: "policy_resource \<Rightarrow> nat" where
  "policy_resource_rank Partition = 0"
| "policy_resource_rank Metadata = 1"
| "policy_resource_rank Content = 2"
| "policy_resource_rank Processor = 3"
| "policy_resource_rank Bundle = 4"
| "policy_resource_rank Handoff = 5"
| "policy_resource_rank Effect = 6"

lemma policy_resource_rank_inject: "policy_resource_rank a = policy_resource_rank b \<Longrightarrow> a = b"
  by (cases a; cases b) simp_all

instantiation policy_resource :: linorder
begin

definition less_eq_policy_resource :: "policy_resource \<Rightarrow> policy_resource \<Rightarrow> bool" where
  "less_eq_policy_resource a b \<longleftrightarrow> policy_resource_rank a \<le> policy_resource_rank b"

definition less_policy_resource :: "policy_resource \<Rightarrow> policy_resource \<Rightarrow> bool" where
  "less_policy_resource a b \<longleftrightarrow> policy_resource_rank a < policy_resource_rank b"

instance
  by standard (auto simp: less_eq_policy_resource_def less_policy_resource_def dest: policy_resource_rank_inject)

end

lemmas policy_resource_order = less_eq_policy_resource_def less_policy_resource_def

datatype policy_reason =
  Allowed | TenantMismatch | ScopeDenied | PrincipalDenied | CapabilityDenied | PurposeDenied
  | ProcessorDenied | ClassificationDenied | IntegrityDenied | TemporalDenied
  | InstructionAuthorityDenied | ContractDenied | EffectDenied | DeclarativeRule | PolicyChanged
  | Revoked

datatype disclosure_class = DeniedExistence | CallerVisible | AuditOnly

datatype timing_class = Denied | Eligible

record policy_rule =
  pr_id :: string
  pr_priority :: int
  pr_depends_on :: "string fset"
  pr_resources :: "policy_resource fset"
  pr_principal_ids :: "record_id fset"
  pr_tenant_ids :: "record_id fset"
  pr_project_ids :: "record_id fset"
  pr_purposes :: "string fset"
  pr_processors :: "string fset"
  pr_classification_at_least :: "classification option"
  pr_action :: policy_outcome
  pr_redaction_paths :: "string fset"
  pr_conditions :: "string fset"

record policy_profile =
  pp_schema_version :: string
  pp_revision :: u64
  pp_protected :: bool
  pp_rules :: "policy_rule list"

record policy_snapshot =
  ps_revision :: u64
  ps_policy_digest :: content_digest
  ps_activated_at :: timestamp
  ps_protected :: bool

record capability_context =
  cc_subject_id :: record_id
  cc_grant_id :: "record_id option"
  cc_capabilities :: "capability fset"
  cc_project_ids :: "record_id fset"
  cc_processors :: "string fset"
  cc_expires_at :: timestamp

record policy_request =
  rq_resource :: policy_resource
  rq_input_digest :: content_digest
  rq_principal_id :: record_id
  rq_principal_active :: bool
  rq_tenant_id :: record_id
  rq_authenticated_tenant_id :: record_id
  rq_project_id :: "record_id option"
  rq_allowed_project_ids :: "record_id fset"
  rq_purpose :: string
  rq_allowed_purposes :: "string fset"
  rq_processor :: "string option"
  rq_allowed_processors :: "string fset"
  rq_classification :: classification
  rq_maximum_classification :: classification
  rq_residency_allowed :: bool
  rq_egress_allowed :: bool
  rq_lifecycle :: lifecycle
  rq_integrity_verified :: bool
  rq_valid_at :: timestamp
  rq_valid_from :: timestamp
  rq_valid_until :: "timestamp option"
  rq_observed_at :: timestamp
  rq_observed_as_of :: timestamp
  rq_freshness_expires_at :: "timestamp option"
  rq_instruction_authority :: instruction_authority
  rq_maximum_instruction_authority :: instruction_authority
  rq_excluded :: bool
  rq_modality_supported :: bool
  rq_capability :: "capability_context option"
  rq_required_capability :: "capability option"
  rq_bound_policy_digest :: "content_digest option"
  rq_effect_risk :: "risk_level option"
  rq_effect_approved :: bool
  rq_effect_constraints_satisfied :: bool
  rq_fencing_required :: bool
  rq_fencing_verified :: bool
  rq_decision_expires_at :: timestamp

record policy_decision =
  pd_outcome :: policy_outcome
  pd_reason :: policy_reason
  pd_input_digest :: content_digest
  pd_policy_digest :: content_digest
  pd_redaction_paths :: "string fset"
  pd_conditions :: "string fset"
  pd_expires_at :: timestamp
  pd_disclosure :: disclosure_class
  pd_timing_class :: timing_class

datatype caller_disposition = Absent | DispDenied | Conditional | DispAllowed

record policy_decision_view =
  pv_disposition :: caller_disposition
  pv_reason :: "policy_reason option"
  pv_timing_class :: timing_class

fun disposition :: "policy_outcome \<Rightarrow> caller_disposition" where
  "disposition Deny = DispDenied"
| "disposition Quarantine = DispDenied"
| "disposition RequireRefresh = Conditional"
| "disposition Redact = Conditional"
| "disposition RequireApproval = Conditional"
| "disposition Allow = DispAllowed"

definition caller_view :: "policy_decision \<Rightarrow> policy_decision_view" where
  "caller_view d =
     (case pd_disclosure d of
        DeniedExistence \<Rightarrow> \<lparr>pv_disposition = Absent, pv_reason = None, pv_timing_class = Denied\<rparr>
      | CallerVisible \<Rightarrow> \<lparr>pv_disposition = disposition (pd_outcome d), pv_reason = Some (pd_reason d),
                          pv_timing_class = pd_timing_class d\<rparr>
      | AuditOnly \<Rightarrow> \<lparr>pv_disposition = disposition (pd_outcome d), pv_reason = None,
                      pv_timing_class = pd_timing_class d\<rparr>)"

datatype invalidation_reason = InvPolicyChanged | InvRevoked

record policy_invalidation_event =
  ie_sequence :: u64
  ie_previous_policy_digest :: "content_digest option"
  ie_policy_digest :: content_digest
  ie_reason :: invalidation_reason
  ie_occurred_at :: timestamp

lemma policy_outcome_le_Allow [simp]: "(x :: policy_outcome) \<le> Allow"
  by (cases x) (simp_all add: policy_outcome_order)

end
