(* ===== verification/Policy_Digest.thy ===== *)
theory Policy_Digest
  imports Policy_Contract
begin

text \<open>
  The digests of the policy engine (\<open>cigar-policy/src/engine.rs\<close>, from \<open>profile_digest\<close> to
  \<open>digest_parts\<close>). SHA-256 is the external hash, a parameter; the canonical CBOR form of a profile
  comes from \<open>serde\<close> and the canonicalization crate and is the other field of \<open>policy_env\<close>. The
  fields that are hashed, their order and their framing are the code's. The main result is that
  the framing is unambiguous: two well-formed requests with the same digest are equal, provided
  the hash has no collisions.
\<close>

record policy_env =
  pe_sha256 :: "string \<Rightarrow> string"
  pe_profile_cbor :: "policy_profile \<Rightarrow> string option"

definition i128_bytes :: "int \<Rightarrow> string" where
  "i128_bytes i = be_bytes 16 (nat (i mod 2 ^ 128))"

definition u64_bytes :: "u64 \<Rightarrow> string" where
  "u64_bytes w = be_bytes 8 (unat w)"

definition u8_of_bool :: "bool \<Rightarrow> char" where
  "u8_of_bool b = char_of (if b then 1 else 0 :: nat)"

definition NUL :: string where
  "NUL = [CHR 0x00]"

definition hash_field :: "string \<times> string \<Rightarrow> string" where
  "hash_field = (\<lambda>(label, value).
     be_bytes 8 (length label) @ label @ be_bytes 8 (length value) @ value)"

definition digest_parts :: "policy_env \<Rightarrow> string \<Rightarrow> string list \<Rightarrow> (policy_error, content_digest) result" where
  "digest_parts E domain parts =
     map_err (\<lambda>_. PInvalidInput)
       (content_digest_new (''1220'' @ hex (pe_sha256 E (domain @ concat (map (\<lambda>p. p @ NUL) parts)))))"

definition profile_digest :: "policy_env \<Rightarrow> policy_profile \<Rightarrow> (policy_error, content_digest) result" where
  "profile_digest E profile =
     rbind (ok_or (pe_profile_cbor E profile) PInvalidInput) (\<lambda>cbor.
       digest_parts E (''CIGAR-POLICY-PROFILE'' @ NUL @ ''v1'' @ NUL) [cbor])"

subsection \<open>Debug names of the enumerations\<close>

fun show_resource :: "policy_resource \<Rightarrow> string" where
  "show_resource Partition = ''Partition''"
| "show_resource Metadata = ''Metadata''"
| "show_resource Content = ''Content''"
| "show_resource Processor = ''Processor''"
| "show_resource Bundle = ''Bundle''"
| "show_resource Handoff = ''Handoff''"
| "show_resource Effect = ''Effect''"

fun show_classification :: "classification \<Rightarrow> string" where
  "show_classification Public = ''Public''"
| "show_classification Internal = ''Internal''"
| "show_classification Confidential = ''Confidential''"
| "show_classification Restricted = ''Restricted''"

fun show_lifecycle :: "lifecycle \<Rightarrow> string" where
  "show_lifecycle Active = ''Active''"
| "show_lifecycle Superseded = ''Superseded''"
| "show_lifecycle Tombstoned = ''Tombstoned''"
| "show_lifecycle Quarantined = ''Quarantined''"

fun show_authority :: "instruction_authority \<Rightarrow> string" where
  "show_authority Data = ''Data''"
| "show_authority Advisory = ''Advisory''"
| "show_authority Project = ''Project''"
| "show_authority System = ''System''"

fun show_risk :: "risk_level \<Rightarrow> string" where
  "show_risk Low = ''Low''"
| "show_risk Medium = ''Medium''"
| "show_risk High = ''High''"
| "show_risk Critical = ''Critical''"

fun show_capability :: "capability \<Rightarrow> string" where
  "show_capability ReadContext = ''ReadContext''"
| "show_capability CompileContext = ''CompileContext''"
| "show_capability WriteOverlay = ''WriteOverlay''"
| "show_capability PublishOverlay = ''PublishOverlay''"
| "show_capability CreateHandoff = ''CreateHandoff''"
| "show_capability AcceptHandoff = ''AcceptHandoff''"
| "show_capability InvokeTool = ''InvokeTool''"
| "show_capability ProposeEffect = ''ProposeEffect''"
| "show_capability ApproveEffect = ''ApproveEffect''"
| "show_capability ReconcileEffect = ''ReconcileEffect''"

subsection \<open>The digest of a request\<close>

definition option_bytes :: "('a \<Rightarrow> string) \<Rightarrow> 'a option \<Rightarrow> string" where
  "option_bytes f x = (case x of None \<Rightarrow> [] | Some v \<Rightarrow> f v)"

definition each :: "string \<Rightarrow> ('a::linorder \<Rightarrow> string) \<Rightarrow> 'a fset \<Rightarrow> (string \<times> string) list" where
  "each label f s = map (\<lambda>v. (label, f v)) (sorted_list_of_fset s)"

definition request_flags :: "policy_request \<Rightarrow> string" where
  "request_flags r = map u8_of_bool
     [rq_integrity_verified r, rq_residency_allowed r, rq_egress_allowed r, rq_excluded r,
      rq_modality_supported r, rq_effect_approved r, rq_effect_constraints_satisfied r,
      rq_fencing_required r, rq_fencing_verified r]"

definition capability_fields :: "capability_context \<Rightarrow> (string \<times> string) list" where
  "capability_fields c =
     [(''capability_subject'', cc_subject_id c)]
     @ (case cc_grant_id c of None \<Rightarrow> [] | Some g \<Rightarrow> [(''capability_grant'', g)])
     @ each ''effective_capability'' show_capability (cc_capabilities c)
     @ each ''capability_project'' (\<lambda>p. p) (cc_project_ids c)
     @ each ''capability_processor'' (\<lambda>p. p) (cc_processors c)
     @ [(''capability_expires_at'', i128_bytes (cc_expires_at c))]"

definition request_fields :: "policy_request \<Rightarrow> (string \<times> string) list" where
  "request_fields r =
     [(''resource'', show_resource (rq_resource r)),
      (''input'', rq_input_digest r),
      (''principal'', rq_principal_id r),
      (''tenant'', rq_tenant_id r),
      (''authenticated_tenant'', rq_authenticated_tenant_id r),
      (''principal_active'', [u8_of_bool (rq_principal_active r)]),
      (''purpose'', rq_purpose r),
      (''project'', option_bytes (\<lambda>p. p) (rq_project_id r)),
      (''processor'', option_bytes (\<lambda>p. p) (rq_processor r))]
     @ each ''allowed_project'' (\<lambda>p. p) (rq_allowed_project_ids r)
     @ each ''allowed_purpose'' (\<lambda>p. p) (rq_allowed_purposes r)
     @ each ''allowed_processor'' (\<lambda>p. p) (rq_allowed_processors r)
     @ [(''valid_at'', i128_bytes (rq_valid_at r)),
        (''valid_from'', i128_bytes (rq_valid_from r)),
        (''valid_until'', option_bytes i128_bytes (rq_valid_until r)),
        (''observed_at'', i128_bytes (rq_observed_at r)),
        (''observed_as_of'', i128_bytes (rq_observed_as_of r)),
        (''freshness_expires_at'', option_bytes i128_bytes (rq_freshness_expires_at r)),
        (''decision_expires_at'', i128_bytes (rq_decision_expires_at r)),
        (''classification'', show_classification (rq_classification r)),
        (''maximum_classification'', show_classification (rq_maximum_classification r)),
        (''lifecycle'', show_lifecycle (rq_lifecycle r)),
        (''instruction_authority'', show_authority (rq_instruction_authority r)),
        (''maximum_instruction_authority'', show_authority (rq_maximum_instruction_authority r)),
        (''flags'', request_flags r)]
     @ (case rq_required_capability r of None \<Rightarrow> [] | Some c \<Rightarrow> [(''required_capability'', show_capability c)])
     @ (case rq_capability r of None \<Rightarrow> [] | Some c \<Rightarrow> capability_fields c)
     @ (case rq_bound_policy_digest r of None \<Rightarrow> [] | Some d \<Rightarrow> [(''bound_policy_digest'', d)])
     @ (case rq_effect_risk r of None \<Rightarrow> [] | Some k \<Rightarrow> [(''effect_risk'', show_risk k)])"

definition hash_fields :: "(string \<times> string) list \<Rightarrow> string" where
  "hash_fields fs = concat (map hash_field fs)"

definition request_digest :: "policy_env \<Rightarrow> policy_request \<Rightarrow> (policy_error, content_digest) result" where
  "request_digest E r =
     digest_parts E (''CIGAR-POLICY-CACHE-KEY'' @ NUL @ ''v1'' @ NUL)
       [pe_sha256 E (''CIGAR-POLICY-REQUEST'' @ NUL @ ''v1'' @ NUL @ hash_fields (request_fields r))]"

definition retrieval_request_semantic_digest ::
    "policy_env \<Rightarrow> policy_request \<Rightarrow> (policy_error, content_digest) result" where
  "retrieval_request_semantic_digest E r =
     (let stable = r\<lparr>rq_valid_at := rq_valid_from r, rq_observed_at := rq_valid_from r,
                     rq_observed_as_of := rq_valid_from r,
                     rq_decision_expires_at := (case rq_valid_until r of None \<Rightarrow> rq_valid_from r | Some u \<Rightarrow> u)\<rparr>
      in rbind (request_digest E stable) (\<lambda>d.
           digest_parts E (''CIGAR-RETRIEVAL-REQUEST-SEMANTICS'' @ NUL @ ''v1'' @ NUL) [d]))"

definition retrieval_partition_digest ::
    "policy_env \<Rightarrow> record_id \<Rightarrow> record_id \<Rightarrow> record_id fset \<Rightarrow> string \<Rightarrow> string \<Rightarrow> classification
      \<Rightarrow> instruction_authority \<Rightarrow> bool \<Rightarrow> policy_snapshot \<Rightarrow> u64 \<Rightarrow> content_digest fset
      \<Rightarrow> (policy_error, content_digest) result" where
  "retrieval_partition_digest E principal_id tenant_id projects purpose processor max_class max_auth
       vector_allowed snapshot epoch request_digests =
     digest_parts E (''CIGAR-RETRIEVAL-PARTITION'' @ NUL @ ''v2'' @ NUL)
       [pe_sha256 E (''CIGAR-RETRIEVAL-AUTHORIZATION'' @ NUL @ ''v2'' @ NUL @ hash_fields
          ([(''principal'', principal_id), (''tenant'', tenant_id)]
           @ each ''project'' (\<lambda>p. p) projects
           @ [(''purpose'', purpose), (''processor'', processor),
              (''maximum_classification'', show_classification max_class),
              (''maximum_instruction_authority'', show_authority max_auth),
              (''vector_allowed'', [u8_of_bool vector_allowed]),
              (''policy_digest'', ps_policy_digest snapshot),
              (''policy_revision'', u64_bytes (ps_revision snapshot)),
              (''revocation_epoch'', u64_bytes epoch)]
           @ each ''request_digest'' (\<lambda>d. d) request_digests))]"

subsection \<open>The framing is unambiguous\<close>

lemma i128_bytes_inject:
  assumes "- (2 ^ 127) \<le> i" "i < 2 ^ 127" "- (2 ^ 127) \<le> j" "j < 2 ^ 127"
  shows "i128_bytes i = i128_bytes j \<longleftrightarrow> i = j"
proof -
  have "nat (i mod 2 ^ 128) < 256 ^ 16" "nat (j mod 2 ^ 128) < 256 ^ 16" by (simp_all add: nat_less_iff)
  from be_bytes_inject [OF this] have "i128_bytes i = i128_bytes j \<longleftrightarrow> i mod 2 ^ 128 = j mod 2 ^ 128"
    by (simp add: i128_bytes_def eq_nat_nat_iff)
  also have "\<dots> \<longleftrightarrow> i = j"
  proof
    assume "i mod 2 ^ 128 = j mod 2 ^ 128"
    then have "2 ^ 128 dvd i - j" by (rule mod_eq_dvd_iff [THEN iffD1])
    moreover have "\<bar>i - j\<bar> < 2 ^ 128" using assms by auto
    ultimately show "i = j" using zdvd_imp_le [of "2 ^ 128" "\<bar>i - j\<bar>"] by fastforce
  qed simp
  finally show ?thesis .
qed

text \<open>Texts whose length fits in the 64-bit length prefix.\<close>

definition sized :: "string \<Rightarrow> bool" where
  "sized s \<longleftrightarrow> length s < 2 ^ 64"

lemma hash_field_append_inject:
  assumes "sized (fst f)" "sized (snd f)" "sized (fst g)" "sized (snd g)"
  shows "hash_field f @ x = hash_field g @ y \<longleftrightarrow> f = g \<and> x = y"
proof (cases f, cases g)
  fix l v m w assume f: "f = (l, v)" and g: "g = (m, w)"
  have bound: "n < 256 ^ 8 \<longleftrightarrow> n < (2 :: nat) ^ 64" for n by simp
  show ?thesis
    using assms unfolding f g hash_field_def sized_def bound [symmetric]
    by (auto simp: be_bytes_inject simp del: be_bytes.simps)
qed

lemma hash_field_not_Nil [simp]: "hash_field f \<noteq> []"
  by (cases f) (simp add: hash_field_def del: be_bytes.simps)

lemma hash_fields_inject:
  "list_all (\<lambda>f. sized (fst f) \<and> sized (snd f)) fs \<Longrightarrow> list_all (\<lambda>f. sized (fst f) \<and> sized (snd f)) gs \<Longrightarrow>
    hash_fields fs = hash_fields gs \<longleftrightarrow> fs = gs"
proof (induction fs arbitrary: gs)
  case Nil
  then show ?case
    by (cases gs) (auto simp: hash_fields_def)
next
  case (Cons f fs)
  show ?case
  proof (cases gs)
    case Nil
    then show ?thesis by (auto simp: hash_fields_def)
  next
    case (Cons g gs')
    then show ?thesis
      using Cons.prems Cons.IH [of gs'] by (auto simp: hash_fields_def hash_field_append_inject)
  qed
qed

subsection \<open>Equal digests mean equal requests\<close>

lemma show_resource_inject: "show_resource a = show_resource b \<Longrightarrow> a = b"
  by (cases a; cases b) simp_all

lemma show_classification_inject: "show_classification a = show_classification b \<Longrightarrow> a = b"
  by (cases a; cases b) simp_all

lemma show_lifecycle_inject: "show_lifecycle a = show_lifecycle b \<Longrightarrow> a = b"
  by (cases a; cases b) simp_all

lemma show_authority_inject: "show_authority a = show_authority b \<Longrightarrow> a = b"
  by (cases a; cases b) simp_all

lemma show_risk_inject: "show_risk a = show_risk b \<Longrightarrow> a = b"
  by (cases a; cases b) simp_all

lemma show_capability_inject: "show_capability a = show_capability b \<Longrightarrow> a = b"
  by (cases a; cases b) simp_all

lemma u8_of_bool_inject [simp]: "u8_of_bool a = u8_of_bool b \<longleftrightarrow> a = b"
  by (auto simp: u8_of_bool_def)

definition timestamp_wf :: "timestamp \<Rightarrow> bool" where
  "timestamp_wf t \<longleftrightarrow> - (2 ^ 127) \<le> t \<and> t < 2 ^ 127"

text \<open>
  What the types of the code guarantee of a request: timestamps are 128-bit, texts fit in memory,
  and identifiers and the processor name are not empty.
\<close>

definition capability_wf :: "capability_context \<Rightarrow> bool" where
  "capability_wf c \<longleftrightarrow> sized (cc_subject_id c) \<and> pred_option sized (cc_grant_id c) \<and>
     (\<forall>s \<in> fset (cc_project_ids c). sized s) \<and> (\<forall>s \<in> fset (cc_processors c). sized s) \<and>
     timestamp_wf (cc_expires_at c)"

definition request_wf :: "policy_request \<Rightarrow> bool" where
  "request_wf r \<longleftrightarrow>
     list_all sized [rq_input_digest r, rq_principal_id r, rq_tenant_id r, rq_authenticated_tenant_id r,
       rq_purpose r] \<and>
     pred_option (\<lambda>p. sized p \<and> p \<noteq> []) (rq_project_id r) \<and>
     pred_option (\<lambda>p. sized p \<and> p \<noteq> []) (rq_processor r) \<and>
     (\<forall>s \<in> fset (rq_allowed_project_ids r). sized s) \<and> (\<forall>s \<in> fset (rq_allowed_purposes r). sized s) \<and>
     (\<forall>s \<in> fset (rq_allowed_processors r). sized s) \<and>
     list_all timestamp_wf [rq_valid_at r, rq_valid_from r, rq_observed_at r, rq_observed_as_of r,
       rq_decision_expires_at r] \<and>
     pred_option timestamp_wf (rq_valid_until r) \<and> pred_option timestamp_wf (rq_freshness_expires_at r) \<and>
     pred_option sized (rq_bound_policy_digest r) \<and> pred_option capability_wf (rq_capability r)"

text \<open>
  A run of fields with one label ends where another label begins, so a concatenation of runs with
  distinct labels splits in one way only.
\<close>

definition starts_without :: "string \<Rightarrow> (string \<times> string) list \<Rightarrow> bool" where
  "starts_without l fs \<longleftrightarrow> (case fs of [] \<Rightarrow> True | f # _ \<Rightarrow> fst f \<noteq> l)"

lemma starts_without_simps [simp]:
  "starts_without l []"
  "starts_without l ((l', v) # fs) \<longleftrightarrow> l' \<noteq> l"
  by (simp_all add: starts_without_def)

lemma starts_without_run: "l' \<noteq> l \<Longrightarrow> starts_without l fs \<Longrightarrow> starts_without l (map (\<lambda>v. (l', f v)) vs @ fs)"
  by (cases vs) simp_all

lemma run_inject:
  "map (\<lambda>v. (l, f v)) vs @ xs = map (\<lambda>v. (l, f v)) ws @ ys \<Longrightarrow> starts_without l xs \<Longrightarrow>
    starts_without l ys \<Longrightarrow> map f vs = map f ws \<and> xs = ys"
proof (induction vs arbitrary: ws)
  case Nil
  then show ?case by (cases ws) auto
next
  case (Cons v vs)
  then show ?case by (cases ws) auto
qed

definition option_run :: "string \<Rightarrow> ('a \<Rightarrow> string) \<Rightarrow> 'a option \<Rightarrow> (string \<times> string) list" where
  "option_run l f x = (case x of None \<Rightarrow> [] | Some v \<Rightarrow> [(l, f v)])"

lemma option_run_map: "option_run l f x = map (\<lambda>v. (l, f v)) (case x of None \<Rightarrow> [] | Some v \<Rightarrow> [v])"
  by (simp add: option_run_def split: option.split)

lemma starts_without_runs [simp]:
  "l' \<noteq> l \<Longrightarrow> starts_without l fs \<Longrightarrow> starts_without l (each l' f s @ fs)"
  "l' \<noteq> l \<Longrightarrow> starts_without l fs \<Longrightarrow> starts_without l (option_run l' g x @ fs)"
  by (simp_all add: each_def option_run_map starts_without_run)

lemma each_inject:
  assumes "each l f s @ xs = each l f t @ ys" and "starts_without l xs" and "starts_without l ys"
    and "inj f"
  shows "s = t \<and> xs = ys"
proof -
  have "map f (sorted_list_of_fset s) = map f (sorted_list_of_fset t) \<and> xs = ys"
    using assms(1-3) unfolding each_def by (rule run_inject)
  then have "sorted_list_of_fset s = sorted_list_of_fset t" and "xs = ys"
    using assms(4) by (simp_all add: inj_map_eq_map)
  then show ?thesis by (metis sorted_list_of_fset_simps(2))
qed

lemma option_run_inject:
  assumes "option_run l f x @ xs = option_run l f y @ ys" and "starts_without l xs" and "starts_without l ys"
  shows "map_option f x = map_option f y \<and> xs = ys"
proof -
  have "map f (case x of None \<Rightarrow> [] | Some v \<Rightarrow> [v]) = map f (case y of None \<Rightarrow> [] | Some v \<Rightarrow> [v]) \<and> xs = ys"
    using assms unfolding option_run_map by (rule run_inject)
  then show ?thesis by (auto split: option.splits)
qed

definition request_tail :: "policy_request \<Rightarrow> (string \<times> string) list" where
  "request_tail r = option_run ''required_capability'' show_capability (rq_required_capability r)
     @ (case rq_capability r of None \<Rightarrow> [] | Some c \<Rightarrow> capability_fields c)
     @ option_run ''bound_policy_digest'' (\<lambda>d. d) (rq_bound_policy_digest r)
     @ option_run ''effect_risk'' show_risk (rq_effect_risk r)"

lemma capability_fields_runs:
  "capability_fields c = (''capability_subject'', cc_subject_id c)
     # option_run ''capability_grant'' (\<lambda>g. g) (cc_grant_id c)
     @ each ''effective_capability'' show_capability (cc_capabilities c)
     @ each ''capability_project'' (\<lambda>p. p) (cc_project_ids c)
     @ each ''capability_processor'' (\<lambda>p. p) (cc_processors c)
     @ [(''capability_expires_at'', i128_bytes (cc_expires_at c))]"
  by (simp add: capability_fields_def option_run_def split: option.split)

lemma inj_show_capability: "inj show_capability"
  by (intro injI) (rule show_capability_inject)

lemma inj_show_risk: "inj show_risk"
  by (intro injI) (rule show_risk_inject)

lemma inj_same: "inj (\<lambda>x. x)"
  by (intro injI)

lemma capability_fields_inject:
  assumes "capability_fields c @ xs = capability_fields d @ ys" and "capability_wf c" and "capability_wf d"
  shows "c = d \<and> xs = ys"
proof -
  let ?c3 = "each ''capability_processor'' (\<lambda>p. p) (cc_processors c)
     @ [(''capability_expires_at'', i128_bytes (cc_expires_at c))] @ xs"
  let ?d3 = "each ''capability_processor'' (\<lambda>p. p) (cc_processors d)
     @ [(''capability_expires_at'', i128_bytes (cc_expires_at d))] @ ys"
  let ?c2 = "each ''capability_project'' (\<lambda>p. p) (cc_project_ids c) @ ?c3"
  let ?d2 = "each ''capability_project'' (\<lambda>p. p) (cc_project_ids d) @ ?d3"
  let ?c1 = "each ''effective_capability'' show_capability (cc_capabilities c) @ ?c2"
  let ?d1 = "each ''effective_capability'' show_capability (cc_capabilities d) @ ?d2"
  have 0: "cc_subject_id c = cc_subject_id d"
    "option_run ''capability_grant'' (\<lambda>g. g) (cc_grant_id c) @ ?c1 =
     option_run ''capability_grant'' (\<lambda>g. g) (cc_grant_id d) @ ?d1"
    using assms(1) by (simp_all add: capability_fields_runs)
  have 1: "cc_grant_id c = cc_grant_id d" "?c1 = ?d1"
    using option_run_inject [OF 0(2)] by (simp_all add: option.map_ident)
  have 2: "cc_capabilities c = cc_capabilities d" "?c2 = ?d2"
    using each_inject [OF 1(2) _ _ inj_show_capability] by simp_all
  have 3: "cc_project_ids c = cc_project_ids d" "?c3 = ?d3"
    using each_inject [OF 2(2) _ _ inj_same] by simp_all
  have 4: "cc_processors c = cc_processors d"
    "i128_bytes (cc_expires_at c) = i128_bytes (cc_expires_at d)" "xs = ys"
    using each_inject [OF 3(2) _ _ inj_same] by simp_all
  have "cc_expires_at c = cc_expires_at d"
    using 4(2) assms(2,3) i128_bytes_inject by (auto simp: capability_wf_def timestamp_wf_def)
  with 0 1 2 3 4 show ?thesis by (simp add: capability_context.equality)
qed

lemma request_tail_inject:
  assumes eq: "request_tail r = request_tail r'" and "request_wf r" and "request_wf r'"
  shows "rq_required_capability r = rq_required_capability r'" and "rq_capability r = rq_capability r'"
    and "rq_bound_policy_digest r = rq_bound_policy_digest r'" and "rq_effect_risk r = rq_effect_risk r'"
proof -
  let ?t3 = "\<lambda>r. option_run ''bound_policy_digest'' (\<lambda>d. d) (rq_bound_policy_digest r)
     @ option_run ''effect_risk'' show_risk (rq_effect_risk r)"
  let ?t2 = "\<lambda>r. (case rq_capability r of None \<Rightarrow> [] | Some c \<Rightarrow> capability_fields c) @ ?t3 r"
  have end_risk: "starts_without l (option_run ''effect_risk'' show_risk x)" if "l \<noteq> ''effect_risk''" for l x
    using that by (auto simp: option_run_def split: option.split)
  have t3: "starts_without l (?t3 r)" if "l \<noteq> ''bound_policy_digest''" "l \<noteq> ''effect_risk''" for l r
    using that end_risk by auto
  have t2: "starts_without ''required_capability'' (?t2 r)" for r
    using t3 [of "''required_capability''" r]
    by (cases "rq_capability r") (simp_all add: capability_fields_runs)
  have 1: "map_option show_capability (rq_required_capability r) = map_option show_capability (rq_required_capability r')"
    "?t2 r = ?t2 r'"
    using option_run_inject [OF eq [unfolded request_tail_def] t2 t2] by simp_all
  then show "rq_required_capability r = rq_required_capability r'"
    using option.inj_map [OF inj_show_capability] by (auto dest: injD)
  have "rq_capability r = rq_capability r' \<and> ?t3 r = ?t3 r'"
  proof (cases "rq_capability r"; cases "rq_capability r'")
    fix c d assume "rq_capability r = Some c" "rq_capability r' = Some d"
    then show ?thesis
      using 1(2) assms(2,3) capability_fields_inject [of c "?t3 r" d "?t3 r'"] by (simp add: request_wf_def)
  next
    fix c assume "rq_capability r = Some c" "rq_capability r' = None"
    then show ?thesis using 1(2) t3 [of "''capability_subject''" r']
      by (cases "?t3 r'") (auto simp: capability_fields_runs)
  next
    fix c assume "rq_capability r = None" "rq_capability r' = Some c"
    then show ?thesis using 1(2) t3 [of "''capability_subject''" r]
      by (cases "?t3 r") (auto simp: capability_fields_runs)
  qed (use 1(2) in simp)
  then have cap: "rq_capability r = rq_capability r'" and 2: "?t3 r = ?t3 r'" by simp_all
  show "rq_capability r = rq_capability r'" by (fact cap)
  have 3: "map_option (\<lambda>d. d) (rq_bound_policy_digest r) = map_option (\<lambda>d. d) (rq_bound_policy_digest r')"
    "option_run ''effect_risk'' show_risk (rq_effect_risk r) = option_run ''effect_risk'' show_risk (rq_effect_risk r')"
    using option_run_inject [OF 2] end_risk by simp_all
  then show "rq_bound_policy_digest r = rq_bound_policy_digest r'" by (simp add: option.map_ident)
  have "map_option show_risk (rq_effect_risk r) = map_option show_risk (rq_effect_risk r')"
    using 3(2) by (auto simp: option_run_def split: option.splits)
  then show "rq_effect_risk r = rq_effect_risk r'"
    using option.inj_map [OF inj_show_risk] by (auto dest: injD)
qed

lemma option_bytes_inject:
  assumes "option_bytes f x = option_bytes f y" and "pred_option (\<lambda>v. f v \<noteq> []) x" and "pred_option (\<lambda>v. f v \<noteq> []) y"
    and "\<And>v w. x = Some v \<Longrightarrow> y = Some w \<Longrightarrow> f v = f w \<Longrightarrow> v = w"
  shows "x = y"
  using assms by (auto simp: option_bytes_def split: option.splits)

lemma i128_bytes_not_Nil [simp]: "i128_bytes i \<noteq> []"
  by (simp add: i128_bytes_def del: be_bytes.simps)

text \<open>The fields in four pieces: a fixed head, three runs, a fixed middle and the optional tail.\<close>

definition request_head :: "policy_request \<Rightarrow> (string \<times> string) list" where
  "request_head r =
     [(''resource'', show_resource (rq_resource r)), (''input'', rq_input_digest r),
      (''principal'', rq_principal_id r), (''tenant'', rq_tenant_id r),
      (''authenticated_tenant'', rq_authenticated_tenant_id r),
      (''principal_active'', [u8_of_bool (rq_principal_active r)]), (''purpose'', rq_purpose r),
      (''project'', option_bytes (\<lambda>p. p) (rq_project_id r)),
      (''processor'', option_bytes (\<lambda>p. p) (rq_processor r))]"

definition request_mid :: "policy_request \<Rightarrow> (string \<times> string) list" where
  "request_mid r =
     [(''valid_at'', i128_bytes (rq_valid_at r)), (''valid_from'', i128_bytes (rq_valid_from r)),
        (''valid_until'', option_bytes i128_bytes (rq_valid_until r)),
        (''observed_at'', i128_bytes (rq_observed_at r)), (''observed_as_of'', i128_bytes (rq_observed_as_of r)),
        (''freshness_expires_at'', option_bytes i128_bytes (rq_freshness_expires_at r)),
        (''decision_expires_at'', i128_bytes (rq_decision_expires_at r)),
        (''classification'', show_classification (rq_classification r)),
        (''maximum_classification'', show_classification (rq_maximum_classification r)),
        (''lifecycle'', show_lifecycle (rq_lifecycle r)),
        (''instruction_authority'', show_authority (rq_instruction_authority r)),
        (''maximum_instruction_authority'', show_authority (rq_maximum_instruction_authority r)),
        (''flags'', request_flags r)]"

lemma request_fields_split:
  "request_fields r = request_head r
     @ each ''allowed_project'' (\<lambda>p. p) (rq_allowed_project_ids r)
     @ each ''allowed_purpose'' (\<lambda>p. p) (rq_allowed_purposes r)
     @ each ''allowed_processor'' (\<lambda>p. p) (rq_allowed_processors r)
     @ request_mid r @ request_tail r"
  unfolding request_fields_def request_head_def request_mid_def request_tail_def option_run_def
  by (rule refl)

lemma starts_without_request_mid: "l \<noteq> ''valid_at'' \<Longrightarrow> starts_without l (request_mid r @ fs)"
  by (simp add: request_mid_def starts_without_def)

lemma length_request_head: "length (request_head r) = 9"
  by (simp add: request_head_def)

lemma length_request_mid: "length (request_mid r) = 13"
  by (simp add: request_mid_def)

lemma request_head_inject:
  assumes "request_head r = request_head r'" and "request_wf r" and "request_wf r'"
  shows "rq_resource r = rq_resource r'" and "rq_input_digest r = rq_input_digest r'"
    and "rq_principal_id r = rq_principal_id r'" and "rq_tenant_id r = rq_tenant_id r'"
    and "rq_authenticated_tenant_id r = rq_authenticated_tenant_id r'"
    and "rq_principal_active r = rq_principal_active r'" and "rq_purpose r = rq_purpose r'"
    and "rq_project_id r = rq_project_id r'" and "rq_processor r = rq_processor r'"
proof -
  have all: "map snd (request_head r) = map snd (request_head r')" using assms(1) by (rule arg_cong)
  have eqs: "show_resource (rq_resource r) = show_resource (rq_resource r')"
    "rq_input_digest r = rq_input_digest r'" "rq_principal_id r = rq_principal_id r'"
    "rq_tenant_id r = rq_tenant_id r'" "rq_authenticated_tenant_id r = rq_authenticated_tenant_id r'"
    "rq_principal_active r = rq_principal_active r'" "rq_purpose r = rq_purpose r'"
    "option_bytes (\<lambda>p. p) (rq_project_id r) = option_bytes (\<lambda>p. p) (rq_project_id r')"
    "option_bytes (\<lambda>p. p) (rq_processor r) = option_bytes (\<lambda>p. p) (rq_processor r')"
    using all by (simp_all add: request_head_def)
  show "rq_resource r = rq_resource r'" using show_resource_inject [OF eqs(1)] .
  show "rq_input_digest r = rq_input_digest r'" "rq_principal_id r = rq_principal_id r'"
    "rq_tenant_id r = rq_tenant_id r'" "rq_authenticated_tenant_id r = rq_authenticated_tenant_id r'"
    "rq_principal_active r = rq_principal_active r'" "rq_purpose r = rq_purpose r'" by (fact eqs)+
  show "rq_project_id r = rq_project_id r'"
    using assms(2,3) by (intro option_bytes_inject [OF eqs(8)]) (auto simp: request_wf_def option.pred_set)
  show "rq_processor r = rq_processor r'"
    using assms(2,3) by (intro option_bytes_inject [OF eqs(9)]) (auto simp: request_wf_def option.pred_set)
qed

lemma timestamp_bytes_inject:
  "i128_bytes a = i128_bytes b \<Longrightarrow> timestamp_wf a \<Longrightarrow> timestamp_wf b \<Longrightarrow> a = b"
  using i128_bytes_inject by (auto simp: timestamp_wf_def)

lemma request_mid_inject:
  assumes "request_mid r = request_mid r'" and "request_wf r" and "request_wf r'"
  shows "rq_valid_at r = rq_valid_at r'" and "rq_valid_from r = rq_valid_from r'"
    and "rq_valid_until r = rq_valid_until r'" and "rq_observed_at r = rq_observed_at r'"
    and "rq_observed_as_of r = rq_observed_as_of r'"
    and "rq_freshness_expires_at r = rq_freshness_expires_at r'"
    and "rq_decision_expires_at r = rq_decision_expires_at r'"
    and "rq_classification r = rq_classification r'"
    and "rq_maximum_classification r = rq_maximum_classification r'"
    and "rq_lifecycle r = rq_lifecycle r'" and "rq_instruction_authority r = rq_instruction_authority r'"
    and "rq_maximum_instruction_authority r = rq_maximum_instruction_authority r'"
    and "request_flags r = request_flags r'"
proof -
  have all: "map snd (request_mid r) = map snd (request_mid r')" using assms(1) by (rule arg_cong)
  have opts: "rq_valid_until r = rq_valid_until r'"
    if "option_bytes i128_bytes (rq_valid_until r) = option_bytes i128_bytes (rq_valid_until r')"
    using assms(2,3) that by (intro option_bytes_inject [of i128_bytes])
      (auto simp: request_wf_def option.pred_set intro: timestamp_bytes_inject)
  have fresh: "rq_freshness_expires_at r = rq_freshness_expires_at r'"
    if "option_bytes i128_bytes (rq_freshness_expires_at r) = option_bytes i128_bytes (rq_freshness_expires_at r')"
    using assms(2,3) that by (intro option_bytes_inject [of i128_bytes])
      (auto simp: request_wf_def option.pred_set intro: timestamp_bytes_inject)
  show "rq_valid_at r = rq_valid_at r'" "rq_valid_from r = rq_valid_from r'"
    "rq_observed_at r = rq_observed_at r'" "rq_observed_as_of r = rq_observed_as_of r'"
    "rq_decision_expires_at r = rq_decision_expires_at r'"
    using all assms(2,3) by (auto simp: request_mid_def request_wf_def intro: timestamp_bytes_inject)
  show "rq_valid_until r = rq_valid_until r'" "rq_freshness_expires_at r = rq_freshness_expires_at r'"
    using all by (simp_all add: request_mid_def opts fresh)
  show "rq_classification r = rq_classification r'" "rq_maximum_classification r = rq_maximum_classification r'"
    "rq_lifecycle r = rq_lifecycle r'" "rq_instruction_authority r = rq_instruction_authority r'"
    "rq_maximum_instruction_authority r = rq_maximum_instruction_authority r'" "request_flags r = request_flags r'"
    using all by (simp_all add: request_mid_def show_classification_inject show_lifecycle_inject show_authority_inject)
qed

lemma request_fields_inject:
  assumes eq: "request_fields r = request_fields r'" and wf: "request_wf r" "request_wf r'"
  shows "r = r'"
proof -
  let ?s3 = "\<lambda>r. each ''allowed_processor'' (\<lambda>p. p) (rq_allowed_processors r) @ request_mid r @ request_tail r"
  let ?s2 = "\<lambda>r. each ''allowed_purpose'' (\<lambda>p. p) (rq_allowed_purposes r) @ ?s3 r"
  have 0: "request_head r = request_head r'"
    "each ''allowed_project'' (\<lambda>p. p) (rq_allowed_project_ids r) @ ?s2 r =
     each ''allowed_project'' (\<lambda>p. p) (rq_allowed_project_ids r') @ ?s2 r'"
    using eq by (simp_all add: request_fields_split length_request_head)
  have 1: "rq_allowed_project_ids r = rq_allowed_project_ids r'" "?s2 r = ?s2 r'"
    using each_inject [OF 0(2) _ _ inj_same] by (simp_all add: starts_without_request_mid)
  have 2: "rq_allowed_purposes r = rq_allowed_purposes r'" "?s3 r = ?s3 r'"
    using each_inject [OF 1(2) _ _ inj_same] by (simp_all add: starts_without_request_mid)
  have 3: "rq_allowed_processors r = rq_allowed_processors r'"
    "request_mid r @ request_tail r = request_mid r' @ request_tail r'"
    using each_inject [OF 2(2) _ _ inj_same] by (simp_all add: starts_without_request_mid)
  have 4: "request_mid r = request_mid r'" "request_tail r = request_tail r'"
    using 3(2) by (simp_all add: length_request_mid)
  show ?thesis
    using request_head_inject [OF 0(1) wf] 1(1) 2(1) 3(1) request_mid_inject [OF 4(1) wf]
      request_tail_inject [OF 4(2) wf]
    by (intro policy_request.equality) (simp_all add: request_flags_def)
qed

subsection \<open>Digests without collisions\<close>

definition request_preimage :: "policy_request \<Rightarrow> string" where
  "request_preimage r = ''CIGAR-POLICY-REQUEST'' @ NUL @ ''v1'' @ NUL @ hash_fields (request_fields r)"

definition cache_key_preimage :: "policy_env \<Rightarrow> policy_request \<Rightarrow> string" where
  "cache_key_preimage E r =
     ''CIGAR-POLICY-CACHE-KEY'' @ NUL @ ''v1'' @ NUL @ pe_sha256 E (request_preimage r) @ NUL"

text \<open>No two of the byte strings that the digests of these requests hash collide.\<close>

definition collision_free :: "policy_env \<Rightarrow> policy_request set \<Rightarrow> bool" where
  "collision_free E R \<longleftrightarrow> inj_on (pe_sha256 E) (request_preimage ` R \<union> cache_key_preimage E ` R)"

lemma hex_inject: "hex a = hex b \<Longrightarrow> a = b"
  by (metis unhex_pairs_hex)

lemma digest_parts_InrD:
  "digest_parts E d ps = Inr x \<Longrightarrow> x = ''1220'' @ hex (pe_sha256 E (d @ concat (map (\<lambda>p. p @ NUL) ps)))"
  by (auto simp: digest_parts_def content_digest_new_def result_simps)

lemma request_digest_InrD:
  "request_digest E r = Inr x \<Longrightarrow> x = ''1220'' @ hex (pe_sha256 E (cache_key_preimage E r))"
  unfolding request_digest_def request_preimage_def [symmetric]
  by (drule digest_parts_InrD) (simp add: cache_key_preimage_def)

lemma sized_each: "(\<forall>s \<in> fset S. sized (f s)) \<Longrightarrow> sized l \<Longrightarrow>
  list_all (\<lambda>f. sized (fst f) \<and> sized (snd f)) (each l f S)"
  by (auto simp: each_def list_all_iff)

lemma sized_show_resource: "sized (show_resource a)"
  by (cases a) (simp_all add: sized_def)

lemma sized_show_classification: "sized (show_classification a)"
  by (cases a) (simp_all add: sized_def)

lemma sized_show_lifecycle: "sized (show_lifecycle a)"
  by (cases a) (simp_all add: sized_def)

lemma sized_show_authority: "sized (show_authority a)"
  by (cases a) (simp_all add: sized_def)

lemma sized_show_risk: "sized (show_risk a)"
  by (cases a) (simp_all add: sized_def)

lemma sized_show_capability: "sized (show_capability a)"
  by (cases a) (simp_all add: sized_def)

lemmas sized_show = sized_show_resource sized_show_classification sized_show_lifecycle
  sized_show_authority sized_show_risk sized_show_capability

lemma sized_i128 [simp]: "sized (i128_bytes i)"
  by (simp add: sized_def i128_bytes_def del: be_bytes.simps)

lemma sized_literals [simp]: "length s \<le> 64 \<Longrightarrow> sized s"
  by (simp add: sized_def)

lemma sized_option_bytes: "pred_option (\<lambda>v. sized (f v)) x \<Longrightarrow> sized (option_bytes f x)"
  by (cases x) (simp_all add: option_bytes_def)

lemma request_fields_sized:
  assumes "request_wf r"
  shows "list_all (\<lambda>f. sized (fst f) \<and> sized (snd f)) (request_fields r)"
proof -
  have head: "list_all (\<lambda>f. sized (fst f) \<and> sized (snd f)) (request_head r)"
    using assms sized_option_bytes [of "\<lambda>p. p" "rq_project_id r"] sized_option_bytes [of "\<lambda>p. p" "rq_processor r"]
    by (simp add: request_head_def request_wf_def sized_show option.pred_set)
  have mid: "list_all (\<lambda>f. sized (fst f) \<and> sized (snd f)) (request_mid r)"
    by (simp add: request_mid_def sized_show sized_option_bytes request_flags_def option.pred_set)
  have tail: "list_all (\<lambda>f. sized (fst f) \<and> sized (snd f)) (request_tail r)"
    using assms by (auto simp: request_tail_def option_run_def capability_fields_runs request_wf_def
        capability_wf_def sized_show sized_each option.pred_set split: option.splits)
  show ?thesis
    using assms head mid tail by (simp add: request_fields_split request_wf_def sized_each)
qed

lemma request_digest_inject:
  assumes free: "collision_free E R" and mem: "r \<in> R" "r' \<in> R" and wf: "request_wf r" "request_wf r'"
    and eq: "request_digest E r = Inr x" "request_digest E r' = Inr x"
  shows "r = r'"
proof -
  have "hex (pe_sha256 E (cache_key_preimage E r)) = hex (pe_sha256 E (cache_key_preimage E r'))"
    using request_digest_InrD [OF eq(1)] request_digest_InrD [OF eq(2)] by simp
  then have "pe_sha256 E (cache_key_preimage E r) = pe_sha256 E (cache_key_preimage E r')" by (rule hex_inject)
  then have "cache_key_preimage E r = cache_key_preimage E r'"
    using free mem unfolding collision_free_def by (auto dest: inj_onD)
  then have "pe_sha256 E (request_preimage r) = pe_sha256 E (request_preimage r')"
    by (simp add: cache_key_preimage_def)
  then have "request_preimage r = request_preimage r'"
    using free mem unfolding collision_free_def by (auto dest: inj_onD)
  then have "hash_fields (request_fields r) = hash_fields (request_fields r')"
    by (simp add: request_preimage_def)
  then have "request_fields r = request_fields r'"
    using hash_fields_inject request_fields_sized wf by blast
  then show ?thesis using wf by (rule request_fields_inject)
qed

lemma digest_parts_total:
  assumes "\<And>m. length (pe_sha256 E m) = 32"
  shows "digest_parts E d ps = Inr (''1220'' @ hex (pe_sha256 E (d @ concat (map (\<lambda>p. p @ NUL) ps))))"
proof -
  have "list_all (\<lambda>c. is_ascii_digit c \<or> is_lower_hex_letter c) (''1220'' @ hex m)" for m
    using list_all_hex [of m] by (simp add: byte_defs)
  then show ?thesis
    by (simp add: digest_parts_def content_digest_new_def validate_multihash_def assms)
qed

end
