(* ===== verification/Policy_Rules.thy ===== *)
theory Policy_Rules
  imports Policy_Contract "HOL-Library.Product_Lexorder" "HOL-Library.Multiset"
begin

text \<open>
  Compilation of a rule profile and evaluation of a request (\<open>cigar-policy/src/engine.rs\<close>, from
  \<open>compile_rules\<close> to \<open>decision\<close>). Rules are ordered topologically by their dependencies, ties
  broken by priority and identifier; a request passes an ordered list of hard gates and is then
  subject to every matching rule.
\<close>

record compiled_snapshot =
  cs_descriptor :: policy_snapshot
  cs_rules :: "policy_rule list"

text \<open>The revocation sets of the engine state.\<close>

record revocations =
  rv_principals :: "record_id fset"
  rv_grants :: "record_id fset"
  rv_resources :: "content_digest fset"

subsection \<open>Validation\<close>

text \<open>\<open>Option::is_some_and\<close>\<close>

definition is_some_and :: "'a option \<Rightarrow> ('a \<Rightarrow> bool) \<Rightarrow> bool" where
  "is_some_and x p = (case x of None \<Rightarrow> False | Some v \<Rightarrow> p v)"

definition text_valid :: "string \<Rightarrow> bool" where
  "text_valid v \<longleftrightarrow> v \<noteq> [] \<and> length v \<le> MAX_POLICY_TEXT_BYTES \<and> \<not> list_ex is_ascii_control v"

fun contains_double_slash :: "string \<Rightarrow> bool" where
  "contains_double_slash (a # b # s) \<longleftrightarrow> (a = CHR ''/'' \<and> b = CHR ''/'') \<or> contains_double_slash (b # s)"
| "contains_double_slash _ \<longleftrightarrow> False"

definition starts_with_slash :: "string \<Rightarrow> bool" where
  "starts_with_slash s \<longleftrightarrow> (case s of c # _ \<Rightarrow> c = CHR ''/'' | [] \<Rightarrow> False)"

definition validate_rule :: "policy_rule \<Rightarrow> (policy_error, unit) result" where
  "validate_rule r =
     (if \<not> text_valid (pr_id r)
         \<or> fcard (pr_depends_on r) > MAX_POLICY_SELECTORS
         \<or> fcard (pr_resources r) > MAX_POLICY_SELECTORS
         \<or> fcard (pr_principal_ids r) > MAX_POLICY_SELECTORS
         \<or> fcard (pr_tenant_ids r) > MAX_POLICY_SELECTORS
         \<or> fcard (pr_project_ids r) > MAX_POLICY_SELECTORS
         \<or> fcard (pr_purposes r) > MAX_POLICY_SELECTORS
         \<or> fcard (pr_processors r) > MAX_POLICY_SELECTORS
         \<or> fcard (pr_redaction_paths r) > MAX_POLICY_SELECTORS
         \<or> fcard (pr_conditions r) > MAX_POLICY_SELECTORS
         \<or> (pr_action r = Redact \<and> pr_redaction_paths r = {||})
         \<or> (pr_action r \<noteq> Redact \<and> pr_redaction_paths r \<noteq> {||})
         \<or> fBex (pr_depends_on r |\<union>| pr_purposes r |\<union>| pr_processors r |\<union>| pr_conditions r)
              (\<lambda>v. \<not> text_valid v)
         \<or> fBex (pr_redaction_paths r)
              (\<lambda>p. \<not> text_valid p \<or> \<not> starts_with_slash p \<or> contains_double_slash p)
      then Inl PInvalidInput else Inr ())"

definition validate_request :: "policy_resource \<Rightarrow> policy_request \<Rightarrow> (policy_error, unit) result" where
  "validate_request expected r =
     (if rq_resource r \<noteq> expected
         \<or> \<not> text_valid (rq_purpose r)
         \<or> is_some_and (rq_processor r) (\<lambda>p. \<not> text_valid p)
         \<or> fcard (rq_allowed_project_ids r) > MAX_POLICY_SELECTORS
         \<or> fcard (rq_allowed_purposes r) > MAX_POLICY_SELECTORS
         \<or> fcard (rq_allowed_processors r) > MAX_POLICY_SELECTORS
         \<or> rq_decision_expires_at r \<le> rq_observed_as_of r
      then Inl PInvalidInput else Inr ())"

subsection \<open>Compilation\<close>

fun index_rules ::
    "policy_rule list \<Rightarrow> (string, policy_rule) btree \<Rightarrow> (policy_error, (string, policy_rule) btree) result" where
  "index_rules [] by_id = Inr by_id"
| "index_rules (r # rs) by_id =
     rbind (validate_rule r) (\<lambda>_.
       if bt_get by_id (pr_id r) \<noteq> None then Inl PInvalidRuleGraph
       else index_rules rs (bt_insert (pr_id r) r by_id))"

definition dangling :: "(string, policy_rule) btree \<Rightarrow> policy_rule \<Rightarrow> bool" where
  "dangling by_id r \<longleftrightarrow> fBex (pr_depends_on r) (\<lambda>d. bt_get by_id d = None \<or> d = pr_id r)"

definition ready_rules :: "(string, policy_rule) btree \<Rightarrow> string list \<Rightarrow> string fset \<Rightarrow> (int \<times> string) list" where
  "ready_rules by_id remaining emitted =
     sort (List.map_filter (\<lambda>i. case bt_get by_id i of
         None \<Rightarrow> None
       | Some r \<Rightarrow> if pr_depends_on r |\<subseteq>| emitted then Some (pr_priority r, i) else None) remaining)"

lemma ready_rules_remaining: "(p, i) \<in> set (ready_rules by_id remaining emitted) \<Longrightarrow> i \<in> set remaining"
  by (auto simp: ready_rules_def List.map_filter_def split: option.splits if_splits)

text \<open>
  The main loop: \<open>remaining\<close> lists the identifiers not yet emitted in ascending order. Each round
  emits the first ready rule, so the loop ends.
\<close>

function emit_rules ::
    "(string, policy_rule) btree \<Rightarrow> string list \<Rightarrow> string fset \<Rightarrow> (policy_error, policy_rule list) result" where
  "emit_rules by_id remaining emitted =
     (if remaining = [] then Inr []
      else case ready_rules by_id remaining emitted of
             [] \<Rightarrow> Inl PInvalidRuleGraph
           | (_, i) # _ \<Rightarrow>
               (case bt_get by_id i of
                  None \<Rightarrow> Inl PInvalidRuleGraph
                | Some r \<Rightarrow>
                    rbind (emit_rules by_id (filter (\<lambda>j. j \<noteq> i) remaining) (finsert i emitted))
                      (\<lambda>ordered. Inr (r # ordered))))"
  by pat_completeness auto
termination
proof (relation "measure (\<lambda>(_, remaining, _). length remaining)", goal_cases)
  case (2 by_id remaining emitted x xs p i r)
  then have "i \<in> set remaining"
    using ready_rules_remaining [of p i by_id remaining emitted] by simp
  then show ?case by (auto intro: length_filter_less)
qed simp

declare emit_rules.simps [simp del]

definition compile_rules :: "policy_profile \<Rightarrow> (policy_error, policy_rule list) result" where
  "compile_rules profile =
     (if pp_schema_version profile \<noteq> ''cigar.policy-profile.v1'' \<or> pp_revision profile = 0
      then Inl PInvalidInput
      else if length (pp_rules profile) > MAX_POLICY_RULES then Inl PLimitExceeded
      else rbind (index_rules (pp_rules profile) []) (\<lambda>by_id.
        if list_ex (dangling by_id) (bt_values by_id) then Inl PInvalidRuleGraph
        else emit_rules by_id (bt_keys by_id) {||}))"

subsection \<open>Evaluation\<close>

definition capability_allows :: "policy_request \<Rightarrow> bool" where
  "capability_allows r =
     (case (rq_required_capability r, rq_capability r) of
        (None, _) \<Rightarrow> True
      | (Some _, None) \<Rightarrow> False
      | (Some required, Some c) \<Rightarrow>
          cc_subject_id c = rq_principal_id r \<and> cc_expires_at c > rq_observed_as_of r \<and>
          required |\<in>| cc_capabilities c)"

definition rule_matches :: "policy_rule \<Rightarrow> policy_request \<Rightarrow> bool" where
  "rule_matches rule r \<longleftrightarrow>
     (pr_resources rule = {||} \<or> rq_resource r |\<in>| pr_resources rule)
     \<and> (pr_principal_ids rule = {||} \<or> rq_principal_id r |\<in>| pr_principal_ids rule)
     \<and> (pr_tenant_ids rule = {||} \<or> rq_tenant_id r |\<in>| pr_tenant_ids rule)
     \<and> (pr_project_ids rule = {||} \<or> is_some_and (rq_project_id r) (\<lambda>p. p |\<in>| pr_project_ids rule))
     \<and> (pr_purposes rule = {||} \<or> rq_purpose r |\<in>| pr_purposes rule)
     \<and> (pr_processors rule = {||} \<or> is_some_and (rq_processor r) (\<lambda>p. p |\<in>| pr_processors rule))
     \<and> (case pr_classification_at_least rule of None \<Rightarrow> True | Some m \<Rightarrow> rq_classification r \<ge> m)"

definition decision_expiry :: "policy_request \<Rightarrow> timestamp" where
  "decision_expiry r =
     Min (set (List.map_filter (\<lambda>x. x)
       [rq_valid_until r, rq_freshness_expires_at r, map_option cc_expires_at (rq_capability r),
        Some (rq_decision_expires_at r)]))"

definition decision ::
    "compiled_snapshot \<Rightarrow> policy_request \<Rightarrow> policy_outcome \<Rightarrow> policy_reason \<Rightarrow> disclosure_class
      \<Rightarrow> string fset \<Rightarrow> string fset \<Rightarrow> policy_decision" where
  "decision snapshot r outcome reason disclosure redactions conditions =
     \<lparr>pd_outcome = outcome, pd_reason = reason, pd_input_digest = rq_input_digest r,
      pd_policy_digest = ps_policy_digest (cs_descriptor snapshot),
      pd_redaction_paths = redactions, pd_conditions = conditions,
      pd_expires_at = decision_expiry r, pd_disclosure = disclosure,
      pd_timing_class = (if outcome = Deny \<or> outcome = Quarantine then Denied else Eligible)\<rparr>"

definition hard_deny :: "compiled_snapshot \<Rightarrow> policy_request \<Rightarrow> policy_reason \<Rightarrow> policy_decision" where
  "hard_deny snapshot r reason = decision snapshot r Deny reason DeniedExistence {||} {||}"

definition revoked :: "revocations \<Rightarrow> policy_request \<Rightarrow> bool" where
  "revoked rv r \<longleftrightarrow> rq_principal_id r |\<in>| rv_principals rv \<or> rq_input_digest r |\<in>| rv_resources rv \<or>
     is_some_and (Option.bind (rq_capability r) cc_grant_id) (\<lambda>g. g |\<in>| rv_grants rv)"

text \<open>The first hard gate that a request fails decides it.\<close>

definition hard_gate :: "compiled_snapshot \<Rightarrow> policy_request \<Rightarrow> revocations \<Rightarrow> policy_decision option" where
  "hard_gate snapshot r rv =
     (if revoked rv r then
        Some (decision snapshot r Deny Revoked DeniedExistence {||} {||})
      else if rq_resource r \<in> {Bundle, Handoff, Effect} \<and>
              rq_bound_policy_digest r \<noteq> Some (ps_policy_digest (cs_descriptor snapshot)) then
        Some (decision snapshot r RequireRefresh PolicyChanged CallerVisible {||} {||})
      else if rq_tenant_id r \<noteq> rq_authenticated_tenant_id r then
        Some (hard_deny snapshot r TenantMismatch)
      else if is_some_and (rq_project_id r) (\<lambda>p. p |\<notin>| rq_allowed_project_ids r \<or>
                is_some_and (rq_capability r) (\<lambda>c. p |\<notin>| cc_project_ids c)) then
        Some (hard_deny snapshot r ScopeDenied)
      else if \<not> rq_principal_active r then
        Some (hard_deny snapshot r PrincipalDenied)
      else if \<not> capability_allows r then
        Some (hard_deny snapshot r CapabilityDenied)
      else if ''*'' |\<notin>| rq_allowed_purposes r \<and> rq_purpose r |\<notin>| rq_allowed_purposes r then
        Some (hard_deny snapshot r PurposeDenied)
      else if is_some_and (rq_processor r) (\<lambda>p.
                (''*'' |\<notin>| rq_allowed_processors r \<and> p |\<notin>| rq_allowed_processors r) \<or>
                is_some_and (rq_capability r) (\<lambda>c. cc_processors c \<noteq> {||} \<and> p |\<notin>| cc_processors c)) then
        Some (hard_deny snapshot r ProcessorDenied)
      else if rq_classification r > rq_maximum_classification r \<or> \<not> rq_residency_allowed r \<or>
              \<not> rq_egress_allowed r then
        Some (hard_deny snapshot r ClassificationDenied)
      else if \<not> rq_integrity_verified r \<or> rq_lifecycle r \<noteq> Active then
        Some (decision snapshot r
          (if rq_lifecycle r = Quarantined \<or> \<not> rq_integrity_verified r then Quarantine else Deny)
          IntegrityDenied DeniedExistence {||} {||})
      else if rq_valid_at r < rq_valid_from r \<or>
              is_some_and (rq_valid_until r) (\<lambda>u. rq_valid_at r \<ge> u) \<or>
              rq_observed_at r > rq_observed_as_of r \<or>
              is_some_and (rq_freshness_expires_at r) (\<lambda>e. rq_observed_as_of r \<ge> e) then
        Some (hard_deny snapshot r TemporalDenied)
      else if rq_instruction_authority r > rq_maximum_instruction_authority r then
        Some (hard_deny snapshot r InstructionAuthorityDenied)
      else if rq_excluded r \<or> \<not> rq_modality_supported r then
        Some (hard_deny snapshot r ContractDenied)
      else if rq_resource r = Effect \<and>
              (\<not> rq_effect_constraints_satisfied r \<or>
               rq_fencing_required r \<and> \<not> rq_fencing_verified r \<or>
               rq_effect_risk r \<in> {Some High, Some Critical} \<and> \<not> rq_effect_approved r) then
        Some (decision snapshot r (if rq_effect_approved r then Deny else RequireApproval)
          EffectDenied CallerVisible {||} {||})
      else None)"

text \<open>The loop over the rules: outcome, redactions, conditions and whether any rule matched.\<close>

definition apply_rule ::
    "policy_request \<Rightarrow> policy_outcome \<times> string fset \<times> string fset \<times> bool \<Rightarrow> policy_rule
      \<Rightarrow> policy_outcome \<times> string fset \<times> string fset \<times> bool" where
  "apply_rule r = (\<lambda>(outcome, redactions, conditions, matched) rule.
     if rule_matches rule r then
       (min outcome (pr_action rule),
        if pr_action rule = Redact then redactions |\<union>| pr_redaction_paths rule else redactions,
        conditions |\<union>| pr_conditions rule, True)
     else (outcome, redactions, conditions, matched))"

definition apply_rules :: "compiled_snapshot \<Rightarrow> policy_request \<Rightarrow> policy_decision" where
  "apply_rules snapshot r =
     (let (outcome, redactions, conditions, matched) =
            foldl (apply_rule r) (Allow, {||}, {||}, False) (cs_rules snapshot);
          reason = (if matched \<and> outcome \<noteq> Allow then DeclarativeRule else Allowed);
          disclosure = (if outcome = Deny \<or> outcome = Quarantine then DeniedExistence else CallerVisible)
      in decision snapshot r outcome reason disclosure redactions conditions)"

definition evaluate ::
    "compiled_snapshot \<Rightarrow> policy_request \<Rightarrow> revocations \<Rightarrow> (policy_error, policy_decision) result" where
  "evaluate snapshot r rv =
     (case hard_gate snapshot r rv of Some d \<Rightarrow> Inr d | None \<Rightarrow> Inr (apply_rules snapshot r))"

lemma is_some_and_iff [simp]: "is_some_and x p \<longleftrightarrow> (\<exists>v. x = Some v \<and> p v)"
  by (simp add: is_some_and_def split: option.split)

subsection \<open>The rule order\<close>

text \<open>An order of rules is admissible if every rule comes after the rules it depends on.\<close>

fun deps_before :: "string set \<Rightarrow> policy_rule list \<Rightarrow> bool" where
  "deps_before E [] \<longleftrightarrow> True"
| "deps_before E (r # rs) \<longleftrightarrow> fset (pr_depends_on r) \<subseteq> E \<and> deps_before (insert (pr_id r) E) rs"

lemma set_map_filter_iff: "y \<in> set (List.map_filter f xs) \<longleftrightarrow> (\<exists>x \<in> set xs. f x = Some y)"
  by (force simp: List.map_filter_def)

lemma ready_rules_iff:
  "(p, i) \<in> set (ready_rules m remaining emitted) \<longleftrightarrow>
     i \<in> set remaining \<and> (\<exists>r. bt_get m i = Some r \<and> pr_depends_on r |\<subseteq>| emitted \<and> p = pr_priority r)"
  by (force simp: ready_rules_def set_map_filter_iff split: option.splits if_splits)

text \<open>The index maps every identifier to a rule with that identifier.\<close>

definition index_ok :: "(string, policy_rule) btree \<Rightarrow> bool" where
  "index_ok m \<longleftrightarrow> bt_invar m \<and> (\<forall>i r. bt_get m i = Some r \<longrightarrow> pr_id r = i)"

lemma emit_rules_sound:
  assumes "emit_rules m remaining emitted = Inr rs" and "index_ok m" and "distinct remaining"
  shows "deps_before (fset emitted) rs \<and> set (map pr_id rs) = set remaining \<and>
    distinct (map pr_id rs) \<and> (\<forall>r \<in> set rs. bt_get m (pr_id r) = Some r)"
  using assms
proof (induction m remaining emitted arbitrary: rs rule: emit_rules.induct)
  case (1 m remaining emitted)
  show ?case
  proof (cases "remaining = []")
    case True
    with "1.prems" show ?thesis by (simp add: emit_rules.simps)
  next
    case False
    then obtain p i ready r rest where ready: "ready_rules m remaining emitted = (p, i) # ready"
      and r: "bt_get m i = Some r"
      and rest: "emit_rules m (filter (\<lambda>j. j \<noteq> i) remaining) (finsert i emitted) = Inr rest"
      and rs: "rs = r # rest"
      using "1.prems"(1) unfolding emit_rules.simps [of m remaining]
      by (auto simp: result_simps split: list.splits option.splits)
    have id: "pr_id r = i" using "1.prems"(2) r by (simp add: index_ok_def)
    have i: "i \<in> set remaining" and dep: "pr_depends_on r |\<subseteq>| emitted"
      using ready_rules_iff [of p i m remaining emitted] ready r by auto
    have "deps_before (fset (finsert i emitted)) rest \<and> set (map pr_id rest) = set (filter (\<lambda>j. j \<noteq> i) remaining) \<and>
      distinct (map pr_id rest) \<and> (\<forall>r \<in> set rest. bt_get m (pr_id r) = Some r)"
      using "1.IH" [OF False ready refl r rest] "1.prems"(2,3) by simp
    with i dep id r show ?thesis by (auto simp: rs less_eq_fset.rep_eq)
  qed
qed

lemma emit_rules_complete:
  assumes "deps_before (fset emitted) ys" and "set (map pr_id ys) = set remaining"
    and "\<forall>r \<in> set ys. bt_get m (pr_id r) = Some r" and "index_ok m"
  shows "is_ok (emit_rules m remaining emitted)"
  using assms
proof (induction m remaining emitted arbitrary: ys rule: emit_rules.induct)
  case (1 m remaining emitted)
  show ?case
  proof (cases "remaining = []")
    case True
    then show ?thesis by (simp add: emit_rules.simps)
  next
    case False
    with "1.prems"(2) obtain y zs where ys: "ys = y # zs" by (cases ys) auto
    have "(pr_priority y, pr_id y) \<in> set (ready_rules m remaining emitted)"
      using "1.prems" ys by (auto simp: ready_rules_iff less_eq_fset.rep_eq)
    then obtain p i ready where ready: "ready_rules m remaining emitted = (p, i) # ready"
      by (cases "ready_rules m remaining emitted") auto
    then obtain r where r: "bt_get m i = Some r" and i: "i \<in> set remaining"
      using ready_rules_iff [of p i m remaining emitted] by auto
    have id: "pr_id r = i" using "1.prems"(4) r by (simp add: index_ok_def)
    have drop: "deps_before (insert i E) (filter (\<lambda>r. pr_id r \<noteq> i) rs)" if "deps_before E rs" for E rs
      using that
    proof (induction E rs rule: deps_before.induct)
      case (2 E r rs)
      then show ?case by (auto simp: insert_commute)
    qed simp
    have "is_ok (emit_rules m (filter (\<lambda>j. j \<noteq> i) remaining) (finsert i emitted))"
      using "1.prems" drop [OF "1.prems"(1)]
      by (intro "1.IH" [OF False ready refl r, of "filter (\<lambda>r. pr_id r \<noteq> i) ys"]) auto
    then show ?thesis using False ready r
      by (auto simp: emit_rules.simps [of m remaining] result_simps)
  qed
qed

lemma index_rules_spec:
  assumes "index_ok m"
  shows "index_rules rs m = Inr m' \<longleftrightarrow>
    list_all (\<lambda>r. validate_rule r = Inr ()) rs \<and> distinct (map pr_id rs) \<and>
    (\<forall>r \<in> set rs. bt_get m (pr_id r) = None) \<and> m' = foldl (\<lambda>m r. bt_insert (pr_id r) r m) m rs"
  using assms
proof (induction rs m rule: index_rules.induct)
  case (2 r rs m)
  have "index_ok (bt_insert (pr_id r) r m)"
    using "2.prems" by (auto simp: index_ok_def bt_invar_insert bt_get_insert)
  moreover have "(\<forall>ra \<in> set rs. bt_get (bt_insert (pr_id r) r m) (pr_id ra) = None) \<longleftrightarrow>
      pr_id r \<notin> pr_id ` set rs \<and> (\<forall>ra \<in> set rs. bt_get m (pr_id ra) = None)"
    by (simp add: bt_get_insert image_iff) metis
  ultimately show ?case using 2 by (auto simp: result_simps)
qed auto

lemma index_fold:
  assumes "index_ok m" and "distinct (map pr_id rs)" and "\<forall>r \<in> set rs. bt_get m (pr_id r) = None"
  shows "index_ok (foldl (\<lambda>m r. bt_insert (pr_id r) r m) m rs) \<and>
    (\<forall>i r. bt_get (foldl (\<lambda>m r. bt_insert (pr_id r) r m) m rs) i = Some r \<longleftrightarrow>
       bt_get m i = Some r \<or> (r \<in> set rs \<and> pr_id r = i))"
  using assms
proof (induction rs arbitrary: m)
  case (Cons r rs)
  have "index_ok (bt_insert (pr_id r) r m)"
    using Cons.prems by (auto simp: index_ok_def bt_invar_insert bt_get_insert)
  moreover have "\<forall>ra \<in> set rs. bt_get (bt_insert (pr_id r) r m) (pr_id ra) = None"
    using Cons.prems by (auto simp: bt_get_insert rev_image_eqI)
  moreover have "bt_get (bt_insert (pr_id r) r m) i = Some x \<longleftrightarrow> bt_get m i = Some x \<or> (x = r \<and> pr_id x = i)" for i x
    using Cons.prems(3) by (auto simp: bt_get_insert)
  ultimately show ?case using Cons.prems Cons.IH [of "bt_insert (pr_id r) r m"] by auto
qed simp

lemma deps_before_not_dangling:
  assumes "deps_before E rs" and "distinct (map pr_id rs)" and "r \<in> set rs" and "E \<inter> pr_id ` set rs = {}"
  shows "fset (pr_depends_on r) \<subseteq> E \<union> pr_id ` set rs \<and> pr_id r \<notin> fset (pr_depends_on r)"
  using assms
proof (induction E rs rule: deps_before.induct)
  case (2 E x rs)
  show ?case
  proof (cases "r = x")
    case True
    with 2(2,5) show ?thesis by auto
  next
    case False
    then have "fset (pr_depends_on r) \<subseteq> insert (pr_id x) E \<union> pr_id ` set rs \<and> pr_id r \<notin> fset (pr_depends_on r)"
      using 2(2-5) by (intro 2(1)) auto
    then show ?thesis by auto
  qed
qed simp

lemma index_ok_Nil: "index_ok []"
  by (simp add: index_ok_def)

lemma compile_rules_sound:
  assumes c: "compile_rules profile = Inr rules"
  shows "mset rules = mset (pp_rules profile) \<and> deps_before {} rules \<and>
    distinct (map pr_id (pp_rules profile)) \<and>
    list_all (\<lambda>r. validate_rule r = Inr ()) (pp_rules profile)"
proof -
  let ?rs = "pp_rules profile"
  obtain m where m: "index_rules ?rs [] = Inr m" and emit: "emit_rules m (bt_keys m) {||} = Inr rules"
    using c by (auto simp: compile_rules_def result_simps split: if_splits)
  then have d: "distinct (map pr_id ?rs)" and v: "list_all (\<lambda>r. validate_rule r = Inr ()) ?rs"
    and mm: "m = foldl (\<lambda>m r. bt_insert (pr_id r) r m) [] ?rs"
    using index_rules_spec [OF index_ok_Nil, of ?rs m] by auto
  have im: "index_ok m" "\<And>i r. bt_get m i = Some r \<longleftrightarrow> r \<in> set ?rs \<and> pr_id r = i"
    using index_fold [OF index_ok_Nil d] mm by auto
  have "distinct (bt_keys m)" using im(1) bt_invar_distinct by (auto simp: index_ok_def bt_keys_def)
  note e = emit_rules_sound [OF emit im(1) this]
  have "r \<in> set rules" if "r \<in> set ?rs" for r
  proof -
    have r: "bt_get m (pr_id r) = Some r" using im(2) that by blast
    then have "pr_id r \<in> set (bt_keys m)" by (force simp: bt_keys_def dest: map_of_SomeD)
    then have "pr_id r \<in> pr_id ` set rules" using e by simp
    then obtain r' where "r' \<in> set rules" "pr_id r' = pr_id r" by (metis imageE)
    then show "r \<in> set rules" using e r by (metis option.inject)
  qed
  moreover have "set rules \<subseteq> set ?rs" using e im(2) by blast
  ultimately have "set rules = set ?rs" by blast
  then have "mset rules = mset ?rs"
    using e d by (intro set_eq_iff_mset_eq_distinct [THEN iffD1]) (auto simp: distinct_map)
  with e d v show ?thesis by simp
qed

lemma compile_rules_complete:
  assumes hdr: "pp_schema_version profile = ''cigar.policy-profile.v1''" "pp_revision profile \<noteq> 0"
      "length (pp_rules profile) \<le> MAX_POLICY_RULES"
    and v: "list_all (\<lambda>r. validate_rule r = Inr ()) (pp_rules profile)"
    and d: "distinct (map pr_id (pp_rules profile))"
    and order: "mset order = mset (pp_rules profile)" "deps_before {} order"
  shows "is_ok (compile_rules profile)"
proof -
  let ?rs = "pp_rules profile"
  let ?m = "foldl (\<lambda>m r. bt_insert (pr_id r) r m) [] ?rs"
  have idx: "index_rules ?rs [] = Inr ?m" using index_rules_spec [OF index_ok_Nil] v d by simp
  have im: "index_ok ?m" "\<And>i r. bt_get ?m i = Some r \<longleftrightarrow> r \<in> set ?rs \<and> pr_id r = i"
    using index_fold [OF index_ok_Nil d] by auto
  have so: "set order = set ?rs" using order(1) by (rule mset_eq_setD)
  have keys: "set (map pr_id order) = set (bt_keys ?m)"
    using so im(2) by (force simp: bt_keys_def image_iff dom_map_of_conv_image_fst [symmetric] dom_def)
  have d': "distinct (map pr_id order)" using order(1) d by (metis mset_eq_imp_distinct_iff mset_map)
  have "\<not> dangling ?m r" if "r \<in> set ?rs" for r
    using deps_before_not_dangling [OF order(2) d', of r] that so im(2) keys
    by (force simp: dangling_def map_of_eq_None_iff bt_keys_def)
  then have "\<not> list_ex (dangling ?m) (bt_values ?m)"
    using im by (auto simp: list_ex_iff bt_values_def index_ok_def bt.lookup_eq_Some_iff)
  moreover have "is_ok (emit_rules ?m (bt_keys ?m) {||})"
    using order(2) keys so im by (intro emit_rules_complete [where ys = order]) auto
  ultimately show ?thesis using hdr idx by (simp add: compile_rules_def)
qed

text \<open>
  Compilation orders rules topologically and never loses one: it succeeds exactly when the
  profile header is valid, the rules are valid, their identifiers are distinct, and some order
  places every rule after all the rules it depends on (so a missing dependency or a cycle is
  rejected and nothing else is); the result is such an order of exactly the profile's rules.
\<close>

theorem compile_rules_correct:
  "(is_ok (compile_rules profile) \<longleftrightarrow>
      pp_schema_version profile = ''cigar.policy-profile.v1'' \<and> pp_revision profile \<noteq> 0 \<and>
      length (pp_rules profile) \<le> MAX_POLICY_RULES \<and>
      list_all (\<lambda>r. validate_rule r = Inr ()) (pp_rules profile) \<and>
      distinct (map pr_id (pp_rules profile)) \<and>
      (\<exists>order. mset order = mset (pp_rules profile) \<and> deps_before {} order)) \<and>
   (\<forall>rules. compile_rules profile = Inr rules \<longrightarrow>
      mset rules = mset (pp_rules profile) \<and> deps_before {} rules)"
proof -
  have hdr: "pp_schema_version profile = ''cigar.policy-profile.v1'' \<and> pp_revision profile \<noteq> 0 \<and>
      length (pp_rules profile) \<le> MAX_POLICY_RULES" if "compile_rules profile = Inr rules" for rules
    using that by (auto simp: compile_rules_def split: if_splits)
  show ?thesis
    using compile_rules_sound hdr compile_rules_complete unfolding is_ok_iff by blast
qed

subsection \<open>Evaluation\<close>

definition matching :: "policy_request \<Rightarrow> policy_rule list \<Rightarrow> policy_rule list" where
  "matching r rules = filter (\<lambda>rule. rule_matches rule r) rules"

definition funions :: "'a fset list \<Rightarrow> 'a fset" where
  "funions ss = foldr (|\<union>|) ss {||}"

lemma funions_simps [simp]:
  "funions [] = {||}"
  "funions (t # ss) = t |\<union>| funions ss"
  by (simp_all add: funions_def)

lemma in_funions_iff: "x |\<in>| funions ss \<longleftrightarrow> (\<exists>t \<in> set ss. x |\<in>| t)"
  by (induction ss) auto

lemma fold_apply_rule:
  "foldl (apply_rule r) (out, R, C, m) rules =
     (foldl min out (map pr_action (matching r rules)),
      R |\<union>| funions (map pr_redaction_paths (filter (\<lambda>x. pr_action x = Redact) (matching r rules))),
      C |\<union>| funions (map pr_conditions (matching r rules)),
      m \<or> matching r rules \<noteq> [])"
  by (induction rules arbitrary: out R C m)
    (simp_all add: apply_rule_def matching_def sup_assoc)

lemma foldl_min: "foldl min (x :: 'a::linorder) xs = Min (insert x (set xs))"
proof (induction xs arbitrary: x)
  case (Cons y ys)
  then show ?case
    by (cases "ys = []") (simp_all add: insert_commute min.assoc)
qed simp

lemma apply_rules_outcome: "pd_outcome (apply_rules s r) = Min (insert Allow (pr_action ` set (matching r (cs_rules s))))"
  by (simp add: apply_rules_def fold_apply_rule decision_def Let_def foldl_min del: Min_insert)

lemma apply_rules_outcome_iff: "pd_outcome (apply_rules s r) = Allow \<longleftrightarrow>
  (\<forall>rule \<in> set (cs_rules s). rule_matches rule r \<longrightarrow> pr_action rule = Allow)"
proof -
  have "Min (insert Allow S) = Allow \<longleftrightarrow> (\<forall>x \<in> S. x = Allow)" if "finite S" for S :: "policy_outcome set"
    using that by (subst Min_eq_iff) (auto simp: order_antisym)
  then show ?thesis unfolding apply_rules_outcome by (auto simp: matching_def)
qed

lemma decision_fields [simp]:
  "pd_outcome (decision s r out rsn dis R C) = out"
  "pd_reason (decision s r out rsn dis R C) = rsn"
  "pd_disclosure (decision s r out rsn dis R C) = dis"
  "pd_expires_at (decision s r out rsn dis R C) = decision_expiry r"
  "pd_policy_digest (decision s r out rsn dis R C) = ps_policy_digest (cs_descriptor s)"
  "pd_input_digest (decision s r out rsn dis R C) = rq_input_digest r"
  "pd_redaction_paths (decision s r out rsn dis R C) = R"
  "pd_conditions (decision s r out rsn dis R C) = C"
  by (simp_all add: decision_def)

lemma hard_gate_not_Allow: "hard_gate s r rv = Some d \<Longrightarrow> pd_outcome d \<noteq> Allow"
  by (auto simp: hard_gate_def hard_deny_def split: if_splits)

lemma evaluate_total: "\<exists>d. evaluate s r rv = Inr d"
  by (simp add: evaluate_def split: option.split)

text \<open>Every hard gate is open.\<close>

definition gates_pass :: "compiled_snapshot \<Rightarrow> policy_request \<Rightarrow> revocations \<Rightarrow> bool" where
  "gates_pass s r rv \<longleftrightarrow>
    (rq_principal_id r |\<notin>| rv_principals rv \<and> rq_input_digest r |\<notin>| rv_resources rv \<and>
     (\<forall>c g. rq_capability r = Some c \<and> cc_grant_id c = Some g \<longrightarrow> g |\<notin>| rv_grants rv)) \<and>
    (rq_resource r \<in> {Bundle, Handoff, Effect} \<longrightarrow>
      rq_bound_policy_digest r = Some (ps_policy_digest (cs_descriptor s))) \<and>
    (rq_tenant_id r = rq_authenticated_tenant_id r) \<and>
    (\<forall>p. rq_project_id r = Some p \<longrightarrow> p |\<in>| rq_allowed_project_ids r \<and>
      (\<forall>c. rq_capability r = Some c \<longrightarrow> p |\<in>| cc_project_ids c)) \<and>
    rq_principal_active r \<and>
    (\<forall>q. rq_required_capability r = Some q \<longrightarrow> (\<exists>c. rq_capability r = Some c \<and>
      cc_subject_id c = rq_principal_id r \<and> rq_observed_as_of r < cc_expires_at c \<and> q |\<in>| cc_capabilities c)) \<and>
    (''*'' |\<in>| rq_allowed_purposes r \<or> rq_purpose r |\<in>| rq_allowed_purposes r) \<and>
    (\<forall>p. rq_processor r = Some p \<longrightarrow>
      (''*'' |\<in>| rq_allowed_processors r \<or> p |\<in>| rq_allowed_processors r) \<and>
      (\<forall>c. rq_capability r = Some c \<longrightarrow> cc_processors c = {||} \<or> p |\<in>| cc_processors c)) \<and>
    (rq_classification r \<le> rq_maximum_classification r \<and> rq_residency_allowed r \<and> rq_egress_allowed r) \<and>
    (rq_integrity_verified r \<and> rq_lifecycle r = Active) \<and>
    (rq_valid_from r \<le> rq_valid_at r \<and> (\<forall>u. rq_valid_until r = Some u \<longrightarrow> rq_valid_at r < u) \<and>
     rq_observed_at r \<le> rq_observed_as_of r \<and>
     (\<forall>e. rq_freshness_expires_at r = Some e \<longrightarrow> rq_observed_as_of r < e)) \<and>
    (rq_instruction_authority r \<le> rq_maximum_instruction_authority r) \<and>
    (\<not> rq_excluded r \<and> rq_modality_supported r) \<and>
    (rq_resource r = Effect \<longrightarrow> rq_effect_constraints_satisfied r \<and>
      (rq_fencing_required r \<longrightarrow> rq_fencing_verified r) \<and>
      (rq_effect_risk r \<in> {Some High, Some Critical} \<longrightarrow> rq_effect_approved r))"

lemma if_Some_eq_None: "(if c then Some x else y) = None \<longleftrightarrow> \<not> c \<and> y = None"
  by simp

lemma hard_gate_None_iff: "hard_gate s r rv = None \<longleftrightarrow> gates_pass s r rv"
proof -
  have rev: "\<not> revoked rv r \<longleftrightarrow> rq_principal_id r |\<notin>| rv_principals rv \<and> rq_input_digest r |\<notin>| rv_resources rv \<and>
    (\<forall>c g. rq_capability r = Some c \<and> cc_grant_id c = Some g \<longrightarrow> g |\<notin>| rv_grants rv)"
    by (auto simp: revoked_def bind_eq_Some_conv)
  have cap: "\<not> \<not> capability_allows r \<longleftrightarrow> (\<forall>q. rq_required_capability r = Some q \<longrightarrow> (\<exists>c. rq_capability r = Some c \<and>
      cc_subject_id c = rq_principal_id r \<and> rq_observed_as_of r < cc_expires_at c \<and> q |\<in>| cc_capabilities c))"
    by (auto simp: capability_allows_def split: option.splits)
  show ?thesis
    unfolding hard_gate_def gates_pass_def if_Some_eq_None
    by (intro arg_cong2 [where f = "(\<and>)"] rev cap) (auto simp: not_less not_le)
qed

lemma hard_gate_ignores_rules: "hard_gate (s\<lparr>cs_rules := rules\<rparr>) r rv = None \<longleftrightarrow> hard_gate s r rv = None"
  unfolding hard_gate_None_iff gates_pass_def by simp

lemma evaluate_Allow_iff:
  "(\<exists>d. evaluate s r rv = Inr d \<and> pd_outcome d = Allow) \<longleftrightarrow>
    gates_pass s r rv \<and> (\<forall>rule \<in> set (cs_rules s). rule_matches rule r \<longrightarrow> pr_action rule = Allow)"
  using hard_gate_not_Allow [of s r rv] unfolding hard_gate_None_iff [symmetric]
  by (auto simp: evaluate_def apply_rules_outcome_iff split: option.splits)

text \<open>
  (C1) Nothing bypasses the hard gates: a request is allowed exactly when its principal, resource
  and grant are not revoked, a bound resource is bound to the installed policy, the tenant is the
  authenticated one, the project is in scope of both the caller and the capability, the principal
  is active, the required capability is held by the principal and unexpired, purpose and processor
  are permitted, classification, residency and egress allow it, the record is active, intact,
  valid and fresh, its instruction authority is bounded, it is neither excluded nor of an
  unsupported modality, an effect satisfies its constraints, fencing and approval, and every
  matching rule allows it.
\<close>

theorem evaluate_allows_iff:
  "(\<exists>d. evaluate s r rv = Inr d \<and> pd_outcome d = Allow) \<longleftrightarrow>
    rq_principal_id r |\<notin>| rv_principals rv \<and> rq_input_digest r |\<notin>| rv_resources rv \<and>
    (\<forall>c g. rq_capability r = Some c \<and> cc_grant_id c = Some g \<longrightarrow> g |\<notin>| rv_grants rv) \<and>
    (rq_resource r \<in> {Bundle, Handoff, Effect} \<longrightarrow>
      rq_bound_policy_digest r = Some (ps_policy_digest (cs_descriptor s))) \<and>
    rq_tenant_id r = rq_authenticated_tenant_id r \<and>
    (\<forall>p. rq_project_id r = Some p \<longrightarrow> p |\<in>| rq_allowed_project_ids r \<and>
      (\<forall>c. rq_capability r = Some c \<longrightarrow> p |\<in>| cc_project_ids c)) \<and>
    rq_principal_active r \<and>
    (\<forall>q. rq_required_capability r = Some q \<longrightarrow> (\<exists>c. rq_capability r = Some c \<and>
      cc_subject_id c = rq_principal_id r \<and> rq_observed_as_of r < cc_expires_at c \<and> q |\<in>| cc_capabilities c)) \<and>
    (''*'' |\<in>| rq_allowed_purposes r \<or> rq_purpose r |\<in>| rq_allowed_purposes r) \<and>
    (\<forall>p. rq_processor r = Some p \<longrightarrow>
      (''*'' |\<in>| rq_allowed_processors r \<or> p |\<in>| rq_allowed_processors r) \<and>
      (\<forall>c. rq_capability r = Some c \<longrightarrow> cc_processors c = {||} \<or> p |\<in>| cc_processors c)) \<and>
    rq_classification r \<le> rq_maximum_classification r \<and> rq_residency_allowed r \<and> rq_egress_allowed r \<and>
    rq_integrity_verified r \<and> rq_lifecycle r = Active \<and>
    rq_valid_from r \<le> rq_valid_at r \<and> (\<forall>u. rq_valid_until r = Some u \<longrightarrow> rq_valid_at r < u) \<and>
    rq_observed_at r \<le> rq_observed_as_of r \<and>
    (\<forall>e. rq_freshness_expires_at r = Some e \<longrightarrow> rq_observed_as_of r < e) \<and>
    rq_instruction_authority r \<le> rq_maximum_instruction_authority r \<and>
    \<not> rq_excluded r \<and> rq_modality_supported r \<and>
    (rq_resource r = Effect \<longrightarrow> rq_effect_constraints_satisfied r \<and>
      (rq_fencing_required r \<longrightarrow> rq_fencing_verified r) \<and>
      (rq_effect_risk r \<in> {Some High, Some Critical} \<longrightarrow> rq_effect_approved r)) \<and>
    (\<forall>rule \<in> set (cs_rules s). rule_matches rule r \<longrightarrow> pr_action rule = Allow)"
  unfolding evaluate_Allow_iff gates_pass_def by (simp only: conj_assoc)

definition example_request :: policy_request where
  "example_request = \<lparr>
     rq_resource = Content, rq_input_digest = ''d'', rq_principal_id = ''p'', rq_principal_active = True,
     rq_tenant_id = ''t'', rq_authenticated_tenant_id = ''t'', rq_project_id = Some ''q'',
     rq_allowed_project_ids = {|''q''|}, rq_purpose = ''build'', rq_allowed_purposes = {|''*''|},
     rq_processor = None, rq_allowed_processors = {||}, rq_classification = Internal,
     rq_maximum_classification = Confidential, rq_residency_allowed = True, rq_egress_allowed = True,
     rq_lifecycle = Active, rq_integrity_verified = True, rq_valid_at = 5, rq_valid_from = 1,
     rq_valid_until = None, rq_observed_at = 4, rq_observed_as_of = 6, rq_freshness_expires_at = Some 9,
     rq_instruction_authority = Data, rq_maximum_instruction_authority = Advisory, rq_excluded = False,
     rq_modality_supported = True, rq_capability = None, rq_required_capability = None,
     rq_bound_policy_digest = None, rq_effect_risk = None, rq_effect_approved = False,
     rq_effect_constraints_satisfied = True, rq_fencing_required = False, rq_fencing_verified = False,
     rq_decision_expires_at = 8\<rparr>"

definition example_rule :: policy_rule where
  "example_rule = \<lparr>pr_id = ''r1'', pr_priority = 0, pr_depends_on = {||}, pr_resources = {||},
     pr_principal_ids = {||}, pr_tenant_ids = {||}, pr_project_ids = {||}, pr_purposes = {||},
     pr_processors = {||}, pr_classification_at_least = Some Confidential, pr_action = Deny,
     pr_redaction_paths = {||}, pr_conditions = {||}\<rparr>"

definition example_dependent_rule :: policy_rule where
  "example_dependent_rule = example_rule\<lparr>pr_id := ''r0'', pr_depends_on := {|''r1''|}\<rparr>"

definition example_rules_profile :: policy_profile where
  "example_rules_profile = \<lparr>pp_schema_version = ''cigar.policy-profile.v1'', pp_revision = 1,
     pp_protected = True, pp_rules = [example_dependent_rule, example_rule]\<rparr>"

theorem compile_rules_correct_witness:
  "\<exists>rules. compile_rules example_rules_profile = Inr rules \<and> deps_before {} rules \<and>
     mset rules = {#example_rule, example_dependent_rule#}"
proof -
  have "deps_before {} [example_rule, example_dependent_rule]"
    by (simp add: example_dependent_rule_def example_rule_def)
  moreover have "mset [example_rule, example_dependent_rule] = mset (pp_rules example_rules_profile)"
    by (simp add: example_rules_profile_def add_mset_commute)
  moreover have "list_all (\<lambda>r. validate_rule r = Inr ()) (pp_rules example_rules_profile)"
    "distinct (map pr_id (pp_rules example_rules_profile))"
    "length (pp_rules example_rules_profile) \<le> MAX_POLICY_RULES"
    by (simp_all add: example_rules_profile_def example_dependent_rule_def example_rule_def validate_rule_def
        MAX_POLICY_RULES_def MAX_POLICY_SELECTORS_def MAX_POLICY_TEXT_BYTES_def text_valid_def byte_defs fcard.rep_eq)
  moreover have "pp_schema_version example_rules_profile = ''cigar.policy-profile.v1''"
    "pp_revision example_rules_profile \<noteq> 0"
    by (simp_all add: example_rules_profile_def)
  ultimately have "is_ok (compile_rules example_rules_profile)"
    using compile_rules_correct [of example_rules_profile] by blast
  then show ?thesis
    using compile_rules_correct [of example_rules_profile]
    by (auto simp: is_ok_iff example_rules_profile_def add_mset_commute)
qed

definition example_snapshot :: compiled_snapshot where
  "example_snapshot = \<lparr>cs_descriptor = \<lparr>ps_revision = 1, ps_policy_digest = ''pd'', ps_activated_at = 0,
     ps_protected = True\<rparr>, cs_rules = [example_rule]\<rparr>"

definition no_revocations :: revocations where
  "no_revocations = \<lparr>rv_principals = {||}, rv_grants = {||}, rv_resources = {||}\<rparr>"

lemmas example_policy_defs = example_request_def example_rule_def example_snapshot_def no_revocations_def

theorem evaluate_allows_iff_witness:
  "\<exists>d. evaluate example_snapshot example_request no_revocations = Inr d \<and> pd_outcome d = Allow"
  unfolding evaluate_allows_iff
  by (simp add: example_policy_defs rule_matches_def classification_order instruction_authority_order)

text \<open>
  Declarative rules only ever restrict: when the hard gates pass, the outcome is at least as
  strict as the action of every matching rule and is the action of one of them unless none matches,
  every condition of a matching rule and every path of a matching redaction is applied, and the
  order in which the compiler emitted the rules does not matter.
\<close>

theorem rules_only_restrict:
  assumes "hard_gate s r rv = None" and "evaluate s r rv = Inr d"
  shows "(\<forall>rule \<in> set (cs_rules s). rule_matches rule r \<longrightarrow> pd_outcome d \<le> pr_action rule \<and>
      pr_conditions rule |\<subseteq>| pd_conditions d \<and>
      (pr_action rule = Redact \<longrightarrow> pr_redaction_paths rule |\<subseteq>| pd_redaction_paths d)) \<and>
    (pd_outcome d = Allow \<or> (\<exists>rule \<in> set (cs_rules s). rule_matches rule r \<and> pd_outcome d = pr_action rule)) \<and>
    (mset rules' = mset (cs_rules s) \<longrightarrow> evaluate (s\<lparr>cs_rules := rules'\<rparr>) r rv = Inr d)"
proof -
  have d: "d = apply_rules s r" using assms by (simp add: evaluate_def)
  have "finite (pr_action ` set (matching r (cs_rules s)))" by simp
  then have "Min (insert Allow (pr_action ` set (matching r (cs_rules s)))) \<in>
      insert Allow (pr_action ` set (matching r (cs_rules s)))" by (intro Min_in) auto
  then have one: "pd_outcome d = Allow \<or> (\<exists>rule \<in> set (cs_rules s). rule_matches rule r \<and> pd_outcome d = pr_action rule)"
    unfolding d apply_rules_outcome by (auto simp: matching_def simp del: Min_insert)
  have le: "pd_outcome d \<le> pr_action rule \<and> pr_conditions rule |\<subseteq>| pd_conditions d \<and>
      (pr_action rule = Redact \<longrightarrow> pr_redaction_paths rule |\<subseteq>| pd_redaction_paths d)"
    if "rule \<in> set (cs_rules s)" "rule_matches rule r" for rule
  proof (intro conjI impI)
    show "pd_outcome d \<le> pr_action rule"
      unfolding d apply_rules_outcome using that by (intro Min_le) (auto simp: matching_def)
    show "pr_conditions rule |\<subseteq>| pd_conditions d"
      using that by (auto simp: d apply_rules_def fold_apply_rule Let_def in_funions_iff matching_def)
    show "pr_action rule = Redact \<Longrightarrow> pr_redaction_paths rule |\<subseteq>| pd_redaction_paths d"
      using that by (auto simp: d apply_rules_def fold_apply_rule Let_def in_funions_iff matching_def)
  qed
  have "evaluate (s\<lparr>cs_rules := rules'\<rparr>) r rv = Inr d" if p: "mset rules' = mset (cs_rules s)"
  proof -
    have sets: "set (matching r rules') = set (matching r (cs_rules s))"
      and none: "matching r rules' = [] \<longleftrightarrow> matching r (cs_rules s) = []"
      using mset_eq_setD [OF p] by (auto simp: matching_def filter_empty_conv)
    have un: "funions (map f (filter P (matching r rules'))) = funions (map f (filter P (matching r (cs_rules s))))" for f P
      using sets by (auto simp: fset_eq_iff in_funions_iff)
    have "hard_gate (s\<lparr>cs_rules := rules'\<rparr>) r rv = None"
      using assms(1) hard_gate_ignores_rules by simp
    moreover have "apply_rules (s\<lparr>cs_rules := rules'\<rparr>) r = apply_rules s r"
      using un [of pr_redaction_paths "\<lambda>x. pr_action x = Redact"] un [of pr_conditions "\<lambda>_. True"] none sets
      by (simp add: apply_rules_def fold_apply_rule foldl_min Let_def decision_def del: Min_insert)
    ultimately show ?thesis by (simp add: evaluate_def d)
  qed
  with le one show ?thesis by blast
qed

theorem rules_only_restrict_witness:
  "\<exists>d. evaluate example_snapshot (example_request\<lparr>rq_classification := Confidential\<rparr>) no_revocations = Inr d \<and>
     pd_outcome d \<le> Deny"
proof -
  obtain d where e: "evaluate example_snapshot (example_request\<lparr>rq_classification := Confidential\<rparr>) no_revocations = Inr d"
    using evaluate_total by blast
  have "hard_gate example_snapshot (example_request\<lparr>rq_classification := Confidential\<rparr>) no_revocations = None"
    unfolding hard_gate_None_iff gates_pass_def
    by (simp add: example_policy_defs classification_order instruction_authority_order)
  from rules_only_restrict [OF this e] have "pd_outcome d \<le> Deny"
    by (auto simp: example_policy_defs rule_matches_def classification_order)
  with e show ?thesis by blast
qed

text \<open>
  A denial reveals nothing: for every resource but an effect, all denied and quarantined
  requests, for whatever reason, look to the caller exactly like a record that does not exist.
\<close>

theorem denial_is_indistinguishable:
  assumes "evaluate s r rv = Inr d" and "rq_resource r \<noteq> Effect" and "pd_outcome d \<in> {Deny, Quarantine}"
  shows "caller_view d = \<lparr>pv_disposition = Absent, pv_reason = None, pv_timing_class = Denied\<rparr>"
proof -
  have "pd_disclosure d = DeniedExistence"
  proof (cases "hard_gate s r rv")
    case None
    with assms show ?thesis by (auto simp: evaluate_def apply_rules_def Let_def split: prod.splits)
  next
    case (Some g)
    with assms have "hard_gate s r rv = Some d" by (simp add: evaluate_def)
    with assms(2,3) show ?thesis by (auto simp: hard_gate_def hard_deny_def split: if_splits)
  qed
  then show ?thesis by (simp add: caller_view_def)
qed

theorem denial_is_indistinguishable_witness:
  "\<exists>d. evaluate example_snapshot (example_request\<lparr>rq_principal_active := False\<rparr>) no_revocations = Inr d \<and>
     caller_view d = \<lparr>pv_disposition = Absent, pv_reason = None, pv_timing_class = Denied\<rparr>"
proof -
  let ?r = "example_request\<lparr>rq_principal_active := False\<rparr>"
  have "evaluate example_snapshot ?r no_revocations = Inr (hard_deny example_snapshot ?r PrincipalDenied)"
    by (simp add: evaluate_def hard_gate_def revoked_def example_policy_defs)
  from denial_is_indistinguishable [OF this] this show ?thesis
    by (simp add: hard_deny_def example_request_def)
qed

lemma evaluate_expiry:
  assumes "evaluate s r rv = Inr d"
  shows "pd_expires_at d = decision_expiry r"
proof (cases "hard_gate s r rv")
  case None
  with assms show ?thesis by (auto simp: evaluate_def apply_rules_def Let_def split: prod.splits)
next
  case (Some g)
  with assms have "hard_gate s r rv = Some d" by (simp add: evaluate_def)
  then show ?thesis by (auto simp: hard_gate_def hard_deny_def split: if_splits)
qed

text \<open>
  A decision never outlives its evidence: it expires no later than the record's validity,
  its freshness, the capability and the requested bound, and an allowed decision is still live
  at the observation time it was made for.
\<close>

theorem decision_expiry_is_bounded:
  assumes "evaluate s r rv = Inr d"
  shows "pd_expires_at d \<le> rq_decision_expires_at r \<and>
    (\<forall>u. rq_valid_until r = Some u \<longrightarrow> pd_expires_at d \<le> u) \<and>
    (\<forall>e. rq_freshness_expires_at r = Some e \<longrightarrow> pd_expires_at d \<le> e) \<and>
    (\<forall>c. rq_capability r = Some c \<longrightarrow> pd_expires_at d \<le> cc_expires_at c) \<and>
    (pd_outcome d = Allow \<and> rq_observed_as_of r < rq_decision_expires_at r \<and>
      (\<forall>c. rq_capability r = Some c \<longrightarrow> rq_required_capability r \<noteq> None) \<and>
      (\<forall>u. rq_valid_until r = Some u \<longrightarrow> rq_observed_as_of r < u) \<longrightarrow> rq_observed_as_of r < pd_expires_at d)"
proof -
  define S where "S = set (List.map_filter (\<lambda>x. x)
       [rq_valid_until r, rq_freshness_expires_at r, map_option cc_expires_at (rq_capability r),
        Some (rq_decision_expires_at r)])"
  have S: "x \<in> S \<longleftrightarrow> rq_valid_until r = Some x \<or> rq_freshness_expires_at r = Some x \<or>
      (\<exists>c. rq_capability r = Some c \<and> x = cc_expires_at c) \<or> x = rq_decision_expires_at r" for x
    unfolding S_def set_map_filter_iff by (cases "rq_capability r") auto
  have fin: "finite S" by (simp add: S_def)
  have d: "pd_expires_at d = Min S"
    unfolding S_def decision_expiry_def [symmetric] by (rule evaluate_expiry [OF assms])
  have le: "x \<in> S \<Longrightarrow> pd_expires_at d \<le> x" for x unfolding d using fin by (rule Min_le)
  have "rq_observed_as_of r < pd_expires_at d" if "pd_outcome d = Allow"
    "rq_observed_as_of r < rq_decision_expires_at r" "\<forall>c. rq_capability r = Some c \<longrightarrow> rq_required_capability r \<noteq> None"
    "\<forall>u. rq_valid_until r = Some u \<longrightarrow> rq_observed_as_of r < u"
  proof -
    have "hard_gate s r rv = None"
      using assms that(1) hard_gate_not_Allow [of s r rv] by (auto simp: evaluate_def split: option.splits)
    then have g: "gates_pass s r rv" by (simp add: hard_gate_None_iff)
    have fresh: "\<forall>e. rq_freshness_expires_at r = Some e \<longrightarrow> rq_observed_as_of r < e"
      using g unfolding gates_pass_def by blast
    have cap: "\<forall>q. rq_required_capability r = Some q \<longrightarrow>
        (\<exists>c. rq_capability r = Some c \<and> rq_observed_as_of r < cc_expires_at c)"
      using g unfolding gates_pass_def by blast
    have live: "rq_observed_as_of r < x" if "x \<in> S" for x
      using that fresh cap \<open>rq_observed_as_of r < rq_decision_expires_at r\<close>
        \<open>\<forall>c. rq_capability r = Some c \<longrightarrow> rq_required_capability r \<noteq> None\<close>
        \<open>\<forall>u. rq_valid_until r = Some u \<longrightarrow> rq_observed_as_of r < u\<close>
      unfolding S by fastforce
    have "Min S \<in> S" using S [of "rq_decision_expires_at r"] fin by (intro Min_in) auto
    then show ?thesis unfolding d by (rule live)
  qed
  moreover have "pd_expires_at d \<le> rq_decision_expires_at r" by (rule le) (simp add: S)
  moreover have "pd_expires_at d \<le> u" if "rq_valid_until r = Some u" for u
    by (rule le) (simp add: S that)
  moreover have "pd_expires_at d \<le> e" if "rq_freshness_expires_at r = Some e" for e
    by (rule le) (simp add: S that)
  moreover have "pd_expires_at d \<le> cc_expires_at c" if "rq_capability r = Some c" for c
    by (rule le) (auto simp: S that)
  ultimately show ?thesis by blast
qed

theorem decision_expiry_is_bounded_witness:
  "\<exists>d. evaluate example_snapshot example_request no_revocations = Inr d \<and>
     pd_expires_at d \<le> 8 \<and> pd_expires_at d \<le> 9"
proof -
  obtain d where "evaluate example_snapshot example_request no_revocations = Inr d"
    using evaluate_total by blast
  with decision_expiry_is_bounded [OF this] show ?thesis by (auto simp: example_request_def)
qed

end
