(* ===== verification/Policy_Engine.thy ===== *)
theory Policy_Engine
  imports Policy_Digest Policy_Rules
begin

text \<open>
  The compiled policy engine (\<open>cigar-policy/src/engine.rs\<close>): installed snapshot, revocations,
  decision cache and retrieval proofs.

  The state sits behind a reader-writer lock, so each definition that takes and returns an engine is
  one critical section. \<open>authorize\<close> releases the read lock before it takes the write lock; what
  other threads do in between is its argument \<open>env\<close>. The statistics counters are atomics outside
  the lock and only ever saturate upwards. Lock poisoning is not modelled.
\<close>

type_synonym cache_key = "record_id \<times> content_digest \<times> content_digest \<times> u64"

record policy_engine =
  en_available :: bool
  en_snapshot :: "compiled_snapshot option"
  en_revocations :: revocations
  en_epoch :: u64
  en_invalidations :: "policy_invalidation_event list"
  en_cache :: "(cache_key, policy_decision) btree"
  en_hits :: u64
  en_misses :: u64
  en_capacity_evictions :: u64
  en_expired_evictions :: u64

definition MAX_POLICY_CACHE_ENTRIES :: nat where
  "MAX_POLICY_CACHE_ENTRIES = 4096"

definition MAX_POLICY_CACHE_ENTRIES_PER_TENANT :: nat where
  "MAX_POLICY_CACHE_ENTRIES_PER_TENANT = 512"

definition MAX_RETRIEVAL_AUTHORIZATION_TTL :: nat where
  "MAX_RETRIEVAL_AUTHORIZATION_TTL = 300 * 1000000000"

definition engine_default :: policy_engine where
  "engine_default = \<lparr>en_available = True, en_snapshot = None,
     en_revocations = \<lparr>rv_principals = {||}, rv_grants = {||}, rv_resources = {||}\<rparr>,
     en_epoch = 0, en_invalidations = [], en_cache = [], en_hits = 0, en_misses = 0,
     en_capacity_evictions = 0, en_expired_evictions = 0\<rparr>"

definition increment_counter :: "u64 \<Rightarrow> nat \<Rightarrow> u64" where
  "increment_counter c amount =
     saturating_add c (if amount < 2 ^ 64 then of_nat amount else - 1)"

subsection \<open>Administration\<close>

definition install ::
    "policy_env \<Rightarrow> policy_profile \<Rightarrow> timestamp \<Rightarrow> policy_engine
      \<Rightarrow> policy_engine \<times> (policy_error, policy_snapshot) result" where
  "install E profile activated_at st =
     (case rbind (compile_rules profile) (\<lambda>rules.
           rbind (profile_digest E profile) (\<lambda>digest. Inr (rules, digest))) of
        Inl e \<Rightarrow> (st, Inl e)
      | Inr (rules, digest) \<Rightarrow>
          let descriptor = \<lparr>ps_revision = pp_revision profile, ps_policy_digest = digest,
                            ps_activated_at = activated_at, ps_protected = pp_protected profile\<rparr>
          in if is_some_and (en_snapshot st) (\<lambda>c. ps_revision (cs_descriptor c) \<ge> ps_revision descriptor)
             then (st, Inl PInvalidInput)
             else case checked_add (en_epoch st) 1 of
                    None \<Rightarrow> (st, Inl PLimitExceeded)
                  | Some epoch \<Rightarrow>
                      (st\<lparr>en_epoch := epoch,
                          en_snapshot := Some \<lparr>cs_descriptor = descriptor, cs_rules = rules\<rparr>,
                          en_available := True,
                          en_cache := [],
                          en_invalidations := en_invalidations st @
                            [\<lparr>ie_sequence = epoch,
                              ie_previous_policy_digest =
                                map_option (\<lambda>c. ps_policy_digest (cs_descriptor c)) (en_snapshot st),
                              ie_policy_digest = digest, ie_reason = InvPolicyChanged,
                              ie_occurred_at = activated_at\<rparr>]\<rparr>,
                       Inr descriptor))"

definition set_available :: "bool \<Rightarrow> policy_engine \<Rightarrow> policy_engine" where
  "set_available available st = st\<lparr>en_available := available\<rparr>"

datatype revocation = RevPrincipal record_id | RevGrant record_id | RevResource content_digest

fun add_revocation :: "revocation \<Rightarrow> revocations \<Rightarrow> revocations" where
  "add_revocation (RevPrincipal p) rv = rv\<lparr>rv_principals := finsert p (rv_principals rv)\<rparr>"
| "add_revocation (RevGrant g) rv = rv\<lparr>rv_grants := finsert g (rv_grants rv)\<rparr>"
| "add_revocation (RevResource d) rv = rv\<lparr>rv_resources := finsert d (rv_resources rv)\<rparr>"

definition revoke ::
    "revocation \<Rightarrow> timestamp \<Rightarrow> policy_engine
      \<Rightarrow> policy_engine \<times> (policy_error, policy_invalidation_event) result" where
  "revoke what occurred_at st =
     (case en_snapshot st of
        None \<Rightarrow> (st, Inl PUnavailable)
      | Some snapshot \<Rightarrow>
          let digest = ps_policy_digest (cs_descriptor snapshot);
              st1 = st\<lparr>en_revocations := add_revocation what (en_revocations st)\<rparr>
          in case checked_add (en_epoch st1) 1 of
               None \<Rightarrow> (st1, Inl PLimitExceeded)
             | Some epoch \<Rightarrow>
                 let event = \<lparr>ie_sequence = epoch, ie_previous_policy_digest = Some digest,
                              ie_policy_digest = digest, ie_reason = InvRevoked,
                              ie_occurred_at = occurred_at\<rparr>
                 in (st1\<lparr>en_epoch := epoch, en_cache := [],
                         en_invalidations := en_invalidations st1 @ [event]\<rparr>,
                     Inr event))"

definition engine_snapshot :: "policy_engine \<Rightarrow> (policy_error, policy_snapshot) result" where
  "engine_snapshot st =
     (if \<not> en_available st then Inl PUnavailable
      else ok_or (map_option cs_descriptor (en_snapshot st)) PUnavailable)"

subsection \<open>Cached authorization\<close>

definition cache_key_of :: "policy_request \<Rightarrow> content_digest \<Rightarrow> compiled_snapshot \<Rightarrow> u64 \<Rightarrow> cache_key" where
  "cache_key_of r digest snapshot epoch =
     (rq_tenant_id r, digest, ps_policy_digest (cs_descriptor snapshot), epoch)"

definition tenant_count :: "record_id \<Rightarrow> (cache_key, policy_decision) btree \<Rightarrow> nat" where
  "tenant_count t m = length (filter (\<lambda>k. fst k = t) (bt_keys m))"

text \<open>The two eviction loops; each drops the first candidate key in ascending order.\<close>

function evict_tenant ::
    "record_id \<Rightarrow> (cache_key, policy_decision) btree \<Rightarrow> (cache_key, policy_decision) btree \<times> nat" where
  "evict_tenant t m =
     (if tenant_count t m \<ge> MAX_POLICY_CACHE_ENTRIES_PER_TENANT then
        case find (\<lambda>k. fst k = t) (bt_keys m) of
          None \<Rightarrow> (m, 0)
        | Some k \<Rightarrow> let (m', n) = evict_tenant t (bt_remove k m) in (m', n + 1)
      else (m, 0))"
  by pat_completeness auto
termination
proof (relation "measure (\<lambda>(_, m). length m)", goal_cases)
  case (2 t m k)
  then have "k \<in> fst ` set m" by (auto simp: find_Some_iff bt_keys_def)
  then show ?case by (auto simp: bt_remove_def intro!: length_filter_less)
qed simp

declare evict_tenant.simps [simp del]

fun evict_global ::
    "(cache_key, policy_decision) btree \<Rightarrow> (cache_key, policy_decision) btree \<times> nat" where
  "evict_global [] = ([], 0)"
| "evict_global (kv # m) =
     (if length (kv # m) \<ge> MAX_POLICY_CACHE_ENTRIES
      then let (m', n) = evict_global m in (m', n + 1)
      else (kv # m, 0))"

text \<open>The read-locked lookup of \<open>authorize\<close>: a live cached decision, or nothing.\<close>

definition authorize_lookup ::
    "policy_request \<Rightarrow> content_digest \<Rightarrow> policy_engine
      \<Rightarrow> policy_engine \<times> (policy_error, policy_decision option) result" where
  "authorize_lookup r digest st =
     (if \<not> en_available st then (st, Inl PUnavailable)
      else case en_snapshot st of
             None \<Rightarrow> (st, Inl PUnavailable)
           | Some snapshot \<Rightarrow>
               (case bt_get (en_cache st) (cache_key_of r digest snapshot (en_epoch st)) of
                  Some d \<Rightarrow> if pd_expires_at d > rq_observed_as_of r
                            then (st\<lparr>en_hits := increment_counter (en_hits st) 1\<rparr>, Inr (Some d))
                            else (st, Inr None)
                | None \<Rightarrow> (st, Inr None)))"

text \<open>The write-locked part: drop expired entries, look again, evaluate, make room, insert.\<close>

definition authorize_fill ::
    "policy_request \<Rightarrow> content_digest \<Rightarrow> policy_engine
      \<Rightarrow> policy_engine \<times> (policy_error, policy_decision) result" where
  "authorize_fill r digest st =
     (if \<not> en_available st then (st, Inl PUnavailable)
      else case en_snapshot st of
             None \<Rightarrow> (st, Inl PUnavailable)
           | Some snapshot \<Rightarrow>
               let key = cache_key_of r digest snapshot (en_epoch st);
                   prior = length (en_cache st);
                   kept = bt_retain (\<lambda>_ d. pd_expires_at d > rq_observed_as_of r) (en_cache st);
                   st1 = st\<lparr>en_cache := kept,
                            en_expired_evictions := increment_counter (en_expired_evictions st) (prior - length kept)\<rparr>
               in case bt_get (en_cache st1) key of
                    Some d \<Rightarrow> (st1\<lparr>en_hits := increment_counter (en_hits st1) 1\<rparr>, Inr d)
                  | None \<Rightarrow>
                      let st2 = st1\<lparr>en_misses := increment_counter (en_misses st1) 1\<rparr>
                      in case evaluate snapshot r (en_revocations st2) of
                           Inl e \<Rightarrow> (st2, Inl e)
                         | Inr d \<Rightarrow>
                             let (m1, n1) = evict_tenant (rq_tenant_id r) (en_cache st2);
                                 (m2, n2) = evict_global m1
                             in (st2\<lparr>en_capacity_evictions :=
                                       increment_counter (en_capacity_evictions st2) (n1 + n2),
                                     en_cache := bt_insert key d m2\<rparr>,
                                 Inr d))"

definition authorize ::
    "policy_env \<Rightarrow> (policy_engine \<Rightarrow> policy_engine) \<Rightarrow> policy_resource \<Rightarrow> policy_request \<Rightarrow> policy_engine
      \<Rightarrow> policy_engine \<times> (policy_error, policy_decision) result" where
  "authorize E env expected r st =
     (case rbind (validate_request expected r) (\<lambda>_. request_digest E r) of
        Inl e \<Rightarrow> (st, Inl e)
      | Inr digest \<Rightarrow>
          (case authorize_lookup r digest st of
             (st1, Inl e) \<Rightarrow> (st1, Inl e)
           | (st1, Inr (Some d)) \<Rightarrow> (st1, Inr d)
           | (st1, Inr None) \<Rightarrow> authorize_fill r digest (env st1)))"

record cache_statistics =
  st_entries :: nat
  st_maximum_tenant_entries :: nat
  st_hits :: u64
  st_misses :: u64
  st_capacity_evictions :: u64
  st_expired_evictions :: u64

definition cache_statistics_of :: "policy_engine \<Rightarrow> cache_statistics" where
  "cache_statistics_of st =
     \<lparr>st_entries = length (en_cache st),
      st_maximum_tenant_entries =
        foldr max (map (\<lambda>k. tenant_count (fst k) (en_cache st)) (bt_keys (en_cache st))) 0,
      st_hits = en_hits st, st_misses = en_misses st,
      st_capacity_evictions = en_capacity_evictions st, st_expired_evictions = en_expired_evictions st\<rparr>"

subsection \<open>Retrieval proofs\<close>

record retrieval_claims =
  rc_principal_id :: record_id
  rc_tenant_id :: record_id
  rc_project_ids :: "record_id fset"
  rc_purpose :: string
  rc_processor :: string
  rc_maximum_classification :: classification
  rc_maximum_instruction_authority :: instruction_authority
  rc_valid_at :: timestamp
  rc_observed_as_of :: timestamp
  rc_vector_allowed :: bool
  rc_policy_digest :: content_digest
  rc_policy_revision :: u64
  rc_revocation_epoch :: u64
  rc_partition_digest :: content_digest

record retrieval_authorization =
  ra_claims :: retrieval_claims
  ra_grant_ids :: "record_id fset"
  ra_resource_digests :: "content_digest fset"
  ra_request_template :: policy_request
  ra_monotonic_expires_at :: nat

text \<open>The first loop over the requests: each is valid, names a new project and agrees with the first.\<close>

fun collect_projects ::
    "policy_request \<Rightarrow> policy_request list \<Rightarrow> record_id fset \<Rightarrow> (policy_error, record_id fset) result" where
  "collect_projects first [] projects = Inr projects"
| "collect_projects first (r # rs) projects =
     rbind (validate_request Partition r) (\<lambda>_.
     rbind (ok_or (rq_project_id r) PInvalidInput) (\<lambda>p.
       if p |\<in>| projects then Inl PInvalidInput
       else if r\<lparr>rq_project_id := None\<rparr> \<noteq> first\<lparr>rq_project_id := None\<rparr> then Inl PInvalidInput
       else collect_projects first rs (finsert p projects)))"

record partition_facts =
  pf_expires_at :: timestamp
  pf_request_digests :: "content_digest fset"
  pf_resource_digests :: "content_digest fset"
  pf_grant_ids :: "record_id fset"

text \<open>The second loop: both decisions of every request must allow.\<close>

fun authorize_projects ::
    "policy_env \<Rightarrow> compiled_snapshot \<Rightarrow> revocations \<Rightarrow> policy_request list \<Rightarrow> partition_facts
      \<Rightarrow> (policy_error, partition_facts) result" where
  "authorize_projects E snapshot rv [] facts = Inr facts"
| "authorize_projects E snapshot rv (r # rs) facts =
     rbind (evaluate snapshot r rv) (\<lambda>partition.
     rbind (validate_request Processor (r\<lparr>rq_resource := Processor\<rparr>)) (\<lambda>_.
     rbind (evaluate snapshot (r\<lparr>rq_resource := Processor\<rparr>) rv) (\<lambda>processor.
       if pd_outcome partition \<noteq> Allow \<or> pd_outcome processor \<noteq> Allow then Inl PRevoked
       else rbind (retrieval_request_semantic_digest E r) (\<lambda>digest.
         authorize_projects E snapshot rv rs
           \<lparr>pf_expires_at = min (min (pf_expires_at facts) (pd_expires_at partition)) (pd_expires_at processor),
            pf_request_digests = finsert digest (pf_request_digests facts),
            pf_resource_digests = finsert (rq_input_digest r) (pf_resource_digests facts),
            pf_grant_ids = (case Option.bind (rq_capability r) cc_grant_id of
                              None \<Rightarrow> pf_grant_ids facts | Some g \<Rightarrow> finsert g (pf_grant_ids facts))\<rparr>))))"

definition partition_claims ::
    "policy_request \<Rightarrow> record_id fset \<Rightarrow> string \<Rightarrow> bool \<Rightarrow> policy_snapshot \<Rightarrow> u64 \<Rightarrow> content_digest
      \<Rightarrow> retrieval_claims" where
  "partition_claims first projects processor vector_allowed descriptor epoch digest =
     \<lparr>rc_principal_id = rq_principal_id first, rc_tenant_id = rq_tenant_id first,
      rc_project_ids = projects, rc_purpose = rq_purpose first, rc_processor = processor,
      rc_maximum_classification = rq_maximum_classification first,
      rc_maximum_instruction_authority = rq_maximum_instruction_authority first,
      rc_valid_at = rq_valid_at first, rc_observed_as_of = rq_observed_as_of first,
      rc_vector_allowed = vector_allowed, rc_policy_digest = ps_policy_digest descriptor,
      rc_policy_revision = ps_revision descriptor, rc_revocation_epoch = epoch,
      rc_partition_digest = digest\<rparr>"

text \<open>
  Sealing the proof once all projects are allowed. \<open>now\<close> is the monotonic clock in nanoseconds.
\<close>

definition seal_partition ::
    "policy_env \<Rightarrow> nat \<Rightarrow> policy_request \<Rightarrow> record_id fset \<Rightarrow> policy_snapshot \<Rightarrow> u64 \<Rightarrow> partition_facts
      \<Rightarrow> (policy_error, retrieval_authorization) result" where
  "seal_partition E now first projects descriptor epoch facts =
     rbind (ensure (\<not> pf_expires_at facts \<le> rq_observed_as_of first) PRevoked) (\<lambda>_.
     rbind (ensure (pf_expires_at facts - rq_observed_as_of first < 2 ^ 64) PLimitExceeded) (\<lambda>_.
     let lifetime = min (nat (pf_expires_at facts - rq_observed_as_of first)) MAX_RETRIEVAL_AUTHORIZATION_TTL
     in
     rbind (ensure (now + lifetime < instant_end) PLimitExceeded) (\<lambda>_.
     rbind (ok_or (rq_processor first) PInvalidInput) (\<lambda>processor.
     let vector_allowed = (rq_required_capability first = Some CompileContext \<and>
           is_some_and (rq_capability first) (\<lambda>c. CompileContext |\<in>| cc_capabilities c))
     in
     rbind (retrieval_partition_digest E (rq_principal_id first) (rq_tenant_id first) projects
              (rq_purpose first) processor (rq_maximum_classification first)
              (rq_maximum_instruction_authority first) vector_allowed descriptor epoch
              (pf_request_digests facts)) (\<lambda>digest.
       Inr \<lparr>ra_claims = partition_claims first projects processor vector_allowed descriptor epoch digest,
            ra_grant_ids = pf_grant_ids facts, ra_resource_digests = pf_resource_digests facts,
            ra_request_template = first, ra_monotonic_expires_at = now + lifetime\<rparr>)))))"

definition authorize_retrieval_partition ::
    "policy_env \<Rightarrow> nat \<Rightarrow> policy_request list \<Rightarrow> policy_engine
      \<Rightarrow> (policy_error, retrieval_authorization) result" where
  "authorize_retrieval_partition E now requests st =
     (case requests of
        [] \<Rightarrow> Inl PInvalidInput
      | first # _ \<Rightarrow>
          rbind (ensure (length requests \<le> MAX_POLICY_SELECTORS) PLimitExceeded) (\<lambda>_.
          rbind (ensure (rq_processor first \<noteq> None) PInvalidInput) (\<lambda>_.
          rbind (collect_projects first requests {||}) (\<lambda>projects.
          rbind (ensure (en_available st) PUnavailable) (\<lambda>_.
          rbind (ok_or (en_snapshot st) PUnavailable) (\<lambda>snapshot.
          rbind (ensure (ps_protected (cs_descriptor snapshot)) PUnavailable) (\<lambda>_.
          rbind (authorize_projects E snapshot (en_revocations st) requests
                   \<lparr>pf_expires_at = rq_decision_expires_at first, pf_request_digests = {||},
                    pf_resource_digests = {||}, pf_grant_ids = {||}\<rparr>) (\<lambda>facts.
            seal_partition E now first projects (cs_descriptor snapshot) (en_epoch st) facts))))))))"

text \<open>The weak reference to the engine is an option: \<open>None\<close> once the engine is gone.\<close>

definition revalidate ::
    "nat \<Rightarrow> policy_engine option \<Rightarrow> retrieval_authorization \<Rightarrow> (policy_error, retrieval_claims) result" where
  "revalidate now authority ra =
     (if now \<ge> ra_monotonic_expires_at ra then Inl PRevoked
      else rbind (ok_or authority PUnavailable) (\<lambda>st.
           rbind (ok_or (en_snapshot st) PUnavailable) (\<lambda>snapshot.
             if \<not> en_available st then Inl PUnavailable
             else if \<not> ps_protected (cs_descriptor snapshot)
                  \<or> ps_revision (cs_descriptor snapshot) \<noteq> rc_policy_revision (ra_claims ra)
                  \<or> ps_policy_digest (cs_descriptor snapshot) \<noteq> rc_policy_digest (ra_claims ra)
                  \<or> en_epoch st \<noteq> rc_revocation_epoch (ra_claims ra)
                  \<or> rc_principal_id (ra_claims ra) |\<in>| rv_principals (en_revocations st)
                  \<or> ra_grant_ids ra |\<inter>| rv_grants (en_revocations st) \<noteq> {||}
                  \<or> ra_resource_digests ra |\<inter>| rv_resources (en_revocations st) \<noteq> {||}
             then Inl PRevoked
             else Inr (ra_claims ra))))"

record resource_request =
  rr_input_digest :: content_digest
  rr_tenant_id :: record_id
  rr_project_ids :: "record_id fset"
  rr_allowed_purposes :: "string fset"
  rr_allowed_processors :: "string fset"
  rr_classification :: classification
  rr_lifecycle :: lifecycle
  rr_integrity_verified :: bool
  rr_valid_from :: timestamp
  rr_valid_until :: "timestamp option"
  rr_observed_at :: timestamp
  rr_instruction_authority :: instruction_authority

definition record_request :: "retrieval_authorization \<Rightarrow> resource_request \<Rightarrow> record_id \<Rightarrow> policy_request" where
  "record_request ra resource project =
     (ra_request_template ra)\<lparr>rq_input_digest := rr_input_digest resource,
        rq_tenant_id := rr_tenant_id resource, rq_project_id := Some project,
        rq_allowed_purposes := rr_allowed_purposes resource,
        rq_allowed_processors := (if rr_allowed_processors resource = {||} then {|''*''|}
                                  else rr_allowed_processors resource),
        rq_classification := rr_classification resource, rq_lifecycle := rr_lifecycle resource,
        rq_integrity_verified := rr_integrity_verified resource,
        rq_valid_from := rr_valid_from resource, rq_valid_until := rr_valid_until resource,
        rq_observed_at := rr_observed_at resource,
        rq_instruction_authority := rr_instruction_authority resource\<rparr>"

fun allows_all ::
    "compiled_snapshot \<Rightarrow> revocations \<Rightarrow> policy_request \<Rightarrow> policy_resource list \<Rightarrow> (policy_error, bool) result" where
  "allows_all snapshot rv r [] = Inr True"
| "allows_all snapshot rv r (k # ks) =
     rbind (validate_request k (r\<lparr>rq_resource := k\<rparr>)) (\<lambda>_.
     rbind (evaluate snapshot (r\<lparr>rq_resource := k\<rparr>) rv) (\<lambda>d.
       if pd_outcome d \<noteq> Allow then Inr False else allows_all snapshot rv r ks))"

fun any_project ::
    "compiled_snapshot \<Rightarrow> revocations \<Rightarrow> retrieval_authorization \<Rightarrow> resource_request
      \<Rightarrow> policy_resource list \<Rightarrow> record_id list \<Rightarrow> (policy_error, bool) result" where
  "any_project snapshot rv ra resource kinds [] = Inr False"
| "any_project snapshot rv ra resource kinds (p # ps) =
     rbind (allows_all snapshot rv (record_request ra resource p) kinds) (\<lambda>allowed.
       if allowed then Inr True else any_project snapshot rv ra resource kinds ps)"

text \<open>
  The engine is read twice: once by \<open>revalidate\<close> and once for the evaluation, with other threads
  possibly in between.
\<close>

definition authorize_resource ::
    "nat \<Rightarrow> policy_engine option \<Rightarrow> policy_engine option \<Rightarrow> retrieval_authorization \<Rightarrow> resource_request \<Rightarrow> bool
      \<Rightarrow> (policy_error, bool) result" where
  "authorize_resource now authority1 authority2 ra resource processor_required =
     rbind (revalidate now authority1 ra) (\<lambda>_.
       if rr_project_ids resource = {||} \<or> fcard (rr_project_ids resource) > MAX_POLICY_SELECTORS
          \<or> rr_allowed_purposes resource = {||} \<or> fcard (rr_allowed_purposes resource) > MAX_POLICY_SELECTORS
          \<or> fcard (rr_allowed_processors resource) > MAX_POLICY_SELECTORS
       then Inl PInvalidInput
       else let projects = rr_project_ids resource |\<inter>| rc_project_ids (ra_claims ra)
            in if projects = {||} \<or> rr_tenant_id resource \<noteq> rc_tenant_id (ra_claims ra) then Inr False
               else rbind (ok_or authority2 PUnavailable) (\<lambda>st.
                    rbind (ok_or (en_snapshot st) PUnavailable) (\<lambda>snapshot.
                      if \<not> en_available st \<or> \<not> ps_protected (cs_descriptor snapshot)
                         \<or> ps_revision (cs_descriptor snapshot) \<noteq> rc_policy_revision (ra_claims ra)
                         \<or> ps_policy_digest (cs_descriptor snapshot) \<noteq> rc_policy_digest (ra_claims ra)
                         \<or> en_epoch st \<noteq> rc_revocation_epoch (ra_claims ra)
                      then Inl PRevoked
                      else any_project snapshot (en_revocations st) ra resource
                             ([Metadata, Content] @ (if processor_required then [Processor] else []))
                             (sorted_list_of_fset projects))))"

subsection \<open>Eviction\<close>

lemma tenant_count_filter_le: "tenant_count t (filter P m) \<le> tenant_count t m"
  by (induction m) (auto simp: tenant_count_def bt_keys_def)

lemma tenant_count_bt_insert:
  "tenant_count t (bt_insert k d m) \<le> tenant_count t m + (if fst k = t then 1 else 0)"
  unfolding tenant_count_def by (rule filter_keys_bt_insert)

text \<open>What an eviction may do: keep a well-formed part of the map and count what it dropped.\<close>

definition shrinks :: "(cache_key, policy_decision) btree \<Rightarrow> (cache_key, policy_decision) btree \<Rightarrow> bool" where
  "shrinks m m' \<longleftrightarrow> bt_invar m' \<and> set m' \<subseteq> set m \<and> length m' \<le> length m \<and>
     (\<forall>t. tenant_count t m' \<le> tenant_count t m)"

lemma shrinks_filter: "bt_invar m \<Longrightarrow> shrinks m (filter P m)"
  by (auto simp: shrinks_def bt_invar_filter tenant_count_filter_le)

lemma shrinks_trans: "shrinks m m' \<Longrightarrow> shrinks m' m'' \<Longrightarrow> shrinks m m''"
  unfolding shrinks_def by (meson le_trans subset_trans)

lemma evict_tenant_spec:
  assumes "bt_invar m"
  shows "shrinks m (fst (evict_tenant t m)) \<and>
    tenant_count t (fst (evict_tenant t m)) < MAX_POLICY_CACHE_ENTRIES_PER_TENANT"
  using assms
proof (induction t m rule: evict_tenant.induct)
  case (1 t m)
  show ?case
  proof (cases "tenant_count t m \<ge> MAX_POLICY_CACHE_ENTRIES_PER_TENANT")
    case False
    with 1 show ?thesis by (simp add: evict_tenant.simps [of t m] shrinks_def)
  next
    case True
    then have "filter (\<lambda>k. fst k = t) (bt_keys m) \<noteq> []"
      by (auto simp: tenant_count_def MAX_POLICY_CACHE_ENTRIES_PER_TENANT_def)
    then obtain k where k: "find (\<lambda>k. fst k = t) (bt_keys m) = Some k"
      by (cases "find (\<lambda>k. fst k = t) (bt_keys m)") (auto simp: find_None_iff filter_empty_conv)
    have step: "shrinks m (bt_remove k m)" using "1.prems" by (simp add: bt_remove_def shrinks_filter)
    have "shrinks (bt_remove k m) (fst (evict_tenant t (bt_remove k m))) \<and>
        tenant_count t (fst (evict_tenant t (bt_remove k m))) < MAX_POLICY_CACHE_ENTRIES_PER_TENANT"
      using 1 True k by (simp add: bt_invar_remove)
    then show ?thesis
      using True k shrinks_trans [OF step] by (simp add: evict_tenant.simps [of t m] split_beta Let_def)
  qed
qed

lemma evict_global_spec:
  "bt_invar m \<Longrightarrow> shrinks m (fst (evict_global m)) \<and> length (fst (evict_global m)) < MAX_POLICY_CACHE_ENTRIES"
proof (induction m rule: evict_global.induct)
  case 1
  then show ?case by (simp add: shrinks_def MAX_POLICY_CACHE_ENTRIES_def)
next
  case (2 kv m)
  have tail: "shrinks (kv # m) m"
    using "2.prems" bt_invar_tl [of "kv # m"] by (auto simp: shrinks_def tenant_count_def bt_keys_def)
  then have "bt_invar m" by (simp add: shrinks_def)
  with 2 shrinks_trans [OF tail] show ?case by (auto simp: shrinks_def split_beta Let_def)
qed

subsection \<open>The cache invariant\<close>

text \<open>
  The steps of an engine whose authorized requests come from \<open>R\<close>: administration, and the two
  critical sections of an authorization.
\<close>

inductive engine_step :: "policy_env \<Rightarrow> policy_request set \<Rightarrow> policy_engine \<Rightarrow> policy_engine \<Rightarrow> bool"
  for E :: policy_env and R :: "policy_request set" where
  step_install: "engine_step E R st (fst (install E profile t st))"
| step_revoke: "engine_step E R st (fst (revoke what t st))"
| step_available: "engine_step E R st (set_available b st)"
| step_lookup: "r \<in> R \<Longrightarrow> request_digest E r = Inr digest \<Longrightarrow>
    engine_step E R st (fst (authorize_lookup r digest st))"
| step_fill: "r \<in> R \<Longrightarrow> request_digest E r = Inr digest \<Longrightarrow>
    engine_step E R st (fst (authorize_fill r digest st))"

inductive_cases engine_stepE: "engine_step E R st st'"

abbreviation engine_init :: "policy_engine \<Rightarrow> bool" where
  "engine_init st \<equiv> st = engine_default"

definition cache_bounded :: "policy_engine \<Rightarrow> bool" where
  "cache_bounded st \<longleftrightarrow> bt_invar (en_cache st) \<and> length (en_cache st) \<le> MAX_POLICY_CACHE_ENTRIES \<and>
     (\<forall>t. tenant_count t (en_cache st) \<le> MAX_POLICY_CACHE_ENTRIES_PER_TENANT)"

text \<open>
  Every entry is what evaluating its request now would give. This can only fail once the epoch has
  reached the largest 64-bit value.
\<close>

definition entry_fresh ::
    "policy_env \<Rightarrow> policy_request set \<Rightarrow> policy_engine \<Rightarrow> cache_key \<Rightarrow> policy_decision \<Rightarrow> bool" where
  "entry_fresh E R st k d \<longleftrightarrow>
     (\<exists>r \<in> R. \<exists>digest snapshot. request_digest E r = Inr digest \<and> en_snapshot st = Some snapshot \<and>
        k = cache_key_of r digest snapshot (en_epoch st) \<and>
        evaluate snapshot r (en_revocations st) = Inr d)"

definition cache_fresh :: "policy_env \<Rightarrow> policy_request set \<Rightarrow> policy_engine \<Rightarrow> bool" where
  "cache_fresh E R st \<longleftrightarrow> en_epoch st \<noteq> - 1 \<longrightarrow> (\<forall>(k, d) \<in> set (en_cache st). entry_fresh E R st k d)"

definition engine_inv :: "policy_env \<Rightarrow> policy_request set \<Rightarrow> policy_engine \<Rightarrow> bool" where
  "engine_inv E R st \<longleftrightarrow> cache_bounded st \<and> cache_fresh E R st"

lemma engine_inv_same:
  assumes "engine_inv E R st" and "en_cache st' = en_cache st" and "en_epoch st' = en_epoch st"
    and "en_snapshot st' = en_snapshot st" and "en_revocations st' = en_revocations st"
  shows "engine_inv E R st'"
  using assms by (simp add: engine_inv_def cache_bounded_def cache_fresh_def entry_fresh_def)

lemma engine_inv_empty: "en_cache st = [] \<Longrightarrow> engine_inv E R st"
  by (simp add: engine_inv_def cache_bounded_def cache_fresh_def tenant_count_def bt_keys_def)

lemma engine_inv_install: "engine_inv E R st \<Longrightarrow> engine_inv E R (fst (install E profile t st))"
  by (auto simp: install_def Let_def engine_inv_empty split: sum.splits prod.splits option.splits)

lemma engine_inv_revoke: "engine_inv E R st \<Longrightarrow> engine_inv E R (fst (revoke what t st))"
proof (cases "checked_add (en_epoch st) 1")
  case None
  then have "en_epoch st = - 1" by (simp add: checked_add_one_eq_None_iff)
  with None show "engine_inv E R st \<Longrightarrow> ?thesis"
    by (cases "en_snapshot st")
      (simp_all add: revoke_def Let_def engine_inv_def cache_bounded_def cache_fresh_def)
next
  case (Some e)
  then show "engine_inv E R st \<Longrightarrow> ?thesis"
    by (auto simp: revoke_def Let_def engine_inv_empty split: option.splits)
qed

lemma engine_inv_lookup: "engine_inv E R st \<Longrightarrow> engine_inv E R (fst (authorize_lookup r digest st))"
  by (auto simp: authorize_lookup_def split: option.splits elim: engine_inv_same)

lemma engine_inv_shrink:
  assumes "engine_inv E R st" and "shrinks (en_cache st) m"
  shows "engine_inv E R (st\<lparr>en_cache := m\<rparr>)"
proof -
  have "cache_bounded (st\<lparr>en_cache := m\<rparr>)"
    using assms unfolding engine_inv_def cache_bounded_def shrinks_def by (auto intro: le_trans)
  moreover have "entry_fresh E R (st\<lparr>en_cache := m\<rparr>) k d \<longleftrightarrow> entry_fresh E R st k d" for k d
    by (simp add: entry_fresh_def)
  ultimately show ?thesis
    using assms by (auto simp: engine_inv_def cache_fresh_def shrinks_def)
qed

lemma engine_inv_insert:
  assumes inv: "engine_inv E R st" and "length (en_cache st) < MAX_POLICY_CACHE_ENTRIES"
    and "tenant_count (fst k) (en_cache st) < MAX_POLICY_CACHE_ENTRIES_PER_TENANT"
    and "entry_fresh E R st k d"
  shows "engine_inv E R (st\<lparr>en_cache := bt_insert k d (en_cache st)\<rparr>)"
proof -
  have m: "bt_invar (en_cache st)" using inv by (simp add: engine_inv_def cache_bounded_def)
  have "tenant_count t (bt_insert k d (en_cache st)) \<le> MAX_POLICY_CACHE_ENTRIES_PER_TENANT" for t
    using tenant_count_bt_insert [of t k d "en_cache st"] assms(3) inv
    by (cases "fst k = t") (auto simp: engine_inv_def cache_bounded_def intro: order_trans)
  moreover have "length (bt_insert k d (en_cache st)) \<le> MAX_POLICY_CACHE_ENTRIES"
    using assms(2) by (simp add: length_bt_insert [OF m])
  moreover have "entry_fresh E R (st\<lparr>en_cache := c\<rparr>) k' d' \<longleftrightarrow> entry_fresh E R st k' d'" for c k' d'
    by (simp add: entry_fresh_def)
  moreover have "set (bt_insert k d (en_cache st)) \<subseteq> insert (k, d) (set (en_cache st))"
    by (auto simp: set_bt_insert [OF m] bt_remove_def)
  ultimately show ?thesis
    using inv assms(4) by (auto simp: engine_inv_def cache_bounded_def cache_fresh_def bt_invar_insert)
qed

lemma engine_inv_fill:
  assumes inv: "engine_inv E R st" and r: "r \<in> R" "request_digest E r = Inr digest"
  shows "engine_inv E R (fst (authorize_fill r digest st))"
proof (cases "en_snapshot st")
  case None
  with inv show ?thesis by (simp add: authorize_fill_def)
next
  case (Some snapshot)
  define key where "key = cache_key_of r digest snapshot (en_epoch st)"
  define st1 where "st1 = st\<lparr>en_cache := bt_retain (\<lambda>_ d. pd_expires_at d > rq_observed_as_of r) (en_cache st)\<rparr>"
  have m: "bt_invar (en_cache st)" using inv by (simp add: engine_inv_def cache_bounded_def)
  have inv1: "engine_inv E R st1"
    unfolding st1_def by (rule engine_inv_shrink [OF inv]) (simp add: bt_retain_def shrinks_filter m)
  obtain d where d: "evaluate snapshot r (en_revocations st) = Inr d" using evaluate_total by blast
  define m1 where "m1 = fst (evict_tenant (rq_tenant_id r) (en_cache st1))"
  define m2 where "m2 = fst (evict_global m1)"
  have t: "shrinks (en_cache st1) m1" "tenant_count (rq_tenant_id r) m1 < MAX_POLICY_CACHE_ENTRIES_PER_TENANT"
    using evict_tenant_spec [of "en_cache st1" "rq_tenant_id r"] inv1
    by (auto simp: m1_def engine_inv_def cache_bounded_def)
  have g: "shrinks m1 m2" "length m2 < MAX_POLICY_CACHE_ENTRIES"
    using evict_global_spec [of m1] t(1) by (auto simp: m2_def shrinks_def)
  have inv2: "engine_inv E R (st1\<lparr>en_cache := m2\<rparr>)"
    using inv1 shrinks_trans [OF t(1) g(1)] by (rule engine_inv_shrink)
  have "entry_fresh E R (st1\<lparr>en_cache := m2\<rparr>) key d"
    using r d Some by (auto simp: entry_fresh_def st1_def key_def)
  then have inv3: "engine_inv E R (st1\<lparr>en_cache := bt_insert key d m2\<rparr>)"
    using engine_inv_insert [OF inv2, of key d] g t(2)
    by (auto simp: key_def cache_key_of_def shrinks_def intro: le_less_trans)
  show ?thesis
  proof (cases "en_available st \<and> bt_get (en_cache st1) key = None")
    case True
    with Some d show ?thesis
      by (intro engine_inv_same [OF inv3])
        (simp_all add: authorize_fill_def Let_def split_beta m1_def m2_def st1_def key_def)
  next
    case False
    show ?thesis
    proof (cases "en_available st")
      case True
      with False Some show ?thesis
        by (intro engine_inv_same [OF inv1]) (auto simp: authorize_fill_def Let_def st1_def key_def)
    qed (simp add: authorize_fill_def inv)
  qed
qed

interpretation engine: invariant_system engine_init "engine_step E R" "engine_inv E R" for E R
proof
  show "engine_init st \<Longrightarrow> engine_inv E R st" for st
    by (simp add: engine_inv_empty engine_default_def)
  show "engine_inv E R st \<Longrightarrow> engine_step E R st st' \<Longrightarrow> engine_inv E R st'" for st st'
    by (erule engine_stepE)
      (auto simp: engine_inv_install engine_inv_revoke engine_inv_lookup engine_inv_fill set_available_def
        elim: engine_inv_same)
qed

subsection \<open>What the cache returns\<close>

lemma cached_entry_fresh:
  assumes inv: "engine_inv E R st" and free: "collision_free E R" and wf: "\<forall>r \<in> R. request_wf r"
    and epoch: "en_epoch st \<noteq> - 1" and r: "r \<in> R" "request_digest E r = Inr digest"
    and snap: "en_snapshot st = Some snapshot"
    and hit: "bt_get (en_cache st) (cache_key_of r digest snapshot (en_epoch st)) = Some d"
  shows "evaluate snapshot r (en_revocations st) = Inr d"
proof -
  have "entry_fresh E R st (cache_key_of r digest snapshot (en_epoch st)) d"
    using inv epoch map_of_SomeD [OF hit] by (auto simp: engine_inv_def cache_fresh_def)
  then obtain r' where "r' \<in> R" "request_digest E r' = Inr digest" "evaluate snapshot r' (en_revocations st) = Inr d"
    using snap by (auto simp: entry_fresh_def cache_key_of_def)
  moreover from this have "r' = r" using request_digest_inject [OF free] r wf by blast
  ultimately show ?thesis by simp
qed

text \<open>The decision of an authorization that ran against this state.\<close>

definition decides :: "policy_engine \<Rightarrow> policy_request \<Rightarrow> policy_decision \<Rightarrow> bool" where
  "decides st r d \<longleftrightarrow> en_available st \<and>
     (\<exists>snapshot. en_snapshot st = Some snapshot \<and> evaluate snapshot r (en_revocations st) = Inr d)"

lemma authorize_lookup_decides:
  assumes "engine_inv E R st" and "collision_free E R" and "\<forall>r \<in> R. request_wf r"
    and "en_epoch st \<noteq> - 1" and "r \<in> R" and "request_digest E r = Inr digest"
    and "authorize_lookup r digest st = (st', Inr (Some d))"
  shows "decides st r d"
  using assms(7) cached_entry_fresh [OF assms(1-6)]
  by (auto simp: authorize_lookup_def decides_def split: if_splits option.splits)

lemma authorize_fill_decides:
  assumes "engine_inv E R st" and "collision_free E R" and "\<forall>r \<in> R. request_wf r"
    and "en_epoch st \<noteq> - 1" and "r \<in> R" and "request_digest E r = Inr digest"
    and "authorize_fill r digest st = (st', Inr d)"
  shows "decides st r d"
proof -
  have m: "bt_invar (en_cache st)" using assms(1) by (simp add: engine_inv_def cache_bounded_def)
  show ?thesis
    using assms(7) cached_entry_fresh [OF assms(1-6)]
    by (auto simp: authorize_fill_def decides_def Let_def bt_get_retain [OF m] split_beta
        split: if_splits option.splits sum.splits)
qed

lemma authorize_lookup_miss: "authorize_lookup r digest st = (st1, Inr None) \<Longrightarrow> st1 = st"
  by (auto simp: authorize_lookup_def split: if_splits option.splits)

text \<open>
  (C3) The cache is transparent: an authorization returns exactly the decision that evaluating the
  request from scratch gives, under the policy and the revocations in force at one of the two
  moments it held the lock, whatever other threads did before and in between. (Assuming SHA-256
  does not collide on the requests in use, and before the 64-bit epoch is exhausted.)
\<close>

theorem cache_is_transparent:
  assumes "reach engine_init (engine_step E R) st" and "collision_free E R" and "\<forall>r \<in> R. request_wf r"
    and "r \<in> R" and "reach engine_init (engine_step E R) (env st)"
    and "en_epoch st \<noteq> - 1" and "en_epoch (env st) \<noteq> - 1"
    and "authorize E env expected r st = (st', Inr d)"
  shows "decides st r d \<or> decides (env st) r d"
proof -
  obtain digest where guard: "rbind (validate_request expected r) (\<lambda>_. request_digest E r) = Inr digest"
    using assms(8) by (auto simp: authorize_def split: sum.splits)
  then have digest: "request_digest E r = Inr digest" by (auto simp: result_simps)
  note inv = engine.invar_reach [OF assms(1)] and inv' = engine.invar_reach [OF assms(5)]
  obtain st1 res where look: "authorize_lookup r digest st = (st1, res)" by (cases "authorize_lookup r digest st")
  show ?thesis
  proof (cases res)
    case (Inl e)
    with assms(8) guard look show ?thesis by (simp add: authorize_def)
  next
    case (Inr hit)
    show ?thesis
    proof (cases hit)
      case None
      with Inr look have "st1 = st" by (simp add: authorize_lookup_miss)
      then have "authorize_fill r digest (env st) = (st', Inr d)"
        using assms(8) guard look Inr None by (simp add: authorize_def)
      then show ?thesis using authorize_fill_decides [OF inv' assms(2,3,7,4) digest] by simp
    next
      case (Some d')
      then have "d' = d" using assms(8) guard look Inr by (simp add: authorize_def)
      then show ?thesis using authorize_lookup_decides [OF inv assms(2,3,6,4) digest] look Inr Some by simp
    qed
  qed
qed

subsection \<open>An example\<close>

definition example_env :: policy_env where
  "example_env = \<lparr>pe_sha256 = (\<lambda>m. replicate 32 (if take 20 m = ''CIGAR-POLICY-REQUEST'' then CHR ''a'' else CHR ''b'')),
     pe_profile_cbor = (\<lambda>_. Some ''profile'')\<rparr>"

definition example_profile :: policy_profile where
  "example_profile = \<lparr>pp_schema_version = ''cigar.policy-profile.v1'', pp_revision = 1, pp_protected = True, pp_rules = []\<rparr>"

definition example_engine :: policy_engine where
  "example_engine = fst (install example_env example_profile 0 engine_default)"

lemma example_digest_parts:
  "digest_parts example_env d ps = Inr (''1220'' @ hex (pe_sha256 example_env (d @ concat (map (\<lambda>p. p @ NUL) ps))))"
  by (rule digest_parts_total) (simp add: example_env_def)

lemma example_request_digest: "\<exists>x. request_digest example_env r = Inr x"
  by (simp add: request_digest_def example_digest_parts)

lemma example_collision_free: "collision_free example_env {r}"
  by (simp add: collision_free_def request_preimage_def cache_key_preimage_def example_env_def inj_on_def)

lemma example_request_wf: "request_wf example_request"
  by (simp add: request_wf_def example_request_def timestamp_wf_def)

lemma example_compile: "compile_rules example_profile = Inr []"
  by (simp add: compile_rules_def example_profile_def bt_keys_def bt_values_def emit_rules.simps)

lemma example_engine_fields:
  "en_available example_engine" "en_epoch example_engine = 1" "en_cache example_engine = []"
  "en_revocations example_engine = no_revocations"
  "\<exists>digest. en_snapshot example_engine = Some \<lparr>cs_descriptor = \<lparr>ps_revision = 1, ps_policy_digest = digest,
     ps_activated_at = 0, ps_protected = True\<rparr>, cs_rules = []\<rparr>"
proof -
  have "checked_add (0 :: u64) 1 = Some 1" by (simp add: checked_add_def)
  moreover obtain digest where "profile_digest example_env example_profile = Inr digest"
    by (auto simp: profile_digest_def example_env_def example_digest_parts [unfolded example_env_def])
  ultimately have e: "example_engine = engine_default\<lparr>en_epoch := 1, en_snapshot := Some
      \<lparr>cs_descriptor = \<lparr>ps_revision = 1, ps_policy_digest = digest, ps_activated_at = 0, ps_protected = True\<rparr>,
       cs_rules = []\<rparr>, en_available := True, en_cache := [], en_invalidations :=
        [\<lparr>ie_sequence = 1, ie_previous_policy_digest = None, ie_policy_digest = digest,
          ie_reason = InvPolicyChanged, ie_occurred_at = 0\<rparr>]\<rparr>"
    by (simp add: example_engine_def install_def example_compile engine_default_def Let_def)
      (simp add: example_profile_def)
  show "en_available example_engine" "en_epoch example_engine = 1" "en_cache example_engine = []"
    "en_revocations example_engine = no_revocations"
    "\<exists>digest. en_snapshot example_engine = Some \<lparr>cs_descriptor = \<lparr>ps_revision = 1, ps_policy_digest = digest,
     ps_activated_at = 0, ps_protected = True\<rparr>, cs_rules = []\<rparr>"
    by (simp_all add: e engine_default_def no_revocations_def)
qed

lemma example_engine_reach: "reach engine_init (engine_step example_env R) example_engine"
proof -
  have "reach engine_init (engine_step example_env R) engine_default" by (rule reach_init) (rule refl)
  then show ?thesis unfolding example_engine_def by (rule reach_step) (rule step_install)
qed

lemma example_request_valid: "validate_request Content example_request = Inr ()"
  by (simp add: validate_request_def example_request_def text_valid_def MAX_POLICY_TEXT_BYTES_def
      MAX_POLICY_SELECTORS_def byte_defs fcard.rep_eq)

lemma authorize_total:
  assumes "validate_request expected r = Inr ()" and "request_digest E r = Inr digest"
    and "en_available st" and "en_snapshot st = Some snapshot"
  shows "\<exists>st' d. authorize E (\<lambda>s. s) expected r st = (st', Inr d)"
proof -
  obtain d where "evaluate snapshot r (en_revocations st) = Inr d" using evaluate_total by blast
  with assms show ?thesis
    by (auto simp: authorize_def authorize_lookup_def authorize_fill_def Let_def split_beta split: option.splits)
qed

lemma example_authorize:
  "\<exists>st' d. authorize example_env (\<lambda>s. s) Content example_request example_engine = (st', Inr d)"
  using authorize_total [OF example_request_valid _ example_engine_fields(1)] example_request_digest
    example_engine_fields(5) by blast

theorem cache_is_transparent_witness:
  "\<exists>st' d. authorize example_env (\<lambda>s. s) Content example_request example_engine = (st', Inr d) \<and>
     decides example_engine example_request d"
proof -
  obtain st' d where a: "authorize example_env (\<lambda>s. s) Content example_request example_engine = (st', Inr d)"
    using example_authorize by blast
  have "decides example_engine example_request d \<or> decides example_engine example_request d"
    using example_engine_reach [of "{example_request}"] example_collision_free
    by (rule cache_is_transparent [OF _ _ _ _ _ _ _ a])
      (simp_all add: example_request_wf example_engine_reach example_engine_fields(2))
  with a show ?thesis by blast
qed

subsection \<open>Revocation\<close>

text \<open>How one step moves the epoch, the snapshot and the revocations.\<close>

lemma engine_step_monotone:
  assumes "engine_step E R st st'"
  shows "(en_epoch st' = en_epoch st \<and> en_snapshot st' = en_snapshot st \<or>
      unat (en_epoch st') = Suc (unat (en_epoch st))) \<and>
    rv_principals (en_revocations st) |\<subseteq>| rv_principals (en_revocations st') \<and>
    rv_grants (en_revocations st) |\<subseteq>| rv_grants (en_revocations st') \<and>
    rv_resources (en_revocations st) |\<subseteq>| rv_resources (en_revocations st')"
  using assms
proof cases
  case (step_install profile t)
  then show ?thesis
    by (auto simp: install_def Let_def split: sum.splits prod.splits option.splits dest: checked_add_one_SomeD)
next
  case (step_revoke what t)
  then show ?thesis
    by (cases what) (auto simp: revoke_def Let_def split: option.splits dest: checked_add_one_SomeD)
next
  case (step_available b)
  then show ?thesis by (simp add: set_available_def)
next
  case (step_lookup r digest)
  then show ?thesis by (auto simp: authorize_lookup_def split: option.splits)
next
  case (step_fill r digest)
  then show ?thesis
    by (auto simp: authorize_fill_def Let_def split_beta split: option.splits sum.splits)
qed

lemma engine_run_monotone:
  assumes "(engine_step E R)\<^sup>*\<^sup>* st st'"
  shows "(en_epoch st' = en_epoch st \<and> en_snapshot st' = en_snapshot st \<or> unat (en_epoch st) < unat (en_epoch st')) \<and>
    rv_principals (en_revocations st) |\<subseteq>| rv_principals (en_revocations st') \<and>
    rv_grants (en_revocations st) |\<subseteq>| rv_grants (en_revocations st') \<and>
    rv_resources (en_revocations st) |\<subseteq>| rv_resources (en_revocations st')"
  using assms
proof (induction rule: rtranclp_induct)
  case (step y z)
  have m: "(en_epoch z = en_epoch y \<and> en_snapshot z = en_snapshot y \<or> unat (en_epoch z) = Suc (unat (en_epoch y))) \<and>
    rv_principals (en_revocations y) |\<subseteq>| rv_principals (en_revocations z) \<and>
    rv_grants (en_revocations y) |\<subseteq>| rv_grants (en_revocations z) \<and>
    rv_resources (en_revocations y) |\<subseteq>| rv_resources (en_revocations z)"
    using step(2) by (rule engine_step_monotone)
  have "en_epoch z = en_epoch st \<and> en_snapshot z = en_snapshot st \<or> unat (en_epoch st) < unat (en_epoch z)"
    using m step.IH by auto
  then show ?case using m step.IH by (blast intro: order_trans)
qed simp

text \<open>What a revocation covers.\<close>

definition covers :: "revocation \<Rightarrow> policy_request \<Rightarrow> bool" where
  "covers what r \<longleftrightarrow> (case what of RevPrincipal p \<Rightarrow> rq_principal_id r = p
     | RevResource d \<Rightarrow> rq_input_digest r = d
     | RevGrant g \<Rightarrow> Option.bind (rq_capability r) cc_grant_id = Some g)"

lemma covers_revoked:
  "covers what r \<Longrightarrow> rv_principals (add_revocation what rv) |\<subseteq>| rv_principals rv' \<Longrightarrow>
    rv_grants (add_revocation what rv) |\<subseteq>| rv_grants rv' \<Longrightarrow>
    rv_resources (add_revocation what rv) |\<subseteq>| rv_resources rv' \<Longrightarrow> revoked rv' r"
  by (cases what) (auto simp: covers_def revoked_def)

lemma evaluate_revoked: "evaluate snapshot r rv = Inr d \<Longrightarrow> revoked rv r \<Longrightarrow> pd_outcome d \<noteq> Allow"
  by (simp add: evaluate_def hard_gate_def) auto

text \<open>
  What a successful revocation leaves behind for good: it covers its requests, and no cached decision of a request it
  covers allows. This holds at every epoch: entries are only added under the revocations in force.
\<close>

definition enforced :: "policy_env \<Rightarrow> policy_request set \<Rightarrow> revocation \<Rightarrow> policy_engine \<Rightarrow> bool" where
  "enforced E R what st \<longleftrightarrow> bt_invar (en_cache st) \<and> (\<forall>r. covers what r \<longrightarrow> revoked (en_revocations st) r) \<and>
     (\<forall>(k, d) \<in> set (en_cache st). \<exists>r \<in> R. request_digest E r = Inr (fst (snd k)) \<and> (covers what r \<longrightarrow> pd_outcome d \<noteq> Allow))"

lemma revoked_mono:
  "revoked rv r \<Longrightarrow> rv_principals rv |\<subseteq>| rv_principals rv' \<Longrightarrow> rv_grants rv |\<subseteq>| rv_grants rv' \<Longrightarrow>
    rv_resources rv |\<subseteq>| rv_resources rv' \<Longrightarrow> revoked rv' r"
  by (auto simp: revoked_def split: option.splits)

lemma enforced_cacheI:
  assumes "enforced E R what st" "bt_invar (en_cache st')" "set (en_cache st') \<subseteq> set (en_cache st)"
    and "\<And>r. revoked (en_revocations st) r \<Longrightarrow> revoked (en_revocations st') r"
  shows "enforced E R what st'"
  using assms unfolding enforced_def by blast

lemma enforced_fill:
  assumes inv: "enforced E R what st" and r: "r \<in> R" "request_digest E r = Inr digest"
  shows "enforced E R what (fst (authorize_fill r digest st))"
proof (cases "en_available st \<and> en_snapshot st \<noteq> None")
  case False
  with inv show ?thesis by (auto simp: authorize_fill_def)
next
  case True
  then obtain snapshot where snapshot: "en_snapshot st = Some snapshot" by blast
  define key where "key = cache_key_of r digest snapshot (en_epoch st)"
  define kept where "kept = bt_retain (\<lambda>_ d. pd_expires_at d > rq_observed_as_of r) (en_cache st)"
  have m: "bt_invar (en_cache st)" using inv by (simp add: enforced_def)
  have kept: "shrinks (en_cache st) kept" by (simp add: kept_def bt_retain_def shrinks_filter m)
  obtain d where d: "evaluate snapshot r (en_revocations st) = Inr d" using evaluate_total by blast
  define m2 where "m2 = fst (evict_global (fst (evict_tenant (rq_tenant_id r) kept)))"
  have "bt_invar m2" "set m2 \<subseteq> set (en_cache st)"
    using kept evict_tenant_spec [of kept "rq_tenant_id r"] evict_global_spec [of "fst (evict_tenant (rq_tenant_id r) kept)"]
    by (auto simp: m2_def shrinks_def)
  let ?st' = "fst (authorize_fill r digest st)"
  have revs: "en_revocations ?st' = en_revocations st"
    using True snapshot d by (simp add: authorize_fill_def Let_def split_beta split: option.splits)
  show ?thesis
  proof (cases "bt_get kept key")
    case None
    then have cache: "en_cache ?st' = bt_insert key d m2"
      using True snapshot d by (simp add: authorize_fill_def Let_def split_beta key_def kept_def m2_def)
    from \<open>bt_invar m2\<close> \<open>set m2 \<subseteq> set (en_cache st)\<close> have new: "bt_invar (bt_insert key d m2)" "set (bt_insert key d m2) \<subseteq> insert (key, d) (set (en_cache st))"
      by (auto simp: bt_invar_insert set_bt_insert bt_remove_def)
    have "covers what r \<Longrightarrow> pd_outcome d \<noteq> Allow" using inv evaluate_revoked [OF d] by (simp add: enforced_def)
    then have "\<exists>r \<in> R. request_digest E r = Inr (fst (snd key)) \<and> (covers what r \<longrightarrow> pd_outcome d \<noteq> Allow)"
      using r by (auto simp: key_def cache_key_of_def)
    with inv new show ?thesis unfolding enforced_def revs cache by blast
  next
    case (Some d')
    then have "en_cache ?st' = kept" using True snapshot by (simp add: authorize_fill_def Let_def key_def kept_def)
    with kept inv revs show ?thesis by (intro enforced_cacheI [OF inv]) (auto simp: shrinks_def)
  qed
qed

lemma enforced_step:
  assumes "engine_step E R st st'" "enforced E R what st"
  shows "enforced E R what st'"
proof -
  have grows: "revoked (en_revocations st') r" if "revoked (en_revocations st) r" for r
    using that engine_step_monotone [OF assms(1)] by (blast intro: revoked_mono)
  have empty: "en_cache st' = [] \<Longrightarrow> enforced E R what st'" using assms(2) grows by (intro enforced_cacheI [OF assms(2)]) auto
  have same: "en_cache st' = en_cache st \<Longrightarrow> enforced E R what st'"
    using assms(2) grows by (intro enforced_cacheI [OF assms(2)]) (auto simp: enforced_def)
  from assms(1) show ?thesis
  proof cases
    case (step_install profile t)
    have "en_cache st' = [] \<or> en_cache st' = en_cache st"
      by (simp add: step_install install_def Let_def split: sum.splits prod.splits option.splits)
    with empty same show ?thesis by blast
  next
    case (step_revoke what' t)
    have "en_cache st' = [] \<or> en_cache st' = en_cache st" by (simp add: step_revoke revoke_def Let_def split: option.splits)
    with empty same show ?thesis by blast
  next
    case (step_available b)
    then show ?thesis by (intro same) (simp add: set_available_def)
  next
    case (step_lookup r digest)
    then show ?thesis by (intro same) (simp add: authorize_lookup_def split: option.splits)
  next
    case (step_fill r digest)
    with enforced_fill [OF assms(2)] show ?thesis by blast
  qed
qed

lemma enforced_run: "(engine_step E R)\<^sup>*\<^sup>* st st' \<Longrightarrow> enforced E R what st \<Longrightarrow> enforced E R what st'"
  by (induction rule: rtranclp_induct) (auto intro: enforced_step)

lemma enforced_revoke: "revoke what t st = (st1, Inr event) \<Longrightarrow> enforced E R what st1"
  using covers_revoked [of what _ "en_revocations st" "add_revocation what (en_revocations st)"]
  by (auto simp: revoke_def Let_def enforced_def split: option.splits)

lemma enforced_hit:
  assumes "enforced E R what st" "collision_free E R" "\<forall>r \<in> R. request_wf r" "r \<in> R" "covers what r"
    and "request_digest E r = Inr digest" "(cache_key_of r digest snapshot epoch, d) \<in> set (en_cache st)"
  shows "pd_outcome d \<noteq> Allow"
proof -
  obtain r' where "r' \<in> R" "request_digest E r' = Inr digest" "covers what r' \<Longrightarrow> pd_outcome d \<noteq> Allow"
    using assms(1,7) by (fastforce simp: enforced_def cache_key_of_def)
  moreover from this have "r' = r" using request_digest_inject [OF assms(2)] assms(3,4,6) by blast
  ultimately show ?thesis using assms(5) by simp
qed

lemma enforced_lookup:
  assumes "enforced E R what st" "collision_free E R" "\<forall>r \<in> R. request_wf r" "r \<in> R" "covers what r"
    and "request_digest E r = Inr digest" "authorize_lookup r digest st = (st', Inr (Some d))"
  shows "pd_outcome d \<noteq> Allow"
  using assms(7) by (auto simp: authorize_lookup_def split: if_splits option.splits dest!: map_of_SomeD dest: enforced_hit [OF assms(1-6)])

lemma enforced_filled:
  assumes "enforced E R what st" "collision_free E R" "\<forall>r \<in> R. request_wf r" "r \<in> R" "covers what r"
    and "request_digest E r = Inr digest" "authorize_fill r digest st = (st', Inr d)"
  shows "pd_outcome d \<noteq> Allow"
proof -
  have m: "bt_invar (en_cache st)" and rev: "revoked (en_revocations st) r" using assms(1,5) by (simp_all add: enforced_def)
  obtain snapshot where snapshot: "en_snapshot st = Some snapshot"
    using assms(7) by (auto simp: authorize_fill_def split: if_splits option.splits)
  let ?key = "cache_key_of r digest snapshot (en_epoch st)"
  have "bt_get (en_cache st) ?key = Some d \<or> evaluate snapshot r (en_revocations st) = Inr d"
    using assms(7) snapshot
    by (auto simp: authorize_fill_def Let_def bt_get_retain [OF m] split_beta split: if_splits option.splits sum.splits)
  then show ?thesis
    using evaluate_revoked [OF _ rev] enforced_hit [OF assms(1-6)] by (auto dest: map_of_SomeD)
qed

text \<open>
  (C2) Revocation is immediate and permanent: once revoking a principal, a grant or a resource has succeeded, no
  authorization of a request it covers returns an allowing decision in any later state, however the cache was filled
  before and whatever other threads do before, during and after the authorization, at every epoch. (Requests have the
  shape their Rust types enforce, and SHA-256 is assumed not to collide on the requests in use, since the cache finds a
  decision by the digest of its request.)
\<close>

theorem revocation_is_immediate:
  assumes "collision_free E R" and "\<forall>r \<in> R. request_wf r"
    and "revoke what t st = (st1, Inr event)" and "(engine_step E R)\<^sup>*\<^sup>* st1 st2"
    and "r \<in> R" and "covers what r" and "(engine_step E R)\<^sup>*\<^sup>* st2 (env st2)"
    and "authorize E env expected r st2 = (st3, Inr d)"
  shows "pd_outcome d \<noteq> Allow"
proof -
  note now = enforced_run [OF assms(4) enforced_revoke [OF assms(3)]]
  note then_on = enforced_run [OF assms(7) now]
  from assms(8) obtain digest where guard: "rbind (validate_request expected r) (\<lambda>_. request_digest E r) = Inr digest"
    by (auto simp: authorize_def split: sum.splits)
  then have digest: "request_digest E r = Inr digest" by (auto simp: result_simps)
  from assms(8) guard consider (hit) st' where "authorize_lookup r digest st2 = (st', Inr (Some d))"
    | (miss) "authorize_fill r digest (env st2) = (st3, Inr d)"
    by (auto simp: authorize_def split: prod.splits sum.splits option.splits dest!: authorize_lookup_miss)
  then show ?thesis
    using enforced_lookup [OF now assms(1,2,5,6) digest] enforced_filled [OF then_on assms(1,2,5,6) digest] by cases blast+
qed

theorem revocation_is_immediate_witness:
  "\<exists>st1 event st3 d. revoke (RevPrincipal ''p'') 1 example_engine = (st1, Inr event) \<and>
     authorize example_env (\<lambda>s. s) Content example_request st1 = (st3, Inr d) \<and> pd_outcome d \<noteq> Allow"
proof -
  obtain snapshot where s: "en_snapshot example_engine = Some snapshot" using example_engine_fields(5) by blast
  then obtain st1 event where r: "revoke (RevPrincipal ''p'') 1 example_engine = (st1, Inr event)"
    and st1: "en_epoch st1 = 2" "en_available st1" "en_snapshot st1 = Some snapshot"
    using example_engine_fields(1,2) by (auto simp: revoke_def Let_def checked_add_def)
  obtain x where "request_digest example_env example_request = Inr x" using example_request_digest by blast
  from authorize_total [OF example_request_valid this st1(2,3)]
  obtain st3 d where a: "authorize example_env (\<lambda>s. s) Content example_request st1 = (st3, Inr d)" by blast
  have "covers (RevPrincipal ''p'') example_request" by (simp add: covers_def example_request_def)
  then have "pd_outcome d \<noteq> Allow"
    using revocation_is_immediate [OF example_collision_free _ r rtranclp.rtrancl_refl _ _ _ a]
    by (simp add: example_request_wf)
  with r a show ?thesis by blast
qed

text \<open>
  A revocation that fails gives no such promise: at the last epoch it is recorded but reports an error before the
  cache is cleared, and the cached decision keeps being served.
\<close>

lemma revoke_at_last_epoch_serves_stale_decision:
  assumes "en_epoch st = - 1" and "en_available st" and "en_snapshot st = Some snapshot"
    and "bt_get (en_cache st) (cache_key_of r digest snapshot (- 1)) = Some d" and "pd_outcome d = Allow"
    and "pd_expires_at d > rq_observed_as_of r" and "revoke (RevPrincipal (rq_principal_id r)) t st = (st1, res)"
  shows "res = Inl PLimitExceeded \<and> revoked (en_revocations st1) r \<and>
    snd (authorize_lookup r digest st1) = Inr (Some d)"
proof -
  have "checked_add (- 1 :: u64) 1 = None" by (simp add: checked_add_one_eq_None_iff)
  then show ?thesis
    using assms by (auto simp: revoke_def Let_def revoked_def authorize_lookup_def)
qed

text \<open>
  The decision cache is bounded: in every reachable state it holds at most 4096 decisions and
  at most 512 of any one tenant, as the reported statistics say.
\<close>

theorem cache_is_bounded:
  assumes "reach engine_init (engine_step E R) st"
  shows "st_entries (cache_statistics_of st) \<le> MAX_POLICY_CACHE_ENTRIES \<and>
    st_maximum_tenant_entries (cache_statistics_of st) \<le> MAX_POLICY_CACHE_ENTRIES_PER_TENANT \<and>
    (\<forall>t. tenant_count t (en_cache st) \<le> st_maximum_tenant_entries (cache_statistics_of st))"
proof -
  have b: "cache_bounded st" using engine.invar_reach [OF assms] by (simp add: engine_inv_def)
  have "tenant_count t (en_cache st) \<le> st_maximum_tenant_entries (cache_statistics_of st)" for t
  proof (cases "tenant_count t (en_cache st) = 0")
    case False
    then have "filter (\<lambda>k. fst k = t) (bt_keys (en_cache st)) \<noteq> []" by (simp add: tenant_count_def)
    then obtain k where "k \<in> set (bt_keys (en_cache st))" "fst k = t" by (auto simp: filter_empty_conv)
    then show ?thesis
      using foldr_max_le_iff [THEN iffD1, OF order_refl] by (force simp: cache_statistics_of_def list_all_iff)
  qed simp
  with b show ?thesis
    by (auto simp: cache_bounded_def cache_statistics_of_def foldr_max_le_iff list_all_iff)
qed

theorem cache_is_bounded_witness:
  "st_entries (cache_statistics_of example_engine) \<le> MAX_POLICY_CACHE_ENTRIES"
  using cache_is_bounded [OF example_engine_reach] by blast

subsection \<open>Retrieval proofs\<close>

definition allows :: "compiled_snapshot \<Rightarrow> policy_request \<Rightarrow> revocations \<Rightarrow> bool" where
  "allows snapshot r rv \<longleftrightarrow> (\<exists>d. evaluate snapshot r rv = Inr d \<and> pd_outcome d = Allow)"

lemma collect_projects_InrD:
  "collect_projects first rs ps = Inr projects \<Longrightarrow>
    fset projects = fset ps \<union> {p. \<exists>r \<in> set rs. rq_project_id r = Some p} \<and>
    (\<forall>r \<in> set rs. rq_project_id r \<noteq> None \<and> r\<lparr>rq_project_id := None\<rparr> = first\<lparr>rq_project_id := None\<rparr>)"
proof (induction rs arbitrary: ps)
  case (Cons r rs)
  then obtain p where "rq_project_id r = Some p" "collect_projects first rs (finsert p ps) = Inr projects"
    "r\<lparr>rq_project_id := None\<rparr> = first\<lparr>rq_project_id := None\<rparr>"
    by (auto simp: result_simps split: if_splits)
  with Cons.IH [of "finsert p ps"] show ?case by auto
qed simp

lemma authorize_projects_InrD:
  "authorize_projects E snapshot rv rs facts = Inr facts' \<Longrightarrow>
    (\<forall>r \<in> set rs. allows snapshot r rv \<and> allows snapshot (r\<lparr>rq_resource := Processor\<rparr>) rv \<and>
       rq_input_digest r |\<in>| pf_resource_digests facts' \<and>
       (\<forall>g. Option.bind (rq_capability r) cc_grant_id = Some g \<longrightarrow> g |\<in>| pf_grant_ids facts')) \<and>
    pf_resource_digests facts |\<subseteq>| pf_resource_digests facts' \<and> pf_grant_ids facts |\<subseteq>| pf_grant_ids facts'"
proof (induction rs arbitrary: facts)
  case (Cons r rs)
  then obtain p q digest where pq: "evaluate snapshot r rv = Inr p" "evaluate snapshot (r\<lparr>rq_resource := Processor\<rparr>) rv = Inr q"
    "pd_outcome p = Allow" "pd_outcome q = Allow"
    and rest: "authorize_projects E snapshot rv rs
           \<lparr>pf_expires_at = min (min (pf_expires_at facts) (pd_expires_at p)) (pd_expires_at q),
            pf_request_digests = finsert digest (pf_request_digests facts),
            pf_resource_digests = finsert (rq_input_digest r) (pf_resource_digests facts),
            pf_grant_ids = (case Option.bind (rq_capability r) cc_grant_id of
                              None \<Rightarrow> pf_grant_ids facts | Some g \<Rightarrow> finsert g (pf_grant_ids facts))\<rparr> = Inr facts'"
    by (auto simp: result_simps split: if_splits)
  with Cons.IH [OF rest] show ?case by (auto simp: allows_def split: option.splits)
qed simp

lemma seal_partition_InrD:
  assumes "seal_partition E now first projects descriptor epoch facts = Inr ra"
  shows "ra_grant_ids ra = pf_grant_ids facts" and "ra_resource_digests ra = pf_resource_digests facts"
    and "rc_project_ids (ra_claims ra) = projects" and "rc_principal_id (ra_claims ra) = rq_principal_id first"
    and "rc_tenant_id (ra_claims ra) = rq_tenant_id first"
    and "rc_policy_digest (ra_claims ra) = ps_policy_digest descriptor"
    and "rc_policy_revision (ra_claims ra) = ps_revision descriptor"
    and "rc_revocation_epoch (ra_claims ra) = epoch" and "ra_request_template ra = first"
    and "ra_monotonic_expires_at ra \<le> now + MAX_RETRIEVAL_AUTHORIZATION_TTL"
  using assms by (auto simp: seal_partition_def partition_claims_def result_simps Let_def)

text \<open>The inversion of a successful partition authorization.\<close>

lemma authorize_retrieval_partition_InrD:
  assumes "authorize_retrieval_partition E now requests st = Inr ra"
  obtains first rest projects snapshot facts where "requests = first # rest" and "en_available st"
    and "en_snapshot st = Some snapshot" and "ps_protected (cs_descriptor snapshot)"
    and "collect_projects first requests {||} = Inr projects"
    and "authorize_projects E snapshot (en_revocations st) requests
       \<lparr>pf_expires_at = rq_decision_expires_at first, pf_request_digests = {||},
        pf_resource_digests = {||}, pf_grant_ids = {||}\<rparr> = Inr facts"
    and "seal_partition E now first projects (cs_descriptor snapshot) (en_epoch st) facts = Inr ra"
  using assms by (cases requests) (auto simp: authorize_retrieval_partition_def rbind_eq_Inr_iff
      ok_or_eq_Inr_iff simp del: collect_projects.simps authorize_projects.simps)

lemma authorize_retrieval_partition_sealed:
  assumes "authorize_retrieval_partition E now requests st = Inr ra"
  obtains snapshot projects facts where "en_available st" and "en_snapshot st = Some snapshot"
    and "ps_protected (cs_descriptor snapshot)"
    and "seal_partition E now (hd requests) projects (cs_descriptor snapshot) (en_epoch st) facts = Inr ra"
  using assms by (cases requests) (auto simp: authorize_retrieval_partition_def rbind_eq_Inr_iff
      ok_or_eq_Inr_iff simp del: collect_projects.simps authorize_projects.simps)

text \<open>
  (C29) A retrieval proof is only issued for what current policy allows: under the installed protected policy, every
  request was allowed both as a partition and for the processor, agrees with the claims on principal and tenant, and has
  its resource and its grant recorded in the proof; and the claimed projects, at least one, are exactly the projects of
  the requests.
\<close>

theorem retrieval_proof_is_sound:
  assumes "authorize_retrieval_partition E now requests st = Inr ra"
  shows "\<exists>snapshot. en_available st \<and> en_snapshot st = Some snapshot \<and> ps_protected (cs_descriptor snapshot) \<and>
    (\<forall>r \<in> set requests. rq_principal_id r = rc_principal_id (ra_claims ra) \<and> rq_tenant_id r = rc_tenant_id (ra_claims ra) \<and>
       allows snapshot r (en_revocations st) \<and>
       allows snapshot (r\<lparr>rq_resource := Processor\<rparr>) (en_revocations st) \<and>
       rq_input_digest r |\<in>| ra_resource_digests ra \<and>
       (\<forall>c g. rq_capability r = Some c \<and> cc_grant_id c = Some g \<longrightarrow> g |\<in>| ra_grant_ids ra)) \<and>
    rc_project_ids (ra_claims ra) \<noteq> {||} \<and>
    Some ` fset (rc_project_ids (ra_claims ra)) = rq_project_id ` set requests"
proof -
  from assms obtain first rest projects snapshot facts where f: "requests = first # rest" "en_available st"
    "en_snapshot st = Some snapshot" "ps_protected (cs_descriptor snapshot)"
    "collect_projects first requests {||} = Inr projects"
    "authorize_projects E snapshot (en_revocations st) requests
       \<lparr>pf_expires_at = rq_decision_expires_at first, pf_request_digests = {||},
        pf_resource_digests = {||}, pf_grant_ids = {||}\<rparr> = Inr facts"
    "seal_partition E now first projects (cs_descriptor snapshot) (en_epoch st) facts = Inr ra"
    by (rule authorize_retrieval_partition_InrD)
  note seal = seal_partition_InrD [OF f(7)]
  note c = collect_projects_InrD [OF f(5)] and a = authorize_projects_InrD [OF f(6)]
  have "rq_principal_id r = rq_principal_id first \<and> rq_tenant_id r = rq_tenant_id first" if "r \<in> set requests" for r
  proof -
    have "r\<lparr>rq_project_id := None\<rparr> = first\<lparr>rq_project_id := None\<rparr>" using c that by blast
    then have "rq_principal_id (r\<lparr>rq_project_id := None\<rparr>) = rq_principal_id (first\<lparr>rq_project_id := None\<rparr>) \<and>
      rq_tenant_id (r\<lparr>rq_project_id := None\<rparr>) = rq_tenant_id (first\<lparr>rq_project_id := None\<rparr>)" by simp
    then show ?thesis by simp
  qed
  with a have "\<forall>r \<in> set requests. rq_principal_id r = rc_principal_id (ra_claims ra) \<and> rq_tenant_id r = rc_tenant_id (ra_claims ra) \<and>
       allows snapshot r (en_revocations st) \<and> allows snapshot (r\<lparr>rq_resource := Processor\<rparr>) (en_revocations st) \<and>
       rq_input_digest r |\<in>| ra_resource_digests ra \<and>
       (\<forall>c g. rq_capability r = Some c \<and> cc_grant_id c = Some g \<longrightarrow> g |\<in>| ra_grant_ids ra)" by (auto simp: seal)
  moreover have projects: "Some ` fset (rc_project_ids (ra_claims ra)) = rq_project_id ` set requests"
    using c by (force simp: seal)
  moreover have "rc_project_ids (ra_claims ra) \<noteq> {||}" using projects f(1) by auto
  ultimately show ?thesis using f(2-4) by blast
qed

definition example_partition_request :: policy_request where
  "example_partition_request = example_request\<lparr>rq_resource := Partition, rq_processor := Some ''cpu'',
     rq_allowed_processors := {|''*''|}\<rparr>"

lemma example_allows:
  assumes "cs_rules s = []" and "k \<notin> {Bundle, Handoff, Effect}"
  shows "allows s (example_partition_request\<lparr>rq_resource := k\<rparr>) no_revocations"
  unfolding allows_def evaluate_Allow_iff gates_pass_def using assms
  by (auto simp: example_partition_request_def example_policy_defs classification_order instruction_authority_order)

lemma example_partition_valid:
  "validate_request k (example_partition_request\<lparr>rq_resource := k\<rparr>) = Inr ()"
  by (simp add: validate_request_def example_partition_request_def example_request_def text_valid_def
      MAX_POLICY_TEXT_BYTES_def MAX_POLICY_SELECTORS_def byte_defs fcard.rep_eq)

lemma example_expiry: "decision_expiry (example_partition_request\<lparr>rq_resource := k\<rparr>) = 8"
  by (simp add: decision_expiry_def example_partition_request_def example_request_def List.map_filter_def)

lemma example_proof:
  "\<exists>ra. authorize_retrieval_partition example_env 0 [example_partition_request] example_engine = Inr ra \<and>
     0 < ra_monotonic_expires_at ra \<and> rc_project_ids (ra_claims ra) = {|''q''|}"
proof -
  let ?r = example_partition_request
  have id: "?r\<lparr>rq_resource := Partition\<rparr> = ?r" by (simp add: example_partition_request_def)
  obtain digest where s: "en_snapshot example_engine = Some \<lparr>cs_descriptor = \<lparr>ps_revision = 1,
     ps_policy_digest = digest, ps_activated_at = 0, ps_protected = True\<rparr>, cs_rules = []\<rparr>" (is "_ = Some ?s")
    using example_engine_fields(5) by blast
  obtain d1 d2 where d: "evaluate ?s ?r no_revocations = Inr d1" "pd_outcome d1 = Allow"
    "evaluate ?s (?r\<lparr>rq_resource := Processor\<rparr>) no_revocations = Inr d2" "pd_outcome d2 = Allow"
    using example_allows [of ?s Partition] example_allows [of ?s Processor] unfolding id allows_def by auto
  have e: "pd_expires_at d1 = 8" "pd_expires_at d2 = 8"
    using evaluate_expiry [OF d(1)] evaluate_expiry [OF d(3)] example_expiry [of Partition] example_expiry [of Processor]
    by (simp_all add: id)
  obtain x where x: "retrieval_request_semantic_digest example_env ?r = Inr x"
    using example_request_digest by (auto simp: retrieval_request_semantic_digest_def Let_def example_digest_parts result_simps
        intro: that) (metis (no_types, lifting) example_digest_parts example_request_digest rbind_simps(2) that
          retrieval_request_semantic_digest_def)
  have fields: "rq_processor ?r = Some ''cpu''" "rq_project_id ?r = Some ''q''" "rq_decision_expires_at ?r = 8"
    "rq_observed_as_of ?r = 6"
    by (simp_all add: example_partition_request_def example_request_def)
  show ?thesis
    using example_partition_valid [of Partition] example_partition_valid [of Processor]
    by (simp add: authorize_retrieval_partition_def MAX_POLICY_SELECTORS_def fields id
        example_engine_fields(1,2,4) s d e x seal_partition_def Let_def instant_end_def
        MAX_RETRIEVAL_AUTHORIZATION_TTL_def retrieval_partition_digest_def example_digest_parts partition_claims_def)
qed

theorem retrieval_proof_is_sound_witness:
  "\<exists>ra. authorize_retrieval_partition example_env 0 [example_partition_request] example_engine = Inr ra \<and>
     rc_principal_id (ra_claims ra) = ''p'' \<and> rc_tenant_id (ra_claims ra) = ''t'' \<and> ''d'' |\<in>| ra_resource_digests ra \<and>
     Some ` fset (rc_project_ids (ra_claims ra)) = {Some ''q''}"
proof -
  obtain ra where ra: "authorize_retrieval_partition example_env 0 [example_partition_request] example_engine = Inr ra"
    using example_proof by blast
  with retrieval_proof_is_sound [OF ra] show ?thesis by (auto simp: example_partition_request_def example_request_def)
qed

text \<open>
  (C27) Retrieval proofs fail closed: if a proof still revalidates in some later state of its engine,
  then no policy was installed and no revocation completed since it was issued, its principal, its
  grants and its resources are not revoked, the engine is available, and the proof is at most five
  minutes old; the claims it releases are the ones it was issued with.
\<close>

theorem retrieval_proof_fails_closed:
  assumes "authorize_retrieval_partition E now requests st = Inr ra"
    and "(engine_step E R)\<^sup>*\<^sup>* st st'" and "revalidate now' (Some st') ra = Inr claims"
  shows "claims = ra_claims ra \<and> now' < now + MAX_RETRIEVAL_AUTHORIZATION_TTL \<and> en_available st' \<and>
    en_epoch st' = en_epoch st \<and> en_snapshot st' = en_snapshot st \<and>
    rc_principal_id claims |\<notin>| rv_principals (en_revocations st') \<and>
    ra_grant_ids ra |\<inter>| rv_grants (en_revocations st') = {||} \<and>
    ra_resource_digests ra |\<inter>| rv_resources (en_revocations st') = {||}"
proof -
  from assms(1) obtain snapshot projects facts where "en_available st" "en_snapshot st = Some snapshot"
    "ps_protected (cs_descriptor snapshot)"
    and sealed: "seal_partition E now (hd requests) projects (cs_descriptor snapshot) (en_epoch st) facts = Inr ra"
    by (rule authorize_retrieval_partition_sealed)
  note seal = seal_partition_InrD [OF sealed]
  have v: "claims = ra_claims ra" "now' < ra_monotonic_expires_at ra" "en_available st'"
    "en_epoch st' = rc_revocation_epoch (ra_claims ra)"
    "rc_principal_id (ra_claims ra) |\<notin>| rv_principals (en_revocations st')"
    "ra_grant_ids ra |\<inter>| rv_grants (en_revocations st') = {||}"
    "ra_resource_digests ra |\<inter>| rv_resources (en_revocations st') = {||}"
    using assms(3) by (auto simp: revalidate_def result_simps split: if_splits)
  have "en_snapshot st' = en_snapshot st"
    using engine_run_monotone [OF assms(2)] v(4) seal(8) by auto
  moreover have "now' < now + MAX_RETRIEVAL_AUTHORIZATION_TTL" using v(2) seal(10) by linarith
  ultimately show ?thesis using v seal(8) by simp
qed

lemma revalidate_now:
  assumes "authorize_retrieval_partition example_env 0 [example_partition_request] example_engine = Inr ra"
    and "0 < ra_monotonic_expires_at ra"
  shows "revalidate 0 (Some example_engine) ra = Inr (ra_claims ra)"
proof -
  from assms(1) obtain snapshot projects facts where f: "en_available example_engine"
    "en_snapshot example_engine = Some snapshot" "ps_protected (cs_descriptor snapshot)"
    "seal_partition example_env 0 (hd [example_partition_request]) projects (cs_descriptor snapshot)
       (en_epoch example_engine) facts = Inr ra"
    by (rule authorize_retrieval_partition_sealed)
  note seal = seal_partition_InrD [OF f(4)]
  show ?thesis
    using assms(2) f seal by (simp add: revalidate_def example_engine_fields(4) no_revocations_def)
qed

theorem retrieval_proof_fails_closed_witness:
  "\<exists>ra. authorize_retrieval_partition example_env 0 [example_partition_request] example_engine = Inr ra \<and>
     revalidate 0 (Some example_engine) ra = Inr (ra_claims ra) \<and>
     rc_principal_id (ra_claims ra) |\<notin>| rv_principals (en_revocations example_engine)"
proof -
  obtain ra where ra: "authorize_retrieval_partition example_env 0 [example_partition_request] example_engine = Inr ra"
    and "0 < ra_monotonic_expires_at ra" using example_proof by blast
  then have "revalidate 0 (Some example_engine) ra = Inr (ra_claims ra)" by (rule revalidate_now)
  with retrieval_proof_fails_closed [OF ra rtranclp.rtrancl_refl this] ra show ?thesis by blast
qed

lemma allows_all_True:
  "allows_all snapshot rv r ks = Inr True \<Longrightarrow> k \<in> set ks \<Longrightarrow> allows snapshot (r\<lparr>rq_resource := k\<rparr>) rv"
  by (induction ks) (auto simp: allows_def result_simps split: if_splits)

lemma any_project_True:
  "any_project snapshot rv ra resource ks ps = Inr True \<Longrightarrow>
    \<exists>p \<in> set ps. allows_all snapshot rv (record_request ra resource p) ks = Inr True"
  by (induction ps) (auto simp: result_simps split: if_splits)

text \<open>
  A record enters retrieval only through policy: an affirmative answer means that, in the state
  read for the evaluation, the proof's policy and epoch are current, the record belongs to the
  proof's tenant and to one of its projects, and for that project the record's own metadata was
  allowed as metadata, as content and, if the caller needs it, for the processor.
\<close>

theorem resource_authorization_is_sound:
  assumes "authorize_resource now authority1 authority2 ra resource processor_required = Inr True"
  shows "\<exists>st snapshot p. authority2 = Some st \<and> en_available st \<and> en_snapshot st = Some snapshot \<and>
    ps_policy_digest (cs_descriptor snapshot) = rc_policy_digest (ra_claims ra) \<and>
    en_epoch st = rc_revocation_epoch (ra_claims ra) \<and>
    rr_tenant_id resource = rc_tenant_id (ra_claims ra) \<and>
    p |\<in>| rr_project_ids resource \<and> p |\<in>| rc_project_ids (ra_claims ra) \<and>
    (\<forall>k. k \<in> {Metadata, Content} \<or> processor_required \<and> k = Processor \<longrightarrow>
       allows snapshot ((record_request ra resource p)\<lparr>rq_resource := k\<rparr>) (en_revocations st))"
proof -
  define kinds where "kinds = [Metadata, Content] @ (if processor_required then [Processor] else [])"
  from assms obtain st snapshot where s: "authority2 = Some st" "en_available st" "en_snapshot st = Some snapshot"
    "ps_policy_digest (cs_descriptor snapshot) = rc_policy_digest (ra_claims ra)"
    "en_epoch st = rc_revocation_epoch (ra_claims ra)" "rr_tenant_id resource = rc_tenant_id (ra_claims ra)"
    and any: "any_project snapshot (en_revocations st) ra resource kinds
       (sorted_list_of_fset (rr_project_ids resource |\<inter>| rc_project_ids (ra_claims ra))) = Inr True"
    unfolding authorize_resource_def kinds_def [symmetric] by (auto simp: result_simps Let_def split: if_splits)
  from any_project_True [OF any] obtain p where p: "p |\<in>| rr_project_ids resource" "p |\<in>| rc_project_ids (ra_claims ra)"
    and all: "allows_all snapshot (en_revocations st) (record_request ra resource p) kinds = Inr True" by auto
  have "allows snapshot ((record_request ra resource p)\<lparr>rq_resource := k\<rparr>) (en_revocations st)"
    if "k \<in> {Metadata, Content} \<or> processor_required \<and> k = Processor" for k
    using allows_all_True [OF all, of k] that by (auto simp: kinds_def)
  with s p show ?thesis by blast
qed

definition example_resource :: resource_request where
  "example_resource = \<lparr>rr_input_digest = ''d'', rr_tenant_id = ''t'', rr_project_ids = {|''q''|},
     rr_allowed_purposes = {|''*''|}, rr_allowed_processors = {||}, rr_classification = Internal,
     rr_lifecycle = Active, rr_integrity_verified = True, rr_valid_from = 1, rr_valid_until = None,
     rr_observed_at = 4, rr_instruction_authority = Data\<rparr>"

lemma example_record_request:
  "ra_request_template ra = example_partition_request \<Longrightarrow>
    record_request ra example_resource ''q'' = example_partition_request"
  by (simp add: record_request_def example_resource_def example_partition_request_def example_request_def)

lemma example_resource_allowed:
  assumes "authorize_retrieval_partition example_env 0 [example_partition_request] example_engine = Inr ra"
    and "0 < ra_monotonic_expires_at ra" and "rc_project_ids (ra_claims ra) = {|''q''|}"
  shows "authorize_resource 0 (Some example_engine) (Some example_engine) ra example_resource True = Inr True"
proof -
  from assms(1) obtain snapshot projects facts where f: "en_available example_engine"
    "en_snapshot example_engine = Some snapshot" "ps_protected (cs_descriptor snapshot)"
    "seal_partition example_env 0 (hd [example_partition_request]) projects (cs_descriptor snapshot)
       (en_epoch example_engine) facts = Inr ra"
    by (rule authorize_retrieval_partition_sealed)
  note seal = seal_partition_InrD [OF f(4)]
  have template: "ra_request_template ra = example_partition_request" using seal(9) by simp
  have tenant: "rr_tenant_id example_resource = rc_tenant_id (ra_claims ra)"
    by (simp add: seal example_resource_def example_partition_request_def example_request_def)
  have projects: "rr_project_ids example_resource = {|''q''|}" "fcard (rr_project_ids example_resource) = 1"
    "rr_allowed_purposes example_resource \<noteq> {||}" "fcard (rr_allowed_purposes example_resource) = 1"
    "fcard (rr_allowed_processors example_resource) = 0" "sorted_list_of_fset {|''q''|} = [''q'']"
    by (simp_all add: example_resource_def fcard.rep_eq sorted_list_of_fset.rep_eq)
  have "cs_rules snapshot = []" using f(2) example_engine_fields(5) by auto
  from example_allows [OF this] have all: "allows snapshot (example_partition_request\<lparr>rq_resource := k\<rparr>) no_revocations"
    if "k \<in> {Metadata, Content, Processor}" for k using that by auto
  have "allows_all snapshot no_revocations example_partition_request ks = Inr True"
    if "set ks \<subseteq> {Metadata, Content, Processor}" for ks
    using that
  proof (induction ks)
    case (Cons k ks)
    then obtain d where "evaluate snapshot (example_partition_request\<lparr>rq_resource := k\<rparr>) no_revocations = Inr d"
      "pd_outcome d = Allow" using all [of k] by (auto simp: allows_def)
    with Cons show ?case by (simp add: example_partition_valid)
  qed simp
  then have "any_project snapshot no_revocations ra example_resource [Metadata, Content, Processor] [''q''] = Inr True"
    by (simp add: example_record_request [OF template] del: allows_all.simps)
  then show ?thesis
    using revalidate_now [OF assms(1,2)] f(1-3) seal(5-8) assms(3) tenant projects
    by (simp add: authorize_resource_def example_engine_fields(4) MAX_POLICY_SELECTORS_def fcard_fempty
        del: any_project.simps)
qed

theorem resource_authorization_is_sound_witness:
  "\<exists>ra p. authorize_resource 0 (Some example_engine) (Some example_engine) ra example_resource True = Inr True \<and>
     p |\<in>| rr_project_ids example_resource \<and> p |\<in>| rc_project_ids (ra_claims ra)"
proof -
  obtain ra where "authorize_retrieval_partition example_env 0 [example_partition_request] example_engine = Inr ra"
    "0 < ra_monotonic_expires_at ra" "rc_project_ids (ra_claims ra) = {|''q''|}" using example_proof by blast
  then have "authorize_resource 0 (Some example_engine) (Some example_engine) ra example_resource True = Inr True"
    by (rule example_resource_allowed)
  with resource_authorization_is_sound [OF this] show ?thesis by blast
qed

end
