(* ===== verification/Protocol_Coordination.thy ===== *)
theory Protocol_Coordination
  imports Protocol_Types
begin

text \<open>
  The coordination records of \<open>cigar-protocol/src/coordination.rs\<close>: capability grants and their
  attenuation, context commits, overlays, handoff capsules, acceptances, deltas and leases, with the
  shared validation helpers at the end of that file. Every \<open>validate\<close> collects issues into a
  bounded list; the locale \<open>validated_record\<close> states what such a validator promises and is
  interpreted for each of the records.
\<close>

definition MAX_CAPABILITIES :: nat where "MAX_CAPABILITIES = 128"
definition MAX_COORDINATION_EVENTS :: nat where "MAX_COORDINATION_EVENTS = 10000"
definition MAX_COORDINATION_SELECTOR_BYTES :: nat where "MAX_COORDINATION_SELECTOR_BYTES = 512"
definition MAX_COORDINATION_TOPICS :: nat where "MAX_COORDINATION_TOPICS = 32"
definition MAX_HANDOFF_REFERENCES :: nat where "MAX_HANDOFF_REFERENCES = 10000"
definition MAX_HANDOFF_TEXT_BYTES :: nat where "MAX_HANDOFF_TEXT_BYTES = 65536"
definition MAX_NONCE_BYTES :: nat where "MAX_NONCE_BYTES = 64"
definition MAX_SCOPE_PROJECTS :: nat where "MAX_SCOPE_PROJECTS = 256"
definition MAX_SIGNATURE_BYTES :: nat where "MAX_SIGNATURE_BYTES = 512"

lemmas coordination_limits = MAX_CAPABILITIES_def MAX_COORDINATION_EVENTS_def
  MAX_COORDINATION_SELECTOR_BYTES_def MAX_COORDINATION_TOPICS_def MAX_HANDOFF_REFERENCES_def
  MAX_HANDOFF_TEXT_BYTES_def MAX_NONCE_BYTES_def MAX_SCOPE_PROJECTS_def MAX_SIGNATURE_BYTES_def

subsection \<open>Shared validation helpers\<close>

definition validate_version :: "schema_version \<Rightarrow> string \<Rightarrow> validation_errors \<Rightarrow> validation_errors" where
  "validate_version version family errors = merge_err (require_v1 version family) errors"

definition validate_extensions :: "extension_map \<Rightarrow> validation_errors \<Rightarrow> validation_errors" where
  "validate_extensions extensions errors = merge_err (validate_known extensions {}) errors"

text \<open>
  \<open>str::trim().is_empty()\<close>: every character is Unicode white space. The characters with that
  property are nine to thirteen, 32, U+0085, U+00A0, U+1680, U+2000 to U+200A, U+2028, U+2029,
  U+202F, U+205F and U+3000, here by their UTF-8 bytes.
\<close>

definition ascii_space :: "nat \<Rightarrow> bool" where
  "ascii_space a \<longleftrightarrow> 9 \<le> a \<and> a \<le> 13 \<or> a = 32"

definition two_byte_space :: "nat \<Rightarrow> nat \<Rightarrow> bool" where
  "two_byte_space a b \<longleftrightarrow> a = 0xC2 \<and> (b = 0x85 \<or> b = 0xA0)"

definition three_byte_space :: "nat \<Rightarrow> nat \<Rightarrow> nat \<Rightarrow> bool" where
  "three_byte_space a b c \<longleftrightarrow> a = 0xE1 \<and> b = 0x9A \<and> c = 0x80 \<or>
     a = 0xE2 \<and> b = 0x80 \<and> (0x80 \<le> c \<and> c \<le> 0x8A \<or> c = 0xA8 \<or> c = 0xA9 \<or> c = 0xAF) \<or>
     a = 0xE2 \<and> b = 0x81 \<and> c = 0x9F \<or> a = 0xE3 \<and> b = 0x80 \<and> c = 0x80"

fun trim_is_empty :: "string \<Rightarrow> bool" where
  "trim_is_empty [] \<longleftrightarrow> True"
| "trim_is_empty [a] \<longleftrightarrow> ascii_space (byte a)"
| "trim_is_empty [a, b] \<longleftrightarrow> ascii_space (byte a) \<and> ascii_space (byte b) \<or> two_byte_space (byte a) (byte b)"
| "trim_is_empty (a # b # c # s) \<longleftrightarrow>
     (if ascii_space (byte a) then trim_is_empty (b # c # s)
      else if two_byte_space (byte a) (byte b) then trim_is_empty (c # s)
      else three_byte_space (byte a) (byte b) (byte c) \<and> trim_is_empty s)"

definition validate_text :: "string \<Rightarrow> string \<Rightarrow> validation_errors \<Rightarrow> validation_errors" where
  "validate_text value path errors =
     push_if (trim_is_empty value \<or> length value > MAX_HANDOFF_TEXT_BYTES)
       (issue LimitExceeded path ''text must be non-empty and bounded'') errors"

definition validate_bounded_selector :: "string \<Rightarrow> string \<Rightarrow> validation_errors \<Rightarrow> validation_errors" where
  "validate_bounded_selector value path errors =
     push_if (value = [] \<or> length value > MAX_COORDINATION_SELECTOR_BYTES)
       (issue LimitExceeded path ''selector must be non-empty and bounded'') errors"

definition validate_strings :: "string list \<Rightarrow> bool \<Rightarrow> string \<Rightarrow> validation_errors \<Rightarrow> validation_errors" where
  "validate_strings values non_empty path errors =
     fold (\<lambda>value. validate_text value path) values
       (push_if (non_empty \<and> values = [] \<or> length values > MAX_HANDOFF_REFERENCES)
         (issue LimitExceeded path ''text collection is empty or exceeds the maximum'') errors)"

definition validate_sorted_set ::
    "'a::linorder list \<Rightarrow> nat \<Rightarrow> bool \<Rightarrow> string \<Rightarrow> validation_errors \<Rightarrow> validation_errors" where
  "validate_sorted_set values maximum non_empty path errors =
     push_if (non_empty \<and> values = [] \<or> length values > maximum \<or> \<not> strictly_sorted_unique values)
       (issue InvalidValue path ''collection must be bounded, sorted, and unique'') errors"

fun all_unique_from :: "'a set \<Rightarrow> 'a list \<Rightarrow> bool" where
  "all_unique_from seen [] \<longleftrightarrow> True"
| "all_unique_from seen (x # xs) \<longleftrightarrow> x \<notin> seen \<and> all_unique_from (insert x seen) xs"

definition all_unique :: "'a list \<Rightarrow> bool" where
  "all_unique values = all_unique_from {} values"

definition is_subset :: "'a::linorder list \<Rightarrow> 'a list \<Rightarrow> bool" where
  "is_subset child parent = list_all (slice_contains_sorted parent) child"

subsection \<open>Capability grants\<close>

record capability_grant =
  gr_schema_version :: schema_version
  gr_grant_id :: record_id
  gr_issuer_id :: record_id
  gr_subject_id :: record_id
  gr_parent_grant_id :: "record_id option"
  gr_capabilities :: "capability list"
  gr_project_ids :: "record_id list"
  gr_processors :: "string list"
  gr_not_before :: timestamp
  gr_expires_at :: timestamp
  gr_delegation_depth :: "8 word"
  gr_extensions :: extension_map

definition validate_attenuation_of :: "capability_grant \<Rightarrow> capability_grant \<Rightarrow> (validation_errors, unit) result" where
  "validate_attenuation_of child parent =
     into_result
      (push_if (gr_not_before child < gr_not_before parent \<or> gr_expires_at child > gr_expires_at parent
                \<or> gr_delegation_depth child \<ge> gr_delegation_depth parent)
         (issue InvalidValue ''/expires_at'' ''delegated grant cannot broaden time or delegation depth'')
      (push_if (\<not> is_subset (gr_capabilities child) (gr_capabilities parent)
                \<or> \<not> is_subset (gr_project_ids child) (gr_project_ids parent)
                \<or> \<not> is_subset (gr_processors child) (gr_processors parent))
         (issue InvalidValue ''/capabilities'' ''delegated grant cannot broaden capabilities or scope'')
      (push_if (gr_parent_grant_id child \<noteq> Some (gr_grant_id parent) \<or> gr_issuer_id child \<noteq> gr_subject_id parent)
         (issue InvalidValue ''/parent_grant_id'' ''delegated grant parent or issuer does not match'') [])))"

definition grant_errors :: "capability_grant \<Rightarrow> validation_errors" where
  "grant_errors g =
     validate_extensions (gr_extensions g)
    (push_if (gr_expires_at g \<le> gr_not_before g)
       (issue InvalidValue ''/expires_at'' ''grant expiry must be later than not-before'')
    (validate_strings (gr_processors g) False ''/processors''
    (validate_sorted_set (gr_project_ids g) MAX_SCOPE_PROJECTS True ''/project_ids''
    (validate_sorted_set (gr_capabilities g) MAX_CAPABILITIES True ''/capabilities''
    (validate_version (gr_schema_version g) ''cigar.capability-grant'' [])))))"

definition grant_validate :: "capability_grant \<Rightarrow> (validation_errors, unit) result" where
  "grant_validate g = into_result (grant_errors g)"

subsection \<open>Context commits and overlays\<close>

datatype coordination_event_kind =
  ContextCommitted | AtomInvalidated | BundleInvalidated | TaskCheckpointed | HandoffCreated
  | HandoffAccepted | HandoffRevoked | AgentResultProposed | MergeConflictCreated
  | EffectStateChanged | PolicySnapshotChanged

record coordination_event =
  ce_event_id :: record_id
  ce_kind :: coordination_event_kind
  ce_payload_digest :: content_digest

record context_commit =
  cm_schema_version :: schema_version
  cm_commit_id :: version_id
  cm_space_id :: record_id
  cm_sequence :: u64
  cm_parent_commit_id :: "version_id option"
  cm_author_id :: record_id
  cm_purpose :: string
  cm_events :: "coordination_event list"
  cm_root_digest :: content_digest
  cm_policy_snapshot_digest :: content_digest
  cm_committed_at :: timestamp
  cm_extensions :: extension_map

definition commit_errors :: "context_commit \<Rightarrow> validation_errors" where
  "commit_errors c =
     validate_extensions (cm_extensions c)
    (push_if (\<not> all_unique (map ce_event_id (cm_events c)))
       (issue InvalidValue ''/events'' ''commit event identities must be unique'')
    (push_if (cm_events c = [] \<or> length (cm_events c) > MAX_COORDINATION_EVENTS)
       (issue LimitExceeded ''/events'' ''commit events must be non-empty and bounded'')
    (validate_text (cm_purpose c) ''/purpose''
    (push_if (cm_sequence c = 0 \<or> (cm_sequence c = 1) \<noteq> (cm_parent_commit_id c = None))
       (issue InvalidValue ''/parent_commit_id'' ''only sequence one may omit its parent commit'')
    (validate_version (cm_schema_version c) ''cigar.context-commit'' [])))))"

definition commit_validate :: "context_commit \<Rightarrow> (validation_errors, unit) result" where
  "commit_validate c = into_result (commit_errors c)"

datatype overlay_mutation =
  MAtom version_id | MDecision version_id | MState version_id | MArtifact version_id
  | MInstruction version_id | MCapability version_id | MLease version_id | MEffect version_id

record overlay =
  ov_schema_version :: schema_version
  ov_overlay_id :: record_id
  ov_space_id :: record_id
  ov_base_commit_id :: version_id
  ov_owner_id :: record_id
  ov_created_at :: timestamp
  ov_expires_at :: timestamp
  ov_mutations :: "overlay_mutation list"
  ov_extensions :: extension_map

definition overlay_errors :: "overlay \<Rightarrow> validation_errors" where
  "overlay_errors ov =
     validate_extensions (ov_extensions ov)
    (push_if (length (ov_mutations ov) > MAX_COORDINATION_EVENTS)
       (issue LimitExceeded ''/mutations'' ''overlay mutation collection exceeds the maximum'')
    (push_if (ov_expires_at ov \<le> ov_created_at ov)
       (issue InvalidValue ''/expires_at'' ''overlay expiry must be later than creation'')
    (validate_version (ov_schema_version ov) ''cigar.overlay'' [])))"

definition overlay_validate :: "overlay \<Rightarrow> (validation_errors, unit) result" where
  "overlay_validate ov = into_result (overlay_errors ov)"

subsection \<open>Handoff capsules\<close>

datatype recipient_selector = RPrincipal record_id | RRole string

datatype coordination_topic =
  AtomInvalidation | BundleInvalidation | TaskCheckpoint | HandoffRevocation | EffectState | PolicySnapshot

fun coordination_topic_rank :: "coordination_topic \<Rightarrow> nat" where
  "coordination_topic_rank AtomInvalidation = 0"
| "coordination_topic_rank BundleInvalidation = 1"
| "coordination_topic_rank TaskCheckpoint = 2"
| "coordination_topic_rank HandoffRevocation = 3"
| "coordination_topic_rank EffectState = 4"
| "coordination_topic_rank PolicySnapshot = 5"

lemma coordination_topic_rank_inject: "coordination_topic_rank a = coordination_topic_rank b \<Longrightarrow> a = b"
  by (cases a; cases b) simp_all

instantiation coordination_topic :: linorder
begin

definition less_eq_coordination_topic :: "coordination_topic \<Rightarrow> coordination_topic \<Rightarrow> bool" where
  "less_eq_coordination_topic a b \<longleftrightarrow> coordination_topic_rank a \<le> coordination_topic_rank b"

definition less_coordination_topic :: "coordination_topic \<Rightarrow> coordination_topic \<Rightarrow> bool" where
  "less_coordination_topic a b \<longleftrightarrow> coordination_topic_rank a < coordination_topic_rank b"

instance
  by standard (auto simp: less_eq_coordination_topic_def less_coordination_topic_def
      dest: coordination_topic_rank_inject)

end

datatype lane_kind = LRules | LTask | LEvidence | LHistory | LTools

record budget =
  bu_total_input_tokens :: u32
  bu_output_reserve_tokens :: u32
  bu_lane_input_tokens :: "(lane_kind, u32) btree"

record handoff_references =
  hr_sources :: "version_id list"
  hr_states :: "version_id list"
  hr_decisions :: "version_id list"
  hr_artifacts :: "version_id list"
  hr_uncertainties :: "version_id list"
  hr_effects :: "version_id list"

record handoff_capsule =
  hc_schema_version :: schema_version
  hc_handoff_id :: record_id
  hc_issuer_id :: record_id
  hc_recipient :: recipient_selector
  hc_task :: string
  hc_acceptance_criteria :: "string list"
  hc_project_ids :: "record_id list"
  hc_delegated_capabilities :: "capability list"
  hc_rejected_capabilities :: "capability list"
  hc_budget :: budget
  hc_topics :: "coordination_topic list"
  hc_references :: handoff_references
  hc_bundle_id :: version_id
  hc_audience :: string
  hc_created_at :: timestamp
  hc_expires_at :: timestamp
  hc_nonce :: string
  hc_reusable :: bool
  hc_issuer_key_id :: string
  hc_signature :: string
  hc_extensions :: extension_map

definition validate_selector :: "recipient_selector \<Rightarrow> validation_errors \<Rightarrow> validation_errors" where
  "validate_selector selector errors =
     (case selector of
        RRole role \<Rightarrow> validate_bounded_selector role ''/recipient'' errors
      | RPrincipal _ \<Rightarrow> errors)"

definition validate_references :: "handoff_references \<Rightarrow> validation_errors \<Rightarrow> validation_errors" where
  "validate_references r errors =
     fold (\<lambda>(path, values). validate_sorted_set values MAX_HANDOFF_REFERENCES False path)
       [(''/references/sources'', hr_sources r), (''/references/states'', hr_states r),
        (''/references/decisions'', hr_decisions r), (''/references/artifacts'', hr_artifacts r),
        (''/references/uncertainties'', hr_uncertainties r), (''/references/effects'', hr_effects r)]
       errors"

fun try_sum :: "u32 \<Rightarrow> u32 list \<Rightarrow> u32 option" where
  "try_sum acc [] = Some acc"
| "try_sum acc (v # vs) = Option.bind (checked_add acc v) (\<lambda>t. try_sum t vs)"

definition validate_budget :: "budget \<Rightarrow> validation_errors \<Rightarrow> validation_errors" where
  "validate_budget b errors =
     (let tokens = bt_values (bu_lane_input_tokens b)
      in push_if (bu_total_input_tokens b = 0 \<or> try_sum 0 tokens \<noteq> Some (bu_total_input_tokens b)
                  \<or> list_ex (\<lambda>v. v = 0) tokens)
           (issue InvalidValue ''/budget''
             ''handoff budget lanes must be non-zero and sum exactly to the total'') errors)"

definition capsule_errors :: "handoff_capsule \<Rightarrow> validation_errors" where
  "capsule_errors c =
     validate_extensions (hc_extensions c)
    (validate_budget (hc_budget c)
    (push_if (hc_signature c = [] \<or> length (hc_signature c) > MAX_SIGNATURE_BYTES)
       (issue LimitExceeded ''/signature'' ''handoff signature must be non-empty and bounded'')
    (push_if (hc_nonce c = [] \<or> length (hc_nonce c) > MAX_NONCE_BYTES)
       (issue LimitExceeded ''/nonce'' ''handoff nonce must be non-empty and bounded'')
    (push_if (hc_expires_at c \<le> hc_created_at c)
       (issue InvalidValue ''/expires_at'' ''handoff expiry must be later than creation'')
    (validate_bounded_selector (hc_issuer_key_id c) ''/issuer_key_id''
    (validate_bounded_selector (hc_audience c) ''/audience''
    (validate_selector (hc_recipient c)
    (validate_references (hc_references c)
    (validate_sorted_set (hc_topics c) MAX_COORDINATION_TOPICS False ''/topics''
    (push_if (list_ex (\<lambda>k. k \<in> set (hc_rejected_capabilities c)) (hc_delegated_capabilities c))
       (issue InvalidValue ''/rejected_capabilities'' ''capability cannot be both delegated and rejected'')
    (validate_sorted_set (hc_rejected_capabilities c) MAX_CAPABILITIES False ''/rejected_capabilities''
    (validate_sorted_set (hc_delegated_capabilities c) MAX_CAPABILITIES False ''/delegated_capabilities''
    (validate_sorted_set (hc_project_ids c) MAX_SCOPE_PROJECTS True ''/project_ids''
    (validate_strings (hc_acceptance_criteria c) True ''/acceptance_criteria''
    (validate_text (hc_task c) ''/task''
    (validate_version (hc_schema_version c) ''cigar.handoff'' []))))))))))))))))"

definition capsule_validate :: "handoff_capsule \<Rightarrow> (validation_errors, unit) result" where
  "capsule_validate c = into_result (capsule_errors c)"

record handoff_acceptance =
  ha_schema_version :: schema_version
  ha_acceptance_id :: record_id
  ha_handoff_id :: record_id
  ha_recipient_id :: record_id
  ha_accepted_capabilities :: "capability list"
  ha_rejected_capabilities :: "capability list"
  ha_unavailable_references :: "version_id list"
  ha_policy_digest :: content_digest
  ha_bundle_id :: version_id
  ha_accepted_at :: timestamp
  ha_acknowledgement_digest :: content_digest

definition acceptance_validate_against ::
    "handoff_acceptance \<Rightarrow> handoff_capsule \<Rightarrow> (validation_errors, unit) result" where
  "acceptance_validate_against a c =
     into_result
      (push_if (case hc_recipient c of RPrincipal p \<Rightarrow> p \<noteq> ha_recipient_id a | RRole _ \<Rightarrow> False)
         (issue InvalidValue ''/recipient_id'' ''acceptance recipient does not match capsule audience'')
      (push_if (ha_handoff_id a \<noteq> hc_handoff_id c
                \<or> \<not> is_subset (ha_accepted_capabilities a) (hc_delegated_capabilities c)
                \<or> ha_accepted_at a \<ge> hc_expires_at c)
         (issue InvalidValue ''/accepted_capabilities''
           ''acceptance does not match or attenuate the signed capsule'') []))"

definition acceptance_errors :: "handoff_acceptance \<Rightarrow> validation_errors" where
  "acceptance_errors a =
     validate_sorted_set (ha_unavailable_references a) MAX_HANDOFF_REFERENCES False ''/unavailable_references''
    (validate_sorted_set (ha_rejected_capabilities a) MAX_CAPABILITIES False ''/rejected_capabilities''
    (validate_sorted_set (ha_accepted_capabilities a) MAX_CAPABILITIES False ''/accepted_capabilities''
    (validate_version (ha_schema_version a) ''cigar.handoff-acceptance'' [])))"

definition acceptance_validate :: "handoff_acceptance \<Rightarrow> (validation_errors, unit) result" where
  "acceptance_validate a = into_result (acceptance_errors a)"

subsection \<open>Handoff deltas and leases\<close>

record result_claim =
  rcl_claim :: string
  rcl_evidence :: "version_id list"

record handoff_delta =
  hd_schema_version :: schema_version
  hd_delta_id :: record_id
  hd_handoff_id :: record_id
  hd_base_commit_id :: version_id
  hd_producer_id :: record_id
  hd_claims :: "result_claim list"
  hd_decisions :: "version_id list"
  hd_artifacts :: "version_id list"
  hd_source_changes :: "version_id list"
  hd_verifier_receipts :: "version_id list"
  hd_unresolved_questions :: "string list"
  hd_blockers :: "string list"
  hd_effect_references :: "version_id list"
  hd_requested_followup_capabilities :: "capability list"
  hd_extensions :: extension_map

definition claim_path :: "nat \<Rightarrow> string \<Rightarrow> string" where
  "claim_path index field = ''/claims/'' @ show_nat index @ field"

fun validate_claims :: "nat \<Rightarrow> result_claim list \<Rightarrow> validation_errors \<Rightarrow> validation_errors" where
  "validate_claims index [] errors = errors"
| "validate_claims index (c # cs) errors =
     validate_claims (index + 1) cs
       (validate_sorted_set (rcl_evidence c) MAX_HANDOFF_REFERENCES True (claim_path index ''/evidence'')
         (validate_text (rcl_claim c) (claim_path index ''/claim'') errors))"

definition delta_errors :: "handoff_delta \<Rightarrow> validation_errors" where
  "delta_errors d =
     validate_extensions (hd_extensions d)
    (validate_sorted_set (hd_requested_followup_capabilities d) MAX_CAPABILITIES False
       ''/requested_followup_capabilities''
    (validate_strings (hd_blockers d) False ''/blockers''
    (validate_strings (hd_unresolved_questions d) False ''/unresolved_questions''
    (fold (\<lambda>(path, values). validate_sorted_set values MAX_HANDOFF_REFERENCES False path)
       [(''/decisions'', hd_decisions d), (''/artifacts'', hd_artifacts d),
        (''/source_changes'', hd_source_changes d), (''/verifier_receipts'', hd_verifier_receipts d),
        (''/effect_references'', hd_effect_references d)]
    (validate_claims 0 (hd_claims d)
    (push_if (length (hd_claims d) > MAX_HANDOFF_REFERENCES)
       (issue LimitExceeded ''/claims'' ''claim collection exceeds the maximum'')
    (validate_version (hd_schema_version d) ''cigar.handoff-delta'' [])))))))"

definition delta_validate :: "handoff_delta \<Rightarrow> (validation_errors, unit) result" where
  "delta_validate d = into_result (delta_errors d)"

datatype lease_kind = LeaseTask | LeaseDecision | LeaseEffectReconciliation | LeasePublication

datatype lease_state = LeaseActive | LeaseReleased | LeaseExpired | LeaseRevoked

record lease =
  le_schema_version :: schema_version
  le_lease_id :: record_id
  le_resource_id :: version_id
  le_holder_id :: record_id
  le_kind :: lease_kind
  le_state :: lease_state
  le_acquired_at :: timestamp
  le_expires_at :: timestamp
  le_expected_revision :: u64

definition lease_errors :: "lease \<Rightarrow> validation_errors" where
  "lease_errors l =
     push_if (le_expires_at l \<le> le_acquired_at l)
       (issue InvalidValue ''/expires_at'' ''lease expiry must be later than acquisition'')
    (validate_version (le_schema_version l) ''cigar.lease'' [])"

definition lease_validate :: "lease \<Rightarrow> (validation_errors, unit) result" where
  "lease_validate l = into_result (lease_errors l)"

subsection \<open>What the helpers accept\<close>

definition version_ok :: "string \<Rightarrow> schema_version \<Rightarrow> bool" where
  "version_ok family v \<longleftrightarrow> sv_family v = family \<and> sv_major v = 1"

definition extensions_ok :: "extension_map \<Rightarrow> bool" where
  "extensions_ok m \<longleftrightarrow> length m \<le> MAX_EXTENSION_ENTRIES \<and>
     list_all (\<lambda>(k, v). \<not> is_mandatory k \<and> value_ok 1 v) m"

definition text_ok :: "string \<Rightarrow> bool" where
  "text_ok t \<longleftrightarrow> \<not> trim_is_empty t \<and> length t \<le> MAX_HANDOFF_TEXT_BYTES"

definition texts_ok :: "string list \<Rightarrow> bool" where
  "texts_ok ts \<longleftrightarrow> length ts \<le> MAX_HANDOFF_REFERENCES \<and> list_all text_ok ts"

definition selector_ok :: "string \<Rightarrow> bool" where
  "selector_ok t \<longleftrightarrow> t \<noteq> [] \<and> length t \<le> MAX_COORDINATION_SELECTOR_BYTES"

definition sorted_set_ok :: "nat \<Rightarrow> 'a::linorder list \<Rightarrow> bool" where
  "sorted_set_ok maximum xs \<longleftrightarrow> length xs \<le> maximum \<and> sorted_wrt (<) xs"

definition references_ok :: "handoff_references \<Rightarrow> bool" where
  "references_ok r \<longleftrightarrow> list_all (sorted_set_ok MAX_HANDOFF_REFERENCES)
     [hr_sources r, hr_states r, hr_decisions r, hr_artifacts r, hr_uncertainties r, hr_effects r]"

definition budget_ok :: "budget \<Rightarrow> bool" where
  "budget_ok b \<longleftrightarrow> bu_total_input_tokens b \<noteq> 0 \<and> 0 \<notin> set (bt_values (bu_lane_input_tokens b)) \<and>
     sum_list (map unat (bt_values (bu_lane_input_tokens b))) = unat (bu_total_input_tokens b)"

lemma merge_err_eq_Nil_iff: "merge_err r es = [] \<longleftrightarrow> es = [] \<and> (r = Inl [] \<or> is_ok r)"
  by (auto simp: merge_err_def split: sum.splits)

lemma validate_version_iff [simp]:
  "validate_version v family es = [] \<longleftrightarrow> es = [] \<and> version_ok family v"
  by (auto simp: validate_version_def require_v1_def version_ok_def)

lemma validate_extensions_iff [simp]: "validate_extensions m es = [] \<longleftrightarrow> es = [] \<and> extensions_ok m"
  by (auto simp: validate_extensions_def validate_known_def extensions_ok_def list_all_iff
      validate_extension_entries_eq_Nil_iff)

lemma validate_text_iff [simp]: "validate_text t path es = [] \<longleftrightarrow> es = [] \<and> text_ok t"
  by (auto simp: validate_text_def text_ok_def)

lemma validate_bounded_selector_iff [simp]:
  "validate_bounded_selector t path es = [] \<longleftrightarrow> es = [] \<and> selector_ok t"
  by (auto simp: validate_bounded_selector_def selector_ok_def)

lemma validate_selector_iff [simp]:
  "validate_selector r es = [] \<longleftrightarrow> es = [] \<and> (case r of RRole role \<Rightarrow> selector_ok role | RPrincipal _ \<Rightarrow> True)"
  by (auto simp: validate_selector_def split: recipient_selector.splits)

lemma fold_validate_text_iff:
  "fold (\<lambda>t. validate_text t path) ts es = [] \<longleftrightarrow> es = [] \<and> list_all text_ok ts"
  by (induction ts arbitrary: es) auto

lemma validate_strings_iff [simp]:
  "validate_strings ts non_empty path es = [] \<longleftrightarrow> es = [] \<and> (non_empty \<longrightarrow> ts \<noteq> []) \<and> texts_ok ts"
  by (auto simp: validate_strings_def texts_ok_def fold_validate_text_iff)

lemma validate_sorted_set_iff [simp]:
  "validate_sorted_set xs maximum non_empty path es = [] \<longleftrightarrow>
     es = [] \<and> (non_empty \<longrightarrow> xs \<noteq> []) \<and> sorted_set_ok maximum xs"
  by (auto simp: validate_sorted_set_def sorted_set_ok_def strictly_sorted_unique_iff)

lemma validate_references_iff [simp]:
  "validate_references r es = [] \<longleftrightarrow> es = [] \<and> references_ok r"
  by (auto simp: validate_references_def references_ok_def)

lemma try_sum_eq_Some_iff: "try_sum acc vs = Some s \<longleftrightarrow> unat s = unat acc + sum_list (map unat vs)"
proof (induction vs arbitrary: acc)
  case (Cons v vs)
  have "unat s < 2 ^ 32" using unsigned_less [of s, where ?'a = nat] by simp
  then show ?case
    by (cases "checked_add acc v") (auto simp: Cons checked_add_SomeD, auto simp: checked_add_def split: if_splits)
qed (auto simp: word_unat_eq_iff)

lemma validate_budget_iff [simp]: "validate_budget b es = [] \<longleftrightarrow> es = [] \<and> budget_ok b"
  by (auto simp: validate_budget_def budget_ok_def Let_def try_sum_eq_Some_iff list_ex_iff)

lemma validate_claims_iff [simp]:
  "validate_claims i cs es = [] \<longleftrightarrow> es = [] \<and>
     list_all (\<lambda>c. text_ok (rcl_claim c) \<and> rcl_evidence c \<noteq> [] \<and>
       sorted_set_ok MAX_HANDOFF_REFERENCES (rcl_evidence c)) cs"
  by (induction i cs es rule: validate_claims.induct) auto

lemma all_unique_from_iff: "all_unique_from seen xs \<longleftrightarrow> distinct xs \<and> set xs \<inter> seen = {}"
  by (induction seen xs rule: all_unique_from.induct) auto

lemma all_unique_iff [simp]: "all_unique xs \<longleftrightarrow> distinct xs"
  by (simp add: all_unique_def all_unique_from_iff)

lemma is_subset_sound: "is_subset child parent \<Longrightarrow> set child \<subseteq> set parent"
  by (auto simp: is_subset_def list_all_iff dest: slice_contains_sorted_sound)

lemma is_subset_iff: "sorted_wrt (<) parent \<Longrightarrow> is_subset child parent \<longleftrightarrow> set child \<subseteq> set parent"
  by (auto simp: is_subset_def list_all_iff slice_contains_sorted_iff strictly_sorted_unique_iff)

subsection \<open>The contract of a validator\<close>

text \<open>
  A record's validator collects issues: it collects none exactly for the well-formed records, and
  never more than the disclosure bound.
\<close>

definition exact_verdict :: "bool \<Rightarrow> (validation_errors, unit) result \<Rightarrow> bool" where
  "exact_verdict ok verdict = (case verdict of
     Inr _ \<Rightarrow> ok | Inl es \<Rightarrow> \<not> ok \<and> 1 \<le> length es \<and> length es \<le> MAX_VALIDATION_ERRORS)"

locale validated_record =
  fixes errors :: "'r \<Rightarrow> validation_errors" and wf :: "'r \<Rightarrow> bool"
  assumes errors_iff: "errors r = [] \<longleftrightarrow> wf r"
    and errors_bounded: "length (errors r) \<le> MAX_VALIDATION_ERRORS"
begin

lemma accepts_iff: "into_result (errors r) = Inr () \<longleftrightarrow> wf r"
  by (simp add: errors_iff)

lemma verdict: "exact_verdict (wf r) (into_result (errors r))"
  using errors_bounded [of r] errors_iff [of r]
  by (auto simp: exact_verdict_def into_result_def Suc_le_eq)

end

definition within :: "validation_errors \<Rightarrow> bool" where
  "within es \<longleftrightarrow> length es \<le> MAX_VALIDATION_ERRORS"

lemma within_Nil [simp]: "within []"
  by (simp add: within_def)

lemma within_push_if [simp]: "within es \<Longrightarrow> within (push_if c i es)"
  by (simp add: within_def push_if_def length_ve_push)

lemma within_merge_err [simp]: "within es \<Longrightarrow> within (merge_err r es)"
  by (simp add: within_def merge_err_def length_ve_merge split: sum.splits)

lemma within_fold: "(\<And>x es. within es \<Longrightarrow> within (f x es)) \<Longrightarrow> within es \<Longrightarrow> within (fold f xs es)"
  by (induction xs arbitrary: es) simp_all

lemma within_helpers [simp]:
  assumes "within es"
  shows "within (validate_version v family es)" and "within (validate_extensions m es)"
    and "within (validate_text t path es)" and "within (validate_bounded_selector t path es)"
    and "within (validate_selector r es)" and "within (validate_strings ts non_empty path es)"
    and "within (validate_sorted_set xs maximum non_empty path es)" and "within (validate_budget b es)"
  using assms
  by (simp_all add: validate_version_def validate_extensions_def validate_text_def
      validate_bounded_selector_def validate_selector_def validate_strings_def validate_sorted_set_def
      validate_budget_def Let_def within_fold split: recipient_selector.split)

lemma within_references [simp]: "within es \<Longrightarrow> within (validate_references r es)"
  unfolding validate_references_def by (rule within_fold) auto

lemma within_claims [simp]: "within es \<Longrightarrow> within (validate_claims i cs es)"
  by (induction i cs es rule: validate_claims.induct) simp_all

text \<open>
  A grant is documented to list its capabilities, projects and processors sorted and without
  duplicates (\<open>grant_wf\<close>). What \<open>validate\<close> looks at is \<open>grant_checked\<close>: of the processors it checks the
  number and each text, not the order.
\<close>

definition grant_wf :: "capability_grant \<Rightarrow> bool" where
  "grant_wf g \<longleftrightarrow> version_ok ''cigar.capability-grant'' (gr_schema_version g) \<and>
     gr_capabilities g \<noteq> [] \<and> sorted_set_ok MAX_CAPABILITIES (gr_capabilities g) \<and>
     gr_project_ids g \<noteq> [] \<and> sorted_set_ok MAX_SCOPE_PROJECTS (gr_project_ids g) \<and>
     sorted_set_ok MAX_HANDOFF_REFERENCES (gr_processors g) \<and> list_all text_ok (gr_processors g) \<and>
     gr_not_before g < gr_expires_at g \<and> extensions_ok (gr_extensions g)"

definition grant_checked :: "capability_grant \<Rightarrow> bool" where
  "grant_checked g \<longleftrightarrow> version_ok ''cigar.capability-grant'' (gr_schema_version g) \<and>
     gr_capabilities g \<noteq> [] \<and> sorted_set_ok MAX_CAPABILITIES (gr_capabilities g) \<and>
     gr_project_ids g \<noteq> [] \<and> sorted_set_ok MAX_SCOPE_PROJECTS (gr_project_ids g) \<and>
     texts_ok (gr_processors g) \<and> gr_not_before g < gr_expires_at g \<and> extensions_ok (gr_extensions g)"

definition commit_wf :: "context_commit \<Rightarrow> bool" where
  "commit_wf c \<longleftrightarrow> version_ok ''cigar.context-commit'' (cm_schema_version c) \<and>
     cm_sequence c \<noteq> 0 \<and> (cm_sequence c = 1 \<longleftrightarrow> cm_parent_commit_id c = None) \<and> text_ok (cm_purpose c) \<and>
     cm_events c \<noteq> [] \<and> length (cm_events c) \<le> MAX_COORDINATION_EVENTS \<and>
     distinct (map ce_event_id (cm_events c)) \<and> extensions_ok (cm_extensions c)"

definition overlay_wf :: "overlay \<Rightarrow> bool" where
  "overlay_wf ov \<longleftrightarrow> version_ok ''cigar.overlay'' (ov_schema_version ov) \<and>
     ov_created_at ov < ov_expires_at ov \<and> length (ov_mutations ov) \<le> MAX_COORDINATION_EVENTS \<and>
     extensions_ok (ov_extensions ov)"

definition capsule_wf :: "handoff_capsule \<Rightarrow> bool" where
  "capsule_wf c \<longleftrightarrow> version_ok ''cigar.handoff'' (hc_schema_version c) \<and>
     text_ok (hc_task c) \<and> hc_acceptance_criteria c \<noteq> [] \<and> texts_ok (hc_acceptance_criteria c) \<and>
     hc_project_ids c \<noteq> [] \<and> sorted_set_ok MAX_SCOPE_PROJECTS (hc_project_ids c) \<and>
     sorted_set_ok MAX_CAPABILITIES (hc_delegated_capabilities c) \<and>
     sorted_set_ok MAX_CAPABILITIES (hc_rejected_capabilities c) \<and>
     set (hc_delegated_capabilities c) \<inter> set (hc_rejected_capabilities c) = {} \<and>
     sorted_set_ok MAX_COORDINATION_TOPICS (hc_topics c) \<and> references_ok (hc_references c) \<and>
     (\<forall>role. hc_recipient c = RRole role \<longrightarrow> selector_ok role) \<and>
     selector_ok (hc_audience c) \<and> selector_ok (hc_issuer_key_id c) \<and>
     hc_created_at c < hc_expires_at c \<and>
     hc_nonce c \<noteq> [] \<and> length (hc_nonce c) \<le> MAX_NONCE_BYTES \<and>
     hc_signature c \<noteq> [] \<and> length (hc_signature c) \<le> MAX_SIGNATURE_BYTES \<and>
     budget_ok (hc_budget c) \<and> extensions_ok (hc_extensions c)"

definition acceptance_wf :: "handoff_acceptance \<Rightarrow> bool" where
  "acceptance_wf a \<longleftrightarrow> version_ok ''cigar.handoff-acceptance'' (ha_schema_version a) \<and>
     sorted_set_ok MAX_CAPABILITIES (ha_accepted_capabilities a) \<and>
     sorted_set_ok MAX_CAPABILITIES (ha_rejected_capabilities a) \<and>
     sorted_set_ok MAX_HANDOFF_REFERENCES (ha_unavailable_references a)"

definition claim_wf :: "result_claim \<Rightarrow> bool" where
  "claim_wf c \<longleftrightarrow> text_ok (rcl_claim c) \<and> rcl_evidence c \<noteq> [] \<and>
     sorted_set_ok MAX_HANDOFF_REFERENCES (rcl_evidence c)"

definition delta_wf :: "handoff_delta \<Rightarrow> bool" where
  "delta_wf d \<longleftrightarrow> version_ok ''cigar.handoff-delta'' (hd_schema_version d) \<and>
     length (hd_claims d) \<le> MAX_HANDOFF_REFERENCES \<and> list_all claim_wf (hd_claims d) \<and>
     list_all (sorted_set_ok MAX_HANDOFF_REFERENCES) [hd_decisions d, hd_artifacts d, hd_source_changes d,
       hd_verifier_receipts d, hd_effect_references d] \<and>
     texts_ok (hd_unresolved_questions d) \<and> texts_ok (hd_blockers d) \<and>
     sorted_set_ok MAX_CAPABILITIES (hd_requested_followup_capabilities d) \<and> extensions_ok (hd_extensions d)"

definition lease_wf :: "lease \<Rightarrow> bool" where
  "lease_wf l \<longleftrightarrow> version_ok ''cigar.lease'' (le_schema_version l) \<and> le_acquired_at l < le_expires_at l"

lemma within_delta_errors: "within (delta_errors d)"
  unfolding delta_errors_def by (intro within_helpers within_fold) auto

interpretation grant: validated_record grant_errors grant_checked
  by unfold_locales (auto simp: grant_errors_def grant_checked_def simp flip: within_def)

interpretation commit: validated_record commit_errors commit_wf
  by unfold_locales (auto simp: commit_errors_def commit_wf_def simp flip: within_def)

interpretation ovl: validated_record overlay_errors overlay_wf
  by unfold_locales (auto simp: overlay_errors_def overlay_wf_def simp flip: within_def)

lemma capsule_errors_iff: "capsule_errors c = [] \<longleftrightarrow> capsule_wf c"
  unfolding capsule_errors_def capsule_wf_def
  by (cases "hc_recipient c") (simp_all add: list_ex_iff not_less not_le disjoint_iff Ball_def, argo+)

lemma within_capsule_errors: "within (capsule_errors c)"
  by (simp add: capsule_errors_def)

interpretation capsule: validated_record capsule_errors capsule_wf
  by unfold_locales (simp_all add: capsule_errors_iff within_capsule_errors flip: within_def)

interpretation acceptance: validated_record acceptance_errors acceptance_wf
  by unfold_locales (auto simp: acceptance_errors_def acceptance_wf_def simp flip: within_def)

interpretation delta: validated_record delta_errors delta_wf
  by unfold_locales (auto simp: delta_errors_def delta_wf_def claim_wf_def list_all_iff within_delta_errors
      simp flip: within_def)

interpretation lease: validated_record lease_errors lease_wf
  by unfold_locales (auto simp: lease_errors_def lease_wf_def simp flip: within_def)

lemmas verdicts = grant.verdict commit.verdict ovl.verdict capsule.verdict acceptance.verdict delta.verdict lease.verdict

lemmas validate_defs = grant_validate_def commit_validate_def overlay_validate_def capsule_validate_def
  acceptance_validate_def delta_validate_def lease_validate_def

subsection \<open>Properties of the coordination records\<close>

lemma grant_wf_iff: "grant_wf g \<longleftrightarrow> grant_validate g = Inr () \<and> sorted_wrt (<) (gr_processors g)"
  unfolding grant_validate_def grant.accepts_iff
  by (auto simp: grant_wf_def grant_checked_def sorted_set_ok_def texts_ok_def)

definition example_root_grant :: capability_grant where
  "example_root_grant = \<lparr>gr_schema_version = \<lparr>sv_family = ''cigar.capability-grant'', sv_major = 1\<rparr>,
     gr_grant_id = ''g0'', gr_issuer_id = ''p0'', gr_subject_id = ''p1'', gr_parent_grant_id = None,
     gr_capabilities = [ReadContext, WriteOverlay], gr_project_ids = [''q''], gr_processors = [''cpu'', ''gpu''],
     gr_not_before = 0, gr_expires_at = 10, gr_delegation_depth = 2, gr_extensions = []\<rparr>"

definition example_child_grant :: capability_grant where
  "example_child_grant = example_root_grant\<lparr>gr_grant_id := ''g1'', gr_issuer_id := ''p1'', gr_subject_id := ''p2'',
     gr_parent_grant_id := Some ''g0'', gr_capabilities := [ReadContext], gr_processors := [''cpu''],
     gr_expires_at := 8, gr_delegation_depth := 1\<rparr>"

lemmas example_grant_defs = example_root_grant_def example_child_grant_def

lemma example_grants_checked: "grant_checked example_root_grant" "grant_checked example_child_grant"
  by (simp_all add: example_grant_defs grant_checked_def version_ok_def sorted_set_ok_def coordination_limits
      capability_order texts_ok_def text_ok_def extensions_ok_def ascii_space_def two_byte_space_def
      three_byte_space_def byte_defs)

lemma unsorted_grant_accepted:
  "grant_validate (example_root_grant\<lparr>gr_processors := [''gpu'', ''cpu'']\<rparr>) = Inr ()"
  "grant_validate (example_child_grant\<lparr>gr_processors := [''gpu'']\<rparr>) = Inr ()"
  unfolding grant_validate_def grant.accepts_iff using example_grants_checked
  by (simp_all add: grant_checked_def texts_ok_def text_ok_def coordination_limits ascii_space_def
      two_byte_space_def three_byte_space_def byte_defs)

text \<open>
  (C39) The record validators are exact, and disclose a bounded amount. Six of them (context commit,
  overlay, handoff capsule, acceptance, result delta, lease) accept precisely the well-formed records
  and reject any other with at least one and at most 32 issues. The seventh falls short of its
  documentation: the validator of a capability grant never checks that processors are sorted and
  unique. It accepts precisely the grants that meet its remaining checks (\<open>grant_checked\<close>), with the
  same bound on issues; a grant is well formed as documented exactly when it is accepted and its
  processors are strictly increasing; and some accepted grant is not well formed.
\<close>

theorem validators_are_exact:
  "exact_verdict (commit_wf c) (commit_validate c) \<and> exact_verdict (overlay_wf ov) (overlay_validate ov) \<and>
   exact_verdict (capsule_wf h) (capsule_validate h) \<and> exact_verdict (acceptance_wf a) (acceptance_validate a) \<and>
   exact_verdict (delta_wf d) (delta_validate d) \<and> exact_verdict (lease_wf l) (lease_validate l) \<and>
   exact_verdict (grant_checked g) (grant_validate g) \<and>
   (grant_wf g \<longleftrightarrow> grant_validate g = Inr () \<and> sorted_wrt (<) (gr_processors g)) \<and>
   (\<exists>g'. grant_validate g' = Inr () \<and> \<not> grant_wf g')"
proof (intro conjI)
  show "\<exists>g'. grant_validate g' = Inr () \<and> \<not> grant_wf g'"
    by (rule exI, rule conjI, rule unsorted_grant_accepted(1)) (simp add: grant_wf_iff)
qed (rule grant_wf_iff | simp only: validate_defs verdicts)+

definition attenuates :: "capability_grant \<Rightarrow> capability_grant \<Rightarrow> bool" where
  "attenuates child parent \<longleftrightarrow>
     gr_parent_grant_id child = Some (gr_grant_id parent) \<and> gr_issuer_id child = gr_subject_id parent \<and>
     set (gr_capabilities child) \<subseteq> set (gr_capabilities parent) \<and>
     set (gr_project_ids child) \<subseteq> set (gr_project_ids parent) \<and>
     set (gr_processors child) \<subseteq> set (gr_processors parent) \<and>
     gr_not_before parent \<le> gr_not_before child \<and> gr_expires_at child \<le> gr_expires_at parent \<and>
     gr_delegation_depth child < gr_delegation_depth parent"

lemma validate_attenuation_of_iff:
  "validate_attenuation_of child parent = Inr u \<longleftrightarrow>
     gr_parent_grant_id child = Some (gr_grant_id parent) \<and> gr_issuer_id child = gr_subject_id parent \<and>
     is_subset (gr_capabilities child) (gr_capabilities parent) \<and>
     is_subset (gr_project_ids child) (gr_project_ids parent) \<and>
     is_subset (gr_processors child) (gr_processors parent) \<and>
     gr_not_before parent \<le> gr_not_before child \<and> gr_expires_at child \<le> gr_expires_at parent \<and>
     gr_delegation_depth child < gr_delegation_depth parent"
  by (auto simp: validate_attenuation_of_def not_less not_le)

lemma validate_attenuation_of_sound: "validate_attenuation_of child parent = Inr u \<Longrightarrow> attenuates child parent"
  by (auto simp: validate_attenuation_of_iff attenuates_def dest: is_subset_sound)

text \<open>
  Attenuation is exact: for a valid parent grant whose processors are listed in order, a child
  grant is accepted precisely when it names the parent, is issued by the parent's subject, and does
  not broaden capabilities, projects, processors or the validity interval, with strictly less
  delegation depth.
\<close>

theorem attenuation_is_exact:
  assumes "grant_validate parent = Inr ()" and "sorted_wrt (<) (gr_processors parent)"
  shows "validate_attenuation_of child parent = Inr () \<longleftrightarrow> attenuates child parent"
proof -
  have "sorted_wrt (<) (gr_capabilities parent)" "sorted_wrt (<) (gr_project_ids parent)"
    using assms(1) unfolding grant_validate_def grant.accepts_iff
    by (simp_all add: grant_checked_def sorted_set_ok_def)
  with assms(2) show ?thesis
    by (simp add: validate_attenuation_of_iff attenuates_def is_subset_iff)
qed

theorem attenuation_is_exact_witness:
  "attenuates example_child_grant example_root_grant \<and>
   validate_attenuation_of example_child_grant example_root_grant = Inr () \<and>
   validate_attenuation_of (example_child_grant\<lparr>gr_capabilities := [ApproveEffect]\<rparr>) example_root_grant \<noteq> Inr ()"
proof -
  have "grant_validate example_root_grant = Inr ()"
    unfolding grant_validate_def grant.accepts_iff by (rule example_grants_checked)
  moreover have "sorted_wrt (<) (gr_processors example_root_grant)" by (simp add: example_root_grant_def)
  ultimately have exact: "validate_attenuation_of child example_root_grant = Inr () \<longleftrightarrow>
    attenuates child example_root_grant" for child by (rule attenuation_is_exact)
  show ?thesis
    by (simp add: exact) (simp add: example_grant_defs attenuates_def)
qed

text \<open>
  Documentation and code disagree on processors: a grant is documented to list sorted unique
  processors and attenuation searches them by bisection, but validation does not check their order.
  A valid grant listing them out of order cannot delegate a processor it holds.
\<close>

theorem unsorted_processors_cannot_be_delegated:
  "\<exists>parent child. grant_validate parent = Inr () \<and> grant_validate child = Inr () \<and>
     attenuates child parent \<and> validate_attenuation_of child parent \<noteq> Inr ()"
proof (intro exI conjI)
  let ?parent = "example_root_grant\<lparr>gr_processors := [''gpu'', ''cpu'']\<rparr>"
  let ?child = "example_child_grant\<lparr>gr_processors := [''gpu'']\<rparr>"
  show "grant_validate ?parent = Inr ()" "grant_validate ?child = Inr ()" by (fact unsorted_grant_accepted)+
  show "attenuates ?child ?parent"
    by (simp add: example_grant_defs attenuates_def)
  have "\<not> is_subset (gr_processors ?child) (gr_processors ?parent)"
    by (simp add: is_subset_def slice_contains_sorted_def binary_search_by_def bs_loop.simps)
  then show "validate_attenuation_of ?child ?parent \<noteq> Inr ()"
    by (simp only: validate_attenuation_of_iff) blast
qed

text \<open>
  Acceptance cannot exceed the signed capsule: against a valid capsule, an acceptance is accepted
  precisely when it names the capsule, takes a subset of the delegated capabilities, happens before
  the capsule expires and, for a capsule addressed to a principal, comes from that principal. So it
  never takes a capability the capsule rejected.
\<close>

theorem acceptance_attenuates_capsule:
  assumes "capsule_validate capsule = Inr ()"
  shows "(acceptance_validate_against a capsule = Inr () \<longleftrightarrow>
      ha_handoff_id a = hc_handoff_id capsule \<and>
      set (ha_accepted_capabilities a) \<subseteq> set (hc_delegated_capabilities capsule) \<and>
      ha_accepted_at a < hc_expires_at capsule \<and>
      (\<forall>p. hc_recipient capsule = RPrincipal p \<longrightarrow> ha_recipient_id a = p)) \<and>
    (acceptance_validate_against a capsule = Inr () \<longrightarrow>
      set (ha_accepted_capabilities a) \<inter> set (hc_rejected_capabilities capsule) = {})"
proof -
  have wf: "capsule_wf capsule" using assms unfolding capsule_validate_def capsule.accepts_iff .
  then have "sorted_wrt (<) (hc_delegated_capabilities capsule)"
    by (simp add: capsule_wf_def sorted_set_ok_def)
  then have "acceptance_validate_against a capsule = Inr () \<longleftrightarrow>
      ha_handoff_id a = hc_handoff_id capsule \<and>
      set (ha_accepted_capabilities a) \<subseteq> set (hc_delegated_capabilities capsule) \<and>
      ha_accepted_at a < hc_expires_at capsule \<and>
      (\<forall>p. hc_recipient capsule = RPrincipal p \<longrightarrow> ha_recipient_id a = p)"
    by (auto simp: acceptance_validate_against_def is_subset_iff split: recipient_selector.splits)
  moreover have "set (hc_delegated_capabilities capsule) \<inter> set (hc_rejected_capabilities capsule) = {}"
    using wf by (simp add: capsule_wf_def)
  ultimately show ?thesis by blast
qed

definition example_capsule :: handoff_capsule where
  "example_capsule = \<lparr>hc_schema_version = \<lparr>sv_family = ''cigar.handoff'', sv_major = 1\<rparr>, hc_handoff_id = ''h'',
     hc_issuer_id = ''p1'', hc_recipient = RPrincipal ''p2'', hc_task = ''verify'', hc_acceptance_criteria = [''ok''],
     hc_project_ids = [''q''], hc_delegated_capabilities = [ReadContext], hc_rejected_capabilities = [ApproveEffect],
     hc_budget = \<lparr>bu_total_input_tokens = 5, bu_output_reserve_tokens = 1, bu_lane_input_tokens = [(LTask, 5)]\<rparr>,
     hc_topics = [], hc_references = \<lparr>hr_sources = [], hr_states = [], hr_decisions = [], hr_artifacts = [],
     hr_uncertainties = [], hr_effects = []\<rparr>, hc_bundle_id = ''b'', hc_audience = ''agent'', hc_created_at = 0,
     hc_expires_at = 9, hc_nonce = ''n'', hc_reusable = False, hc_issuer_key_id = ''k'', hc_signature = ''s'',
     hc_extensions = []\<rparr>"

definition example_acceptance :: handoff_acceptance where
  "example_acceptance = \<lparr>ha_schema_version = \<lparr>sv_family = ''cigar.handoff-acceptance'', sv_major = 1\<rparr>,
     ha_acceptance_id = ''a'', ha_handoff_id = ''h'', ha_recipient_id = ''p2'', ha_accepted_capabilities = [ReadContext],
     ha_rejected_capabilities = [], ha_unavailable_references = [], ha_policy_digest = ''pd'', ha_bundle_id = ''b'',
     ha_accepted_at = 3, ha_acknowledgement_digest = ''d''\<rparr>"

lemma example_capsule_wf: "capsule_wf example_capsule"
  by (simp add: capsule_wf_def example_capsule_def version_ok_def sorted_set_ok_def texts_ok_def text_ok_def
      extensions_ok_def references_ok_def selector_ok_def budget_ok_def bt_values_def coordination_limits
      ascii_space_def two_byte_space_def three_byte_space_def byte_defs)

theorem acceptance_attenuates_capsule_witness:
  "acceptance_validate_against example_acceptance example_capsule = Inr () \<and>
   acceptance_validate_against (example_acceptance\<lparr>ha_accepted_capabilities := [ApproveEffect]\<rparr>) example_capsule \<noteq> Inr ()"
proof -
  have "capsule_validate example_capsule = Inr ()"
    unfolding capsule_validate_def capsule.accepts_iff by (rule example_capsule_wf)
  note bound = acceptance_attenuates_capsule [OF this]
  have "acceptance_validate_against example_acceptance example_capsule = Inr ()"
    using bound [of example_acceptance] by (simp add: example_acceptance_def example_capsule_def)
  moreover have "acceptance_validate_against (example_acceptance\<lparr>ha_accepted_capabilities := [ApproveEffect]\<rparr>)
      example_capsule \<noteq> Inr ()"
    using bound [of "example_acceptance\<lparr>ha_accepted_capabilities := [ApproveEffect]\<rparr>"]
    by (simp add: example_acceptance_def example_capsule_def)
  ultimately show ?thesis by blast
qed

end
