(* ===== verification/Canon_Cbor.thy ===== *)
theory Canon_Cbor
  imports BTree_Map "HOL-Library.Multiset"
begin

text \<open>
  Canonical semantic values and their deterministic CBOR profile (\<open>cigar-canon/src/lib.rs\<close>): the
  encoder with its output limit, the strict decoder, and canonical encodings as a relation between
  values and bytes, described independently of the encoder. A decoder position is represented by the
  bytes that remain after it. The theory shows that the encoder computes the canonical encoding, that
  encoder and decoder are inverse to each other and that the decoder's final re-encoding check never
  rejects anything the parser accepted.
\<close>

datatype canonical_error =
  CInvalidInput | CDuplicateKey | CNullForbidden | CFloatForbidden | CLimitExceeded | CNonCanonical
  | CBytesNotJson

text \<open>The payload of \<open>CNegative\<close> is an \<open>i64\<close>: a 64-bit word read with its sign.\<close>

datatype canonical_node =
  CBoolean bool | CUnsigned u64 | CNegative "64 word" | CBytes string | CText string
  | CArray "canonical_node list" | CMap "(string \<times> canonical_node) list"

definition MAX_CANONICAL_INPUT_BYTES :: nat where "MAX_CANONICAL_INPUT_BYTES = 67108864"
definition MAX_CANONICAL_OUTPUT_BYTES :: nat where "MAX_CANONICAL_OUTPUT_BYTES = 67108864"
definition MAX_CANONICAL_DEPTH :: nat where "MAX_CANONICAL_DEPTH = 64"
definition MAX_CANONICAL_ARRAY_ITEMS :: nat where "MAX_CANONICAL_ARRAY_ITEMS = 100000"
definition MAX_CANONICAL_MAP_ENTRIES :: nat where "MAX_CANONICAL_MAP_ENTRIES = 100000"

lemmas canonical_limits = MAX_CANONICAL_INPUT_BYTES_def MAX_CANONICAL_OUTPUT_BYTES_def
  MAX_CANONICAL_DEPTH_def MAX_CANONICAL_ARRAY_ITEMS_def MAX_CANONICAL_MAP_ENTRIES_def

subsection \<open>The encoder\<close>

type_synonym canon_result = "(canonical_error, string) result"

definition cpush :: "string \<Rightarrow> nat \<Rightarrow> canon_result" where
  "cpush output value =
     (if length output = MAX_CANONICAL_OUTPUT_BYTES then Inl CLimitExceeded
      else Inr (output @ [char_of value]))"

definition cappend :: "string \<Rightarrow> string \<Rightarrow> canon_result" where
  "cappend output value =
     (if length output + length value > MAX_CANONICAL_OUTPUT_BYTES then Inl CLimitExceeded
      else Inr (output @ value))"

definition encode_head :: "nat \<Rightarrow> nat \<Rightarrow> string \<Rightarrow> canon_result" where
  "encode_head major argument output =
     (let prefix = 32 * major
      in if argument \<le> 23 then cpush output (prefix + argument)
         else if argument \<le> 0xff then
           rbind (cpush output (prefix + 24)) (\<lambda>output. cpush output argument)
         else if argument \<le> 0xffff then
           rbind (cpush output (prefix + 25)) (\<lambda>output. cappend output (be_bytes 2 argument))
         else if argument \<le> 0xffffffff then
           rbind (cpush output (prefix + 26)) (\<lambda>output. cappend output (be_bytes 4 argument))
         else rbind (cpush output (prefix + 27)) (\<lambda>output. cappend output (be_bytes 8 argument)))"

text \<open>\<open>usize\<close> has 64 bits, so the conversion to \<open>u64\<close> cannot fail.\<close>

definition encode_length :: "nat \<Rightarrow> nat \<Rightarrow> string \<Rightarrow> canon_result" where
  "encode_length major len output = encode_head major len output"

definition encode_key :: "string \<Rightarrow> canon_result" where
  "encode_key key = rbind (encode_length 3 (length key) []) (\<lambda>encoded. cappend encoded key)"

text \<open>The keys are encoded first and the entries sorted by their encoded keys.\<close>

fun encode_keys :: "(string \<times> 'a) list \<Rightarrow> (canonical_error, (string \<times> 'a) list) result" where
  "encode_keys [] = Inr []"
| "encode_keys ((key, child) # entries) =
     rbind (encode_key key) (\<lambda>encoded_key.
     rbind (encode_keys entries) (\<lambda>rest. Inr ((encoded_key, child) # rest)))"

definition sort_entries :: "(string \<times> 'a) list \<Rightarrow> (string \<times> 'a) list" where
  "sort_entries entries = sort_key fst entries"

lemma mset_sort_entries [simp]: "mset (sort_entries xs) = mset xs"
  by (simp add: sort_entries_def)

lemma sum_list_mset_eq: "mset xs = mset ys \<Longrightarrow> sum_list xs = (sum_list ys :: nat)"
  by (metis sum_mset_sum_list)

lemma encode_keys_children: "encode_keys kvs = Inr es \<Longrightarrow> map snd es = map snd kvs"
  by (induction kvs arbitrary: es rule: encode_keys.induct) (auto simp: result_simps)

lemma size_encoded_entries:
  fixes kvs :: "(string \<times> canonical_node) list"
  assumes "encode_keys kvs = Inr es"
  shows "size_list (\<lambda>x. size (snd x)) (sort_entries es) = size_list (\<lambda>x. size (snd x)) kvs"
proof -
  have eq: "size_list (\<lambda>x. size (snd x)) xs = sum_list (map Suc (map size (map snd xs)))"
    for xs :: "(string \<times> canonical_node) list" by (induction xs) simp_all
  have "mset (map Suc (map size (map snd (sort_entries es)))) = mset (map Suc (map size (map snd es)))"
    by simp
  then have "sum_list (map Suc (map size (map snd (sort_entries es)))) = sum_list (map Suc (map size (map snd es)))"
    by (rule sum_list_mset_eq)
  then show ?thesis unfolding eq by (simp only: encode_keys_children [OF assms])
qed

lemma size_items_less: "size_list size vs < size (CArray vs)"
  by simp

lemma size_entries_less: "size_list (\<lambda>x. size (snd x)) kvs < size (CMap kvs)"
  by (induction kvs) auto

function encode_cbor :: "canonical_node \<Rightarrow> string \<Rightarrow> nat \<Rightarrow> canon_result"
  and encode_items :: "canonical_node list \<Rightarrow> string \<Rightarrow> nat \<Rightarrow> canon_result"
  and encode_entries :: "(string \<times> canonical_node) list \<Rightarrow> string \<Rightarrow> nat \<Rightarrow> canon_result" where
  "encode_cbor value output depth =
     (if depth > MAX_CANONICAL_DEPTH then Inl CLimitExceeded
      else case value of
        CBoolean b \<Rightarrow> cpush output (if b then 0xf5 else 0xf4)
      | CUnsigned n \<Rightarrow> encode_head 0 (unat n) output
      | CNegative n \<Rightarrow>
          (let argument = - 1 - sint n
           in if argument < 0 then Inl CLimitExceeded else encode_head 1 (nat argument) output)
      | CBytes bs \<Rightarrow> rbind (encode_length 2 (length bs) output) (\<lambda>output. cappend output bs)
      | CText s \<Rightarrow> rbind (encode_length 3 (length s) output) (\<lambda>output. cappend output s)
      | CArray values \<Rightarrow>
          if length values > MAX_CANONICAL_ARRAY_ITEMS then Inl CLimitExceeded
          else rbind (encode_length 4 (length values) output) (\<lambda>output. encode_items values output (depth + 1))
      | CMap values \<Rightarrow>
          if length values > MAX_CANONICAL_MAP_ENTRIES then Inl CLimitExceeded
          else case rbind (encode_length 5 (length values) output) (\<lambda>output.
                    rbind (encode_keys values) (\<lambda>entries. Inr (output, entries))) of
                 Inl e \<Rightarrow> Inl e
               | Inr (output, entries) \<Rightarrow> encode_entries (sort_entries entries) output (depth + 1))"
| "encode_items [] output depth = Inr output"
| "encode_items (v # vs) output depth =
     (case encode_cbor v output depth of Inl e \<Rightarrow> Inl e | Inr output \<Rightarrow> encode_items vs output depth)"
| "encode_entries [] output depth = Inr output"
| "encode_entries ((encoded_key, child) # es) output depth =
     (case cappend output encoded_key of
        Inl e \<Rightarrow> Inl e
      | Inr output \<Rightarrow>
          case encode_cbor child output depth of
            Inl e \<Rightarrow> Inl e
          | Inr output \<Rightarrow> encode_entries es output depth)"
  by pat_completeness auto
termination
  by (relation "measure (\<lambda>x. case x of Inl (v, _, _) \<Rightarrow> size v
      | Inr (Inl (vs, _, _)) \<Rightarrow> size_list size vs
      | Inr (Inr (es, _, _)) \<Rightarrow> size_list (\<lambda>x. size (snd x)) es)")
    (auto simp: result_simps size_encoded_entries size_items_less size_entries_less simp del: canonical_node.size)

declare encode_cbor.simps [simp del]

definition to_deterministic_cbor :: "canonical_node \<Rightarrow> canon_result" where
  "to_deterministic_cbor value = encode_cbor value [] 1"

subsection \<open>The reference encoding\<close>

text \<open>
  Canonical encodings are described by what their bytes must be, without computing or sorting
  anything. A head is one byte with the major type in its upper three bits; its lower five bits are the
  argument if that is below 24, and otherwise announce 1, 2, 4 or 8 bytes that hold the argument in big
  endian, in the narrowest width that can. The entries of a map are its pairs, in any order that makes
  the encoded keys strictly increasing.
\<close>

inductive head_form :: "nat \<Rightarrow> nat \<Rightarrow> string \<Rightarrow> bool" where
  immediate: "n < 24 \<Longrightarrow> byte c = 32 * major + n \<Longrightarrow> head_form major n [c]"
| following: "i \<le> 3 \<Longrightarrow> byte c = 32 * major + 24 + i \<Longrightarrow> length tail = 2 ^ i \<Longrightarrow> be_value tail = n \<Longrightarrow>
    (if i = 0 then 24 \<le> n else 256 ^ 2 ^ (i - 1) \<le> n) \<Longrightarrow> head_form major n (c # tail)"

inductive canonical_encoding :: "canonical_node \<Rightarrow> string \<Rightarrow> bool" where
  boolean: "byte c = (if b then 0xf5 else 0xf4) \<Longrightarrow> canonical_encoding (CBoolean b) [c]"
| unsigned: "head_form 0 (unat n) h \<Longrightarrow> canonical_encoding (CUnsigned n) h"
| negative: "sint n < 0 \<Longrightarrow> head_form 1 (nat (- 1 - sint n)) h \<Longrightarrow> canonical_encoding (CNegative n) h"
| bytes: "head_form 2 (length bs) h \<Longrightarrow> canonical_encoding (CBytes bs) (h @ bs)"
| text_string: "head_form 3 (length s) h \<Longrightarrow> canonical_encoding (CText s) (h @ s)"
| array: "head_form 4 (length vs) h \<Longrightarrow> list_all2 canonical_encoding vs bss \<Longrightarrow> canonical_encoding (CArray vs) (h @ concat bss)"
| entries: "head_form 5 (length kvs) h \<Longrightarrow> mset kvs' = mset kvs \<Longrightarrow>
    list_all2 (\<lambda>kv e. canonical_encoding (CText (fst kv)) (fst e) \<and> canonical_encoding (snd kv) (snd e)) kvs' es \<Longrightarrow>
    sorted_wrt (<) (map fst es) \<Longrightarrow> canonical_encoding (CMap kvs) (h @ concat (map (\<lambda>(e, b). e @ b) es))"

text \<open>What the encoder writes when no limit stops it, as a function.\<close>

definition cbor_head :: "nat \<Rightarrow> nat \<Rightarrow> string" where
  "cbor_head major n =
     (if n \<le> 23 then [char_of (32 * major + n)]
      else if n \<le> 0xff then [char_of (32 * major + 24), char_of n]
      else if n \<le> 0xffff then char_of (32 * major + 25) # be_bytes 2 n
      else if n \<le> 0xffffffff then char_of (32 * major + 26) # be_bytes 4 n
      else char_of (32 * major + 27) # be_bytes 8 n)"

definition key_bytes :: "string \<Rightarrow> string" where
  "key_bytes key = cbor_head 3 (length key) @ key"

fun cbor :: "canonical_node \<Rightarrow> string" where
  "cbor (CBoolean b) = [char_of (if b then 0xf5 else 0xf4 :: nat)]"
| "cbor (CUnsigned n) = cbor_head 0 (unat n)"
| "cbor (CNegative n) = cbor_head 1 (nat (- 1 - sint n))"
| "cbor (CBytes bs) = cbor_head 2 (length bs) @ bs"
| "cbor (CText s) = cbor_head 3 (length s) @ s"
| "cbor (CArray vs) = cbor_head 4 (length vs) @ concat (map cbor vs)"
| "cbor (CMap kvs) = cbor_head 5 (length kvs) @
     concat (map (\<lambda>(k, b). k @ b) (sort_entries (map (\<lambda>(k, c). (key_bytes k, cbor c)) kvs)))"

text \<open>What a value needs beside room for its bytes: bounded nesting and collections, and a sign.\<close>

fun cbor_fits :: "nat \<Rightarrow> canonical_node \<Rightarrow> bool" where
  "cbor_fits d (CNegative n) \<longleftrightarrow> d \<le> MAX_CANONICAL_DEPTH \<and> sint n < 0"
| "cbor_fits d (CArray vs) \<longleftrightarrow> d \<le> MAX_CANONICAL_DEPTH \<and> length vs \<le> MAX_CANONICAL_ARRAY_ITEMS \<and>
     list_all (cbor_fits (d + 1)) vs"
| "cbor_fits d (CMap kvs) \<longleftrightarrow> d \<le> MAX_CANONICAL_DEPTH \<and> length kvs \<le> MAX_CANONICAL_MAP_ENTRIES \<and>
     list_all (\<lambda>(k, c). cbor_fits (d + 1) c) kvs"
| "cbor_fits d v \<longleftrightarrow> d \<le> MAX_CANONICAL_DEPTH"

definition limited :: "string \<Rightarrow> bool \<Rightarrow> string \<Rightarrow> canon_result" where
  "limited output ok bytes =
     (if ok \<and> length output + length bytes \<le> MAX_CANONICAL_OUTPUT_BYTES then Inr (output @ bytes)
      else Inl CLimitExceeded)"

lemma cpush_eq: "length buf \<le> MAX_CANONICAL_OUTPUT_BYTES \<Longrightarrow> cpush buf n = limited buf True [char_of n]"
  by (auto simp: cpush_def limited_def)

lemma cappend_eq: "cappend buf bs = limited buf True bs"
  by (simp add: cappend_def limited_def)

lemma limited_bind:
  assumes "p \<Longrightarrow> length (buf @ bs) \<le> MAX_CANONICAL_OUTPUT_BYTES \<Longrightarrow> f (buf @ bs) = limited (buf @ bs) q cs"
  shows "rbind (limited buf p bs) f = limited buf (p \<and> q) (bs @ cs)"
  using assms by (auto simp: limited_def)

lemma limited_case:
  "(case limited buf p bs of Inl e \<Rightarrow> Inl e | Inr out \<Rightarrow> f out) = rbind (limited buf p bs) f"
  by (simp add: rbind_def)

lemma encode_head_eq:
  assumes "length buf \<le> MAX_CANONICAL_OUTPUT_BYTES"
  shows "encode_head major n buf = limited buf True (cbor_head major n)"
proof -
  have "rbind (cpush buf m) (\<lambda>out. cpush out n) = limited buf True [char_of m, char_of n]"
    "rbind (cpush buf m) (\<lambda>out. cappend out bs) = limited buf True (char_of m # bs)" for m bs
    using assms by (auto simp: cpush_def cappend_def limited_def)
  then show ?thesis
    by (simp add: encode_head_def cbor_head_def Let_def del: be_bytes.simps) (simp add: cpush_eq assms)
qed

lemma encode_bytes_eq:
  assumes "length buf \<le> MAX_CANONICAL_OUTPUT_BYTES"
  shows "rbind (encode_length major (length bs) buf) (\<lambda>out. cappend out bs) =
    limited buf True (cbor_head major (length bs) @ bs)"
  using limited_bind [of True buf "cbor_head major (length bs)" "\<lambda>out. cappend out bs" True bs]
  by (simp add: encode_length_def encode_head_eq assms cappend_eq)

lemma encode_key_eq: "encode_key key = limited [] True (key_bytes key)"
  by (simp add: encode_key_def encode_bytes_eq key_bytes_def)

lemma encode_keys_eq:
  "encode_keys kvs = (if list_all (\<lambda>(k, c). length (key_bytes k) \<le> MAX_CANONICAL_OUTPUT_BYTES) kvs
     then Inr (map (\<lambda>(k, c). (key_bytes k, c)) kvs) else Inl CLimitExceeded)"
  by (induction kvs rule: encode_keys.induct) (auto simp: encode_key_eq limited_def)

lemma insort_map_snd: "insort_key fst (k, f c) (map (\<lambda>(k, c). (k, f c)) xs) =
    map (\<lambda>(k, c). (k, f c)) (insort_key fst (k, c) xs)"
  by (induction xs) auto

lemma sort_entries_map: "sort_entries (map (\<lambda>(k, c). (g k, f c)) xs) =
    map (\<lambda>(k, c). (k, f c)) (sort_entries (map (\<lambda>(k, c). (g k, c)) xs))"
  unfolding sort_entries_def
proof (induction xs)
  case (Cons x xs)
  then show ?case by (cases x) (simp add: insort_map_snd)
qed simp

lemma set_sort_entries [simp]: "set (sort_entries xs) = set xs"
  by (simp add: sort_entries_def)

lemma length_concat_ge: "x \<in> set xs \<Longrightarrow> length x \<le> length (concat xs)"
  by (induction xs) auto

lemma long_key:
  assumes "\<not> list_all (\<lambda>(k, c). length (key_bytes k) \<le> MAX_CANONICAL_OUTPUT_BYTES) kvs"
  shows "\<not> length (concat (map (\<lambda>(k, c). k @ cbor c) (sort_entries (map (\<lambda>(k, c). (key_bytes k, c)) kvs))))
    \<le> MAX_CANONICAL_OUTPUT_BYTES"
proof -
  from assms obtain k c where "(k, c) \<in> set kvs" and big: "length (key_bytes k) > MAX_CANONICAL_OUTPUT_BYTES"
    by (auto simp: list_all_iff not_le)
  then have "key_bytes k @ cbor c \<in>
      set (map (\<lambda>(k, c). k @ cbor c) (sort_entries (map (\<lambda>(k, c). (key_bytes k, c)) kvs)))" by force
  from length_concat_ge [OF this] big show ?thesis by simp
qed

lemma encode_map_eq:
  assumes deep: "d \<le> MAX_CANONICAL_DEPTH" and buf: "length buf \<le> MAX_CANONICAL_OUTPUT_BYTES"
    and es: "es = sort_entries (map (\<lambda>(k, c). (key_bytes k, c)) kvs)"
    and IH: "\<And>out. encode_length 5 (length kvs) buf = Inr out \<Longrightarrow> length kvs \<le> MAX_CANONICAL_MAP_ENTRIES \<Longrightarrow>
      encode_keys kvs = Inr (map (\<lambda>(k, c). (key_bytes k, c)) kvs) \<Longrightarrow> length out \<le> MAX_CANONICAL_OUTPUT_BYTES \<Longrightarrow>
      encode_entries es out (d + 1) =
        limited out (list_all (\<lambda>(k, c). cbor_fits (d + 1) c) es) (concat (map (\<lambda>(k, c). k @ cbor c) es))"
  shows "encode_cbor (CMap kvs) buf d = limited buf (cbor_fits d (CMap kvs)) (cbor (CMap kvs))"
proof -
  define small where "small = list_all (\<lambda>(k, c). length (key_bytes k) \<le> MAX_CANONICAL_OUTPUT_BYTES) kvs"
  define fits where "fits = list_all (\<lambda>(k, c). cbor_fits (d + 1) c) kvs"
  define body where "body = concat (map (\<lambda>(k, c). k @ cbor c) es)"
  have fits: "list_all (\<lambda>(k, c). cbor_fits (d + 1) c) es = fits"
    unfolding es fits_def by (simp add: list_all_iff case_prod_beta)
  have bytes: "cbor (CMap kvs) = cbor_head 5 (length kvs) @ body"
    unfolding body_def es cbor.simps sort_entries_map [of key_bytes cbor kvs]
    by (simp add: comp_def split_def)
  have head: "encode_length 5 (length kvs) buf = limited buf True (cbor_head 5 (length kvs))"
    by (simp add: encode_length_def encode_head_eq buf)
  have keys: "encode_keys kvs = (if small then Inr (map (\<lambda>(k, c). (key_bytes k, c)) kvs) else Inl CLimitExceeded)"
    unfolding small_def by (rule encode_keys_eq)
  have big: "\<not> length body \<le> MAX_CANONICAL_OUTPUT_BYTES" if "\<not> small"
    using long_key that unfolding body_def es small_def by blast
  have step: "encode_cbor (CMap kvs) buf d = (if length kvs > MAX_CANONICAL_MAP_ENTRIES \<or> \<not> small then Inl CLimitExceeded
      else rbind (limited buf True (cbor_head 5 (length kvs))) (\<lambda>out. encode_entries es out (d + 1)))"
    using deep by (auto simp: encode_cbor.simps [of "CMap kvs"] head keys es limited_def)
  show ?thesis
  proof (cases "length kvs \<le> MAX_CANONICAL_MAP_ENTRIES \<and> small")
    case True
    have "rbind (limited buf True (cbor_head 5 (length kvs))) (\<lambda>out. encode_entries es out (d + 1)) =
        limited buf (True \<and> fits) (cbor_head 5 (length kvs) @ body)"
    proof (rule limited_bind)
      assume room: "length (buf @ cbor_head 5 (length kvs)) \<le> MAX_CANONICAL_OUTPUT_BYTES"
      then have "encode_length 5 (length kvs) buf = Inr (buf @ cbor_head 5 (length kvs))"
        unfolding head by (simp add: limited_def)
      from IH [OF this _ _ room] True show "encode_entries es (buf @ cbor_head 5 (length kvs)) (d + 1) =
          limited (buf @ cbor_head 5 (length kvs)) fits body"
        by (simp only: fits body_def keys if_True simp_thms)
    qed
    with True deep show ?thesis unfolding step bytes by (simp add: fits_def)
  next
    case False
    with big deep show ?thesis unfolding step bytes by (auto simp: limited_def)
  qed
qed

text \<open>The encoder computes the reference encoding, or reports the limit and nothing else.\<close>

lemma encode_correct:
  "length buf \<le> MAX_CANONICAL_OUTPUT_BYTES \<Longrightarrow>
     encode_cbor v buf d = limited buf (cbor_fits d v) (cbor v)"
  "length buf \<le> MAX_CANONICAL_OUTPUT_BYTES \<Longrightarrow>
     encode_items vs buf d = limited buf (list_all (cbor_fits d) vs) (concat (map cbor vs))"
  "length buf \<le> MAX_CANONICAL_OUTPUT_BYTES \<Longrightarrow>
     encode_entries es buf d = limited buf (list_all (\<lambda>(k, c). cbor_fits d c) es)
       (concat (map (\<lambda>(k, c). k @ cbor c) es))"
proof (induction v buf d and vs buf d and es buf d
    rule: encode_cbor_encode_items_encode_entries.induct)
  case (1 v buf d)
  show ?case
  proof (cases "d \<le> MAX_CANONICAL_DEPTH")
    case deep: True
    show ?thesis
    proof (cases v)
      case (CArray vs)
      have IH: "encode_items vs out (d + 1) = limited out (list_all (cbor_fits (d + 1)) vs) (concat (map cbor vs))"
        if "encode_length 4 (length vs) buf = Inr out" "length vs \<le> MAX_CANONICAL_ARRAY_ITEMS"
          "length out \<le> MAX_CANONICAL_OUTPUT_BYTES" for out
        using 1(1) CArray deep that by simp
      have "rbind (encode_length 4 (length vs) buf) (\<lambda>out. encode_items vs out (d + 1)) =
          limited buf (list_all (cbor_fits (d + 1)) vs) (cbor v)"
        if "length vs \<le> MAX_CANONICAL_ARRAY_ITEMS"
        using limited_bind [of True buf "cbor_head 4 (length vs)" "\<lambda>out. encode_items vs out (d + 1)"
            "list_all (cbor_fits (d + 1)) vs" "concat (map cbor vs)"] IH that 1(3)
        by (simp add: encode_length_def encode_head_eq CArray) (simp add: limited_def)
      then show ?thesis
        using deep by (simp add: encode_cbor.simps CArray) (simp add: limited_def)
    next
      case (CMap kvs)
      have "encode_entries (sort_entries (map (\<lambda>(k, c). (key_bytes k, c)) kvs)) out (d + 1) =
          limited out (list_all (\<lambda>(k, c). cbor_fits (d + 1) c) (sort_entries (map (\<lambda>(k, c). (key_bytes k, c)) kvs)))
            (concat (map (\<lambda>(k, c). k @ cbor c) (sort_entries (map (\<lambda>(k, c). (key_bytes k, c)) kvs))))"
        if "encode_length 5 (length kvs) buf = Inr out" "length kvs \<le> MAX_CANONICAL_MAP_ENTRIES"
          "encode_keys kvs = Inr (map (\<lambda>(k, c). (key_bytes k, c)) kvs)"
          "length out \<le> MAX_CANONICAL_OUTPUT_BYTES" for out
        using 1(2) CMap deep that by simp
      from encode_map_eq [OF deep 1(3) refl this] show ?thesis by (simp only: CMap)
    qed (use 1(3) deep in \<open>simp_all add: encode_cbor.simps encode_head_eq encode_bytes_eq cpush_eq Let_def\<close>,
        simp_all add: limited_def)
  next
    case False
    then have "\<not> cbor_fits d v" by (cases v) simp_all
    with False show ?thesis by (simp add: encode_cbor.simps limited_def)
  qed
next
  case (3 v vs buf d)
  have "rbind (encode_cbor v buf d) (\<lambda>out. encode_items vs out d) =
      limited buf (cbor_fits d v \<and> list_all (cbor_fits d) vs) (cbor v @ concat (map cbor vs))"
    unfolding 3(1) [OF 3(3)] using 3(2) 3(3) by (intro limited_bind) (simp add: 3(1) limited_def)
  then show ?case by (simp add: rbind_def)
next
  case (5 k c es buf d)
  have *: "rbind (encode_cbor c out d) (\<lambda>out. encode_entries es out d) =
      limited out (cbor_fits d c \<and> list_all (\<lambda>(k, c). cbor_fits d c) es) (cbor c @ concat (map (\<lambda>(k, c). k @ cbor c) es))"
    if "cappend buf k = Inr out" "length out \<le> MAX_CANONICAL_OUTPUT_BYTES" for out
    unfolding 5(1) [OF that] using 5(2) that by (intro limited_bind) (simp add: 5(1) limited_def)
  have "rbind (limited buf True k) (\<lambda>out. rbind (encode_cbor c out d) (\<lambda>out. encode_entries es out d)) =
      limited buf (True \<and> cbor_fits d c \<and> list_all (\<lambda>(k, c). cbor_fits d c) es)
        (k @ cbor c @ concat (map (\<lambda>(k, c). k @ cbor c) es))"
    by (rule limited_bind) (rule *, simp_all add: cappend_eq limited_def)
  then show ?case by (simp add: rbind_def cappend_eq)
qed (simp_all add: limited_def)

subsection \<open>The decoder\<close>

text \<open>\<open>str::from_utf8\<close>: the well-formed byte sequences of the Unicode standard.\<close>

definition utf8_tail :: "char \<Rightarrow> bool" where
  "utf8_tail c \<longleftrightarrow> 0x80 \<le> byte c \<and> byte c \<le> 0xBF"

definition utf8_three :: "char \<Rightarrow> char \<Rightarrow> char \<Rightarrow> bool" where
  "utf8_three a b c \<longleftrightarrow> utf8_tail b \<and> utf8_tail c \<and>
     (byte a = 0xE0 \<and> 0xA0 \<le> byte b \<or> byte a = 0xED \<and> byte b \<le> 0x9F \<or>
      0xE1 \<le> byte a \<and> byte a \<le> 0xEF \<and> byte a \<noteq> 0xED)"

definition utf8_four :: "char \<Rightarrow> char \<Rightarrow> char \<Rightarrow> char \<Rightarrow> bool" where
  "utf8_four a b c d \<longleftrightarrow> utf8_tail b \<and> utf8_tail c \<and> utf8_tail d \<and>
     (byte a = 0xF0 \<and> 0x90 \<le> byte b \<or> byte a = 0xF4 \<and> byte b \<le> 0x8F \<or>
      0xF1 \<le> byte a \<and> byte a \<le> 0xF3)"

fun utf8_valid :: "string \<Rightarrow> bool" where
  "utf8_valid [] \<longleftrightarrow> True"
| "utf8_valid (a # s) \<longleftrightarrow>
     (if byte a < 0x80 then utf8_valid s
      else case s of
        [] \<Rightarrow> False
      | b # s1 \<Rightarrow>
          if 0xC2 \<le> byte a \<and> byte a \<le> 0xDF then utf8_tail b \<and> utf8_valid s1
          else case s1 of
            [] \<Rightarrow> False
          | c # s2 \<Rightarrow>
              if byte a \<le> 0xEF then utf8_three a b c \<and> utf8_valid s2
              else case s2 of [] \<Rightarrow> False | d # s3 \<Rightarrow> utf8_four a b c d \<and> utf8_valid s3)"

type_synonym 'a parsed = "(canonical_error, 'a \<times> string) result"

definition read_byte :: "string \<Rightarrow> nat parsed" where
  "read_byte input = (case input of [] \<Rightarrow> Inl CInvalidInput | b # rest \<Rightarrow> Inr (byte b, rest))"

definition read_exact :: "nat \<Rightarrow> string \<Rightarrow> string parsed" where
  "read_exact len input =
     (if length input < len then Inl CInvalidInput else Inr (take len input, drop len input))"

text \<open>A fixed-width argument that would fit a shorter form is rejected.\<close>

definition read_wide :: "nat \<Rightarrow> nat \<Rightarrow> string \<Rightarrow> nat parsed" where
  "read_wide width least input =
     rbind (read_exact width input) (\<lambda>(bytes, rest).
       if be_value bytes \<le> least then Inl CNonCanonical else Inr (be_value bytes, rest))"

definition read_argument :: "nat \<Rightarrow> string \<Rightarrow> nat parsed" where
  "read_argument additional input =
     (if additional \<le> 23 then Inr (additional, input)
      else if additional = 24 then
        rbind (read_byte input) (\<lambda>(value, rest). if value < 24 then Inl CNonCanonical else Inr (value, rest))
      else if additional = 25 then read_wide 2 0xff input
      else if additional = 26 then read_wide 4 0xffff input
      else if additional = 27 then read_wide 8 0xffffffff input
      else Inl CNonCanonical)"

definition read_length :: "nat \<Rightarrow> nat \<Rightarrow> string \<Rightarrow> nat parsed" where
  "read_length additional maximum input =
     rbind (read_argument additional input) (\<lambda>(value, rest).
       if value > maximum then Inl CLimitExceeded else Inr (value, rest))"

definition parse_scalar :: "nat \<Rightarrow> nat \<Rightarrow> string \<Rightarrow> canonical_node parsed" where
  "parse_scalar major additional input =
     (if major = 0 then
        rbind (read_argument additional input) (\<lambda>(n, rest). Inr (CUnsigned (of_nat n), rest))
      else if major = 1 then
        rbind (read_argument additional input) (\<lambda>(n, rest).
          if n \<ge> 2 ^ 63 then Inl CLimitExceeded else Inr (CNegative (word_of_int (- 1 - int n)), rest))
      else if major = 2 then
        rbind (read_length additional MAX_CANONICAL_OUTPUT_BYTES input) (\<lambda>(n, rest).
        rbind (read_exact n rest) (\<lambda>(bytes, rest). Inr (CBytes bytes, rest)))
      else if major = 3 then
        rbind (read_length additional MAX_CANONICAL_OUTPUT_BYTES input) (\<lambda>(n, rest).
        rbind (read_exact n rest) (\<lambda>(bytes, rest).
          if utf8_valid bytes then Inr (CText bytes, rest) else Inl CInvalidInput))
      else if major = 6 then Inl CNonCanonical
      else if additional = 20 then Inr (CBoolean False, input)
      else if additional = 21 then Inr (CBoolean True, input)
      else if additional = 22 then Inl CNullForbidden
      else if 25 \<le> additional \<and> additional \<le> 27 then Inl CFloatForbidden
      else Inl CNonCanonical)"

function parse :: "nat \<Rightarrow> string \<Rightarrow> canonical_node parsed"
  and parse_items :: "nat \<Rightarrow> nat \<Rightarrow> string \<Rightarrow> canonical_node list parsed"
  and parse_entries :: "nat \<Rightarrow> nat \<Rightarrow> string option \<Rightarrow> (string, canonical_node) btree \<Rightarrow> string
      \<Rightarrow> (string, canonical_node) btree parsed" where
  "parse depth input =
     (if depth > MAX_CANONICAL_DEPTH then Inl CLimitExceeded
      else case input of
        [] \<Rightarrow> Inl CInvalidInput
      | initial # rest \<Rightarrow>
          let major = byte initial div 32; additional = byte initial mod 32
          in if major = 4 then
               case read_length additional MAX_CANONICAL_ARRAY_ITEMS rest of
                 Inl e \<Rightarrow> Inl e
               | Inr (n, rest) \<Rightarrow>
                   case parse_items n (depth + 1) rest of
                     Inl e \<Rightarrow> Inl e
                   | Inr (values, rest) \<Rightarrow> Inr (CArray values, rest)
             else if major = 5 then
               case read_length additional MAX_CANONICAL_MAP_ENTRIES rest of
                 Inl e \<Rightarrow> Inl e
               | Inr (n, rest) \<Rightarrow>
                   case parse_entries n (depth + 1) None [] rest of
                     Inl e \<Rightarrow> Inl e
                   | Inr (values, rest) \<Rightarrow> Inr (CMap values, rest)
             else parse_scalar major additional rest)"
| "parse_items 0 depth input = Inr ([], input)"
| "parse_items (Suc n) depth input =
     (case parse depth input of
        Inl e \<Rightarrow> Inl e
      | Inr (v, rest) \<Rightarrow>
          case parse_items n depth rest of
            Inl e \<Rightarrow> Inl e
          | Inr (vs, rest) \<Rightarrow> Inr (v # vs, rest))"
| "parse_entries 0 depth previous values input = Inr (values, input)"
| "parse_entries (Suc n) depth previous values input =
     (case parse depth input of
        Inl e \<Rightarrow> Inl e
      | Inr (CText key, rest) \<Rightarrow>
          let encoded_key = take (length input - length rest) input
          in if (case previous of None \<Rightarrow> False | Some p \<Rightarrow> p \<ge> encoded_key) then Inl CNonCanonical
             else (case parse depth rest of
                     Inl e \<Rightarrow> Inl e
                   | Inr (v, rest) \<Rightarrow>
                       if bt_get values key \<noteq> None then Inl CDuplicateKey
                       else parse_entries n depth (Some encoded_key) (bt_insert key v values) rest)
      | Inr (_, rest) \<Rightarrow> Inl CNonCanonical)"
  by pat_completeness auto
termination
  by (relation "inv_image (less_than <*lex*> less_than) (\<lambda>x. case x of
        Inl (d, _) \<Rightarrow> (MAX_CANONICAL_DEPTH + 1 - d, 0)
      | Inr (Inl (n, d, _)) \<Rightarrow> (MAX_CANONICAL_DEPTH + 1 - d, n + 1)
      | Inr (Inr (n, d, _, _, _)) \<Rightarrow> (MAX_CANONICAL_DEPTH + 1 - d, n + 1))") auto

declare parse.simps [simp del]

definition from_deterministic_cbor :: "string \<Rightarrow> (canonical_error, canonical_node) result" where
  "from_deterministic_cbor input =
     (if length input > MAX_CANONICAL_INPUT_BYTES then Inl CLimitExceeded
      else rbind (parse 1 input) (\<lambda>(value, rest).
        if rest \<noteq> [] then Inl CNonCanonical
        else rbind (to_deterministic_cbor value) (\<lambda>encoded.
          if encoded \<noteq> input then Inl CNonCanonical else Inr value)))"

subsection \<open>Heads\<close>

lemma head_split: "a < 32 \<Longrightarrow> major < 8 \<Longrightarrow> byte (char_of (32 * major + a)) div 32 = major \<and>
    byte (char_of (32 * major + a)) mod 32 = a"
  by simp

lemma read_wide_be_bytes:
  "n < 256 ^ w \<Longrightarrow> least < n \<Longrightarrow> read_wide w least (be_bytes w n @ rest) = Inr (n, rest)"
  by (simp add: read_wide_def read_exact_def be_value_be_bytes)

lemma read_head:
  assumes "n < 2 ^ 64"
  obtains a bs where "a < 32" and "cbor_head major n = char_of (32 * major + a) # bs"
    and "\<And>rest. read_argument a (bs @ rest) = Inr (n, rest)"
proof -
  consider "n \<le> 23" | "23 < n" "n \<le> 0xff" | "0xff < n" "n \<le> 0xffff" | "0xffff < n" "n \<le> 0xffffffff"
    | "0xffffffff < n" by linarith
  then show ?thesis
  proof cases
    case 1
    then show ?thesis by (intro that [of n "[]"]) (simp_all add: cbor_head_def read_argument_def)
  next
    case 2
    then show ?thesis by (intro that [of 24 "[char_of n]"]) (simp_all add: cbor_head_def read_argument_def read_byte_def)
  next
    case 3
    then show ?thesis
      by (intro that [of 25 "be_bytes 2 n"])
        (simp_all add: cbor_head_def read_argument_def read_wide_be_bytes del: be_bytes.simps)
  next
    case 4
    then show ?thesis
      by (intro that [of 26 "be_bytes 4 n"])
        (simp_all add: cbor_head_def read_argument_def read_wide_be_bytes del: be_bytes.simps)
  next
    case 5
    then show ?thesis
      using assms by (intro that [of 27 "be_bytes 8 n"])
        (simp_all add: cbor_head_def read_argument_def read_wide_be_bytes del: be_bytes.simps)
  qed
qed

lemma read_wide_InrD:
  assumes "read_wide w least input = Inr (n, rest)"
  shows "input = be_bytes w n @ rest \<and> least < n \<and> n < 256 ^ w"
proof -
  have "w \<le> length input" and n: "n = be_value (take w input)" and "rest = drop w input" "least < n"
    using assms by (auto simp: read_wide_def read_exact_def split: if_splits)
  moreover from this have "be_bytes w n = take w input" using be_bytes_be_value [of "take w input"] by simp
  moreover have "n < 256 ^ w" using be_value_less [of "take w input"] n \<open>w \<le> length input\<close> by simp
  ultimately show ?thesis by simp
qed

lemma read_argument_InrD:
  assumes "read_argument a input = Inr (n, rest)"
  shows "char_of (32 * major + a) # input = cbor_head major n @ rest \<and> n < 2 ^ 64"
proof -
  consider "a \<le> 23" | "a = 24" | "a = 25" | "a = 26" | "a = 27" | "27 < a" by linarith
  then show ?thesis
  proof cases
    case 1
    then show ?thesis using assms by (simp add: read_argument_def cbor_head_def)
  next
    case 2
    then have "\<exists>b. input = b # rest \<and> n = byte b \<and> 24 \<le> n"
      using assms by (auto simp: read_argument_def read_byte_def result_simps split: list.splits if_splits)
    then obtain b where "input = b # rest" "n = byte b" "24 \<le> n" by blast
    moreover have "byte b < 256" by simp
    ultimately show ?thesis using 2 by (simp add: cbor_head_def del: byte_less)
  next
    case 3
    then have "read_wide 2 0xff input = Inr (n, rest)" using assms by (simp add: read_argument_def)
    from read_wide_InrD [OF this] 3 show ?thesis by (simp add: cbor_head_def del: be_bytes.simps)
  next
    case 4
    then have "read_wide 4 0xffff input = Inr (n, rest)" using assms by (simp add: read_argument_def)
    from read_wide_InrD [OF this] 4 show ?thesis by (simp add: cbor_head_def del: be_bytes.simps)
  next
    case 5
    then have "read_wide 8 0xffffffff input = Inr (n, rest)" using assms by (simp add: read_argument_def)
    from read_wide_InrD [OF this] 5 show ?thesis by (simp add: cbor_head_def del: be_bytes.simps)
  next
    case 6
    then show ?thesis using assms by (simp add: read_argument_def)
  qed
qed

lemma cbor_head_neq_Nil [simp]: "cbor_head major n \<noteq> []"
  by (simp add: cbor_head_def)

lemma cbor_head_inject:
  assumes "cbor_head major m @ r = cbor_head major n @ r'" and "m < 2 ^ 64" and "n < 2 ^ 64"
  shows "m = n \<and> r = r'"
proof -
  obtain a bs where a: "a < 32" "cbor_head major m = char_of (32 * major + a) # bs"
    "\<And>rest. read_argument a (bs @ rest) = Inr (m, rest)" using read_head [OF assms(2)] by metis
  obtain b cs where b: "b < 32" "cbor_head major n = char_of (32 * major + b) # cs"
    "\<And>rest. read_argument b (cs @ rest) = Inr (n, rest)" using read_head [OF assms(3)] by metis
  have "byte (char_of (32 * major + a)) mod 32 = byte (char_of (32 * major + b)) mod 32" "bs @ r = cs @ r'"
    using assms(1) a(2) b(2) by auto
  moreover from this(1) a(1) b(1) have "a = b" by (simp add: mod_mod_cancel)
  ultimately show ?thesis using a(3) [of r] b(3) [of r'] by simp
qed

lemma key_bytes_inject: "length k < 2 ^ 64 \<Longrightarrow> length k' < 2 ^ 64 \<Longrightarrow> key_bytes k = key_bytes k' \<longleftrightarrow> k = k'"
  using cbor_head_inject [of 3 "length k" k "length k'" k'] by (auto simp: key_bytes_def)

subsection \<open>Entries of a map\<close>

definition insert_all :: "('k::linorder \<times> 'v) list \<Rightarrow> ('k, 'v) btree \<Rightarrow> ('k, 'v) btree" where
  "insert_all xs m = fold (\<lambda>(k, v). bt_insert k v) xs m"

lemma insert_all_simps [simp]:
  "insert_all [] m = m"
  "insert_all ((k, v) # xs) m = insert_all xs (bt_insert k v m)"
  by (simp_all add: insert_all_def)

lemma mset_bt_insert: "k \<notin> fst ` set m \<Longrightarrow> mset (bt_insert k v m) = add_mset (k, v) (mset m)"
  by (induction k v m rule: bt_insert.induct) auto

lemma bt_invar_insert_all: "bt_invar m \<Longrightarrow> bt_invar (insert_all xs m)"
  by (induction xs arbitrary: m) (auto simp: bt_invar_insert)

lemma mset_insert_all:
  "distinct (map fst xs) \<Longrightarrow> fst ` set xs \<inter> fst ` set m = {} \<Longrightarrow> mset (insert_all xs m) = mset xs + mset m"
proof (induction xs arbitrary: m)
  case (Cons x xs)
  obtain k v where x: "x = (k, v)" by (cases x)
  have "mset (insert_all xs (bt_insert k v m)) = mset xs + mset (bt_insert k v m)"
    using Cons.prems x by (intro Cons.IH) auto
  with Cons.prems x show ?case by (simp add: mset_bt_insert)
qed simp

lemma sorted_unique_by:
  fixes f :: "'a \<Rightarrow> 'b::linorder"
  assumes "mset xs = mset ys" and "sorted_wrt (<) (map f xs)" and "sorted_wrt (<) (map f ys)"
  shows "xs = ys"
proof -
  have "set xs = set ys" using assms(1) by (rule mset_eq_setD)
  moreover have "inj_on f (set xs \<union> set ys)"
    using assms(2) calculation unfolding strict_sorted_iff distinct_map by (metis Un_absorb)
  ultimately show ?thesis
    using assms(2,3) by (intro map_sorted_distinct_set_unique [of f]) (auto simp: strict_sorted_iff)
qed

lemma insert_all_perm: "mset xs = mset m \<Longrightarrow> bt_invar m \<Longrightarrow> insert_all xs [] = m"
proof -
  assume perm: "mset xs = mset m" and inv: "bt_invar m"
  have "mset (map fst xs) = mset (map fst m)" using perm by simp
  then have "distinct (map fst xs)" using bt_invar_distinct [OF inv] by (metis mset_eq_imp_distinct_iff)
  then have "mset (insert_all xs []) = mset m" using perm by (simp add: mset_insert_all)
  moreover have "bt_invar (insert_all xs [])" by (simp add: bt_invar_insert_all)
  ultimately show ?thesis using inv by (intro sorted_unique_by [of _ _ fst]) (simp_all add: bt_invar_def)
qed

definition key_order :: "(string \<times> 'a) list \<Rightarrow> (string \<times> 'a) list" where
  "key_order kvs = sort_key (\<lambda>x. key_bytes (fst x)) kvs"

definition entries_bytes :: "(string \<times> canonical_node) list \<Rightarrow> string" where
  "entries_bytes xs = concat (map (\<lambda>(k, c). key_bytes k @ cbor c) xs)"

lemma insort_map_key:
  "insort_key fst (key_bytes k, f c) (map (\<lambda>(k, c). (key_bytes k, f c)) xs) =
     map (\<lambda>(k, c). (key_bytes k, f c)) (insort_key (\<lambda>x. key_bytes (fst x)) (k, c) xs)"
  by (induction xs) auto

lemma sort_entries_key_order:
  "sort_entries (map (\<lambda>(k, c). (key_bytes k, f c)) kvs) = map (\<lambda>(k, c). (key_bytes k, f c)) (key_order kvs)"
  unfolding sort_entries_def key_order_def
proof (induction kvs)
  case (Cons x kvs)
  then show ?case by (cases x) (simp add: insort_map_key)
qed simp

lemma cbor_map: "cbor (CMap kvs) = cbor_head 5 (length kvs) @ entries_bytes (key_order kvs)"
  unfolding cbor.simps sort_entries_key_order entries_bytes_def by (simp add: comp_def split_def)

lemma key_order_props [simp]:
  "mset (key_order kvs) = mset kvs" "set (key_order kvs) = set kvs" "length (key_order kvs) = length kvs"
  by (simp_all add: key_order_def)

lemma distinct_map_key_order: "distinct (map f (key_order kvs)) \<longleftrightarrow> distinct (map f kvs)"
proof -
  have "mset (map f (key_order kvs)) = mset (map f kvs)" by simp
  then show ?thesis by (rule mset_eq_imp_distinct_iff)
qed

lemma key_order_sorted:
  assumes "distinct (map fst kvs)" and "\<forall>(k, c) \<in> set kvs. length k < 2 ^ 64"
  shows "sorted_wrt (<) (map (\<lambda>x. key_bytes (fst x)) (key_order kvs))"
proof -
  have "inj_on key_bytes (fst ` set kvs)"
    using assms(2) key_bytes_inject by (fastforce simp: inj_on_def)
  then have "distinct (map key_bytes (map fst kvs))" using assms(1) by (simp add: distinct_map comp_inj_on)
  then have "distinct (map (\<lambda>x. key_bytes (fst x)) (key_order kvs))"
    by (simp add: distinct_map_key_order comp_def)
  moreover have "sorted (map (\<lambda>x. key_bytes (fst x)) (key_order kvs))"
    unfolding key_order_def by (rule sorted_sort_key)
  ultimately show ?thesis by (simp add: strict_sorted_iff)
qed

fun node_wf :: "canonical_node \<Rightarrow> bool" where
  "node_wf (CText s) \<longleftrightarrow> utf8_valid s"
| "node_wf (CArray vs) \<longleftrightarrow> list_all node_wf vs"
| "node_wf (CMap kvs) \<longleftrightarrow> bt_invar kvs \<and> list_all (\<lambda>(k, c). utf8_valid k \<and> node_wf c) kvs"
| "node_wf _ \<longleftrightarrow> True"

subsection \<open>Canonical encodings\<close>

lemma byte_eqD: "byte c = n \<Longrightarrow> c = char_of n"
  by (auto simp: byte_def)

lemma head_form_cbor_head:
  assumes "head_form major n h" shows "h = cbor_head major n"
  using assms
proof cases
  case (following i c tail)
  have c: "c = char_of (32 * major + 24 + i)" using following by (simp add: byte_eqD)
  have t: "tail = be_bytes (2 ^ i) n" using following by (metis be_bytes_be_value)
  have n: "n < 256 ^ 2 ^ i" using following by (metis be_value_less)
  consider "i = 0" | "i = 1" | "i = 2" | "i = 3" using following(2) by linarith
  then show ?thesis
  proof cases
    case 1
    then show ?thesis using following(1,6) c t n by (simp add: cbor_head_def ac_simps)
  next
    case 2
    then show ?thesis using following(1,6) c t n by (simp add: cbor_head_def ac_simps del: be_bytes.simps flip: numeral_2_eq_2)
  next
    case 3
    then show ?thesis using following(1,6) c t n by (simp add: cbor_head_def ac_simps del: be_bytes.simps)
  next
    case 4
    then show ?thesis using following(1,6) c t n by (simp add: cbor_head_def ac_simps del: be_bytes.simps)
  qed
qed (auto simp: cbor_head_def byte_eqD)

lemma following_be_bytes:
  assumes "i \<le> 3" "major < 8" "n < 256 ^ 2 ^ i" "if i = 0 then 24 \<le> n else 256 ^ 2 ^ (i - 1) \<le> n"
  shows "head_form major n (char_of (32 * major + 24 + i) # be_bytes (2 ^ i) n)"
  using assms by (intro following) (simp_all add: be_value_be_bytes del: be_bytes.simps)

lemma cbor_head_form:
  assumes "n < 2 ^ 64" "major < 8" shows "head_form major n (cbor_head major n)"
proof -
  consider "n \<le> 23" | "23 < n" "n \<le> 0xff" | "0xff < n" "n \<le> 0xffff" | "0xffff < n" "n \<le> 0xffffffff"
    | "0xffffffff < n" by linarith
  then show ?thesis
  proof cases
    case 1
    then show ?thesis using assms by (auto simp: cbor_head_def intro!: immediate)
  next
    case 2
    then show ?thesis using following_be_bytes [of 0 major n] assms by (simp add: cbor_head_def ac_simps)
  next
    case 3
    then show ?thesis using following_be_bytes [of 1 major n] assms by (simp add: cbor_head_def ac_simps del: be_bytes.simps flip: numeral_2_eq_2)
  next
    case 4
    then show ?thesis using following_be_bytes [of 2 major n] assms by (simp add: cbor_head_def ac_simps del: be_bytes.simps)
  next
    case 5
    then show ?thesis using following_be_bytes [of 3 major n] assms by (simp add: cbor_head_def ac_simps del: be_bytes.simps)
  qed
qed

lemma list_all2_eqD: "list_all2 (\<lambda>x y. P x y \<and> y = f x) xs ys \<Longrightarrow> ys = map f xs"
  by (induction rule: list_all2_induct) auto

lemma sort_entries_unique:
  assumes "mset es = mset xs" and "sorted_wrt (<) (map fst es)"
  shows "sort_entries xs = es"
proof (rule sorted_unique_by [of _ _ fst])
  have "distinct (map fst xs)" using assms by (metis mset_eq_imp_distinct_iff mset_map strict_sorted_iff)
  then have "distinct (map fst (sort_entries xs))" by (metis mset_eq_imp_distinct_iff mset_map mset_sort_entries)
  then show "sorted_wrt (<) (map fst (sort_entries xs))" by (simp add: strict_sorted_iff sort_entries_def)
qed (use assms in simp_all)

lemma canonical_unique: "canonical_encoding v b \<Longrightarrow> b = cbor v"
proof (induction rule: canonical_encoding.induct)
  case (array vs h bss)
  have "bss = map cbor vs" using array.IH by (rule list_all2_eqD)
  then show ?case using array(1) by (simp add: head_form_cbor_head)
next
  case (entries kvs h kvs' es)
  have "es = map (\<lambda>(k, c). (key_bytes k, cbor c)) kvs'"
    using entries.IH by (induction rule: list_all2_induct) (auto simp: key_bytes_def prod_eq_iff)
  then have "mset es = mset (map (\<lambda>(k, c). (key_bytes k, cbor c)) kvs)" using entries.hyps(2) by simp
  from sort_entries_unique [OF this entries.hyps(3)] show ?case using entries.hyps(1) by (simp add: head_form_cbor_head)
qed (auto simp: head_form_cbor_head byte_eqD)

lemma length_entries_bytes: "(k, v) \<in> set xs \<Longrightarrow> length (key_bytes k @ cbor v) \<le> length (entries_bytes xs)"
  unfolding entries_bytes_def by (rule length_concat_ge) force

lemma canonical_map:
  assumes "length kvs \<le> MAX_CANONICAL_MAP_ENTRIES" and "distinct (map fst kvs)"
    and "\<And>k c. (k, c) \<in> set kvs \<Longrightarrow> length k < 2 ^ 64 \<and> canonical_encoding (CText k) (key_bytes k) \<and> canonical_encoding c (cbor c)"
  shows "canonical_encoding (CMap kvs) (cbor (CMap kvs))"
proof -
  let ?enc = "\<lambda>(k, c). (key_bytes k, cbor c)"
  have "head_form 5 (length kvs) (cbor_head 5 (length kvs))"
    using assms(1) by (intro cbor_head_form) (simp_all add: canonical_limits)
  moreover have "list_all2 (\<lambda>kv e. canonical_encoding (CText (fst kv)) (fst e) \<and> canonical_encoding (snd kv) (snd e))
      (key_order kvs) (map ?enc (key_order kvs))"
    using assms(3) by (auto simp: list.rel_map list_all2_same)
  moreover have "sorted_wrt (<) (map fst (map ?enc (key_order kvs)))"
  proof -
    have "\<forall>(k, c) \<in> set kvs. length k < 2 ^ 64" using assms(3) by blast
    from key_order_sorted [OF assms(2) this] show ?thesis by (simp add: comp_def split_def)
  qed
  ultimately show ?thesis
    unfolding cbor.simps sort_entries_key_order by (intro canonical_encoding.entries) simp_all
qed

lemma canonical_cbor:
  "cbor_fits d v \<Longrightarrow> node_wf v \<Longrightarrow> length (cbor v) < 2 ^ 64 \<Longrightarrow> canonical_encoding v (cbor v)"
proof (induction v arbitrary: d)
  case (CUnsigned n)
  have "unat n < 2 ^ 64" using unsigned_less [of n, where ?'a = nat] by simp
  then show ?case by (auto intro!: canonical_encoding.intros cbor_head_form)
next
  case (CNegative n)
  have "- (2 ^ 63) \<le> sint n" using sint_range_size [of n] by (simp add: word_size)
  with CNegative show ?case by (auto intro!: canonical_encoding.intros cbor_head_form)
next
  case (CArray vs)
  have "canonical_encoding v (cbor v)" if "v \<in> set vs" for v
  proof (rule CArray.IH [OF that])
    show "cbor_fits (d + 1) v" "node_wf v" using CArray.prems that by (auto simp: list_all_iff)
    have "length (cbor v) \<le> length (concat (map cbor vs))" using that by (intro length_concat_ge) simp
    then show "length (cbor v) < 2 ^ 64" using CArray.prems(3) by simp
  qed
  then have "list_all2 canonical_encoding vs (map cbor vs)" by (simp add: list_all2_conv_all_nth)
  moreover have "head_form 4 (length vs) (cbor_head 4 (length vs))"
    using CArray.prems(1) by (intro cbor_head_form) (simp_all add: canonical_limits)
  ultimately show ?case using canonical_encoding.array by simp
next
  case (CMap kvs)
  have fits: "length (entries_bytes (key_order kvs)) < 2 ^ 64" using CMap.prems(3) unfolding cbor_map by simp
  have each: "length k < 2 ^ 64 \<and> canonical_encoding (CText k) (key_bytes k) \<and> canonical_encoding c (cbor c)" if "(k, c) \<in> set kvs" for k c
  proof -
    have "length (key_bytes k @ cbor c) < 2 ^ 64"
      using length_entries_bytes [of k c "key_order kvs"] that fits by simp
    then have len: "length k < 2 ^ 64" "length (cbor c) < 2 ^ 64" by (simp_all add: key_bytes_def)
    moreover have "canonical_encoding c (cbor c)"
      using that CMap.prems(1,2) len by (intro CMap.IH [of "(k, c)" c "d + 1"]) (auto simp: list_all_iff)
    ultimately show ?thesis using cbor_head_form [of "length k" 3] by (auto simp: key_bytes_def intro: text_string)
  qed
  show ?case
    using CMap.prems(1,2) each by (intro canonical_map) (simp_all add: bt_invar_distinct)
qed (auto intro!: canonical_encoding.intros cbor_head_form)

subsection \<open>Decoding an encoding\<close>

lemma parse_head:
  assumes "d \<le> MAX_CANONICAL_DEPTH" and "n < 2 ^ 64" and "major < 8"
  obtains a bs where "read_argument a bs = Inr (n, rest)"
    and "parse d (cbor_head major n @ rest) =
     (if major = 4 then
        case read_length a MAX_CANONICAL_ARRAY_ITEMS bs of Inl e \<Rightarrow> Inl e
        | Inr (n, rest) \<Rightarrow> (case parse_items n (d + 1) rest of Inl e \<Rightarrow> Inl e | Inr (vs, rest) \<Rightarrow> Inr (CArray vs, rest))
      else if major = 5 then
        case read_length a MAX_CANONICAL_MAP_ENTRIES bs of Inl e \<Rightarrow> Inl e
        | Inr (n, rest) \<Rightarrow> (case parse_entries n (d + 1) None [] rest of Inl e \<Rightarrow> Inl e | Inr (vs, rest) \<Rightarrow> Inr (CMap vs, rest))
      else parse_scalar major a bs)"
proof -
  obtain a bs where a: "a < 32" "cbor_head major n = char_of (32 * major + a) # bs"
    "\<And>rest. read_argument a (bs @ rest) = Inr (n, rest)" using read_head [OF assms(2)] by metis
  show ?thesis
    using a(3) [of rest] a(2) head_split [OF a(1) assms(3)] assms(1)
    by (intro that [of a "bs @ rest"]) (simp_all add: parse.simps Let_def)
qed

lemma parse_text:
  assumes "d \<le> MAX_CANONICAL_DEPTH" and "length k \<le> MAX_CANONICAL_OUTPUT_BYTES" and "utf8_valid k"
  shows "parse d (key_bytes k @ rest) = Inr (CText k, rest)"
proof -
  have "length k < 2 ^ 64" using assms(2) by (simp add: canonical_limits)
  from parse_head [OF assms(1) this, of 3 "k @ rest"] obtain a bs where
    "read_argument a bs = Inr (length k, k @ rest)" "parse d (cbor_head 3 (length k) @ k @ rest) = parse_scalar 3 a bs"
    by auto
  with assms show ?thesis by (simp add: key_bytes_def parse_scalar_def read_length_def read_exact_def)
qed

lemma parse_items_concat:
  assumes "\<And>v rest. v \<in> set vs \<Longrightarrow> parse d (cbor v @ rest) = Inr (v, rest)"
  shows "parse_items (length vs) d (concat (map cbor vs) @ rest) = Inr (vs, rest)"
  using assms by (induction vs) auto

lemma parse_entries_concat:
  assumes "\<And>k v rest. (k, v) \<in> set xs \<Longrightarrow>
      parse d (key_bytes k @ rest) = Inr (CText k, rest) \<and> parse d (cbor v @ rest) = Inr (v, rest)"
    and "sorted_wrt (<) (map (\<lambda>x. key_bytes (fst x)) xs)" and "distinct (map fst xs)"
    and "\<forall>p x. prev = Some p \<longrightarrow> x \<in> set xs \<longrightarrow> p < key_bytes (fst x)"
    and "fst ` set xs \<inter> fst ` set m = {}"
  shows "parse_entries (length xs) d prev m (entries_bytes xs @ rest) = Inr (insert_all xs m, rest)"
  using assms
proof (induction xs arbitrary: prev m)
  case (Cons x xs)
  obtain k v where x: "x = (k, v)" by (cases x)
  have key: "parse d (key_bytes k @ r) = Inr (CText k, r)" and val: "parse d (cbor v @ r) = Inr (v, r)" for r
    using Cons.prems(1) [of k v] x by simp_all
  have "bt_get m k = None" using Cons.prems(5) x by (auto simp: map_of_eq_None_iff)
  moreover have "parse_entries (length xs) d (Some (key_bytes k)) (bt_insert k v m) (entries_bytes xs @ rest) =
      Inr (insert_all xs (bt_insert k v m), rest)"
    using Cons.prems x by (intro Cons.IH) auto
  moreover have "\<not> (case prev of None \<Rightarrow> False | Some p \<Rightarrow> p \<ge> key_bytes k)"
    using Cons.prems(4) x by (auto simp: not_le split: option.splits)
  moreover have "parse_entries (Suc (length xs)) d prev m (key_bytes k @ r) =
      (if (case prev of None \<Rightarrow> False | Some p \<Rightarrow> p \<ge> key_bytes k) then Inl CNonCanonical
       else case parse d r of Inl e \<Rightarrow> Inl e
         | Inr (v, rest) \<Rightarrow> if bt_get m k \<noteq> None then Inl CDuplicateKey
             else parse_entries (length xs) d (Some (key_bytes k)) (bt_insert k v m) rest)" for r
    by (cases prev; cases "parse d r") (simp_all add: key Let_def split: prod.split)
  ultimately show ?case
    using val [of "entries_bytes xs @ rest"] by (simp add: x entries_bytes_def del: parse_entries.simps)
qed (simp add: entries_bytes_def)

lemma parse_cbor:
  "node_wf v \<Longrightarrow> cbor_fits d v \<Longrightarrow> length (cbor v) \<le> MAX_CANONICAL_OUTPUT_BYTES \<Longrightarrow>
    parse d (cbor v @ rest) = Inr (v, rest)"
proof (induction v arbitrary: d rest)
  case (CBoolean b)
  then show ?case by (simp add: parse.simps Let_def parse_scalar_def)
next
  case (CUnsigned n)
  have "unat n < 2 ^ 64" using unsigned_less [of n, where ?'a = nat] by simp
  with CUnsigned parse_head [of d "unat n" 0 rest] obtain a bs where
    "read_argument a bs = Inr (unat n, rest)" "parse d (cbor_head 0 (unat n) @ rest) = parse_scalar 0 a bs" by auto
  then show ?case by (simp add: parse_scalar_def)
next
  case (CNegative n)
  have range: "- (2 ^ 63) \<le> sint n" using sint_range_size [of n] by (simp add: word_size)
  let ?m = "nat (- 1 - sint n)"
  have m: "?m < 2 ^ 63" "?m < 2 ^ 64" "- 1 - int ?m = sint n" using range CNegative by simp_all
  with CNegative parse_head [of d ?m 1 rest] obtain a bs where
    "read_argument a bs = Inr (?m, rest)" "parse d (cbor_head 1 ?m @ rest) = parse_scalar 1 a bs" by auto
  with m show ?case by (simp add: parse_scalar_def)
next
  case (CBytes b)
  have "length b < 2 ^ 64" using CBytes by (simp add: canonical_limits)
  with CBytes parse_head [of d "length b" 2 "b @ rest"] obtain a bs where
    "read_argument a bs = Inr (length b, b @ rest)" "parse d (cbor_head 2 (length b) @ b @ rest) = parse_scalar 2 a bs"
    by auto
  with CBytes show ?case by (simp add: parse_scalar_def read_length_def read_exact_def)
next
  case (CText t)
  then show ?case using parse_text [of d t rest] by (simp add: key_bytes_def)
next
  case (CArray vs)
  have elems: "parse (d + 1) (cbor v @ r) = Inr (v, r)" if "v \<in> set vs" for v r
  proof (rule CArray.IH [OF that])
    show "node_wf v" "cbor_fits (d + 1) v" using CArray.prems that by (auto simp: list_all_iff)
    show "length (cbor v) \<le> MAX_CANONICAL_OUTPUT_BYTES"
      using length_concat_ge [of "cbor v" "map cbor vs"] that CArray.prems(3) by auto
  qed
  have "length vs \<le> MAX_CANONICAL_ARRAY_ITEMS" "d \<le> MAX_CANONICAL_DEPTH" using CArray.prems by simp_all
  moreover from this have "length vs < 2 ^ 64" by (simp add: canonical_limits)
  ultimately obtain a bs where a: "read_argument a bs = Inr (length vs, concat (map cbor vs) @ rest)"
    "parse d (cbor_head 4 (length vs) @ concat (map cbor vs) @ rest) =
      (case read_length a MAX_CANONICAL_ARRAY_ITEMS bs of Inl e \<Rightarrow> Inl e
        | Inr (n, rest) \<Rightarrow> (case parse_items n (d + 1) rest of Inl e \<Rightarrow> Inl e | Inr (vs, rest) \<Rightarrow> Inr (CArray vs, rest)))"
    using parse_head [of d "length vs" 4 "concat (map cbor vs) @ rest"] by auto
  then show ?case
    using CArray.prems parse_items_concat [OF elems, where rest = rest] by (simp add: read_length_def)
next
  case (CMap kvs)
  let ?xs = "key_order kvs"
  have d: "d \<le> MAX_CANONICAL_DEPTH" and n: "length kvs \<le> MAX_CANONICAL_MAP_ENTRIES" and inv: "bt_invar kvs"
    using CMap.prems by simp_all
  have size: "length (entries_bytes ?xs) \<le> MAX_CANONICAL_OUTPUT_BYTES"
    using CMap.prems(3) unfolding cbor_map by simp
  have entry: "length k \<le> MAX_CANONICAL_OUTPUT_BYTES" "length (cbor v) \<le> MAX_CANONICAL_OUTPUT_BYTES"
    "cbor_fits (d + 1) v" "utf8_valid k" "node_wf v" if "(k, v) \<in> set kvs" for k v
    using length_entries_bytes [of k v ?xs] that size CMap.prems by (auto simp: key_bytes_def list_all_iff)
  have deeper: "d + 1 \<le> MAX_CANONICAL_DEPTH" if "(k, v) \<in> set kvs" for k v
    using entry(3) [OF that] by (cases v) simp_all
  have elems: "parse (d + 1) (key_bytes k @ r) = Inr (CText k, r) \<and> parse (d + 1) (cbor v @ r) = Inr (v, r)"
    if "(k, v) \<in> set ?xs" for k v r
  proof -
    from that have kv: "(k, v) \<in> set kvs" by simp
    moreover have "v \<in> Basic_BNFs.snds (k, v)" by simp
    ultimately show ?thesis
      using parse_text [OF deeper [OF kv]] CMap.IH [OF kv] entry [OF kv] by blast
  qed
  have keys: "distinct (map fst kvs)" using inv by (rule bt_invar_distinct)
  have "\<forall>(k, c) \<in> set kvs. length k < 2 ^ 64"
    using entry(1) by (force simp: canonical_limits)
  from key_order_sorted [OF keys this] keys
  have "parse_entries (length ?xs) (d + 1) None [] (entries_bytes ?xs @ rest) = Inr (insert_all ?xs [], rest)"
    by (intro parse_entries_concat elems) (simp_all add: distinct_map_key_order)
  then have body: "parse_entries (length kvs) (d + 1) None [] (entries_bytes ?xs @ rest) = Inr (kvs, rest)"
    using inv by (simp add: insert_all_perm)
  have "length kvs < 2 ^ 64" using n by (simp add: canonical_limits)
  from parse_head [OF d this, of 5 "entries_bytes ?xs @ rest"] obtain a bs where
    "read_argument a bs = Inr (length kvs, entries_bytes ?xs @ rest)"
    "parse d (cbor_head 5 (length kvs) @ entries_bytes ?xs @ rest) =
      (case read_length a MAX_CANONICAL_MAP_ENTRIES bs of Inl e \<Rightarrow> Inl e
        | Inr (n, rest) \<Rightarrow> (case parse_entries n (d + 1) None [] rest of Inl e \<Rightarrow> Inl e | Inr (vs, rest) \<Rightarrow> Inr (CMap vs, rest)))"
    by auto
  with n body show ?case unfolding cbor_map by (simp add: read_length_def)
qed

subsection \<open>What the parser accepts\<close>

lemma byte_head: "byte c div 32 = major \<Longrightarrow> byte c mod 32 = a \<Longrightarrow> c = char_of (32 * major + a)"
  by (metis char_of_byte mult_div_mod_eq)

lemma read_exact_InrD: "read_exact n input = Inr (bs, rest) \<Longrightarrow> input = bs @ rest \<and> length bs = n"
  by (auto simp: read_exact_def split: if_splits)

lemma read_length_InrD:
  assumes "read_length a maximum input = Inr (n, rest)"
  shows "read_argument a input = Inr (n, rest)" and "n \<le> maximum"
  using assms by (auto simp: read_length_def result_simps split: if_splits)

lemma parse_scalar_sound:
  assumes "parse_scalar (byte c div 32) (byte c mod 32) input = Inr (v, rest)" and "d \<le> MAX_CANONICAL_DEPTH"
    and "byte c div 32 \<noteq> 4" and "byte c div 32 \<noteq> 5"
  shows "c # input = cbor v @ rest \<and> cbor_fits d v \<and> node_wf v"
proof -
  have c: "c = char_of (32 * (byte c div 32) + byte c mod 32)" by (metis char_of_byte mult_div_mod_eq)
  have "byte c div 32 < 8" using byte_less [of c] by linarith
  then consider "byte c div 32 = 0" | "byte c div 32 = 1" | "byte c div 32 = 2" | "byte c div 32 = 3"
    | "byte c div 32 = 6" | "byte c div 32 = 7" using assms(3,4) by linarith
  then show ?thesis
  proof cases
    case 1
    then obtain n where n: "read_argument (byte c mod 32) input = Inr (n, rest)" "v = CUnsigned (of_nat n)"
      using assms(1) by (auto simp: parse_scalar_def result_simps)
    with read_argument_InrD [OF n(1), of 0] c 1 assms(2) show ?thesis
      by (simp add: unsigned_of_nat take_bit_nat_eq_self)
  next
    case 2
    then obtain n where n: "read_argument (byte c mod 32) input = Inr (n, rest)"
      "v = CNegative (word_of_int (- 1 - int n))" "n < 2 ^ 63"
      using assms(1) by (auto simp: parse_scalar_def result_simps not_le split: if_splits)
    have "sint (word_of_int (- 1 - int n) :: 64 word) = signed_take_bit 63 (- 1 - int n)"
      unfolding signed_of_int by simp
    also have "\<dots> = - 1 - int n" using n(3) by (intro signed_take_bit_int_eq_self) simp_all
    finally have "sint (word_of_int (- 1 - int n) :: 64 word) = - 1 - int n" .
    with n read_argument_InrD [OF n(1), of 1] c 2 assms(2) show ?thesis by simp
  next
    case 3
    then obtain n r bs where n: "read_length (byte c mod 32) MAX_CANONICAL_OUTPUT_BYTES input = Inr (n, r)"
      "read_exact n r = Inr (bs, rest)" "v = CBytes bs"
      using assms(1) by (auto simp: parse_scalar_def result_simps)
    with read_argument_InrD [OF read_length_InrD(1) [OF n(1)], of 2] read_exact_InrD [OF n(2)] c 3 assms(2)
    show ?thesis by simp
  next
    case 4
    then obtain n r bs where n: "read_length (byte c mod 32) MAX_CANONICAL_OUTPUT_BYTES input = Inr (n, r)"
      "read_exact n r = Inr (bs, rest)" "v = CText bs" "utf8_valid bs"
      using assms(1) by (auto simp: parse_scalar_def result_simps split: if_splits)
    with read_argument_InrD [OF read_length_InrD(1) [OF n(1)], of 3] read_exact_InrD [OF n(2)] c 4 assms(2)
    show ?thesis by simp
  next
    case 5
    then show ?thesis using assms(1) by (simp add: parse_scalar_def)
  next
    case 6
    then have "byte c mod 32 \<in> {20, 21} \<and> v = CBoolean (byte c mod 32 = 21) \<and> rest = input"
      using assms(1) by (auto simp: parse_scalar_def split: if_splits)
    with c 6 assms(2) show ?thesis by auto
  qed
qed

definition entries_ok :: "nat \<Rightarrow> (string \<times> canonical_node) list \<Rightarrow> bool" where
  "entries_ok d xs \<longleftrightarrow> sorted_wrt (<) (map (\<lambda>x. key_bytes (fst x)) xs) \<and>
     list_all (\<lambda>(k, c). utf8_valid k \<and> node_wf c \<and> cbor_fits d c) xs"

lemma entries_ok_distinct: "entries_ok d xs \<Longrightarrow> distinct (map fst xs)"
proof -
  assume "entries_ok d xs"
  moreover have "map (\<lambda>x. key_bytes (fst x)) xs = map key_bytes (map fst xs)" by simp
  ultimately have "distinct (map key_bytes (map fst xs))" by (simp only: entries_ok_def strict_sorted_iff)
  then show ?thesis unfolding distinct_map [of key_bytes] by (rule conjunct1)
qed

lemma map_of_entries:
  assumes "entries_ok d xs"
  shows "key_order (insert_all xs []) = xs" and "mset (insert_all xs []) = mset xs"
proof -
  show perm: "mset (insert_all xs []) = mset xs"
    using entries_ok_distinct [OF assms] by (simp add: mset_insert_all)
  have "sorted (map (\<lambda>x. key_bytes (fst x)) (key_order (insert_all xs [])))"
    unfolding key_order_def by (rule sorted_sort_key)
  moreover have "mset (map (\<lambda>x. key_bytes (fst x)) (key_order (insert_all xs []))) = mset (map (\<lambda>x. key_bytes (fst x)) xs)"
    using perm by simp
  then have "distinct (map (\<lambda>x. key_bytes (fst x)) (key_order (insert_all xs [])))"
    using assms unfolding entries_ok_def strict_sorted_iff by (metis mset_eq_imp_distinct_iff)
  ultimately have "sorted_wrt (<) (map (\<lambda>x. key_bytes (fst x)) (key_order (insert_all xs [])))"
    by (simp add: strict_sorted_iff)
  then show "key_order (insert_all xs []) = xs"
    using assms perm unfolding entries_ok_def by (intro sorted_unique_by) auto
qed

lemma map_sound:
  assumes "entries_ok (d + 1) xs" and "d \<le> MAX_CANONICAL_DEPTH" and "length xs \<le> MAX_CANONICAL_MAP_ENTRIES"
  shows "cbor (CMap (insert_all xs [])) = cbor_head 5 (length xs) @ entries_bytes xs \<and>
    cbor_fits d (CMap (insert_all xs [])) \<and> node_wf (CMap (insert_all xs []))"
proof -
  have perm: "mset (insert_all xs []) = mset xs" using assms(1) by (rule map_of_entries)
  then have len: "length (insert_all xs []) = length xs" and set: "set (insert_all xs []) = set xs"
    by (metis size_mset, metis set_mset_mset)
  show ?thesis
    unfolding cbor_map map_of_entries(1) [OF assms(1)] len
    using assms len set bt_invar_insert_all [of "[]" xs] by (auto simp: entries_ok_def list_all_iff)
qed

lemma entries_ok_Cons:
  "entries_ok d ((k, v) # xs) \<longleftrightarrow> (\<forall>x \<in> set xs. key_bytes k < key_bytes (fst x)) \<and> entries_ok d xs \<and>
     utf8_valid k \<and> node_wf v \<and> cbor_fits d v"
  by (auto simp: entries_ok_def)

lemma parse_sound:
  "parse d input = Inr (v, rest) \<Longrightarrow> input = cbor v @ rest \<and> cbor_fits d v \<and> node_wf v"
  "parse_items n d input = Inr (vs, rest) \<Longrightarrow>
     input = concat (map cbor vs) @ rest \<and> length vs = n \<and> list_all (\<lambda>v. cbor_fits d v \<and> node_wf v) vs"
  "parse_entries n d prev m input = Inr (m', rest) \<Longrightarrow> bt_invar m \<Longrightarrow>
     \<exists>xs. input = entries_bytes xs @ rest \<and> length xs = n \<and> m' = insert_all xs m \<and> entries_ok d xs \<and>
       (\<forall>p x. prev = Some p \<longrightarrow> x \<in> set xs \<longrightarrow> p < key_bytes (fst x))"
proof (induction d input and n d input and n d prev m input arbitrary: v rest and vs rest and m' rest
    rule: parse_parse_items_parse_entries.induct)
  case (1 d input)
  have d: "d \<le> MAX_CANONICAL_DEPTH" using 1(3) by (simp add: parse.simps split: if_splits)
  obtain c rs where input: "input = c # rs"
    using 1(3) d by (auto simp: parse.simps split: list.splits)
  have c: "c = char_of (32 * (byte c div 32) + byte c mod 32)" by (metis char_of_byte mult_div_mod_eq)
  consider "byte c div 32 = 4" | "byte c div 32 = 5" | "byte c div 32 \<noteq> 4" "byte c div 32 \<noteq> 5" by blast
  then show ?case
  proof cases
    case 1
    then obtain n r vs where n: "read_length (byte c mod 32) MAX_CANONICAL_ARRAY_ITEMS rs = Inr (n, r)"
      and items: "parse_items n (d + 1) r = Inr (vs, rest)" and v: "v = CArray vs"
      using "1.prems" d input by (auto simp: parse.simps [of d "c # rs"] Let_def split: sum.splits prod.splits)
    have "r = concat (map cbor vs) @ rest \<and> length vs = n \<and> list_all (\<lambda>v. cbor_fits (d + 1) v \<and> node_wf v) vs"
      using "1.IH"(1) d input 1 n items by (auto simp: not_less)
    with read_argument_InrD [OF read_length_InrD(1) [OF n], of 4] read_length_InrD(2) [OF n] c 1 d v input
    show ?thesis by (simp add: list_all_iff)
  next
    case 2
    then obtain n r m where n: "read_length (byte c mod 32) MAX_CANONICAL_MAP_ENTRIES rs = Inr (n, r)"
      and items: "parse_entries n (d + 1) None [] r = Inr (m, rest)" and v: "v = CMap m"
      using "1.prems" d input by (auto simp: parse.simps [of d "c # rs"] Let_def split: sum.splits prod.splits)
    have "\<exists>xs. r = entries_bytes xs @ rest \<and> length xs = n \<and> m = insert_all xs [] \<and> entries_ok (d + 1) xs"
      using "1.IH"(2) d input 2 n items by (simp add: not_less)
    then obtain xs where xs: "r = entries_bytes xs @ rest" "length xs = n" "m = insert_all xs []" "entries_ok (d + 1) xs"
      by blast
    from map_sound [OF xs(4) d] read_length_InrD(2) [OF n] xs(2)
    have "cbor v = cbor_head 5 n @ entries_bytes xs \<and> cbor_fits d v \<and> node_wf v"
      by (simp only: v xs(3))
    with read_argument_InrD [OF read_length_InrD(1) [OF n], of 5] c 2 input xs(1) show ?thesis by simp
  next
    case 3
    then have "parse_scalar (byte c div 32) (byte c mod 32) rs = Inr (v, rest)"
      using "1.prems" d input by (simp add: parse.simps [of d "c # rs"] Let_def)
    from parse_scalar_sound [OF this d 3] input show ?thesis by simp
  qed
next
  case (3 n d input)
  then show ?case by (force split: sum.splits prod.splits)
next
  case (4 d prev m input)
  then show ?case by (intro exI [of _ "[]"]) (simp add: entries_bytes_def entries_ok_def)
next
  case (5 n d prev m input)
  from 5(4) obtain key r where key: "parse d input = Inr (CText key, r)"
    by (auto split: sum.splits prod.splits canonical_node.splits)
  then have k: "input = key_bytes key @ r" "utf8_valid key" using 5(1) by (auto simp: key_bytes_def)
  then have enc: "take (length input - length r) input = key_bytes key" by simp
  have step: "(if (case prev of None \<Rightarrow> False | Some p \<Rightarrow> p \<ge> key_bytes key) then Inl CNonCanonical
       else case parse d r of Inl e \<Rightarrow> Inl e
         | Inr (v, rest) \<Rightarrow> if bt_get m key \<noteq> None then Inl CDuplicateKey
             else parse_entries n d (Some (key_bytes key)) (bt_insert key v m) rest) = Inr (m', rest)"
    using 5(4) by (simp only: parse_entries.simps key sum.case prod.case canonical_node.case Let_def enc)
  then have prev: "\<not> (case prev of None \<Rightarrow> False | Some p \<Rightarrow> p \<ge> key_bytes key)"
    by (simp split: if_splits)
  with step obtain val r2 where val: "parse d r = Inr (val, r2)"
    by (auto split: sum.splits)
  with step prev have fresh: "bt_get m key = None"
    and more: "parse_entries n d (Some (key_bytes key)) (bt_insert key val m) r2 = Inr (m', rest)"
    by (auto split: if_splits)
  have child: "r = cbor val @ r2" "cbor_fits d val" "node_wf val"
    using 5(2) key enc prev val by auto
  have inv: "bt_invar (bt_insert key val m)" using 5(5) by (rule bt_invar_insert)
  have "\<not> bt_get m key \<noteq> None" using fresh by simp
  from 5(3) [OF key refl refl enc [symmetric] prev val refl this more inv] obtain xs where xs: "r2 = entries_bytes xs @ rest"
    "length xs = n" "m' = insert_all xs (bt_insert key val m)" "entries_ok d xs"
    "\<forall>x \<in> set xs. key_bytes key < key_bytes (fst x)"
    by blast
  have "\<forall>p x. prev = Some p \<longrightarrow> x \<in> set ((key, val) # xs) \<longrightarrow> p < key_bytes (fst x)"
    using prev xs(5) by (auto simp: not_le intro: less_trans)
  with k child xs show ?case
    by (intro exI [of _ "(key, val) # xs"]) (simp add: entries_bytes_def entries_ok_Cons)
qed auto

subsection \<open>Properties of the codec\<close>

lemma to_deterministic_cbor_eq: "to_deterministic_cbor v = limited [] (cbor_fits 1 v) (cbor v)"
  by (simp add: to_deterministic_cbor_def encode_correct)

lemma cbor_test_vector:
  "cbor (CMap [(''aa'', CUnsigned 2), (''b'', CUnsigned 1)]) =
     [CHR 0xA2, CHR 0x61, CHR ''b'', CHR 0x01, CHR 0x62, CHR ''a'', CHR ''a'', CHR 0x02]"
  by code_simp

text \<open>
  (C36) The encoder computes the canonical encoding, as the reference describes it from the bytes alone
  (each head in its narrowest big-endian form, array items in order, map entries a permutation of the
  map's entries with strictly increasing encoded keys). On a value whose map keys are distinct and ordered
  and whose texts are UTF-8, as the Rust types ensure, it returns a byte string exactly when that is a
  canonical encoding of the value, nesting and collections are within bounds, negative payloads are
  negative and the bytes fit the output limit; every refusal is \<open>LimitExceeded\<close>; and no value has two
  canonical encodings.
\<close>

theorem encoder_computes_reference:
  assumes "node_wf v"
  shows "(to_deterministic_cbor v = Inr bytes \<longleftrightarrow>
      canonical_encoding v bytes \<and> cbor_fits 1 v \<and> length bytes \<le> MAX_CANONICAL_OUTPUT_BYTES) \<and>
    (canonical_encoding v bytes \<longrightarrow> (\<forall>other. canonical_encoding v other \<longrightarrow> other = bytes)) \<and>
    (\<forall>e. to_deterministic_cbor v = Inl e \<longrightarrow> e = CLimitExceeded)"
proof -
  have "canonical_encoding v (cbor v)" if "cbor_fits 1 v" "length (cbor v) \<le> MAX_CANONICAL_OUTPUT_BYTES"
    using that assms by (intro canonical_cbor [of 1]) (simp_all add: canonical_limits)
  then show ?thesis
    using canonical_unique [of v] by (auto simp: to_deterministic_cbor_eq limited_def)
qed

theorem encoder_computes_reference_witness:
  "to_deterministic_cbor (CMap [(''aa'', CUnsigned 2), (''b'', CUnsigned 1)]) =
     Inr [CHR 0xA2, CHR 0x61, CHR ''b'', CHR 0x01, CHR 0x62, CHR ''a'', CHR ''a'', CHR 0x02] \<and>
   canonical_encoding (CMap [(''aa'', CUnsigned 2), (''b'', CUnsigned 1)])
     [CHR 0xA2, CHR 0x61, CHR ''b'', CHR 0x01, CHR 0x62, CHR ''a'', CHR ''a'', CHR 0x02]"
proof -
  let ?v = "CMap [(''aa'', CUnsigned 2), (''b'', CUnsigned 1)]"
  have wf: "node_wf ?v" "cbor_fits 1 ?v" by (simp_all add: bt_invar_def canonical_limits utf8_valid.simps byte_def)
  have enc: "to_deterministic_cbor ?v = Inr (cbor ?v)"
    using wf(2) by (simp add: to_deterministic_cbor_eq limited_def cbor_test_vector canonical_limits del: cbor.simps cbor_fits.simps)
  with encoder_computes_reference [OF wf(1), of "cbor ?v"] have "canonical_encoding ?v (cbor ?v)" by blast
  with enc show ?thesis by (simp only: cbor_test_vector)
qed

text \<open>
  (C35) Encoding and strict decoding are inverse: a byte string decodes to a value exactly when that
  value is well formed (valid UTF-8 texts, ordered map keys) and encodes to that byte string. So
  every well-formed value that can be encoded survives the round trip, no byte string other than its
  encoding decodes to it, and two values never share an encoding.
\<close>

theorem cbor_round_trip:
  "from_deterministic_cbor bytes = Inr v \<longleftrightarrow> node_wf v \<and> to_deterministic_cbor v = Inr bytes"
proof
  assume "from_deterministic_cbor bytes = Inr v"
  then have "parse 1 bytes = Inr (v, [])" "to_deterministic_cbor v = Inr bytes"
    by (auto simp: from_deterministic_cbor_def result_simps split: if_splits)
  with parse_sound(1) show "node_wf v \<and> to_deterministic_cbor v = Inr bytes" by blast
next
  assume v: "node_wf v \<and> to_deterministic_cbor v = Inr bytes"
  then have "bytes = cbor v" "cbor_fits 1 v" "length bytes \<le> MAX_CANONICAL_OUTPUT_BYTES"
    by (auto simp: to_deterministic_cbor_eq limited_def split: if_splits)
  with v parse_cbor [of v 1 "[]"] show "from_deterministic_cbor bytes = Inr v"
    by (simp add: from_deterministic_cbor_def canonical_limits)
qed

text \<open>
  The parser alone is already strict: on input within the size limit, whatever it accepts with
  no bytes left over re-encodes to exactly that input, so the decoder's final comparison is a
  redundant safeguard and decoding is parsing.
\<close>

theorem decoder_check_is_redundant:
  assumes "length bytes \<le> MAX_CANONICAL_INPUT_BYTES"
  shows "from_deterministic_cbor bytes = rbind (parse 1 bytes) (\<lambda>(v, rest).
    if rest \<noteq> [] then Inl CNonCanonical else Inr v)"
proof -
  have "to_deterministic_cbor v = Inr bytes" if "parse 1 bytes = Inr (v, [])" for v
    using parse_sound(1) [OF that] assms by (simp add: to_deterministic_cbor_eq limited_def canonical_limits)
  then show ?thesis
    using assms by (auto simp: from_deterministic_cbor_def rbind_def split: sum.splits)
qed

text \<open>The vector of the crate's own test: entries are ordered by encoded key, not by key.\<close>

theorem decoder_check_is_redundant_witness:
  "from_deterministic_cbor [CHR 0x18, CHR 0x2A] = Inr (CUnsigned 42) \<and>
   from_deterministic_cbor [CHR 0x18, CHR 0x02] = Inl CNonCanonical"
  using decoder_check_is_redundant [of "[CHR 0x18, CHR 0x2A]"] decoder_check_is_redundant [of "[CHR 0x18, CHR 0x02]"]
  by (simp add: parse.simps Let_def parse_scalar_def read_argument_def read_byte_def canonical_limits byte_def)

text \<open>How long an encoding can be.\<close>

lemma length_cbor_head: "length (cbor_head major n) \<le> 9"
  by (simp add: cbor_head_def)

lemma length_cbor_map: "length (cbor (CMap kvs)) \<le> 9 + (\<Sum>(k, c)\<leftarrow>kvs. 9 + length k + length (cbor c))"
proof -
  let ?f = "\<lambda>(k :: string, c). length (key_bytes k) + length (cbor c)"
  have "length (entries_bytes kvs) = (\<Sum>x\<leftarrow>kvs. ?f x)" for kvs
    by (simp add: entries_bytes_def length_concat comp_def split_def)
  then have "length (cbor (CMap kvs)) = length (cbor_head 5 (length kvs)) + (\<Sum>x\<leftarrow>key_order kvs. ?f x)"
    by (simp only: cbor_map length_append)
  also have "(\<Sum>x\<leftarrow>key_order kvs. ?f x) = (\<Sum>x\<leftarrow>kvs. ?f x)" by (rule sum_list_mset_eq) simp
  also have "\<dots> \<le> (\<Sum>(k, c)\<leftarrow>kvs. 9 + length k + length (cbor c))"
    by (rule sum_list_mono) (auto simp: key_bytes_def length_cbor_head)
  finally show ?thesis using length_cbor_head [of 5 "length kvs"] by linarith
qed

lemma length_cbor_leaf:
  "length (cbor (CText s)) \<le> 9 + length s" "length (cbor (CBytes s)) \<le> 9 + length s"
  "length (cbor (CUnsigned n)) \<le> 9" "length (cbor (CNegative i)) \<le> 9"
  by (simp_all add: length_cbor_head)

end
