(* ===== verification/Canon_Envelope.thy ===== *)
theory Canon_Envelope
  imports Canon_Cbor
begin

text \<open>
  Semantic envelopes, signing bytes and domain-separated digests of \<open>cigar-canon/src/lib.rs\<close>. A
  record reaches these functions through the serializer and the strict JSON parser, which rest on
  third-party crates: its parsed form (or their error) is an argument. SHA-256 is an argument too.
\<close>

datatype digest_domain =
  DAtom | DBundle | DManifest | DHandoff | DEffect | DReceipt | DExtensionManifest

datatype semantic_envelope_profile =
  PAtom | PBundle | PManifest | PHandoff | PEffect | PReceipt | PExtensionManifest

fun profile_discriminant :: "semantic_envelope_profile \<Rightarrow> u64" where
  "profile_discriminant PAtom = 1"
| "profile_discriminant PBundle = 2"
| "profile_discriminant PManifest = 3"
| "profile_discriminant PHandoff = 4"
| "profile_discriminant PEffect = 5"
| "profile_discriminant PReceipt = 6"
| "profile_discriminant PExtensionManifest = 7"

fun profile_domain :: "semantic_envelope_profile \<Rightarrow> digest_domain" where
  "profile_domain PAtom = DAtom"
| "profile_domain PBundle = DBundle"
| "profile_domain PManifest = DManifest"
| "profile_domain PHandoff = DHandoff"
| "profile_domain PEffect = DEffect"
| "profile_domain PReceipt = DReceipt"
| "profile_domain PExtensionManifest = DExtensionManifest"

fun excluded_fields :: "semantic_envelope_profile \<Rightarrow> string list" where
  "excluded_fields PAtom = [''atom_id'', ''version_id'']"
| "excluded_fields PBundle = [''bundle_id'']"
| "excluded_fields PManifest = [''manifest_id'']"
| "excluded_fields PHandoff = [''signature'']"
| "excluded_fields PEffect = []"
| "excluded_fields PReceipt = [''receipt_id'']"
| "excluded_fields PExtensionManifest = [''signature'']"

definition separator :: "digest_domain \<Rightarrow> string" where
  "separator domain = (case domain of
     DAtom \<Rightarrow> ''CIGAR-ATOM'' | DBundle \<Rightarrow> ''CIGAR-BUNDLE'' | DManifest \<Rightarrow> ''CIGAR-MANIFEST''
   | DHandoff \<Rightarrow> ''CIGAR-HANDOFF'' | DEffect \<Rightarrow> ''CIGAR-EFFECT'' | DReceipt \<Rightarrow> ''CIGAR-RECEIPT''
   | DExtensionManifest \<Rightarrow> ''CIGAR-EXTENSION-MANIFEST'')"

definition remove_fields :: "string list \<Rightarrow> (string, canonical_node) btree \<Rightarrow> (string, canonical_node) btree" where
  "remove_fields names fields = fold bt_remove names fields"

definition semantic_envelope_v1 ::
    "semantic_envelope_profile \<Rightarrow> (canonical_error, canonical_node) result \<Rightarrow> (canonical_error, canonical_node) result" where
  "semantic_envelope_v1 profile parsed =
     rbind parsed (\<lambda>node. case node of
       CMap fields \<Rightarrow> Inr (CArray [CUnsigned (profile_discriminant profile),
                                  CMap (remove_fields (excluded_fields profile) fields)])
     | _ \<Rightarrow> Inl CInvalidInput)"

definition digest_preimage :: "digest_domain \<Rightarrow> string \<Rightarrow> string" where
  "digest_preimage domain payload = separator domain @ [CHR 0x00] @ ''v1'' @ [CHR 0x00] @ payload"

definition digest_v1 :: "(string \<Rightarrow> string) \<Rightarrow> digest_domain \<Rightarrow> string \<Rightarrow> string" where
  "digest_v1 sha256 domain payload = sha256 (digest_preimage domain payload)"

definition multihash_v1 :: "(string \<Rightarrow> string) \<Rightarrow> digest_domain \<Rightarrow> string \<Rightarrow> string" where
  "multihash_v1 sha256 domain payload = ''1220'' @ hex (digest_v1 sha256 domain payload)"

definition semantic_multihash_v1 ::
    "(string \<Rightarrow> string) \<Rightarrow> semantic_envelope_profile \<Rightarrow> (canonical_error, canonical_node) result \<Rightarrow> canon_result" where
  "semantic_multihash_v1 sha256 profile parsed =
     rbind (semantic_envelope_v1 profile parsed) (\<lambda>envelope.
     rbind (to_deterministic_cbor envelope) (\<lambda>bytes.
       Inr (multihash_v1 sha256 (profile_domain profile) bytes)))"

definition semantic_signing_bytes_v1 ::
    "semantic_envelope_profile \<Rightarrow> (canonical_error, canonical_node) result \<Rightarrow> canon_result" where
  "semantic_signing_bytes_v1 profile parsed =
     rbind (semantic_envelope_v1 profile parsed) (\<lambda>envelope.
     rbind (to_deterministic_cbor envelope) (\<lambda>canonical.
       let name = separator (profile_domain profile)
       in if length name + length canonical + 5 > MAX_CANONICAL_OUTPUT_BYTES then Inl CLimitExceeded
          else Inr (name @ [CHR 0x00] @ ''v1'' @ [CHR 0x00] @ canonical)))"

subsection \<open>Injectivity\<close>

lemma cbor_inject:
  assumes "to_deterministic_cbor v = Inr bytes" and "to_deterministic_cbor w = Inr bytes" and "node_wf v" and "node_wf w"
  shows "v = w"
proof -
  have ok: "bytes = cbor v" "cbor_fits 1 v" "bytes = cbor w" "cbor_fits 1 w" "length bytes \<le> MAX_CANONICAL_OUTPUT_BYTES"
    using assms(1,2) by (auto simp: to_deterministic_cbor_eq limited_def split: if_splits)
  then show ?thesis
    using parse_cbor [OF assms(3), of 1 "[]"] parse_cbor [OF assms(4), of 1 "[]"] by simp
qed

lemma split_at_NUL:
  assumes "a @ CHR 0x00 # r = b @ CHR 0x00 # r'" and "CHR 0x00 \<notin> set a" and "CHR 0x00 \<notin> set b"
  shows "a = b \<and> r = r'"
  using assms
proof (induction a arbitrary: b)
  case Nil
  then show ?case by (cases b) auto
next
  case (Cons x a)
  then show ?case by (cases b) auto
qed

lemma separator_plain: "CHR 0x00 \<notin> set (separator d)"
  by (cases d) (simp_all add: separator_def)

lemma separator_inject: "separator d = separator d' \<Longrightarrow> d = d'"
  by (cases d; cases d') (simp_all add: separator_def)

lemma digest_preimage_inject:
  "digest_preimage d p = digest_preimage d' p' \<longleftrightarrow> d = d' \<and> p = p'"
  using split_at_NUL [of "separator d" "''v1'' @ [CHR 0x00] @ p" "separator d'" "''v1'' @ [CHR 0x00] @ p'"]
  by (auto simp: digest_preimage_def separator_plain dest: separator_inject)

lemma profile_domain_inject: "profile_domain p = profile_domain q \<longleftrightarrow> p = q"
  by (cases p; cases q) simp_all

lemma bt_invar_remove_fields: "bt_invar m \<Longrightarrow> bt_invar (remove_fields ns m)"
  unfolding remove_fields_def by (induction ns arbitrary: m) (simp_all add: bt_invar_remove)

lemma bt_get_remove_fields: "bt_get (remove_fields ns m) = (bt_get m) |` (- set ns)"
  unfolding remove_fields_def
  by (induction ns arbitrary: m) (auto simp: bt_get_remove restrict_map_def fun_eq_iff)

lemma set_remove_fields: "set (remove_fields ns m) \<subseteq> set m"
  unfolding remove_fields_def
proof (induction ns arbitrary: m)
  case (Cons n ns)
  have "set (bt_remove n m) \<subseteq> set m" by (auto simp: bt_remove_def)
  with Cons [of "bt_remove n m"] show ?case by simp
qed simp

lemma envelope_wf:
  assumes "node_wf (CMap fields)"
  shows "node_wf (CArray [CUnsigned n, CMap (remove_fields ns fields)])"
  using assms set_remove_fields [of ns fields] by (auto simp: bt_invar_remove_fields list_all_iff)

text \<open>
  (C37) A signature covers everything it should: two records have the same signing bytes only under
  the same envelope profile and with the same value in every field except the ones the profile
  documents as excluded. In particular no record of one kind can be presented as another kind.
\<close>

theorem signing_bytes_bind_record:
  assumes "node_wf (CMap fields)" and "node_wf (CMap fields')"
    and "semantic_signing_bytes_v1 profile (Inr (CMap fields)) = Inr message"
    and "semantic_signing_bytes_v1 profile' (Inr (CMap fields')) = Inr message"
  shows "profile = profile' \<and>
    (\<forall>name. name \<notin> set (excluded_fields profile) \<longrightarrow> bt_get fields name = bt_get fields' name)"
proof -
  let ?e = "\<lambda>p f. CArray [CUnsigned (profile_discriminant p), CMap (remove_fields (excluded_fields p) f)]"
  obtain c c' where c: "to_deterministic_cbor (?e profile fields) = Inr c" "to_deterministic_cbor (?e profile' fields') = Inr c'"
    and eq: "digest_preimage (profile_domain profile) c = digest_preimage (profile_domain profile') c'"
    using assms(3,4)
    by (auto simp: semantic_signing_bytes_v1_def semantic_envelope_v1_def digest_preimage_def result_simps Let_def
        split: if_splits)
  from eq have p: "profile = profile'" "c = c'" by (simp_all add: digest_preimage_inject profile_domain_inject)
  with cbor_inject [OF c(1)] c(2) assms(1,2)
  have "remove_fields (excluded_fields profile) fields = remove_fields (excluded_fields profile) fields'"
    using envelope_wf [of fields] envelope_wf [of fields'] by (simp del: node_wf.simps) blast
  then have "(bt_get fields) |` (- set (excluded_fields profile)) = (bt_get fields') |` (- set (excluded_fields profile))"
    by (metis bt_get_remove_fields)
  then have "bt_get fields name = bt_get fields' name" if "name \<notin> set (excluded_fields profile)" for name
    using that by (metis ComplI restrict_in)
  with p show ?thesis by blast
qed

definition example_record :: "(string, canonical_node) btree" where
  "example_record = [(''signature'', CText ''s''), (''task'', CText ''t'')]"

theorem signing_bytes_bind_record_witness:
  "\<exists>message. semantic_signing_bytes_v1 PHandoff (Inr (CMap example_record)) = Inr message \<and>
     semantic_signing_bytes_v1 PHandoff (Inr (CMap [(''task'', CText ''t'')])) = Inr message \<and>
     bt_get example_record ''task'' = bt_get [(''task'', CText ''t'')] ''task''"
proof -
  have wf: "node_wf (CMap example_record)" "node_wf (CMap [(''task'', CText ''t'')])" by code_simp+
  have fields: "remove_fields [''signature''] example_record = [(''task'', CText ''t'')]"
    "remove_fields [''signature''] [(''task'', CText ''t'')] = [(''task'', CText ''t'')]"
    by (simp_all add: remove_fields_def example_record_def bt_remove_def)
  have "cbor (CArray [CUnsigned 4, CMap [(''task'', CText ''t'')]]) =
      [CHR 0x82, CHR 0x04, CHR 0xA1, CHR 0x64] @ ''task'' @ [CHR 0x61] @ ''t''" by code_simp
  then have "to_deterministic_cbor (CArray [CUnsigned 4, CMap [(''task'', CText ''t'')]]) =
      Inr ([CHR 0x82, CHR 0x04, CHR 0xA1, CHR 0x64] @ ''task'' @ [CHR 0x61] @ ''t'')"
    unfolding to_deterministic_cbor_eq limited_def by (simp add: canonical_limits del: cbor.simps)
  then have "\<exists>message. semantic_signing_bytes_v1 PHandoff (Inr (CMap example_record)) = Inr message \<and>
      semantic_signing_bytes_v1 PHandoff (Inr (CMap [(''task'', CText ''t'')])) = Inr message"
    by (simp add: semantic_signing_bytes_v1_def semantic_envelope_v1_def fields separator_def canonical_limits)
  then obtain message where m: "semantic_signing_bytes_v1 PHandoff (Inr (CMap example_record)) = Inr message"
    "semantic_signing_bytes_v1 PHandoff (Inr (CMap [(''task'', CText ''t'')])) = Inr message" by blast
  with signing_bytes_bind_record [OF wf m] show ?thesis by (intro exI [of _ message]) (simp del: node_wf.simps)
qed

end
