(* ===== verification/Key_Provider.thy ===== *)
theory Key_Provider
  imports Canon_Envelope
begin

text \<open>
  The scoped key provider of \<open>cigar-crypto/src/provider.rs\<close>, with the wrappers of
  \<open>cigar-crypto/src/lib.rs\<close> it calls: key creation, rotation, destruction, signing, verification and
  data-key wrapping over the in-memory key ring. Ed25519 and XChaCha20-Poly1305 are third-party
  crates: they are the fields of \<open>crypto_primitives\<close>, with the documented behaviour the proofs need as
  the predicates \<open>ed25519_ok\<close> and \<open>xchacha_ok\<close>. Bytes drawn from the operating system are arguments.
  Lock poisoning is not modelled.
\<close>

datatype crypto_error =
  InvalidKey | InvalidNonce | AuthenticationFailed | SignatureInvalid | RandomUnavailable | UnknownKey
  | ScopeDenied | KeyInactive | InvalidMetadata | SignatureExpired | ProviderUnavailable | IdExhausted

datatype key_purpose = Signing | BlobEncryption

datatype key_algorithm = Ed25519 | XChaCha20Poly1305

datatype key_status = KeyActive | KeyRetired | KeyDestroyed

record key_metadata =
  km_key_ref :: string
  km_purpose :: key_purpose
  km_algorithm :: key_algorithm
  km_tenant :: string
  km_created_at :: int
  km_activated_at :: int
  km_deactivated_at :: "int option"
  km_status :: key_status
  km_public_identity :: "string option"

record create_key_request =
  ck_tenant :: string
  ck_purpose :: key_purpose
  ck_algorithm :: key_algorithm
  ck_created_at :: int
  ck_activated_at :: int

record signature_envelope =
  se_algorithm :: key_algorithm
  se_key_ref :: string
  se_signer :: string
  se_purpose :: string
  se_signed_at :: int
  se_expires_at :: "int option"
  se_payload_digest :: string
  se_signature :: string

record signature_verification =
  sv_tenant :: string
  sv_signer :: string
  sv_purpose :: string
  sv_payload_digest :: string
  sv_now :: int

record signature_request =
  sr_key_ref :: string
  sr_tenant :: string
  sr_signer :: string
  sr_purpose :: string
  sr_payload_digest :: string
  sr_signed_at :: int
  sr_expires_at :: "int option"

record encrypted_envelope =
  ee_nonce :: string
  ee_ciphertext :: string

record stored_key =
  sk_metadata :: key_metadata
  sk_material :: "string option"

type_synonym key_ring = "(string, stored_key) btree"

subsection \<open>Primitives\<close>

record crypto_primitives =
  ed_public :: "string \<Rightarrow> string"
  ed_sign :: "string \<Rightarrow> string \<Rightarrow> string"
  ed_verify :: "string \<Rightarrow> string \<Rightarrow> string \<Rightarrow> bool"
  xc_encrypt :: "string \<Rightarrow> string \<Rightarrow> string \<Rightarrow> string \<Rightarrow> string option"
  xc_decrypt :: "string \<Rightarrow> string \<Rightarrow> string \<Rightarrow> string \<Rightarrow> string option"

definition ed25519_ok :: "crypto_primitives \<Rightarrow> bool" where
  "ed25519_ok C \<longleftrightarrow> (\<forall>secret message. ed_verify C (ed_public C secret) message (ed_sign C secret message))"

definition xchacha_ok :: "crypto_primitives \<Rightarrow> bool" where
  "xchacha_ok C \<longleftrightarrow> (\<forall>key nonce data message ciphertext.
     xc_encrypt C key nonce data message = Some ciphertext \<longrightarrow> xc_decrypt C key nonce data ciphertext = Some message)"

definition ed25519_public_key :: "crypto_primitives \<Rightarrow> string \<Rightarrow> (crypto_error, string) result" where
  "ed25519_public_key C secret = (if length secret = 32 then Inr (ed_public C secret) else Inl InvalidKey)"

definition sign_ed25519 :: "crypto_primitives \<Rightarrow> string \<Rightarrow> string \<Rightarrow> (crypto_error, string) result" where
  "sign_ed25519 C secret message =
     (if length secret = 32 then Inr (ed_sign C secret message) else Inl InvalidKey)"

definition verify_ed25519 ::
    "crypto_primitives \<Rightarrow> string \<Rightarrow> string \<Rightarrow> string \<Rightarrow> (crypto_error, unit) result" where
  "verify_ed25519 C public_key message signature =
     (if ed_verify C public_key message signature then Inr () else Inl SignatureInvalid)"

definition encrypt_xchacha20 ::
    "crypto_primitives \<Rightarrow> string option \<Rightarrow> string \<Rightarrow> string \<Rightarrow> string \<Rightarrow> (crypto_error, encrypted_envelope) result" where
  "encrypt_xchacha20 C drawn key plaintext associated_data =
     rbind (ok_or drawn RandomUnavailable) (\<lambda>nonce.
       if length key \<noteq> 32 then Inl InvalidKey
       else rbind (ok_or (xc_encrypt C key nonce associated_data plaintext) AuthenticationFailed) (\<lambda>ciphertext.
         Inr \<lparr>ee_nonce = nonce, ee_ciphertext = ciphertext\<rparr>))"

definition decrypt_xchacha20 ::
    "crypto_primitives \<Rightarrow> string \<Rightarrow> encrypted_envelope \<Rightarrow> string \<Rightarrow> (crypto_error, string) result" where
  "decrypt_xchacha20 C key envelope associated_data =
     (if length key \<noteq> 32 then Inl InvalidKey
      else ok_or (xc_decrypt C key (ee_nonce envelope) associated_data (ee_ciphertext envelope)) AuthenticationFailed)"

subsection \<open>Validation and lookup\<close>

definition MAX_KEY_REF_BYTES :: nat where "MAX_KEY_REF_BYTES = 128"
definition MAX_SCOPE_BYTES :: nat where "MAX_SCOPE_BYTES = 256"
definition KEY_REFERENCE_ATTEMPTS :: nat where "KEY_REFERENCE_ATTEMPTS = 16"

definition key_ref_new :: "string \<Rightarrow> (crypto_error, string) result" where
  "key_ref_new value =
     (if value \<noteq> [] \<and> length value \<le> MAX_KEY_REF_BYTES \<and>
         list_all (\<lambda>c. is_ascii_digit c \<or> 65 \<le> byte c \<and> byte c \<le> 90 \<or> 97 \<le> byte c \<and> byte c \<le> 122
           \<or> c \<in> {CHR ''-'', CHR ''_'', CHR ''.''}) value
      then Inr value else Inl InvalidMetadata)"

definition validate_scope :: "string \<Rightarrow> (crypto_error, unit) result" where
  "validate_scope value =
     ensure (value \<noteq> [] \<and> length value \<le> MAX_SCOPE_BYTES \<and> \<not> list_ex is_ascii_control value) InvalidMetadata"

definition validate_create_request :: "create_key_request \<Rightarrow> (crypto_error, unit) result" where
  "validate_create_request request =
     rbind (validate_scope (ck_tenant request)) (\<lambda>_.
       ensure (ck_activated_at request \<ge> ck_created_at request \<and>
         (ck_purpose request = Signing \<and> ck_algorithm request = Ed25519 \<or>
          ck_purpose request = BlobEncryption \<and> ck_algorithm request = XChaCha20Poly1305)) InvalidMetadata)"

definition generate_material ::
    "crypto_primitives \<Rightarrow> string option \<Rightarrow> key_algorithm \<Rightarrow> (crypto_error, string \<times> string option) result" where
  "generate_material C drawn algorithm =
     rbind (ok_or drawn RandomUnavailable) (\<lambda>secret.
       case algorithm of
         Ed25519 \<Rightarrow> rbind (ed25519_public_key C secret) (\<lambda>public. Inr (secret, Some public))
       | XChaCha20Poly1305 \<Rightarrow> Inr (secret, None))"

text \<open>Sixteen attempts; \<open>draws i\<close> is the \<open>i\<close>-th result of the random source.\<close>

fun unique_key_ref_from :: "key_ring \<Rightarrow> (nat \<Rightarrow> string option) \<Rightarrow> nat \<Rightarrow> nat \<Rightarrow> (crypto_error, string) result" where
  "unique_key_ref_from keys draws i 0 = Inl ProviderUnavailable"
| "unique_key_ref_from keys draws i (Suc attempts) =
     rbind (ok_or (draws i) RandomUnavailable) (\<lambda>bytes.
     rbind (key_ref_new (''key-'' @ hex bytes)) (\<lambda>key_ref.
       if bt_get keys key_ref = None then Inr key_ref
       else unique_key_ref_from keys draws (i + 1) attempts))"

definition unique_key_ref :: "key_ring \<Rightarrow> (nat \<Rightarrow> string option) \<Rightarrow> (crypto_error, string) result" where
  "unique_key_ref keys draws = unique_key_ref_from keys draws 0 KEY_REFERENCE_ATTEMPTS"

definition scoped_key :: "key_ring \<Rightarrow> string \<Rightarrow> string \<Rightarrow> (crypto_error, stored_key) result" where
  "scoped_key keys key_ref tenant =
     rbind (ok_or (bt_get keys key_ref) UnknownKey) (\<lambda>stored.
       if km_tenant (sk_metadata stored) \<noteq> tenant then Inl ScopeDenied else Inr stored)"

definition require_usable :: "stored_key \<Rightarrow> key_purpose \<Rightarrow> int \<Rightarrow> (crypto_error, unit) result" where
  "require_usable stored purpose at =
     (if km_purpose (sk_metadata stored) \<noteq> purpose then Inl ScopeDenied
      else if km_status (sk_metadata stored) \<noteq> KeyActive \<or> at < km_activated_at (sk_metadata stored)
              \<or> (case km_deactivated_at (sk_metadata stored) of None \<Rightarrow> False | Some t \<Rightarrow> at \<ge> t)
              \<or> sk_material stored = None
      then Inl KeyInactive
      else Inr ())"

definition require_decryptable :: "stored_key \<Rightarrow> key_purpose \<Rightarrow> int \<Rightarrow> (crypto_error, unit) result" where
  "require_decryptable stored purpose at =
     (if km_purpose (sk_metadata stored) \<noteq> purpose then Inl ScopeDenied
      else if km_status (sk_metadata stored) \<notin> {KeyActive, KeyRetired} \<or> at < km_activated_at (sk_metadata stored)
              \<or> sk_material stored = None
      then Inl KeyInactive
      else Inr ())"

subsection \<open>The signed bytes\<close>

definition canonical_integer :: "int \<Rightarrow> (crypto_error, canonical_node) result" where
  "canonical_integer value =
     (if value < 0
      then if value \<ge> - (2 ^ 63) then Inr (CNegative (word_of_int value)) else Inl InvalidMetadata
      else if value < 2 ^ 64 then Inr (CUnsigned (word_of_int value)) else Inl InvalidMetadata)"

definition signature_fields ::
    "signature_envelope \<Rightarrow> canonical_node \<Rightarrow> (string, canonical_node) btree" where
  "signature_fields envelope signed_at =
     bt_insert ''signer'' (CText (se_signer envelope))
    (bt_insert ''signed_at'' signed_at
    (bt_insert ''purpose'' (CText (se_purpose envelope))
    (bt_insert ''payload_digest'' (CBytes (se_payload_digest envelope))
    (bt_insert ''key_ref'' (CText (se_key_ref envelope))
    (bt_insert ''algorithm'' (CText ''ed25519'') [])))))"

definition signature_domain :: string where
  "signature_domain = ''CIGAR-SIGNATURE'' @ [CHR 0x00] @ ''v1'' @ [CHR 0x00]"

definition signature_input :: "signature_envelope \<Rightarrow> (crypto_error, string) result" where
  "signature_input envelope =
     rbind (canonical_integer (se_signed_at envelope)) (\<lambda>signed_at.
     rbind (case se_expires_at envelope of
              None \<Rightarrow> Inr (signature_fields envelope signed_at)
            | Some expires_at \<Rightarrow>
                rbind (canonical_integer expires_at) (\<lambda>node.
                  Inr (bt_insert ''expires_at'' node (signature_fields envelope signed_at)))) (\<lambda>values.
     rbind (map_err (\<lambda>_. InvalidMetadata) (to_deterministic_cbor (CMap values))) (\<lambda>canonical.
       Inr (signature_domain @ canonical))))"

subsection \<open>The provider\<close>

definition key_create ::
    "crypto_primitives \<Rightarrow> string option \<Rightarrow> (nat \<Rightarrow> string option) \<Rightarrow> create_key_request \<Rightarrow> key_ring
      \<Rightarrow> key_ring \<times> (crypto_error, key_metadata) result" where
  "key_create C drawn draws request keys =
     (case rbind (validate_create_request request) (\<lambda>_.
           rbind (generate_material C drawn (ck_algorithm request)) (\<lambda>(material, public_identity).
           rbind (unique_key_ref keys draws) (\<lambda>key_ref.
             Inr \<lparr>sk_metadata = \<lparr>km_key_ref = key_ref, km_purpose = ck_purpose request,
                    km_algorithm = ck_algorithm request, km_tenant = ck_tenant request,
                    km_created_at = ck_created_at request, km_activated_at = ck_activated_at request,
                    km_deactivated_at = None, km_status = KeyActive, km_public_identity = public_identity\<rparr>,
                  sk_material = Some material\<rparr>))) of
        Inl e \<Rightarrow> (keys, Inl e)
      | Inr stored \<Rightarrow>
          (bt_insert (km_key_ref (sk_metadata stored)) stored keys, Inr (sk_metadata stored)))"

definition key_resolve :: "key_ring \<Rightarrow> string \<Rightarrow> string \<Rightarrow> key_purpose \<Rightarrow> int \<Rightarrow> (crypto_error, key_metadata) result" where
  "key_resolve keys key_ref tenant purpose at =
     rbind (scoped_key keys key_ref tenant) (\<lambda>stored.
     rbind (require_usable stored purpose at) (\<lambda>_. Inr (sk_metadata stored)))"

definition retire :: "int \<Rightarrow> stored_key \<Rightarrow> stored_key" where
  "retire at stored = stored\<lparr>sk_metadata := (sk_metadata stored)
     \<lparr>km_status := KeyRetired, km_deactivated_at := Some at\<rparr>\<rparr>"

definition key_rotate ::
    "crypto_primitives \<Rightarrow> string option \<Rightarrow> (nat \<Rightarrow> string option) \<Rightarrow> string \<Rightarrow> string \<Rightarrow> int \<Rightarrow> key_ring
      \<Rightarrow> key_ring \<times> (crypto_error, key_metadata) result" where
  "key_rotate C drawn draws key_ref tenant activated_at keys =
     (case rbind (scoped_key keys key_ref tenant) (\<lambda>current.
           rbind (require_usable current (km_purpose (sk_metadata current)) activated_at) (\<lambda>_.
             if activated_at < km_created_at (sk_metadata current) then Inl InvalidMetadata
             else rbind (generate_material C drawn (km_algorithm (sk_metadata current))) (\<lambda>(material, public_identity).
                  rbind (unique_key_ref keys draws) (\<lambda>successor_ref.
                    Inr \<lparr>sk_metadata = \<lparr>km_key_ref = successor_ref, km_purpose = km_purpose (sk_metadata current),
                           km_algorithm = km_algorithm (sk_metadata current), km_tenant = km_tenant (sk_metadata current),
                           km_created_at = activated_at, km_activated_at = activated_at, km_deactivated_at = None,
                           km_status = KeyActive, km_public_identity = public_identity\<rparr>,
                         sk_material = Some material\<rparr>)))) of
        Inl e \<Rightarrow> (keys, Inl e)
      | Inr successor \<Rightarrow>
          (bt_insert (km_key_ref (sk_metadata successor)) successor (bt_update key_ref (retire activated_at) keys),
           Inr (sk_metadata successor)))"

definition key_sign ::
    "crypto_primitives \<Rightarrow> key_ring \<Rightarrow> signature_request \<Rightarrow> (crypto_error, signature_envelope) result" where
  "key_sign C keys request =
     rbind (validate_scope (sr_signer request)) (\<lambda>_.
     rbind (validate_scope (sr_purpose request)) (\<lambda>_.
       if (case sr_expires_at request of None \<Rightarrow> False | Some expiry \<Rightarrow> expiry \<le> sr_signed_at request)
       then Inl InvalidMetadata
       else rbind (scoped_key keys (sr_key_ref request) (sr_tenant request)) (\<lambda>stored.
            rbind (require_usable stored Signing (sr_signed_at request)) (\<lambda>_.
            let envelope = \<lparr>se_algorithm = Ed25519, se_key_ref = sr_key_ref request, se_signer = sr_signer request,
                  se_purpose = sr_purpose request, se_signed_at = sr_signed_at request,
                  se_expires_at = sr_expires_at request, se_payload_digest = sr_payload_digest request,
                  se_signature = replicate 64 (CHR 0x00)\<rparr>
            in rbind (signature_input envelope) (\<lambda>input.
               rbind (ok_or (sk_material stored) KeyInactive) (\<lambda>material.
               rbind (sign_ed25519 C material input) (\<lambda>signature.
                 Inr (envelope\<lparr>se_signature := signature\<rparr>))))))))"

definition key_verify ::
    "crypto_primitives \<Rightarrow> key_ring \<Rightarrow> signature_envelope \<Rightarrow> signature_verification \<Rightarrow> (crypto_error, unit) result" where
  "key_verify C keys envelope expectation =
     (if se_algorithm envelope \<noteq> Ed25519 \<or> se_signer envelope \<noteq> sv_signer expectation
         \<or> se_purpose envelope \<noteq> sv_purpose expectation \<or> se_payload_digest envelope \<noteq> sv_payload_digest expectation
      then Inl ScopeDenied
      else if se_signed_at envelope > sv_now expectation
              \<or> (case se_expires_at envelope of None \<Rightarrow> False | Some expiry \<Rightarrow> sv_now expectation \<ge> expiry)
      then Inl SignatureExpired
      else rbind (scoped_key keys (se_key_ref envelope) (sv_tenant expectation)) (\<lambda>stored.
        if km_purpose (sk_metadata stored) \<noteq> Signing \<or> km_algorithm (sk_metadata stored) \<noteq> Ed25519
           \<or> se_signed_at envelope < km_activated_at (sk_metadata stored)
           \<or> (case km_deactivated_at (sk_metadata stored) of None \<Rightarrow> False | Some t \<Rightarrow> se_signed_at envelope \<ge> t)
        then Inl KeyInactive
        else rbind (ok_or (km_public_identity (sk_metadata stored)) InvalidMetadata) (\<lambda>public_key.
             rbind (signature_input envelope) (\<lambda>input.
               verify_ed25519 C public_key input (se_signature envelope)))))"

definition key_wrap ::
    "crypto_primitives \<Rightarrow> string option \<Rightarrow> key_ring \<Rightarrow> string \<Rightarrow> string \<Rightarrow> string \<Rightarrow> string \<Rightarrow> int
      \<Rightarrow> (crypto_error, encrypted_envelope) result" where
  "key_wrap C drawn keys key_ref tenant data_key associated_data at =
     rbind (scoped_key keys key_ref tenant) (\<lambda>stored.
     rbind (require_usable stored BlobEncryption at) (\<lambda>_.
     rbind (ok_or (sk_material stored) KeyInactive) (\<lambda>material.
       encrypt_xchacha20 C drawn material data_key associated_data)))"

definition key_unwrap ::
    "crypto_primitives \<Rightarrow> key_ring \<Rightarrow> string \<Rightarrow> string \<Rightarrow> encrypted_envelope \<Rightarrow> string \<Rightarrow> int
      \<Rightarrow> (crypto_error, string) result" where
  "key_unwrap C keys key_ref tenant envelope associated_data at =
     rbind (scoped_key keys key_ref tenant) (\<lambda>stored.
     rbind (require_decryptable stored BlobEncryption at) (\<lambda>_.
     rbind (ok_or (sk_material stored) KeyInactive) (\<lambda>material.
       decrypt_xchacha20 C material envelope associated_data)))"

definition destroyed :: "int \<Rightarrow> stored_key \<Rightarrow> stored_key" where
  "destroyed at stored = stored\<lparr>sk_material := None, sk_metadata := (sk_metadata stored)
     \<lparr>km_status := KeyDestroyed, km_deactivated_at := Some at\<rparr>\<rparr>"

definition key_destroy ::
    "string \<Rightarrow> string \<Rightarrow> int \<Rightarrow> key_ring \<Rightarrow> key_ring \<times> (crypto_error, key_metadata) result" where
  "key_destroy key_ref tenant destroyed_at keys =
     (case rbind (scoped_key keys key_ref tenant) (\<lambda>stored.
           if km_status (sk_metadata stored) = KeyDestroyed \<or> destroyed_at < km_created_at (sk_metadata stored)
           then Inl InvalidMetadata else Inr stored) of
        Inl e \<Rightarrow> (keys, Inl e)
      | Inr stored \<Rightarrow>
          (bt_update key_ref (destroyed destroyed_at) keys, Inr (sk_metadata (destroyed destroyed_at stored))))"

subsection \<open>Runs of the provider\<close>

datatype key_op =
  KCreate "string option" "nat \<Rightarrow> string option" create_key_request
| KRotate "string option" "nat \<Rightarrow> string option" string string int
| KDestroy string string int

fun key_exec :: "crypto_primitives \<Rightarrow> key_op \<Rightarrow> key_ring \<Rightarrow> key_ring \<times> (crypto_error, key_metadata) result" where
  "key_exec C (KCreate drawn draws request) keys = key_create C drawn draws request keys"
| "key_exec C (KRotate drawn draws key_ref tenant at) keys = key_rotate C drawn draws key_ref tenant at keys"
| "key_exec C (KDestroy key_ref tenant at) keys = key_destroy key_ref tenant at keys"

fun op_tenant :: "key_op \<Rightarrow> string" where
  "op_tenant (KCreate drawn draws request) = ck_tenant request"
| "op_tenant (KRotate drawn draws key_ref tenant at) = tenant"
| "op_tenant (KDestroy key_ref tenant at) = tenant"

text \<open>Secret material is drawn into a 32-byte array.\<close>

fun op_ok :: "key_op \<Rightarrow> bool" where
  "op_ok (KCreate drawn draws request) \<longleftrightarrow> pred_option (\<lambda>bs. length bs = 32) drawn"
| "op_ok (KRotate drawn draws key_ref tenant at) \<longleftrightarrow> pred_option (\<lambda>bs. length bs = 32) drawn"
| "op_ok (KDestroy key_ref tenant at) \<longleftrightarrow> True"

definition key_step :: "crypto_primitives \<Rightarrow> key_ring \<Rightarrow> key_ring \<Rightarrow> bool" where
  "key_step C keys keys' \<longleftrightarrow> (\<exists>op. op_ok op \<and> keys' = fst (key_exec C op keys))"

definition purpose_ok :: "key_purpose \<Rightarrow> key_algorithm \<Rightarrow> bool" where
  "purpose_ok p a \<longleftrightarrow> p = Signing \<and> a = Ed25519 \<or> p = BlobEncryption \<and> a = XChaCha20Poly1305"

definition key_ok :: "crypto_primitives \<Rightarrow> string \<Rightarrow> stored_key \<Rightarrow> bool" where
  "key_ok C r s \<longleftrightarrow> km_key_ref (sk_metadata s) = r \<and>
     purpose_ok (km_purpose (sk_metadata s)) (km_algorithm (sk_metadata s)) \<and>
     km_created_at (sk_metadata s) \<le> km_activated_at (sk_metadata s) \<and>
     (km_status (sk_metadata s) = KeyActive \<longleftrightarrow> km_deactivated_at (sk_metadata s) = None) \<and>
     (km_status (sk_metadata s) = KeyDestroyed \<longleftrightarrow> sk_material s = None) \<and>
     (\<forall>m. sk_material s = Some m \<longrightarrow> length m = 32) \<and>
     (km_purpose (sk_metadata s) = Signing \<longrightarrow> (\<exists>secret. length secret = 32 \<and>
        km_public_identity (sk_metadata s) = Some (ed_public C secret) \<and> sk_material s \<in> {Some secret, None}))"

definition ring_inv :: "crypto_primitives \<Rightarrow> key_ring \<Rightarrow> bool" where
  "ring_inv C keys \<longleftrightarrow> bt_invar keys \<and> (\<forall>r s. bt_get keys r = Some s \<longrightarrow> key_ok C r s)"

lemma scoped_key_InrD: "scoped_key keys r t = Inr s \<Longrightarrow> bt_get keys r = Some s \<and> km_tenant (sk_metadata s) = t"
  by (auto simp: scoped_key_def result_simps split: if_splits)

lemma scoped_key_Some: "bt_get keys r = Some s \<Longrightarrow> scoped_key keys r (km_tenant (sk_metadata s)) = Inr s"
  by (simp add: scoped_key_def)

lemma unique_key_ref_fresh: "unique_key_ref keys draws = Inr r \<Longrightarrow> bt_get keys r = None"
proof -
  have "bt_get keys r = None" if "unique_key_ref_from keys draws i n = Inr r" for i n
    using that by (induction n arbitrary: i) (auto simp: result_simps split: if_splits)
  then show "unique_key_ref keys draws = Inr r \<Longrightarrow> bt_get keys r = None" by (simp add: unique_key_ref_def)
qed

lemma generate_material_InrD:
  assumes "generate_material C drawn a = Inr (m, pub)" and "pred_option (\<lambda>bs. length bs = 32) drawn"
  shows "length m = 32 \<and> (a = Ed25519 \<longrightarrow> pub = Some (ed_public C m))"
  using assms by (cases a) (auto simp: generate_material_def ed25519_public_key_def result_simps split: if_splits)

text \<open>How a stored key may change over its life: everything that identifies it stays.\<close>

fun status_rank :: "key_status \<Rightarrow> nat" where
  "status_rank KeyActive = 0"
| "status_rank KeyRetired = 1"
| "status_rank KeyDestroyed = 2"

definition evolves :: "stored_key \<Rightarrow> stored_key \<Rightarrow> bool" where
  "evolves s s' \<longleftrightarrow>
     (sk_metadata s')\<lparr>km_status := KeyActive, km_deactivated_at := None\<rparr> =
       (sk_metadata s)\<lparr>km_status := KeyActive, km_deactivated_at := None\<rparr> \<and>
     status_rank (km_status (sk_metadata s)) \<le> status_rank (km_status (sk_metadata s')) \<and>
     sk_material s' \<in> {sk_material s, None}"

lemma evolves_refl [simp]: "evolves s s"
  by (simp add: evolves_def)

lemma evolves_trans: "evolves s t \<Longrightarrow> evolves t u \<Longrightarrow> evolves s u"
  unfolding evolves_def by auto

lemma evolves_fields:
  assumes "evolves s s'"
  shows "km_tenant (sk_metadata s') = km_tenant (sk_metadata s)" and "km_purpose (sk_metadata s') = km_purpose (sk_metadata s)"
    and "km_algorithm (sk_metadata s') = km_algorithm (sk_metadata s)"
    and "km_activated_at (sk_metadata s') = km_activated_at (sk_metadata s)"
    and "km_public_identity (sk_metadata s') = km_public_identity (sk_metadata s)"
proof -
  have "(sk_metadata s')\<lparr>km_status := KeyActive, km_deactivated_at := None\<rparr> =
      (sk_metadata s)\<lparr>km_status := KeyActive, km_deactivated_at := None\<rparr>" (is "?l = ?r")
    using assms by (simp add: evolves_def)
  then have "km_tenant ?l = km_tenant ?r" "km_purpose ?l = km_purpose ?r" "km_algorithm ?l = km_algorithm ?r"
    "km_activated_at ?l = km_activated_at ?r" "km_public_identity ?l = km_public_identity ?r" by simp_all
  then show "km_tenant (sk_metadata s') = km_tenant (sk_metadata s)" "km_purpose (sk_metadata s') = km_purpose (sk_metadata s)"
    "km_algorithm (sk_metadata s') = km_algorithm (sk_metadata s)"
    "km_activated_at (sk_metadata s') = km_activated_at (sk_metadata s)"
    "km_public_identity (sk_metadata s') = km_public_identity (sk_metadata s)" by simp_all
qed

text \<open>What each operation does to the ring when it succeeds.\<close>

lemma key_create_cases:
  assumes "key_create C drawn draws request keys = (keys', res)" and "pred_option (\<lambda>bs. length bs = 32) drawn"
  obtains (failed) "keys' = keys" and "\<not> is_ok res"
  | (created) r s where "keys' = bt_insert r s keys" and "bt_get keys r = None" and "key_ok C r s"
      and "km_tenant (sk_metadata s) = ck_tenant request" and "res = Inr (sk_metadata s)"
proof (cases "rbind (validate_create_request request) (\<lambda>_.
     rbind (generate_material C drawn (ck_algorithm request)) (\<lambda>(material, public_identity).
     rbind (unique_key_ref keys draws) (\<lambda>key_ref. Inr (material, public_identity, key_ref))))")
  case (Inl e)
  then have "keys' = keys \<and> \<not> is_ok res"
    using assms(1) by (auto simp: key_create_def result_simps split_def)
  then show ?thesis using failed by blast
next
  case (Inr x)
  then obtain m pub r where x: "validate_create_request request = Inr ()"
    "generate_material C drawn (ck_algorithm request) = Inr (m, pub)" "unique_key_ref keys draws = Inr r"
    by (auto simp: result_simps split_def)
  note g = generate_material_InrD [OF x(2) assms(2)]
  have v: "purpose_ok (ck_purpose request) (ck_algorithm request)" "ck_created_at request \<le> ck_activated_at request"
    using x(1) by (auto simp: validate_create_request_def purpose_ok_def result_simps)
  let ?s = "\<lparr>sk_metadata = \<lparr>km_key_ref = r, km_purpose = ck_purpose request,
                    km_algorithm = ck_algorithm request, km_tenant = ck_tenant request,
                    km_created_at = ck_created_at request, km_activated_at = ck_activated_at request,
                    km_deactivated_at = None, km_status = KeyActive, km_public_identity = pub\<rparr>,
                  sk_material = Some m\<rparr>"
  have "key_ok C r ?s" using g v by (auto simp: key_ok_def purpose_ok_def)
  moreover have "keys' = bt_insert r ?s keys" "res = Inr (sk_metadata ?s)"
    using assms(1) x by (simp_all add: key_create_def)
  ultimately show ?thesis using unique_key_ref_fresh [OF x(3)] by (intro created [of r ?s]) simp_all
qed

lemma key_rotate_cases:
  assumes "key_rotate C drawn draws key_ref tenant at keys = (keys', res)"
    and "pred_option (\<lambda>bs. length bs = 32) drawn" and "ring_inv C keys"
  obtains (failed) "keys' = keys" and "\<not> is_ok res"
  | (rotated) old r s where "keys' = bt_insert r s (bt_update key_ref (retire at) keys)"
      and "bt_get keys key_ref = Some old" and "km_tenant (sk_metadata old) = tenant"
      and "km_status (sk_metadata old) = KeyActive" and "km_activated_at (sk_metadata old) \<le> at"
      and "bt_get keys r = None" and "key_ok C r s" and "km_tenant (sk_metadata s) = tenant" and "res = Inr (sk_metadata s)"
proof (cases "rbind (scoped_key keys key_ref tenant) (\<lambda>current.
     rbind (require_usable current (km_purpose (sk_metadata current)) at) (\<lambda>_.
       if at < km_created_at (sk_metadata current) then Inl InvalidMetadata
       else rbind (generate_material C drawn (km_algorithm (sk_metadata current))) (\<lambda>(material, public_identity).
            rbind (unique_key_ref keys draws) (\<lambda>successor_ref. Inr (current, material, public_identity, successor_ref)))))")
  case (Inl e)
  then have "keys' = keys \<and> \<not> is_ok res"
    using assms(1) by (auto simp: key_rotate_def result_simps split_def split: if_splits)
  then show ?thesis using failed by blast
next
  case (Inr x)
  then obtain old m pub r where x: "scoped_key keys key_ref tenant = Inr old"
    "require_usable old (km_purpose (sk_metadata old)) at = Inr ()" "km_created_at (sk_metadata old) \<le> at"
    "generate_material C drawn (km_algorithm (sk_metadata old)) = Inr (m, pub)" "unique_key_ref keys draws = Inr r"
    by (auto simp: result_simps split_def split: if_splits)
  note g = generate_material_InrD [OF x(4) assms(2)] and old = scoped_key_InrD [OF x(1)]
  have "key_ok C key_ref old" using assms(3) old by (simp add: ring_inv_def)
  then have p: "purpose_ok (km_purpose (sk_metadata old)) (km_algorithm (sk_metadata old))" by (simp add: key_ok_def)
  have u: "km_status (sk_metadata old) = KeyActive" "km_activated_at (sk_metadata old) \<le> at"
    using x(2) by (auto simp: require_usable_def split: if_splits)
  let ?s = "\<lparr>sk_metadata = \<lparr>km_key_ref = r, km_purpose = km_purpose (sk_metadata old),
                           km_algorithm = km_algorithm (sk_metadata old), km_tenant = km_tenant (sk_metadata old),
                           km_created_at = at, km_activated_at = at, km_deactivated_at = None,
                           km_status = KeyActive, km_public_identity = pub\<rparr>,
                         sk_material = Some m\<rparr>"
  have "key_ok C r ?s" using g p by (auto simp: key_ok_def purpose_ok_def)
  moreover have "keys' = bt_insert r ?s (bt_update key_ref (retire at) keys)" "res = Inr (sk_metadata ?s)"
    using assms(1) x by (simp_all add: key_rotate_def)
  ultimately show ?thesis
    using unique_key_ref_fresh [OF x(5)] old u by (intro rotated [of r ?s old]) simp_all
qed

lemma key_destroy_cases:
  assumes "key_destroy key_ref tenant at keys = (keys', res)"
  obtains (failed) "keys' = keys" and "\<not> is_ok res"
  | (destroyed) old where "keys' = bt_update key_ref (destroyed at) keys" and "bt_get keys key_ref = Some old"
      and "km_tenant (sk_metadata old) = tenant" and "km_status (sk_metadata old) \<noteq> KeyDestroyed"
      and "res = Inr (sk_metadata (destroyed at old))"
proof (cases "scoped_key keys key_ref tenant")
  case (Inr old)
  then show ?thesis
    using assms scoped_key_InrD [OF Inr] failed destroyed [of old]
    by (auto simp: key_destroy_def split: if_splits)
qed (use assms failed in \<open>auto simp: key_destroy_def\<close>)

subsection \<open>The invariant and the life of a key\<close>

lemma retire_ok: "key_ok C r s \<Longrightarrow> km_status (sk_metadata s) = KeyActive \<Longrightarrow> key_ok C r (retire at s) \<and> evolves s (retire at s)"
  by (auto simp: key_ok_def retire_def evolves_def)

lemma destroyed_ok: "key_ok C r s \<Longrightarrow> key_ok C r (destroyed at s) \<and> evolves s (destroyed at s)"
  by (cases "km_status (sk_metadata s)") (auto simp: key_ok_def destroyed_def evolves_def)

lemma ring_inv_insert: "ring_inv C keys \<Longrightarrow> key_ok C r s \<Longrightarrow> ring_inv C (bt_insert r s keys)"
  by (simp add: ring_inv_def bt_invar_insert bt_get_insert)

lemma ring_inv_update:
  "ring_inv C keys \<Longrightarrow> (\<And>s. bt_get keys r = Some s \<Longrightarrow> key_ok C r (f s)) \<Longrightarrow> ring_inv C (bt_update r f keys)"
  by (auto simp: ring_inv_def bt_invar_update bt_get_update)

text \<open>
  One operation keeps the invariant and lets every stored key only evolve; a key of another tenant
  does not change at all.
\<close>

lemma key_exec_contract:
  assumes inv: "ring_inv C keys" and "op_ok op" and exec: "key_exec C op keys = (keys', res)"
  shows "ring_inv C keys' \<and> (\<forall>r s. bt_get keys r = Some s \<longrightarrow>
    (\<exists>s'. bt_get keys' r = Some s' \<and> evolves s s' \<and> (km_tenant (sk_metadata s) \<noteq> op_tenant op \<longrightarrow> s' = s)))"
proof (cases op)
  case (KCreate drawn draws request)
  from exec assms(2) KCreate have "key_create C drawn draws request keys = (keys', res)"
    and "pred_option (\<lambda>bs. length bs = 32) drawn" by simp_all
  then show ?thesis
  proof (cases rule: key_create_cases)
    case (created r s)
    then show ?thesis using inv by (auto simp: ring_inv_insert bt_get_insert)
  qed (use inv in simp)
next
  case (KRotate drawn draws ref tenant at)
  from exec assms(2) KRotate have "key_rotate C drawn draws ref tenant at keys = (keys', res)"
    and "pred_option (\<lambda>bs. length bs = 32) drawn" by simp_all
  from this inv show ?thesis
  proof (cases rule: key_rotate_cases)
    case (rotated old r s)
    have "key_ok C ref old" using inv rotated(2) by (simp add: ring_inv_def)
    note ret = retire_ok [OF this rotated(4), of at]
    have "ring_inv C keys'"
      unfolding rotated(1) using inv ret rotated(2,7) by (intro ring_inv_insert ring_inv_update) auto
    moreover have "r \<noteq> ref" using rotated(2,6) by auto
    ultimately show ?thesis
      using rotated(1-3,6) ret KRotate by (auto simp: bt_get_insert bt_get_update)
  qed (use inv in simp)
next
  case (KDestroy ref tenant at)
  from exec KDestroy have "key_destroy ref tenant at keys = (keys', res)" by simp
  then show ?thesis
  proof (cases rule: key_destroy_cases)
    case (destroyed old)
    have "key_ok C ref old" using inv destroyed(2) by (simp add: ring_inv_def)
    note d = destroyed_ok [OF this, of at]
    have "ring_inv C keys'"
      unfolding destroyed(1) using inv d destroyed(2) by (intro ring_inv_update) auto
    then show ?thesis
      using destroyed(1-3) d KDestroy by (auto simp: bt_get_update)
  qed (use inv in simp)
qed

lemma key_stepD:
  assumes "ring_inv C keys" and "key_step C keys keys'"
  shows "ring_inv C keys'" and "bt_get keys r = Some s \<Longrightarrow> \<exists>s'. bt_get keys' r = Some s' \<and> evolves s s'"
proof -
  obtain op where op: "op_ok op" "keys' = fst (key_exec C op keys)" using assms(2) by (auto simp: key_step_def)
  have "key_exec C op keys = (keys', snd (key_exec C op keys))" using op by simp
  from key_exec_contract [OF assms(1) op(1) this]
  show "ring_inv C keys'" "bt_get keys r = Some s \<Longrightarrow> \<exists>s'. bt_get keys' r = Some s' \<and> evolves s s'" by blast+
qed

definition key_init :: "key_ring \<Rightarrow> bool" where
  "key_init keys \<longleftrightarrow> keys = []"

interpretation ring: invariant_system key_init "key_step C" "ring_inv C" for C
proof
  show "ring_inv C keys" if "key_init keys" for keys using that by (simp add: key_init_def ring_inv_def bt_invar_def)
  show "ring_inv C keys'" if "ring_inv C keys" "key_step C keys keys'" for keys keys'
    using that by (rule key_stepD(1))
qed

lemma key_run_evolves:
  assumes "ring_inv C keys" and "(key_step C)\<^sup>*\<^sup>* keys keys'" and "bt_get keys r = Some s"
  shows "\<exists>s'. bt_get keys' r = Some s' \<and> evolves s s'"
  using assms(2,1,3)
proof (induction rule: rtranclp_induct)
  case (step k1 k2)
  then obtain s1 where "bt_get k1 r = Some s1" "evolves s s1" by blast
  moreover have "ring_inv C k1" using step by (auto intro: ring.invar_run)
  ultimately show ?case using key_stepD(2) [OF _ step(2)] evolves_trans by blast
qed auto

subsection \<open>Signing and verification\<close>

text \<open>The envelope that \<open>sign\<close> returns: the request's fields with a signature over their encoding.\<close>

lemma key_sign_InrD:
  assumes "key_sign C keys request = Inr env"
  obtains s material input where "bt_get keys (sr_key_ref request) = Some s"
    and "km_tenant (sk_metadata s) = sr_tenant request" and "require_usable s Signing (sr_signed_at request) = Inr ()"
    and "sk_material s = Some material" and "signature_input env = Inr input"
    and "se_signature env = ed_sign C material input" and "se_algorithm env = Ed25519"
    and "se_key_ref env = sr_key_ref request" and "se_signer env = sr_signer request"
    and "se_purpose env = sr_purpose request" and "se_signed_at env = sr_signed_at request"
    and "se_expires_at env = sr_expires_at request" and "se_payload_digest env = sr_payload_digest request"
proof -
  have input_update: "signature_input (e\<lparr>se_signature := sg\<rparr>) = signature_input e" for e sg
    by (cases "se_expires_at e") (simp_all add: signature_input_def signature_fields_def)
  let ?e = "\<lparr>se_algorithm = Ed25519, se_key_ref = sr_key_ref request, se_signer = sr_signer request,
    se_purpose = sr_purpose request, se_signed_at = sr_signed_at request, se_expires_at = sr_expires_at request,
    se_payload_digest = sr_payload_digest request, se_signature = replicate 64 (CHR 0x00)\<rparr>"
  obtain s m input where s: "scoped_key keys (sr_key_ref request) (sr_tenant request) = Inr s"
    "require_usable s Signing (sr_signed_at request) = Inr ()" "signature_input ?e = Inr input"
    "sk_material s = Some m" "env = ?e\<lparr>se_signature := ed_sign C m input\<rparr>"
    using assms by (auto simp: key_sign_def sign_ed25519_def result_simps Let_def split: if_splits option.splits)
  have "signature_input env = Inr input" using input_update [of _ ?e] s(3,5) by simp
  then show thesis using s scoped_key_InrD [OF s(1)] by (intro that [of s m input]) simp_all
qed

lemma require_usable_iff:
  "require_usable s purpose at = Inr () \<longleftrightarrow>
     km_purpose (sk_metadata s) = purpose \<and> km_status (sk_metadata s) = KeyActive \<and>
     km_activated_at (sk_metadata s) \<le> at \<and> (\<forall>t. km_deactivated_at (sk_metadata s) = Some t \<longrightarrow> at < t) \<and>
     sk_material s \<noteq> None"
  by (auto simp: require_usable_def split: option.splits if_splits)

lemma require_decryptable_iff:
  "require_decryptable s purpose at = Inr () \<longleftrightarrow>
     km_purpose (sk_metadata s) = purpose \<and> km_status (sk_metadata s) \<noteq> KeyDestroyed \<and>
     km_activated_at (sk_metadata s) \<le> at \<and> sk_material s \<noteq> None"
  by (cases "km_status (sk_metadata s)") (auto simp: require_decryptable_def split: if_splits)

text \<open>What verification checks, as one condition on the key and the envelope.\<close>

lemma key_verify_iff:
  "key_verify C keys env e = Inr () \<longleftrightarrow>
     se_algorithm env = Ed25519 \<and> se_signer env = sv_signer e \<and> se_purpose env = sv_purpose e \<and>
     se_payload_digest env = sv_payload_digest e \<and>
     se_signed_at env \<le> sv_now e \<and> (\<forall>x. se_expires_at env = Some x \<longrightarrow> sv_now e < x) \<and>
     (\<exists>s pub input. bt_get keys (se_key_ref env) = Some s \<and> km_tenant (sk_metadata s) = sv_tenant e \<and>
        km_purpose (sk_metadata s) = Signing \<and> km_algorithm (sk_metadata s) = Ed25519 \<and>
        km_activated_at (sk_metadata s) \<le> se_signed_at env \<and>
        (\<forall>t. km_deactivated_at (sk_metadata s) = Some t \<longrightarrow> se_signed_at env < t) \<and>
        km_public_identity (sk_metadata s) = Some pub \<and> signature_input env = Inr input \<and>
        ed_verify C pub input (se_signature env))"
proof (cases "bt_get keys (se_key_ref env)")
  case None
  then show ?thesis by (auto simp: key_verify_def scoped_key_def split: option.splits)
next
  case (Some s)
  then show ?thesis
    by (cases "km_public_identity (sk_metadata s)"; cases "signature_input env")
       (auto simp: key_verify_def scoped_key_def verify_ed25519_def result_simps split: option.splits if_splits)
qed

lemma signing_key_public:
  "key_ok C r s \<Longrightarrow> km_purpose (sk_metadata s) = Signing \<Longrightarrow> sk_material s = Some m \<Longrightarrow>
    km_public_identity (sk_metadata s) = Some (ed_public C m) \<and> km_algorithm (sk_metadata s) = Ed25519"
  by (auto simp: key_ok_def purpose_ok_def)

lemma key_ringI: "reach key_init (key_step C) keys \<Longrightarrow> ring_inv C keys"
  by (rule ring.invar_reach)

lemma signed_verify_iff:
  assumes "ed25519_ok C" and "ring_inv C keys" and "key_sign C keys request = Inr env"
    and "(key_step C)\<^sup>*\<^sup>* keys keys'"
  shows "key_verify C keys' env e = Inr () \<longleftrightarrow>
     sv_tenant e = sr_tenant request \<and> sv_signer e = sr_signer request \<and> sv_purpose e = sr_purpose request \<and>
     sv_payload_digest e = sr_payload_digest request \<and> sr_signed_at request \<le> sv_now e \<and>
     (\<forall>x. sr_expires_at request = Some x \<longrightarrow> sv_now e < x) \<and>
     (\<forall>s t. bt_get keys' (sr_key_ref request) = Some s \<longrightarrow> km_deactivated_at (sk_metadata s) = Some t \<longrightarrow>
        sr_signed_at request < t)"
proof -
  note inv = assms(2)
  obtain s m input where env: "bt_get keys (sr_key_ref request) = Some s" "km_tenant (sk_metadata s) = sr_tenant request"
    "require_usable s Signing (sr_signed_at request) = Inr ()" "sk_material s = Some m" "signature_input env = Inr input"
    "se_signature env = ed_sign C m input" "se_algorithm env = Ed25519" "se_key_ref env = sr_key_ref request"
    "se_signer env = sr_signer request" "se_purpose env = sr_purpose request" "se_signed_at env = sr_signed_at request"
    "se_expires_at env = sr_expires_at request" "se_payload_digest env = sr_payload_digest request"
    using assms(3) by (rule key_sign_InrD)
  obtain s' where s': "bt_get keys' (sr_key_ref request) = Some s'" "evolves s s'"
    using key_run_evolves [OF inv assms(4) env(1)] by blast
  have "key_ok C (sr_key_ref request) s" using inv env(1) by (simp add: ring_inv_def)
  note pub = signing_key_public [OF this _ env(4)]
  show ?thesis
    using env s' pub assms(1)
    by (auto simp: key_verify_iff require_usable_iff evolves_fields [OF s'(2)] ed25519_ok_def)
qed

text \<open>
  (C34) Signatures outlive the key that made them: an envelope signed by the provider verifies after any
  later creations, rotations and destructions exactly when it is checked for the same tenant, signer,
  purpose and payload, inside its validity window, and the recorded deactivation time of the key, if
  any, is after the signing time.
\<close>

theorem signatures_outlive_rotation:
  assumes "ed25519_ok C" and "reach key_init (key_step C) keys" and "key_sign C keys request = Inr env"
    and "(key_step C)\<^sup>*\<^sup>* keys keys'"
  shows "key_verify C keys' env e = Inr () \<longleftrightarrow>
     sv_tenant e = sr_tenant request \<and> sv_signer e = sr_signer request \<and> sv_purpose e = sr_purpose request \<and>
     sv_payload_digest e = sr_payload_digest request \<and> sr_signed_at request \<le> sv_now e \<and>
     (\<forall>x. sr_expires_at request = Some x \<longrightarrow> sv_now e < x) \<and>
     (\<forall>s t. bt_get keys' (sr_key_ref request) = Some s \<longrightarrow> km_deactivated_at (sk_metadata s) = Some t \<longrightarrow>
        sr_signed_at request < t)"
  by (rule signed_verify_iff [OF assms(1) key_ringI [OF assms(2)] assms(3,4)])

text \<open>
  Retired and destroyed keys are never used again: once a key has left the active state, no later
  operation resolves, signs with, wraps under or rotates it, and a destroyed key unwraps nothing.
\<close>

theorem deactivated_keys_stay_unusable:
  assumes "reach key_init (key_step C) keys" and "bt_get keys r = Some s"
    and "km_status (sk_metadata s) \<noteq> KeyActive" and "(key_step C)\<^sup>*\<^sup>* keys keys'"
  shows "\<not> is_ok (key_resolve keys' r tenant purpose at) \<and>
     (sr_key_ref request = r \<longrightarrow> \<not> is_ok (key_sign C keys' request)) \<and>
     \<not> is_ok (key_wrap C drawn keys' r tenant data_key associated_data at) \<and>
     key_rotate C drawn draws r tenant at keys' = (keys', snd (key_rotate C drawn draws r tenant at keys')) \<and>
     \<not> is_ok (snd (key_rotate C drawn draws r tenant at keys')) \<and>
     (km_status (sk_metadata s) = KeyDestroyed \<longrightarrow>
        \<not> is_ok (key_unwrap C keys' r tenant env associated_data at))"
proof -
  obtain s' where s': "bt_get keys' r = Some s'" "evolves s s'"
    using key_run_evolves [OF key_ringI [OF assms(1)] assms(4,2)] by blast
  have inactive: "km_status (sk_metadata s') \<noteq> KeyActive"
    "km_status (sk_metadata s) = KeyDestroyed \<Longrightarrow> km_status (sk_metadata s') = KeyDestroyed"
    using s'(2) assms(3)
    by (cases "km_status (sk_metadata s)"; cases "km_status (sk_metadata s')"; simp add: evolves_def)+
  have unusable: "require_usable s' p t \<noteq> Inr ()" for p t
    using inactive(1) by (simp add: require_usable_def)
  have locked: "km_status (sk_metadata s) = KeyDestroyed \<Longrightarrow> require_decryptable s' p t \<noteq> Inr ()" for p t
    using inactive(2) by (simp add: require_decryptable_def)
  have scoped: "scoped_key keys' r t = Inr x \<Longrightarrow> x = s'" for t x
    using s'(1) scoped_key_InrD by fastforce
  have "\<not> is_ok (key_sign C keys' request)" if "sr_key_ref request = r"
  proof
    assume "is_ok (key_sign C keys' request)"
    then obtain env where "key_sign C keys' request = Inr env" by (auto simp: is_ok_iff)
    then show False
      by (rule key_sign_InrD) (use that s'(1) unusable in auto)
  qed
  moreover have "\<not> is_ok (key_unwrap C keys' r tenant env associated_data at)"
    if "km_status (sk_metadata s) = KeyDestroyed"
    using locked [OF that] scoped by (cases "scoped_key keys' r tenant") (auto simp: key_unwrap_def result_simps)
  moreover have "\<not> is_ok (key_resolve keys' r tenant purpose at)"
    "\<not> is_ok (key_wrap C drawn keys' r tenant data_key associated_data at)"
    using unusable scoped by (cases "scoped_key keys' r tenant"; auto simp: key_resolve_def key_wrap_def result_simps)+
  moreover have "\<exists>err. key_rotate C drawn draws r tenant at keys' = (keys', Inl err)"
    using unusable scoped
    by (cases "scoped_key keys' r tenant"; cases "require_usable s' (km_purpose (sk_metadata s')) at")
       (auto simp: key_rotate_def)
  ultimately show ?thesis by auto
qed

text \<open>
  Wrapped data keys survive rotation: an envelope wrapped under a tenant key is opened, under the
  same tenant and associated data at any time from the key's activation on, to the data key that was
  wrapped, after any later operations that do not destroy the key; after its destruction it is refused.
\<close>

theorem wrapped_keys_survive_rotation:
  assumes "xchacha_ok C" and "reach key_init (key_step C) keys"
    and "key_wrap C drawn keys r tenant data_key associated_data at = Inr env"
    and "(key_step C)\<^sup>*\<^sup>* keys keys'" and "bt_get keys' r = Some s'"
  shows "key_unwrap C keys' r tenant env associated_data later =
     (if km_status (sk_metadata s') = KeyDestroyed \<or> later < km_activated_at (sk_metadata s')
      then Inl KeyInactive else Inr data_key)"
proof -
  note inv = key_ringI [OF assms(2)]
  obtain s m nonce c where s: "bt_get keys r = Some s" "km_tenant (sk_metadata s) = tenant"
    "require_usable s BlobEncryption at = Inr ()" "sk_material s = Some m" "length m = 32"
    "xc_encrypt C m nonce associated_data data_key = Some c" "env = \<lparr>ee_nonce = nonce, ee_ciphertext = c\<rparr>"
    using assms(3) by (auto simp: key_wrap_def encrypt_xchacha20_def result_simps dest!: scoped_key_InrD split: if_splits)
  have evo: "evolves s s'" using key_run_evolves [OF inv assms(4) s(1)] assms(5) by auto
  then have "sk_material s' \<in> {Some m, None}" using s(4) by (simp add: evolves_def)
  moreover have "ring_inv C keys'" using ring.invar_run [OF assms(4) inv] .
  then have "km_status (sk_metadata s') = KeyDestroyed \<longleftrightarrow> sk_material s' = None"
    using assms(5) by (simp add: ring_inv_def key_ok_def)
  moreover have "xc_decrypt C m nonce associated_data c = Some data_key" using assms(1) s(6) by (auto simp: xchacha_ok_def)
  ultimately show ?thesis
    using s evolves_fields [OF evo] assms(5)
    by (cases "km_status (sk_metadata s')")
       (auto simp: key_unwrap_def scoped_key_def require_usable_iff require_decryptable_def decrypt_xchacha20_def)
qed

text \<open>
  Encoding the signed fields cannot fail for bounded metadata and times in the 64-bit ranges.
\<close>

definition time_ok :: "int \<Rightarrow> bool" where
  "time_ok t \<longleftrightarrow> - (2 ^ 63) \<le> t \<and> t < 2 ^ 64"

lemma canonical_integer_ok:
  assumes "time_ok t"
  obtains n where "canonical_integer t = Inr n" and "length (cbor n) \<le> 9" and "cbor_fits d n \<longleftrightarrow> d \<le> MAX_CANONICAL_DEPTH"
proof (cases "t < 0")
  case True
  have "sint (word_of_int t :: 64 word) = t"
    using assms True by (simp add: time_ok_def signed_take_bit_int_eq_self sint_sbintrunc')
  then show thesis
    using that [of "CNegative (word_of_int t)"] True assms length_cbor_leaf(4)
    by (simp add: canonical_integer_def time_ok_def del: cbor.simps)
next
  case False
  then show thesis
    using that [of "CUnsigned (word_of_int t)"] assms length_cbor_leaf(3)
    by (simp add: canonical_integer_def time_ok_def del: cbor.simps)
qed

lemma signature_fields_eq:
  "signature_fields e n = [(''algorithm'', CText ''ed25519''), (''key_ref'', CText (se_key_ref e)),
    (''payload_digest'', CBytes (se_payload_digest e)), (''purpose'', CText (se_purpose e)),
    (''signed_at'', n), (''signer'', CText (se_signer e))]"
  by (simp add: signature_fields_def)

lemma cbor_defined:
  assumes "length kvs \<le> 8" and "\<And>k c. (k, c) \<in> set kvs \<Longrightarrow> length k + length (cbor c) \<le> 1000 \<and> cbor_fits 2 c"
  shows "is_ok (to_deterministic_cbor (CMap kvs))"
proof -
  have "(\<Sum>(k, c)\<leftarrow>kvs. 9 + length k + length (cbor c)) \<le> (\<Sum>x\<leftarrow>kvs. 1009)"
    by (rule sum_list_mono) (use assms(2) in force)
  also have "\<dots> \<le> 8072" using assms(1) by (simp add: sum_list_triv)
  finally have "length (cbor (CMap kvs)) \<le> 8081" using length_cbor_map [of kvs] by linarith
  then show ?thesis
    using assms
    by (auto simp: to_deterministic_cbor_eq limited_def canonical_limits list_all_iff numeral_2_eq_2 simp del: cbor.simps)
qed

lemma signature_input_defined:
  assumes "time_ok (se_signed_at e)" and "pred_option time_ok (se_expires_at e)" and "length (se_key_ref e) \<le> 128"
    and "length (se_signer e) \<le> 256" and "length (se_purpose e) \<le> 256" and "length (se_payload_digest e) = 32"
  shows "is_ok (signature_input e)"
proof -
  obtain n where n: "canonical_integer (se_signed_at e) = Inr n" "length (cbor n) \<le> 9" "cbor_fits 2 n \<longleftrightarrow> 2 \<le> MAX_CANONICAL_DEPTH"
    using canonical_integer_ok [OF assms(1)] by metis
  have bound: "length k + length (cbor c) \<le> 1000 \<and> cbor_fits 2 c" if "(k, c) \<in> set (signature_fields e n)" for k c
    using that n(2,3) assms(3-6) length_cbor_leaf(1) [of "se_key_ref e"] length_cbor_leaf(1) [of "se_signer e"]
      length_cbor_leaf(1) [of "se_purpose e"] length_cbor_leaf(2) [of "se_payload_digest e"]
      length_cbor_leaf(1) [of "''ed25519''"]
    by (auto simp: signature_fields_eq canonical_limits simp del: cbor.simps)
  have len: "length (signature_fields e n) = 6" by (simp add: signature_fields_eq)
  show ?thesis
  proof (cases "se_expires_at e")
    case None
    then show ?thesis
      using cbor_defined [of "signature_fields e n"] bound len n(1)
      by (auto simp: signature_input_def result_simps)
  next
    case (Some x)
    then obtain m where m: "canonical_integer x = Inr m" "length (cbor m) \<le> 9" "cbor_fits 2 m \<longleftrightarrow> 2 \<le> MAX_CANONICAL_DEPTH"
      using canonical_integer_ok [of x] assms(2) by (metis pred_option_def option.set_intros elem_set)
    have "set (bt_insert ''expires_at'' m (signature_fields e n)) \<subseteq> insert (''expires_at'', m) (set (signature_fields e n))"
      by (auto simp: signature_fields_eq)
    moreover have "length (bt_insert ''expires_at'' m (signature_fields e n)) = 7" by (simp add: signature_fields_eq)
    ultimately have "is_ok (to_deterministic_cbor (CMap (bt_insert ''expires_at'' m (signature_fields e n))))"
      using bound m(2,3) by (intro cbor_defined) (auto simp: canonical_limits)
    then show ?thesis using Some n(1) m(1) by (auto simp: signature_input_def result_simps)
  qed
qed

text \<open>Signing succeeds whenever the request is bounded and the key is usable at the signing time.\<close>

lemma key_sign_defined:
  assumes "validate_scope (sr_signer request) = Inr ()" and "validate_scope (sr_purpose request) = Inr ()"
    and "\<And>x. sr_expires_at request = Some x \<Longrightarrow> sr_signed_at request < x"
    and "bt_get keys (sr_key_ref request) = Some s" and "km_tenant (sk_metadata s) = sr_tenant request"
    and "require_usable s Signing (sr_signed_at request) = Inr ()" and "pred_option (\<lambda>m. length m = 32) (sk_material s)"
    and "time_ok (sr_signed_at request)" and "pred_option time_ok (sr_expires_at request)"
    and "length (sr_key_ref request) \<le> 128" and "length (sr_payload_digest request) = 32"
  shows "\<exists>env. key_sign C keys request = Inr env"
proof -
  let ?e = "\<lparr>se_algorithm = Ed25519, se_key_ref = sr_key_ref request, se_signer = sr_signer request,
    se_purpose = sr_purpose request, se_signed_at = sr_signed_at request, se_expires_at = sr_expires_at request,
    se_payload_digest = sr_payload_digest request, se_signature = replicate 64 (CHR 0x00)\<rparr>"
  have "is_ok (signature_input ?e)"
    using assms by (intro signature_input_defined) (auto simp: validate_scope_def MAX_SCOPE_BYTES_def result_simps)
  moreover have "\<not> (case sr_expires_at request of None \<Rightarrow> False | Some x \<Rightarrow> x \<le> sr_signed_at request)"
    using assms(3) by (auto split: option.splits)
  moreover obtain m where "sk_material s = Some m" "length m = 32"
    using assms(6,7) by (cases "sk_material s") (auto simp: require_usable_iff)
  ultimately show ?thesis
    using assms(1,2,4-6) scoped_key_Some [OF assms(4)]
    by (auto simp: key_sign_def result_simps sign_ed25519_def Let_def)
qed

subsection \<open>A worked example\<close>

definition example_crypto :: crypto_primitives where
  "example_crypto = \<lparr>ed_public = (\<lambda>secret. secret), ed_sign = (\<lambda>secret message. secret @ message),
     ed_verify = (\<lambda>public message signature. signature = public @ message),
     xc_encrypt = (\<lambda>key nonce data message. Some message), xc_decrypt = (\<lambda>key nonce data ciphertext. Some ciphertext)\<rparr>"

definition example_draw :: "nat \<Rightarrow> string option" where
  "example_draw i = Some (replicate 16 (char_of i))"

definition example_ref :: string where
  "example_ref = ''key-00000000000000000000000000000000''"

fun example_op :: "key_purpose \<Rightarrow> nat \<Rightarrow> key_op" where
  "example_op p 0 = KCreate (Some (replicate 32 (CHR ''s''))) example_draw
     \<lparr>ck_tenant = ''t'', ck_purpose = p, ck_algorithm = (if p = Signing then Ed25519 else XChaCha20Poly1305),
       ck_created_at = 0, ck_activated_at = 0\<rparr>"
| "example_op p (Suc 0) = KRotate (Some (replicate 32 (CHR ''z''))) example_draw example_ref ''t'' 3"
| "example_op p (Suc (Suc n)) = KDestroy example_ref ''t'' 6"

text \<open>The ring after creating, then rotating, then destroying one key.\<close>

fun example_ring :: "key_purpose \<Rightarrow> nat \<Rightarrow> key_ring" where
  "example_ring p 0 = []"
| "example_ring p (Suc n) = fst (key_exec example_crypto (example_op p n) (example_ring p n))"

definition example_key :: "key_purpose \<Rightarrow> int option \<Rightarrow> key_status \<Rightarrow> stored_key" where
  "example_key p gone status =
     \<lparr>sk_metadata = \<lparr>km_key_ref = example_ref, km_purpose = p,
        km_algorithm = (if p = Signing then Ed25519 else XChaCha20Poly1305), km_tenant = ''t'', km_created_at = 0,
        km_activated_at = 0, km_deactivated_at = gone, km_status = status,
        km_public_identity = (if p = Signing then Some (replicate 32 (CHR ''s'')) else None)\<rparr>,
      sk_material = (if status = KeyDestroyed then None else Some (replicate 32 (CHR ''s'')))\<rparr>"

definition example_request :: signature_request where
  "example_request = \<lparr>sr_key_ref = example_ref, sr_tenant = ''t'', sr_signer = ''alice'',
     sr_purpose = ''p'', sr_payload_digest = replicate 32 (CHR ''d''), sr_signed_at = 5, sr_expires_at = None\<rparr>"

definition example_expectation :: signature_verification where
  "example_expectation = \<lparr>sv_tenant = ''t'', sv_signer = ''alice'', sv_purpose = ''p'',
     sv_payload_digest = replicate 32 (CHR ''d''), sv_now = 7\<rparr>"

lemma example_crypto_ok: "ed25519_ok example_crypto" "xchacha_ok example_crypto"
  by (simp_all add: ed25519_ok_def xchacha_ok_def example_crypto_def)

definition example_successor :: "key_purpose \<Rightarrow> stored_key" where
  "example_successor p =
     \<lparr>sk_metadata = \<lparr>km_key_ref = ''key-01010101010101010101010101010101'', km_purpose = p,
        km_algorithm = (if p = Signing then Ed25519 else XChaCha20Poly1305), km_tenant = ''t'', km_created_at = 3,
        km_activated_at = 3, km_deactivated_at = None, km_status = KeyActive,
        km_public_identity = (if p = Signing then Some (replicate 32 (CHR ''z'')) else None)\<rparr>,
      sk_material = Some (replicate 32 (CHR ''z''))\<rparr>"

definition example_two :: "key_purpose \<Rightarrow> int \<Rightarrow> key_status \<Rightarrow> key_ring" where
  "example_two p gone status = [(example_ref, example_key p (Some gone) status),
     (''key-01010101010101010101010101010101'', example_successor p)]"

lemma example_create:
  "example_ring Signing (Suc 0) = [(example_ref, example_key Signing None KeyActive)]"
  "example_ring BlobEncryption (Suc 0) = [(example_ref, example_key BlobEncryption None KeyActive)]"
  by code_simp+

lemma example_rotate:
  "fst (key_exec example_crypto (example_op Signing (Suc 0)) [(example_ref, example_key Signing None KeyActive)]) =
     example_two Signing 3 KeyRetired"
  "fst (key_exec example_crypto (example_op BlobEncryption (Suc 0)) [(example_ref, example_key BlobEncryption None KeyActive)]) =
     example_two BlobEncryption 3 KeyRetired"
  by code_simp+

lemma example_destroy:
  "fst (key_destroy example_ref ''t'' 6 (example_two Signing 3 KeyRetired)) = example_two Signing 6 KeyDestroyed"
  by code_simp

lemma example_rings:
  "example_ring Signing (Suc (Suc 0)) = example_two Signing 3 KeyRetired"
  "example_ring BlobEncryption (Suc (Suc 0)) = example_two BlobEncryption 3 KeyRetired"
  "example_ring Signing (Suc (Suc (Suc 0))) = example_two Signing 6 KeyDestroyed"
  by (simp_all only: example_ring.simps(2) [where n = "Suc n" for n] example_create example_rotate
      example_op.simps(3) key_exec.simps(3) example_destroy)

declare example_ring.simps [simp del]

lemma example_ring_get:
  "bt_get (example_ring Signing (Suc 0)) example_ref = Some (example_key Signing None KeyActive)"
  "bt_get (example_ring Signing (Suc (Suc 0))) example_ref = Some (example_key Signing (Some 3) KeyRetired)"
  "bt_get (example_ring Signing (Suc (Suc (Suc 0)))) example_ref = Some (example_key Signing (Some 6) KeyDestroyed)"
  "bt_get (example_ring BlobEncryption (Suc 0)) example_ref = Some (example_key BlobEncryption None KeyActive)"
  "bt_get (example_ring BlobEncryption (Suc (Suc 0))) example_ref = Some (example_key BlobEncryption (Some 3) KeyRetired)"
  by (simp_all add: example_create example_rings example_two_def)

lemma key_example_run: "m \<le> n \<Longrightarrow> (key_step example_crypto)\<^sup>*\<^sup>* (example_ring p m) (example_ring p n)"
proof (induction rule: dec_induct)
  case (step k)
  have "op_ok (example_op p k)" by (cases "(p, k)" rule: example_op.cases) simp_all
  then have "key_step example_crypto (example_ring p k) (example_ring p (Suc k))"
    by (auto simp: key_step_def example_ring.simps)
  then show ?case using step by (simp add: rtranclp.rtrancl_into_rtrancl)
qed simp

lemma key_example_reach: "reach key_init (key_step example_crypto) (example_ring p n)"
  using reach_run [OF reach_init key_example_run [of 0 n p]] by (simp add: key_init_def example_ring.simps)

lemma example_signs: "\<exists>env. key_sign example_crypto (example_ring Signing (Suc 0)) example_request = Inr env"
  by (rule key_sign_defined [where s = "example_key Signing None KeyActive"])
     (simp_all add: example_request_def example_ring_get example_key_def validate_scope_def MAX_SCOPE_BYTES_def
      byte_defs require_usable_def time_ok_def, simp add: example_ref_def)

lemmas example_defs = example_request_def example_expectation_def example_key_def

theorem signatures_outlive_rotation_witness:
  "\<exists>env. key_sign example_crypto (example_ring Signing (Suc 0)) example_request = Inr env \<and>
     key_verify example_crypto (example_ring Signing (Suc 0)) env example_expectation = Inr () \<and>
     key_verify example_crypto (example_ring Signing (Suc (Suc 0))) env example_expectation \<noteq> Inr ()"
proof -
  obtain env where env: "key_sign example_crypto (example_ring Signing (Suc 0)) example_request = Inr env"
    using example_signs by blast
  note outlive = signatures_outlive_rotation [OF example_crypto_ok(1) key_example_reach env key_example_run]
  have "key_verify example_crypto (example_ring Signing (Suc 0)) env example_expectation = Inr ()"
    by (subst outlive) (simp_all add: example_ring_get example_defs)
  moreover have "key_verify example_crypto (example_ring Signing (Suc (Suc 0))) env example_expectation \<noteq> Inr ()"
    by (subst outlive) (simp_all add: example_ring_get example_defs)
  ultimately show ?thesis using env by blast
qed

theorem deactivated_keys_stay_unusable_witness:
  "\<not> is_ok (key_sign example_crypto (example_ring Signing (Suc (Suc (Suc 0)))) example_request) \<and>
   is_ok (key_sign example_crypto (example_ring Signing (Suc 0)) example_request)"
  using deactivated_keys_stay_unusable [OF key_example_reach example_ring_get(2) _ key_example_run, of "Suc (Suc (Suc 0))" _ _ _ example_request]
    example_signs
  by (auto simp: example_defs)

theorem wrapped_keys_survive_rotation_witness:
  "\<exists>env. key_wrap example_crypto (Some ''n'') (example_ring BlobEncryption (Suc 0)) example_ref ''t'' ''dk'' ''ad'' 1 = Inr env \<and>
     key_unwrap example_crypto (example_ring BlobEncryption (Suc (Suc 0))) example_ref ''t'' env ''ad'' 9 = Inr ''dk''"
proof -
  have env: "key_wrap example_crypto (Some ''n'') (example_ring BlobEncryption (Suc 0)) example_ref ''t'' ''dk'' ''ad'' 1 =
      Inr \<lparr>ee_nonce = ''n'', ee_ciphertext = ''dk''\<rparr>"
    by (simp add: key_wrap_def scoped_key_def example_ring_get example_key_def require_usable_def encrypt_xchacha20_def
        example_crypto_def)
  show ?thesis
    using env wrapped_keys_survive_rotation [OF example_crypto_ok(2) key_example_reach env key_example_run example_ring_get(5), of 9]
    by (auto simp: example_key_def)
qed

text \<open>An expectation that fits a signing request and lies inside its validity window.\<close>

definition fits_request :: "signature_request \<Rightarrow> signature_verification \<Rightarrow> bool" where
  "fits_request request e \<longleftrightarrow> sv_tenant e = sr_tenant request \<and> sv_signer e = sr_signer request \<and>
     sv_purpose e = sr_purpose request \<and> sv_payload_digest e = sr_payload_digest request \<and> sr_signed_at request \<le> sv_now e \<and>
     (\<forall>x. sr_expires_at request = Some x \<longrightarrow> sv_now e < x)"

lemma key_destroy_InrD:
  assumes "key_destroy r tenant at keys = (keys', Inr m)"
  obtains s where "bt_get keys r = Some s" "km_tenant (sk_metadata s) = tenant" "bt_get keys' r = Some (destroyed at s)"
  using assms by (auto simp: key_destroy_def scoped_key_def result_simps bt_get_update split: sum.splits if_splits option.splits)

text \<open>No operation touches a destroyed key any more: its destruction time is final.\<close>

lemma destroyed_key_is_final:
  assumes inv: "ring_inv C keys" and "(key_step C)\<^sup>*\<^sup>* keys keys'" and "bt_get keys r = Some s"
    and gone: "km_status (sk_metadata s) = KeyDestroyed"
  shows "bt_get keys' r = Some s"
  using assms(2,3)
proof (induction rule: rtranclp_induct)
  case (step k1 k2)
  then have k1: "bt_get k1 r = Some s" by blast
  obtain op where op: "op_ok op" "key_exec C op k1 = (k2, snd (key_exec C op k1))"
    using step(2) by (auto simp: key_step_def)
  have inv1: "ring_inv C k1" using step(1) inv by (auto intro: ring.invar_run)
  show ?case
  proof (cases op)
    case (KCreate drawn draws request)
    with op have "key_create C drawn draws request k1 = (k2, snd (key_exec C op k1))"
      and "pred_option (\<lambda>bs. length bs = 32) drawn" by simp_all
    then show ?thesis by (cases rule: key_create_cases) (use k1 in \<open>auto simp: bt_get_insert\<close>)
  next
    case (KRotate drawn draws ref tenant at)
    with op have "key_rotate C drawn draws ref tenant at k1 = (k2, snd (key_exec C op k1))"
      and "pred_option (\<lambda>bs. length bs = 32) drawn" by simp_all
    from this inv1 show ?thesis
      by (cases rule: key_rotate_cases) (use k1 gone in \<open>auto simp: bt_get_insert bt_get_update\<close>)
  next
    case (KDestroy ref tenant at)
    with op have "key_destroy ref tenant at k1 = (k2, snd (key_exec C op k1))" by simp
    then show ?thesis by (cases rule: key_destroy_cases) (use k1 gone in \<open>auto simp: bt_get_update\<close>)
  qed
qed simp

lemma verify_deactivated:
  assumes "key_sign C keys request = Inr env" "fits_request request e" "bt_get keys' (sr_key_ref request) = Some s"
    and "km_tenant (sk_metadata s) = sr_tenant request" "km_deactivated_at (sk_metadata s) = Some t" "t \<le> sr_signed_at request"
  shows "key_verify C keys' env e = Inl KeyInactive"
  using assms(1)
  by (rule key_sign_InrD) (use assms(2-) in \<open>auto simp: key_verify_def scoped_key_def fits_request_def split: option.splits\<close>)

lemma example_destroys:
  "\<exists>m. key_destroy example_ref ''t'' 6 (example_ring Signing (Suc (Suc 0))) = (example_ring Signing (Suc (Suc (Suc 0))), Inr m)"
proof -
  have "\<exists>m. snd (key_destroy example_ref ''t'' 6 (example_ring Signing (Suc (Suc 0)))) = Inr m"
    by (simp add: key_destroy_def scoped_key_def example_ring_get result_simps) (simp add: example_key_def)
  moreover have "fst (key_destroy example_ref ''t'' 6 (example_ring Signing (Suc (Suc 0)))) = example_ring Signing (Suc (Suc (Suc 0)))"
    by (simp add: example_rings example_destroy)
  ultimately show ?thesis by (metis prod.collapse)
qed

text \<open>
  (C40) The time of destruction overwrites the time of retirement, for every ring and every run: take a
  request signed by a reachable ring, any later state of that ring, a successful destruction of the
  signing key there at the time \<open>at\<close>, and any state after that. Before the destruction a matching
  expectation inside the validity window verifies exactly when the signature is dated before the key's
  deactivation time, if it has one; after the destruction, for ever, exactly when it is dated before
  \<open>at\<close>. So a signature dated after the rotation and before \<open>at\<close> is refused with \<open>KeyInactive\<close> while the
  key is retired and accepted again once the key is destroyed, although destruction is documented to
  disable the key permanently. Signatures follow the round-trip law of Ed25519.
\<close>

theorem destruction_reopens_verification:
  assumes "ed25519_ok C" and "reach key_init (key_step C) keys" and "key_sign C keys request = Inr env"
    and "(key_step C)\<^sup>*\<^sup>* keys keys'" and "bt_get keys' (sr_key_ref request) = Some s"
    and "key_destroy (sr_key_ref request) tenant at keys' = (keys'', Inr m)" and "(key_step C)\<^sup>*\<^sup>* keys'' later"
  shows "(key_verify C keys' env e = Inr () \<longleftrightarrow>
      fits_request request e \<and> (\<forall>t. km_deactivated_at (sk_metadata s) = Some t \<longrightarrow> sr_signed_at request < t)) \<and>
    (key_verify C later env e = Inr () \<longleftrightarrow> fits_request request e \<and> sr_signed_at request < at) \<and>
    (\<forall>t. fits_request request e \<and> km_deactivated_at (sk_metadata s) = Some t \<and> t \<le> sr_signed_at request \<and> sr_signed_at request < at \<longrightarrow>
      key_verify C keys' env e = Inl KeyInactive \<and> key_verify C later env e = Inr ())"
proof -
  note iff = signed_verify_iff [OF assms(1) key_ringI [OF assms(2)] assms(3)]
  have step: "key_step C keys' keys''"
    using assms(6) by (auto simp: key_step_def intro!: exI [of _ "KDestroy (sr_key_ref request) tenant at"])
  have run: "(key_step C)\<^sup>*\<^sup>* keys keys''" using assms(4) step by (rule rtranclp.rtrancl_into_rtrancl)
  from assms(6) obtain s' where "bt_get keys' (sr_key_ref request) = Some s'" "bt_get keys'' (sr_key_ref request) = Some (destroyed at s')"
    by (rule key_destroy_InrD)
  then have after: "key_verify C later env e = Inr () \<longleftrightarrow> fits_request request e \<and> sr_signed_at request < at"
    using iff [OF rtranclp_trans [OF run assms(7)], of e]
      destroyed_key_is_final [OF ring.invar_run [OF run key_ringI [OF assms(2)]] assms(7)]
    by (auto simp: fits_request_def destroyed_def)
  have before: "key_verify C keys' env e = Inr () \<longleftrightarrow>
      fits_request request e \<and> (\<forall>t. km_deactivated_at (sk_metadata s) = Some t \<longrightarrow> sr_signed_at request < t)"
    using iff [OF assms(4), of e] assms(5) by (auto simp: fits_request_def)
  have "km_tenant (sk_metadata s) = sr_tenant request"
  proof -
    from assms(3) obtain s0 where "bt_get keys (sr_key_ref request) = Some s0" "km_tenant (sk_metadata s0) = sr_tenant request"
      by (rule key_sign_InrD)
    with key_run_evolves [OF key_ringI [OF assms(2)] assms(4)] assms(5) show ?thesis by (fastforce dest: evolves_fields(1))
  qed
  with before after show ?thesis using verify_deactivated [OF assms(3) _ assms(5)] by blast
qed

theorem destruction_reopens_verification_witness:
  "\<exists>env. key_sign example_crypto (example_ring Signing (Suc 0)) example_request = Inr env \<and>
     key_verify example_crypto (example_ring Signing (Suc (Suc 0))) env example_expectation = Inl KeyInactive \<and>
     key_verify example_crypto (example_ring Signing (Suc (Suc (Suc 0)))) env example_expectation = Inr ()"
proof -
  obtain env where env: "key_sign example_crypto (example_ring Signing (Suc 0)) example_request = Inr env"
    using example_signs by blast
  obtain m where gone: "key_destroy example_ref ''t'' 6 (example_ring Signing (Suc (Suc 0))) =
      (example_ring Signing (Suc (Suc (Suc 0))), Inr m)"
    using example_destroys by blast
  have shape: "sr_key_ref example_request = example_ref" "sr_signed_at example_request = 5"
      "fits_request example_request example_expectation" by (simp_all add: fits_request_def example_defs)
  have "km_deactivated_at (sk_metadata (example_key Signing (Some 3) KeyRetired)) = Some 3" by (simp add: example_key_def)
  with destruction_reopens_verification [OF example_crypto_ok(1) key_example_reach env
      key_example_run [of "Suc 0" "Suc (Suc 0)"], of "example_key Signing (Some 3) KeyRetired" "''t''" 6 _ m "example_ring Signing (Suc (Suc (Suc 0)))" example_expectation]
    env gone shape
  show ?thesis by (auto simp: example_ring_get)
qed

subsection \<open>Providers that only serve\<close>

text \<open>
  \<open>ImmutableKeyProvider\<close> refuses every lifecycle operation and passes the others through: the ring
  never changes.
\<close>

definition immutable_exec :: "key_op \<Rightarrow> key_ring \<Rightarrow> key_ring \<times> (crypto_error, key_metadata) result" where
  "immutable_exec op keys = (keys, Inl ScopeDenied)"

text \<open>
  The part of \<open>KeyProvider\<close> other components call through the trait object: signing and verification.
\<close>

record key_provider =
  kp_sign :: "signature_request \<Rightarrow> (crypto_error, signature_envelope) result"
  kp_verify :: "signature_envelope \<Rightarrow> signature_verification \<Rightarrow> (crypto_error, unit) result"

definition memory_provider :: "crypto_primitives \<Rightarrow> key_ring \<Rightarrow> key_provider" where
  "memory_provider C keys = \<lparr>kp_sign = key_sign C keys, kp_verify = key_verify C keys\<rparr>"

text \<open>
  The contract its clients rely on: what a verified envelope is bound to, and that an envelope just
  signed verifies for the request it was signed for.
\<close>

locale signing_contract =
  fixes provider :: "'p \<Rightarrow> key_provider" and sound :: "'p \<Rightarrow> bool"
  assumes verify_binds: "kp_verify (provider p) env e = Inr () \<Longrightarrow>
      se_signer env = sv_signer e \<and> se_purpose env = sv_purpose e \<and> se_payload_digest env = sv_payload_digest e \<and>
      se_signed_at env \<le> sv_now e \<and> (\<forall>x. se_expires_at env = Some x \<longrightarrow> sv_now e < x)"
    and sign_verifies: "sound p \<Longrightarrow> kp_sign (provider p) request = Inr env \<Longrightarrow>
      sv_tenant e = sr_tenant request \<Longrightarrow> sv_signer e = sr_signer request \<Longrightarrow> sv_purpose e = sr_purpose request \<Longrightarrow>
      sv_payload_digest e = sr_payload_digest request \<Longrightarrow> sr_signed_at request \<le> sv_now e \<Longrightarrow>
      (\<And>x. sr_expires_at request = Some x \<Longrightarrow> sv_now e < x) \<Longrightarrow> kp_verify (provider p) env e = Inr ()"

interpretation memory: signing_contract "\<lambda>(C, keys). memory_provider C keys" "\<lambda>(C, keys). ed25519_ok C \<and> ring_inv C keys"
proof (unfold_locales, goal_cases)
  case (1 p env e)
  then show ?case by (auto simp: memory_provider_def key_verify_iff split: prod.splits)
next
  case (2 p request env e)
  obtain C keys where p: "p = (C, keys)" by (cases p)
  then have "key_sign C keys request = Inr env" using 2(2) by (simp add: memory_provider_def)
  moreover have "sr_signed_at request < t" if "bt_get keys (sr_key_ref request) = Some s"
    "km_deactivated_at (sk_metadata s) = Some t" for s t
    using calculation by (rule key_sign_InrD) (use that in \<open>simp add: require_usable_iff\<close>)
  ultimately show ?case
    using 2 p signed_verify_iff [of C keys request env keys e] by (auto simp: memory_provider_def)
qed

end
