(* ===== verification/Capability_Authority.thy ===== *)
theory Capability_Authority
  imports Key_Provider Protocol_Coordination Policy_Rules
begin

text \<open>
  Signed capability grants and delegation chains, \<open>cigar-policy/src/capability.rs\<close>: signing a grant
  under its issuer, verifying one grant, and verifying an attenuation chain through its root. The key
  provider is reached through the trait object (\<open>key_provider\<close> of \<open>Key_Provider\<close>). The JSON
  serialisation of a grant by \<open>serde_json\<close>, read back by the strict parser, and SHA-256 are the fields of
  \<open>grant_codec\<close>.
\<close>

record grant_codec =
  gc_node :: "capability_grant \<Rightarrow> canonical_node option"
  gc_sha256 :: "string \<Rightarrow> string"

record signed_capability_grant =
  sg_grant :: capability_grant
  sg_signature :: signature_envelope

record effective_capabilities =
  ef_tenant :: string
  ef_subject_id :: record_id
  ef_grant_id :: record_id
  ef_capabilities :: "capability fset"
  ef_project_ids :: "record_id fset"
  ef_processors :: "string fset"
  ef_expires_at :: timestamp

definition CAPABILITY_SIGNATURE_PURPOSE :: string where
  "CAPABILITY_SIGNATURE_PURPOSE = ''cigar.capability-grant.v1''"

definition grant_digest :: "grant_codec \<Rightarrow> capability_grant \<Rightarrow> (policy_error, string) result" where
  "grant_digest D grant =
     rbind (ok_or (gc_node D grant) PInvalidCapability) (\<lambda>node.
     rbind (map_err (\<lambda>_. PInvalidCapability) (to_deterministic_cbor node)) (\<lambda>cbor.
       Inr (gc_sha256 D (''CIGAR-CAPABILITY-GRANT'' @ [CHR 0x00] @ ''v1'' @ [CHR 0x00] @ cbor))))"

definition map_crypto_error :: "crypto_error \<Rightarrow> policy_error" where
  "map_crypto_error error = (if error = ProviderUnavailable then PUnavailable else PInvalidCapability)"

definition sign_grant ::
    "grant_codec \<Rightarrow> key_provider \<Rightarrow> capability_grant \<Rightarrow> string \<Rightarrow> string \<Rightarrow> timestamp
      \<Rightarrow> (policy_error, signed_capability_grant) result" where
  "sign_grant D P grant key_ref tenant signed_at =
     rbind (map_err (\<lambda>_. PInvalidCapability) (grant_validate grant)) (\<lambda>_.
     rbind (grant_digest D grant) (\<lambda>payload_digest.
     rbind (map_err map_crypto_error (kp_sign P
         \<lparr>sr_key_ref = key_ref, sr_tenant = tenant, sr_signer = gr_issuer_id grant,
          sr_purpose = CAPABILITY_SIGNATURE_PURPOSE, sr_payload_digest = payload_digest,
          sr_signed_at = signed_at, sr_expires_at = Some (gr_expires_at grant)\<rparr>)) (\<lambda>signature.
       Inr \<lparr>sg_grant = grant, sg_signature = signature\<rparr>)))"

definition verify_signed ::
    "grant_codec \<Rightarrow> key_provider \<Rightarrow> signed_capability_grant \<Rightarrow> string \<Rightarrow> timestamp \<Rightarrow> record_id fset
      \<Rightarrow> (policy_error, unit) result" where
  "verify_signed D P signed_grant tenant now revoked_grants =
     (let grant = sg_grant signed_grant
      in rbind (map_err (\<lambda>_. PInvalidCapability) (grant_validate grant)) (\<lambda>_.
         if now < gr_not_before grant \<or> now \<ge> gr_expires_at grant \<or> gr_grant_id grant |\<in>| revoked_grants
         then Inl (if gr_grant_id grant |\<in>| revoked_grants then PRevoked else PInvalidCapability)
         else rbind (grant_digest D grant) (\<lambda>payload_digest.
           map_err map_crypto_error (kp_verify P (sg_signature signed_grant)
             \<lparr>sv_tenant = tenant, sv_signer = gr_issuer_id grant, sv_purpose = CAPABILITY_SIGNATURE_PURPOSE,
              sv_payload_digest = payload_digest, sv_now = now\<rparr>))))"

text \<open>The loop over the ancestors; it returns the root it ends on.\<close>

fun verify_ancestors ::
    "grant_codec \<Rightarrow> key_provider \<Rightarrow> string \<Rightarrow> timestamp \<Rightarrow> record_id fset \<Rightarrow> capability_grant
      \<Rightarrow> signed_capability_grant list \<Rightarrow> (policy_error, capability_grant) result" where
  "verify_ancestors D P tenant now revoked_grants child [] = Inr child"
| "verify_ancestors D P tenant now revoked_grants child (parent # ancestors) =
     (if gr_parent_grant_id child \<noteq> Some (gr_grant_id (sg_grant parent))
         \<or> gr_issuer_id child \<noteq> gr_subject_id (sg_grant parent)
      then Inl PInvalidCapability
      else rbind (verify_signed D P parent tenant now revoked_grants) (\<lambda>_.
           rbind (map_err (\<lambda>_. PInvalidCapability) (validate_attenuation_of child (sg_grant parent))) (\<lambda>_.
             verify_ancestors D P tenant now revoked_grants (sg_grant parent) ancestors)))"

definition verify_chain ::
    "grant_codec \<Rightarrow> key_provider \<Rightarrow> signed_capability_grant \<Rightarrow> string \<Rightarrow> record_id \<Rightarrow> timestamp \<Rightarrow> record_id fset
      \<Rightarrow> signed_capability_grant list \<Rightarrow> (policy_error, effective_capabilities) result" where
  "verify_chain D P signed_grant tenant expected_subject now revoked_grants ancestors =
     (if gr_subject_id (sg_grant signed_grant) \<noteq> expected_subject then Inl PInvalidCapability
      else rbind (verify_signed D P signed_grant tenant now revoked_grants) (\<lambda>_.
           rbind (verify_ancestors D P tenant now revoked_grants (sg_grant signed_grant) ancestors) (\<lambda>root.
             if gr_parent_grant_id root \<noteq> None then Inl PInvalidCapability
             else Inr \<lparr>ef_tenant = tenant, ef_subject_id = gr_subject_id (sg_grant signed_grant),
                    ef_grant_id = gr_grant_id (sg_grant signed_grant),
                    ef_capabilities = fset_of_list (gr_capabilities (sg_grant signed_grant)),
                    ef_project_ids = fset_of_list (gr_project_ids (sg_grant signed_grant)),
                    ef_processors = fset_of_list (gr_processors (sg_grant signed_grant)),
                    ef_expires_at = gr_expires_at (sg_grant signed_grant)\<rparr>)))"

definition verify_grant ::
    "grant_codec \<Rightarrow> key_provider \<Rightarrow> signed_capability_grant \<Rightarrow> string \<Rightarrow> record_id \<Rightarrow> timestamp \<Rightarrow> record_id fset
      \<Rightarrow> signed_capability_grant option \<Rightarrow> (policy_error, effective_capabilities) result" where
  "verify_grant D P signed_grant tenant expected_subject now revoked_grants parent =
     (case parent of
        Some p \<Rightarrow> verify_chain D P signed_grant tenant expected_subject now revoked_grants [p]
      | None \<Rightarrow> verify_chain D P signed_grant tenant expected_subject now revoked_grants [])"

definition authority_validate_attenuation ::
    "capability_grant \<Rightarrow> capability_grant \<Rightarrow> (policy_error, unit) result" where
  "authority_validate_attenuation child parent =
     map_err (\<lambda>_. PInvalidCapability) (rbind (grant_validate child) (\<lambda>_. validate_attenuation_of child parent))"

subsection \<open>What a verified chain is\<close>

definition alive :: "timestamp \<Rightarrow> record_id fset \<Rightarrow> capability_grant \<Rightarrow> bool" where
  "alive now revoked_grants g \<longleftrightarrow> grant_checked g \<and> gr_not_before g \<le> now \<and> now < gr_expires_at g \<and>
     gr_grant_id g |\<notin>| revoked_grants"

definition grant_expectation ::
    "grant_codec \<Rightarrow> string \<Rightarrow> timestamp \<Rightarrow> capability_grant \<Rightarrow> string \<Rightarrow> signature_verification" where
  "grant_expectation D tenant now g digest =
     \<lparr>sv_tenant = tenant, sv_signer = gr_issuer_id g, sv_purpose = CAPABILITY_SIGNATURE_PURPOSE,
      sv_payload_digest = digest, sv_now = now\<rparr>"

definition signed_ok ::
    "grant_codec \<Rightarrow> key_provider \<Rightarrow> string \<Rightarrow> timestamp \<Rightarrow> record_id fset \<Rightarrow> signed_capability_grant \<Rightarrow> bool" where
  "signed_ok D P tenant now revoked_grants sg \<longleftrightarrow> alive now revoked_grants (sg_grant sg) \<and>
     (\<exists>digest. grant_digest D (sg_grant sg) = Inr digest \<and>
        kp_verify P (sg_signature sg) (grant_expectation D tenant now (sg_grant sg) digest) = Inr ())"

lemma grant_validate_iff: "grant_validate g = Inr () \<longleftrightarrow> grant_checked g"
  unfolding grant_validate_def grant.accepts_iff ..

lemma verify_signed_iff:
  "verify_signed D P sg tenant now revoked_grants = Inr () \<longleftrightarrow> signed_ok D P tenant now revoked_grants sg"
  by (cases "grant_digest D (sg_grant sg)")
     (auto simp: verify_signed_def signed_ok_def alive_def grant_expectation_def Let_def result_simps
       grant_validate_iff)

lemma verify_ancestors_iff:
  "verify_ancestors D P tenant now revoked_grants child ancestors = Inr root \<longleftrightarrow>
     (\<forall>sg \<in> set ancestors. signed_ok D P tenant now revoked_grants sg) \<and>
     successively (\<lambda>c p. validate_attenuation_of c p = Inr ()) (child # map sg_grant ancestors) \<and>
     root = last (child # map sg_grant ancestors)"
proof (induction ancestors arbitrary: child)
  case (Cons parent ancestors)
  have "validate_attenuation_of child (sg_grant parent) = Inr () \<Longrightarrow>
      gr_parent_grant_id child = Some (gr_grant_id (sg_grant parent)) \<and> gr_issuer_id child = gr_subject_id (sg_grant parent)"
    using validate_attenuation_of_sound [of child "sg_grant parent"] by (simp add: attenuates_def)
  then show ?case
    by (auto simp: Cons.IH result_simps verify_signed_iff)
qed auto

text \<open>What a grant may do, compared with a grant above it in the chain.\<close>

definition narrower :: "capability_grant \<Rightarrow> capability_grant \<Rightarrow> bool" where
  "narrower c p \<longleftrightarrow> set (gr_capabilities c) \<subseteq> set (gr_capabilities p) \<and>
     set (gr_project_ids c) \<subseteq> set (gr_project_ids p) \<and> set (gr_processors c) \<subseteq> set (gr_processors p) \<and>
     gr_not_before p \<le> gr_not_before c \<and> gr_expires_at c \<le> gr_expires_at p \<and>
     gr_delegation_depth c < gr_delegation_depth p"

lemma narrower_trans: "narrower a b \<Longrightarrow> narrower b c \<Longrightarrow> narrower a c"
  unfolding narrower_def by (meson order_trans less_trans)

lemma chain_narrows:
  assumes "successively (\<lambda>c p. validate_attenuation_of c p = Inr ()) gs"
  shows "sorted_wrt narrower gs"
proof -
  have "narrower c p" if "validate_attenuation_of c p = Inr ()" for c p
    using validate_attenuation_of_sound [OF that] by (simp add: attenuates_def narrower_def)
  then have "successively narrower gs" using successively_mono [OF assms] by blast
  then show ?thesis using narrower_trans by (simp add: successively_conv_sorted_wrt transp_def)
qed

lemma chain_length:
  assumes "sorted_wrt narrower gs"
  shows "length gs \<le> 256"
proof -
  have "sorted_wrt (<) (map gr_delegation_depth gs)"
    using assms by (simp add: sorted_wrt_map) (rule sorted_wrt_mono_rel, auto simp: narrower_def)
  then have "distinct (map gr_delegation_depth gs)" by (simp add: strict_sorted_iff)
  then have "length gs = card (set (map gr_delegation_depth gs))" by (metis distinct_card length_map)
  also have "\<dots> \<le> card (UNIV :: 8 word set)" by (rule card_mono) simp_all
  also have "\<dots> = 256" by (simp add: card_word)
  finally show ?thesis .
qed

text \<open>The chain verifier characterised: every grant is signed and alive, every link attenuates, the last has no parent.\<close>

lemma verify_chain_iff:
  "verify_chain D P sg tenant subject now revoked_grants ancestors = Inr eff \<longleftrightarrow>
     gr_subject_id (sg_grant sg) = subject \<and>
     (\<forall>x \<in> set (sg # ancestors). signed_ok D P tenant now revoked_grants x) \<and>
     successively (\<lambda>c p. validate_attenuation_of c p = Inr ()) (map sg_grant (sg # ancestors)) \<and>
     gr_parent_grant_id (sg_grant (last (sg # ancestors))) = None \<and>
     eff = \<lparr>ef_tenant = tenant, ef_subject_id = subject, ef_grant_id = gr_grant_id (sg_grant sg),
       ef_capabilities = fset_of_list (gr_capabilities (sg_grant sg)),
       ef_project_ids = fset_of_list (gr_project_ids (sg_grant sg)),
       ef_processors = fset_of_list (gr_processors (sg_grant sg)), ef_expires_at = gr_expires_at (sg_grant sg)\<rparr>"
proof -
  have last: "last (sg_grant sg # map sg_grant ancestors) = sg_grant (last (sg # ancestors))"
    using last_map [of "sg # ancestors" sg_grant] by simp
  show ?thesis
    unfolding verify_chain_def
    by (auto simp: result_simps verify_signed_iff verify_ancestors_iff last simp del: last.simps
        split: if_splits)
qed

text \<open>
  (C33) Delegation never amplifies authority: when a chain of signed grants is accepted, the effective
  capabilities, projects, processors and expiry are within those of every grant above it, each grant
  of the chain is inside its validity interval, not revoked and signed by its own issuer for this
  tenant, the topmost one has no parent, and the chain has at most 255 links.
\<close>

theorem delegation_never_amplifies:
  assumes "verify_chain D P sg tenant subject now revoked_grants ancestors = Inr eff"
  shows "(\<forall>x \<in> set (sg # ancestors).
       ef_capabilities eff |\<subseteq>| fset_of_list (gr_capabilities (sg_grant x)) \<and>
       ef_project_ids eff |\<subseteq>| fset_of_list (gr_project_ids (sg_grant x)) \<and>
       ef_processors eff |\<subseteq>| fset_of_list (gr_processors (sg_grant x)) \<and>
       now < ef_expires_at eff \<and> ef_expires_at eff \<le> gr_expires_at (sg_grant x) \<and>
       gr_not_before (sg_grant x) \<le> now \<and> gr_grant_id (sg_grant x) |\<notin>| revoked_grants \<and>
       (\<exists>digest. grant_digest D (sg_grant x) = Inr digest \<and>
          kp_verify P (sg_signature x) (grant_expectation D tenant now (sg_grant x) digest) = Inr ())) \<and>
     gr_parent_grant_id (sg_grant (last (sg # ancestors))) = None \<and> length ancestors \<le> 255"
proof -
  note chain = assms [unfolded verify_chain_iff]
  then have narrow: "sorted_wrt narrower (map sg_grant (sg # ancestors))" by (blast intro: chain_narrows)
  then have "length ancestors \<le> 255" using chain_length by fastforce
  moreover have "x = sg \<or> narrower (sg_grant sg) (sg_grant x)" if "x \<in> set (sg # ancestors)" for x
    using narrow that by auto
  ultimately show ?thesis
    using chain by (auto simp: signed_ok_def alive_def narrower_def less_eq_fset.rep_eq fset_of_list.rep_eq; blast)
qed

text \<open>Signing through the in-memory provider gives a grant that passes verification while it is alive.\<close>

lemma sign_grant_ok:
  assumes "ed25519_ok C" and "ring_inv C keys"
    and "sign_grant D (memory_provider C keys) g key_ref tenant signed_at = Inr sg" and "signed_at \<le> now"
  shows "sg_grant sg = g \<and> grant_checked g \<and>
    (alive now revoked_grants g \<longrightarrow> signed_ok D (memory_provider C keys) tenant now revoked_grants sg)"
proof -
  let ?r = "\<lambda>digest. \<lparr>sr_key_ref = key_ref, sr_tenant = tenant, sr_signer = gr_issuer_id g,
    sr_purpose = CAPABILITY_SIGNATURE_PURPOSE, sr_payload_digest = digest, sr_signed_at = signed_at,
    sr_expires_at = Some (gr_expires_at g)\<rparr>"
  obtain digest signature where sign: "grant_checked g" "grant_digest D g = Inr digest"
    "key_sign C keys (?r digest) = Inr signature" "sg = \<lparr>sg_grant = g, sg_signature = signature\<rparr>"
    using assms(3) by (auto simp: sign_grant_def result_simps grant_validate_iff memory_provider_def)
  have ok: "(case (C, keys) of (C, keys) \<Rightarrow> ed25519_ok C \<and> ring_inv C keys)"
    using assms(1,2) by simp
  have "kp_verify (memory_provider C keys) signature (grant_expectation D tenant now g digest) = Inr ()"
    if "now < gr_expires_at g"
    using memory.sign_verifies [OF ok, of "?r digest" signature "grant_expectation D tenant now g digest"] sign(3) assms(4) that
    by (simp add: memory_provider_def grant_expectation_def)
  then show ?thesis using sign by (auto simp: signed_ok_def alive_def)
qed

text \<open>
  A grant can be used as soon as it is issued: a root grant signed through the in-memory provider
  is accepted for its subject, with exactly the authority it states, at every time from its signing on
  inside its validity interval, unless it has been revoked.
\<close>

theorem issued_grant_verifies:
  assumes "ed25519_ok C" and "reach key_init (key_step C) keys"
    and "sign_grant D (memory_provider C keys) g key_ref tenant signed_at = Inr sg"
    and "gr_parent_grant_id g = None" and "signed_at \<le> now" and "gr_not_before g \<le> now" and "now < gr_expires_at g"
  shows "verify_grant D (memory_provider C keys) sg tenant (gr_subject_id g) now revoked_grants None =
     (if gr_grant_id g |\<in>| revoked_grants then Inl PRevoked
      else Inr \<lparr>ef_tenant = tenant, ef_subject_id = gr_subject_id g, ef_grant_id = gr_grant_id g,
        ef_capabilities = fset_of_list (gr_capabilities g), ef_project_ids = fset_of_list (gr_project_ids g),
        ef_processors = fset_of_list (gr_processors g), ef_expires_at = gr_expires_at g\<rparr>)"
proof -
  note ok = sign_grant_ok [OF assms(1) key_ringI [OF assms(2)] assms(3,5)]
  show ?thesis
  proof (cases "gr_grant_id g |\<in>| revoked_grants")
    case True
    then show ?thesis
      using ok [of revoked_grants] grant_validate_iff [of g] by (simp add: verify_grant_def verify_chain_def verify_signed_def)
  next
    case False
    then have "alive now revoked_grants g" using ok assms(6,7) by (simp add: alive_def)
    then show ?thesis
      using ok [of revoked_grants] assms(4) False by (simp add: verify_grant_def verify_chain_iff)
  qed
qed

subsection \<open>A worked example\<close>

definition example_codec :: grant_codec where
  "example_codec = \<lparr>gc_node = (\<lambda>g. Some (CText (gr_grant_id g))), gc_sha256 = (\<lambda>_. replicate 32 (CHR ''d''))\<rparr>"

abbreviation example_provider :: key_provider where
  "example_provider \<equiv> memory_provider example_crypto (example_ring Signing (Suc 0))"

lemma example_grant_signs:
  assumes "g \<in> {example_root_grant, example_child_grant}"
  shows "\<exists>sg. sign_grant example_codec example_provider g example_ref ''t'' 1 = Inr sg"
proof -
  have "grant_validate g = Inr ()" using assms example_grants_checked by (auto simp: grant_validate_iff)
  moreover have "grant_digest example_codec g = Inr (replicate 32 (CHR ''d''))"
    using assms
    by (auto simp: grant_digest_def example_codec_def example_grant_defs to_deterministic_cbor_eq limited_def
        canonical_limits cbor_head_def)
  moreover have "\<exists>env. key_sign example_crypto (example_ring Signing (Suc 0))
     \<lparr>sr_key_ref = example_ref, sr_tenant = ''t'', sr_signer = gr_issuer_id g,
      sr_purpose = CAPABILITY_SIGNATURE_PURPOSE, sr_payload_digest = replicate 32 (CHR ''d''),
      sr_signed_at = 1, sr_expires_at = Some (gr_expires_at g)\<rparr> = Inr env"
    using assms
    by (intro key_sign_defined [where s = "example_key Signing None KeyActive"])
       (auto simp: example_grant_defs example_ring_get example_key_def validate_scope_def MAX_SCOPE_BYTES_def
         byte_defs require_usable_def time_ok_def CAPABILITY_SIGNATURE_PURPOSE_def, simp_all add: example_ref_def)
  ultimately show ?thesis by (auto simp: sign_grant_def memory_provider_def)
qed

lemma example_alive: "alive 2 {||} example_root_grant" "alive 2 {||} example_child_grant"
  using example_grants_checked by (simp_all add: alive_def) (simp_all add: example_grant_defs)

theorem issued_grant_verifies_witness:
  "\<exists>sg. sign_grant example_codec example_provider example_root_grant example_ref ''t'' 1 = Inr sg \<and>
     is_ok (verify_grant example_codec example_provider sg ''t'' ''p1'' 2 {||} None) \<and>
     verify_grant example_codec example_provider sg ''t'' ''p1'' 2 {|''g0''|} None = Inl PRevoked"
proof -
  obtain sg where sg: "sign_grant example_codec example_provider example_root_grant example_ref ''t'' 1 = Inr sg"
    using example_grant_signs by blast
  show ?thesis
    using issued_grant_verifies [OF example_crypto_ok(1) key_example_reach sg, of 2 "{||}"]
      issued_grant_verifies [OF example_crypto_ok(1) key_example_reach sg, of 2 "{|''g0''|}"] sg
    by (auto simp: example_root_grant_def)
qed

theorem delegation_never_amplifies_witness:
  "\<exists>child parent eff. verify_chain example_codec example_provider child ''t'' ''p2'' 2 {||} [parent] = Inr eff \<and>
     ef_capabilities eff = {|ReadContext|} \<and> ef_capabilities eff |\<subseteq>| fset_of_list (gr_capabilities (sg_grant parent))"
proof -
  obtain c p where sign: "sign_grant example_codec example_provider example_child_grant example_ref ''t'' 1 = Inr c"
    "sign_grant example_codec example_provider example_root_grant example_ref ''t'' 1 = Inr p"
    using example_grant_signs by blast
  note ok = sign_grant_ok [OF example_crypto_ok(1) key_ringI [OF key_example_reach], where now = 2 and revoked_grants = "{||}"]
  have link: "validate_attenuation_of example_child_grant example_root_grant = Inr ()"
    by (simp add: validate_attenuation_of_iff example_grant_defs is_subset_iff capability_order)
  obtain eff where eff: "verify_chain example_codec example_provider c ''t'' ''p2'' 2 {||} [p] = Inr eff"
    "ef_capabilities eff = {|ReadContext|}"
    using ok [OF sign(1)] ok [OF sign(2)] example_alive link
    by (simp add: verify_chain_iff) (simp add: example_grant_defs)
  have "ef_capabilities eff |\<subseteq>| fset_of_list (gr_capabilities (sg_grant p))"
    using delegation_never_amplifies [OF eff(1)] by simp
  with eff show ?thesis by blast
qed

text \<open>
  A signature covers one grant only: if the serialisation of grants and the hash do not collide, an
  envelope accepted for two grants was accepted for the same grant.
\<close>

lemma signature_covers_one_grant:
  assumes "inj (gc_sha256 D)" and "\<And>g h n. gc_node D g = Some n \<Longrightarrow> gc_node D h = Some n \<Longrightarrow> g = h"
    and "\<And>g n. gc_node D g = Some n \<Longrightarrow> node_wf n"
    and "signed_ok D (memory_provider C keys) tenant now revoked_grants \<lparr>sg_grant = g, sg_signature = env\<rparr>"
    and "signed_ok D (memory_provider C keys) tenant' now' revoked' \<lparr>sg_grant = h, sg_signature = env\<rparr>"
  shows "g = h"
proof -
  obtain d d' where d: "grant_digest D g = Inr d" "grant_digest D h = Inr d'"
    "kp_verify (memory_provider C keys) env (grant_expectation D tenant now g d) = Inr ()"
    "kp_verify (memory_provider C keys) env (grant_expectation D tenant' now' h d') = Inr ()"
    using assms(4,5) by (auto simp: signed_ok_def)
  have "d = d'"
    using memory.verify_binds [of "(C, keys)" env "grant_expectation D tenant now g d"]
      memory.verify_binds [of "(C, keys)" env "grant_expectation D tenant' now' h d'"] d(3,4)
    by (simp add: grant_expectation_def)
  then obtain n m c where n: "gc_node D g = Some n" "gc_node D h = Some m"
    "to_deterministic_cbor n = Inr c" "to_deterministic_cbor m = Inr c"
    using d(1,2) by (auto simp: grant_digest_def result_simps inj_eq [OF assms(1)])
  then have "n = m" using cbor_inject assms(3) by blast
  then show ?thesis using assms(2) n by simp
qed

text \<open>
  An empty processor list means opposite things on the two sides of the boundary: attenuation accepts it
  under any parent, as the smallest scope, while the policy gate does not restrict a capability whose
  processor set is empty.
\<close>

lemma empty_processors_attenuate:
  "validate_attenuation_of (example_child_grant\<lparr>gr_processors := []\<rparr>) example_root_grant = Inr ()"
  by (simp add: validate_attenuation_of_iff example_grant_defs is_subset_iff capability_order)

end
