(* ===== verification/Redaction.thy ===== *)
theory Redaction
  imports Canon_Cbor Policy_Digest "HOL-Library.Sublist"
begin

text \<open>
  Structural redaction, \<open>cigar-policy/src/redaction.rs\<close>: replacing the fields named by JSON pointers in a
  canonical value, refusing pointers that overlap a required field. Redaction is compared with lens
  operations on resolved locations (\<open>node_get\<close>, \<open>node_put\<close>). SHA-256 is a parameter.
\<close>

record redacted_value =
  rv_value :: canonical_node
  rv_derived_digest :: content_digest
  rv_source_digest :: content_digest
  rv_policy_digest :: content_digest
  rv_redacted_paths :: "string fset"

definition redacted_marker :: canonical_node where
  "redacted_marker = CText ''[REDACTED]''"

text \<open>\<open>strip_prefix\<close> followed by a test for a leading slash.\<close>

definition below :: "string \<Rightarrow> string \<Rightarrow> bool" where
  "below left right \<longleftrightarrow> prefix left right \<and> take 1 (drop (length left) right) = ''/''"

definition pointers_overlap :: "string \<Rightarrow> string \<Rightarrow> bool" where
  "pointers_overlap left right \<longleftrightarrow> left = right \<or> below left right \<or> below right left"

fun split_slash :: "string \<Rightarrow> string list" where
  "split_slash [] = [[]]"
| "split_slash (c # cs) =
     (if c = CHR ''/'' then [] # split_slash cs
      else case split_slash cs of [] \<Rightarrow> [[c]] | s # ss \<Rightarrow> (c # s) # ss)"

fun decode_segment :: "string \<Rightarrow> (policy_error, string) result" where
  "decode_segment [] = Inr []"
| "decode_segment (c # cs) =
     (if c = CHR ''~'' then
        (case cs of
           [] \<Rightarrow> Inl PInvalidInput
         | d # ds \<Rightarrow>
             if d = CHR ''0'' then rbind (decode_segment ds) (\<lambda>decoded. Inr (CHR ''~'' # decoded))
             else if d = CHR ''1'' then rbind (decode_segment ds) (\<lambda>decoded. Inr (CHR ''/'' # decoded))
             else Inl PInvalidInput)
      else rbind (decode_segment cs) (\<lambda>decoded. Inr (c # decoded)))"

fun decode_segments :: "string list \<Rightarrow> (policy_error, string list) result" where
  "decode_segments [] = Inr []"
| "decode_segments (s # ss) =
     rbind (decode_segment s) (\<lambda>decoded.
       if decoded = [] then Inl PInvalidInput
       else rbind (decode_segments ss) (\<lambda>rest. Inr (decoded # rest)))"

definition parse_pointer :: "string \<Rightarrow> (policy_error, string list) result" where
  "parse_pointer pointer =
     (if pointer = [] \<or> length pointer > MAX_POLICY_TEXT_BYTES \<or> take 1 pointer \<noteq> ''/''
         \<or> list_ex is_ascii_control pointer
      then Inl PInvalidInput
      else decode_segments (drop 1 (split_slash pointer)))"

text \<open>\<open>str::parse::<usize>\<close>.\<close>

definition parse_usize :: "string \<Rightarrow> nat option" where
  "parse_usize s =
     (let ds = (case s of c # r \<Rightarrow> if c = CHR ''+'' then r else s | [] \<Rightarrow> s)
      in if ds = [] \<or> \<not> list_all is_ascii_digit ds \<or> digits_value ds \<ge> 2 ^ 64 then None
         else Some (digits_value ds))"

fun redact_at :: "canonical_node \<Rightarrow> string list \<Rightarrow> (policy_error, canonical_node) result" where
  "redact_at v [] = Inl PInvalidInput"
| "redact_at (CMap kvs) (first # rest) =
     rbind (ok_or (bt_get kvs first) PInvalidInput) (\<lambda>child.
       if rest = [] then Inr (CMap (bt_update first (\<lambda>_. redacted_marker) kvs))
       else rbind (redact_at child rest) (\<lambda>child'. Inr (CMap (bt_update first (\<lambda>_. child') kvs))))"
| "redact_at (CArray values) (first # rest) =
     rbind (ok_or (parse_usize first) PInvalidInput) (\<lambda>index.
       if index \<ge> length values then Inl PInvalidInput
       else if rest = [] then Inr (CArray (values[index := redacted_marker]))
       else rbind (redact_at (values ! index) rest) (\<lambda>child'. Inr (CArray (values[index := child']))))"
| "redact_at _ (first # rest) = Inl PInvalidInput"

fun redact_all :: "canonical_node \<Rightarrow> string list \<Rightarrow> (policy_error, canonical_node) result" where
  "redact_all v [] = Inr v"
| "redact_all v (path # paths) =
     rbind (parse_pointer path) (\<lambda>segments.
     rbind (redact_at v segments) (\<lambda>v'. redact_all v' paths))"

definition redaction_digest ::
    "(string \<Rightarrow> string) \<Rightarrow> string \<Rightarrow> content_digest \<Rightarrow> content_digest \<Rightarrow> string fset \<Rightarrow> (policy_error, content_digest) result" where
  "redaction_digest sha256 canonical source policy paths =
     map_err (\<lambda>_. PInvalidInput)
       (content_digest_new (''1220'' @ hex (sha256
         (''CIGAR-REDACTION'' @ NUL @ ''v1'' @ NUL @ source @ policy @
          concat (map (\<lambda>path. path @ NUL) (sorted_list_of_fset paths)) @ canonical))))"

definition redact ::
    "(string \<Rightarrow> string) \<Rightarrow> canonical_node \<Rightarrow> string fset \<Rightarrow> string fset \<Rightarrow> content_digest \<Rightarrow> content_digest
      \<Rightarrow> (policy_error, redacted_value) result" where
  "redact sha256 v redaction_paths required_paths source_digest policy_digest =
     (if fcard redaction_paths > MAX_POLICY_SELECTORS \<or> fcard required_paths > MAX_POLICY_SELECTORS
      then Inl PLimitExceeded
      else if fBex redaction_paths (\<lambda>redacted. fBex required_paths (pointers_overlap redacted))
      then Inl PRequiredField
      else rbind (redact_all v (sorted_list_of_fset redaction_paths)) (\<lambda>out.
           rbind (map_err (\<lambda>_. PInvalidInput) (to_deterministic_cbor out)) (\<lambda>canonical.
           rbind (redaction_digest sha256 canonical source_digest policy_digest redaction_paths) (\<lambda>derived.
             Inr \<lparr>rv_value = out, rv_derived_digest = derived, rv_source_digest = source_digest,
               rv_policy_digest = policy_digest, rv_redacted_paths = redaction_paths\<rparr>))))"

subsection \<open>Locations\<close>

text \<open>
  A location inside a value: a field of a map or an element of an array at each step. A pointer's
  segments are resolved against a value to a location.
\<close>

datatype node_step = Field string | Item nat

fun node_get :: "canonical_node \<Rightarrow> node_step list \<Rightarrow> canonical_node option" where
  "node_get v [] = Some v"
| "node_get (CMap kvs) (Field k # l) = (case bt_get kvs k of None \<Rightarrow> None | Some c \<Rightarrow> node_get c l)"
| "node_get (CArray values) (Item i # l) = (if i < length values then node_get (values ! i) l else None)"
| "node_get _ (s # l) = None"

fun node_put :: "canonical_node \<Rightarrow> node_step list \<Rightarrow> canonical_node \<Rightarrow> canonical_node" where
  "node_put v [] x = x"
| "node_put (CMap kvs) (Field k # l) x =
     (case bt_get kvs k of None \<Rightarrow> CMap kvs | Some c \<Rightarrow> CMap (bt_update k (\<lambda>_. node_put c l x) kvs))"
| "node_put (CArray values) (Item i # l) x =
     (if i < length values then CArray (values[i := node_put (values ! i) l x]) else CArray values)"
| "node_put v (s # l) x = v"

fun locate :: "canonical_node \<Rightarrow> string list \<Rightarrow> node_step list option" where
  "locate v [] = Some []"
| "locate (CMap kvs) (first # rest) =
     (case bt_get kvs first of None \<Rightarrow> None | Some c \<Rightarrow> map_option ((#) (Field first)) (locate c rest))"
| "locate (CArray values) (first # rest) =
     (case parse_usize first of
        None \<Rightarrow> None
      | Some i \<Rightarrow> if i < length values then map_option ((#) (Item i)) (locate (values ! i) rest) else None)"
| "locate _ (first # rest) = None"

lemma locate_get: "locate v segs = Some l \<Longrightarrow> node_get v l \<noteq> None \<and> length l = length segs"
  by (induction v segs arbitrary: l rule: locate.induct) (auto split: option.splits if_splits)

text \<open>The laws of a lens, for locations that exist.\<close>

lemma get_put: "node_get v l \<noteq> None \<Longrightarrow> node_get (node_put v l x) (l @ m) = node_get x m"
  by (induction v l x rule: node_put.induct) (auto simp: bt_get_update split: option.splits if_splits)

lemma get_put_other:
  "\<not> prefix l m \<Longrightarrow> \<not> prefix m l \<Longrightarrow> node_get (node_put v l x) m = node_get v m"
proof (induction v l x arbitrary: m rule: node_put.induct)
  case (2 kvs k l x)
  then obtain s m' where m: "m = s # m'" by (cases m) auto
  with 2 show ?case by (cases s) (auto simp: bt_get_update split: option.splits)
next
  case (3 vs i l x)
  then obtain s m' where m: "m = s # m'" by (cases m) auto
  with 3 show ?case by (cases s) (auto simp: nth_list_update split: if_splits)
qed auto

lemma redact_at_iff:
  "redact_at v segs = Inr v' \<longleftrightarrow> (\<exists>l. segs \<noteq> [] \<and> locate v segs = Some l \<and> v' = node_put v l redacted_marker)"
proof (induction v segs arbitrary: v' rule: redact_at.induct)
  case (2 kvs first rest)
  then show ?case by (cases "bt_get kvs first") (auto simp: result_simps split: if_splits)
next
  case (3 vs first rest)
  then show ?case by (cases "parse_usize first") (auto simp: result_simps split: if_splits)
qed auto

text \<open>Redaction leaves a leaf behind, so whatever can be located afterwards could be located before.\<close>

lemma locate_put:
  "locate (node_put v l redacted_marker) segs = Some m \<Longrightarrow> node_get v l \<noteq> None \<Longrightarrow> locate v segs = Some m"
proof (induction v l redacted_marker arbitrary: segs m rule: node_put.induct)
  case (1 v)
  then show ?case by (cases segs) (simp_all add: redacted_marker_def)
next
  case (2 kvs k l)
  then show ?case
    by (cases segs) (auto simp: bt_get_update split: option.splits if_splits)
next
  case (3 vs i l)
  then show ?case
    by (cases segs) (auto simp: nth_list_update split: option.splits if_splits)
qed auto

text \<open>A location is covered when the marker stands at it or above it.\<close>

definition covered :: "canonical_node \<Rightarrow> node_step list \<Rightarrow> bool" where
  "covered v m \<longleftrightarrow> (\<exists>l. prefix l m \<and> node_get v l = Some redacted_marker)"

lemma node_get_append: "node_get v (l @ m) = Option.bind (node_get v l) (\<lambda>c. node_get c m)"
  by (induction v l rule: node_get.induct) (auto split: option.splits)

lemma covered_put:
  assumes "node_get v l \<noteq> None"
  shows "covered (node_put v l redacted_marker) l" and "covered v m \<Longrightarrow> covered (node_put v l redacted_marker) m"
proof -
  have here: "node_get (node_put v l redacted_marker) l = Some redacted_marker"
    using get_put [OF assms, of redacted_marker "[]"] by simp
  then show "covered (node_put v l redacted_marker) l" by (auto simp: covered_def)
  assume "covered v m"
  then obtain k where k: "prefix k m" "node_get v k = Some redacted_marker" by (auto simp: covered_def)
  consider "prefix l k" | x xs where "l = k @ x # xs" | "\<not> prefix l k" "\<not> prefix k l"
    by (metis append_Nil2 neq_Nil_conv prefix_def)
  then show "covered (node_put v l redacted_marker) m"
  proof cases
    case 1
    then show ?thesis using here k(1) by (auto simp: covered_def intro: prefix_order.trans)
  next
    case 2
    then show ?thesis using assms k(2) by (simp add: node_get_append redacted_marker_def)
  next
    case 3
    then show ?thesis using k get_put_other by (auto simp: covered_def)
  qed
qed

text \<open>The whole loop: each pointer is located in the value it started from.\<close>

lemma redact_all_covers:
  assumes "redact_all v paths = Inr w"
  shows "\<forall>p \<in> set paths. \<exists>segs l. parse_pointer p = Inr segs \<and> locate v segs = Some l \<and> covered w l"
    and "covered v m \<Longrightarrow> covered w m"
    and "(\<And>p segs l. p \<in> set paths \<Longrightarrow> parse_pointer p = Inr segs \<Longrightarrow> locate v segs = Some l \<Longrightarrow>
        \<not> prefix l m \<and> \<not> prefix m l) \<Longrightarrow> node_get w m = node_get v m"
  using assms
proof (induction paths arbitrary: v m)
  case (Cons p paths)
  {
    case 1
    then obtain segs l where p: "parse_pointer p = Inr segs" "locate v segs = Some l" "node_get v l \<noteq> None"
      and rest: "redact_all (node_put v l redacted_marker) paths = Inr w"
      using locate_get by (fastforce simp: result_simps redact_at_iff)
    show ?case
      using p Cons.IH(1) [OF rest] Cons.IH(2) [OF covered_put(1) [OF p(3)] rest] locate_put [OF _ p(3)] by auto
  next
    case 2
    then obtain segs l where p: "node_get v l \<noteq> None"
      and rest: "redact_all (node_put v l redacted_marker) paths = Inr w"
      using locate_get by (fastforce simp: result_simps redact_at_iff)
    show ?case using Cons.IH(2) [OF _ rest] covered_put(2) [OF p] 2(1) by blast
  next
    case 3
    then obtain segs l where p: "parse_pointer p = Inr segs" "locate v segs = Some l" "node_get v l \<noteq> None"
      and rest: "redact_all (node_put v l redacted_marker) paths = Inr w"
      using locate_get by (fastforce simp: result_simps redact_at_iff)
    have "node_get w m = node_get (node_put v l redacted_marker) m"
      using 3(1) locate_put [OF _ p(3)] by (intro Cons.IH(3) [OF _ rest]) (meson list.set_intros(2))
    also have "\<dots> = node_get v m" using 3(1) [OF _ p(1,2)] by (intro get_put_other) simp_all
    finally show ?case .
  }
qed auto

subsection \<open>The text of a pointer\<close>

fun escape :: "char \<Rightarrow> string" where
  "escape c = (if c = CHR ''~'' then ''~0'' else if c = CHR ''/'' then ''~1'' else [c])"

definition pointer_text :: "string list \<Rightarrow> string" where
  "pointer_text segs = concat (map (\<lambda>s. CHR ''/'' # concat (map escape s)) segs)"

lemma decode_segment_InrD: "decode_segment s = Inr d \<Longrightarrow> CHR ''/'' \<notin> set s \<Longrightarrow> s = concat (map escape d)"
proof (induction s arbitrary: d rule: decode_segment.induct)
  case (2 c cs)
  show ?case
  proof (cases "c = CHR ''~''")
    case True
    with 2(4) obtain x ds d' where "cs = x # ds" "decode_segment ds = Inr d'"
      "x = CHR ''0'' \<and> d = CHR ''~'' # d' \<or> x = CHR ''1'' \<and> d = CHR ''/'' # d'"
      by (cases cs) (auto simp: result_simps split: if_splits)
    then show ?thesis using True 2(1,2) [of x ds d'] 2(5) by auto
  next
    case False
    with 2(4) obtain d' where "decode_segment cs = Inr d'" "d = c # d'" by (auto simp: result_simps)
    then show ?thesis using False 2(3) 2(5) by auto
  qed
qed simp

lemma split_slash_neq_Nil [simp]: "split_slash s \<noteq> []"
  by (cases s) (auto split: list.splits)

lemma split_slash_text: "concat (map ((#) (CHR ''/'')) (split_slash s)) = CHR ''/'' # s"
  by (induction s) (auto split: list.splits)

lemma split_slash_free: "\<forall>x \<in> set (split_slash s). CHR ''/'' \<notin> set x"
  by (induction s) (auto split: list.splits)

lemma decode_segments_InrD:
  "decode_segments ss = Inr segs \<Longrightarrow> \<forall>x \<in> set ss. CHR ''/'' \<notin> set x \<Longrightarrow>
    concat (map ((#) (CHR ''/'')) ss) = pointer_text segs"
  by (induction ss arbitrary: segs)
     (auto simp: pointer_text_def result_simps dest: decode_segment_InrD split: if_splits)

text \<open>A pointer that parses is the escaped text of its segments, so equal segments mean equal text.\<close>

lemma parse_pointer_InrD:
  assumes "parse_pointer p = Inr segs"
  shows "p = pointer_text segs \<and> segs \<noteq> []"
proof -
  obtain q where q: "p = CHR ''/'' # q" "decode_segments (split_slash q) = Inr segs"
    using assms by (cases p) (auto simp: parse_pointer_def split: if_splits)
  then show ?thesis
    using decode_segments_InrD [OF q(2) split_slash_free] split_slash_text [of q]
    by (cases segs) (auto simp: pointer_text_def)
qed

lemma pointer_text_below: "ss \<noteq> [] \<Longrightarrow> below (pointer_text ks) (pointer_text (ks @ ss))"
  by (cases ss) (simp_all add: below_def pointer_text_def)

lemma prefix_overlaps:
  "prefix ks ss \<Longrightarrow> pointers_overlap (pointer_text ks) (pointer_text ss)"
  "prefix ks ss \<Longrightarrow> pointers_overlap (pointer_text ss) (pointer_text ks)"
  unfolding prefix_def pointers_overlap_def using pointer_text_below by (metis append_Nil2)+

lemma locate_fields: "locate v segs = Some (map Field ks @ l) \<Longrightarrow> prefix ks segs"
proof (induction ks arbitrary: v segs)
  case (Cons k ks)
  then show ?case
    by (cases segs; cases v) (auto split: option.splits if_splits)
qed simp

text \<open>A location reached through maps only, disjoint as text from a pointer, is disjoint from what it locates.\<close>

lemma disjoint_locations:
  assumes "parse_pointer p = Inr ps" and "locate v ps = Some l" and "parse_pointer r = Inr rs"
    and "locate v rs = Some (map Field ks)" and "\<not> pointers_overlap p r"
  shows "\<not> prefix l (map Field ks) \<and> \<not> prefix (map Field ks) l"
proof -
  have same: "ss = ks'" if "prefix ks' ss" "length ss = length ks'" for ss ks' :: "string list"
    using that by (auto simp: prefix_def)
  have rs: "rs = ks" using locate_fields [of v rs ks "[]"] locate_get [OF assms(4)] assms(4) by (intro same) simp_all
  have names: "p = pointer_text ps" "r = pointer_text ks" using assms(1,3) parse_pointer_InrD rs by blast+
  have "prefix ks ps" if "prefix (map Field ks) l"
    using that locate_fields [of v ps ks] assms(2) by (auto simp: prefix_def)
  moreover have "prefix ps ks" if "prefix l (map Field ks)"
  proof -
    have "l = take (length l) (map Field ks)" using that by (auto simp: prefix_def)
    then obtain k where k: "l = map Field (take k ks)" by (metis take_map)
    then have "prefix (take k ks) ps" "length ps = length (take k ks)"
      using locate_fields [of v ps "take k ks" "[]"] locate_get [OF assms(2)] assms(2) by simp_all
    then have "ps = take k ks" by (rule same)
    then show ?thesis by (simp add: take_is_prefix)
  qed
  ultimately show ?thesis using assms(5) prefix_overlaps names by blast
qed

subsection \<open>What redaction guarantees\<close>

text \<open>
  (C38) Redaction hits exactly what its pointers name: when it succeeds, every pointer resolves in the
  input and its location is hidden by the marker in the output, every location that is neither above
  nor below a redacted one reads as before, and so does every required field reached through maps.
\<close>

theorem redaction_is_exact:
  assumes "redact sha256 v paths required source policy = Inr rv"
  shows "(\<forall>p. p |\<in>| paths \<longrightarrow> (\<exists>segs l. parse_pointer p = Inr segs \<and> locate v segs = Some l \<and> covered (rv_value rv) l)) \<and>
     (\<forall>m. (\<forall>p segs l. p |\<in>| paths \<longrightarrow> parse_pointer p = Inr segs \<longrightarrow> locate v segs = Some l \<longrightarrow>
          \<not> prefix l m \<and> \<not> prefix m l) \<longrightarrow> node_get (rv_value rv) m = node_get v m) \<and>
     (\<forall>r segs ks. r |\<in>| required \<longrightarrow> parse_pointer r = Inr segs \<longrightarrow> locate v segs = Some (map Field ks) \<longrightarrow>
        node_get (rv_value rv) (map Field ks) = node_get v (map Field ks))"
proof -
  have out: "redact_all v (sorted_list_of_fset paths) = Inr (rv_value rv)"
    and apart: "\<And>p r. p |\<in>| paths \<Longrightarrow> r |\<in>| required \<Longrightarrow> \<not> pointers_overlap p r"
    using assms by (auto simp: redact_def result_simps split: if_splits)
  note all = redact_all_covers [OF out, simplified]
  show ?thesis
    using all(1) by (intro conjI allI impI all(3)) (auto dest: disjoint_locations [OF _ _ _ _ apart])
qed

theorem redaction_is_exact_witness:
  "\<exists>rv. redact (\<lambda>_. replicate 32 (CHR ''h'')) (CMap [(''a'', CText ''x''), (''b'', CText ''y'')]) {|''/a''|} {|''/b''|} [] [] = Inr rv \<and>
     covered (rv_value rv) [Field ''a''] \<and> node_get (rv_value rv) [Field ''b''] = Some (CText ''y'')"
proof -
  let ?v = "CMap [(''a'', CText ''x''), (''b'', CText ''y'')]" and ?w = "CMap [(''a'', redacted_marker), (''b'', CText ''y'')]"
  have p: "parse_pointer ''/a'' = Inr [''a'']" "parse_pointer ''/b'' = Inr [''b'']"
    by (simp_all add: parse_pointer_def MAX_POLICY_TEXT_BYTES_def byte_defs)
  have "\<not> pointers_overlap ''/a'' ''/b''" by (simp add: pointers_overlap_def below_def)
  moreover have "redact_at ?v [''a''] = Inr ?w" by (simp add: bt_update_def)
  moreover obtain c where "to_deterministic_cbor ?w = Inr c"
    by (simp add: to_deterministic_cbor_eq limited_def canonical_limits redacted_marker_def cbor_head_def key_bytes_def
        sort_entries_def)
  moreover obtain x where "redaction_digest (\<lambda>_. replicate 32 (CHR ''h'')) c [] [] {|''/a''|} = Inr x"
    using list_all_hex [of "replicate 32 (CHR ''h'')"]
    by (simp add: redaction_digest_def content_digest_new_def validate_multihash_def byte_defs)
  ultimately obtain rv where rv: "redact (\<lambda>_. replicate 32 (CHR ''h'')) ?v {|''/a''|} {|''/b''|} [] [] = Inr rv"
    using p(1) by (simp add: redact_def fcard.rep_eq MAX_POLICY_SELECTORS_def sorted_list_of_fset.rep_eq del: redact_at.simps)
  have "covered (rv_value rv) [Field ''a''] \<and> node_get (rv_value rv) (map Field [''b'']) = node_get ?v (map Field [''b''])"
    using redaction_is_exact [OF rv] p by fastforce
  then show ?thesis using rv by auto
qed

text \<open>
  A required array element can be redacted: overlap with required fields is tested on the text of
  the pointers, while array indices are resolved by value, so the pointer \<open>/a/00\<close> passes the test
  against the required \<open>/a/0\<close> and hides that element.
\<close>

theorem required_element_can_be_redacted:
  "\<exists>v rv. redact (\<lambda>_. replicate 32 (CHR ''h'')) v {|''/a/00''|} {|''/a/0''|} source policy = Inr rv \<and>
     node_get v [Field ''a'', Item 0] = Some (CText ''kept'') \<and> locate v [''a'', ''0''] = Some [Field ''a'', Item 0] \<and>
     node_get (rv_value rv) [Field ''a'', Item 0] = Some redacted_marker"
proof -
  let ?v = "CMap [(''a'', CArray [CText ''kept''])]" and ?w = "CMap [(''a'', CArray [redacted_marker])]"
  have "\<not> pointers_overlap ''/a/00'' ''/a/0''" by (simp add: pointers_overlap_def below_def)
  moreover have "parse_pointer ''/a/00'' = Inr [''a'', ''00'']"
    by (simp add: parse_pointer_def MAX_POLICY_TEXT_BYTES_def byte_defs)
  moreover have "redact_at ?v [''a'', ''00''] = Inr ?w"
    by (simp add: parse_usize_def digits_value_def byte_defs bt_update_def)
  moreover obtain c where "to_deterministic_cbor ?w = Inr c"
    by (simp add: to_deterministic_cbor_eq limited_def canonical_limits redacted_marker_def cbor_head_def key_bytes_def
        sort_entries_def)
  moreover obtain x where "redaction_digest (\<lambda>_. replicate 32 (CHR ''h'')) c source policy {|''/a/00''|} = Inr x"
    using list_all_hex [of "replicate 32 (CHR ''h'')"]
    by (simp add: redaction_digest_def content_digest_new_def validate_multihash_def byte_defs)
  ultimately have "\<exists>rv. redact (\<lambda>_. replicate 32 (CHR ''h'')) ?v {|''/a/00''|} {|''/a/0''|} source policy = Inr rv \<and> rv_value rv = ?w"
    by (simp add: redact_def fcard.rep_eq MAX_POLICY_SELECTORS_def sorted_list_of_fset.rep_eq del: redact_at.simps)
  moreover have "locate ?v [''a'', ''0''] = Some [Field ''a'', Item 0]"
    by (simp add: parse_usize_def digits_value_def byte_defs)
  moreover have "node_get ?v [Field ''a'', Item 0] = Some (CText ''kept'')" "node_get ?w [Field ''a'', Item 0] = Some redacted_marker"
    by simp_all
  ultimately show ?thesis by (metis (no_types))
qed

end
