(* ===== verification/Catalog_Records.thy ===== *)
theory Catalog_Records
  imports Protocol_Coordination
begin

text \<open>
  The records of the catalogue: atoms of \<open>cigar-protocol/src/atom.rs\<close>, source snapshots and provenance edges of
  \<open>catalog.rs\<close>, and context bundles of \<open>compilation.rs\<close>, with their validators. URIs, paths and media types are
  validated newtypes over strings; fixed-point millionths are integers. Each validator is an instance of the
  \<open>validated_record\<close> contract.
\<close>

definition MAX_INLINE_TEXT_BYTES :: nat where "MAX_INLINE_TEXT_BYTES = 1048576"
definition MAX_SOURCE_REVISION_BYTES :: nat where "MAX_SOURCE_REVISION_BYTES = 512"
definition MAX_SELECTOR_BYTES :: nat where "MAX_SELECTOR_BYTES = 512"
definition MAX_SCOPE_PROJECTS :: nat where "MAX_SCOPE_PROJECTS = 256"
definition MAX_GOVERNANCE_SELECTORS :: nat where "MAX_GOVERNANCE_SELECTORS = 256"
definition MAX_RETRIEVAL_TERMS :: nat where "MAX_RETRIEVAL_TERMS = 1024"
definition MAX_RETRIEVAL_TERM_BYTES :: nat where "MAX_RETRIEVAL_TERM_BYTES = 512"
definition MAX_CONTEXT_BLOCKS :: nat where "MAX_CONTEXT_BLOCKS = 10000"

lemmas catalog_limits = MAX_INLINE_TEXT_BYTES_def MAX_SOURCE_REVISION_BYTES_def MAX_SELECTOR_BYTES_def
  MAX_SCOPE_PROJECTS_def MAX_GOVERNANCE_SELECTORS_def MAX_RETRIEVAL_TERMS_def MAX_RETRIEVAL_TERM_BYTES_def
  MAX_CONTEXT_BLOCKS_def

subsection \<open>Atoms\<close>

datatype atom_kind =
  KInstruction | KSourceCode | KDocumentation | KDecision | KConversation | KToolResult | KSchema | KPolicy | KTest | KArtifact

record blob_ref =
  br_digest :: content_digest
  br_size_bytes :: u64
  br_media_type :: string

datatype atom_payload = InlineText string | Structured canonical_value | PayloadBlob blob_ref

record source_descriptor =
  sd_uri :: string
  sd_relative_path :: "string option"
  sd_revision :: string
  sd_snapshot_digest :: content_digest

record scope_envelope =
  sc_tenant_id :: record_id
  sc_project_ids :: "record_id list"

record temporal_envelope =
  te_valid_from :: timestamp
  te_valid_until :: "timestamp option"
  te_observed_at :: timestamp

record governance_envelope =
  gv_classification :: classification
  gv_allowed_purposes :: "string list"
  gv_processor_constraints :: "string list"
  gv_instruction_authority :: instruction_authority

record quality_envelope =
  qu_confidence :: int
  qu_coverage :: int
  qu_authority :: u16

record retrieval_envelope =
  rt_exact_terms :: "string list"
  rt_lexical_enabled :: bool
  rt_embedding_eligible :: bool

record context_atom =
  ca_schema_version :: schema_version
  ca_atom_id :: record_id
  ca_lineage_id :: string
  ca_version_id :: version_id
  ca_content_digest :: content_digest
  ca_kind :: atom_kind
  ca_payload :: atom_payload
  ca_source :: source_descriptor
  ca_scope :: scope_envelope
  ca_temporal :: temporal_envelope
  ca_governance :: governance_envelope
  ca_quality :: quality_envelope
  ca_retrieval :: retrieval_envelope
  ca_lifecycle :: lifecycle
  ca_superseded_by :: "version_id option"
  ca_extensions :: extension_map

definition value_validate :: "canonical_value \<Rightarrow> (validation_errors, unit) result" where
  "value_validate v = into_result (validate_at v 1 ''/value'' [])"

fun validate_payload :: "atom_payload \<Rightarrow> validation_errors \<Rightarrow> validation_errors" where
  "validate_payload (InlineText s) errors =
     push_if (s = [] \<or> length s > MAX_INLINE_TEXT_BYTES)
       (issue LimitExceeded ''/payload/value'' ''inline text must be non-empty and within the byte maximum'') errors"
| "validate_payload (Structured v) errors = merge_err (value_validate v) errors"
| "validate_payload (PayloadBlob b) errors =
     push_if (br_size_bytes b = 0) (issue InvalidValue ''/payload/value/size_bytes'' ''blob size must be non-zero'') errors"

definition validate_source :: "source_descriptor \<Rightarrow> validation_errors \<Rightarrow> validation_errors" where
  "validate_source s errors =
     push_if (sd_revision s = [] \<or> length (sd_revision s) > MAX_SOURCE_REVISION_BYTES)
       (issue LimitExceeded ''/source/revision'' ''source revision must be non-empty and bounded'') errors"

definition validate_scope :: "scope_envelope \<Rightarrow> validation_errors \<Rightarrow> validation_errors" where
  "validate_scope s errors =
     push_if (\<not> strictly_sorted_unique (sc_project_ids s))
       (issue InvalidValue ''/scope/project_ids'' ''project identities must be sorted and unique'')
    (push_if (sc_project_ids s = [] \<or> length (sc_project_ids s) > MAX_SCOPE_PROJECTS)
       (issue LimitExceeded ''/scope/project_ids'' ''project scope must be non-empty and bounded'') errors)"

definition validate_temporal :: "temporal_envelope \<Rightarrow> validation_errors \<Rightarrow> validation_errors" where
  "validate_temporal t errors =
     push_if (te_observed_at t < te_valid_from t)
       (issue InvalidValue ''/temporal/observed_at'' ''observation time cannot precede valid-from'')
    (push_if (case te_valid_until t of None \<Rightarrow> False | Some until \<Rightarrow> until \<le> te_valid_from t)
       (issue InvalidValue ''/temporal/valid_until'' ''valid-until must be later than valid-from'') errors)"

definition validate_string_set :: "string list \<Rightarrow> bool \<Rightarrow> string \<Rightarrow> validation_errors \<Rightarrow> validation_errors" where
  "validate_string_set values non_empty path errors =
     push_if (\<not> strictly_sorted_unique values)
       (issue InvalidValue path ''governance selectors must be sorted and unique'')
    (push_if (list_ex (\<lambda>s. s = [] \<or> length s > MAX_SELECTOR_BYTES) values)
       (issue LimitExceeded path ''governance selector is empty or exceeds its byte maximum'')
    (push_if (non_empty \<and> values = [] \<or> length values > MAX_GOVERNANCE_SELECTORS)
       (issue LimitExceeded path ''governance selector collection is empty or exceeds the maximum'') errors))"

definition validate_governance :: "governance_envelope \<Rightarrow> validation_errors \<Rightarrow> validation_errors" where
  "validate_governance g errors =
     validate_string_set (gv_processor_constraints g) False ''/governance/processor_constraints''
    (validate_string_set (gv_allowed_purposes g) True ''/governance/allowed_purposes'' errors)"

definition validate_retrieval :: "retrieval_envelope \<Rightarrow> validation_errors \<Rightarrow> validation_errors" where
  "validate_retrieval r errors =
     push_if (\<not> strictly_sorted_unique (rt_exact_terms r))
       (issue InvalidValue ''/retrieval/exact_terms'' ''exact retrieval terms must be sorted and unique'')
    (push_if (list_ex (\<lambda>s. s = [] \<or> length s > MAX_RETRIEVAL_TERM_BYTES) (rt_exact_terms r))
       (issue LimitExceeded ''/retrieval/exact_terms'' ''an exact retrieval term is empty or exceeds its byte maximum'')
    (push_if (length (rt_exact_terms r) > MAX_RETRIEVAL_TERMS)
       (issue LimitExceeded ''/retrieval/exact_terms'' ''exact retrieval term collection exceeds the maximum'') errors))"

text \<open>A superseded record names its successor and no other record does.\<close>

definition validate_succession :: "lifecycle \<Rightarrow> bool \<Rightarrow> string \<Rightarrow> string \<Rightarrow> validation_errors \<Rightarrow> validation_errors" where
  "validate_succession lifecycle has_successor missing forbidden errors =
     (if lifecycle = Superseded \<and> \<not> has_successor
      then ve_push (issue InvalidValue ''/superseded_by'' missing) errors
      else if lifecycle \<noteq> Superseded \<and> has_successor
      then ve_push (issue InvalidValue ''/superseded_by'' forbidden) errors
      else errors)"

definition atom_errors :: "context_atom \<Rightarrow> validation_errors" where
  "atom_errors a =
     validate_extensions (ca_extensions a)
    (validate_succession (ca_lifecycle a) (ca_superseded_by a \<noteq> None) ''superseded atom requires a successor version''
       ''only a superseded atom may name a successor version''
    (validate_retrieval (ca_retrieval a)
    (push_if (qu_authority (ca_quality a) = 0)
       (issue InvalidValue ''/quality/authority'' ''quality authority must be non-zero'')
    (validate_governance (ca_governance a)
    (validate_temporal (ca_temporal a)
    (validate_scope (ca_scope a)
    (validate_source (ca_source a)
    (validate_payload (ca_payload a)
    (validate_version (ca_schema_version a) ''cigar.atom'' [])))))))))"

definition atom_validate :: "context_atom \<Rightarrow> (validation_errors, unit) result" where
  "atom_validate a = into_result (atom_errors a)"

subsection \<open>Snapshots and edges\<close>

record source_snapshot =
  ss_schema_version :: schema_version
  ss_snapshot_id :: record_id
  ss_source_uri :: string
  ss_source_revision :: string
  ss_captured_at :: timestamp
  ss_manifest_digest :: content_digest
  ss_entry_count :: u64
  ss_total_bytes :: u64
  ss_complete :: bool
  ss_extensions :: extension_map

definition snapshot_errors :: "source_snapshot \<Rightarrow> validation_errors" where
  "snapshot_errors s =
     validate_extensions (ss_extensions s)
    (push_if (ss_entry_count s = 0 \<and> ss_total_bytes s \<noteq> 0)
       (issue InvalidValue ''/total_bytes'' ''an empty snapshot cannot report non-zero aggregate bytes'')
    (push_if (ss_source_revision s = [] \<or> length (ss_source_revision s) > MAX_SOURCE_REVISION_BYTES)
       (issue LimitExceeded ''/source_revision'' ''source revision must be non-empty and bounded'')
    (validate_version (ss_schema_version s) ''cigar.source-snapshot'' [])))"

definition snapshot_validate :: "source_snapshot \<Rightarrow> (validation_errors, unit) result" where
  "snapshot_validate s = into_result (snapshot_errors s)"

datatype edge_kind = DependsOn | Defines | References | Supersedes | Contradicts | Supports | DerivedFrom | AppliesTo

record context_edge =
  ed_schema_version :: schema_version
  ed_edge_id :: record_id
  ed_from_version :: version_id
  ed_to_version :: version_id
  ed_kind :: edge_kind
  ed_provenance_digest :: content_digest
  ed_lifecycle :: lifecycle
  ed_superseded_by :: "record_id option"
  ed_extensions :: extension_map

definition edge_errors :: "context_edge \<Rightarrow> validation_errors" where
  "edge_errors e =
     validate_extensions (ed_extensions e)
    (validate_succession (ed_lifecycle e) (ed_superseded_by e \<noteq> None) ''superseded edge requires a successor edge''
       ''only a superseded edge may name a successor''
    (push_if (ed_from_version e = ed_to_version e)
       (issue InvalidValue ''/to_version'' ''catalog edge cannot reference the same version at both ends'')
    (validate_version (ed_schema_version e) ''cigar.edge'' [])))"

definition edge_validate :: "context_edge \<Rightarrow> (validation_errors, unit) result" where
  "edge_validate e = into_result (edge_errors e)"

subsection \<open>Bundles\<close>

text \<open>Lanes are ordered as they are declared.\<close>

fun lane_rank :: "lane_kind \<Rightarrow> nat" where
  "lane_rank LRules = 0"
| "lane_rank LTask = 1"
| "lane_rank LEvidence = 2"
| "lane_rank LHistory = 3"
| "lane_rank LTools = 4"

lemma lane_rank_inject [simp]: "lane_rank x = lane_rank y \<longleftrightarrow> x = y"
  by (cases x; cases y) simp_all

instantiation lane_kind :: linorder
begin

definition less_eq_lane_kind :: "lane_kind \<Rightarrow> lane_kind \<Rightarrow> bool" where
  "less_eq_lane_kind x y \<longleftrightarrow> lane_rank x \<le> lane_rank y"

definition less_lane_kind :: "lane_kind \<Rightarrow> lane_kind \<Rightarrow> bool" where
  "less_lane_kind x y \<longleftrightarrow> lane_rank x < lane_rank y"

instance
  by standard (auto simp: less_eq_lane_kind_def less_lane_kind_def simp flip: lane_rank_inject)

end

datatype representation_kind = Exact | Extracted | Summarized | Redacted

record context_block =
  cb_block_id :: version_id
  cb_lane :: lane_kind
  cb_representation :: representation_kind
  cb_content_digest :: content_digest
  cb_token_count :: u32
  cb_provenance :: "version_id list"
  cb_transform_receipt :: "content_digest option"

record context_bundle =
  bn_schema_version :: schema_version
  bn_bundle_id :: version_id
  bn_contract_digest :: content_digest
  bn_manifest_digest :: content_digest
  bn_blocks :: "context_block list"
  bn_total_tokens :: u32
  bn_extensions :: extension_map

definition block_path :: "nat \<Rightarrow> string \<Rightarrow> string" where
  "block_path index field = ''/blocks/'' @ show_nat index @ ''/'' @ field"

definition block_validate_into :: "context_block \<Rightarrow> nat \<Rightarrow> validation_errors \<Rightarrow> validation_errors" where
  "block_validate_into b index errors =
     push_if ((cb_representation b \<notin> {Exact, Redacted}) \<noteq> (cb_transform_receipt b \<noteq> None))
       (issue InvalidValue (block_path index ''transform_receipt'')
         ''extracted and summarized blocks require exactly one transform receipt'')
    (push_if (cb_provenance b = [] \<or> length (cb_provenance b) > MAX_CONTEXT_BLOCKS \<or> \<not> strictly_sorted_unique (cb_provenance b))
       (issue InvalidValue (block_path index ''provenance'') ''block provenance must be non-empty, sorted, and unique'')
    (push_if (cb_token_count b = 0)
       (issue InvalidValue (block_path index ''token_count'') ''context block token count must be non-zero'') errors))"

fun sorted_unique_by :: "('a \<Rightarrow> 'a \<Rightarrow> bool) \<Rightarrow> 'a list \<Rightarrow> bool" where
  "sorted_unique_by below (x # y # zs) \<longleftrightarrow> below x y \<and> sorted_unique_by below (y # zs)"
| "sorted_unique_by below _ \<longleftrightarrow> True"

definition block_below :: "context_block \<Rightarrow> context_block \<Rightarrow> bool" where
  "block_below a b \<longleftrightarrow> cb_lane a < cb_lane b \<or> (cb_lane a = cb_lane b \<and> cb_block_id a < cb_block_id b)"

fun token_sum :: "u32 \<Rightarrow> context_block list \<Rightarrow> u32 option" where
  "token_sum acc [] = Some acc"
| "token_sum acc (b # bs) = Option.bind (checked_add acc (cb_token_count b)) (\<lambda>t. token_sum t bs)"

definition bundle_errors :: "context_bundle \<Rightarrow> validation_errors" where
  "bundle_errors b =
     validate_extensions (bn_extensions b)
    (fold (\<lambda>(index, block). block_validate_into block index) (enumerate 0 (bn_blocks b))
    (push_if (token_sum 0 (bn_blocks b) \<noteq> Some (bn_total_tokens b))
       (issue InvalidValue ''/total_tokens'' ''bundle token total must equal the exact block sum'')
    (push_if (length (bn_blocks b) > MAX_CONTEXT_BLOCKS \<or> \<not> sorted_unique_by block_below (bn_blocks b))
       (issue InvalidValue ''/blocks'' ''bundle blocks must be bounded, sorted, and unique'')
    (validate_version (bn_schema_version b) ''cigar.context-bundle'' []))))"

definition bundle_validate :: "context_bundle \<Rightarrow> (validation_errors, unit) result" where
  "bundle_validate b = into_result (bundle_errors b)"

subsection \<open>Well-formed records\<close>

definition string_set_ok :: "bool \<Rightarrow> nat \<Rightarrow> nat \<Rightarrow> string list \<Rightarrow> bool" where
  "string_set_ok non_empty maximum item_maximum xs \<longleftrightarrow> (non_empty \<longrightarrow> xs \<noteq> []) \<and> length xs \<le> maximum \<and>
     list_all (\<lambda>s. s \<noteq> [] \<and> length s \<le> item_maximum) xs \<and> sorted_wrt (<) xs"

fun payload_ok :: "atom_payload \<Rightarrow> bool" where
  "payload_ok (InlineText s) \<longleftrightarrow> s \<noteq> [] \<and> length s \<le> MAX_INLINE_TEXT_BYTES"
| "payload_ok (Structured v) \<longleftrightarrow> value_ok 1 v"
| "payload_ok (PayloadBlob b) \<longleftrightarrow> br_size_bytes b \<noteq> 0"

definition revision_ok :: "string \<Rightarrow> bool" where
  "revision_ok s \<longleftrightarrow> s \<noteq> [] \<and> length s \<le> MAX_SOURCE_REVISION_BYTES"

definition atom_wf :: "context_atom \<Rightarrow> bool" where
  "atom_wf a \<longleftrightarrow> version_ok ''cigar.atom'' (ca_schema_version a) \<and> payload_ok (ca_payload a) \<and>
     revision_ok (sd_revision (ca_source a)) \<and>
     sc_project_ids (ca_scope a) \<noteq> [] \<and> sorted_set_ok MAX_SCOPE_PROJECTS (sc_project_ids (ca_scope a)) \<and>
     te_valid_from (ca_temporal a) \<le> te_observed_at (ca_temporal a) \<and>
     (\<forall>until. te_valid_until (ca_temporal a) = Some until \<longrightarrow> te_valid_from (ca_temporal a) < until) \<and>
     string_set_ok True MAX_GOVERNANCE_SELECTORS MAX_SELECTOR_BYTES (gv_allowed_purposes (ca_governance a)) \<and>
     string_set_ok False MAX_GOVERNANCE_SELECTORS MAX_SELECTOR_BYTES (gv_processor_constraints (ca_governance a)) \<and>
     qu_authority (ca_quality a) \<noteq> 0 \<and>
     string_set_ok False MAX_RETRIEVAL_TERMS MAX_RETRIEVAL_TERM_BYTES (rt_exact_terms (ca_retrieval a)) \<and>
     (ca_lifecycle a = Superseded \<longleftrightarrow> ca_superseded_by a \<noteq> None) \<and> extensions_ok (ca_extensions a)"

definition snapshot_wf :: "source_snapshot \<Rightarrow> bool" where
  "snapshot_wf s \<longleftrightarrow> version_ok ''cigar.source-snapshot'' (ss_schema_version s) \<and> revision_ok (ss_source_revision s) \<and>
     (ss_entry_count s = 0 \<longrightarrow> ss_total_bytes s = 0) \<and> extensions_ok (ss_extensions s)"

definition edge_wf :: "context_edge \<Rightarrow> bool" where
  "edge_wf e \<longleftrightarrow> version_ok ''cigar.edge'' (ed_schema_version e) \<and> ed_from_version e \<noteq> ed_to_version e \<and>
     (ed_lifecycle e = Superseded \<longleftrightarrow> ed_superseded_by e \<noteq> None) \<and> extensions_ok (ed_extensions e)"

definition block_wf :: "context_block \<Rightarrow> bool" where
  "block_wf b \<longleftrightarrow> cb_token_count b \<noteq> 0 \<and> cb_provenance b \<noteq> [] \<and> sorted_set_ok MAX_CONTEXT_BLOCKS (cb_provenance b) \<and>
     (cb_representation b \<in> {Extracted, Summarized} \<longleftrightarrow> cb_transform_receipt b \<noteq> None)"

text \<open>A bundle is a strictly ordered list of blocks whose token counts add up, without overflow, to its total.\<close>

definition bundle_wf :: "context_bundle \<Rightarrow> bool" where
  "bundle_wf b \<longleftrightarrow> version_ok ''cigar.context-bundle'' (bn_schema_version b) \<and> length (bn_blocks b) \<le> MAX_CONTEXT_BLOCKS \<and>
     sorted_wrt block_below (bn_blocks b) \<and>
     sum_list (map (unat \<circ> cb_token_count) (bn_blocks b)) = unat (bn_total_tokens b) \<and>
     list_all block_wf (bn_blocks b) \<and> extensions_ok (bn_extensions b)"

lemma block_below_trans: "block_below a b \<Longrightarrow> block_below b c \<Longrightarrow> block_below a c"
  by (auto simp: block_below_def)

lemma sorted_unique_by_iff:
  assumes "\<And>a b c. below a b \<Longrightarrow> below b c \<Longrightarrow> below a c"
  shows "sorted_unique_by below xs \<longleftrightarrow> sorted_wrt below xs"
proof (induction xs rule: induct_list012)
  case (3 x y zs)
  then show ?case using assms by auto
qed simp_all

lemma token_sum_iff:
  "token_sum acc bs = Some t \<longleftrightarrow> unat acc + sum_list (map (unat \<circ> cb_token_count) bs) = unat t"
proof (induction bs arbitrary: acc)
  case (Cons b bs)
  show ?case
  proof (cases "checked_add acc (cb_token_count b)")
    case None
    then have "unat acc + unat (cb_token_count b) \<ge> 2 ^ 32" by (auto simp: checked_add_def split: if_split_asm)
    moreover have "unat t < 2 ^ 32" using unsigned_less [of t] by simp
    ultimately show ?thesis using None by simp
  next
    case (Some u)
    then show ?thesis using Cons [of u] checked_add_SomeD [OF Some] by (simp add: add.assoc)
  qed
qed (simp add: word_unat_eq_iff)

lemma value_validate_iff [simp]: "merge_err (value_validate v) es = [] \<longleftrightarrow> es = [] \<and> value_ok 1 v"
proof -
  define e where "e = validate_at v 1 ''/value'' []"
  have "e = [] \<longleftrightarrow> value_ok 1 v" unfolding e_def by (simp only: validate_at_eq_Nil_iff simp_thms)
  then show ?thesis unfolding value_validate_def e_def [symmetric]
    by (cases "e = []") (simp_all add: merge_err_def into_result_def)
qed

lemma validate_payload_iff [simp]: "validate_payload p es = [] \<longleftrightarrow> es = [] \<and> payload_ok p"
  by (cases p) auto

lemma validate_string_set_iff [simp]:
  "validate_string_set xs non_empty path es = [] \<longleftrightarrow>
     es = [] \<and> string_set_ok non_empty MAX_GOVERNANCE_SELECTORS MAX_SELECTOR_BYTES xs"
  by (auto simp: validate_string_set_def string_set_ok_def strictly_sorted_unique_iff list_ex_iff list_all_iff)

lemma validate_succession_iff [simp]:
  "validate_succession l s m f es = [] \<longleftrightarrow> es = [] \<and> (l = Superseded \<longleftrightarrow> s)"
  by (auto simp: validate_succession_def)

lemma block_validate_iff [simp]: "block_validate_into b i es = [] \<longleftrightarrow> es = [] \<and> block_wf b"
  by (cases "cb_representation b")
     (auto simp: block_validate_into_def block_wf_def sorted_set_ok_def strictly_sorted_unique_iff)

lemma validate_envelopes_iff [simp]:
  "validate_source s es = [] \<longleftrightarrow> es = [] \<and> revision_ok (sd_revision s)"
  "validate_scope c es = [] \<longleftrightarrow> es = [] \<and> sc_project_ids c \<noteq> [] \<and> sorted_set_ok MAX_SCOPE_PROJECTS (sc_project_ids c)"
  "validate_temporal t es = [] \<longleftrightarrow> es = [] \<and> te_valid_from t \<le> te_observed_at t \<and>
     (\<forall>until. te_valid_until t = Some until \<longrightarrow> te_valid_from t < until)"
  "validate_governance g es = [] \<longleftrightarrow> es = [] \<and>
     string_set_ok True MAX_GOVERNANCE_SELECTORS MAX_SELECTOR_BYTES (gv_allowed_purposes g) \<and>
     string_set_ok False MAX_GOVERNANCE_SELECTORS MAX_SELECTOR_BYTES (gv_processor_constraints g)"
  "validate_retrieval r es = [] \<longleftrightarrow> es = [] \<and>
     string_set_ok False MAX_RETRIEVAL_TERMS MAX_RETRIEVAL_TERM_BYTES (rt_exact_terms r)"
  by (auto simp: validate_source_def revision_ok_def)
     (auto simp: validate_scope_def sorted_set_ok_def strictly_sorted_unique_iff validate_temporal_def validate_governance_def
       validate_retrieval_def string_set_ok_def list_ex_iff list_all_iff split: option.splits)

lemma within_catalog [simp]:
  assumes "within es"
  shows "within (validate_payload p es)" and "within (validate_string_set xs non_empty path es)"
    and "within (validate_succession l s m f es)" and "within (block_validate_into b i es)"
    and "within (validate_source src es)" and "within (validate_scope sc es)" and "within (validate_temporal t es)"
    and "within (validate_governance g es)" and "within (validate_retrieval r es)"
proof -
  show "within (validate_payload p es)" using assms by (cases p) simp_all
  have set: "within (validate_string_set xs non_empty path es')" if "within es'" for xs non_empty path es'
    using that by (simp add: validate_string_set_def)
  show "within (validate_string_set xs non_empty path es)" by (rule set [OF assms])
  show "within (validate_succession l s m f es)" using assms within_push_if [of es True] by (simp add: validate_succession_def push_if_def)
  show "within (block_validate_into b i es)" using assms by (simp add: block_validate_into_def)
  show "within (validate_source src es)" using assms by (simp add: validate_source_def)
  show "within (validate_scope sc es)" using assms by (simp add: validate_scope_def)
  show "within (validate_temporal t es)" using assms by (simp add: validate_temporal_def)
  show "within (validate_governance g es)" using assms set by (simp add: validate_governance_def)
  show "within (validate_retrieval r es)" using assms by (simp add: validate_retrieval_def)
qed

lemma blocks_iff:
  "fold (\<lambda>(index, block). block_validate_into block index) (enumerate n bs) es = [] \<longleftrightarrow> es = [] \<and> list_all block_wf bs"
  by (induction bs arbitrary: n es) auto

lemma within_blocks: "within es \<Longrightarrow> within (fold (\<lambda>(index, block). block_validate_into block index) xs es)"
  by (rule within_fold) auto

interpretation atom: validated_record atom_errors atom_wf
proof
  show "atom_errors r = [] \<longleftrightarrow> atom_wf r" for r
    by (simp add: atom_errors_def atom_wf_def) blast
  show "length (atom_errors r) \<le> MAX_VALIDATION_ERRORS" for r
    by (simp add: atom_errors_def flip: within_def)
qed

interpretation snapshot: validated_record snapshot_errors snapshot_wf
  by unfold_locales (auto simp: snapshot_errors_def snapshot_wf_def revision_ok_def simp flip: within_def)

interpretation edge: validated_record edge_errors edge_wf
  by unfold_locales (auto simp: edge_errors_def edge_wf_def simp flip: within_def)

interpretation context_bundle: validated_record bundle_errors bundle_wf
proof
  show "bundle_errors r = [] \<longleftrightarrow> bundle_wf r" for r
    by (auto simp: bundle_errors_def bundle_wf_def blocks_iff token_sum_iff sorted_unique_by_iff [OF block_below_trans])
  show "length (bundle_errors r) \<le> MAX_VALIDATION_ERRORS" for r
    by (simp add: bundle_errors_def within_blocks flip: within_def)
qed

lemma catalog_validate_iff [simp]:
  "atom_validate a = Inr () \<longleftrightarrow> atom_wf a" "snapshot_validate s = Inr () \<longleftrightarrow> snapshot_wf s"
  "edge_validate e = Inr () \<longleftrightarrow> edge_wf e" "bundle_validate b = Inr () \<longleftrightarrow> bundle_wf b"
  unfolding atom_validate_def snapshot_validate_def edge_validate_def bundle_validate_def
  by (rule atom.accepts_iff snapshot.accepts_iff edge.accepts_iff context_bundle.accepts_iff)+

end
