(* ===== verification/Effect_Protocol.thy ===== *)
theory Effect_Protocol
  imports Catalog_Records
begin

text \<open>
  The effect records of \<open>cigar-protocol/src/effect.rs\<close>: the closed state machine of an effect, intents,
  approvals, attempts, receipts, journal events, reconciliation reports and compensation links, with
  their validators. Each validator is an instance of the \<open>validated_record\<close> contract.
\<close>

definition MAX_EFFECT_SELECTOR_BYTES :: nat where "MAX_EFFECT_SELECTOR_BYTES = 1024"
definition MAX_EFFECT_PRECONDITIONS :: nat where "MAX_EFFECT_PRECONDITIONS = 256"
definition MAX_RECONCILIATION_EVIDENCE :: nat where "MAX_RECONCILIATION_EVIDENCE = 256"

lemmas effect_limits = MAX_EFFECT_SELECTOR_BYTES_def MAX_EFFECT_PRECONDITIONS_def MAX_RECONCILIATION_EVIDENCE_def

datatype effect_state =
  Prepared | PendingApproval | Authorized | Dispatching | Succeeded | Failed | Unknown
  | AuthorizedForRetry | ManualResolution | Rejected | Expired | Cancelled | CompensationPending
  | Compensating | Compensated | CompensationFailed

definition can_transition_to :: "effect_state \<Rightarrow> effect_state \<Rightarrow> bool" where
  "can_transition_to source target \<longleftrightarrow> (case source of
     Prepared \<Rightarrow> target \<in> {PendingApproval, Authorized, Expired, Cancelled}
   | PendingApproval \<Rightarrow> target \<in> {Authorized, Rejected, Expired, Cancelled}
   | Authorized \<Rightarrow> target \<in> {Dispatching, Expired, Cancelled}
   | Dispatching \<Rightarrow> target \<in> {Succeeded, Failed, Unknown}
   | Unknown \<Rightarrow> target \<in> {Unknown, Succeeded, Failed, AuthorizedForRetry, ManualResolution}
   | AuthorizedForRetry \<Rightarrow> target \<in> {Dispatching, Expired, Cancelled}
   | Succeeded \<Rightarrow> target \<in> {CompensationPending}
   | CompensationPending \<Rightarrow> target \<in> {Compensating}
   | Compensating \<Rightarrow> target \<in> {Compensated, CompensationFailed, Unknown}
   | _ \<Rightarrow> False)"

datatype retry_policy = RetryNever | SameKeyIdempotent u16 | ReconcileBeforeRetry

record compensation_spec =
  cs_operation :: string
  cs_arguments_digest :: content_digest
  cs_encrypted_arguments :: blob_ref

record effect_intent =
  in_schema_version :: schema_version
  in_effect_id :: record_id
  in_connector :: string
  in_operation :: string
  in_arguments_digest :: content_digest
  in_encrypted_arguments :: blob_ref
  in_target :: string
  in_preconditions :: "content_digest list"
  in_result_schema_digest :: content_digest
  in_risk :: risk_level
  in_source_decision_id :: version_id
  in_bundle_id :: version_id
  in_required_capability :: capability
  in_idempotency_scope :: string
  in_idempotency_key :: string
  in_retry_policy :: retry_policy
  in_created_at :: timestamp
  in_expires_at :: timestamp
  in_compensation :: "compensation_spec option"
  in_extensions :: extension_map

datatype approval_kind = Human | Policy

record effect_approval =
  ap_schema_version :: schema_version
  ap_approval_id :: record_id
  ap_effect_id :: record_id
  ap_intent_digest :: content_digest
  ap_target_digest :: content_digest
  ap_risk :: risk_level
  ap_bundle_id :: version_id
  ap_conditions_digest :: content_digest
  ap_approver_id :: record_id
  ap_kind :: approval_kind
  ap_approved_at :: timestamp
  ap_expires_at :: timestamp

record effect_attempt =
  at_schema_version :: schema_version
  at_attempt_id :: record_id
  at_effect_id :: record_id
  at_attempt_number :: u16
  at_fencing_token :: u64
  at_request_digest :: content_digest
  at_started_at :: timestamp
  at_deadline :: timestamp

datatype receipt_outcome = RSucceeded | RFailed | RUnknown

record effect_receipt =
  re_schema_version :: schema_version
  re_receipt_id :: record_id
  re_effect_id :: record_id
  re_attempt_id :: record_id
  re_outcome :: receipt_outcome
  re_remote_operation_id :: "string option"
  re_protected_response :: "blob_ref option"
  re_response_digest :: "content_digest option"
  re_observed_at :: timestamp
  re_verification_digest :: "content_digest option"

record effect_journal_event =
  je_schema_version :: schema_version
  je_event_id :: record_id
  je_effect_id :: record_id
  je_sequence :: u64
  je_expected_effect_version :: u64
  je_from_state :: effect_state
  je_to_state :: effect_state
  je_actor_id :: record_id
  je_payload_digest :: content_digest
  je_previous_event_digest :: "content_digest option"
  je_event_digest :: content_digest
  je_recorded_at :: timestamp

datatype reconciliation_outcome =
  ConfirmedSuccess | ConfirmedFailure | ProvenNotExecuted | Inconclusive | Manual

record reconciliation_report =
  rr_schema_version :: schema_version
  rr_report_id :: record_id
  rr_effect_id :: record_id
  rr_attempt_id :: "record_id option"
  rr_outcome :: reconciliation_outcome
  rr_evidence_digests :: "content_digest list"
  rr_reconciled_at :: timestamp
  rr_certainty_window_end :: "timestamp option"

record compensation_link =
  cl_schema_version :: schema_version
  cl_original_effect_id :: record_id
  cl_compensation_effect_id :: record_id
  cl_compensation_spec_digest :: content_digest
  cl_created_at :: timestamp

subsection \<open>Validators\<close>

definition validate_effect_selector :: "string \<Rightarrow> string \<Rightarrow> validation_errors \<Rightarrow> validation_errors" where
  "validate_effect_selector value path errors =
     push_if (value = [] \<or> length value > MAX_EFFECT_SELECTOR_BYTES)
       (issue LimitExceeded path ''effect selector must be non-empty and bounded'') errors"

definition intent_errors :: "effect_intent \<Rightarrow> validation_errors" where
  "intent_errors i =
     validate_extensions (in_extensions i)
    ((case in_compensation i of None \<Rightarrow> id
      | Some c \<Rightarrow> validate_effect_selector (cs_operation c) ''/compensation/operation'')
    (push_if (in_retry_policy i = SameKeyIdempotent 0)
       (issue InvalidValue ''/retry_policy/max_attempts'' ''same-key retry attempt maximum must be non-zero'')
    (push_if (in_expires_at i \<le> in_created_at i)
       (issue InvalidValue ''/expires_at'' ''effect expiry must be later than creation'')
    (push_if (length (in_preconditions i) > MAX_EFFECT_PRECONDITIONS \<or> \<not> strictly_sorted_unique (in_preconditions i))
       (issue InvalidValue ''/preconditions'' ''effect preconditions must be bounded, sorted, and unique'')
    (fold (\<lambda>(path, value). validate_effect_selector value path)
       [(''/connector'', in_connector i), (''/operation'', in_operation i), (''/target'', in_target i),
        (''/idempotency_scope'', in_idempotency_scope i)]
    (validate_version (in_schema_version i) ''cigar.effect-intent'' []))))))"

definition intent_validate :: "effect_intent \<Rightarrow> (validation_errors, unit) result" where
  "intent_validate i = into_result (intent_errors i)"

definition approval_errors :: "effect_approval \<Rightarrow> validation_errors" where
  "approval_errors a =
     push_if (ap_risk a \<in> {High, Critical} \<and> ap_kind a \<noteq> Human)
       (issue InvalidValue ''/kind'' ''high and critical risk require explicit human approval'')
    (push_if (ap_expires_at a \<le> ap_approved_at a)
       (issue InvalidValue ''/expires_at'' ''approval expiry must be later than approval time'')
    (validate_version (ap_schema_version a) ''cigar.effect-approval'' []))"

definition approval_validate :: "effect_approval \<Rightarrow> (validation_errors, unit) result" where
  "approval_validate a = into_result (approval_errors a)"

definition attempt_errors :: "effect_attempt \<Rightarrow> validation_errors" where
  "attempt_errors a =
     push_if (at_attempt_number a = 0 \<or> at_fencing_token a = 0 \<or> at_deadline a \<le> at_started_at a)
       (issue InvalidValue ''/attempt_number'' ''attempt number, fencing token, and deadline must be positive'')
    (validate_version (at_schema_version a) ''cigar.effect-attempt'' [])"

definition attempt_validate :: "effect_attempt \<Rightarrow> (validation_errors, unit) result" where
  "attempt_validate a = into_result (attempt_errors a)"

definition receipt_errors :: "effect_receipt \<Rightarrow> validation_errors" where
  "receipt_errors r =
     push_if (re_outcome r = RSucceeded \<and> (re_response_digest r = None \<or> re_verification_digest r = None))
       (issue InvalidValue ''/verification_digest'' ''successful receipt requires response and verification digests'')
    ((case re_remote_operation_id r of None \<Rightarrow> id
      | Some remote \<Rightarrow> validate_effect_selector remote ''/remote_operation_id'')
    (validate_version (re_schema_version r) ''cigar.effect-receipt'' []))"

definition receipt_validate :: "effect_receipt \<Rightarrow> (validation_errors, unit) result" where
  "receipt_validate r = into_result (receipt_errors r)"

definition event_errors :: "effect_journal_event \<Rightarrow> validation_errors" where
  "event_errors e =
     push_if (je_sequence e = 0 \<or> (je_sequence e = 1) \<noteq> (je_previous_event_digest e = None)
              \<or> \<not> can_transition_to (je_from_state e) (je_to_state e))
       (issue InvalidValue ''/to_state'' ''journal sequence, hash-chain, or state transition is invalid'')
    (validate_version (je_schema_version e) ''cigar.effect-journal-event'' [])"

definition event_validate :: "effect_journal_event \<Rightarrow> (validation_errors, unit) result" where
  "event_validate e = into_result (event_errors e)"

definition report_errors :: "reconciliation_report \<Rightarrow> validation_errors" where
  "report_errors r =
     push_if (rr_outcome r = Inconclusive \<and> rr_certainty_window_end r = None)
       (issue InvalidValue ''/certainty_window_end'' ''inconclusive reconciliation requires a certainty-window end'')
    (push_if (rr_evidence_digests r = [] \<or> length (rr_evidence_digests r) > MAX_RECONCILIATION_EVIDENCE
              \<or> \<not> strictly_sorted_unique (rr_evidence_digests r))
       (issue InvalidValue ''/evidence_digests'' ''reconciliation evidence must be non-empty, sorted, and unique'')
    (validate_version (rr_schema_version r) ''cigar.reconciliation-report'' []))"

definition report_validate :: "reconciliation_report \<Rightarrow> (validation_errors, unit) result" where
  "report_validate r = into_result (report_errors r)"

definition link_errors :: "compensation_link \<Rightarrow> validation_errors" where
  "link_errors l =
     push_if (cl_original_effect_id l = cl_compensation_effect_id l)
       (issue InvalidValue ''/compensation_effect_id'' ''compensation must be a distinct logical effect'')
    (validate_version (cl_schema_version l) ''cigar.compensation-link'' [])"

definition link_validate :: "compensation_link \<Rightarrow> (validation_errors, unit) result" where
  "link_validate l = into_result (link_errors l)"

subsection \<open>Well-formed records\<close>

definition effect_selector_ok :: "string \<Rightarrow> bool" where
  "effect_selector_ok s \<longleftrightarrow> s \<noteq> [] \<and> length s \<le> MAX_EFFECT_SELECTOR_BYTES"

definition intent_wf :: "effect_intent \<Rightarrow> bool" where
  "intent_wf i \<longleftrightarrow> version_ok ''cigar.effect-intent'' (in_schema_version i) \<and>
     list_all effect_selector_ok [in_connector i, in_operation i, in_target i, in_idempotency_scope i] \<and>
     sorted_set_ok MAX_EFFECT_PRECONDITIONS (in_preconditions i) \<and> in_created_at i < in_expires_at i \<and>
     in_retry_policy i \<noteq> SameKeyIdempotent 0 \<and>
     (\<forall>c. in_compensation i = Some c \<longrightarrow> effect_selector_ok (cs_operation c)) \<and> extensions_ok (in_extensions i)"

definition approval_wf :: "effect_approval \<Rightarrow> bool" where
  "approval_wf a \<longleftrightarrow> version_ok ''cigar.effect-approval'' (ap_schema_version a) \<and>
     ap_approved_at a < ap_expires_at a \<and> (ap_risk a \<in> {High, Critical} \<longrightarrow> ap_kind a = Human)"

definition attempt_wf :: "effect_attempt \<Rightarrow> bool" where
  "attempt_wf a \<longleftrightarrow> version_ok ''cigar.effect-attempt'' (at_schema_version a) \<and>
     at_attempt_number a \<noteq> 0 \<and> at_fencing_token a \<noteq> 0 \<and> at_started_at a < at_deadline a"

definition receipt_wf :: "effect_receipt \<Rightarrow> bool" where
  "receipt_wf r \<longleftrightarrow> version_ok ''cigar.effect-receipt'' (re_schema_version r) \<and>
     (\<forall>remote. re_remote_operation_id r = Some remote \<longrightarrow> effect_selector_ok remote) \<and>
     (re_outcome r = RSucceeded \<longrightarrow> re_response_digest r \<noteq> None \<and> re_verification_digest r \<noteq> None)"

definition event_wf :: "effect_journal_event \<Rightarrow> bool" where
  "event_wf e \<longleftrightarrow> version_ok ''cigar.effect-journal-event'' (je_schema_version e) \<and> je_sequence e \<noteq> 0 \<and>
     (je_sequence e = 1 \<longleftrightarrow> je_previous_event_digest e = None) \<and>
     can_transition_to (je_from_state e) (je_to_state e)"

definition report_wf :: "reconciliation_report \<Rightarrow> bool" where
  "report_wf r \<longleftrightarrow> version_ok ''cigar.reconciliation-report'' (rr_schema_version r) \<and>
     rr_evidence_digests r \<noteq> [] \<and> sorted_set_ok MAX_RECONCILIATION_EVIDENCE (rr_evidence_digests r) \<and>
     (rr_outcome r = Inconclusive \<longrightarrow> rr_certainty_window_end r \<noteq> None)"

definition link_wf :: "compensation_link \<Rightarrow> bool" where
  "link_wf l \<longleftrightarrow> version_ok ''cigar.compensation-link'' (cl_schema_version l) \<and>
     cl_original_effect_id l \<noteq> cl_compensation_effect_id l"

lemma validate_effect_selector_iff [simp]:
  "validate_effect_selector s path es = [] \<longleftrightarrow> es = [] \<and> effect_selector_ok s"
  by (auto simp: validate_effect_selector_def effect_selector_ok_def)

lemma within_effect_selector [simp]: "within es \<Longrightarrow> within (validate_effect_selector s path es)"
  by (simp add: validate_effect_selector_def)

interpretation intent: validated_record intent_errors intent_wf
  by unfold_locales
     (auto simp: intent_errors_def intent_wf_def strictly_sorted_unique_iff sorted_set_ok_def
       simp flip: within_def split: option.split)

interpretation approval: validated_record approval_errors approval_wf
  by unfold_locales (auto simp: approval_errors_def approval_wf_def simp flip: within_def)

interpretation attempt: validated_record attempt_errors attempt_wf
  by unfold_locales (auto simp: attempt_errors_def attempt_wf_def simp flip: within_def)

interpretation receipt: validated_record receipt_errors receipt_wf
  by unfold_locales (auto simp: receipt_errors_def receipt_wf_def simp flip: within_def split: option.split)

interpretation event: validated_record event_errors event_wf
  by unfold_locales (auto simp: event_errors_def event_wf_def simp flip: within_def)

interpretation report: validated_record report_errors report_wf
  by unfold_locales
     (auto simp: report_errors_def report_wf_def strictly_sorted_unique_iff sorted_set_ok_def simp flip: within_def)

interpretation link: validated_record link_errors link_wf
  by unfold_locales (auto simp: link_errors_def link_wf_def simp flip: within_def)

lemmas effect_validate_defs = intent_validate_def approval_validate_def attempt_validate_def receipt_validate_def
  event_validate_def report_validate_def link_validate_def

lemma effect_validate_iff [simp]:
  "intent_validate i = Inr () \<longleftrightarrow> intent_wf i" "approval_validate a = Inr () \<longleftrightarrow> approval_wf a"
  "attempt_validate t = Inr () \<longleftrightarrow> attempt_wf t" "receipt_validate r = Inr () \<longleftrightarrow> receipt_wf r"
  "event_validate e = Inr () \<longleftrightarrow> event_wf e" "report_validate p = Inr () \<longleftrightarrow> report_wf p"
  "link_validate l = Inr () \<longleftrightarrow> link_wf l"
  unfolding effect_validate_defs
  by (rule intent.accepts_iff approval.accepts_iff attempt.accepts_iff receipt.accepts_iff event.accepts_iff
      report.accepts_iff link.accepts_iff)+

end
