(* ===== verification/Service_Records.thy ===== *)
theory Service_Records
  imports BTree_Map "HOL-Library.Sublist"
begin

text \<open>
  The records of the service repository of \<open>cigar-store/src/service_repository.rs\<close>: versioned service records, atomic
  batches with their receipts and retained responses, and worker checkpoints with fencing leases, with the checked
  constructors and the integrity checks on stored values. SHA-256 is a parameter; \<open>usize\<close> counters of collections that
  fit in memory are natural numbers.
\<close>

datatype service_error =
  VInvalidInput | VNotFound | VRevisionConflict | VIdempotencyConflict | VCursorScopeMismatch | VLimitExceeded
  | VCancelled | VInjectedAbort | VUnavailable

definition MAX_SERVICE_NAMESPACE_BYTES :: nat where "MAX_SERVICE_NAMESPACE_BYTES = 128"
definition MAX_SERVICE_KEY_BYTES :: nat where "MAX_SERVICE_KEY_BYTES = 512"
definition MAX_SERVICE_RECORD_BYTES :: nat where "MAX_SERVICE_RECORD_BYTES = 16777216"
definition MAX_SERVICE_RESPONSE_BYTES :: nat where "MAX_SERVICE_RESPONSE_BYTES = MAX_SERVICE_RECORD_BYTES + 8192"
definition MAX_SERVICE_BATCH_BYTES :: nat where "MAX_SERVICE_BATCH_BYTES = 67108864"
definition MAX_SERVICE_BATCH_RECORDS :: nat where "MAX_SERVICE_BATCH_RECORDS = 256"
definition MAX_SERVICE_PAGE_ITEMS :: nat where "MAX_SERVICE_PAGE_ITEMS = 1000"
definition MAX_WORKER_CURSOR_BYTES :: nat where "MAX_WORKER_CURSOR_BYTES = 65536"
definition MAX_WORKER_SELECTOR_BYTES :: nat where "MAX_WORKER_SELECTOR_BYTES = 128"
definition MAX_RETAINED_SERVICE_IDEMPOTENCY_ENTRIES :: nat where "MAX_RETAINED_SERVICE_IDEMPOTENCY_ENTRIES = 16384"
definition MAX_RETAINED_SERVICE_RECORD_KEYS :: nat where "MAX_RETAINED_SERVICE_RECORD_KEYS = 16384"
definition MAX_RETAINED_SERVICE_VERSIONS_PER_KEY :: nat where "MAX_RETAINED_SERVICE_VERSIONS_PER_KEY = 1024"
definition MAX_RETAINED_SERVICE_VERSIONS_PER_TENANT :: nat where "MAX_RETAINED_SERVICE_VERSIONS_PER_TENANT = 65536"
definition MAX_RETAINED_SERVICE_STATE_BYTES :: nat where "MAX_RETAINED_SERVICE_STATE_BYTES = 67108864"

lemmas service_limits = MAX_SERVICE_NAMESPACE_BYTES_def MAX_SERVICE_KEY_BYTES_def MAX_SERVICE_RECORD_BYTES_def
  MAX_SERVICE_RESPONSE_BYTES_def MAX_SERVICE_BATCH_BYTES_def MAX_SERVICE_BATCH_RECORDS_def MAX_SERVICE_PAGE_ITEMS_def
  MAX_WORKER_CURSOR_BYTES_def MAX_WORKER_SELECTOR_BYTES_def MAX_RETAINED_SERVICE_IDEMPOTENCY_ENTRIES_def
  MAX_RETAINED_SERVICE_RECORD_KEYS_def MAX_RETAINED_SERVICE_VERSIONS_PER_KEY_def
  MAX_RETAINED_SERVICE_VERSIONS_PER_TENANT_def MAX_RETAINED_SERVICE_STATE_BYTES_def

subsection \<open>Selectors, digests and expectations\<close>

definition service_selector :: "string \<Rightarrow> nat \<Rightarrow> bool \<Rightarrow> (service_error, unit) result" where
  "service_selector s maximum allow_empty =
     (if (\<not> allow_empty \<and> s = []) \<or> length s > maximum \<or> \<not> list_all is_ascii_graphic s then Inl VInvalidInput else Inr ())"

definition exact_digest :: "(string \<Rightarrow> string) \<Rightarrow> string \<Rightarrow> content_digest" where
  "exact_digest sha256 bytes = ''1220'' @ hex (sha256 bytes)"

datatype service_expected_version = ExpectAbsent | ExpectVersion u64

definition validate_expected :: "service_expected_version \<Rightarrow> (service_error, unit) result" where
  "validate_expected expected = (if expected = ExpectVersion 0 then Inl VInvalidInput else Inr ())"

definition check_expected :: "service_expected_version \<Rightarrow> u64 option \<Rightarrow> (service_error, unit) result" where
  "check_expected expected actual =
     (if (case expected of ExpectAbsent \<Rightarrow> actual = None | ExpectVersion version \<Rightarrow> actual = Some version)
      then Inr () else Inl VRevisionConflict)"

definition increment :: "u64 \<Rightarrow> (service_error, u64) result" where
  "increment n = ok_or (checked_add n 1) VLimitExceeded"

subsection \<open>Service records and batches\<close>

record service_record_locator =
  sl_tenant_id :: record_id
  sl_namespace :: string
  sl_key :: string

definition locator_new :: "record_id \<Rightarrow> string \<Rightarrow> string \<Rightarrow> (service_error, service_record_locator) result" where
  "locator_new tenant_id namespace key =
     rbind (service_selector namespace MAX_SERVICE_NAMESPACE_BYTES False) (\<lambda>_.
     rbind (service_selector key MAX_SERVICE_KEY_BYTES False) (\<lambda>_.
       Inr \<lparr>sl_tenant_id = tenant_id, sl_namespace = namespace, sl_key = key\<rparr>))"

record service_record =
  sr_locator :: service_record_locator
  sr_version :: u64
  sr_store_revision :: u64
  sr_digest :: content_digest
  sr_bytes :: string

datatype service_record_selection = LatestVersion | ExactVersion u64

record service_record_write =
  sw_namespace :: string
  sw_key :: string
  sw_expected :: service_expected_version
  sw_bytes :: string

definition validate_write :: "service_record_write \<Rightarrow> (service_error, unit) result" where
  "validate_write w =
     rbind (service_selector (sw_namespace w) MAX_SERVICE_NAMESPACE_BYTES False) (\<lambda>_.
     rbind (service_selector (sw_key w) MAX_SERVICE_KEY_BYTES False) (\<lambda>_.
     rbind (validate_expected (sw_expected w)) (\<lambda>_.
       if sw_bytes w = [] \<or> length (sw_bytes w) > MAX_SERVICE_RECORD_BYTES then Inl VLimitExceeded else Inr ())))"

definition write_new ::
    "string \<Rightarrow> string \<Rightarrow> service_expected_version \<Rightarrow> string \<Rightarrow> (service_error, service_record_write) result" where
  "write_new namespace key expected bytes =
     (let w = \<lparr>sw_namespace = namespace, sw_key = key, sw_expected = expected, sw_bytes = bytes\<rparr>
      in rbind (validate_write w) (\<lambda>_. Inr w))"

fun validate_writes_loop ::
    "service_record_write list \<Rightarrow> nat \<Rightarrow> (string \<times> string) list \<Rightarrow> (service_error, unit) result" where
  "validate_writes_loop [] bytes keys = Inr ()"
| "validate_writes_loop (w # ws) bytes keys =
     rbind (validate_write w) (\<lambda>_.
       if bytes + length (sw_bytes w) > MAX_SERVICE_BATCH_BYTES \<or> (sw_namespace w, sw_key w) \<in> set keys then Inl VInvalidInput
       else validate_writes_loop ws (bytes + length (sw_bytes w)) ((sw_namespace w, sw_key w) # keys))"

definition validate_writes :: "service_record_write list \<Rightarrow> (service_error, unit) result" where
  "validate_writes writes =
     (if writes = [] \<or> length writes > MAX_SERVICE_BATCH_RECORDS then Inl VLimitExceeded
      else validate_writes_loop writes 0 [])"

record service_response =
  rs_status_code :: u16
  rs_content_type :: string
  rs_digest :: content_digest
  rs_bytes :: string

definition response_shape :: "u16 \<Rightarrow> string \<Rightarrow> string \<Rightarrow> bool" where
  "response_shape status_code content_type bytes \<longleftrightarrow> 100 \<le> status_code \<and> status_code \<le> 599 \<and> content_type \<noteq> [] \<and>
     length content_type \<le> 128 \<and> list_all is_ascii_graphic content_type \<and> length bytes \<le> MAX_SERVICE_RESPONSE_BYTES"

definition response_new :: "(string \<Rightarrow> string) \<Rightarrow> u16 \<Rightarrow> string \<Rightarrow> string \<Rightarrow> (service_error, service_response) result" where
  "response_new sha256 status_code content_type bytes =
     (if \<not> response_shape status_code content_type bytes then Inl VInvalidInput
      else Inr \<lparr>rs_status_code = status_code, rs_content_type = content_type, rs_digest = exact_digest sha256 bytes,
             rs_bytes = bytes\<rparr>)"

definition validate_response :: "(string \<Rightarrow> string) \<Rightarrow> service_response \<Rightarrow> (service_error, unit) result" where
  "validate_response sha256 r =
     (if \<not> response_shape (rs_status_code r) (rs_content_type r) (rs_bytes r) \<or> exact_digest sha256 (rs_bytes r) \<noteq> rs_digest r
      then Inl VUnavailable else Inr ())"

record service_idempotency =
  vi_operation :: string
  vi_key :: string
  vi_request_digest :: content_digest

definition service_idempotency_new :: "string \<Rightarrow> string \<Rightarrow> content_digest \<Rightarrow> (service_error, service_idempotency) result" where
  "service_idempotency_new operation key request_digest =
     rbind (service_selector operation MAX_SERVICE_NAMESPACE_BYTES False) (\<lambda>_.
       Inr \<lparr>vi_operation = operation, vi_key = key, vi_request_digest = request_digest\<rparr>)"

record service_batch =
  ba_tenant_id :: record_id
  ba_expected_store_revision :: "u64 option"
  ba_writes :: "service_record_write list"
  ba_idempotency :: "service_idempotency option"
  ba_response :: service_response

definition batch_new :: "record_id \<Rightarrow> service_record_write list \<Rightarrow> service_response \<Rightarrow> (service_error, service_batch) result" where
  "batch_new tenant_id writes response =
     rbind (validate_writes writes) (\<lambda>_.
       Inr \<lparr>ba_tenant_id = tenant_id, ba_expected_store_revision = None, ba_writes = writes, ba_idempotency = None,
         ba_response = response\<rparr>)"

definition with_expected_store_revision :: "u64 \<Rightarrow> service_batch \<Rightarrow> service_batch" where
  "with_expected_store_revision revision b = b\<lparr>ba_expected_store_revision := Some revision\<rparr>"

definition with_idempotency :: "service_idempotency \<Rightarrow> service_batch \<Rightarrow> service_batch" where
  "with_idempotency idempotency b = b\<lparr>ba_idempotency := Some idempotency\<rparr>"

record service_record_version =
  rv_namespace :: string
  rv_key :: string
  rv_version :: u64
  rv_digest :: content_digest

record service_batch_receipt =
  sb_revision :: u64
  sb_records :: "service_record_version list"
  sb_response :: service_response
  sb_replayed :: bool

record service_idempotency_entry =
  ie_request_digest :: content_digest
  ie_receipt :: service_batch_receipt

subsection \<open>Worker states\<close>

record worker_locator =
  wl_tenant_id :: record_id
  wl_worker :: string

definition worker_locator_new :: "record_id \<Rightarrow> string \<Rightarrow> (service_error, worker_locator) result" where
  "worker_locator_new tenant_id worker =
     rbind (service_selector worker MAX_WORKER_SELECTOR_BYTES False) (\<lambda>_.
       Inr \<lparr>wl_tenant_id = tenant_id, wl_worker = worker\<rparr>)"

record worker_state =
  ws_locator :: worker_locator
  ws_version :: u64
  ws_store_revision :: u64
  ws_cursor_digest :: content_digest
  ws_cursor :: string
  ws_heartbeat :: u64
  ws_lease_owner :: "string option"
  ws_fencing_token :: u64
  ws_lease_expires_at :: "u64 option"

datatype worker_update =
  Claim service_expected_version string u64 u64
  | Checkpoint service_expected_version string u64 string u64 u64
  | Release service_expected_version string u64 u64

text \<open>
  The fields in the order of the source: a claim has the expected version, the owner, the present time and the expiry; a
  checkpoint the expected version, the owner, its fencing token, the cursor, the heartbeat and the renewed expiry; a
  release the expected version, the owner, its fencing token and the heartbeat.
\<close>

fun update_fields :: "worker_update \<Rightarrow> service_expected_version \<times> string \<times> u64 \<times> u64 option \<times> nat" where
  "update_fields (Claim expected owner now expires_at) = (expected, owner, now, Some expires_at, 0)"
| "update_fields (Checkpoint expected owner token cursor heartbeat expires_at) =
     (expected, owner, heartbeat, Some expires_at, length cursor)"
| "update_fields (Release expected owner token heartbeat) = (expected, owner, heartbeat, None, 0)"

definition validate_worker_update :: "worker_update \<Rightarrow> (service_error, unit) result" where
  "validate_worker_update update =
     (let (expected, owner, heartbeat, expiry, cursor_length) = update_fields update
      in rbind (validate_expected expected) (\<lambda>_.
         rbind (service_selector owner MAX_WORKER_SELECTOR_BYTES False) (\<lambda>_.
           if heartbeat = 0 \<or> (case expiry of None \<Rightarrow> False | Some expiry \<Rightarrow> expiry \<le> heartbeat)
              \<or> cursor_length > MAX_WORKER_CURSOR_BYTES
           then Inl VInvalidInput else Inr ())))"

definition check_update :: "bool \<Rightarrow> service_error \<Rightarrow> (service_error, unit) result" where
  "check_update bad e = (if bad then Inl e else Inr ())"

fun transition_worker ::
    "(string \<Rightarrow> string) \<Rightarrow> worker_locator \<Rightarrow> worker_state option \<Rightarrow> worker_update \<Rightarrow> u64 \<Rightarrow> (service_error, worker_state) result" where
  "transition_worker sha256 locator current (Claim expected owner now expires_at) revision =
     rbind (check_expected expected (map_option ws_version current)) (\<lambda>_.
     rbind (check_update (case current of None \<Rightarrow> False | Some s \<Rightarrow> ws_lease_owner s \<noteq> None \<and>
              (case ws_lease_expires_at s of None \<Rightarrow> False | Some expiry \<Rightarrow> expiry > now)) VRevisionConflict) (\<lambda>_.
     rbind (check_update (case current of None \<Rightarrow> False | Some s \<Rightarrow> ws_heartbeat s > now) VInvalidInput) (\<lambda>_.
     rbind (case current of None \<Rightarrow> Inr 1 | Some s \<Rightarrow> increment (ws_version s)) (\<lambda>version.
     rbind (case current of None \<Rightarrow> Inr 1 | Some s \<Rightarrow> increment (ws_fencing_token s)) (\<lambda>fencing_token.
       let cursor = (case current of None \<Rightarrow> [] | Some s \<Rightarrow> ws_cursor s)
       in Inr \<lparr>ws_locator = locator, ws_version = version, ws_store_revision = revision,
            ws_cursor_digest = exact_digest sha256 cursor, ws_cursor = cursor, ws_heartbeat = now,
            ws_lease_owner = Some owner, ws_fencing_token = fencing_token, ws_lease_expires_at = Some expires_at\<rparr>)))))"
| "transition_worker sha256 locator current (Checkpoint expected owner fencing_token cursor heartbeat expires_at) revision =
     rbind (ok_or current VNotFound) (\<lambda>s.
     rbind (check_expected expected (Some (ws_version s))) (\<lambda>_.
     rbind (check_update (ws_lease_owner s \<noteq> Some owner \<or> ws_fencing_token s \<noteq> fencing_token \<or>
              (case ws_lease_expires_at s of None \<Rightarrow> True | Some expiry \<Rightarrow> expiry \<le> heartbeat) \<or>
              heartbeat < ws_heartbeat s) VRevisionConflict) (\<lambda>_.
     rbind (increment (ws_version s)) (\<lambda>version.
       Inr \<lparr>ws_locator = locator, ws_version = version, ws_store_revision = revision,
         ws_cursor_digest = exact_digest sha256 cursor, ws_cursor = cursor, ws_heartbeat = heartbeat,
         ws_lease_owner = Some owner, ws_fencing_token = fencing_token, ws_lease_expires_at = Some expires_at\<rparr>))))"
| "transition_worker sha256 locator current (Release expected owner fencing_token heartbeat) revision =
     rbind (ok_or current VNotFound) (\<lambda>s.
     rbind (check_expected expected (Some (ws_version s))) (\<lambda>_.
     rbind (check_update (ws_lease_owner s \<noteq> Some owner \<or> ws_fencing_token s \<noteq> fencing_token \<or>
              heartbeat < ws_heartbeat s) VRevisionConflict) (\<lambda>_.
     rbind (increment (ws_version s)) (\<lambda>version.
       Inr \<lparr>ws_locator = locator, ws_version = version, ws_store_revision = revision,
         ws_cursor_digest = ws_cursor_digest s, ws_cursor = ws_cursor s, ws_heartbeat = heartbeat,
         ws_lease_owner = None, ws_fencing_token = fencing_token, ws_lease_expires_at = None\<rparr>))))"

definition lease_shape_valid :: "worker_state \<Rightarrow> bool" where
  "lease_shape_valid w \<longleftrightarrow> (case (ws_lease_owner w, ws_lease_expires_at w) of
     (Some owner, Some expiry) \<Rightarrow> is_ok (service_selector owner MAX_WORKER_SELECTOR_BYTES False) \<and> expiry > ws_heartbeat w
   | (None, None) \<Rightarrow> True
   | _ \<Rightarrow> False)"

definition validate_worker_state ::
    "(string \<Rightarrow> string) \<Rightarrow> u64 \<Rightarrow> worker_locator \<Rightarrow> worker_state \<Rightarrow> (service_error, unit) result" where
  "validate_worker_state sha256 state_revision locator w =
     (if ws_locator w \<noteq> locator \<or> ws_version w = 0 \<or> ws_store_revision w = 0 \<or> ws_store_revision w > state_revision
         \<or> length (ws_cursor w) > MAX_WORKER_CURSOR_BYTES \<or> exact_digest sha256 (ws_cursor w) \<noteq> ws_cursor_digest w
         \<or> ws_heartbeat w = 0 \<or> ws_fencing_token w = 0 \<or> \<not> lease_shape_valid w
      then Inl VUnavailable else Inr ())"

end
