(* ===== verification/Memory_Store.thy ===== *)
theory Memory_Store
  imports Effect_Protocol Service_Records "HOL-Library.Product_Lexorder"
begin

text \<open>
  The in-memory MVCC repository of \<open>cigar-store/src/memory.rs\<close>, with the types of \<open>cigar-store/src/model.rs\<close>: immutable
  snapshots, optimistic write transactions and idempotent commits over the atoms, provenance edges, bundles, source
  snapshots, context commits, effect journals, effect records, blobs and outbox of each tenant. Lock poisoning is not
  modelled; the cancellation token is the argument \<open>cancelled\<close> of the operation that begins a read, and a transaction that
  has begun is not cancelled. The operations on the service and worker records of the same tenant state are in
  \<open>Service_Store\<close>.
\<close>

datatype store_error =
  SInvalidContext | SNotFound | SRevisionConflict | SInvalidRecord | SLimitExceeded | SMixedSnapshot
  | SCancelled | SInjectedAbort | SUnavailable

definition MAX_PURPOSE_BYTES :: nat where "MAX_PURPOSE_BYTES = 256"
definition MAX_OUTBOX_TOPIC_BYTES :: nat where "MAX_OUTBOX_TOPIC_BYTES = 256"
definition MAX_EFFECT_RECORD_BYTES :: nat where "MAX_EFFECT_RECORD_BYTES = 16777216"
definition MAX_QUERY_PAGE_ITEMS :: nat where "MAX_QUERY_PAGE_ITEMS = 1000"
definition MAX_ATOM_BATCH_ITEMS :: nat where "MAX_ATOM_BATCH_ITEMS = 1000"
definition MAX_BLOB_BYTES :: nat where "MAX_BLOB_BYTES = 67108864"
definition MAX_LEGACY_ATOM_INDEX_REBUILD_ITEMS :: nat where "MAX_LEGACY_ATOM_INDEX_REBUILD_ITEMS = 100000"
definition MAX_DERIVATION_VISITED :: nat where "MAX_DERIVATION_VISITED = 100000"

record access_context =
  ac_tenant_id :: record_id
  ac_purpose :: string

definition access_context_new :: "record_id \<Rightarrow> string \<Rightarrow> (store_error, access_context) result" where
  "access_context_new tenant_id purpose =
     (if purpose = [] \<or> length purpose > MAX_PURPOSE_BYTES \<or> list_ex is_ascii_control purpose then Inl SInvalidContext
      else Inr \<lparr>ac_tenant_id = tenant_id, ac_purpose = purpose\<rparr>)"

record idempotency_identity =
  ii_scope :: string
  ii_key :: string
  ii_request_digest :: content_digest

definition identity_new :: "string \<Rightarrow> string \<Rightarrow> content_digest \<Rightarrow> (store_error, idempotency_identity) result" where
  "identity_new scope key request_digest =
     (if scope = [] \<or> length scope > MAX_PURPOSE_BYTES \<or> list_ex is_ascii_control scope then Inl SInvalidContext
      else Inr \<lparr>ii_scope = scope, ii_key = key, ii_request_digest = request_digest\<rparr>)"

record outbox_message =
  om_message_id :: record_id
  om_topic :: string
  om_payload_digest :: content_digest

definition message_validate :: "outbox_message \<Rightarrow> (store_error, unit) result" where
  "message_validate m =
     (if om_topic m = [] \<or> length (om_topic m) > MAX_OUTBOX_TOPIC_BYTES \<or> list_ex is_ascii_control (om_topic m)
      then Inl SInvalidRecord else Inr ())"

record outbox_record =
  or_message :: outbox_message
  or_causal_revision :: u64

record effect_record_envelope =
  ev_effect_id :: record_id
  ev_effect_version :: u64
  ev_record_digest :: content_digest
  ev_bytes :: string

definition envelope_new ::
    "(string \<Rightarrow> string) \<Rightarrow> record_id \<Rightarrow> u64 \<Rightarrow> content_digest \<Rightarrow> string \<Rightarrow> (store_error, effect_record_envelope) result" where
  "envelope_new sha256 effect_id effect_version record_digest bytes =
     (if bytes = [] \<or> length bytes > MAX_EFFECT_RECORD_BYTES \<or> ''1220'' @ hex (sha256 bytes) \<noteq> record_digest
      then Inl SInvalidRecord
      else Inr \<lparr>ev_effect_id = effect_id, ev_effect_version = effect_version, ev_record_digest = record_digest,
             ev_bytes = bytes\<rparr>)"

record commit_receipt =
  cr_revision :: u64
  cr_replayed :: bool

record blob_record =
  bl_reference :: blob_ref
  bl_bytes :: string

text \<open>Lengths are converted to 64 bits with \<open>try_from\<close>.\<close>

definition u64_try_from :: "nat \<Rightarrow> u64 option" where
  "u64_try_from n = (if n < 2 ^ 64 then Some (of_nat n) else None)"

lemma u64_try_from_SomeD: "u64_try_from n = Some w \<Longrightarrow> unat w = n"
  by (auto simp: u64_try_from_def unsigned_of_nat take_bit_nat_eq_self split: if_split_asm)

definition blob_record_new :: "blob_ref \<Rightarrow> string \<Rightarrow> (store_error, blob_record) result" where
  "blob_record_new reference bytes =
     (if length bytes > MAX_BLOB_BYTES \<or> u64_try_from (length bytes) \<noteq> Some (br_size_bytes reference) then Inl SInvalidRecord
      else Inr \<lparr>bl_reference = reference, bl_bytes = bytes\<rparr>)"

record blob_state =
  bs_reference :: blob_ref
  bs_bytes :: "string option"

definition blob_in_memory :: "blob_record \<Rightarrow> blob_state" where
  "blob_in_memory b = \<lparr>bs_reference = bl_reference b, bs_bytes = Some (bl_bytes b)\<rparr>"

definition blob_state_record :: "blob_state \<Rightarrow> (store_error, blob_record option) result" where
  "blob_state_record b = (case bs_bytes b of None \<Rightarrow> Inr None
     | Some bytes \<Rightarrow> rbind (blob_record_new (bs_reference b) bytes) (\<lambda>r. Inr (Some r)))"

record tenant_state =
  ts_atoms :: "(version_id, context_atom) btree"
  ts_atom_versions_by_id :: "(record_id, version_id) btree"
  ts_current_versions_by_lineage :: "(string, version_id) btree"
  ts_edges :: "(record_id, context_edge) btree"
  ts_bundles :: "(version_id, context_bundle) btree"
  ts_snapshots :: "(record_id, source_snapshot) btree"
  ts_context_commits :: "(record_id, context_commit list) btree"
  ts_effects :: "(record_id, effect_journal_event list) btree"
  ts_effect_records :: "(record_id, effect_record_envelope) btree"
  ts_blobs :: "(content_digest, blob_state) btree"
  ts_outbox :: "outbox_record list"
  ts_idempotency :: "(string \<times> string, content_digest \<times> commit_receipt) btree"
  ts_service_records :: "(string \<times> string, service_record list) btree"
  ts_service_idempotency :: "(string \<times> string, service_idempotency_entry) btree"
  ts_worker_states :: "(string, worker_state) btree"

definition tenant_default :: tenant_state where
  "tenant_default = \<lparr>ts_atoms = [], ts_atom_versions_by_id = [], ts_current_versions_by_lineage = [], ts_edges = [],
     ts_bundles = [], ts_snapshots = [], ts_context_commits = [], ts_effects = [], ts_effect_records = [], ts_blobs = [],
     ts_outbox = [], ts_idempotency = [], ts_service_records = [], ts_service_idempotency = [], ts_worker_states = []\<rparr>"

record committed_state =
  st_revision :: u64
  st_tenants :: "(record_id, tenant_state) btree"

record memory_store =
  ms_history :: "committed_state list"
  ms_fail_next_commit :: bool

definition store_default :: memory_store where
  "store_default = \<lparr>ms_history = [\<lparr>st_revision = 0, st_tenants = []\<rparr>], ms_fail_next_commit = False\<rparr>"

datatype snapshot_selection = Latest | Revision u64

subsection \<open>Reading\<close>

definition begin_read ::
    "memory_store \<Rightarrow> snapshot_selection \<Rightarrow> bool \<Rightarrow> (store_error, committed_state) result" where
  "begin_read s selection cancelled =
     (if cancelled then Inl SCancelled
      else ok_or (case selection of
             Latest \<Rightarrow> (if ms_history s = [] then None else Some (last (ms_history s)))
           | Revision r \<Rightarrow> find (\<lambda>st. st_revision st = r) (ms_history s)) SNotFound)"

definition tenant_of :: "committed_state \<Rightarrow> record_id \<Rightarrow> tenant_state" where
  "tenant_of st tenant = (case bt_get (st_tenants st) tenant of None \<Rightarrow> tenant_default | Some t \<Rightarrow> t)"

definition get_effect :: "committed_state \<Rightarrow> record_id \<Rightarrow> record_id \<Rightarrow> effect_journal_event list" where
  "get_effect st tenant effect =
     (case bt_get (st_tenants st) tenant of None \<Rightarrow> []
      | Some t \<Rightarrow> (case bt_get (ts_effects t) effect of None \<Rightarrow> [] | Some es \<Rightarrow> es))"

definition get_effect_record :: "committed_state \<Rightarrow> record_id \<Rightarrow> record_id \<Rightarrow> effect_record_envelope option" where
  "get_effect_record st tenant effect =
     (case bt_get (st_tenants st) tenant of None \<Rightarrow> None | Some t \<Rightarrow> bt_get (ts_effect_records t) effect)"

definition read_outbox :: "committed_state \<Rightarrow> record_id \<Rightarrow> outbox_record list" where
  "read_outbox st tenant = (case bt_get (st_tenants st) tenant of None \<Rightarrow> [] | Some t \<Rightarrow> ts_outbox t)"

definition get_atom :: "committed_state \<Rightarrow> record_id \<Rightarrow> version_id \<Rightarrow> context_atom option" where
  "get_atom st tenant version = Option.bind (bt_get (st_tenants st) tenant) (\<lambda>t. bt_get (ts_atoms t) version)"

text \<open>The index lookup both readers by identity share.\<close>

definition atom_by_id :: "tenant_state \<Rightarrow> record_id \<Rightarrow> (store_error, (version_id \<times> context_atom) option) result" where
  "atom_by_id t atom_id =
     (case bt_get (ts_atom_versions_by_id t) atom_id of
        None \<Rightarrow> Inr None
      | Some version \<Rightarrow>
          rbind (ok_or (bt_get (ts_atoms t) version) SInvalidRecord) (\<lambda>atom.
            if ca_atom_id atom \<noteq> atom_id then Inl SInvalidRecord else Inr (Some (version, atom))))"

fun atoms_by_id_loop ::
    "tenant_state option \<Rightarrow> record_id list \<Rightarrow> record_id list \<Rightarrow> (store_error, context_atom option list) result" where
  "atoms_by_id_loop tenant unique [] = Inr []"
| "atoms_by_id_loop tenant unique (atom_id # atom_ids) =
     (if atom_id \<in> set unique then Inl SInvalidRecord
      else rbind (case tenant of None \<Rightarrow> Inr None | Some t \<Rightarrow> rbind (atom_by_id t atom_id) (\<lambda>found. Inr (map_option snd found))) (\<lambda>atom.
           rbind (atoms_by_id_loop tenant (atom_id # unique) atom_ids) (\<lambda>atoms. Inr (atom # atoms))))"

definition get_atoms_by_id ::
    "committed_state \<Rightarrow> record_id \<Rightarrow> record_id list \<Rightarrow> (store_error, context_atom option list) result" where
  "get_atoms_by_id st tenant atom_ids =
     (if length atom_ids > MAX_ATOM_BATCH_ITEMS then Inl SLimitExceeded
      else atoms_by_id_loop (bt_get (st_tenants st) tenant) [] atom_ids)"

definition get_active_atom_by_id ::
    "committed_state \<Rightarrow> record_id \<Rightarrow> record_id \<Rightarrow> (store_error, context_atom option) result" where
  "get_active_atom_by_id st tenant atom_id =
     (case bt_get (st_tenants st) tenant of
        None \<Rightarrow> Inr None
      | Some t \<Rightarrow>
          rbind (atom_by_id t atom_id) (\<lambda>found.
            case found of
              None \<Rightarrow> Inr None
            | Some (version, atom) \<Rightarrow>
                Inr (if ca_lifecycle atom = Active \<and> bt_get (ts_current_versions_by_lineage t) (ca_lineage_id atom) = Some version
                     then Some atom else None)))"

record atom_cursor =
  cu_revision :: u64
  cu_last_version :: version_id

record atom_page =
  pg_items :: "context_atom list"
  pg_next :: "atom_cursor option"

definition query_atoms ::
    "committed_state \<Rightarrow> record_id \<Rightarrow> atom_kind option \<Rightarrow> nat \<Rightarrow> atom_cursor option \<Rightarrow> (store_error, atom_page) result" where
  "query_atoms st tenant kind limit cursor =
     (if limit = 0 \<or> limit > MAX_QUERY_PAGE_ITEMS then Inl SLimitExceeded
      else if (case cursor of None \<Rightarrow> False | Some c \<Rightarrow> cu_revision c \<noteq> st_revision st) then Inl SMixedSnapshot
      else
        let entries = (case bt_get (st_tenants st) tenant of None \<Rightarrow> [] | Some t \<Rightarrow> ts_atoms t);
            found = take (limit + 1) (filter (\<lambda>(version, atom).
              (case cursor of None \<Rightarrow> True | Some c \<Rightarrow> version > cu_last_version c) \<and>
              (case kind of None \<Rightarrow> True | Some k \<Rightarrow> ca_kind atom = k)) entries);
            has_more = length found > limit;
            items = map snd (take limit found)
        in Inr \<lparr>pg_items = items,
             pg_next = (if has_more \<and> items \<noteq> []
               then Some \<lparr>cu_revision = st_revision st, cu_last_version = ca_version_id (last items)\<rparr> else None)\<rparr>)"

definition edges_from ::
    "committed_state \<Rightarrow> record_id \<Rightarrow> version_id \<Rightarrow> edge_kind option \<Rightarrow> nat \<Rightarrow> (store_error, context_edge list) result" where
  "edges_from st tenant version kind limit =
     (if limit = 0 \<or> limit > MAX_QUERY_PAGE_ITEMS then Inl SLimitExceeded
      else Inr (take limit (filter (\<lambda>e. ed_from_version e = version \<and> (case kind of None \<Rightarrow> True | Some k \<Rightarrow> ed_kind e = k))
             (case bt_get (st_tenants st) tenant of None \<Rightarrow> [] | Some t \<Rightarrow> bt_values (ts_edges t)))))"

definition get_bundle :: "committed_state \<Rightarrow> record_id \<Rightarrow> version_id \<Rightarrow> context_bundle option" where
  "get_bundle st tenant bundle_id = Option.bind (bt_get (st_tenants st) tenant) (\<lambda>t. bt_get (ts_bundles t) bundle_id)"

definition get_snapshot :: "committed_state \<Rightarrow> record_id \<Rightarrow> record_id \<Rightarrow> source_snapshot option" where
  "get_snapshot st tenant snapshot = Option.bind (bt_get (st_tenants st) tenant) (\<lambda>t. bt_get (ts_snapshots t) snapshot)"

definition context_commits :: "committed_state \<Rightarrow> record_id \<Rightarrow> record_id \<Rightarrow> context_commit list" where
  "context_commits st tenant space =
     (case bt_get (st_tenants st) tenant of None \<Rightarrow> []
      | Some t \<Rightarrow> (case bt_get (ts_context_commits t) space of None \<Rightarrow> [] | Some cs \<Rightarrow> cs))"

text \<open>The in-memory store has no separate blob repository: a blob without bytes is unavailable.\<close>

definition get_blob :: "committed_state \<Rightarrow> record_id \<Rightarrow> content_digest \<Rightarrow> (store_error, blob_record option) result" where
  "get_blob st tenant digest =
     (case Option.bind (bt_get (st_tenants st) tenant) (\<lambda>t. bt_get (ts_blobs t) digest) of
        None \<Rightarrow> Inr None
      | Some blob \<Rightarrow> rbind (blob_state_record blob) (\<lambda>found. case found of Some r \<Rightarrow> Inr (Some r) | None \<Rightarrow> Inl SUnavailable))"

definition idempotent_result ::
    "committed_state \<Rightarrow> record_id \<Rightarrow> idempotency_identity \<Rightarrow> (store_error, commit_receipt option) result" where
  "idempotent_result st tenant identity =
     (case Option.bind (bt_get (st_tenants st) tenant) (\<lambda>t. bt_get (ts_idempotency t) (ii_scope identity, ii_key identity)) of
        None \<Rightarrow> Inr None
      | Some (digest, receipt) \<Rightarrow>
          if digest \<noteq> ii_request_digest identity then Inl SInvalidRecord else Inr (Some receipt))"

subsection \<open>Writing\<close>

datatype staged_mutation =
  StagedSnapshot source_snapshot | StagedAtoms "context_atom list" "context_edge list" | StagedBundle context_bundle
  | StagedCommit context_commit | StagedEvent effect_journal_event | StagedRecord effect_record_envelope
  | StagedBlob blob_record | StagedOutbox outbox_message

definition stage_snapshot :: "source_snapshot \<Rightarrow> staged_mutation list \<Rightarrow> (store_error, staged_mutation list) result" where
  "stage_snapshot snapshot staged =
     rbind (map_err (\<lambda>_. SInvalidRecord) (snapshot_validate snapshot)) (\<lambda>_. Inr (staged @ [StagedSnapshot snapshot]))"

fun publishable :: "record_id \<Rightarrow> context_atom list \<Rightarrow> (store_error, unit) result" where
  "publishable tenant [] = Inr ()"
| "publishable tenant (atom # atoms) =
     rbind (map_err (\<lambda>_. SInvalidRecord) (atom_validate atom)) (\<lambda>_.
       if sc_tenant_id (ca_scope atom) \<noteq> tenant then Inl SInvalidContext else publishable tenant atoms)"

fun edges_valid :: "context_edge list \<Rightarrow> (store_error, unit) result" where
  "edges_valid [] = Inr ()"
| "edges_valid (e # es) = rbind (map_err (\<lambda>_. SInvalidRecord) (edge_validate e)) (\<lambda>_. edges_valid es)"

definition publish_atoms ::
    "record_id \<Rightarrow> context_atom list \<Rightarrow> context_edge list \<Rightarrow> staged_mutation list \<Rightarrow> (store_error, staged_mutation list) result" where
  "publish_atoms tenant atoms edges staged =
     (if atoms = [] then Inl SInvalidRecord
      else rbind (publishable tenant atoms) (\<lambda>_. rbind (edges_valid edges) (\<lambda>_. Inr (staged @ [StagedAtoms atoms edges]))))"

definition put_bundle :: "context_bundle \<Rightarrow> staged_mutation list \<Rightarrow> (store_error, staged_mutation list) result" where
  "put_bundle b staged = rbind (map_err (\<lambda>_. SInvalidRecord) (bundle_validate b)) (\<lambda>_. Inr (staged @ [StagedBundle b]))"

definition append_context_commit ::
    "string \<Rightarrow> context_commit \<Rightarrow> staged_mutation list \<Rightarrow> (store_error, staged_mutation list) result" where
  "append_context_commit purpose c staged =
     rbind (map_err (\<lambda>_. SInvalidRecord) (commit_validate c)) (\<lambda>_.
       if cm_purpose c \<noteq> purpose then Inl SInvalidContext else Inr (staged @ [StagedCommit c]))"

definition put_blob ::
    "(string \<Rightarrow> string) \<Rightarrow> blob_record \<Rightarrow> staged_mutation list \<Rightarrow> (store_error, staged_mutation list) result" where
  "put_blob sha256 blob staged =
     (if ''1220'' @ hex (sha256 (bl_bytes blob)) \<noteq> br_digest (bl_reference blob) then Inl SInvalidRecord
      else Inr (staged @ [StagedBlob blob]))"

definition append_effect_event ::
    "effect_journal_event \<Rightarrow> staged_mutation list \<Rightarrow> (store_error, staged_mutation list) result" where
  "append_effect_event event staged =
     rbind (map_err (\<lambda>_. SInvalidRecord) (event_validate event)) (\<lambda>_. Inr (staged @ [StagedEvent event]))"

definition put_effect_record ::
    "effect_record_envelope \<Rightarrow> staged_mutation list \<Rightarrow> (store_error, staged_mutation list) result" where
  "put_effect_record envelope staged = Inr (staged @ [StagedRecord envelope])"

definition enqueue_outbox ::
    "outbox_message \<Rightarrow> staged_mutation list \<Rightarrow> (store_error, staged_mutation list) result" where
  "enqueue_outbox message staged =
     rbind (message_validate message) (\<lambda>_. Inr (staged @ [StagedOutbox message]))"

definition insert_immutable :: "'k::linorder \<Rightarrow> 'v \<Rightarrow> ('k, 'v) btree \<Rightarrow> (store_error, ('k, 'v) btree) result" where
  "insert_immutable key v m = (case bt_get m key of
     Some existing \<Rightarrow> if existing = v then Inr m else Inl SInvalidRecord
   | None \<Rightarrow> Inr (bt_insert key v m))"

definition newer :: "context_atom \<Rightarrow> context_atom \<Rightarrow> bool" where
  "newer candidate existing \<longleftrightarrow> te_observed_at (ca_temporal candidate) > te_observed_at (ca_temporal existing) \<or>
     (te_observed_at (ca_temporal candidate) = te_observed_at (ca_temporal existing) \<and>
      ca_version_id candidate > ca_version_id existing)"

definition update_current_lineage ::
    "(version_id, context_atom) btree \<Rightarrow> context_atom \<Rightarrow> (string, version_id) btree \<Rightarrow> (store_error, (string, version_id) btree) result" where
  "update_current_lineage atoms candidate current =
     rbind (case bt_get current (ca_lineage_id candidate) of
              Some version \<Rightarrow> rbind (ok_or (bt_get atoms version) SInvalidRecord) (\<lambda>existing. Inr (newer candidate existing))
            | None \<Rightarrow> Inr True) (\<lambda>replace.
       Inr (if replace then bt_insert (ca_lineage_id candidate) (ca_version_id candidate) current else current))"

definition derived_from :: "context_edge list \<Rightarrow> version_id \<Rightarrow> version_id list" where
  "derived_from edges version =
     map ed_to_version (filter (\<lambda>e. ed_kind e = DerivedFrom \<and> ed_from_version e = version) edges)"

text \<open>
  The depth-first search along derivation edges. The stack is a list with its top first; every round either shortens
  it or visits a new version, and the search gives up after 100000 versions.
\<close>

function cycle_search ::
    "context_edge list \<Rightarrow> version_id \<Rightarrow> version_id list \<Rightarrow> version_id list \<Rightarrow> (store_error, bool) result" where
  "cycle_search edges source [] visited = Inr False"
| "cycle_search edges source (current # pending) visited =
     (if current = source then Inr True
      else if current \<in> set visited then cycle_search edges source pending visited
      else if Suc (length visited) > MAX_DERIVATION_VISITED then Inl SLimitExceeded
      else cycle_search edges source (rev (derived_from edges current) @ pending) (current # visited))"
  by pat_completeness auto

termination
  by (relation "measures [\<lambda>(edges, source, pending, visited). MAX_DERIVATION_VISITED - length visited,
       \<lambda>(edges, source, pending, visited). length pending]") auto

definition creates_derivation_cycle :: "(record_id, context_edge) btree \<Rightarrow> context_edge \<Rightarrow> (store_error, bool) result" where
  "creates_derivation_cycle edges candidate =
     (if ed_kind candidate \<noteq> DerivedFrom then Inr False
      else cycle_search (bt_values edges) (ed_from_version candidate) [ed_to_version candidate] [])"

definition apply_atom :: "context_atom \<Rightarrow> tenant_state \<Rightarrow> (store_error, tenant_state) result" where
  "apply_atom atom t =
     (if (case bt_get (ts_atom_versions_by_id t) (ca_atom_id atom) of None \<Rightarrow> False | Some version \<Rightarrow> version \<noteq> ca_version_id atom)
      then Inl SInvalidRecord
      else rbind (insert_immutable (ca_version_id atom) atom (ts_atoms t)) (\<lambda>atoms.
           rbind (ok_or (bt_get atoms (ca_version_id atom)) SInvalidRecord) (\<lambda>stored.
           rbind (update_current_lineage atoms stored (ts_current_versions_by_lineage t)) (\<lambda>current.
             Inr (t\<lparr>ts_atoms := atoms,
                    ts_atom_versions_by_id := bt_insert (ca_atom_id atom) (ca_version_id atom) (ts_atom_versions_by_id t),
                    ts_current_versions_by_lineage := current\<rparr>)))))"

definition apply_edge :: "context_edge \<Rightarrow> tenant_state \<Rightarrow> (store_error, tenant_state) result" where
  "apply_edge e t =
     (if bt_get (ts_atoms t) (ed_from_version e) = None \<or> bt_get (ts_atoms t) (ed_to_version e) = None
      then Inl SInvalidRecord
      else rbind (creates_derivation_cycle (ts_edges t) e) (\<lambda>cyclic.
             if cyclic then Inl SInvalidRecord
             else rbind (insert_immutable (ed_edge_id e) e (ts_edges t)) (\<lambda>edges. Inr (t\<lparr>ts_edges := edges\<rparr>))))"

fun apply_all :: "('x \<Rightarrow> tenant_state \<Rightarrow> (store_error, tenant_state) result) \<Rightarrow> 'x list \<Rightarrow> tenant_state \<Rightarrow> (store_error, tenant_state) result" where
  "apply_all f [] t = Inr t"
| "apply_all f (x # xs) t = rbind (f x t) (apply_all f xs)"

fun apply_mutation :: "staged_mutation \<Rightarrow> u64 \<Rightarrow> tenant_state \<Rightarrow> (store_error, tenant_state) result" where
  "apply_mutation (StagedSnapshot snapshot) revision tenant =
     rbind (insert_immutable (ss_snapshot_id snapshot) snapshot (ts_snapshots tenant)) (\<lambda>m. Inr (tenant\<lparr>ts_snapshots := m\<rparr>))"
| "apply_mutation (StagedAtoms atoms edges) revision tenant =
     rbind (apply_all apply_atom atoms tenant) (apply_all apply_edge edges)"
| "apply_mutation (StagedBundle b) revision tenant =
     rbind (insert_immutable (bn_bundle_id b) b (ts_bundles tenant)) (\<lambda>m. Inr (tenant\<lparr>ts_bundles := m\<rparr>))"
| "apply_mutation (StagedCommit c) revision tenant =
     (let commits = (case bt_get (ts_context_commits tenant) (cm_space_id c) of None \<Rightarrow> [] | Some cs \<Rightarrow> cs)
      in rbind (ok_or (Option.bind (u64_try_from (length commits)) (\<lambda>n. checked_add n 1)) SLimitExceeded) (\<lambda>expected_sequence.
         if cm_sequence c \<noteq> expected_sequence \<or>
            cm_parent_commit_id c \<noteq> (if commits = [] then None else Some (cm_commit_id (last commits)))
         then Inl SRevisionConflict
         else Inr (tenant\<lparr>ts_context_commits := bt_insert (cm_space_id c) (commits @ [c]) (ts_context_commits tenant)\<rparr>)))"
| "apply_mutation (StagedBlob blob) revision tenant =
     rbind (insert_immutable (br_digest (bl_reference blob)) (blob_in_memory blob) (ts_blobs tenant)) (\<lambda>m.
       Inr (tenant\<lparr>ts_blobs := m\<rparr>))"
| "apply_mutation (StagedEvent event) revision tenant =
     (let events = (case bt_get (ts_effects tenant) (je_effect_id event) of None \<Rightarrow> [] | Some es \<Rightarrow> es)
      in rbind (ok_or (Option.bind (u64_try_from (length events)) (\<lambda>n. checked_add n 1)) SLimitExceeded) (\<lambda>expected_sequence.
         if je_sequence event \<noteq> expected_sequence \<or> u64_try_from (length events) \<noteq> Some (je_expected_effect_version event)
            \<or> je_previous_event_digest event \<noteq> (if events = [] then None else Some (je_event_digest (last events)))
            \<or> (events \<noteq> [] \<and> je_to_state (last events) \<noteq> je_from_state event)
         then Inl SRevisionConflict
         else Inr (tenant\<lparr>ts_effects := bt_insert (je_effect_id event) (events @ [event]) (ts_effects tenant)\<rparr>)))"
| "apply_mutation (StagedRecord envelope) revision tenant =
     rbind (case bt_get (ts_effect_records tenant) (ev_effect_id envelope) of
              Some current \<Rightarrow> ok_or (checked_add (ev_effect_version current) 1) SLimitExceeded
            | None \<Rightarrow> Inr 0) (\<lambda>expected_version.
       if ev_effect_version envelope \<noteq> expected_version then Inl SRevisionConflict
       else Inr (tenant\<lparr>ts_effect_records := bt_insert (ev_effect_id envelope) envelope (ts_effect_records tenant)\<rparr>))"
| "apply_mutation (StagedOutbox message) revision tenant =
     (if list_ex (\<lambda>r. om_message_id (or_message r) = om_message_id message) (ts_outbox tenant) then Inl SInvalidRecord
      else Inr (tenant\<lparr>ts_outbox := ts_outbox tenant @ [\<lparr>or_message = message, or_causal_revision = revision\<rparr>]\<rparr>))"

fun apply_mutations :: "staged_mutation list \<Rightarrow> u64 \<Rightarrow> tenant_state \<Rightarrow> (store_error, tenant_state) result" where
  "apply_mutations [] revision tenant = Inr tenant"
| "apply_mutations (m # ms) revision tenant =
     rbind (apply_mutation m revision tenant) (apply_mutations ms revision)"

fun is_outbox :: "staged_mutation \<Rightarrow> bool" where
  "is_outbox (StagedOutbox m) \<longleftrightarrow> True"
| "is_outbox _ \<longleftrightarrow> False"

text \<open>A commit that is already recorded under the same scope and key.\<close>

definition recorded ::
    "committed_state \<Rightarrow> record_id \<Rightarrow> idempotency_identity option \<Rightarrow> (content_digest \<times> content_digest \<times> commit_receipt) option" where
  "recorded latest tenant idempotency =
     Option.bind idempotency (\<lambda>identity. Option.bind (bt_get (st_tenants latest) tenant) (\<lambda>t.
       map_option (\<lambda>entry. (ii_request_digest identity, entry)) (bt_get (ts_idempotency t) (ii_scope identity, ii_key identity))))"

definition remember :: "idempotency_identity option \<Rightarrow> commit_receipt \<Rightarrow> tenant_state \<Rightarrow> tenant_state" where
  "remember idempotency receipt t = (case idempotency of None \<Rightarrow> t
     | Some identity \<Rightarrow> t\<lparr>ts_idempotency :=
         bt_insert (ii_scope identity, ii_key identity) (ii_request_digest identity, receipt) (ts_idempotency t)\<rparr>)"

definition next_state ::
    "committed_state \<Rightarrow> record_id \<Rightarrow> staged_mutation list \<Rightarrow> idempotency_identity option \<Rightarrow> (store_error, committed_state \<times> commit_receipt) result" where
  "next_state latest tenant staged idempotency =
     rbind (ok_or (checked_add (st_revision latest) 1) SLimitExceeded) (\<lambda>revision.
     rbind (apply_mutations staged revision (tenant_of latest tenant)) (\<lambda>t.
       let receipt = \<lparr>cr_revision = revision, cr_replayed = False\<rparr>
       in Inr (\<lparr>st_revision = revision, st_tenants = bt_insert tenant (remember idempotency receipt t) (st_tenants latest)\<rparr>, receipt)))"

definition commit ::
    "record_id \<Rightarrow> u64 \<Rightarrow> staged_mutation list \<Rightarrow> idempotency_identity option \<Rightarrow> memory_store
      \<Rightarrow> memory_store \<times> (store_error, commit_receipt) result" where
  "commit tenant expected_revision staged idempotency s =
     (if staged = [] \<or> (list_ex is_outbox staged \<and> \<not> list_ex (\<lambda>m. \<not> is_outbox m) staged) then (s, Inl SInvalidRecord)
      else if ms_history s = [] then (s, Inl SUnavailable)
      else case recorded (last (ms_history s)) tenant idempotency of
        Some (request_digest, digest, receipt) \<Rightarrow>
          if digest \<noteq> request_digest then (s, Inl SInvalidRecord)
          else (s, Inr \<lparr>cr_revision = cr_revision receipt, cr_replayed = True\<rparr>)
      | None \<Rightarrow>
          if st_revision (last (ms_history s)) \<noteq> expected_revision then (s, Inl SRevisionConflict)
          else case next_state (last (ms_history s)) tenant staged idempotency of
            Inl e \<Rightarrow> (s, Inl e)
          | Inr (next, receipt) \<Rightarrow>
              if ms_fail_next_commit s then (s\<lparr>ms_fail_next_commit := False\<rparr>, Inl SInjectedAbort)
              else (s\<lparr>ms_history := ms_history s @ [next]\<rparr>, Inr receipt))"

subsection \<open>What a commit does\<close>

lemma remember_idempotency_only: "\<exists>i. remember idempotency receipt t = t\<lparr>ts_idempotency := i\<rparr>"
  by (cases idempotency) (auto simp: remember_def intro: exI [of _ "ts_idempotency t"])

lemma next_state_InrD:
  assumes "next_state latest tenant staged idempotency = Inr (st, receipt)"
  obtains t i where "checked_add (st_revision latest) 1 = Some (st_revision st)" "\<not> cr_replayed receipt"
    "apply_mutations staged (st_revision st) (tenant_of latest tenant) = Inr t"
    "tenant_of st tenant = t\<lparr>ts_idempotency := i\<rparr>" "\<And>tn. tn \<noteq> tenant \<Longrightarrow> tenant_of st tn = tenant_of latest tn"
proof -
  from assms obtain revision t where r: "checked_add (st_revision latest) 1 = Some revision"
    "apply_mutations staged revision (tenant_of latest tenant) = Inr t" "\<not> cr_replayed receipt"
    "st = \<lparr>st_revision = revision, st_tenants = bt_insert tenant (remember idempotency receipt t) (st_tenants latest)\<rparr>"
    unfolding next_state_def Let_def by (auto simp: result_simps)
  moreover obtain i where "remember idempotency receipt t = t\<lparr>ts_idempotency := i\<rparr>" using remember_idempotency_only by blast
  ultimately show thesis by (intro that [of t i]) (simp_all add: tenant_of_def bt_get_insert)
qed

lemma commit_cases:
  obtains (refused) e where "commit tenant revision staged idempotency s = (s, Inl e)"
  | (aborted) "commit tenant revision staged idempotency s = (s\<lparr>ms_fail_next_commit := False\<rparr>, Inl SInjectedAbort)"
  | (replayed) receipt digest first where "commit tenant revision staged idempotency s = (s, Inr receipt)" "cr_replayed receipt" "idempotency \<noteq> None"
      "recorded (last (ms_history s)) tenant idempotency = Some (digest, digest, first)" "cr_revision first = cr_revision receipt"
  | (accepted) st receipt where "commit tenant revision staged idempotency s = (s\<lparr>ms_history := ms_history s @ [st]\<rparr>, Inr receipt)"
      "ms_history s \<noteq> []" "st_revision (last (ms_history s)) = revision" "\<not> cr_replayed receipt"
      "next_state (last (ms_history s)) tenant staged idempotency = Inr (st, receipt)"
      "recorded (last (ms_history s)) tenant idempotency = None"
proof (cases "staged = [] \<or> (list_ex is_outbox staged \<and> \<not> list_ex (\<lambda>m. \<not> is_outbox m) staged) \<or> ms_history s = []")
  case True
  then have "\<exists>e. commit tenant revision staged idempotency s = (s, Inl e)" by (auto simp: commit_def)
  then show thesis using refused by blast
next
  case False
  then have staged: "staged \<noteq> []" and kept: "ms_history s \<noteq> []"
    and outbox: "(list_ex is_outbox staged \<and> \<not> list_ex (\<lambda>m. \<not> is_outbox m) staged) = False" by blast+
  show thesis
  proof (cases "recorded (last (ms_history s)) tenant idempotency")
    case (Some entry)
    then have "idempotency \<noteq> None" by (cases idempotency) (simp_all add: recorded_def)
    obtain request_digest digest receipt where "entry = (request_digest, digest, receipt)" by (cases entry)
    with Some have "commit tenant revision staged idempotency s =
        (s, if digest \<noteq> request_digest then Inl SInvalidRecord else Inr \<lparr>cr_revision = cr_revision receipt, cr_replayed = True\<rparr>)"
      by (simp add: commit_def staged kept outbox)
    with Some \<open>entry = _\<close> \<open>idempotency \<noteq> None\<close> show thesis using refused replayed [of "\<lparr>cr_revision = cr_revision receipt, cr_replayed = True\<rparr>" digest receipt]
      by (cases "digest = request_digest") simp_all
  next
    case None
    show thesis
    proof (cases "next_state (last (ms_history s)) tenant staged idempotency")
      case (Inl e)
      with None have "commit tenant revision staged idempotency s =
          (s, Inl (if st_revision (last (ms_history s)) = revision then e else SRevisionConflict))"
        by (simp add: commit_def staged kept outbox)
      then show thesis by (rule refused)
    next
      case (Inr accepted)
      then obtain st receipt where next_state: "next_state (last (ms_history s)) tenant staged idempotency = Inr (st, receipt)"
        by (cases accepted) simp
      then have "\<not> cr_replayed receipt" by (auto elim: next_state_InrD)
      moreover from None next_state have "commit tenant revision staged idempotency s =
          (if st_revision (last (ms_history s)) \<noteq> revision then (s, Inl SRevisionConflict)
           else if ms_fail_next_commit s then (s\<lparr>ms_fail_next_commit := False\<rparr>, Inl SInjectedAbort)
           else (s\<lparr>ms_history := ms_history s @ [st]\<rparr>, Inr receipt))" by (simp add: commit_def staged kept outbox)
      ultimately show thesis using kept next_state None refused aborted accepted
        by (cases "st_revision (last (ms_history s)) = revision"; cases "ms_fail_next_commit s") simp_all
    qed
  qed
qed

subsection \<open>Rebuilding the atom indexes\<close>

fun rebuild_loop ::
    "(version_id, context_atom) btree \<Rightarrow> context_atom list \<Rightarrow> (record_id, version_id) btree \<times> (string, version_id) btree
      \<Rightarrow> (store_error, (record_id, version_id) btree \<times> (string, version_id) btree) result" where
  "rebuild_loop atoms [] indexes = Inr indexes"
| "rebuild_loop atoms (atom # rest) (by_id, current) =
     (if (case bt_get by_id (ca_atom_id atom) of None \<Rightarrow> False | Some existing \<Rightarrow> existing \<noteq> ca_version_id atom)
      then Inl SInvalidRecord
      else rbind (update_current_lineage atoms atom current) (\<lambda>current'.
        rebuild_loop atoms rest (bt_insert (ca_atom_id atom) (ca_version_id atom) by_id, current')))"

definition rebuild_atom_indexes :: "tenant_state \<Rightarrow> (store_error, tenant_state) result" where
  "rebuild_atom_indexes t =
     (if length (ts_atoms t) > MAX_LEGACY_ATOM_INDEX_REBUILD_ITEMS then Inl SLimitExceeded
      else rbind (rebuild_loop (ts_atoms t) (bt_values (ts_atoms t)) ([], [])) (\<lambda>(by_id, current).
        Inr (t\<lparr>ts_atom_versions_by_id := by_id, ts_current_versions_by_lineage := current\<rparr>)))"

fun ensure_loop :: "(record_id \<times> tenant_state) list \<Rightarrow> (store_error, (record_id \<times> tenant_state) list) result" where
  "ensure_loop [] = Inr []"
| "ensure_loop ((name, t) # rest) =
     rbind (if length (ts_atom_versions_by_id t) \<noteq> length (ts_atoms t) \<or>
               (ts_atoms t \<noteq> [] \<and> ts_current_versions_by_lineage t = [])
            then rebuild_atom_indexes t else Inr t) (\<lambda>t'.
     rbind (ensure_loop rest) (\<lambda>rest'. Inr ((name, t') # rest')))"

definition ensure_atom_indexes :: "committed_state \<Rightarrow> (store_error, committed_state) result" where
  "ensure_atom_indexes st = rbind (ensure_loop (st_tenants st)) (\<lambda>tenants. Inr (st\<lparr>st_tenants := tenants\<rparr>))"

end
