(* ===== verification/Effect_Kernel.thy ===== *)
theory Effect_Kernel
  imports Memory_Store Canon_Envelope
begin

text \<open>
  The effect kernel's pure part, \<open>cigar-effects/src/contract.rs\<close>, \<open>connector.rs\<close> and the free functions
  of \<open>engine.rs\<close>: durable effect records, their domain-separated digests and hash-chained journal, the
  guarded state transition, the integrity check of a whole record, dispatch permits and retry rules.
  The JSON form of a value (\<open>serde_json\<close>) and SHA-256 are the fields of \<open>effect_env\<close>.
\<close>

datatype effect_error =
  EInvalidInput | ENotFound | EUnauthorized | ERevisionConflict | EIdempotencyCollision | EInvalidTransition
  | EUnsafeRetry | ECorruptJournal | EExpired | ECancelled | EUnavailable | ELimitExceeded

definition MAX_EFFECT_ATTEMPTS :: nat where "MAX_EFFECT_ATTEMPTS = 1024"
definition MAX_EFFECT_RECONCILIATIONS :: nat where "MAX_EFFECT_RECONCILIATIONS = 4096"
definition MAX_CONNECTOR_OPERATIONS :: nat where "MAX_CONNECTOR_OPERATIONS = 256"

lemmas kernel_limits = MAX_EFFECT_ATTEMPTS_def MAX_EFFECT_RECONCILIATIONS_def MAX_CONNECTOR_OPERATIONS_def

datatype outbox_state = OPending | OClaimed | OCompleted

record effect_outbox_entry =
  oe_message_id :: record_id
  oe_attempt_id :: record_id
  oe_fencing_token :: u64
  oe_state :: outbox_state

record durable_effect_record =
  de_intent :: effect_intent
  de_intent_digest :: content_digest
  de_state :: effect_state
  de_effect_version :: u64
  de_approval :: "effect_approval option"
  de_approval_digest :: "content_digest option"
  de_attempts :: "effect_attempt list"
  de_receipts :: "effect_receipt list"
  de_reconciliations :: "reconciliation_report list"
  de_compensation_link :: "compensation_link option"
  de_journal :: "effect_journal_event list"
  de_outbox :: "effect_outbox_entry option"

record effect_authorization =
  ea_actor_id :: record_id
  ea_capabilities :: "capability fset"
  ea_policy_allows :: bool
  ea_now :: timestamp

definition permits_proposal :: "effect_authorization \<Rightarrow> bool" where
  "permits_proposal a \<longleftrightarrow> ea_policy_allows a \<and> ProposeEffect |\<in>| ea_capabilities a"

definition permits_dispatch :: "effect_authorization \<Rightarrow> effect_intent \<Rightarrow> bool" where
  "permits_dispatch a intent \<longleftrightarrow> ea_policy_allows a \<and> ApproveEffect |\<in>| ea_capabilities a \<and>
     in_required_capability intent |\<in>| ea_capabilities a"

definition permits_reconciliation :: "effect_authorization \<Rightarrow> bool" where
  "permits_reconciliation a \<longleftrightarrow> ea_policy_allows a \<and> ReconcileEffect |\<in>| ea_capabilities a"

record dispatch_permit =
  dp_effect_id :: record_id
  dp_attempt_id :: record_id
  dp_fencing_token :: u64
  dp_effect_version :: u64
  dp_request_digest :: content_digest
  dp_seal :: content_digest

subsection \<open>Connectors\<close>

record connector_operation =
  co_operation :: string
  co_same_key_idempotent :: bool
  co_supports_reconciliation :: bool
  co_supports_compensation :: bool

record connector_descriptor =
  cd_connector :: string
  cd_operations :: "connector_operation list"
  cd_maximum_dispatch_nanos :: u64

definition valid_selector :: "string \<Rightarrow> bool" where
  "valid_selector s \<longleftrightarrow> s \<noteq> [] \<and> length s \<le> 256 \<and> \<not> list_ex is_ascii_control s"

definition descriptor_validate :: "connector_descriptor \<Rightarrow> (effect_error, unit) result" where
  "descriptor_validate d =
     (if \<not> valid_selector (cd_connector d) \<or> cd_operations d = [] \<or> length (cd_operations d) > MAX_CONNECTOR_OPERATIONS
         \<or> cd_maximum_dispatch_nanos d = 0 \<or> list_ex (\<lambda>item. \<not> valid_selector (co_operation item)) (cd_operations d)
         \<or> \<not> strictly_sorted_unique (map co_operation (cd_operations d))
      then Inl EInvalidInput else Inr ())"

definition descriptor_operation :: "connector_descriptor \<Rightarrow> string \<Rightarrow> connector_operation option" where
  "descriptor_operation d name =
     map_option (\<lambda>i. cd_operations d ! i)
       (binary_search_by name co_operation (cd_operations d))"

datatype dispatch_observation =
  ObsSucceeded string content_digest content_digest | ObsFailed content_digest
  | ObsUnknown content_digest "string option" | ObsProvenNotSent content_digest

datatype reconcile_observation =
  RecSuccess content_digest | RecFailure content_digest | RecNotExecuted content_digest
  | RecInconclusive content_digest timestamp

subsection \<open>Digests\<close>

text \<open>The values that are serialised and hashed, one constructor per call site.\<close>

datatype effect_payload =
  PayDigest content_digest
| PayAuthorization content_digest "content_digest option"
| PayExpiry content_digest timestamp
| PayClaim effect_attempt effect_outbox_entry
| PayEntry record_id record_id u64 content_digest
| PayReport reconciliation_report
| PayLink compensation_link
| PayReservation record_id record_id content_digest
| PayStarted record_id u64 content_digest
| PayResolved record_id u64 effect_state "content_digest option"
| PayReceipt effect_receipt
| PayTarget string
| PayApproval effect_approval
| PaySpec compensation_spec
| PayJournal record_id record_id u64 u64 effect_state effect_state record_id content_digest string timestamp
| PayPermit record_id record_id u64 u64 content_digest

record effect_env =
  en_sha256 :: "string \<Rightarrow> string"
  en_json :: "effect_payload \<Rightarrow> string option"
  en_intent_node :: "effect_intent \<Rightarrow> (canonical_error, canonical_node) result"

definition digest_to_multihash :: "string \<Rightarrow> (effect_error, content_digest) result" where
  "digest_to_multihash digest = map_err (\<lambda>_. EUnavailable) (content_digest_new (''1220'' @ hex digest))"

definition raw_multihash :: "effect_env \<Rightarrow> string \<Rightarrow> (effect_error, content_digest) result" where
  "raw_multihash E bytes = digest_to_multihash (en_sha256 E bytes)"

definition stable_marker :: "effect_env \<Rightarrow> string \<Rightarrow> (effect_error, content_digest) result" where
  "stable_marker E marker = raw_multihash E marker"

definition payload_preimage :: "string \<Rightarrow> string \<Rightarrow> string" where
  "payload_preimage domain bytes =
     ''CIGAR-EFFECT-KERNEL'' @ [CHR 0x00] @ ''v1'' @ [CHR 0x00] @ domain @ [CHR 0x00] @ bytes"

definition payload_digest :: "effect_env \<Rightarrow> string \<Rightarrow> effect_payload \<Rightarrow> (effect_error, content_digest) result" where
  "payload_digest E domain v =
     rbind (ok_or (en_json E v) EUnavailable) (\<lambda>bytes. digest_to_multihash (en_sha256 E (payload_preimage domain bytes)))"

definition effect_intent_digest :: "effect_env \<Rightarrow> effect_intent \<Rightarrow> (effect_error, content_digest) result" where
  "effect_intent_digest E intent =
     rbind (map_err (\<lambda>_. EInvalidInput) (intent_validate intent)) (\<lambda>_.
     rbind (map_err (\<lambda>_. EInvalidInput) (semantic_multihash_v1 (en_sha256 E) PEffect (en_intent_node E intent))) (\<lambda>encoded.
       map_err (\<lambda>_. EInvalidInput) (content_digest_new encoded)))"

definition effect_target_digest :: "effect_env \<Rightarrow> string \<Rightarrow> (effect_error, content_digest) result" where
  "effect_target_digest E target =
     (if target = [] \<or> length target > 256 \<or> list_ex is_ascii_control target then Inl EInvalidInput
      else payload_digest E ''effect-target'' (PayTarget target))"

definition effect_approval_digest :: "effect_env \<Rightarrow> effect_approval \<Rightarrow> (effect_error, content_digest) result" where
  "effect_approval_digest E approval =
     rbind (map_err (\<lambda>_. EInvalidInput) (approval_validate approval)) (\<lambda>_.
       payload_digest E ''effect-approval'' (PayApproval approval))"

definition approval_digest_of ::
    "effect_env \<Rightarrow> effect_approval option \<Rightarrow> (effect_error, content_digest option) result" where
  "approval_digest_of E approval =
     (case approval of None \<Rightarrow> Inr None | Some a \<Rightarrow> rbind (effect_approval_digest E a) (\<lambda>d. Inr (Some d)))"

definition compensation_spec_digest :: "effect_env \<Rightarrow> compensation_spec \<Rightarrow> (effect_error, content_digest) result" where
  "compensation_spec_digest E spec =
     (if cs_operation spec = [] \<or> length (cs_operation spec) > 256 \<or> list_ex is_ascii_control (cs_operation spec)
      then Inl EInvalidInput
      else payload_digest E ''compensation-spec'' (PaySpec spec))"

definition journal_digest ::
    "effect_env \<Rightarrow> record_id \<Rightarrow> record_id \<Rightarrow> u64 \<Rightarrow> u64 \<Rightarrow> effect_state \<Rightarrow> effect_state \<Rightarrow> record_id \<Rightarrow> content_digest
      \<Rightarrow> content_digest option \<Rightarrow> timestamp \<Rightarrow> (effect_error, content_digest) result" where
  "journal_digest E event_id effect_id sequence expected_version from to actor payload previous recorded_at =
     payload_digest E ''effect-journal-event''
       (PayJournal event_id effect_id sequence expected_version from to actor payload
         (case previous of None \<Rightarrow> [] | Some d \<Rightarrow> d) recorded_at)"

definition permit_seal ::
    "effect_env \<Rightarrow> record_id \<Rightarrow> record_id \<Rightarrow> u64 \<Rightarrow> u64 \<Rightarrow> content_digest \<Rightarrow> (effect_error, content_digest) result" where
  "permit_seal E effect_id attempt_id fencing_token effect_version request_digest =
     payload_digest E ''dispatch-permit'' (PayPermit effect_id attempt_id fencing_token effect_version request_digest)"

subsection \<open>Guards and transitions\<close>

definition require_version :: "durable_effect_record \<Rightarrow> u64 \<Rightarrow> (effect_error, unit) result" where
  "require_version r expected = (if de_effect_version r = expected then Inr () else Inl ERevisionConflict)"

definition verify_approval ::
    "effect_env \<Rightarrow> durable_effect_record \<Rightarrow> effect_approval \<Rightarrow> timestamp \<Rightarrow> (effect_error, unit) result" where
  "verify_approval E r approval now =
     rbind (map_err (\<lambda>_. EInvalidInput) (approval_validate approval)) (\<lambda>_.
       if ap_effect_id approval \<noteq> in_effect_id (de_intent r) \<or> ap_intent_digest approval \<noteq> de_intent_digest r
       then Inl EUnauthorized
       else rbind (effect_target_digest E (in_target (de_intent r))) (\<lambda>target_digest.
         if ap_target_digest approval \<noteq> target_digest \<or> ap_risk approval \<noteq> in_risk (de_intent r)
            \<or> ap_bundle_id approval \<noteq> in_bundle_id (de_intent r) \<or> now < ap_approved_at approval
            \<or> now \<ge> ap_expires_at approval
            \<or> (in_risk (de_intent r) \<in> {High, Critical} \<and> ap_kind approval \<noteq> Human)
         then Inl EUnauthorized else Inr ()))"

definition validate_retry_claim :: "durable_effect_record \<Rightarrow> bool \<Rightarrow> (effect_error, unit) result" where
  "validate_retry_claim r same_key_idempotent =
     (case de_state r of
        Authorized \<Rightarrow> if de_attempts r = [] then Inr () else Inl ECorruptJournal
      | AuthorizedForRetry \<Rightarrow>
          (case in_retry_policy (de_intent r) of
             RetryNever \<Rightarrow> Inl EUnsafeRetry
           | SameKeyIdempotent max_attempts \<Rightarrow>
               if same_key_idempotent \<and> unat max_attempts > length (de_attempts r) then Inr () else Inl EUnsafeRetry
           | ReconcileBeforeRetry \<Rightarrow>
               if de_reconciliations r \<noteq> [] \<and> rr_outcome (last (de_reconciliations r)) = ProvenNotExecuted
               then Inr () else Inl EUnsafeRetry)
      | _ \<Rightarrow> Inl EInvalidTransition)"

definition journal_event_v1 :: schema_version where
  "journal_event_v1 = \<lparr>sv_family = ''cigar.effect-journal-event'', sv_major = 1\<rparr>"

definition transition ::
    "effect_env \<Rightarrow> durable_effect_record \<Rightarrow> effect_state \<Rightarrow> record_id \<Rightarrow> record_id \<Rightarrow> content_digest \<Rightarrow> timestamp
      \<Rightarrow> (effect_error, durable_effect_record) result" where
  "transition E r target actor_id event_id payload recorded_at =
     (if \<not> can_transition_to (de_state r) target \<or> recorded_at < in_created_at (de_intent r)
         \<or> (de_journal r \<noteq> [] \<and> recorded_at < je_recorded_at (last (de_journal r)))
      then Inl EInvalidTransition
      else rbind (ok_or (checked_add (de_effect_version r) 1) ELimitExceeded) (\<lambda>sequence.
        let previous = (if de_journal r = [] then None else Some (je_event_digest (last (de_journal r))))
        in rbind (journal_digest E event_id (in_effect_id (de_intent r)) sequence (de_effect_version r) (de_state r)
                    target actor_id payload previous recorded_at) (\<lambda>event_digest.
           let event = \<lparr>je_schema_version = journal_event_v1, je_event_id = event_id,
                 je_effect_id = in_effect_id (de_intent r), je_sequence = sequence,
                 je_expected_effect_version = de_effect_version r, je_from_state = de_state r, je_to_state = target,
                 je_actor_id = actor_id, je_payload_digest = payload, je_previous_event_digest = previous,
                 je_event_digest = event_digest, je_recorded_at = recorded_at\<rparr>
           in rbind (map_err (\<lambda>_. EInvalidTransition) (event_validate event)) (\<lambda>_.
                Inr (r\<lparr>de_journal := de_journal r @ [event], de_state := target, de_effect_version := sequence\<rparr>)))))"

definition verify_permit :: "effect_env \<Rightarrow> durable_effect_record \<Rightarrow> dispatch_permit \<Rightarrow> (effect_error, unit) result" where
  "verify_permit E r permit =
     rbind (ok_or (de_outbox r) EUnauthorized) (\<lambda>outbox.
       if de_state r \<noteq> Dispatching \<or> de_effect_version r \<noteq> dp_effect_version permit
          \<or> in_effect_id (de_intent r) \<noteq> dp_effect_id permit \<or> oe_attempt_id outbox \<noteq> dp_attempt_id permit
          \<or> oe_fencing_token outbox \<noteq> dp_fencing_token permit \<or> oe_state outbox \<noteq> OClaimed
          \<or> dp_request_digest permit \<noteq> de_intent_digest r
       then Inl EUnauthorized
       else rbind (permit_seal E (dp_effect_id permit) (dp_attempt_id permit) (dp_fencing_token permit)
                     (dp_effect_version permit) (dp_request_digest permit)) (\<lambda>seal.
              if dp_seal permit \<noteq> seal then Inl EUnauthorized else Inr ()))"

definition ownership_payload :: "durable_effect_record \<Rightarrow> effect_attempt \<Rightarrow> effect_payload" where
  "ownership_payload r attempt =
     PayEntry (in_effect_id (de_intent r)) (at_attempt_id attempt) (at_fencing_token attempt) (at_request_digest attempt)"

definition dispatch_ownership_unreceipted :: "effect_env \<Rightarrow> durable_effect_record \<Rightarrow> (effect_error, bool) result" where
  "dispatch_ownership_unreceipted E r =
     (if de_state r \<noteq> Unknown \<or> de_attempts r = [] then Inr False
      else let attempt = last (de_attempts r)
      in if list_ex (\<lambda>receipt. re_attempt_id receipt = at_attempt_id attempt) (de_receipts r) then Inr False
         else rbind (payload_digest E ''dispatch-connector-entry'' (ownership_payload r attempt)) (\<lambda>expected.
           Inr (de_journal r \<noteq> [] \<and>
             (let event = last (de_journal r)
              in je_from_state event = Dispatching \<and> je_to_state event = Unknown \<and> je_payload_digest event = expected))))"

subsection \<open>Integrity of a record\<close>

definition approval_bound :: "effect_env \<Rightarrow> durable_effect_record \<Rightarrow> effect_approval \<Rightarrow> (effect_error, unit) result" where
  "approval_bound E r approval =
     rbind (map_err (\<lambda>_. ECorruptJournal) (approval_validate approval)) (\<lambda>_.
       if ap_effect_id approval \<noteq> in_effect_id (de_intent r) \<or> ap_intent_digest approval \<noteq> de_intent_digest r
       then Inl ECorruptJournal
       else rbind (effect_target_digest E (in_target (de_intent r))) (\<lambda>target_digest.
         if ap_target_digest approval \<noteq> target_digest \<or> ap_risk approval \<noteq> in_risk (de_intent r)
            \<or> ap_bundle_id approval \<noteq> in_bundle_id (de_intent r) \<or> ap_approved_at approval < in_created_at (de_intent r)
         then Inl ECorruptJournal else Inr ()))"

definition event_linked ::
    "effect_env \<Rightarrow> effect_intent \<Rightarrow> effect_journal_event option \<Rightarrow> effect_journal_event \<Rightarrow> (effect_error, unit) result" where
  "event_linked E intent previous event =
     rbind (case previous of Some prior \<Rightarrow> ok_or (checked_add (je_sequence prior) 1) ECorruptJournal | None \<Rightarrow> Inr 1) (\<lambda>expected_sequence.
     rbind (ok_or (checked_sub (je_sequence event) 1) ECorruptJournal) (\<lambda>expected_version.
       if event_validate event \<noteq> Inr () \<or> je_effect_id event \<noteq> in_effect_id intent
          \<or> je_recorded_at event < in_created_at intent
          \<or> (case previous of None \<Rightarrow> False | Some prior \<Rightarrow> je_recorded_at event < je_recorded_at prior)
          \<or> je_sequence event \<noteq> expected_sequence \<or> je_expected_effect_version event \<noteq> expected_version
          \<or> je_from_state event \<noteq> (case previous of None \<Rightarrow> Prepared | Some prior \<Rightarrow> je_to_state prior)
          \<or> je_previous_event_digest event \<noteq> map_option je_event_digest previous
          \<or> \<not> can_transition_to (je_from_state event) (je_to_state event)
       then Inl ECorruptJournal
       else rbind (journal_digest E (je_event_id event) (je_effect_id event) (je_sequence event)
              (je_expected_effect_version event) (je_from_state event) (je_to_state event) (je_actor_id event)
              (je_payload_digest event) (je_previous_event_digest event) (je_recorded_at event)) (\<lambda>digest.
            if je_event_digest event \<noteq> digest then Inl ECorruptJournal else Inr ())))"

fun verify_journal ::
    "effect_env \<Rightarrow> effect_intent \<Rightarrow> effect_journal_event option \<Rightarrow> effect_journal_event list \<Rightarrow> (effect_error, unit) result" where
  "verify_journal E intent previous [] = Inr ()"
| "verify_journal E intent previous (event # events) =
     rbind (event_linked E intent previous event) (\<lambda>_. verify_journal E intent (Some event) events)"

fun verify_attempts ::
    "durable_effect_record \<Rightarrow> nat \<Rightarrow> effect_attempt option \<Rightarrow> record_id set \<Rightarrow> effect_attempt list \<Rightarrow> (effect_error, unit) result" where
  "verify_attempts r index prior attempt_ids [] = Inr ()"
| "verify_attempts r index prior attempt_ids (attempt # attempts) =
     rbind (ok_or (u64_try_from (index + 1)) ECorruptJournal) (\<lambda>expected_fence.
       if attempt_validate attempt \<noteq> Inr () \<or> unat (at_attempt_number attempt) \<noteq> index + 1
          \<or> at_fencing_token attempt \<noteq> expected_fence \<or> at_effect_id attempt \<noteq> in_effect_id (de_intent r)
          \<or> at_request_digest attempt \<noteq> de_intent_digest r
          \<or> at_started_at attempt < in_created_at (de_intent r) \<or> at_started_at attempt \<ge> in_expires_at (de_intent r)
          \<or> at_deadline attempt > in_expires_at (de_intent r) \<or> at_attempt_id attempt \<in> attempt_ids
          \<or> (case prior of None \<Rightarrow> False | Some p \<Rightarrow> at_fencing_token p \<ge> at_fencing_token attempt)
       then Inl ECorruptJournal
       else verify_attempts r (index + 1) (Some attempt) (insert (at_attempt_id attempt) attempt_ids) attempts)"

definition journaled :: "effect_env \<Rightarrow> durable_effect_record \<Rightarrow> string \<Rightarrow> effect_payload \<Rightarrow> bool" where
  "journaled E r domain payload \<longleftrightarrow>
     list_ex (\<lambda>event. payload_digest E domain payload = Inr (je_payload_digest event)) (de_journal r)"

fun verify_receipts ::
    "effect_env \<Rightarrow> durable_effect_record \<Rightarrow> record_id set \<Rightarrow> effect_receipt list \<Rightarrow> (effect_error, unit) result" where
  "verify_receipts E r seen [] = Inr ()"
| "verify_receipts E r seen (receipt # receipts) =
     (if receipt_validate receipt \<noteq> Inr () \<or> re_effect_id receipt \<noteq> in_effect_id (de_intent r)
         \<or> (case find (\<lambda>attempt. at_attempt_id attempt = re_attempt_id receipt) (de_attempts r) of
              None \<Rightarrow> True | Some attempt \<Rightarrow> re_observed_at receipt < at_started_at attempt)
         \<or> re_attempt_id receipt \<in> seen \<or> \<not> journaled E r ''receipt'' (PayReceipt receipt)
      then Inl ECorruptJournal
      else verify_receipts E r (insert (re_attempt_id receipt) seen) receipts)"

fun verify_reports ::
    "effect_env \<Rightarrow> durable_effect_record \<Rightarrow> record_id set \<Rightarrow> reconciliation_report list \<Rightarrow> (effect_error, unit) result" where
  "verify_reports E r ids [] = Inr ()"
| "verify_reports E r ids (report # reports) =
     (if report_validate report \<noteq> Inr () \<or> rr_effect_id report \<noteq> in_effect_id (de_intent r)
         \<or> (case rr_attempt_id report of None \<Rightarrow> True
            | Some attempt_id \<Rightarrow> \<not> list_ex (\<lambda>attempt. at_attempt_id attempt = attempt_id) (de_attempts r))
         \<or> rr_report_id report \<in> ids \<or> \<not> journaled E r ''reconciliation'' (PayReport report)
      then Inl ECorruptJournal
      else verify_reports E r (insert (rr_report_id report) ids) reports)"

definition link_bound :: "effect_env \<Rightarrow> durable_effect_record \<Rightarrow> bool" where
  "link_bound E r \<longleftrightarrow> (case de_compensation_link r of
     None \<Rightarrow> True
   | Some link \<Rightarrow> link_validate link = Inr () \<and> cl_original_effect_id link = in_effect_id (de_intent r) \<and>
       (case in_compensation (de_intent r) of None \<Rightarrow> False
        | Some spec \<Rightarrow> compensation_spec_digest E spec = Inr (cl_compensation_spec_digest link)))"

definition verify_outbox :: "durable_effect_record \<Rightarrow> (effect_error, unit) result" where
  "verify_outbox r =
     (case de_outbox r of
        None \<Rightarrow> if de_state r = Dispatching then Inl ECorruptJournal else Inr ()
      | Some outbox \<Rightarrow>
          if de_attempts r = [] then Inl ECorruptJournal
          else let attempt = last (de_attempts r);
                   expected_state = (if de_state r = Dispatching then OClaimed else OCompleted)
               in if oe_attempt_id outbox \<noteq> at_attempt_id attempt \<or> oe_fencing_token outbox \<noteq> at_fencing_token attempt
                     \<or> oe_state outbox \<noteq> expected_state \<or> oe_state outbox = OPending
                  then Inl ECorruptJournal else Inr ())"

definition verify_record :: "effect_env \<Rightarrow> durable_effect_record \<Rightarrow> (effect_error, unit) result" where
  "verify_record E r =
     rbind (map_err (\<lambda>_. ECorruptJournal) (intent_validate (de_intent r))) (\<lambda>_.
     rbind (effect_intent_digest E (de_intent r)) (\<lambda>intent_digest.
       if intent_digest \<noteq> de_intent_digest r then Inl ECorruptJournal
       else rbind (approval_digest_of E (de_approval r)) (\<lambda>approval_digest.
         if approval_digest \<noteq> de_approval_digest r \<or> unat (de_effect_version r) \<noteq> length (de_journal r)
            \<or> de_state r \<noteq> (if de_journal r = [] then Prepared else je_to_state (last (de_journal r)))
            \<or> length (de_attempts r) > MAX_EFFECT_ATTEMPTS \<or> length (de_reconciliations r) > MAX_EFFECT_RECONCILIATIONS
         then Inl ECorruptJournal
         else rbind (case de_approval r of None \<Rightarrow> Inr () | Some approval \<Rightarrow> approval_bound E r approval) (\<lambda>_.
              rbind (verify_journal E (de_intent r) None (de_journal r)) (\<lambda>_.
                if length (filter (\<lambda>event. je_to_state event = Dispatching) (de_journal r)) \<noteq> length (de_attempts r)
                then Inl ECorruptJournal
                else rbind (verify_attempts r 0 None {} (de_attempts r)) (\<lambda>_.
                     rbind (verify_receipts E r {} (de_receipts r)) (\<lambda>_.
                     rbind (verify_reports E r {} (de_reconciliations r)) (\<lambda>_.
                       if \<not> link_bound E r then Inl ECorruptJournal else verify_outbox r))))))))"

end
