(* ===== verification/Effect_Plans.thy ===== *)
theory Effect_Plans
  imports Effect_Kernel
begin

text \<open>
  What each operation of \<open>EffectEngine\<close> (\<open>cigar-effects/src/engine.rs\<close>) computes between reading the
  current record and committing its successor: the guards in the order of the code, the new attempt,
  receipt, report or link, the payload digest of the journal event and the transition. The next
  record, or the error the operation returns, is the result; reading and committing are in
  \<open>Effect_Engine\<close>. A compensation child and a connector descriptor are arguments, as read by the caller.
\<close>

definition in_intent_window :: "effect_authorization \<Rightarrow> effect_intent \<Rightarrow> bool" where
  "in_intent_window auth intent \<longleftrightarrow> in_created_at intent \<le> ea_now auth \<and> ea_now auth < in_expires_at intent"

definition approval_lapsed :: "durable_effect_record \<Rightarrow> timestamp \<Rightarrow> bool" where
  "approval_lapsed r now \<longleftrightarrow> (case de_approval r of None \<Rightarrow> False | Some approval \<Rightarrow> now \<ge> ap_expires_at approval)"

definition complete_outbox :: "durable_effect_record \<Rightarrow> durable_effect_record" where
  "complete_outbox r = r\<lparr>de_outbox := map_option (\<lambda>outbox. outbox\<lparr>oe_state := OCompleted\<rparr>) (de_outbox r)\<rparr>"

text \<open>Another lookup or decision about an owned attempt is premature until its deadline.\<close>

definition entry_open :: "effect_env \<Rightarrow> durable_effect_record \<Rightarrow> timestamp \<Rightarrow> (effect_error, bool) result" where
  "entry_open E r now =
     rbind (dispatch_ownership_unreceipted E r) (\<lambda>owned.
       Inr (owned \<and> de_attempts r \<noteq> [] \<and> now < at_deadline (last (de_attempts r))))"

subsection \<open>Before dispatch\<close>

definition retry_supported :: "effect_intent \<Rightarrow> connector_operation \<Rightarrow> bool" where
  "retry_supported intent operation = (case in_retry_policy intent of
     RetryNever \<Rightarrow> True
   | SameKeyIdempotent _ \<Rightarrow> co_same_key_idempotent operation
   | ReconcileBeforeRetry \<Rightarrow> co_supports_reconciliation operation)"

definition compensation_supported :: "effect_intent \<Rightarrow> connector_descriptor \<Rightarrow> connector_operation \<Rightarrow> bool" where
  "compensation_supported intent descriptor operation = (case in_compensation intent of
     None \<Rightarrow> True
   | Some c \<Rightarrow> co_supports_compensation operation \<and> descriptor_operation descriptor (cs_operation c) \<noteq> None)"

definition prepare_guards ::
    "effect_env \<Rightarrow> connector_descriptor option \<Rightarrow> effect_intent \<Rightarrow> effect_authorization \<Rightarrow> (effect_error, content_digest) result" where
  "prepare_guards E descriptor intent auth =
     rbind (map_err (\<lambda>_. EInvalidInput) (intent_validate intent)) (\<lambda>_.
       if \<not> permits_proposal auth \<or> \<not> in_intent_window auth intent then Inl EUnauthorized
       else rbind (ok_or descriptor EInvalidInput) (\<lambda>descriptor.
            rbind (ok_or (descriptor_operation descriptor (in_operation intent)) EInvalidInput) (\<lambda>operation.
              if \<not> retry_supported intent operation \<or> \<not> compensation_supported intent descriptor operation
              then Inl EInvalidInput
              else effect_intent_digest E intent)))"

definition prepared_record :: "effect_intent \<Rightarrow> content_digest \<Rightarrow> durable_effect_record" where
  "prepared_record intent intent_digest =
     \<lparr>de_intent = intent, de_intent_digest = intent_digest, de_state = Prepared, de_effect_version = 0,
      de_approval = None, de_approval_digest = None, de_attempts = [], de_receipts = [], de_reconciliations = [],
      de_compensation_link = None, de_journal = [], de_outbox = None\<rparr>"

definition request_approval_next ::
    "effect_env \<Rightarrow> durable_effect_record \<Rightarrow> u64 \<Rightarrow> record_id \<Rightarrow> effect_authorization \<Rightarrow> (effect_error, durable_effect_record) result" where
  "request_approval_next E r expected_version event_id auth =
     rbind (require_version r expected_version) (\<lambda>_.
       if \<not> permits_proposal auth \<or> \<not> in_intent_window auth (de_intent r) then Inl EUnauthorized
       else rbind (payload_digest E ''approval-requested'' (PayDigest (de_intent_digest r))) (\<lambda>payload.
         transition E r PendingApproval (ea_actor_id auth) event_id payload (ea_now auth)))"

definition authorize_next ::
    "effect_env \<Rightarrow> durable_effect_record \<Rightarrow> u64 \<Rightarrow> record_id \<Rightarrow> effect_approval option \<Rightarrow> effect_authorization
      \<Rightarrow> (effect_error, durable_effect_record) result" where
  "authorize_next E r expected_version event_id approval auth =
     rbind (require_version r expected_version) (\<lambda>_.
       if \<not> permits_dispatch auth (de_intent r) \<or> \<not> in_intent_window auth (de_intent r) then Inl EUnauthorized
       else rbind (case approval of
                     Some a \<Rightarrow> verify_approval E r a (ea_now auth)
                   | None \<Rightarrow> if in_risk (de_intent r) = Low then Inr () else Inl EUnauthorized) (\<lambda>_.
            rbind (approval_digest_of E approval) (\<lambda>approval_digest.
            rbind (payload_digest E ''authorization'' (PayAuthorization (de_intent_digest r) approval_digest)) (\<lambda>payload.
              transition E (r\<lparr>de_approval := approval, de_approval_digest := approval_digest\<rparr>) Authorized
                (ea_actor_id auth) event_id payload (ea_now auth)))))"

definition reject_next ::
    "effect_env \<Rightarrow> durable_effect_record \<Rightarrow> u64 \<Rightarrow> record_id \<Rightarrow> effect_authorization \<Rightarrow> content_digest
      \<Rightarrow> (effect_error, durable_effect_record) result" where
  "reject_next E r expected_version event_id auth evidence =
     rbind (require_version r expected_version) (\<lambda>_.
       if \<not> ea_policy_allows auth \<or> ApproveEffect |\<notin>| ea_capabilities auth then Inl EUnauthorized
       else transition E r Rejected (ea_actor_id auth) event_id evidence (ea_now auth))"

definition expire_next ::
    "effect_env \<Rightarrow> durable_effect_record \<Rightarrow> u64 \<Rightarrow> record_id \<Rightarrow> record_id \<Rightarrow> timestamp \<Rightarrow> (effect_error, durable_effect_record) result" where
  "expire_next E r expected_version event_id actor_id now =
     rbind (require_version r expected_version) (\<lambda>_.
       if now < in_expires_at (de_intent r) \<and> \<not> approval_lapsed r now then Inl EExpired
       else rbind (payload_digest E ''expiry'' (PayExpiry (de_intent_digest r) now)) (\<lambda>payload.
         transition E r Expired actor_id event_id payload now))"

definition cancel_next ::
    "effect_env \<Rightarrow> durable_effect_record \<Rightarrow> u64 \<Rightarrow> record_id \<Rightarrow> effect_authorization \<Rightarrow> (effect_error, durable_effect_record) result" where
  "cancel_next E r expected_version event_id auth =
     rbind (require_version r expected_version) (\<lambda>_.
       if \<not> permits_proposal auth \<or> ea_now auth < in_created_at (de_intent r) then Inl EUnauthorized
       else rbind (payload_digest E ''cancellation'' (PayDigest (de_intent_digest r))) (\<lambda>payload.
         transition E r Cancelled (ea_actor_id auth) event_id payload (ea_now auth)))"

subsection \<open>Dispatch\<close>

definition attempt_v1 :: schema_version where
  "attempt_v1 = \<lparr>sv_family = ''cigar.effect-attempt'', sv_major = 1\<rparr>"

definition u16_try_from :: "nat \<Rightarrow> u16 option" where
  "u16_try_from n = (if n < 2 ^ 16 then Some (of_nat n) else None)"

definition claim_dispatch_next ::
    "effect_env \<Rightarrow> connector_descriptor option \<Rightarrow> durable_effect_record \<Rightarrow> u64 \<Rightarrow> record_id \<Rightarrow> record_id \<Rightarrow> record_id
      \<Rightarrow> timestamp \<Rightarrow> effect_authorization \<Rightarrow> (effect_error, durable_effect_record) result" where
  "claim_dispatch_next E descriptor r expected_version attempt_id outbox_message_id event_id deadline auth =
     rbind (require_version r expected_version) (\<lambda>_.
       if \<not> permits_dispatch auth (de_intent r) \<or> \<not> in_intent_window auth (de_intent r) \<or> deadline \<le> ea_now auth
          \<or> deadline > in_expires_at (de_intent r) \<or> approval_lapsed r (ea_now auth)
       then Inl EUnauthorized
       else rbind (ok_or descriptor EInvalidInput) (\<lambda>descriptor.
            rbind (ok_or (descriptor_operation descriptor (in_operation (de_intent r))) EInvalidInput) (\<lambda>operation.
              if deadline - ea_now auth > int (unat (cd_maximum_dispatch_nanos descriptor)) then Inl ELimitExceeded
              else rbind (validate_retry_claim r (co_same_key_idempotent operation)) (\<lambda>_.
                if length (de_attempts r) \<ge> MAX_EFFECT_ATTEMPTS then Inl ELimitExceeded
                else rbind (ok_or (Option.bind (u16_try_from (length (de_attempts r))) (\<lambda>n. checked_add n 1)) ELimitExceeded) (\<lambda>attempt_number.
                     rbind (ok_or (if de_attempts r = [] then Some 1 else checked_add (at_fencing_token (last (de_attempts r))) 1)
                              ELimitExceeded) (\<lambda>fencing_token.
                       let attempt = \<lparr>at_schema_version = attempt_v1, at_attempt_id = attempt_id,
                             at_effect_id = in_effect_id (de_intent r), at_attempt_number = attempt_number,
                             at_fencing_token = fencing_token, at_request_digest = de_intent_digest r,
                             at_started_at = ea_now auth, at_deadline = deadline\<rparr>;
                           outbox = \<lparr>oe_message_id = outbox_message_id, oe_attempt_id = attempt_id,
                             oe_fencing_token = fencing_token, oe_state = OClaimed\<rparr>
                       in rbind (map_err (\<lambda>_. EInvalidInput) (attempt_validate attempt)) (\<lambda>_.
                          rbind (payload_digest E ''dispatch-claim'' (PayClaim attempt outbox)) (\<lambda>payload.
                            transition E (r\<lparr>de_attempts := de_attempts r @ [attempt], de_outbox := Some outbox\<rparr>)
                              Dispatching (ea_actor_id auth) event_id payload (ea_now auth)))))))))"

definition resume_dispatch_permit ::
    "effect_env \<Rightarrow> durable_effect_record \<Rightarrow> record_id \<Rightarrow> u64 \<Rightarrow> (effect_error, dispatch_permit) result" where
  "resume_dispatch_permit E r effect_id expected_version =
     rbind (require_version r expected_version) (\<lambda>_.
       if de_attempts r = [] then Inl ECorruptJournal
       else let attempt = last (de_attempts r)
       in rbind (permit_seal E effect_id (at_attempt_id attempt) (at_fencing_token attempt) (de_effect_version r)
                  (de_intent_digest r)) (\<lambda>seal.
          let permit = \<lparr>dp_effect_id = effect_id, dp_attempt_id = at_attempt_id attempt,
                dp_fencing_token = at_fencing_token attempt, dp_effect_version = de_effect_version r,
                dp_request_digest = de_intent_digest r, dp_seal = seal\<rparr>
          in rbind (verify_permit E r permit) (\<lambda>_. Inr permit)))"

text \<open>The current authority a worker must still have just before it enters the connector.\<close>

definition may_send :: "effect_authorization \<Rightarrow> durable_effect_record \<Rightarrow> effect_attempt \<Rightarrow> bool" where
  "may_send auth r attempt \<longleftrightarrow> permits_dispatch auth (de_intent r) \<and> in_intent_window auth (de_intent r) \<and>
     ea_now auth < at_deadline attempt \<and> \<not> approval_lapsed r (ea_now auth)"

definition acquire_dispatch_ownership_next ::
    "effect_env \<Rightarrow> durable_effect_record \<Rightarrow> dispatch_permit \<Rightarrow> record_id \<Rightarrow> effect_authorization
      \<Rightarrow> (effect_error, durable_effect_record \<times> idempotency_identity) result" where
  "acquire_dispatch_ownership_next E r permit ownership_event_id auth =
     rbind (verify_permit E r permit) (\<lambda>_.
       if de_attempts r = [] then Inl ECorruptJournal
       else let attempt = last (de_attempts r)
       in rbind (payload_digest E ''dispatch-connector-entry'' (ownership_payload r attempt)) (\<lambda>ownership_digest.
          rbind (transition E (complete_outbox r) Unknown (ea_actor_id auth) ownership_event_id ownership_digest (ea_now auth)) (\<lambda>next.
          rbind (map_err (\<lambda>_. EInvalidInput) (identity_new
              (''effect-dispatch-owner:'' @ in_effect_id (de_intent r) @ '':'' @ at_attempt_id attempt)
              (in_idempotency_key (de_intent r)) ownership_digest)) (\<lambda>identity.
            Inr (next, identity)))))"

definition receipt_v1 :: schema_version where
  "receipt_v1 = \<lparr>sv_family = ''cigar.effect-receipt'', sv_major = 1\<rparr>"

fun observed ::
    "dispatch_observation \<Rightarrow> receipt_outcome \<times> effect_state \<times> string option \<times> content_digest option \<times> content_digest option" where
  "observed (ObsSucceeded remote response verification) = (RSucceeded, Succeeded, Some remote, Some response, Some verification)"
| "observed (ObsFailed evidence) = (RFailed, Failed, None, None, Some evidence)"
| "observed (ObsUnknown evidence remote) = (RUnknown, Unknown, remote, None, Some evidence)"
| "observed (ObsProvenNotSent evidence) = (RUnknown, Unknown, None, None, Some evidence)"

definition finalize_observation_next ::
    "effect_env \<Rightarrow> durable_effect_record \<Rightarrow> effect_attempt \<Rightarrow> record_id \<Rightarrow> record_id \<Rightarrow> record_id \<Rightarrow> timestamp \<Rightarrow> dispatch_observation
      \<Rightarrow> (effect_error, durable_effect_record) result" where
  "finalize_observation_next E r attempt receipt_id event_id actor_id observed_at observation =
     (case observed observation of (outcome, target, remote, response, verification) \<Rightarrow>
        let receipt = \<lparr>re_schema_version = receipt_v1, re_receipt_id = receipt_id, re_effect_id = in_effect_id (de_intent r),
              re_attempt_id = at_attempt_id attempt, re_outcome = outcome, re_remote_operation_id = remote,
              re_protected_response = None, re_response_digest = response, re_observed_at = observed_at,
              re_verification_digest = verification\<rparr>
        in rbind (map_err (\<lambda>_. EInvalidInput) (receipt_validate receipt)) (\<lambda>_.
           rbind (payload_digest E ''receipt'' (PayReceipt receipt)) (\<lambda>payload.
             transition E (complete_outbox (r\<lparr>de_receipts := de_receipts r @ [receipt]\<rparr>)) target actor_id event_id payload
               observed_at)))"

definition recover_inflight_next ::
    "effect_env \<Rightarrow> durable_effect_record \<Rightarrow> u64 \<Rightarrow> record_id \<Rightarrow> record_id \<Rightarrow> timestamp \<Rightarrow> content_digest
      \<Rightarrow> (effect_error, durable_effect_record) result" where
  "recover_inflight_next E r expected_version event_id actor_id now evidence =
     rbind (require_version r expected_version) (\<lambda>_.
       if de_state r \<noteq> Dispatching then Inl EInvalidTransition
       else transition E (complete_outbox r) Unknown actor_id event_id evidence now)"

subsection \<open>After an ambiguous outcome\<close>

definition authorize_idempotent_retry_next ::
    "effect_env \<Rightarrow> connector_descriptor option \<Rightarrow> durable_effect_record \<Rightarrow> u64 \<Rightarrow> record_id \<Rightarrow> effect_authorization
      \<Rightarrow> (effect_error, durable_effect_record) result" where
  "authorize_idempotent_retry_next E descriptor r expected_version event_id auth =
     rbind (require_version r expected_version) (\<lambda>_.
       if de_state r \<noteq> Unknown \<or> \<not> permits_dispatch auth (de_intent r) then Inl EUnauthorized
       else rbind (entry_open E r (ea_now auth)) (\<lambda>too_early.
         if too_early then Inl EUnsafeRetry
         else rbind (ok_or descriptor EInvalidInput) (\<lambda>descriptor.
              rbind (ok_or (descriptor_operation descriptor (in_operation (de_intent r))) EInvalidInput) (\<lambda>operation.
                if \<not> co_same_key_idempotent operation
                   \<or> \<not> (case in_retry_policy (de_intent r) of SameKeyIdempotent _ \<Rightarrow> True | _ \<Rightarrow> False)
                then Inl EUnsafeRetry
                else rbind (stable_marker E ''same-key-idempotent-retry'') (\<lambda>payload.
                  transition E r AuthorizedForRetry (ea_actor_id auth) event_id payload (ea_now auth))))))"

definition report_v1 :: schema_version where
  "report_v1 = \<lparr>sv_family = ''cigar.reconciliation-report'', sv_major = 1\<rparr>"

text \<open>
  \<open>UtcTimestamp::from_unix_nanos\<close> accepts the range of the date library; a 64-bit backoff stays inside
  \<open>i128\<close>. The range test is the argument \<open>representable\<close>.
\<close>

definition bounded_backoff_end :: "(timestamp \<Rightarrow> bool) \<Rightarrow> timestamp \<Rightarrow> u64 \<Rightarrow> (effect_error, timestamp) result" where
  "bounded_backoff_end representable now backoff_nanos =
     (if now + int (unat backoff_nanos) < 2 ^ 127 \<and> representable (now + int (unat backoff_nanos))
      then Inr (now + int (unat backoff_nanos)) else Inl ELimitExceeded)"

definition reconciled ::
    "effect_intent \<Rightarrow> timestamp \<Rightarrow> content_digest \<Rightarrow> timestamp \<Rightarrow> reconcile_observation
      \<Rightarrow> reconciliation_outcome \<times> content_digest \<times> timestamp option \<times> effect_state" where
  "reconciled intent now failure fallback_end observation = (case observation of
     RecSuccess evidence \<Rightarrow> (ConfirmedSuccess, evidence, None, Succeeded)
   | RecFailure evidence \<Rightarrow> (ConfirmedFailure, evidence, None, Failed)
   | RecNotExecuted evidence \<Rightarrow>
       (ProvenNotExecuted, evidence, None, if in_retry_policy intent = RetryNever then Unknown else AuthorizedForRetry)
   | RecInconclusive evidence window_end \<Rightarrow>
       if window_end \<le> now then (Inconclusive, failure, Some fallback_end, Unknown)
       else (Inconclusive, evidence, Some window_end, Unknown))"

text \<open>The lookup result is \<open>None\<close> when the connector panics or fails; \<open>descriptor\<close> is its verified descriptor.\<close>

definition reconcile_next ::
    "effect_env \<Rightarrow> (timestamp \<Rightarrow> bool) \<Rightarrow> (effect_error, connector_descriptor) result \<Rightarrow> durable_effect_record \<Rightarrow> u64 \<Rightarrow> record_id
      \<Rightarrow> record_id \<Rightarrow> effect_authorization \<Rightarrow> reconcile_observation option \<Rightarrow> (effect_error, durable_effect_record) result" where
  "reconcile_next E representable descriptor r expected_version report_id event_id auth looked_up =
     rbind (require_version r expected_version) (\<lambda>_.
       if de_state r \<noteq> Unknown \<or> \<not> permits_reconciliation auth then Inl EUnauthorized
       else rbind (entry_open E r (ea_now auth)) (\<lambda>too_early.
         if too_early then Inl EInvalidTransition
         else if de_attempts r = [] then Inl ECorruptJournal
         else rbind descriptor (\<lambda>descriptor.
              rbind (ok_or (descriptor_operation descriptor (in_operation (de_intent r))) EInvalidInput) (\<lambda>operation.
                if \<not> co_supports_reconciliation operation then Inl EUnsafeRetry
                else rbind (bounded_backoff_end representable (ea_now auth) (cd_maximum_dispatch_nanos descriptor)) (\<lambda>fallback_end.
                     rbind (stable_marker E ''reconciler-panic-error-or-invalid-response'') (\<lambda>failure.
                       let observation = (case looked_up of Some x \<Rightarrow> x | None \<Rightarrow> RecInconclusive failure fallback_end)
                       in case reconciled (de_intent r) (ea_now auth) failure fallback_end observation of
                            (outcome, evidence, window_end, target) \<Rightarrow>
                            let report = \<lparr>rr_schema_version = report_v1, rr_report_id = report_id,
                                  rr_effect_id = in_effect_id (de_intent r),
                                  rr_attempt_id = Some (at_attempt_id (last (de_attempts r))), rr_outcome = outcome,
                                  rr_evidence_digests = [evidence], rr_reconciled_at = ea_now auth,
                                  rr_certainty_window_end = window_end\<rparr>
                            in rbind (map_err (\<lambda>_. EInvalidInput) (report_validate report)) (\<lambda>_.
                                 if length (de_reconciliations r) \<ge> MAX_EFFECT_RECONCILIATIONS then Inl ELimitExceeded
                                 else rbind (payload_digest E ''reconciliation'' (PayReport report)) (\<lambda>payload.
                                   transition E (r\<lparr>de_reconciliations := de_reconciliations r @ [report]\<rparr>) target
                                     (ea_actor_id auth) event_id payload (ea_now auth)))))))))"

definition manual_resolution_next ::
    "effect_env \<Rightarrow> durable_effect_record \<Rightarrow> u64 \<Rightarrow> record_id \<Rightarrow> effect_authorization \<Rightarrow> content_digest
      \<Rightarrow> (effect_error, durable_effect_record) result" where
  "manual_resolution_next E r expected_version event_id auth resolution_digest =
     rbind (require_version r expected_version) (\<lambda>_.
       if \<not> permits_reconciliation auth then Inl EUnauthorized
       else rbind (entry_open E r (ea_now auth)) (\<lambda>too_early.
         if too_early then Inl EInvalidTransition
         else transition E r ManualResolution (ea_actor_id auth) event_id resolution_digest (ea_now auth)))"

subsection \<open>Compensation\<close>

definition request_compensation_next ::
    "effect_env \<Rightarrow> connector_descriptor option \<Rightarrow> effect_state \<Rightarrow> durable_effect_record option \<Rightarrow> durable_effect_record \<Rightarrow> u64 \<Rightarrow> record_id
      \<Rightarrow> effect_authorization \<Rightarrow> compensation_link \<Rightarrow> (effect_error, durable_effect_record \<times> idempotency_identity) result" where
  "request_compensation_next E descriptor required_child_state child r expected_version event_id auth link =
     rbind (require_version r expected_version) (\<lambda>_.
     rbind (map_err (\<lambda>_. EInvalidInput) (link_validate link)) (\<lambda>_.
     rbind (ok_or (in_compensation (de_intent r)) EInvalidTransition) (\<lambda>compensation.
     rbind (ok_or child ENotFound) (\<lambda>child.
     rbind (ok_or descriptor EInvalidInput) (\<lambda>descriptor.
     rbind (ok_or (descriptor_operation descriptor (in_operation (de_intent r))) EInvalidInput) (\<lambda>operation.
       if \<not> co_supports_compensation operation \<or> cl_original_effect_id link \<noteq> in_effect_id (de_intent r)
       then Inl EUnauthorized
       else rbind (compensation_spec_digest E compensation) (\<lambda>spec_digest.
         if cl_compensation_spec_digest link \<noteq> spec_digest \<or> cl_created_at link > ea_now auth
            \<or> \<not> permits_dispatch auth (de_intent r) \<or> de_state child \<noteq> required_child_state
            \<or> in_connector (de_intent child) \<noteq> in_connector (de_intent r)
            \<or> in_operation (de_intent child) \<noteq> cs_operation compensation
            \<or> in_arguments_digest (de_intent child) \<noteq> cs_arguments_digest compensation
            \<or> in_encrypted_arguments (de_intent child) \<noteq> cs_encrypted_arguments compensation
         then Inl EUnauthorized
         else rbind (payload_digest E ''compensation-link'' (PayLink link)) (\<lambda>payload.
              rbind (payload_digest E ''compensation-child-reservation'' (PayReservation (cl_original_effect_id link)
                      (cl_compensation_effect_id link) (cl_compensation_spec_digest link))) (\<lambda>reservation_digest.
              rbind (map_err (\<lambda>_. EInvalidInput) (identity_new
                      (''effect-compensation-child:'' @ cl_compensation_effect_id link)
                      (in_idempotency_key (de_intent child)) reservation_digest)) (\<lambda>reservation.
              rbind (transition E (r\<lparr>de_compensation_link := Some link\<rparr>) CompensationPending (ea_actor_id auth) event_id
                      payload (ea_now auth)) (\<lambda>next.
                Inr (next, reservation))))))))))))"

definition begin_compensation_next ::
    "effect_env \<Rightarrow> durable_effect_record \<Rightarrow> durable_effect_record \<Rightarrow> u64 \<Rightarrow> record_id \<Rightarrow> effect_authorization
      \<Rightarrow> (effect_error, durable_effect_record) result" where
  "begin_compensation_next E child r expected_version event_id auth =
     rbind (require_version r expected_version) (\<lambda>_.
     rbind (ok_or (de_compensation_link r) EInvalidTransition) (\<lambda>link.
       if de_state r \<noteq> CompensationPending \<or> de_state child \<notin> {Authorized, Dispatching}
          \<or> \<not> permits_dispatch auth (de_intent r) \<or> \<not> permits_dispatch auth (de_intent child)
       then Inl EUnauthorized
       else rbind (payload_digest E ''compensation-started'' (PayStarted (cl_compensation_effect_id link)
                    (de_effect_version child) (de_intent_digest child))) (\<lambda>payload.
         transition E r Compensating (ea_actor_id auth) event_id payload (ea_now auth))))"

definition compensation_target :: "effect_state \<Rightarrow> effect_state option" where
  "compensation_target child_state = (case child_state of
     Succeeded \<Rightarrow> Some Compensated | Compensated \<Rightarrow> Some Compensated
   | Failed \<Rightarrow> Some CompensationFailed | CompensationFailed \<Rightarrow> Some CompensationFailed
   | Unknown \<Rightarrow> Some Unknown | _ \<Rightarrow> None)"

definition resolve_compensation_next ::
    "effect_env \<Rightarrow> durable_effect_record \<Rightarrow> durable_effect_record \<Rightarrow> u64 \<Rightarrow> record_id \<Rightarrow> effect_authorization
      \<Rightarrow> (effect_error, durable_effect_record) result" where
  "resolve_compensation_next E child r expected_version event_id auth =
     rbind (require_version r expected_version) (\<lambda>_.
     rbind (ok_or (de_compensation_link r) EInvalidTransition) (\<lambda>link.
       if de_state r \<noteq> Compensating \<or> \<not> permits_reconciliation auth then Inl EUnauthorized
       else rbind (ok_or (compensation_target (de_state child)) EInvalidTransition) (\<lambda>target.
            rbind (payload_digest E ''compensation-resolved'' (PayResolved (cl_compensation_effect_id link)
                    (de_effect_version child) (de_state child)
                    (if de_journal child = [] then None else Some (je_event_digest (last (de_journal child)))))) (\<lambda>payload.
              transition E r target (ea_actor_id auth) event_id payload (ea_now auth)))))"

end
