(* ===== verification/Effect_Engine.thy ===== *)
theory Effect_Engine
  imports Effect_Plans
begin

text \<open>
  The repository-backed effect engine, \<open>EffectEngine\<close> and \<open>ProcessEffectAuthenticator\<close> of
  \<open>cigar-effects/src/engine.rs\<close>: sealed record envelopes, rollback checkpoints, reads, the optimistic
  commit loop and the public operations. An operation reads the current record, computes the next one
  (\<open>Effect_Plans\<close>) and commits it. Between the read and the commit of one loop round other threads may
  act: \<open>env i\<close> is what they do before the \<open>i\<close>-th access of the loop. The JSON codec of a sealed record is
  part of the context; connectors are third-party code, passed as their answers.
\<close>

unbundle bit_operations_syntax

record effect_record_seal =
  es_key_id :: string
  es_authenticator :: content_digest
  es_signed_proof :: "(timestamp \<times> string) option"

record authenticated_effect_record =
  ar_schema_version :: string
  ar_record :: durable_effect_record
  ar_seal :: effect_record_seal

record effect_ctx =
  cx_env :: effect_env
  cx_tenant :: record_id
  cx_key_id :: string
  cx_key :: "string option"
  cx_record_json :: "durable_effect_record \<Rightarrow> string option"
  cx_sealed_json :: "authenticated_effect_record \<Rightarrow> string option"
  cx_sealed_parse :: "string \<Rightarrow> authenticated_effect_record option"

type_synonym checkpoints = "(record_id \<times> record_id, content_digest \<times> u64 \<times> content_digest) btree"

record effect_engine =
  eg_store :: memory_store
  eg_checkpoints :: checkpoints
  eg_connectors :: "(string, connector_descriptor) btree"

definition MAX_PERSIST_RETRIES :: nat where "MAX_PERSIST_RETRIES = 16"
definition MAX_LATEST_READ_RETRIES :: nat where "MAX_LATEST_READ_RETRIES = 16"
definition EFFECT_RECORD_SIGNATURE_BYTES :: nat where "EFFECT_RECORD_SIGNATURE_BYTES = 64"
definition AUTHENTICATED_RECORD_SCHEMA :: string where
  "AUTHENTICATED_RECORD_SCHEMA = ''cigar.authenticated-effect-record.v1''"

subsection \<open>Seals\<close>

definition key_id_ok :: "string \<Rightarrow> bool" where
  "key_id_ok key_id \<longleftrightarrow> key_id \<noteq> [] \<and> length key_id \<le> 128 \<and> \<not> list_ex is_ascii_control key_id"

definition seal_new :: "string \<Rightarrow> content_digest \<Rightarrow> (effect_error, effect_record_seal) result" where
  "seal_new key_id authenticator =
     (if \<not> key_id_ok key_id then Inl EInvalidInput
      else Inr \<lparr>es_key_id = key_id, es_authenticator = authenticator, es_signed_proof = None\<rparr>)"

definition seal_validate :: "effect_record_seal \<Rightarrow> (effect_error, unit) result" where
  "seal_validate seal =
     (if \<not> key_id_ok (es_key_id seal) then Inl EInvalidInput
      else case es_signed_proof seal of
        Some (signed_at, signature) \<Rightarrow> if length signature \<noteq> EFFECT_RECORD_SIGNATURE_BYTES then Inl EInvalidInput else Inr ()
      | None \<Rightarrow> Inr ())"

definition xor_bytes :: "string \<Rightarrow> string \<Rightarrow> string" where
  "xor_bytes pad key = map (\<lambda>(p, k). char_of (byte p XOR byte k)) (zip pad key) @ drop (length key) pad"

definition keyed_record_authenticator ::
    "effect_env \<Rightarrow> string \<Rightarrow> record_id \<Rightarrow> string \<Rightarrow> (effect_error, content_digest) result" where
  "keyed_record_authenticator E key tenant_id canonical_record =
     (let inner_pad = xor_bytes (replicate 64 (CHR 0x36)) key; outer_pad = xor_bytes (replicate 64 (CHR 0x5C)) key
      in rbind (ok_or (u64_try_from (length tenant_id)) ELimitExceeded) (\<lambda>tenant_length.
         rbind (ok_or (u64_try_from (length canonical_record)) ELimitExceeded) (\<lambda>record_length.
           digest_to_multihash (en_sha256 E (outer_pad @ en_sha256 E (inner_pad @
             ''CIGAR-EFFECT-RECORD-AUTHENTICATOR'' @ [CHR 0x00] @ ''v1'' @ [CHR 0x00] @
             be_bytes 8 (unat tenant_length) @ tenant_id @ be_bytes 8 (unat record_length) @ canonical_record))))))"

definition constant_time_equal :: "string \<Rightarrow> string \<Rightarrow> bool" where
  "constant_time_equal left right \<longleftrightarrow> length left = length right \<and>
     fold (\<lambda>(l, r) difference. difference OR (byte l XOR byte r)) (zip left right) 0 = 0"

definition authenticator_seal :: "effect_ctx \<Rightarrow> string \<Rightarrow> (effect_error, effect_record_seal) result" where
  "authenticator_seal X canonical_record =
     rbind (ok_or (cx_key X) EUnavailable) (\<lambda>key.
     rbind (keyed_record_authenticator (cx_env X) key (cx_tenant X) canonical_record) (\<lambda>authenticator.
       seal_new (cx_key_id X) authenticator))"

definition authenticator_verify :: "effect_ctx \<Rightarrow> string \<Rightarrow> effect_record_seal \<Rightarrow> (effect_error, unit) result" where
  "authenticator_verify X canonical_record seal =
     rbind (ok_or (cx_key X) EUnavailable) (\<lambda>key.
       if es_key_id seal \<noteq> cx_key_id X \<or> es_signed_proof seal \<noteq> None then Inl ECorruptJournal
       else rbind (keyed_record_authenticator (cx_env X) key (cx_tenant X) canonical_record) (\<lambda>authenticator.
         if \<not> constant_time_equal authenticator (es_authenticator seal) then Inl ECorruptJournal else Inr ()))"

definition observe_latest ::
    "record_id \<Rightarrow> record_id \<Rightarrow> content_digest \<Rightarrow> u64 \<Rightarrow> content_digest \<Rightarrow> checkpoints \<Rightarrow> checkpoints \<times> (effect_error, unit) result" where
  "observe_latest tenant_id effect_id intent_digest effect_version authenticator checkpoints =
     (case bt_get checkpoints (tenant_id, effect_id) of
        Some (current_intent, version, current) \<Rightarrow>
          if intent_digest \<noteq> current_intent \<or> effect_version < version \<or> (effect_version = version \<and> authenticator \<noteq> current)
          then (checkpoints, Inl ECorruptJournal)
          else if effect_version = version then (checkpoints, Inr ())
          else (bt_insert (tenant_id, effect_id) (intent_digest, effect_version, authenticator) checkpoints, Inr ())
      | None \<Rightarrow>
          (bt_insert (tenant_id, effect_id) (intent_digest, effect_version, authenticator) checkpoints, Inr ()))"

subsection \<open>Envelopes\<close>

fun map_store_error :: "store_error \<Rightarrow> effect_error" where
  "map_store_error SNotFound = ENotFound"
| "map_store_error SRevisionConflict = ERevisionConflict"
| "map_store_error SInvalidContext = EInvalidInput"
| "map_store_error SInvalidRecord = EInvalidInput"
| "map_store_error SLimitExceeded = ELimitExceeded"
| "map_store_error SCancelled = ECancelled"
| "map_store_error SMixedSnapshot = EUnavailable"
| "map_store_error SInjectedAbort = EUnavailable"
| "map_store_error SUnavailable = EUnavailable"

definition encode_record :: "effect_ctx \<Rightarrow> durable_effect_record \<Rightarrow> (effect_error, effect_record_envelope) result" where
  "encode_record X r =
     rbind (ok_or (cx_record_json X r) EUnavailable) (\<lambda>canonical_record.
     rbind (authenticator_seal X canonical_record) (\<lambda>seal.
     rbind (seal_validate seal) (\<lambda>_.
     rbind (ok_or (cx_sealed_json X \<lparr>ar_schema_version = AUTHENTICATED_RECORD_SCHEMA, ar_record = r, ar_seal = seal\<rparr>) EUnavailable) (\<lambda>bytes.
     rbind (raw_multihash (cx_env X) bytes) (\<lambda>record_digest.
       map_err map_store_error
         (envelope_new (en_sha256 (cx_env X)) (in_effect_id (de_intent r)) (de_effect_version r) record_digest bytes))))))"

definition decode_authenticated_effect_record ::
    "effect_ctx \<Rightarrow> effect_record_envelope \<Rightarrow> (effect_error, authenticated_effect_record) result" where
  "decode_authenticated_effect_record X envelope =
     rbind (raw_multihash (cx_env X) (ev_bytes envelope)) (\<lambda>digest.
       if digest \<noteq> ev_record_digest envelope then Inl ECorruptJournal
       else rbind (ok_or (cx_sealed_parse X (ev_bytes envelope)) ECorruptJournal) (\<lambda>authenticated.
         if ar_schema_version authenticated \<noteq> AUTHENTICATED_RECORD_SCHEMA
            \<or> in_effect_id (de_intent (ar_record authenticated)) \<noteq> ev_effect_id envelope
            \<or> de_effect_version (ar_record authenticated) \<noteq> ev_effect_version envelope
         then Inl ECorruptJournal
         else rbind (ok_or (cx_sealed_json X authenticated) ECorruptJournal) (\<lambda>bytes.
           if bytes \<noteq> ev_bytes envelope then Inl ECorruptJournal
           else rbind (map_err (\<lambda>_. ECorruptJournal) (seal_validate (ar_seal authenticated))) (\<lambda>_. Inr authenticated))))"

definition decode_record ::
    "effect_ctx \<Rightarrow> effect_record_envelope \<Rightarrow> bool \<Rightarrow> checkpoints \<Rightarrow> checkpoints \<times> (effect_error, durable_effect_record) result" where
  "decode_record X envelope observe checkpoints =
     (case rbind (decode_authenticated_effect_record X envelope) (\<lambda>authenticated.
           rbind (ok_or (cx_record_json X (ar_record authenticated)) ECorruptJournal) (\<lambda>canonical_record.
           rbind (authenticator_verify X canonical_record (ar_seal authenticated)) (\<lambda>_. Inr authenticated))) of
        Inl e \<Rightarrow> (checkpoints, Inl e)
      | Inr authenticated \<Rightarrow>
          if observe
          then case observe_latest (cx_tenant X) (in_effect_id (de_intent (ar_record authenticated)))
                 (de_intent_digest (ar_record authenticated)) (de_effect_version (ar_record authenticated))
                 (es_authenticator (ar_seal authenticated)) checkpoints of
                 (checkpoints', verdict) \<Rightarrow> (checkpoints', rbind verdict (\<lambda>_. Inr (ar_record authenticated)))
          else (checkpoints, Inr (ar_record authenticated)))"

subsection \<open>Sequencing over the engine state\<close>

type_synonym 'a engine_op = "effect_engine \<Rightarrow> effect_engine \<times> (effect_error, 'a) result"

definition ebind :: "'a engine_op \<Rightarrow> ('a \<Rightarrow> 'b engine_op) \<Rightarrow> 'b engine_op" where
  "ebind m f s = (case m s of (s', Inl e) \<Rightarrow> (s', Inl e) | (s', Inr a) \<Rightarrow> f a s')"

definition elift :: "(effect_error, 'a) result \<Rightarrow> 'a engine_op" where
  "elift x s = (s, x)"

definition with_checkpoints ::
    "(checkpoints \<Rightarrow> checkpoints \<times> (effect_error, 'a) result) \<Rightarrow> 'a engine_op" where
  "with_checkpoints f s = (case f (eg_checkpoints s) of (c, x) \<Rightarrow> (s\<lparr>eg_checkpoints := c\<rparr>, x))"

definition read_store :: "snapshot_selection \<Rightarrow> committed_state engine_op" where
  "read_store selection s = (s, map_err map_store_error (begin_read (eg_store s) selection False))"

definition interfere :: "(effect_engine \<Rightarrow> effect_engine) \<Rightarrow> unit engine_op" where
  "interfere f s = (f s, Inr ())"

subsection \<open>Reading a record\<close>

definition try_get_at :: "effect_ctx \<Rightarrow> record_id \<Rightarrow> snapshot_selection \<Rightarrow> durable_effect_record option engine_op" where
  "try_get_at X effect_id selection =
     ebind (read_store selection) (\<lambda>snapshot.
       case get_effect_record snapshot (cx_tenant X) effect_id of
         None \<Rightarrow> elift (Inr None)
       | Some envelope \<Rightarrow>
           ebind (with_checkpoints (decode_record X envelope (selection = Latest))) (\<lambda>r.
             if get_effect snapshot (cx_tenant X) effect_id \<noteq> de_journal r then elift (Inl ECorruptJournal)
             else ebind (elift (verify_record (cx_env X) r)) (\<lambda>_. elift (Inr (Some r)))))"

fun retry_latest_checkpoint_read :: "nat \<Rightarrow> 'a engine_op \<Rightarrow> 'a engine_op" where
  "retry_latest_checkpoint_read 0 read s = (s, Inl ECorruptJournal)"
| "retry_latest_checkpoint_read (Suc n) read s =
     (case read s of
        (s', Inl ERevisionConflict) \<Rightarrow> if n = 0 then (s', Inl ECorruptJournal) else retry_latest_checkpoint_read n read s'
      | (s', x) \<Rightarrow> (s', x))"

definition try_get :: "effect_ctx \<Rightarrow> record_id \<Rightarrow> durable_effect_record option engine_op" where
  "try_get X effect_id = retry_latest_checkpoint_read MAX_LATEST_READ_RETRIES (try_get_at X effect_id Latest)"

definition get_record :: "effect_ctx \<Rightarrow> record_id \<Rightarrow> durable_effect_record engine_op" where
  "get_record X effect_id = ebind (try_get X effect_id) (\<lambda>found. elift (ok_or found ENotFound))"

definition get_at_revision :: "effect_ctx \<Rightarrow> record_id \<Rightarrow> u64 \<Rightarrow> durable_effect_record engine_op" where
  "get_at_revision X effect_id revision =
     ebind (try_get_at X effect_id (Revision revision)) (\<lambda>found. elift (ok_or found ENotFound))"

definition connector_descriptor_of :: "string \<Rightarrow> effect_engine \<Rightarrow> connector_descriptor option" where
  "connector_descriptor_of name s = bt_get (eg_connectors s) name"

definition register_connector :: "connector_descriptor option \<Rightarrow> unit engine_op" where
  "register_connector current s =
     (case current of
        None \<Rightarrow> (s, Inl EUnavailable)
      | Some descriptor \<Rightarrow>
          (case descriptor_validate descriptor of
             Inl e \<Rightarrow> (s, Inl e)
           | Inr _ \<Rightarrow>
               if bt_get (eg_connectors s) (cd_connector descriptor) \<noteq> None then (s, Inl EInvalidInput)
               else (s\<lparr>eg_connectors := bt_insert (cd_connector descriptor) descriptor (eg_connectors s)\<rparr>, Inr ())))"

text \<open>The connector must still answer with the descriptor it was registered with.\<close>

definition verify_connector_descriptor ::
    "connector_descriptor option \<Rightarrow> connector_descriptor option \<Rightarrow> (effect_error, connector_descriptor) result" where
  "verify_connector_descriptor registered current =
     rbind (ok_or registered EInvalidInput) (\<lambda>registered.
     rbind (ok_or current EUnavailable) (\<lambda>now.
     rbind (descriptor_validate now) (\<lambda>_.
       if now = registered then Inr registered else Inl EUnavailable)))"

subsection \<open>Committing a record\<close>

definition stage_next ::
    "effect_record_envelope \<Rightarrow> effect_journal_event \<Rightarrow> outbox_message option \<Rightarrow> (effect_error, staged_mutation list) result" where
  "stage_next envelope event outbox =
     rbind (map_err map_store_error (put_effect_record envelope [])) (\<lambda>staged.
     rbind (map_err map_store_error (append_effect_event event staged)) (\<lambda>staged.
       case outbox of None \<Rightarrow> Inr staged | Some message \<Rightarrow> map_err map_store_error (enqueue_outbox message staged)))"

definition store_commit ::
    "effect_ctx \<Rightarrow> u64 \<Rightarrow> staged_mutation list \<Rightarrow> idempotency_identity option \<Rightarrow> effect_engine
      \<Rightarrow> effect_engine \<times> (store_error, commit_receipt) result" where
  "store_commit X revision staged idempotency s =
     (case commit (cx_tenant X) revision staged idempotency (eg_store s) of (st, x) \<Rightarrow> (s\<lparr>eg_store := st\<rparr>, x))"

fun persist_loop ::
    "nat \<Rightarrow> (nat \<Rightarrow> effect_engine \<Rightarrow> effect_engine) \<Rightarrow> effect_ctx \<Rightarrow> durable_effect_record \<Rightarrow> durable_effect_record
      \<Rightarrow> effect_journal_event \<Rightarrow> outbox_message option \<Rightarrow> idempotency_identity option \<Rightarrow> bool \<Rightarrow> durable_effect_record engine_op" where
  "persist_loop 0 env X prior next event outbox idempotency replay_is_conflict s = (s, Inl ERevisionConflict)"
| "persist_loop (Suc n) env X prior next event outbox idempotency replay_is_conflict s =
     ebind (interfere (env (2 * n + 1))) (\<lambda>_.
     ebind (read_store Latest) (\<lambda>snapshot.
     ebind (elift (ok_or (get_effect_record snapshot (cx_tenant X) (in_effect_id (de_intent prior))) ENotFound)) (\<lambda>current.
     ebind (with_checkpoints (decode_record X current True)) (\<lambda>current_record.
       if current_record \<noteq> prior then elift (Inl ERevisionConflict)
       else
         ebind (elift (encode_record X next)) (\<lambda>envelope.
         ebind (elift (stage_next envelope event outbox)) (\<lambda>staged.
         ebind (interfere (env (2 * n))) (\<lambda>_. \<lambda>s'.
           case store_commit X (st_revision snapshot) staged idempotency s' of
             (s'', Inr receipt) \<Rightarrow>
               if replay_is_conflict \<and> cr_replayed receipt then (s'', Inl EUnauthorized)
               else ebind (with_checkpoints (decode_record X envelope True)) (\<lambda>_. elift (Inr next)) s''
           | (s'', Inl SRevisionConflict) \<Rightarrow>
               persist_loop n env X prior next event outbox idempotency replay_is_conflict s''
           | (s'', Inl e) \<Rightarrow>
               (s'', Inl (if idempotency \<noteq> None \<and> e = SInvalidRecord then EIdempotencyCollision else map_store_error e)))))))))
       s"

definition persist_next_with_identity ::
    "(nat \<Rightarrow> effect_engine \<Rightarrow> effect_engine) \<Rightarrow> effect_ctx \<Rightarrow> durable_effect_record \<Rightarrow> durable_effect_record
      \<Rightarrow> outbox_message option \<Rightarrow> idempotency_identity option \<Rightarrow> bool \<Rightarrow> durable_effect_record engine_op" where
  "persist_next_with_identity env X prior next outbox idempotency replay_is_conflict =
     ebind (elift (verify_record (cx_env X) next)) (\<lambda>_.
       if de_journal next = [] then elift (Inl ECorruptJournal)
       else persist_loop MAX_PERSIST_RETRIES env X prior next (last (de_journal next)) outbox idempotency replay_is_conflict)"


subsection \<open>The public operations\<close>

text \<open>\<open>env\<close> is what other threads do; an operation with two commits takes one for each.\<close>

type_synonym interference = "nat \<Rightarrow> effect_engine \<Rightarrow> effect_engine"

definition persist_next ::
    "interference \<Rightarrow> effect_ctx \<Rightarrow> durable_effect_record \<Rightarrow> durable_effect_record \<Rightarrow> outbox_message option
      \<Rightarrow> durable_effect_record engine_op" where
  "persist_next env X prior next outbox = persist_next_with_identity env X prior next outbox None False"

definition persist_next_exclusive ::
    "interference \<Rightarrow> effect_ctx \<Rightarrow> durable_effect_record \<Rightarrow> durable_effect_record \<Rightarrow> idempotency_identity
      \<Rightarrow> durable_effect_record engine_op" where
  "persist_next_exclusive env X prior next identity =
     persist_next_with_identity env X prior next None (Some identity) True"

text \<open>The shape all single-commit operations share: read, compute the successor, commit it.\<close>

definition advance ::
    "interference \<Rightarrow> effect_ctx \<Rightarrow> record_id
      \<Rightarrow> (effect_engine \<Rightarrow> durable_effect_record \<Rightarrow> (effect_error, durable_effect_record) result) \<Rightarrow> durable_effect_record engine_op" where
  "advance env X effect_id plan =
     ebind (get_record X effect_id) (\<lambda>r.
     ebind (\<lambda>s. (s, plan s r)) (\<lambda>next.
       persist_next env X r next None))"

fun prepare_loop ::
    "nat \<Rightarrow> interference \<Rightarrow> effect_ctx \<Rightarrow> durable_effect_record \<Rightarrow> idempotency_identity \<Rightarrow> durable_effect_record engine_op" where
  "prepare_loop 0 env X r identity s = (s, Inl ERevisionConflict)"
| "prepare_loop (Suc n) env X r identity s =
     ebind (interfere (env (2 * n + 1))) (\<lambda>_.
     ebind (read_store Latest) (\<lambda>snapshot.
     ebind (elift (encode_record X r)) (\<lambda>envelope.
     ebind (elift (map_err map_store_error (put_effect_record envelope []))) (\<lambda>staged.
     ebind (interfere (env (2 * n))) (\<lambda>_. \<lambda>s'.
       case store_commit X (st_revision snapshot) staged (Some identity) s' of
         (s'', Inr receipt) \<Rightarrow>
           if \<not> cr_replayed receipt
           then ebind (with_checkpoints (decode_record X envelope True)) (\<lambda>_. elift (Inr r)) s''
           else ebind (try_get X (in_effect_id (de_intent r))) (\<lambda>found. elift (ok_or found EIdempotencyCollision)) s''
       | (s'', Inl SRevisionConflict) \<Rightarrow> prepare_loop n env X r identity s''
       | (s'', Inl SInvalidRecord) \<Rightarrow> (s'', Inl EIdempotencyCollision)
       | (s'', Inl e) \<Rightarrow> (s'', Inl (map_store_error e)))))))
       s"

definition prepare :: "interference \<Rightarrow> effect_ctx \<Rightarrow> effect_intent \<Rightarrow> effect_authorization \<Rightarrow> durable_effect_record engine_op" where
  "prepare env X intent auth =
     ebind (\<lambda>s. (s, prepare_guards (cx_env X) (connector_descriptor_of (in_connector intent) s) intent auth)) (\<lambda>intent_digest.
     ebind (try_get X (in_effect_id intent)) (\<lambda>found.
       case found of
         Some existing \<Rightarrow>
           elift (if de_intent_digest existing = intent_digest \<and> de_intent existing = intent then Inr existing
                  else Inl EIdempotencyCollision)
       | None \<Rightarrow>
           ebind (elift (verify_record (cx_env X) (prepared_record intent intent_digest))) (\<lambda>_.
           ebind (elift (map_err map_store_error (identity_new
                   (''effect:'' @ in_connector intent @ '':'' @ in_idempotency_scope intent)
                   (in_idempotency_key intent) intent_digest))) (\<lambda>identity.
             prepare_loop MAX_PERSIST_RETRIES env X (prepared_record intent intent_digest) identity))))"

definition request_approval ::
    "interference \<Rightarrow> effect_ctx \<Rightarrow> record_id \<Rightarrow> u64 \<Rightarrow> record_id \<Rightarrow> effect_authorization \<Rightarrow> durable_effect_record engine_op" where
  "request_approval env X effect_id expected_version event_id auth =
     advance env X effect_id (\<lambda>_ r. request_approval_next (cx_env X) r expected_version event_id auth)"

definition authorize_effect ::
    "interference \<Rightarrow> effect_ctx \<Rightarrow> record_id \<Rightarrow> u64 \<Rightarrow> record_id \<Rightarrow> effect_approval option \<Rightarrow> effect_authorization
      \<Rightarrow> durable_effect_record engine_op" where
  "authorize_effect env X effect_id expected_version event_id approval auth =
     advance env X effect_id (\<lambda>_ r. authorize_next (cx_env X) r expected_version event_id approval auth)"

definition reject ::
    "interference \<Rightarrow> effect_ctx \<Rightarrow> record_id \<Rightarrow> u64 \<Rightarrow> record_id \<Rightarrow> effect_authorization \<Rightarrow> content_digest
      \<Rightarrow> durable_effect_record engine_op" where
  "reject env X effect_id expected_version event_id auth evidence =
     advance env X effect_id (\<lambda>_ r. reject_next (cx_env X) r expected_version event_id auth evidence)"

definition expire ::
    "interference \<Rightarrow> effect_ctx \<Rightarrow> record_id \<Rightarrow> u64 \<Rightarrow> record_id \<Rightarrow> record_id \<Rightarrow> timestamp \<Rightarrow> durable_effect_record engine_op" where
  "expire env X effect_id expected_version event_id actor_id now =
     advance env X effect_id (\<lambda>_ r. expire_next (cx_env X) r expected_version event_id actor_id now)"

definition cancel_effect ::
    "interference \<Rightarrow> effect_ctx \<Rightarrow> record_id \<Rightarrow> u64 \<Rightarrow> record_id \<Rightarrow> effect_authorization \<Rightarrow> durable_effect_record engine_op" where
  "cancel_effect env X effect_id expected_version event_id auth =
     advance env X effect_id (\<lambda>_ r. cancel_next (cx_env X) r expected_version event_id auth)"

definition recover_inflight ::
    "interference \<Rightarrow> effect_ctx \<Rightarrow> record_id \<Rightarrow> u64 \<Rightarrow> record_id \<Rightarrow> record_id \<Rightarrow> timestamp \<Rightarrow> content_digest
      \<Rightarrow> durable_effect_record engine_op" where
  "recover_inflight env X effect_id expected_version event_id actor_id now evidence =
     advance env X effect_id (\<lambda>_ r. recover_inflight_next (cx_env X) r expected_version event_id actor_id now evidence)"

definition manual_resolution ::
    "interference \<Rightarrow> effect_ctx \<Rightarrow> record_id \<Rightarrow> u64 \<Rightarrow> record_id \<Rightarrow> effect_authorization \<Rightarrow> content_digest
      \<Rightarrow> durable_effect_record engine_op" where
  "manual_resolution env X effect_id expected_version event_id auth resolution_digest =
     advance env X effect_id (\<lambda>_ r. manual_resolution_next (cx_env X) r expected_version event_id auth resolution_digest)"

text \<open>The registered descriptor of the connector an effect names.\<close>

definition descriptor_for :: "effect_engine \<Rightarrow> durable_effect_record \<Rightarrow> connector_descriptor option" where
  "descriptor_for s r = connector_descriptor_of (in_connector (de_intent r)) s"

definition authorize_idempotent_retry ::
    "interference \<Rightarrow> effect_ctx \<Rightarrow> record_id \<Rightarrow> u64 \<Rightarrow> record_id \<Rightarrow> effect_authorization \<Rightarrow> durable_effect_record engine_op" where
  "authorize_idempotent_retry env X effect_id expected_version event_id auth =
     advance env X effect_id (\<lambda>s r.
       authorize_idempotent_retry_next (cx_env X) (descriptor_for s r) r expected_version event_id auth)"

text \<open>\<open>current\<close> is the connector's present descriptor and \<open>looked_up\<close> its answer; \<open>None\<close> is a panic or an error.\<close>

definition reconcile ::
    "interference \<Rightarrow> effect_ctx \<Rightarrow> (timestamp \<Rightarrow> bool) \<Rightarrow> connector_descriptor option
      \<Rightarrow> (durable_effect_record \<Rightarrow> reconcile_observation option) \<Rightarrow> record_id \<Rightarrow> u64 \<Rightarrow> record_id \<Rightarrow> record_id \<Rightarrow> effect_authorization
      \<Rightarrow> durable_effect_record engine_op" where
  "reconcile env X representable current looked_up effect_id expected_version report_id event_id auth =
     advance env X effect_id (\<lambda>s r.
       reconcile_next (cx_env X) representable (verify_connector_descriptor (descriptor_for s r) current) r
         expected_version report_id event_id auth (looked_up r))"

definition claim_dispatch ::
    "interference \<Rightarrow> effect_ctx \<Rightarrow> record_id \<Rightarrow> u64 \<Rightarrow> record_id \<Rightarrow> record_id \<Rightarrow> record_id \<Rightarrow> timestamp \<Rightarrow> effect_authorization
      \<Rightarrow> dispatch_permit engine_op" where
  "claim_dispatch env X effect_id expected_version attempt_id outbox_message_id event_id deadline auth =
     ebind (get_record X effect_id) (\<lambda>r.
     ebind (\<lambda>s. (s, claim_dispatch_next (cx_env X) (descriptor_for s r) r expected_version attempt_id outbox_message_id
             event_id deadline auth)) (\<lambda>next.
     let wake = \<lparr>om_message_id = outbox_message_id, om_topic = ''effect.dispatch.v1'', om_payload_digest = de_intent_digest r\<rparr>;
         fencing_token = at_fencing_token (last (de_attempts next))
     in ebind (persist_next env X r next (Some wake)) (\<lambda>persisted.
        ebind (elift (permit_seal (cx_env X) effect_id attempt_id fencing_token (de_effect_version persisted)
                (de_intent_digest r))) (\<lambda>seal.
          elift (Inr \<lparr>dp_effect_id = effect_id, dp_attempt_id = attempt_id, dp_fencing_token = fencing_token,
            dp_effect_version = de_effect_version persisted, dp_request_digest = de_intent_digest r, dp_seal = seal\<rparr>)))))"

definition resume_dispatch :: "effect_ctx \<Rightarrow> record_id \<Rightarrow> u64 \<Rightarrow> dispatch_permit engine_op" where
  "resume_dispatch X effect_id expected_version =
     ebind (get_record X effect_id) (\<lambda>r. elift (resume_dispatch_permit (cx_env X) r effect_id expected_version))"

definition finalize_observation ::
    "interference \<Rightarrow> effect_ctx \<Rightarrow> durable_effect_record \<Rightarrow> effect_attempt \<Rightarrow> record_id \<Rightarrow> record_id \<Rightarrow> effect_authorization
      \<Rightarrow> dispatch_observation \<Rightarrow> durable_effect_record engine_op" where
  "finalize_observation env X r attempt receipt_id event_id auth observation =
     ebind (elift (finalize_observation_next (cx_env X) r attempt receipt_id event_id (ea_actor_id auth) (ea_now auth) observation)) (\<lambda>next.
       persist_next env X r next None)"

definition finalize_without_send ::
    "interference \<Rightarrow> effect_ctx \<Rightarrow> durable_effect_record \<Rightarrow> effect_attempt \<Rightarrow> record_id \<Rightarrow> record_id \<Rightarrow> effect_authorization
      \<Rightarrow> string \<Rightarrow> durable_effect_record engine_op" where
  "finalize_without_send env X r attempt receipt_id event_id auth marker =
     ebind (elift (stable_marker (cx_env X) marker)) (\<lambda>evidence.
       finalize_observation env X r attempt receipt_id event_id auth (ObsFailed evidence))"

definition acquire_dispatch_ownership ::
    "interference \<Rightarrow> effect_ctx \<Rightarrow> durable_effect_record \<Rightarrow> dispatch_permit \<Rightarrow> record_id \<Rightarrow> effect_authorization
      \<Rightarrow> durable_effect_record engine_op" where
  "acquire_dispatch_ownership env X r permit ownership_event_id auth =
     ebind (elift (acquire_dispatch_ownership_next (cx_env X) r permit ownership_event_id auth)) (\<lambda>(next, identity).
       persist_next_exclusive env X r next identity)"

text \<open>
  \<open>dispatch\<close> up to the connector call. The result \<open>Inr (r, attempt)\<close> is the point where \<open>connector.dispatch\<close> is
  called with the context of \<open>r\<close> and \<open>attempt\<close>; \<open>Inl r\<close> is a dispatch that ended without a call. \<open>preconditions\<close> is
  the connector's check, \<open>None\<close> when it panics or fails.
\<close>

definition finished :: "durable_effect_record engine_op \<Rightarrow> (durable_effect_record + durable_effect_record \<times> effect_attempt) engine_op" where
  "finished m = ebind m (\<lambda>r. elift (Inr (Inl r)))"

definition dispatch_checked ::
    "interference \<Rightarrow> effect_ctx \<Rightarrow> (effect_intent \<Rightarrow> timestamp \<Rightarrow> bool option) \<Rightarrow> durable_effect_record \<Rightarrow> effect_attempt \<Rightarrow> dispatch_permit
      \<Rightarrow> record_id \<Rightarrow> record_id \<Rightarrow> effect_authorization
      \<Rightarrow> (durable_effect_record + durable_effect_record \<times> effect_attempt) engine_op" where
  "dispatch_checked env X preconditions r attempt permit receipt_id event_id auth =
     (if \<not> may_send auth r attempt
      then finished (finalize_without_send env X r attempt receipt_id event_id auth ''pre-send-authorization-denied'')
      else ebind (elift (stable_marker (cx_env X) ''connector-panic-or-error'')) (\<lambda>connector_failure.
        case preconditions (de_intent r) (ea_now auth) of
          None \<Rightarrow> finished (finalize_observation env X r attempt receipt_id event_id auth (ObsUnknown connector_failure None))
        | Some satisfied \<Rightarrow>
            if \<not> satisfied
            then finished (finalize_without_send env X r attempt receipt_id event_id auth ''precondition-failed'')
            else ebind (acquire_dispatch_ownership env X r permit receipt_id auth) (\<lambda>r'. elift (Inr (Inr (r', attempt))))))"

definition dispatch_enter ::
    "interference \<Rightarrow> effect_ctx \<Rightarrow> connector_descriptor option \<Rightarrow> (effect_intent \<Rightarrow> timestamp \<Rightarrow> bool option) \<Rightarrow> dispatch_permit
      \<Rightarrow> record_id \<Rightarrow> record_id \<Rightarrow> effect_authorization
      \<Rightarrow> (durable_effect_record + durable_effect_record \<times> effect_attempt) engine_op" where
  "dispatch_enter env X current preconditions permit receipt_id event_id auth =
     ebind (get_record X (dp_effect_id permit)) (\<lambda>r.
     ebind (elift (verify_permit (cx_env X) r permit)) (\<lambda>_.
       if de_attempts r = [] then elift (Inl ECorruptJournal)
       else ebind (\<lambda>s. (s, verify_connector_descriptor (descriptor_for s r) current)) (\<lambda>_.
         dispatch_checked env X preconditions r (last (de_attempts r)) permit receipt_id event_id auth)))"

definition dispatch_effect ::
    "interference \<Rightarrow> interference \<Rightarrow> effect_ctx \<Rightarrow> connector_descriptor option \<Rightarrow> (effect_intent \<Rightarrow> timestamp \<Rightarrow> bool option)
      \<Rightarrow> (durable_effect_record \<Rightarrow> effect_attempt \<Rightarrow> dispatch_observation option) \<Rightarrow> dispatch_permit \<Rightarrow> record_id \<Rightarrow> record_id
      \<Rightarrow> effect_authorization \<Rightarrow> durable_effect_record engine_op" where
  "dispatch_effect env env' X current preconditions connector permit receipt_id event_id auth =
     ebind (dispatch_enter env X current preconditions permit receipt_id event_id auth) (\<lambda>entered.
       case entered of
         Inl r \<Rightarrow> elift (Inr r)
       | Inr (r, attempt) \<Rightarrow>
           ebind (elift (stable_marker (cx_env X) ''connector-panic-or-error'')) (\<lambda>connector_failure.
             finalize_observation env' X r attempt receipt_id event_id auth
               (case connector r attempt of Some observation \<Rightarrow> observation | None \<Rightarrow> ObsUnknown connector_failure None)))"

definition request_compensation_with_child_state ::
    "interference \<Rightarrow> effect_ctx \<Rightarrow> record_id \<Rightarrow> u64 \<Rightarrow> record_id \<Rightarrow> effect_authorization \<Rightarrow> compensation_link \<Rightarrow> effect_state
      \<Rightarrow> durable_effect_record engine_op" where
  "request_compensation_with_child_state env X effect_id expected_version event_id auth link required_child_state =
     ebind (get_record X effect_id) (\<lambda>r.
     ebind (elift (require_version r expected_version)) (\<lambda>_.
     ebind (elift (map_err (\<lambda>_. EInvalidInput) (link_validate link))) (\<lambda>_.
     ebind (elift (ok_or (in_compensation (de_intent r)) EInvalidTransition)) (\<lambda>_.
     ebind (try_get X (cl_compensation_effect_id link)) (\<lambda>child.
     ebind (\<lambda>s. (s, request_compensation_next (cx_env X) (descriptor_for s r) required_child_state child r expected_version
             event_id auth link)) (\<lambda>(next, reservation).
       persist_next_with_identity env X r next None (Some reservation) False))))))"

definition request_compensation ::
    "interference \<Rightarrow> effect_ctx \<Rightarrow> record_id \<Rightarrow> u64 \<Rightarrow> record_id \<Rightarrow> effect_authorization \<Rightarrow> compensation_link \<Rightarrow> durable_effect_record engine_op" where
  "request_compensation env X effect_id expected_version event_id auth link =
     request_compensation_with_child_state env X effect_id expected_version event_id auth link Prepared"

definition request_authorized_compensation ::
    "interference \<Rightarrow> effect_ctx \<Rightarrow> record_id \<Rightarrow> u64 \<Rightarrow> record_id \<Rightarrow> effect_authorization \<Rightarrow> compensation_link \<Rightarrow> durable_effect_record engine_op" where
  "request_authorized_compensation env X effect_id expected_version event_id auth link =
     request_compensation_with_child_state env X effect_id expected_version event_id auth link Authorized"

text \<open>Both operations on a linked pair read the original, then the child its link names.\<close>

definition with_linked_child ::
    "interference \<Rightarrow> effect_ctx \<Rightarrow> record_id \<Rightarrow> u64
      \<Rightarrow> (durable_effect_record \<Rightarrow> durable_effect_record \<Rightarrow> (effect_error, durable_effect_record) result) \<Rightarrow> durable_effect_record engine_op" where
  "with_linked_child env X effect_id expected_version plan =
     ebind (get_record X effect_id) (\<lambda>r.
     ebind (elift (require_version r expected_version)) (\<lambda>_.
     ebind (elift (ok_or (de_compensation_link r) EInvalidTransition)) (\<lambda>link.
     ebind (get_record X (cl_compensation_effect_id link)) (\<lambda>child.
     ebind (elift (plan child r)) (\<lambda>next.
       persist_next env X r next None)))))"

definition begin_compensation ::
    "interference \<Rightarrow> effect_ctx \<Rightarrow> record_id \<Rightarrow> u64 \<Rightarrow> record_id \<Rightarrow> effect_authorization \<Rightarrow> durable_effect_record engine_op" where
  "begin_compensation env X effect_id expected_version event_id auth =
     with_linked_child env X effect_id expected_version
       (\<lambda>child r. begin_compensation_next (cx_env X) child r expected_version event_id auth)"

definition resolve_compensation ::
    "interference \<Rightarrow> effect_ctx \<Rightarrow> record_id \<Rightarrow> u64 \<Rightarrow> record_id \<Rightarrow> effect_authorization \<Rightarrow> durable_effect_record engine_op" where
  "resolve_compensation env X effect_id expected_version event_id auth =
     with_linked_child env X effect_id expected_version
       (\<lambda>child r. resolve_compensation_next (cx_env X) child r expected_version event_id auth)"

subsection \<open>Read-only verification of a stored envelope\<close>

definition persisted_effect_checkpoint_observation ::
    "effect_ctx \<Rightarrow> effect_record_envelope \<Rightarrow> (effect_error, record_id \<times> content_digest \<times> u64 \<times> content_digest) result" where
  "persisted_effect_checkpoint_observation X envelope =
     rbind (decode_authenticated_effect_record X envelope) (\<lambda>authenticated.
     rbind (verify_record (cx_env X) (ar_record authenticated)) (\<lambda>_.
       Inr (in_effect_id (de_intent (ar_record authenticated)), de_intent_digest (ar_record authenticated),
            de_effect_version (ar_record authenticated), es_authenticator (ar_seal authenticated))))"

text \<open>The process authenticator keeps the trait's default \<open>verify_latest_read_only\<close>: the seal check alone.\<close>

definition verify_persisted_effect_record :: "effect_ctx \<Rightarrow> effect_record_envelope \<Rightarrow> (effect_error, unit) result" where
  "verify_persisted_effect_record X envelope =
     rbind (decode_authenticated_effect_record X envelope) (\<lambda>authenticated.
     rbind (ok_or (cx_record_json X (ar_record authenticated)) ECorruptJournal) (\<lambda>canonical_record.
     rbind (authenticator_verify X canonical_record (ar_seal authenticated)) (\<lambda>_.
       verify_record (cx_env X) (ar_record authenticated))))"

end
