(* ===== verification/Effect_Machine.thy ===== *)
theory Effect_Machine
  imports Effect_Plans "HOL-Library.Sublist"
begin

text \<open>
  The effect kernel as a state machine: an action is a call of an \<open>EffectEngine\<close> operation with its
  arguments, \<open>act\<close> its effect on the current record, and a run is a sequence of committed actions from a
  prepared intent. The log of a run records each entry into \<open>connector.dispatch\<close> with the authority it
  was made under. The theorems are about every run: who may send, how often, and after which proof.
\<close>

datatype effect_action =
  ARequestApproval u64 record_id effect_authorization
| AAuthorize u64 record_id "effect_approval option" effect_authorization
| AReject u64 record_id effect_authorization content_digest
| AExpire u64 record_id record_id timestamp
| ACancel u64 record_id effect_authorization
| AClaim "connector_descriptor option" u64 record_id record_id record_id timestamp effect_authorization
| AEnter dispatch_permit record_id effect_authorization
| AFinalize record_id record_id effect_authorization dispatch_observation
| ARecover u64 record_id record_id timestamp content_digest
| AIdempotentRetry "connector_descriptor option" u64 record_id effect_authorization
| AReconcile "timestamp \<Rightarrow> bool" "(effect_error, connector_descriptor) result" u64 record_id record_id effect_authorization
    "reconcile_observation option"
| AManual u64 record_id effect_authorization content_digest
| ARequestCompensation "connector_descriptor option" effect_state "durable_effect_record option" u64 record_id
    effect_authorization compensation_link
| ABeginCompensation durable_effect_record u64 record_id effect_authorization
| AResolveCompensation durable_effect_record u64 record_id effect_authorization

text \<open>
  \<open>AEnter\<close> is the part of \<open>dispatch\<close> that commits connector entry: it is reached only when the authority
  check passed on the same record. \<open>AFinalize\<close> records a receipt for the attempt in flight.
\<close>

fun act :: "effect_env \<Rightarrow> effect_action \<Rightarrow> durable_effect_record \<Rightarrow> (effect_error, durable_effect_record) result" where
  "act E (ARequestApproval v ev auth) r = request_approval_next E r v ev auth"
| "act E (AAuthorize v ev approval auth) r = authorize_next E r v ev approval auth"
| "act E (AReject v ev auth evidence) r = reject_next E r v ev auth evidence"
| "act E (AExpire v ev actor now) r = expire_next E r v ev actor now"
| "act E (ACancel v ev auth) r = cancel_next E r v ev auth"
| "act E (AClaim descriptor v attempt_id message_id ev deadline auth) r =
     claim_dispatch_next E descriptor r v attempt_id message_id ev deadline auth"
| "act E (AEnter permit ev auth) r =
     (if de_attempts r = [] \<or> \<not> may_send auth r (last (de_attempts r)) then Inl EUnauthorized
      else rbind (acquire_dispatch_ownership_next E r permit ev auth) (\<lambda>(next, identity). Inr next))"
| "act E (AFinalize receipt_id ev auth observation) r =
     (if de_attempts r = [] then Inl ECorruptJournal
      else finalize_observation_next E r (last (de_attempts r)) receipt_id ev (ea_actor_id auth) (ea_now auth) observation)"
| "act E (ARecover v ev actor now evidence) r = recover_inflight_next E r v ev actor now evidence"
| "act E (AIdempotentRetry descriptor v ev auth) r = authorize_idempotent_retry_next E descriptor r v ev auth"
| "act E (AReconcile representable descriptor v report_id ev auth looked_up) r =
     reconcile_next E representable descriptor r v report_id ev auth looked_up"
| "act E (AManual v ev auth resolution) r = manual_resolution_next E r v ev auth resolution"
| "act E (ARequestCompensation descriptor required child v ev auth link) r =
     rbind (request_compensation_next E descriptor required child r v ev auth link) (\<lambda>(next, identity). Inr next)"
| "act E (ABeginCompensation child v ev auth) r = begin_compensation_next E child r v ev auth"
| "act E (AResolveCompensation child v ev auth) r = resolve_compensation_next E child r v ev auth"

type_synonym connector_call = "effect_attempt \<times> effect_authorization"

fun calls_of :: "effect_action \<Rightarrow> durable_effect_record \<Rightarrow> connector_call list" where
  "calls_of (AEnter permit ev auth) r = [(last (de_attempts r), auth)]"
| "calls_of _ r = []"

inductive effect_run :: "effect_env \<Rightarrow> effect_intent \<Rightarrow> durable_effect_record \<Rightarrow> connector_call list \<Rightarrow> bool"
  for E intent where
  prepared: "effect_intent_digest E intent = Inr d \<Longrightarrow> verify_record E (prepared_record intent d) = Inr () \<Longrightarrow>
    effect_run E intent (prepared_record intent d) []"
| advanced: "effect_run E intent r calls \<Longrightarrow> act E a r = Inr r' \<Longrightarrow> verify_record E r' = Inr () \<Longrightarrow>
    effect_run E intent r' (calls @ calls_of a r)"

subsection \<open>What an action changes\<close>

lemma transition_InrD:
  assumes "transition E r target actor ev payload now = Inr r'"
  shows "can_transition_to (de_state r) target" "de_state r' = target"
    "de_intent r' = de_intent r" "de_intent_digest r' = de_intent_digest r" "de_attempts r' = de_attempts r"
    "de_approval r' = de_approval r" "de_reconciliations r' = de_reconciliations r"
    "\<exists>event. de_journal r' = de_journal r @ [event] \<and> je_from_state event = de_state r \<and> je_to_state event = target"
    "checked_add (de_effect_version r) 1 = Some (de_effect_version r')" "de_approval_digest r' = de_approval_digest r"
  using assms by (auto simp: transition_def Let_def result_simps split: if_splits)

lemma complete_outbox_simps [simp]:
  "de_intent (complete_outbox r) = de_intent r" "de_intent_digest (complete_outbox r) = de_intent_digest r"
  "de_state (complete_outbox r) = de_state r" "de_attempts (complete_outbox r) = de_attempts r"
  "de_approval (complete_outbox r) = de_approval r" "de_reconciliations (complete_outbox r) = de_reconciliations r"
  "de_journal (complete_outbox r) = de_journal r" "de_effect_version (complete_outbox r) = de_effect_version r"
  by (simp_all add: complete_outbox_def)

text \<open>A plan is its guards followed by one transition of a record \<open>b\<close> that differs from \<open>r\<close> in the listed fields.\<close>

definition step_from :: "effect_env \<Rightarrow> durable_effect_record \<Rightarrow> effect_state \<Rightarrow> durable_effect_record \<Rightarrow> bool" where
  "step_from E b target r' \<longleftrightarrow> (\<exists>actor ev payload now. transition E b target actor ev payload now = Inr r')"

lemma rbind_InrE:
  assumes "rbind x f = Inr y" obtains a where "x = Inr a" "f a = Inr y"
  using assms by (cases x) simp_all

lemma guard_InrE:
  assumes "(if c then Inl e else x) = Inr y" obtains "\<not> c" "x = Inr y"
  using assms by (cases c) simp_all

lemma step_fromI: "transition E b target actor ev payload now = Inr r' \<Longrightarrow> step_from E b target r'"
  by (auto simp: step_from_def)

lemma step_fromD:
  assumes "step_from E b target r'"
  shows "can_transition_to (de_state b) target" "de_state r' = target"
    "de_intent r' = de_intent b" "de_intent_digest r' = de_intent_digest b" "de_attempts r' = de_attempts b"
    "de_approval r' = de_approval b" "de_reconciliations r' = de_reconciliations b"
    "\<exists>event. de_journal r' = de_journal b @ [event] \<and> je_from_state event = de_state b \<and> je_to_state event = target"
    "checked_add (de_effect_version b) 1 = Some (de_effect_version r')"
  using assms by (auto simp: step_from_def dest: transition_InrD)

definition settles :: "effect_action \<Rightarrow> effect_state \<Rightarrow> bool" where
  "settles a target \<longleftrightarrow> (case a of
     ARequestApproval _ _ _ \<Rightarrow> target = PendingApproval
   | AReject _ _ _ _ \<Rightarrow> target = Rejected
   | AExpire _ _ _ _ \<Rightarrow> target = Expired
   | ACancel _ _ _ \<Rightarrow> target = Cancelled
   | AEnter _ _ _ \<Rightarrow> target = Unknown
   | AFinalize _ _ _ _ \<Rightarrow> target \<in> {Succeeded, Failed, Unknown}
   | ARecover _ _ _ _ _ \<Rightarrow> target = Unknown
   | AManual _ _ _ _ \<Rightarrow> target = ManualResolution
   | ARequestCompensation _ _ _ _ _ _ _ \<Rightarrow> target = CompensationPending
   | ABeginCompensation _ _ _ _ \<Rightarrow> target = Compensating
   | AResolveCompensation _ _ _ _ \<Rightarrow> target \<in> {Compensated, CompensationFailed, Unknown}
   | _ \<Rightarrow> False)"

lemma observed_target: "observed observation = (outcome, target, rest) \<Longrightarrow> target \<in> {Succeeded, Failed, Unknown}"
  by (cases observation) auto

lemma compensation_target_cases:
  "compensation_target state = Some target \<Longrightarrow> target \<in> {Compensated, CompensationFailed, Unknown}"
  by (auto simp: compensation_target_def split: effect_state.splits)

lemmas plan_defs = request_approval_next_def authorize_next_def reject_next_def expire_next_def cancel_next_def
  claim_dispatch_next_def acquire_dispatch_ownership_next_def finalize_observation_next_def recover_inflight_next_def
  authorize_idempotent_retry_next_def reconcile_next_def manual_resolution_next_def request_compensation_next_def
  begin_compensation_next_def resolve_compensation_next_def

definition special :: "effect_action \<Rightarrow> bool" where
  "special a \<longleftrightarrow> (case a of AAuthorize _ _ _ _ \<Rightarrow> True | AClaim _ _ _ _ _ _ _ \<Rightarrow> True | AIdempotentRetry _ _ _ _ \<Rightarrow> True
     | AReconcile _ _ _ _ _ _ _ \<Rightarrow> True | _ \<Rightarrow> False)"

text \<open>Every action but four only moves the state (and the outbox, receipts or link).\<close>

lemma act_plain:
  assumes "act E a r = Inr r'" and "\<not> special a"
  obtains b where "step_from E b (de_state r') r'" and "settles a (de_state r')"
    and "de_intent b = de_intent r" and "de_intent_digest b = de_intent_digest r" and "de_state b = de_state r"
    and "de_attempts b = de_attempts r" and "de_approval b = de_approval r"
    and "de_reconciliations b = de_reconciliations r" and "de_journal b = de_journal r"
    and "de_effect_version b = de_effect_version r"
proof -
  have "\<exists>b. step_from E b (de_state r') r' \<and> settles a (de_state r') \<and> de_intent b = de_intent r \<and>
      de_intent_digest b = de_intent_digest r \<and> de_state b = de_state r \<and> de_attempts b = de_attempts r \<and>
      de_approval b = de_approval r \<and> de_reconciliations b = de_reconciliations r \<and> de_journal b = de_journal r \<and>
      de_effect_version b = de_effect_version r"
  proof (cases a)
    case (AFinalize receipt_id ev auth observation)
    then show ?thesis using assms(1)
      by (fastforce simp: plan_defs result_simps Let_def settles_def transition_InrD(2) split: prod.splits if_splits
            dest: observed_target intro!: step_fromI)
  next
    case (AResolveCompensation child v ev auth)
    then show ?thesis using assms(1)
      by (fastforce simp: plan_defs result_simps settles_def transition_InrD(2) split: if_splits
            dest: compensation_target_cases intro!: step_fromI)
  next
    case (AEnter permit ev auth)
    then show ?thesis using assms(1)
      by (auto simp: plan_defs result_simps settles_def Let_def transition_InrD(2) split: if_splits
            intro!: exI [of _ "complete_outbox r"] step_fromI)
  next
    case (ARecover v ev actor now evidence)
    then show ?thesis using assms(1)
      by (auto simp: plan_defs result_simps settles_def Let_def transition_InrD(2) split: if_splits
            intro!: exI [of _ "complete_outbox r"] step_fromI)
  next
    case (ARequestCompensation descriptor required child v ev auth link)
    then show ?thesis using assms(1)
      by (auto simp: plan_defs result_simps settles_def Let_def transition_InrD(2) split: if_splits
            intro!: exI [of _ "r\<lparr>de_compensation_link := Some link\<rparr>"] step_fromI)
  qed (use assms in \<open>auto simp: plan_defs result_simps settles_def special_def transition_InrD(2) split: if_splits
        intro!: exI [of _ r] step_fromI\<close>)
  then show thesis using that by blast
qed

lemma authorize_actD:
  assumes "authorize_next E r v ev approval auth = Inr r'"
  obtains d where "step_from E (r\<lparr>de_approval := approval, de_approval_digest := d\<rparr>) Authorized r'"
    "case approval of None \<Rightarrow> in_risk (de_intent r) = Low | Some x \<Rightarrow> verify_approval E r x (ea_now auth) = Inr ()"
  using assms unfolding authorize_next_def
  by (elim rbind_InrE guard_InrE) (rule that [OF step_fromI], assumption, auto split: option.splits if_splits)

lemma claim_actD:
  assumes "claim_dispatch_next E descriptor r v attempt_id message_id ev deadline auth = Inr r'"
  obtains attempt outbox where
    "step_from E (r\<lparr>de_attempts := de_attempts r @ [attempt], de_outbox := Some outbox\<rparr>) Dispatching r'"
    "length (de_attempts r) < MAX_EFFECT_ATTEMPTS" "\<exists>same_key. validate_retry_claim r same_key = Inr ()"
    "at_deadline attempt = deadline" "at_request_digest attempt = de_intent_digest r"
  using assms unfolding claim_dispatch_next_def Let_def
  by (elim rbind_InrE guard_InrE) (rule that [OF step_fromI], assumption, auto simp: not_le)

lemma retry_actD:
  assumes "authorize_idempotent_retry_next E descriptor r v ev auth = Inr r'"
  shows "step_from E r AuthorizedForRetry r'" "\<exists>n. in_retry_policy (de_intent r) = SameKeyIdempotent n"
  using assms
  by (auto simp: authorize_idempotent_retry_next_def result_simps split: if_splits retry_policy.splits dest: step_fromI)

lemma reconciled_target:
  "reconciled intent now failure fallback_end observation = (outcome, evidence, window_end, target) \<Longrightarrow>
     target \<in> {Succeeded, Failed, Unknown, AuthorizedForRetry} \<and>
     (target = AuthorizedForRetry \<longrightarrow> outcome = ProvenNotExecuted \<and> in_retry_policy intent \<noteq> RetryNever)"
  by (auto simp: reconciled_def split: reconcile_observation.splits if_splits)

lemma reconcile_actD:
  assumes "reconcile_next E representable descriptor r v report_id ev auth looked_up = Inr r'"
  obtains report where "step_from E (r\<lparr>de_reconciliations := de_reconciliations r @ [report]\<rparr>) (de_state r') r'"
    "de_attempts r \<noteq> []" "rr_attempt_id report = Some (at_attempt_id (last (de_attempts r)))"
    "de_state r' \<in> {Succeeded, Failed, Unknown, AuthorizedForRetry}" "de_state r = Unknown"
    "de_state r' = AuthorizedForRetry \<Longrightarrow>
       rr_outcome report = ProvenNotExecuted \<and> in_retry_policy (de_intent r) \<noteq> RetryNever"
  using assms unfolding reconcile_next_def Let_def
  by (elim rbind_InrE guard_InrE) (simp only: split: prod.split_asm, elim rbind_InrE guard_InrE,
    frule transition_InrD(2), rule that [OF step_fromI], auto dest: reconciled_target)

lemma special_cases:
  assumes "act E a r = Inr r'"
  obtains (plain) "\<not> special a"
  | (authorize) v ev approval auth where "a = AAuthorize v ev approval auth"
  | (claim) descriptor v attempt_id message_id ev deadline auth where
      "a = AClaim descriptor v attempt_id message_id ev deadline auth"
  | (retry) descriptor v ev auth where "a = AIdempotentRetry descriptor v ev auth"
  | (reconcile) representable descriptor v report_id ev auth looked_up where
      "a = AReconcile representable descriptor v report_id ev auth looked_up"
  by (cases a) (auto simp: special_def)

text \<open>Every action keeps the intent and its digest, and moves along an edge of the state machine.\<close>

lemma act_moves:
  assumes "act E a r = Inr r'"
  shows "can_transition_to (de_state r) (de_state r') \<and> de_intent r' = de_intent r \<and> de_intent_digest r' = de_intent_digest r
    \<and> (\<exists>event. de_journal r' = de_journal r @ [event] \<and> je_from_state event = de_state r \<and> je_to_state event = de_state r')
    \<and> checked_add (de_effect_version r) 1 = Some (de_effect_version r')"
  using assms
proof (cases rule: special_cases)
  case plain
  from act_plain [OF assms this] obtain b where
    "step_from E b (de_state r') r'" "de_intent b = de_intent r" "de_intent_digest b = de_intent_digest r"
    "de_state b = de_state r" "de_journal b = de_journal r" "de_effect_version b = de_effect_version r" by metis
  then show ?thesis by (metis step_fromD)
next
  case (authorize v ev approval auth)
  with assms obtain d where "step_from E (r\<lparr>de_approval := approval, de_approval_digest := d\<rparr>) Authorized r'"
    by (auto elim: authorize_actD)
  from step_fromD [OF this] show ?thesis by simp
next
  case (claim descriptor v attempt_id message_id ev deadline auth)
  with assms have "claim_dispatch_next E descriptor r v attempt_id message_id ev deadline auth = Inr r'" by simp
  then obtain attempt outbox where
    "step_from E (r\<lparr>de_attempts := de_attempts r @ [attempt], de_outbox := Some outbox\<rparr>) Dispatching r'" by (rule claim_actD)
  from step_fromD [OF this] show ?thesis by simp
next
  case (retry descriptor v ev auth)
  with assms have "step_from E r AuthorizedForRetry r'" by (auto dest: retry_actD)
  from step_fromD [OF this] show ?thesis by simp
next
  case (reconcile representable descriptor v report_id ev auth looked_up)
  with assms have "reconcile_next E representable descriptor r v report_id ev auth looked_up = Inr r'" by simp
  then obtain report where "step_from E (r\<lparr>de_reconciliations := de_reconciliations r @ [report]\<rparr>) (de_state r') r'"
    by (rule reconcile_actD)
  from step_fromD [OF this] show ?thesis by simp
qed

subsection \<open>Attempts, calls and approvals along a run\<close>

lemma settles_not: "settles a target \<Longrightarrow> target \<notin> {Authorized, Dispatching, AuthorizedForRetry}"
  by (auto simp: settles_def split: effect_action.splits)

text \<open>What one action does to the attempts, the approval and the reports.\<close>

lemma act_cases:
  assumes "act E a r = Inr r'"
  obtains (kept) "de_attempts r' = de_attempts r" "de_approval r' = de_approval r"
      "de_reconciliations r' = de_reconciliations r" "de_state r' \<notin> {Authorized, Dispatching, AuthorizedForRetry}"
  | (authorized) "de_attempts r' = de_attempts r" "de_reconciliations r' = de_reconciliations r" "de_state r' = Authorized"
      "case de_approval r' of None \<Rightarrow> in_risk (de_intent r) = Low | Some x \<Rightarrow> \<exists>now. verify_approval E r x now = Inr ()"
  | (claimed) attempt same_key where "de_attempts r' = de_attempts r @ [attempt]" "de_approval r' = de_approval r"
      "de_reconciliations r' = de_reconciliations r" "de_state r' = Dispatching" "calls_of a r = []"
      "validate_retry_claim r same_key = Inr ()"
  | (retried) n where "de_attempts r' = de_attempts r" "de_approval r' = de_approval r"
      "de_reconciliations r' = de_reconciliations r" "de_state r' = AuthorizedForRetry"
      "in_retry_policy (de_intent r) = SameKeyIdempotent n"
  | (reported) report where "de_attempts r' = de_attempts r" "de_approval r' = de_approval r"
      "de_reconciliations r' = de_reconciliations r @ [report]" "de_state r' \<notin> {Authorized, Dispatching}" "de_attempts r \<noteq> []"
      "rr_attempt_id report = Some (at_attempt_id (last (de_attempts r)))"
      "de_state r' = AuthorizedForRetry \<Longrightarrow> rr_outcome report = ProvenNotExecuted \<and> in_retry_policy (de_intent r) \<noteq> RetryNever"
  using assms
proof (cases rule: special_cases)
  case plain
  from act_plain [OF assms this] obtain b where b: "step_from E b (de_state r') r'" "settles a (de_state r')"
    "de_attempts b = de_attempts r" "de_approval b = de_approval r" "de_reconciliations b = de_reconciliations r" by metis
  from step_fromD [OF b(1)] settles_not [OF b(2)] b(3-5) show thesis by (intro kept) simp_all
next
  case (authorize v ev approval auth)
  with assms have "authorize_next E r v ev approval auth = Inr r'" by simp
  then obtain d where d: "step_from E (r\<lparr>de_approval := approval, de_approval_digest := d\<rparr>) Authorized r'"
    and ok: "case approval of None \<Rightarrow> in_risk (de_intent r) = Low | Some x \<Rightarrow> verify_approval E r x (ea_now auth) = Inr ()"
    by (rule authorize_actD)
  from step_fromD [OF d] ok show thesis by (intro authorized) (auto split: option.splits)
next
  case (claim descriptor v attempt_id message_id ev deadline auth)
  with assms have "claim_dispatch_next E descriptor r v attempt_id message_id ev deadline auth = Inr r'" by simp
  then obtain attempt outbox same_key where
    d: "step_from E (r\<lparr>de_attempts := de_attempts r @ [attempt], de_outbox := Some outbox\<rparr>) Dispatching r'"
    and ok: "validate_retry_claim r same_key = Inr ()" by (rule claim_actD) blast
  from step_fromD [OF d] ok claim show thesis by (intro claimed) simp_all
next
  case (retry descriptor v ev auth)
  with assms have d: "step_from E r AuthorizedForRetry r'" and "\<exists>n. in_retry_policy (de_intent r) = SameKeyIdempotent n"
    by (auto dest: retry_actD)
  then obtain n where "in_retry_policy (de_intent r) = SameKeyIdempotent n" by blast
  with step_fromD [OF d] show thesis by (intro retried) simp_all
next
  case (reconcile representable descriptor v report_id ev auth looked_up)
  with assms have "reconcile_next E representable descriptor r v report_id ev auth looked_up = Inr r'" by simp
  then obtain report where d: "step_from E (r\<lparr>de_reconciliations := de_reconciliations r @ [report]\<rparr>) (de_state r') r'"
    and ok: "de_attempts r \<noteq> []" "rr_attempt_id report = Some (at_attempt_id (last (de_attempts r)))"
      "de_state r' \<in> {Succeeded, Failed, Unknown, AuthorizedForRetry}"
      "de_state r' = AuthorizedForRetry \<Longrightarrow> rr_outcome report = ProvenNotExecuted \<and> in_retry_policy (de_intent r) \<noteq> RetryNever"
    by (rule reconcile_actD) (rule that)
  from step_fromD [OF d] ok show thesis by (intro reported [of report]) auto
qed

lemma calls_of_cases:
  assumes "act E a r = Inr r'"
  obtains (quiet) "calls_of a r = []"
  | (sent) auth where "calls_of a r = [(last (de_attempts r), auth)]" "de_attempts r \<noteq> []" "de_state r = Dispatching"
      "may_send auth r (last (de_attempts r))"
proof (cases "\<exists>permit ev auth. a = AEnter permit ev auth")
  case True
  then obtain permit ev auth where a: "a = AEnter permit ev auth" by blast
  with assms have "de_attempts r \<noteq> []" "may_send auth r (last (de_attempts r))"
    "\<exists>y. acquire_dispatch_ownership_next E r permit ev auth = Inr y"
    by (auto simp: rbind_eq_Inr_iff split: if_split_asm)
  moreover from this(3) have "de_state r = Dispatching"
    by (auto simp: acquire_dispatch_ownership_next_def verify_permit_def result_simps split: if_split_asm)
  ultimately show thesis using a by (intro sent) simp_all
next
  case False
  then show thesis by (intro quiet) (cases a; auto)
qed

definition undispatched :: "effect_state set" where
  "undispatched = {Prepared, PendingApproval, Authorized}"

lemma reaches_undispatched: "can_transition_to x y \<Longrightarrow> y \<in> undispatched \<Longrightarrow> x \<in> {Prepared, PendingApproval}"
  by (cases x) (auto simp: can_transition_to_def undispatched_def)

lemma reaches_dispatching: "can_transition_to x Dispatching \<Longrightarrow> x \<in> {Authorized, AuthorizedForRetry}"
  by (cases x) (auto simp: can_transition_to_def)

definition settled_attempts :: "durable_effect_record \<Rightarrow> effect_attempt list" where
  "settled_attempts r = (if de_state r = Dispatching then butlast (de_attempts r) else de_attempts r)"

lemma run_facts:
  assumes "effect_run E intent r calls"
  shows "de_intent r = intent \<and> verify_record E r = Inr () \<and> (de_state r \<in> undispatched \<longrightarrow> de_attempts r = [])"
  using assms
proof (induction rule: effect_run.induct)
  case (prepared d)
  then show ?case by (simp add: prepared_record_def)
next
  case (advanced r calls a r')
  from act_moves [OF advanced(2)] have m: "can_transition_to (de_state r) (de_state r')" "de_intent r' = de_intent r" by auto
  from advanced(2) have "de_state r' \<in> undispatched \<longrightarrow> de_attempts r' = []"
  proof (cases rule: act_cases)
    case (claimed attempt same_key)
    then show ?thesis by (simp add: undispatched_def)
  qed (use advanced m reaches_undispatched in \<open>auto simp: undispatched_def\<close>)
  with m advanced show ?case by simp
qed

lemma run_calls:
  assumes "effect_run E intent r calls"
  shows "subseq (map fst calls) (settled_attempts r)"
  using assms
proof (induction rule: effect_run.induct)
  case (prepared d)
  then show ?case by (simp add: prepared_record_def settled_attempts_def)
next
  case (advanced r calls a r')
  from advanced(2) show ?case
  proof (cases rule: calls_of_cases)
    case (sent auth)
    from act_moves [OF advanced(2)] sent(3) have "de_state r' \<noteq> Dispatching" by (auto simp: can_transition_to_def)
    moreover have "de_attempts r' = de_attempts r" using advanced(2)
      by (cases rule: act_cases) (use sent in auto)
    moreover have "subseq (map fst calls @ [last (de_attempts r)]) (butlast (de_attempts r) @ [last (de_attempts r)])"
      using advanced(4) sent(3) by (intro list_emb_append_mono) (simp_all add: settled_attempts_def)
    ultimately show ?thesis using sent by (simp add: settled_attempts_def)
  next
    case quiet
    have "subseq (settled_attempts r) (settled_attempts r')" using advanced(2)
    proof (cases rule: act_cases)
      case (claimed attempt same_key)
      with act_moves [OF advanced(2)] have "de_state r \<noteq> Dispatching" by (auto simp: can_transition_to_def)
      with claimed show ?thesis by (simp add: settled_attempts_def)
    qed (auto simp: settled_attempts_def prefix_imp_subseq [OF prefixeq_butlast])
    with advanced(4) quiet show ?thesis by (auto intro: subseq_order.trans)
  qed
qed

definition approval_ok :: "effect_env \<Rightarrow> durable_effect_record \<Rightarrow> bool" where
  "approval_ok E r \<longleftrightarrow> (case de_approval r of None \<Rightarrow> in_risk (de_intent r) = Low
     | Some x \<Rightarrow> \<exists>now. verify_approval E r x now = Inr ())"

lemma verify_approval_cong:
  "de_intent r' = de_intent r \<Longrightarrow> de_intent_digest r' = de_intent_digest r \<Longrightarrow> verify_approval E r' = verify_approval E r"
  by (rule ext)+ (simp add: verify_approval_def)

lemma approval_ok_cong:
  "de_intent r' = de_intent r \<Longrightarrow> de_intent_digest r' = de_intent_digest r \<Longrightarrow> de_approval r' = de_approval r \<Longrightarrow>
   approval_ok E r' = approval_ok E r"
  using verify_approval_cong [of r' r E] by (simp add: approval_ok_def split: option.split)

definition unauthorized_states :: "effect_state set" where
  "unauthorized_states = {Prepared, PendingApproval, Rejected, Expired, Cancelled}"

lemma leaves_unauthorized: "can_transition_to x y \<Longrightarrow> y \<notin> unauthorized_states \<Longrightarrow> x \<in> unauthorized_states \<Longrightarrow> y = Authorized"
  by (cases x) (auto simp: can_transition_to_def unauthorized_states_def)

lemma run_approved:
  assumes "effect_run E intent r calls"
  shows "de_state r \<notin> unauthorized_states \<longrightarrow> approval_ok E r"
  using assms
proof (induction rule: effect_run.induct)
  case (prepared d)
  then show ?case by (simp add: prepared_record_def unauthorized_states_def)
next
  case (advanced r calls a r')
  from act_moves [OF advanced(2)] have m: "can_transition_to (de_state r) (de_state r')" "de_intent r' = de_intent r"
    "de_intent_digest r' = de_intent_digest r" by auto
  have keep: "approval_ok E r'" if "de_approval r' = de_approval r" "de_state r' \<notin> unauthorized_states" "de_state r' \<noteq> Authorized"
    using that advanced(4) leaves_unauthorized [OF m(1) that(2)] approval_ok_cong [OF m(2,3) that(1)] by blast
  from advanced(2) show ?case
  proof (cases rule: act_cases)
    case authorized
    then show ?thesis by (simp add: approval_ok_def m verify_approval_cong [OF m(2,3)] split: option.splits)
  qed (use keep in auto)
qed

lemma run_sent:
  assumes "effect_run E intent r calls"
  shows "\<forall>(attempt, auth) \<in> set calls. may_send auth r attempt \<and> approval_ok E r \<and>
    de_state r \<notin> unauthorized_states - {Expired, Cancelled}"
  using assms
proof (induction rule: effect_run.induct)
  case (prepared d)
  then show ?case by simp
next
  case (advanced r calls a r')
  from act_moves [OF advanced(2)] have m: "can_transition_to (de_state r) (de_state r')" "de_intent r' = de_intent r" by auto
  from act_moves [OF advanced(2)] have d: "de_intent_digest r' = de_intent_digest r" by auto
  have frame: "may_send auth r' attempt = may_send auth r attempt" "approval_ok E r' = approval_ok E r"
    if "de_approval r' = de_approval r" for auth attempt
    using that m approval_ok_cong [OF m(2) d that, of E] by (simp_all add: may_send_def approval_lapsed_def)
  have later: "de_approval r' = de_approval r \<and> de_state r' \<notin> unauthorized_states - {Expired, Cancelled}"
    if "de_state r \<notin> unauthorized_states - {Expired, Cancelled}"
  proof -
    from that m(1) have "de_state r' \<notin> unauthorized_states - {Expired, Cancelled}" "de_state r' \<noteq> Authorized"
      by (cases "de_state r"; auto simp: can_transition_to_def unauthorized_states_def)+
    moreover from advanced(2) this(2) have "de_approval r' = de_approval r" by (cases rule: act_cases) auto
    ultimately show ?thesis by blast
  qed
  from advanced(2) show ?case
  proof (cases rule: calls_of_cases)
    case (sent auth)
    then have "de_state r \<notin> unauthorized_states - {Expired, Cancelled}" "approval_ok E r"
      using run_approved [OF advanced(1)] by (simp_all add: unauthorized_states_def)
    with later [OF this(1)] sent advanced(4) frame show ?thesis by auto
  next
    case quiet
    show ?thesis
    proof (cases "calls = []")
      case False
      with advanced(4) have "de_state r \<notin> unauthorized_states - {Expired, Cancelled}" by (cases calls) auto
      with later [OF this] advanced(4) frame quiet show ?thesis by auto
    qed (simp add: quiet)
  qed
qed

subsection \<open>Integrity facts used along a run\<close>

lemma verify_attempts_facts:
  assumes "verify_attempts r index prior ids attempts = Inr ()"
  shows "distinct (map at_attempt_id attempts) \<and> at_attempt_id ` set attempts \<inter> ids = {} \<and>
    map (\<lambda>attempt. unat (at_fencing_token attempt)) attempts = [index + 1 ..< index + 1 + length attempts]"
  using assms
proof (induction attempts arbitrary: index prior ids)
  case (Cons attempt attempts)
  from Cons.prems have "verify_attempts r (index + 1) (Some attempt) (insert (at_attempt_id attempt) ids) attempts = Inr ()"
    "at_attempt_id attempt \<notin> ids" "u64_try_from (index + 1) = Some (at_fencing_token attempt)"
    by (auto simp: result_simps split: if_split_asm)
  moreover from this(3) have "unat (at_fencing_token attempt) = index + 1" by (rule u64_try_from_SomeD)
  ultimately show ?case using Cons.IH [of "index + 1" "Some attempt" "insert (at_attempt_id attempt) ids"]
    by (auto simp: upt_conv_Cons)
qed simp

lemma verify_record_attempts:
  assumes "verify_record E r = Inr ()"
  shows "distinct (map at_attempt_id (de_attempts r))"
    "map (\<lambda>attempt. unat (at_fencing_token attempt)) (de_attempts r) = [1 ..< 1 + length (de_attempts r)]"
    "length (de_attempts r) \<le> MAX_EFFECT_ATTEMPTS"
proof -
  from assms have "verify_attempts r 0 None {} (de_attempts r) = Inr ()" and "length (de_attempts r) \<le> MAX_EFFECT_ATTEMPTS"
    unfolding verify_record_def by (auto elim!: rbind_InrE guard_InrE)
  with verify_attempts_facts [OF this(1)] show "distinct (map at_attempt_id (de_attempts r))"
    "map (\<lambda>attempt. unat (at_fencing_token attempt)) (de_attempts r) = [1 ..< 1 + length (de_attempts r)]"
    "length (de_attempts r) \<le> MAX_EFFECT_ATTEMPTS" by simp_all
qed

definition proven_not_executed :: "durable_effect_record \<Rightarrow> effect_attempt \<Rightarrow> bool" where
  "proven_not_executed r attempt \<longleftrightarrow>
     list_ex (\<lambda>report. rr_attempt_id report = Some (at_attempt_id attempt) \<and> rr_outcome report = ProvenNotExecuted)
       (de_reconciliations r)"

lemma proven_mono:
  "proven_not_executed r attempt \<Longrightarrow> set (de_reconciliations r) \<subseteq> set (de_reconciliations r') \<Longrightarrow> proven_not_executed r' attempt"
  by (auto simp: proven_not_executed_def list_ex_iff)

text \<open>
  Under \<open>ReconcileBeforeRetry\<close> an attempt is only followed by another once it is proven not to have been executed;
  \<open>AuthorizedForRetry\<close> is where the proof is already there for the last attempt.
\<close>

definition retries_proven :: "durable_effect_record \<Rightarrow> bool" where
  "retries_proven r \<longleftrightarrow> list_all (proven_not_executed r) (butlast (de_attempts r)) \<and>
     (de_state r = AuthorizedForRetry \<longrightarrow> list_all (proven_not_executed r) (de_attempts r))"

lemma run_retries_proven:
  assumes "effect_run E intent r calls" and "in_retry_policy intent = ReconcileBeforeRetry"
  shows "retries_proven r"
  using assms(1)
proof (induction rule: effect_run.induct)
  case (prepared d)
  then show ?case by (simp add: prepared_record_def retries_proven_def)
next
  case (advanced r calls a r')
  note facts = run_facts [OF advanced(1)]
  from act_moves [OF advanced(2)] have m: "can_transition_to (de_state r) (de_state r')" by simp
  have keep: "list_all (proven_not_executed r') xs"
    if "list_all (proven_not_executed r) xs" "set (de_reconciliations r) \<subseteq> set (de_reconciliations r')" for xs
    using that proven_mono by (auto simp: list_all_iff)
  from advanced(2) show ?case
  proof (cases rule: act_cases)
    case (claimed attempt same_key)
    with m have "de_state r \<in> {Authorized, AuthorizedForRetry}" by (metis reaches_dispatching)
    with facts advanced(4) have "list_all (proven_not_executed r) (de_attempts r)"
      by (auto simp: undispatched_def retries_proven_def)
    with keep claimed show ?thesis by (simp add: retries_proven_def)
  next
    case (retried n)
    with facts assms(2) show ?thesis by simp
  next
    case (reported report)
    have sub: "set (de_reconciliations r) \<subseteq> set (de_reconciliations r')" using reported by auto
    have "list_all (proven_not_executed r') (de_attempts r)" if "de_state r' = AuthorizedForRetry"
    proof -
      have "proven_not_executed r' (last (de_attempts r))"
        using reported that by (simp add: proven_not_executed_def)
      moreover have "list_all (proven_not_executed r') (butlast (de_attempts r))"
        using keep [OF _ sub] advanced(4) by (simp add: retries_proven_def)
      ultimately have "list_all (proven_not_executed r') (butlast (de_attempts r) @ [last (de_attempts r)])" by simp
      then show ?thesis using reported(5) by simp
    qed
    with keep [OF _ sub] advanced(4) reported(1) show ?thesis by (simp add: retries_proven_def)
  qed (use advanced(4) keep in \<open>auto simp: retries_proven_def\<close>)
qed

lemma run_attempts_bounded:
  assumes "effect_run E intent r calls"
  shows "(in_retry_policy intent = RetryNever \<longrightarrow> length (de_attempts r) \<le> 1) \<and>
    (\<forall>n. in_retry_policy intent = SameKeyIdempotent n \<longrightarrow> length (de_attempts r) \<le> unat n)"
  using assms
proof (induction rule: effect_run.induct)
  case (prepared d)
  then show ?case by (simp add: prepared_record_def)
next
  case (advanced r calls a r')
  from run_facts [OF advanced(1)] have i: "de_intent r = intent" "verify_record E r = Inr ()" by auto
  from i(2) have "intent_wf (de_intent r)"
    unfolding verify_record_def by (auto elim!: rbind_InrE simp: result_simps)
  then have pos: "in_retry_policy intent = SameKeyIdempotent n \<Longrightarrow> 1 \<le> unat n" for n
    using i(1) by (auto simp: intent_wf_def Suc_le_eq unat_gt_0)
  from advanced(2) show ?case
  proof (cases rule: act_cases)
    case (claimed attempt same_key)
    from claimed(6) i pos advanced(4) have
      "(in_retry_policy intent = RetryNever \<longrightarrow> length (de_attempts r) < 1) \<and>
       (\<forall>n. in_retry_policy intent = SameKeyIdempotent n \<longrightarrow> length (de_attempts r) < unat n)"
      by (fastforce simp: validate_retry_claim_def split: effect_state.splits retry_policy.splits if_splits)
    with claimed(1) show ?thesis by auto
  qed (use advanced(4) in simp_all)
qed

subsection \<open>The guarantees of the effect kernel\<close>

lemma subseq_attempts_bound:
  assumes "subseq xs (settled_attempts r)"
  shows "subseq xs (de_attempts r)"
  using assms subseq_order.trans [OF _ prefix_imp_subseq [OF prefixeq_butlast]] by (auto simp: settled_attempts_def split: if_split_asm)

lemma subseq_butlast_mono: "subseq xs ys \<Longrightarrow> subseq (butlast xs) (butlast ys)"
proof (induction rule: list_emb.induct)
  case (list_emb_Cons xs ys y)
  then show ?case using subseq_order.trans [OF prefix_imp_subseq [OF prefixeq_butlast]] by (cases ys) auto
qed auto

lemma subseq_sorted: "subseq xs ys \<Longrightarrow> sorted_wrt P ys \<Longrightarrow> sorted_wrt P xs"
  by (induction rule: list_emb.induct) (auto dest: list_emb_set)

lemma subseq_distinct: "subseq xs ys \<Longrightarrow> distinct ys \<Longrightarrow> distinct xs"
  by (induction rule: list_emb.induct) (auto dest: list_emb_set)

text \<open>
  (C4) The connector is entered at most once per attempt: along every run of an effect the calls of
  \<open>connector.dispatch\<close> are for pairwise distinct attempts of the record, in the order of strictly increasing fencing
  tokens, and there are never more than 1024 of them.
\<close>

theorem connector_entered_once_per_attempt:
  assumes "effect_run E intent r calls"
  shows "distinct (map (at_attempt_id \<circ> fst) calls) \<and> sorted_wrt (<) (map (at_fencing_token \<circ> fst) calls) \<and>
    subseq (map fst calls) (de_attempts r) \<and> length calls \<le> 1024"
proof -
  from run_facts [OF assms] have v: "verify_record E r = Inr ()" by simp
  have sub: "subseq (map fst calls) (de_attempts r)" by (rule subseq_attempts_bound [OF run_calls [OF assms]])
  have "sorted_wrt (<) (map (\<lambda>attempt. unat (at_fencing_token attempt)) (de_attempts r))"
    by (simp only: verify_record_attempts(2) [OF v] sorted_wrt_upt)
  then have "sorted_wrt (\<lambda>x y. at_fencing_token x < at_fencing_token y) (de_attempts r)"
    by (simp add: sorted_wrt_map word_less_nat_alt)
  from subseq_sorted [OF sub this] have "sorted_wrt (<) (map (at_fencing_token \<circ> fst) calls)"
    by (simp add: sorted_wrt_map)
  moreover from subseq_map [OF sub, of at_attempt_id] verify_record_attempts(1) [OF v]
  have "distinct (map (at_attempt_id \<circ> fst) calls)" by (auto intro: subseq_distinct simp flip: map_map)
  moreover from list_emb_length [OF sub] verify_record_attempts(3) [OF v] have "length calls \<le> 1024"
    by (simp add: kernel_limits)
  ultimately show ?thesis using sub by blast
qed

text \<open>
  (C5) Nothing is sent without authority: at every connector call the caller's policy allowed it and the caller held
  the approval capability and the one the intent names, the call was inside the validity window of the intent and
  before the deadline of the attempt; and unless the risk is low without approval, the record holds an approval bound
  to this intent, target, risk and bundle that had not expired, given by a human when the risk is high or critical.
\<close>

theorem sends_are_authorized:
  assumes "effect_run E intent r calls" and "(attempt, auth) \<in> set calls"
  shows "permits_dispatch auth intent \<and> in_created_at intent \<le> ea_now auth \<and> ea_now auth < in_expires_at intent \<and>
    ea_now auth < at_deadline attempt \<and>
    (case de_approval r of
       None \<Rightarrow> in_risk intent = Low
     | Some approval \<Rightarrow> ap_effect_id approval = in_effect_id intent \<and> ap_intent_digest approval = de_intent_digest r \<and>
         effect_target_digest E (in_target intent) = Inr (ap_target_digest approval) \<and>
         ap_risk approval = in_risk intent \<and> ap_bundle_id approval = in_bundle_id intent \<and>
         ea_now auth < ap_expires_at approval \<and> (in_risk intent \<in> {High, Critical} \<longrightarrow> ap_kind approval = Human))"
proof -
  from run_facts [OF assms(1)] have i: "de_intent r = intent" by simp
  from run_sent [OF assms(1)] assms(2) have "may_send auth r attempt" "approval_ok E r" by auto
  with i show ?thesis
    by (auto simp: may_send_def in_intent_window_def approval_lapsed_def approval_ok_def verify_approval_def result_simps
        split: option.splits if_split_asm)
qed

text \<open>
  (C6) Retries follow the policy of the intent: with \<open>RetryNever\<close> the connector is called at most once, with
  \<open>SameKeyIdempotent n\<close> at most \<open>n\<close> times, and with \<open>ReconcileBeforeRetry\<close> every call but the last was for an attempt
  that a later reconciliation report proved not to have been executed.
\<close>

theorem retries_follow_policy:
  assumes "effect_run E intent r calls"
  shows "case in_retry_policy intent of
     RetryNever \<Rightarrow> length calls \<le> 1
   | SameKeyIdempotent n \<Rightarrow> length calls \<le> unat n
   | ReconcileBeforeRetry \<Rightarrow> list_all (proven_not_executed r \<circ> fst) (butlast calls)"
proof -
  have sub: "subseq (map fst calls) (de_attempts r)" by (rule subseq_attempts_bound [OF run_calls [OF assms]])
  have "list_all (proven_not_executed r \<circ> fst) (butlast calls)" if "in_retry_policy intent = ReconcileBeforeRetry"
  proof -
    from run_retries_proven [OF assms that] have "list_all (proven_not_executed r) (butlast (de_attempts r))"
      by (simp add: retries_proven_def)
    with list_emb_set [OF subseq_butlast_mono [OF sub]] have "list_all (proven_not_executed r) (butlast (map fst calls))"
      by (auto simp: list_all_iff)
    then show ?thesis by (simp add: map_butlast [symmetric] list.pred_map comp_def)
  qed
  with run_attempts_bounded [OF assms] list_emb_length [OF sub] show ?thesis by (auto split: retry_policy.split)
qed

subsection \<open>The journal is tamper evident\<close>

definition journal_payload :: "effect_journal_event \<Rightarrow> effect_payload" where
  "journal_payload e = PayJournal (je_event_id e) (je_effect_id e) (je_sequence e) (je_expected_effect_version e)
     (je_from_state e) (je_to_state e) (je_actor_id e) (je_payload_digest e)
     (case je_previous_event_digest e of None \<Rightarrow> [] | Some d \<Rightarrow> d) (je_recorded_at e)"

lemma event_linkedD:
  assumes "event_linked E intent previous event = Inr ()"
  shows "event_wf event" "je_previous_event_digest event = map_option je_event_digest previous"
    "payload_digest E ''effect-journal-event'' (journal_payload event) = Inr (je_event_digest event)"
  using assms unfolding event_linked_def journal_digest_def
  by (auto elim!: rbind_InrE guard_InrE simp: journal_payload_def)

lemma verify_journal_snoc:
  "verify_journal E intent previous (events @ [event]) = Inr () \<longleftrightarrow>
     verify_journal E intent previous events = Inr () \<and>
     event_linked E intent (if events = [] then previous else Some (last events)) event = Inr ()"
  by (induction events arbitrary: previous) (auto simp: rbind_eq_Inr_iff)

lemma same_payload_same_event:
  assumes "event_wf e" "event_wf e'" "journal_payload e = journal_payload e'" "je_event_digest e = je_event_digest e'"
  shows "e = e'"
  using assms
  by (cases e; cases e'; cases "je_schema_version e"; cases "je_schema_version e'")
     (auto simp: journal_payload_def event_wf_def version_ok_def split: option.splits)

text \<open>
  (C28) The journal is tamper evident: when two verified journals end in events with the same digest, they are the same
  journal, event for event, or they exhibit a collision, two different event contents with one digest. A checkpoint of
  the last event digest therefore pins the whole history of an effect.
\<close>

theorem journal_tamper_evident:
  assumes "verify_journal E intent None events = Inr ()" and "verify_journal E intent' None events' = Inr ()"
    and "events \<noteq> []" and "events' \<noteq> []" and "je_event_digest (last events) = je_event_digest (last events')"
  shows "events = events' \<or> (\<exists>e \<in> set events. \<exists>e' \<in> set events'. journal_payload e \<noteq> journal_payload e' \<and>
    payload_digest E ''effect-journal-event'' (journal_payload e) = payload_digest E ''effect-journal-event'' (journal_payload e'))"
  using assms
proof (induction events arbitrary: events' rule: rev_induct)
  case (snoc e es)
  from snoc.prems(4) obtain es' e' where events': "events' = es' @ [e']" by (cases events' rule: rev_cases) auto
  from snoc.prems(1) have v: "verify_journal E intent None es = Inr ()"
    and l: "event_linked E intent (if es = [] then None else Some (last es)) e = Inr ()" by (simp_all add: verify_journal_snoc)
  from snoc.prems(2) have v': "verify_journal E intent' None es' = Inr ()"
    and l': "event_linked E intent' (if es' = [] then None else Some (last es')) e' = Inr ()"
    by (simp_all add: verify_journal_snoc events')
  have digest: "je_event_digest e = je_event_digest e'" using snoc.prems(5) events' by simp
  show ?case
  proof (cases "journal_payload e = journal_payload e'")
    case False
    with event_linkedD(3) [OF l] event_linkedD(3) [OF l'] digest events' show ?thesis by auto
  next
    case True
    then have "e = e'" by (rule same_payload_same_event [OF event_linkedD(1) [OF l] event_linkedD(1) [OF l'] _ digest])
    with event_linkedD(2) [OF l] event_linkedD(2) [OF l'] have "es = [] \<longleftrightarrow> es' = []"
      "es \<noteq> [] \<Longrightarrow> es' \<noteq> [] \<Longrightarrow> je_event_digest (last es) = je_event_digest (last es')" by (auto split: if_split_asm)
    with snoc.IH [OF v v'] \<open>e = e'\<close> events' show ?thesis by (cases "es = []") auto
  qed
qed simp

subsection \<open>A run with a proven retry\<close>

text \<open>
  A run that sends twice: the first attempt is entered, reconciliation proves that it was not executed, and a second
  attempt is claimed and entered. The hash is constant and every value has the same JSON form, which no statement above
  excludes.
\<close>

fun run_actions ::
    "effect_env \<Rightarrow> effect_action list \<Rightarrow> durable_effect_record \<times> connector_call list
      \<Rightarrow> (effect_error, durable_effect_record \<times> connector_call list) result" where
  "run_actions E [] state = Inr state"
| "run_actions E (a # as) (r, calls) =
     rbind (act E a r) (\<lambda>r'. rbind (verify_record E r') (\<lambda>_. run_actions E as (r', calls @ calls_of a r)))"

lemma run_actions_run:
  "effect_run E intent r calls \<Longrightarrow> run_actions E as (r, calls) = Inr (r', calls') \<Longrightarrow> effect_run E intent r' calls'"
  by (induction E as "(r, calls)" arbitrary: r calls rule: run_actions.induct)
     (auto simp: rbind_eq_Inr_iff intro: effect_run.advanced)

definition sample_env :: effect_env where
  "sample_env = \<lparr>en_sha256 = (\<lambda>_. replicate 32 (CHR 0x00)), en_json = (\<lambda>_. Some ''''), en_intent_node = (\<lambda>_. Inr (CMap []))\<rparr>"

definition zero_digest :: content_digest where
  "zero_digest = ''1220'' @ replicate 64 (CHR ''0'')"

definition sample_blob :: blob_ref where
  "sample_blob = \<lparr>br_digest = zero_digest, br_size_bytes = 0, br_media_type = ''a/b''\<rparr>"

definition sample_intent :: effect_intent where
  "sample_intent = \<lparr>in_schema_version = \<lparr>sv_family = ''cigar.effect-intent'', sv_major = 1\<rparr>, in_effect_id = ''e'',
     in_connector = ''c'', in_operation = ''o'', in_arguments_digest = zero_digest, in_encrypted_arguments = sample_blob,
     in_target = ''t'', in_preconditions = [], in_result_schema_digest = zero_digest, in_risk = Low,
     in_source_decision_id = zero_digest, in_bundle_id = zero_digest, in_required_capability = ReadContext,
     in_idempotency_scope = ''s'', in_idempotency_key = ''k'', in_retry_policy = ReconcileBeforeRetry,
     in_created_at = 0, in_expires_at = 1000, in_compensation = None, in_extensions = []\<rparr>"

definition sample_auth :: "timestamp \<Rightarrow> effect_authorization" where
  "sample_auth now = \<lparr>ea_actor_id = ''a'', ea_capabilities = {|ProposeEffect, ApproveEffect, ReconcileEffect, ReadContext|},
     ea_policy_allows = True, ea_now = now\<rparr>"

definition sample_descriptor :: connector_descriptor where
  "sample_descriptor = \<lparr>cd_connector = ''c'', cd_operations = [\<lparr>co_operation = ''o'', co_same_key_idempotent = False,
     co_supports_reconciliation = True, co_supports_compensation = False\<rparr>], cd_maximum_dispatch_nanos = 100\<rparr>"

definition sample_permit :: "record_id \<Rightarrow> u64 \<Rightarrow> u64 \<Rightarrow> dispatch_permit" where
  "sample_permit attempt_id token v = \<lparr>dp_effect_id = ''e'', dp_attempt_id = attempt_id, dp_fencing_token = token,
     dp_effect_version = v, dp_request_digest = zero_digest, dp_seal = zero_digest\<rparr>"

definition sample_actions :: "effect_action list" where
  "sample_actions = [AAuthorize 0 ''1'' None (sample_auth 1),
     AClaim (Some sample_descriptor) 1 ''x'' ''m'' ''2'' 10 (sample_auth 2), AEnter (sample_permit ''x'' 1 2) ''3'' (sample_auth 3),
     AReconcile (\<lambda>_. True) (Inr sample_descriptor) 3 ''p'' ''4'' (sample_auth 20) (Some (RecNotExecuted zero_digest)),
     AClaim (Some sample_descriptor) 4 ''y'' ''n'' ''5'' 30 (sample_auth 21), AEnter (sample_permit ''y'' 2 5) ''6'' (sample_auth 22)]"



lemmas validates = effect_validate_iff [THEN iffD2]

lemma sample_hash: "digest_to_multihash (en_sha256 sample_env bytes) = Inr zero_digest"
proof -
  have "hex (replicate 32 (CHR 0x00)) = replicate 64 (CHR ''0'')" "content_digest_new zero_digest = Inr zero_digest" by code_simp+
  then show ?thesis by (simp only: digest_to_multihash_def sample_env_def effect_env.simps zero_digest_def map_err_simps)
qed

lemma sample_digests [simp]:
  "payload_digest sample_env domain payload = Inr zero_digest" "stable_marker sample_env marker = Inr zero_digest"
  by (simp_all only: payload_digest_def stable_marker_def raw_multihash_def sample_hash rbind_simps)
     (simp add: sample_env_def sample_hash [unfolded sample_env_def effect_env.simps])

lemma sample_intent_simps [simp]:
  "in_effect_id sample_intent = ''e''" "in_connector sample_intent = ''c''" "in_operation sample_intent = ''o''"
  "in_target sample_intent = ''t''" "in_risk sample_intent = Low" "in_required_capability sample_intent = ReadContext"
  "in_retry_policy sample_intent = ReconcileBeforeRetry" "in_created_at sample_intent = 0" "in_expires_at sample_intent = 1000"
  "in_idempotency_key sample_intent = ''k''" "in_compensation sample_intent = None" "in_bundle_id sample_intent = zero_digest"
  "intent_wf sample_intent"
  by (simp_all add: sample_intent_def intent_wf_def version_ok_def effect_selector_ok_def effect_limits sorted_set_ok_def extensions_ok_def)

lemma sample_intent_digest [simp]: "effect_intent_digest sample_env sample_intent = Inr zero_digest"
proof -
  have "cbor (CArray [CUnsigned 5, CMap []]) = [CHR 0x82, CHR 0x05, CHR 0xA0]" by code_simp
  then have "to_deterministic_cbor (CArray [CUnsigned 5, CMap []]) = Inr [CHR 0x82, CHR 0x05, CHR 0xA0]"
    unfolding to_deterministic_cbor_eq limited_def by (simp add: canonical_limits del: cbor.simps)
  moreover have "map_err (\<lambda>_. EInvalidInput) (content_digest_new (multihash_v1 (en_sha256 sample_env) domain bytes)) = Inr zero_digest"
    for domain bytes
    using sample_hash by (simp add: multihash_v1_def digest_v1_def digest_to_multihash_def result_simps)
  ultimately show ?thesis
    by (simp add: effect_intent_digest_def validates semantic_multihash_v1_def semantic_envelope_v1_def remove_fields_def sample_env_def)
qed

lemmas machine_eval = validates plan_defs verify_record_def transition_def verify_permit_def permit_seal_def journal_digest_def
  require_version_def validate_retry_claim_def can_transition_to_def event_wf_def attempt_wf_def report_wf_def
  version_ok_def permits_dispatch_def permits_reconciliation_def in_intent_window_def approval_lapsed_def
  may_send_def complete_outbox_def entry_open_def dispatch_ownership_unreceipted_def bounded_backoff_end_def reconciled_def
  approval_digest_of_def verify_outbox_def link_bound_def event_linked_def journaled_def identity_new_def
  u64_try_from_def u16_try_from_def checked_add_def checked_sub_def prepared_record_def
  attempt_v1_def report_v1_def journal_event_v1_def kernel_limits MAX_PURPOSE_BYTES_def sorted_set_ok_def effect_limits

lemma sample_descriptor_simps [simp]:
  "descriptor_operation sample_descriptor ''o'' = Some \<lparr>co_operation = ''o'', co_same_key_idempotent = False,
     co_supports_reconciliation = True, co_supports_compensation = False\<rparr>"
  "cd_maximum_dispatch_nanos sample_descriptor = 100"
  by code_simp+

lemma sample_chars [simp]:
  "c \<in> set ''effect-dispatch-owner:xy'' \<Longrightarrow> \<not> is_ascii_control c" "\<not> (2 :: u64) \<le> 1"
proof -
  have "list_all (\<lambda>c. \<not> is_ascii_control c) ''effect-dispatch-owner:xy''" by code_simp
  then show "c \<in> set ''effect-dispatch-owner:xy'' \<Longrightarrow> \<not> is_ascii_control c" unfolding list_all_iff by blast
qed code_simp

lemma sample_run:
  obtains r auth auth' attempt attempt' where
    "effect_run sample_env sample_intent r [(attempt, auth), (attempt', auth')]" "at_attempt_id attempt = ''x''" "at_attempt_id attempt' = ''y''"
proof -
  have start: "effect_run sample_env sample_intent (prepared_record sample_intent zero_digest) []"
    by (rule effect_run.prepared) (simp_all add: machine_eval)
  have "case run_actions sample_env sample_actions (prepared_record sample_intent zero_digest, []) of
      Inl e \<Rightarrow> False | Inr (r, calls) \<Rightarrow> map (at_attempt_id \<circ> fst) calls = [''x'', ''y'']"
    by (simp add: machine_eval sample_actions_def sample_auth_def sample_permit_def Let_def)
  then obtain r calls where "run_actions sample_env sample_actions (prepared_record sample_intent zero_digest, []) = Inr (r, calls)"
    and ids: "map (at_attempt_id \<circ> fst) calls = [''x'', ''y'']" by (simp split: sum.splits prod.splits)
  from run_actions_run [OF start this(1)] ids show thesis using that by (auto simp: map_eq_Cons_conv)
qed

theorem connector_entered_once_per_attempt_witness:
  "\<exists>r calls. effect_run sample_env sample_intent r calls \<and> length calls = 2 \<and> distinct (map (at_attempt_id \<circ> fst) calls)"
proof -
  obtain r auth auth' attempt attempt' where
    "effect_run sample_env sample_intent r [(attempt, auth), (attempt', auth')]" by (rule sample_run)
  with connector_entered_once_per_attempt [OF this] show ?thesis
    by (intro exI [of _ r] exI [of _ "[(attempt, auth), (attempt', auth')]"]) simp
qed

theorem sends_are_authorized_witness:
  "\<exists>r calls attempt auth. effect_run sample_env sample_intent r calls \<and> (attempt, auth) \<in> set calls \<and>
     permits_dispatch auth sample_intent \<and> ea_now auth < at_deadline attempt"
proof -
  obtain r auth auth' attempt attempt' where
    run: "effect_run sample_env sample_intent r [(attempt, auth), (attempt', auth')]" by (rule sample_run)
  have "(attempt, auth) \<in> set [(attempt, auth), (attempt', auth')]" by simp
  with run sends_are_authorized [OF run this] show ?thesis
    by (intro exI [of _ r] exI [of _ "[(attempt, auth), (attempt', auth')]"] exI [of _ attempt] exI [of _ auth]) simp
qed

theorem retries_follow_policy_witness:
  "\<exists>r calls. effect_run sample_env sample_intent r calls \<and> length calls = 2 \<and> proven_not_executed r (fst (hd calls))"
proof -
  obtain r auth auth' attempt attempt' where
    "effect_run sample_env sample_intent r [(attempt, auth), (attempt', auth')]" by (rule sample_run)
  with retries_follow_policy [OF this] show ?thesis
    by (intro exI [of _ r] exI [of _ "[(attempt, auth), (attempt', auth')]"]) simp
qed

definition sample_event :: effect_journal_event where
  "sample_event = \<lparr>je_schema_version = journal_event_v1, je_event_id = ''1'', je_effect_id = ''e'', je_sequence = 1,
     je_expected_effect_version = 0, je_from_state = Prepared, je_to_state = Authorized, je_actor_id = ''a'',
     je_payload_digest = zero_digest, je_previous_event_digest = None, je_event_digest = zero_digest, je_recorded_at = 1\<rparr>"

theorem journal_tamper_evident_witness:
  "verify_journal sample_env sample_intent None [sample_event] = Inr () \<and>
   verify_journal sample_env sample_intent None [sample_event\<lparr>je_actor_id := ''b''\<rparr>] = Inr () \<and>
   payload_digest sample_env ''effect-journal-event'' (journal_payload sample_event) =
     payload_digest sample_env ''effect-journal-event'' (journal_payload (sample_event\<lparr>je_actor_id := ''b''\<rparr>))"
proof -
  have "verify_journal sample_env sample_intent None [sample_event] = Inr ()"
    "verify_journal sample_env sample_intent None [sample_event\<lparr>je_actor_id := ''b''\<rparr>] = Inr ()"
    by (simp_all add: machine_eval sample_event_def)
  from this journal_tamper_evident [OF this] show ?thesis by (simp add: sample_event_def)
qed

end
