(* ===== verification/Store_Catalog.thy ===== *)
theory Store_Catalog
  imports Memory_Store "HOL-Library.Sublist"
begin

text \<open>
  The catalogue inside a tenant of the in-memory store: the search for derivation cycles decides reachability, the
  derivation graph stays acyclic with its endpoints published, and the atom indexes kept by every publication are the
  ones that a rebuild from the atoms would compute. The notions here are sets and relations over the published
  records; \<open>Memory_Store\<close> holds the code.
\<close>

subsection \<open>The search for derivation cycles\<close>

definition derivations :: "context_edge list \<Rightarrow> (version_id \<times> version_id) set" where
  "derivations edges = {(ed_from_version e, ed_to_version e) |e. e \<in> set edges \<and> ed_kind e = DerivedFrom}"

lemma set_derived_from: "set (derived_from edges v) = derivations edges `` {v}"
  by (auto simp: derived_from_def derivations_def)

lemma finite_derivations: "finite (derivations edges)"
proof -
  have "derivations edges \<subseteq> (\<lambda>e. (ed_from_version e, ed_to_version e)) ` set edges" by (auto simp: derivations_def)
  then show ?thesis by (rule finite_subset) simp
qed

lemma closed_rtrancl:
  assumes "R `` C \<subseteq> C" "(x, y) \<in> R\<^sup>*" "x \<in> C"
  shows "y \<in> C"
  using assms(2,3,1) by (induction rule: rtrancl_induct) auto

lemma finite_reachable: "finite R \<Longrightarrow> finite (R\<^sup>* `` {x})"
proof (rule finite_subset)
  show "R\<^sup>* `` {x} \<subseteq> insert x (snd ` R)"
    by (auto elim: rtranclE) (metis rtranclE image_eqI snd_conv)
qed simp

lemma cycle_search_True:
  "cycle_search edges source pending visited = Inr True \<Longrightarrow> \<exists>v \<in> set pending. (v, source) \<in> (derivations edges)\<^sup>*"
proof (induction edges source pending visited rule: cycle_search.induct)
  case (2 edges source current pending visited)
  show ?case
  proof (cases "current = source \<or> current \<in> set visited")
    case True
    with 2 show ?thesis by (auto split: if_splits)
  next
    case False
    with 2 have "\<exists>v \<in> set (rev (derived_from edges current) @ pending). (v, source) \<in> (derivations edges)\<^sup>*"
      by (auto split: if_splits)
    then show ?thesis by (auto simp: set_derived_from intro: converse_rtrancl_into_rtrancl)
  qed
qed simp

text \<open>When nothing is left to explore, the visited versions are closed under derivation and do not hold the source.\<close>

lemma cycle_search_closed:
  "cycle_search edges source pending visited = Inr False \<Longrightarrow> source \<notin> set visited \<Longrightarrow>
    derivations edges `` set visited \<subseteq> set visited \<union> set pending \<Longrightarrow>
    \<exists>C. set visited \<union> set pending \<subseteq> C \<and> derivations edges `` C \<subseteq> C \<and> source \<notin> C"
proof (induction edges source pending visited rule: cycle_search.induct)
  case (1 edges source visited)
  then show ?case by (intro exI [of _ "set visited"]) simp
next
  case (2 edges source current pending visited)
  have new: "current \<noteq> source" using "2.prems"(1) by (auto split: if_splits)
  show ?case
  proof (cases "current \<in> set visited")
    case True
    then have "set visited \<union> set (current # pending) = set visited \<union> set pending" by auto
    with True new "2.IH"(1) "2.prems" show ?thesis by simp
  next
    case False
    with new "2.prems"(1) have limit: "\<not> Suc (length visited) > MAX_DERIVATION_VISITED" by (auto split: if_splits)
    have "derivations edges `` set (current # visited) \<subseteq> set (current # visited) \<union> set (rev (derived_from edges current) @ pending)"
      using "2.prems"(3) by (auto simp: set_derived_from)
    with False new limit "2.IH"(2) "2.prems"(1,2) show ?thesis by fastforce
  qed
qed

lemma cycle_search_False:
  assumes "cycle_search edges source pending visited = Inr False" "source \<notin> set visited"
    "derivations edges `` set visited \<subseteq> set visited \<union> set pending" "v \<in> set pending"
  shows "(v, source) \<notin> (derivations edges)\<^sup>*"
  using cycle_search_closed [OF assms(1-3)] assms(4) closed_rtrancl by fast

lemma cycle_search_total:
  "finite U \<Longrightarrow> card U \<le> MAX_DERIVATION_VISITED \<Longrightarrow> derivations edges `` U \<subseteq> U \<Longrightarrow>
    set visited \<union> set pending \<subseteq> U \<Longrightarrow> distinct visited \<Longrightarrow> \<exists>b. cycle_search edges source pending visited = Inr b"
proof (induction edges source pending visited rule: cycle_search.induct)
  case (2 edges source current pending visited)
  show ?case
  proof (cases "current = source \<or> current \<in> set visited")
    case True
    with 2 show ?thesis by auto
  next
    case False
    with "2.prems" have "card (set (current # visited)) \<le> card U" by (intro card_mono) auto
    with False "2.prems" have "Suc (length visited) \<le> MAX_DERIVATION_VISITED" by (simp add: distinct_card)
    moreover have "set (current # visited) \<union> set (rev (derived_from edges current) @ pending) \<subseteq> U"
      using "2.prems" by (auto simp: set_derived_from)
    ultimately show ?thesis using 2 False by simp
  qed
qed (simp, blast)

lemma cycle_search_cases:
  "(\<exists>b. cycle_search edges source pending visited = Inr b) \<or> cycle_search edges source pending visited = Inl SLimitExceeded"
  by (induction edges source pending visited rule: cycle_search.induct) auto

text \<open>What a derivation edge would close: a path of derivations from its end back to its start.\<close>

definition closes_cycle :: "context_edge list \<Rightarrow> context_edge \<Rightarrow> bool" where
  "closes_cycle edges e \<longleftrightarrow> ed_kind e = DerivedFrom \<and> (ed_to_version e, ed_from_version e) \<in> (derivations edges)\<^sup>*"

lemma creates_derivation_cycle_exact:
  "creates_derivation_cycle edges e = Inr b \<Longrightarrow> b \<longleftrightarrow> closes_cycle (bt_values edges) e"
  using cycle_search_True [of "bt_values edges" "ed_from_version e" "[ed_to_version e]" "[]"]
    cycle_search_False [of "bt_values edges" "ed_from_version e" "[ed_to_version e]" "[]" "ed_to_version e"]
  by (cases b) (auto simp: creates_derivation_cycle_def closes_cycle_def split: if_splits)

lemma creates_derivation_cycle_cases: "creates_derivation_cycle edges e \<in> {Inr True, Inr False, Inl SLimitExceeded}"
  using cycle_search_cases [of "bt_values edges" "ed_from_version e" "[ed_to_version e]" "[]"]
  by (auto simp: creates_derivation_cycle_def)

lemma creates_derivation_cycle_total:
  assumes "card ((derivations (bt_values edges))\<^sup>* `` {ed_to_version e}) \<le> MAX_DERIVATION_VISITED"
  shows "\<exists>b. creates_derivation_cycle edges e = Inr b"
proof (cases "ed_kind e = DerivedFrom")
  case True
  have "\<exists>b. cycle_search (bt_values edges) (ed_from_version e) [ed_to_version e] [] = Inr b"
    using assms by (intro cycle_search_total [OF finite_reachable [OF finite_derivations]]) (auto intro: rtrancl_into_rtrancl)
  with True show ?thesis by (simp add: creates_derivation_cycle_def)
qed (simp add: creates_derivation_cycle_def, blast)

subsection \<open>The atom indexes\<close>

text \<open>
  What the indexes of a set of atoms hold: the version published under each identity, and the newest version of each
  lineage, by observation time and then by version.
\<close>

definition published_as :: "context_atom set \<Rightarrow> record_id \<Rightarrow> version_id \<Rightarrow> bool" where
  "published_as S i v \<longleftrightarrow> (\<exists>a \<in> S. ca_version_id a = v \<and> ca_atom_id a = i)"

definition newest :: "context_atom set \<Rightarrow> string \<Rightarrow> version_id \<Rightarrow> bool" where
  "newest S l v \<longleftrightarrow> (\<exists>a \<in> S. ca_version_id a = v \<and> ca_lineage_id a = l \<and> (\<forall>a' \<in> S. ca_lineage_id a' = l \<longrightarrow> \<not> newer a' a))"

definition indexed :: "context_atom set \<Rightarrow> (record_id, version_id) btree \<Rightarrow> (string, version_id) btree \<Rightarrow> bool" where
  "indexed S by_id current \<longleftrightarrow> bt_invar by_id \<and> bt_invar current \<and>
     (\<forall>i v. bt_get by_id i = Some v \<longleftrightarrow> published_as S i v) \<and> (\<forall>l v. bt_get current l = Some v \<longleftrightarrow> newest S l v)"

text \<open>The atoms of a map are stored under their versions.\<close>

definition keyed :: "(version_id, context_atom) btree \<Rightarrow> bool" where
  "keyed atoms \<longleftrightarrow> bt_invar atoms \<and> (\<forall>(v, a) \<in> set atoms. ca_version_id a = v)"

lemma keyed_get: "keyed atoms \<Longrightarrow> bt_get atoms v = Some a \<longleftrightarrow> a \<in> set (bt_values atoms) \<and> ca_version_id a = v"
  by (force simp: keyed_def bt_values_def bt.lookup_eq_Some_iff)

lemma keyed_member: "keyed atoms \<Longrightarrow> x \<in> set atoms \<Longrightarrow> ca_version_id (snd x) = fst x"
  by (auto simp: keyed_def)

lemma keyed_inj: "keyed atoms \<Longrightarrow> inj_on ca_version_id (set (bt_values atoms))"
  by (intro inj_onI) (metis keyed_get option.inject)

lemma keyed_distinct: "keyed atoms \<Longrightarrow> distinct (bt_values atoms)"
proof -
  assume keyed: "keyed atoms"
  then have "map ca_version_id (bt_values atoms) = map fst atoms" by (auto simp: keyed_def bt_values_def)
  with keyed have "distinct (map ca_version_id (bt_values atoms))" by (simp add: keyed_def bt_invar_distinct)
  then show ?thesis by (simp add: distinct_map)
qed

text \<open>The order of the versions of a lineage.\<close>

definition recency :: "context_atom \<Rightarrow> timestamp \<times> version_id" where
  "recency a = (te_observed_at (ca_temporal a), ca_version_id a)"

lemma newer_iff: "newer a b \<longleftrightarrow> recency b < recency a"
  by (auto simp: newer_def recency_def less_prod_def)

lemma newer_linear: "newer a b \<or> newer b a \<or> ca_version_id a = ca_version_id b"
  by (auto simp: newer_def)

lemma newer_trans: "newer a b \<Longrightarrow> newer b c \<Longrightarrow> newer a c"
  by (simp add: newer_iff)

lemma newer_irrefl [simp]: "\<not> newer a a"
  by (simp add: newer_iff)

lemma newest_exists:
  assumes "finite S" "b \<in> S"
  shows "\<exists>v. newest S (ca_lineage_id b) v"
proof -
  let ?K = "recency ` {a \<in> S. ca_lineage_id a = ca_lineage_id b}"
  have "Max ?K \<in> ?K" using assms by (intro Max_in) auto
  then obtain a where "a \<in> S" "ca_lineage_id a = ca_lineage_id b" "recency a = Max ?K" by auto
  moreover have "\<not> newer a' a" if "a' \<in> S" "ca_lineage_id a' = ca_lineage_id b" for a'
  proof -
    have "recency a' \<le> Max ?K" using assms(1) that by (intro Max_ge) auto
    then show ?thesis by (simp add: newer_iff \<open>recency a = Max ?K\<close> not_less)
  qed
  ultimately show ?thesis by (auto simp: newest_def)
qed

lemma newer_asym: "newer a b \<Longrightarrow> \<not> newer b a"
  using newer_trans newer_irrefl by blast

lemma indexed_unique:
  assumes "indexed S by_id current" "indexed S by_id' current'"
  shows "by_id' = by_id" "current' = current"
proof -
  from assms show "by_id' = by_id" by (intro bt_ext) (auto simp: indexed_def)
  from assms show "current' = current" by (intro bt_ext) (auto simp: indexed_def)
qed

text \<open>One more atom: the step that publication and rebuild share.\<close>

lemma indexed_insert_id:
  assumes "\<And>i v. bt_get by_id i = Some v \<longleftrightarrow> published_as S i v"
    and "bt_get by_id (ca_atom_id a) \<in> {None, Some (ca_version_id a)}"
  shows "bt_get (bt_insert (ca_atom_id a) (ca_version_id a) by_id) i = Some v \<longleftrightarrow> published_as (insert a S) i v"
proof (cases "i = ca_atom_id a")
  case True
  have "ca_version_id b = ca_version_id a" if "b \<in> S" "ca_atom_id b = ca_atom_id a" for b
  proof -
    from that have "bt_get by_id (ca_atom_id a) = Some (ca_version_id b)" by (auto simp: assms(1) published_as_def)
    with assms(2) show ?thesis by simp
  qed
  with True show ?thesis by (auto simp: bt_get_insert published_as_def)
next
  case False
  with assms(1) show ?thesis by (auto simp: bt_get_insert published_as_def)
qed

lemma newest_insert:
  assumes "inj_on ca_version_id (insert a S)"
  shows "newest (insert a S) l v \<longleftrightarrow>
    (if ca_lineage_id a = l \<and> (\<forall>a' \<in> S. ca_lineage_id a' = l \<longrightarrow> \<not> newer a' a) then v = ca_version_id a else newest S l v)"
proof (cases "ca_lineage_id a = l \<and> (\<forall>a' \<in> S. ca_lineage_id a' = l \<longrightarrow> \<not> newer a' a)")
  case True
  have "ca_version_id b = ca_version_id a" if "b \<in> S" "ca_lineage_id b = l" "\<not> newer a b" for b
    using True that newer_linear [of a b] by auto
  with True show ?thesis by (auto simp: newest_def)
next
  case False
  have "\<not> newer a b" if "ca_lineage_id a = l" "b \<in> S" "ca_lineage_id b = l" "\<forall>a' \<in> S. ca_lineage_id a' = l \<longrightarrow> \<not> newer a' b" for b
    using False that newer_trans by blast
  with False show ?thesis by (auto simp: newest_def)
qed

lemma update_current_lineage_newest:
  assumes current: "\<And>l v. bt_get current l = Some v \<longleftrightarrow> newest S l v"
    and keyed: "keyed atoms" and stored: "insert a S \<subseteq> set (bt_values atoms)"
  obtains current' where "update_current_lineage atoms a current = Inr current'"
    "\<And>l v. bt_get current' l = Some v \<longleftrightarrow> newest (insert a S) l v" "bt_invar current \<Longrightarrow> bt_invar current'"
proof -
  have "inj_on ca_version_id (insert a S)"
    using inj_on_subset [OF keyed_inj [OF keyed] stored] .
  note step = newest_insert [OF this]
  show thesis
  proof (cases "bt_get current (ca_lineage_id a)")
    case None
    then have "\<not> newest S (ca_lineage_id a) v" for v by (simp flip: current)
    moreover have "finite S" using stored finite_subset [of S "set (bt_values atoms)"] by simp
    ultimately have "\<not> (\<exists>b \<in> S. ca_lineage_id b = ca_lineage_id a)" using newest_exists by metis
    with None show thesis
      by (intro that [of "bt_insert (ca_lineage_id a) (ca_version_id a) current"])
         (auto simp: update_current_lineage_def bt_get_insert step current bt_invar_insert split: if_splits)
  next
    case (Some v)
    then have "newest S (ca_lineage_id a) v" by (simp add: current)
    then obtain b where b: "b \<in> S" "ca_version_id b = v" "ca_lineage_id b = ca_lineage_id a"
      "\<forall>b' \<in> S. ca_lineage_id b' = ca_lineage_id a \<longrightarrow> \<not> newer b' b" by (auto simp: newest_def)
    then have get: "bt_get atoms v = Some b" using stored by (auto simp: keyed_get [OF keyed])
    show thesis
    proof (cases "newer a b")
      case True
      with b newer_linear newer_trans have "\<not> newer b' a" if "b' \<in> S" "ca_lineage_id b' = ca_lineage_id a" for b'
        using that by blast
      moreover from True Some get have
        "update_current_lineage atoms a current = Inr (bt_insert (ca_lineage_id a) (ca_version_id a) current)"
        by (simp add: update_current_lineage_def)
      ultimately show thesis
        by (intro that [of "bt_insert (ca_lineage_id a) (ca_version_id a) current"]) (auto simp: bt_get_insert step current bt_invar_insert split: if_splits)
    next
      case False
      with Some get have "update_current_lineage atoms a current = Inr current" by (simp add: update_current_lineage_def)
      moreover have "newest S (ca_lineage_id a) w \<longleftrightarrow> w = ca_version_id a"
        if "\<forall>b' \<in> S. ca_lineage_id b' = ca_lineage_id a \<longrightarrow> \<not> newer b' a" for w
      proof -
        from that b(1,3) False newer_linear [of a b] have "ca_version_id a = v" using b(2) by auto
        with Some show ?thesis by (auto simp flip: current)
      qed
      ultimately show thesis by (intro that [of current]) (auto simp: current step)
    qed
  qed
qed

lemma indexed_insert:
  assumes "indexed S by_id current" "keyed atoms" "insert a S \<subseteq> set (bt_values atoms)"
    and "bt_get by_id (ca_atom_id a) \<in> {None, Some (ca_version_id a)}"
  obtains current' where "update_current_lineage atoms a current = Inr current'"
    "indexed (insert a S) (bt_insert (ca_atom_id a) (ca_version_id a) by_id) current'"
proof -
  from assms(1) have index: "\<And>i v. bt_get by_id i = Some v \<longleftrightarrow> published_as S i v"
    "\<And>l v. bt_get current l = Some v \<longleftrightarrow> newest S l v" "bt_invar by_id" "bt_invar current" by (auto simp: indexed_def)
  obtain current' where "update_current_lineage atoms a current = Inr current'"
    "\<And>l v. bt_get current' l = Some v \<longleftrightarrow> newest (insert a S) l v" "bt_invar current'"
    using update_current_lineage_newest [OF index(2) assms(2,3)] index(4) by metis
  with indexed_insert_id [OF index(1) assms(4)] index(3) that [of current'] show thesis
    by (simp add: indexed_def bt_invar_insert)
qed

text \<open>A rebuild goes through the atoms once and succeeds whenever the identities are unambiguous.\<close>

lemma rebuild_loop_indexed:
  assumes "keyed atoms" "set rest \<union> S \<subseteq> set (bt_values atoms)" "indexed S by_id current"
    and "\<And>a b. a \<in> set (bt_values atoms) \<Longrightarrow> b \<in> set (bt_values atoms) \<Longrightarrow> ca_atom_id a = ca_atom_id b \<Longrightarrow>
      ca_version_id a = ca_version_id b"
  shows "\<exists>by_id' current'. rebuild_loop atoms rest (by_id, current) = Inr (by_id', current') \<and>
    indexed (set rest \<union> S) by_id' current'"
  using assms(2,3)
proof (induction rest arbitrary: S by_id current)
  case (Cons a rest)
  have "v = ca_version_id a" if "bt_get by_id (ca_atom_id a) = Some v" for v
  proof -
    from that Cons.prems(2) have "published_as S (ca_atom_id a) v" by (simp add: indexed_def)
    then obtain b where "b \<in> S" "ca_version_id b = v" "ca_atom_id b = ca_atom_id a" by (auto simp: published_as_def)
    then show ?thesis using Cons.prems(1) assms(4) [of b a] by auto
  qed
  then have guard: "bt_get by_id (ca_atom_id a) \<in> {None, Some (ca_version_id a)}" by (cases "bt_get by_id (ca_atom_id a)") auto
  obtain current' where step: "update_current_lineage atoms a current = Inr current'"
    "indexed (insert a S) (bt_insert (ca_atom_id a) (ca_version_id a) by_id) current'"
    by (rule indexed_insert [OF Cons.prems(2) assms(1) _ guard]) (use Cons.prems(1) in simp)
  have "set rest \<union> insert a S \<subseteq> set (bt_values atoms)" using Cons.prems(1) by simp
  from Cons.IH [OF this step(2)] obtain by_id' current'' where
    "rebuild_loop atoms rest (bt_insert (ca_atom_id a) (ca_version_id a) by_id, current') = Inr (by_id', current'')"
    "indexed (set rest \<union> insert a S) by_id' current''" by blast
  moreover have "rebuild_loop atoms (a # rest) (by_id, current) =
      rebuild_loop atoms rest (bt_insert (ca_atom_id a) (ca_version_id a) by_id, current')"
    using guard step(1) by (elim insertE emptyE) simp_all
  ultimately show ?case by simp
qed simp

subsection \<open>The catalogue of a tenant\<close>

definition graph_sound :: "tenant_state \<Rightarrow> bool" where
  "graph_sound t \<longleftrightarrow> bt_invar (ts_edges t) \<and> acyclic (derivations (bt_values (ts_edges t))) \<and>
     (\<forall>e \<in> set (bt_values (ts_edges t)).
        bt_get (ts_atoms t) (ed_from_version e) \<noteq> None \<and> bt_get (ts_atoms t) (ed_to_version e) \<noteq> None)"

definition catalog_sound :: "tenant_state \<Rightarrow> bool" where
  "catalog_sound t \<longleftrightarrow> keyed (ts_atoms t) \<and>
     indexed (set (bt_values (ts_atoms t))) (ts_atom_versions_by_id t) (ts_current_versions_by_lineage t) \<and> graph_sound t"

lemma catalog_sound_default [simp]: "catalog_sound tenant_default"
  by (simp add: catalog_sound_def graph_sound_def keyed_def indexed_def published_as_def newest_def derivations_def
      tenant_default_def bt_values_def acyclic_def)

lemma insert_immutable_cases:
  assumes "insert_immutable k v m = Inr m'"
  obtains "bt_get m k = Some v" "m' = m" | "bt_get m k = None" "m' = bt_insert k v m"
  using assms by (auto simp: insert_immutable_def split: option.splits if_splits)

lemma insert_immutable_extends: "insert_immutable k v m = Inr m' \<Longrightarrow> bt_get m \<subseteq>\<^sub>m bt_get m' \<and> bt_get m' k = Some v"
  by (erule insert_immutable_cases) (auto simp: bt_get_insert map_le_def)

lemma insert_immutable_invar: "insert_immutable k v m = Inr m' \<Longrightarrow> bt_invar m \<Longrightarrow> bt_invar m'"
  by (erule insert_immutable_cases) (auto simp: bt_invar_insert)

lemma insert_immutable_set: "insert_immutable k v m = Inr m' \<Longrightarrow> bt_invar m \<Longrightarrow> set m' = insert (k, v) (set m)"
  by (erule insert_immutable_cases)
     (auto simp: set_bt_insert bt_remove_absent map_of_eq_None_iff dest: map_of_SomeD)

lemma insert_immutable_values:
  "insert_immutable k v m = Inr m' \<Longrightarrow> bt_invar m \<Longrightarrow> set (bt_values m') = insert v (set (bt_values m))"
  by (simp add: bt_values_def insert_immutable_set)

lemma graph_sound_mono:
  assumes "graph_sound t" "bt_get (ts_atoms t) \<subseteq>\<^sub>m bt_get atoms"
  shows "graph_sound (t\<lparr>ts_atoms := atoms, ts_atom_versions_by_id := by_id, ts_current_versions_by_lineage := current\<rparr>)"
  using assms by (fastforce simp: graph_sound_def map_le_def dom_def)

lemma apply_atom_sound:
  assumes "apply_atom a t = Inr t'" "catalog_sound t"
  shows "catalog_sound t'"
proof -
  from assms(1) obtain atoms current stored where
    guard: "bt_get (ts_atom_versions_by_id t) (ca_atom_id a) \<in> {None, Some (ca_version_id a)}"
    and atoms: "insert_immutable (ca_version_id a) a (ts_atoms t) = Inr atoms"
    and stored: "bt_get atoms (ca_version_id a) = Some stored"
    and current: "update_current_lineage atoms stored (ts_current_versions_by_lineage t) = Inr current"
    and t': "t' = t\<lparr>ts_atoms := atoms, ts_atom_versions_by_id := bt_insert (ca_atom_id a) (ca_version_id a) (ts_atom_versions_by_id t),
        ts_current_versions_by_lineage := current\<rparr>"
    by (auto simp: apply_atom_def result_simps split: if_splits option.splits)
  from assms(2) have keyed: "keyed (ts_atoms t)" and graph: "graph_sound t"
    and index: "indexed (set (bt_values (ts_atoms t))) (ts_atom_versions_by_id t) (ts_current_versions_by_lineage t)"
    by (auto simp: catalog_sound_def)
  note extends = insert_immutable_extends [OF atoms]
  with stored have "stored = a" by simp
  have vals: "set (bt_values atoms) = insert a (set (bt_values (ts_atoms t)))"
    using insert_immutable_values [OF atoms] keyed by (simp add: keyed_def)
  have keyed': "keyed atoms" using insert_immutable_set [OF atoms] insert_immutable_invar [OF atoms] keyed by (auto simp: keyed_def)
  obtain current' where "update_current_lineage atoms a (ts_current_versions_by_lineage t) = Inr current'"
    "indexed (set (bt_values atoms)) (bt_insert (ca_atom_id a) (ca_version_id a) (ts_atom_versions_by_id t)) current'"
    by (rule indexed_insert [OF index keyed' _ guard]) (simp_all add: vals)
  with current \<open>stored = a\<close> keyed' graph_sound_mono [OF graph] extends t' show ?thesis by (simp add: catalog_sound_def)
qed

lemma apply_edge_sound:
  assumes "apply_edge e t = Inr t'" "catalog_sound t"
  shows "catalog_sound t'"
proof -
  from assms(1) obtain edges where
    ends: "bt_get (ts_atoms t) (ed_from_version e) \<noteq> None" "bt_get (ts_atoms t) (ed_to_version e) \<noteq> None"
    and search: "creates_derivation_cycle (ts_edges t) e = Inr False"
    and edges: "insert_immutable (ed_edge_id e) e (ts_edges t) = Inr edges" and t': "t' = t\<lparr>ts_edges := edges\<rparr>"
    by (auto simp: apply_edge_def result_simps split: if_splits)
  from assms(2) have graph: "bt_invar (ts_edges t)" "acyclic (derivations (bt_values (ts_edges t)))" by (auto simp: catalog_sound_def graph_sound_def)
  have vals: "set (bt_values edges) = insert e (set (bt_values (ts_edges t)))" by (rule insert_immutable_values [OF edges graph(1)])
  have "acyclic (derivations (bt_values edges))"
  proof (cases "ed_kind e = DerivedFrom")
    case True
    then have "derivations (bt_values edges) = insert (ed_from_version e, ed_to_version e) (derivations (bt_values (ts_edges t)))"
      by (auto simp: derivations_def vals)
    with True graph(2) creates_derivation_cycle_exact [OF search] show ?thesis by (simp add: acyclic_insert closes_cycle_def)
  next
    case False
    then have "derivations (bt_values edges) = derivations (bt_values (ts_edges t))" by (auto simp: derivations_def vals)
    with graph(2) show ?thesis by simp
  qed
  moreover note insert_immutable_extends [OF edges] insert_immutable_invar [OF edges graph(1)]
  ultimately show ?thesis using assms(2) ends t' by (auto simp: catalog_sound_def graph_sound_def vals)
qed

lemma apply_all_induct:
  assumes "apply_all f xs t = Inr t'" "P t" "\<And>x t t'. x \<in> set xs \<Longrightarrow> f x t = Inr t' \<Longrightarrow> P t \<Longrightarrow> P t'"
  shows "P t'"
  using assms
proof (induction xs arbitrary: t)
  case (Cons x xs)
  then obtain t1 where "f x t = Inr t1" "apply_all f xs t1 = Inr t'" by (auto simp: result_simps)
  with Cons.prems(2,3) show ?case by (intro Cons.IH [of t1]) auto
qed simp

lemma catalog_sound_update [simp]:
  "catalog_sound (t\<lparr>ts_bundles := x0\<rparr>) \<longleftrightarrow> catalog_sound t"
  "catalog_sound (t\<lparr>ts_snapshots := x1\<rparr>) \<longleftrightarrow> catalog_sound t"
  "catalog_sound (t\<lparr>ts_context_commits := x2\<rparr>) \<longleftrightarrow> catalog_sound t"
  "catalog_sound (t\<lparr>ts_effects := x3\<rparr>) \<longleftrightarrow> catalog_sound t"
  "catalog_sound (t\<lparr>ts_effect_records := x4\<rparr>) \<longleftrightarrow> catalog_sound t"
  "catalog_sound (t\<lparr>ts_blobs := x5\<rparr>) \<longleftrightarrow> catalog_sound t"
  "catalog_sound (t\<lparr>ts_outbox := x6\<rparr>) \<longleftrightarrow> catalog_sound t"
  "catalog_sound (t\<lparr>ts_idempotency := x7\<rparr>) \<longleftrightarrow> catalog_sound t"
  "catalog_sound (t\<lparr>ts_service_records := x8, ts_service_idempotency := x9, ts_worker_states := x10\<rparr>) \<longleftrightarrow> catalog_sound t"
  by (simp_all add: catalog_sound_def graph_sound_def)

lemma apply_mutation_sound:
  assumes "apply_mutation m revision t = Inr t'" "catalog_sound t"
  shows "catalog_sound t'"
proof (cases m)
  case (StagedAtoms atoms edges)
  with assms(1) obtain t1 where "apply_all apply_atom atoms t = Inr t1" "apply_all apply_edge edges t1 = Inr t'"
    by (auto simp: result_simps)
  with assms(2) apply_atom_sound apply_edge_sound show ?thesis by (metis apply_all_induct [of _ _ _ _ catalog_sound])
qed (use assms in \<open>auto simp: result_simps Let_def split: if_splits\<close>)

lemma apply_mutations_induct:
  assumes "apply_mutations ms revision t = Inr t'" "P t"
    "\<And>m t t'. m \<in> set ms \<Longrightarrow> apply_mutation m revision t = Inr t' \<Longrightarrow> P t \<Longrightarrow> P t'"
  shows "P t'"
  using assms
proof (induction ms arbitrary: t)
  case (Cons m ms)
  then obtain t1 where "apply_mutation m revision t = Inr t1" "apply_mutations ms revision t1 = Inr t'" by (auto simp: result_simps)
  with Cons.prems(2,3) show ?case by (intro Cons.IH [of t1]) auto
qed simp

lemma apply_mutations_sound: "apply_mutations ms revision t = Inr t' \<Longrightarrow> catalog_sound t \<Longrightarrow> catalog_sound t'"
  by (erule apply_mutations_induct) (auto intro: apply_mutation_sound)

text \<open>Reading through the indexes of a sound tenant.\<close>

lemma not_newer_iff: "\<not> newer a' a \<longleftrightarrow> te_observed_at (ca_temporal a') < te_observed_at (ca_temporal a) \<or>
    te_observed_at (ca_temporal a') = te_observed_at (ca_temporal a) \<and> ca_version_id a' \<le> ca_version_id a"
  by (auto simp: newer_def)

lemma sound_atom_by_id:
  assumes "catalog_sound t"
  shows "atom_by_id t i = Inr (map_option (\<lambda>v. (v, the (bt_get (ts_atoms t) v))) (bt_get (ts_atom_versions_by_id t) i))"
    and "bt_get (ts_atom_versions_by_id t) i = Some v \<longleftrightarrow> (\<exists>a. bt_get (ts_atoms t) v = Some a \<and> ca_atom_id a = i)"
    and "bt_get (ts_current_versions_by_lineage t) l = Some v \<longleftrightarrow> (\<exists>a. bt_get (ts_atoms t) v = Some a \<and> ca_lineage_id a = l \<and>
      (\<forall>v' a'. bt_get (ts_atoms t) v' = Some a' \<longrightarrow> ca_lineage_id a' = l \<longrightarrow> \<not> newer a' a))"
proof -
  from assms have keyed: "keyed (ts_atoms t)"
    and index: "indexed (set (bt_values (ts_atoms t))) (ts_atom_versions_by_id t) (ts_current_versions_by_lineage t)"
    by (auto simp: catalog_sound_def)
  note get = keyed_get [OF keyed]
  show id: "bt_get (ts_atom_versions_by_id t) i = Some v \<longleftrightarrow> (\<exists>a. bt_get (ts_atoms t) v = Some a \<and> ca_atom_id a = i)" for i v
    using index by (auto simp: indexed_def published_as_def get)
  show "bt_get (ts_current_versions_by_lineage t) l = Some v \<longleftrightarrow> (\<exists>a. bt_get (ts_atoms t) v = Some a \<and> ca_lineage_id a = l \<and>
      (\<forall>v' a'. bt_get (ts_atoms t) v' = Some a' \<longrightarrow> ca_lineage_id a' = l \<longrightarrow> \<not> newer a' a))"
    using index by (auto simp: indexed_def newest_def get)
  show "atom_by_id t i = Inr (map_option (\<lambda>v. (v, the (bt_get (ts_atoms t) v))) (bt_get (ts_atom_versions_by_id t) i))"
  proof (cases "bt_get (ts_atom_versions_by_id t) i")
    case (Some v)
    then obtain a where "bt_get (ts_atoms t) v = Some a" "ca_atom_id a = i" using id by blast
    with Some show ?thesis by (simp add: atom_by_id_def)
  qed (simp add: atom_by_id_def)
qed

text \<open>The indexes a sound tenant keeps are the ones a rebuild computes.\<close>

lemma rebuild_is_identity:
  assumes "catalog_sound t" "length (ts_atoms t) \<le> MAX_LEGACY_ATOM_INDEX_REBUILD_ITEMS"
  shows "rebuild_atom_indexes t = Inr t"
proof -
  from assms(1) have keyed: "keyed (ts_atoms t)"
    and index: "indexed (set (bt_values (ts_atoms t))) (ts_atom_versions_by_id t) (ts_current_versions_by_lineage t)"
    by (auto simp: catalog_sound_def)
  have ids: "ca_version_id a = ca_version_id b"
    if "a \<in> set (bt_values (ts_atoms t))" "b \<in> set (bt_values (ts_atoms t))" "ca_atom_id a = ca_atom_id b" for a b
  proof -
    have "bt_get (ts_atom_versions_by_id t) (ca_atom_id b) = Some (ca_version_id a)"
      "bt_get (ts_atom_versions_by_id t) (ca_atom_id b) = Some (ca_version_id b)"
      using that index by (auto simp: indexed_def published_as_def)
    then show ?thesis by simp
  qed
  have empty: "indexed {} [] []" by (simp add: indexed_def published_as_def newest_def)
  have "\<exists>by_id current. rebuild_loop (ts_atoms t) (bt_values (ts_atoms t)) ([], []) = Inr (by_id, current) \<and>
      indexed (set (bt_values (ts_atoms t)) \<union> {}) by_id current"
    by (rule rebuild_loop_indexed [OF keyed _ empty]) (simp, rule ids)
  then obtain by_id current where "rebuild_loop (ts_atoms t) (bt_values (ts_atoms t)) ([], []) = Inr (by_id, current)"
    "indexed (set (bt_values (ts_atoms t))) by_id current" by auto
  with indexed_unique [OF index] assms(2) show ?thesis by (simp add: rebuild_atom_indexes_def)
qed

subsection \<open>Published records stay\<close>

definition entries_at :: "('k, 'v list) btree \<Rightarrow> 'k \<Rightarrow> 'v list" where
  "entries_at m k = (case bt_get m k of None \<Rightarrow> [] | Some xs \<Rightarrow> xs)"

definition extends :: "tenant_state \<Rightarrow> tenant_state \<Rightarrow> bool" where
  "extends t t' \<longleftrightarrow> bt_get (ts_atoms t) \<subseteq>\<^sub>m bt_get (ts_atoms t') \<and> bt_get (ts_edges t) \<subseteq>\<^sub>m bt_get (ts_edges t') \<and>
     bt_get (ts_bundles t) \<subseteq>\<^sub>m bt_get (ts_bundles t') \<and> bt_get (ts_snapshots t) \<subseteq>\<^sub>m bt_get (ts_snapshots t') \<and>
     bt_get (ts_blobs t) \<subseteq>\<^sub>m bt_get (ts_blobs t') \<and>
     (\<forall>space. prefix (entries_at (ts_context_commits t) space) (entries_at (ts_context_commits t') space)) \<and>
     (\<forall>effect. prefix (entries_at (ts_effects t) effect) (entries_at (ts_effects t') effect)) \<and>
     prefix (ts_outbox t) (ts_outbox t')"

lemma extends_refl [simp]: "extends t t"
  by (simp add: extends_def)

lemma extends_trans: "extends t1 t2 \<Longrightarrow> extends t2 t3 \<Longrightarrow> extends t1 t3"
  by (auto simp: extends_def intro: map_le_trans prefix_order.trans)

lemma extends_idempotency [simp]: "extends t (t'\<lparr>ts_idempotency := i\<rparr>) \<longleftrightarrow> extends t t'"
  by (simp add: extends_def)

lemma apply_atom_extends: "apply_atom a t = Inr t' \<Longrightarrow> extends t t'"
  by (auto simp: apply_atom_def extends_def result_simps dest: insert_immutable_extends split: if_splits)

lemma apply_edge_extends: "apply_edge e t = Inr t' \<Longrightarrow> extends t t'"
  by (auto simp: apply_edge_def extends_def result_simps dest: insert_immutable_extends split: if_splits)

lemma apply_mutation_extends: "apply_mutation m revision t = Inr t' \<Longrightarrow> extends t t'"
proof (cases m)
  case (StagedAtoms atoms edges)
  assume "apply_mutation m revision t = Inr t'"
  with StagedAtoms obtain t1 where "apply_all apply_atom atoms t = Inr t1" "apply_all apply_edge edges t1 = Inr t'"
    by (auto simp: result_simps)
  then show ?thesis using apply_all_induct [of _ _ _ _ "extends t"] apply_atom_extends apply_edge_extends extends_trans extends_refl
    by metis
qed (auto simp: extends_def entries_at_def result_simps Let_def bt_get_insert dest: insert_immutable_extends split: if_splits option.splits)

lemma apply_mutations_extends: "apply_mutations ms revision t = Inr t' \<Longrightarrow> extends t t'"
  by (erule apply_mutations_induct) (auto intro: apply_mutation_extends extends_trans)

subsection \<open>Linked logs\<close>

text \<open>
  The commits of a space and the journal of an effect are numbered from one without gaps, each entry naming its
  predecessor; outbox messages have distinct identities.
\<close>

definition commits_linked :: "context_commit list \<Rightarrow> bool" where
  "commits_linked cs \<longleftrightarrow> (\<forall>i < length cs. unat (cm_sequence (cs ! i)) = i + 1 \<and>
     cm_parent_commit_id (cs ! i) = (if i = 0 then None else Some (cm_commit_id (cs ! (i - 1)))))"

definition events_linked :: "effect_journal_event list \<Rightarrow> bool" where
  "events_linked es \<longleftrightarrow> (\<forall>i < length es. unat (je_sequence (es ! i)) = i + 1 \<and> unat (je_expected_effect_version (es ! i)) = i \<and>
     je_previous_event_digest (es ! i) = (if i = 0 then None else Some (je_event_digest (es ! (i - 1)))) \<and>
     (i > 0 \<longrightarrow> je_from_state (es ! i) = je_to_state (es ! (i - 1))))"

definition logs_linked :: "tenant_state \<Rightarrow> bool" where
  "logs_linked t \<longleftrightarrow> (\<forall>space. commits_linked (entries_at (ts_context_commits t) space)) \<and>
     (\<forall>effect. events_linked (entries_at (ts_effects t) effect)) \<and>
     distinct (map (\<lambda>r. om_message_id (or_message r)) (ts_outbox t))"

lemma next_sequence:
  assumes "Option.bind (u64_try_from n) (\<lambda>k. checked_add k 1) = Some s"
  shows "unat s = n + 1"
  using assms by (auto simp: bind_eq_Some_conv dest!: checked_add_one_SomeD u64_try_from_SomeD)

lemma nth_linked_append:
  "(\<forall>i < length (xs @ [x]). P i ((xs @ [x]) ! i) ((xs @ [x]) ! (i - 1))) \<longleftrightarrow>
    (\<forall>i < length xs. P i (xs ! i) (xs ! (i - 1))) \<and> P (length xs) x (if xs = [] then x else last xs)"
  by (auto simp: nth_append less_Suc_eq last_conv_nth)

lemma commits_linked_append:
  "commits_linked (cs @ [c]) \<longleftrightarrow> commits_linked cs \<and> unat (cm_sequence c) = length cs + 1 \<and>
     cm_parent_commit_id c = (if cs = [] then None else Some (cm_commit_id (last cs)))"
  unfolding commits_linked_def
  using nth_linked_append [of cs c "\<lambda>i c p. unat (cm_sequence c) = i + 1 \<and>
     cm_parent_commit_id c = (if i = 0 then None else Some (cm_commit_id p))"] by (cases "cs = []") simp_all

lemma events_linked_append:
  "events_linked (es @ [e]) \<longleftrightarrow> events_linked es \<and> unat (je_sequence e) = length es + 1 \<and>
     unat (je_expected_effect_version e) = length es \<and>
     je_previous_event_digest e = (if es = [] then None else Some (je_event_digest (last es))) \<and>
     (es \<noteq> [] \<longrightarrow> je_from_state e = je_to_state (last es))"
  unfolding events_linked_def
  using nth_linked_append [of es e "\<lambda>i e p. unat (je_sequence e) = i + 1 \<and> unat (je_expected_effect_version e) = i \<and>
     je_previous_event_digest e = (if i = 0 then None else Some (je_event_digest p)) \<and>
     (i > 0 \<longrightarrow> je_from_state e = je_to_state p)"] by (cases "es = []") simp_all

lemma entries_at_insert: "entries_at (bt_insert k xs m) k' = (if k' = k then xs else entries_at m k')"
  by (simp add: entries_at_def bt_get_insert)

lemma logs_linked_update [simp]:
  "logs_linked (t\<lparr>ts_atoms := x0, ts_atom_versions_by_id := x1, ts_current_versions_by_lineage := x2\<rparr>) \<longleftrightarrow> logs_linked t"
  "logs_linked (t\<lparr>ts_edges := x3\<rparr>) \<longleftrightarrow> logs_linked t"
  "logs_linked (t\<lparr>ts_bundles := x4\<rparr>) \<longleftrightarrow> logs_linked t"
  "logs_linked (t\<lparr>ts_snapshots := x5\<rparr>) \<longleftrightarrow> logs_linked t"
  "logs_linked (t\<lparr>ts_effect_records := x6\<rparr>) \<longleftrightarrow> logs_linked t"
  "logs_linked (t\<lparr>ts_blobs := x7\<rparr>) \<longleftrightarrow> logs_linked t"
  "logs_linked (t\<lparr>ts_idempotency := x8\<rparr>) \<longleftrightarrow> logs_linked t"
  "logs_linked (t\<lparr>ts_service_records := x9, ts_service_idempotency := x10, ts_worker_states := x11\<rparr>) \<longleftrightarrow> logs_linked t"
  by (simp_all add: logs_linked_def)

lemma logs_linked_default [simp]: "logs_linked tenant_default"
  by (simp add: logs_linked_def tenant_default_def entries_at_def commits_linked_def events_linked_def)

lemma apply_mutation_linked:
  assumes "apply_mutation m revision t = Inr t'" "logs_linked t"
  shows "logs_linked t'"
proof (cases m)
  case (StagedAtoms atoms edges)
  with assms(1) obtain t1 where "apply_all apply_atom atoms t = Inr t1" "apply_all apply_edge edges t1 = Inr t'"
    by (auto simp: result_simps)
  moreover have "logs_linked u'" if "apply_atom a u = Inr u'" "logs_linked u" for a u u'
    using that by (auto simp: apply_atom_def result_simps split: if_splits)
  moreover have "logs_linked u'" if "apply_edge e u = Inr u'" "logs_linked u" for e u u'
    using that by (auto simp: apply_edge_def result_simps split: if_splits)
  ultimately show ?thesis using assms(2) by (metis apply_all_induct [of _ _ _ _ logs_linked])
next
  case (StagedCommit c)
  let ?cs = "entries_at (ts_context_commits t) (cm_space_id c)"
  from StagedCommit assms(1) have "Option.bind (u64_try_from (length ?cs)) (\<lambda>n. checked_add n 1) = Some (cm_sequence c)"
    "cm_parent_commit_id c = (if ?cs = [] then None else Some (cm_commit_id (last ?cs)))"
    "t' = t\<lparr>ts_context_commits := bt_insert (cm_space_id c) (?cs @ [c]) (ts_context_commits t)\<rparr>"
    by (auto simp: Let_def entries_at_def result_simps split: if_splits)
  with assms(2) next_sequence show ?thesis by (auto simp: logs_linked_def entries_at_insert commits_linked_append)
next
  case (StagedEvent e)
  let ?es = "entries_at (ts_effects t) (je_effect_id e)"
  from StagedEvent assms(1) have "Option.bind (u64_try_from (length ?es)) (\<lambda>n. checked_add n 1) = Some (je_sequence e)"
    "u64_try_from (length ?es) = Some (je_expected_effect_version e)"
    "je_previous_event_digest e = (if ?es = [] then None else Some (je_event_digest (last ?es)))"
    "?es \<noteq> [] \<longrightarrow> je_from_state e = je_to_state (last ?es)"
    "t' = t\<lparr>ts_effects := bt_insert (je_effect_id e) (?es @ [e]) (ts_effects t)\<rparr>"
    by (auto simp: Let_def entries_at_def result_simps split: if_splits)
  with assms(2) next_sequence u64_try_from_SomeD show ?thesis by (auto simp: logs_linked_def entries_at_insert events_linked_append)
next
  case (StagedOutbox message)
  with assms(1) have "om_message_id message \<notin> set (map (\<lambda>r. om_message_id (or_message r)) (ts_outbox t))"
    "t' = t\<lparr>ts_outbox := ts_outbox t @ [\<lparr>or_message = message, or_causal_revision = revision\<rparr>]\<rparr>"
    by (auto simp: list_ex_iff split: if_splits)
  with assms(2) show ?thesis by (simp add: logs_linked_def)
qed (use assms in \<open>auto simp: result_simps split: if_splits\<close>)

lemma apply_mutations_linked: "apply_mutations ms revision t = Inr t' \<Longrightarrow> logs_linked t \<Longrightarrow> logs_linked t'"
  by (erule apply_mutations_induct) (auto intro: apply_mutation_linked)

end
