(* ===== verification/Service_Store.thy ===== *)
theory Service_Store
  imports Memory_Store
begin

text \<open>
  The service repository over the committed states of the in-memory store (\<open>cigar-store/src/service_repository.rs\<close> and
  \<open>impl ServiceRepository for InMemoryStore\<close>): reads of versioned records, snapshot-pinned listings, recovery pages over
  effects and outbox, atomic compare-and-set batches with retained responses, and worker leases. SHA-256 and the length
  of the CBOR encoding of a tenant's service state are parameters; \<open>cancelled\<close> is the cancellation token, tested when an
  operation begins.
\<close>

type_synonym service_sizes =
  "(string \<times> string, service_record list) btree \<Rightarrow> (string \<times> string, service_idempotency_entry) btree
    \<Rightarrow> (string, worker_state) btree \<Rightarrow> nat option"

subsection \<open>Integrity of stored values\<close>

fun validate_history_loop ::
    "(string \<Rightarrow> string) \<Rightarrow> u64 \<Rightarrow> record_id \<Rightarrow> string \<Rightarrow> string \<Rightarrow> nat \<Rightarrow> u64 \<Rightarrow> service_record list \<Rightarrow> (service_error, unit) result" where
  "validate_history_loop sha256 state_revision tenant_id namespace key index prior_revision [] = Inr ()"
| "validate_history_loop sha256 state_revision tenant_id namespace key index prior_revision (r # rs) =
     rbind (ok_or (Option.bind (u64_try_from index) (\<lambda>i. checked_add i 1)) VUnavailable) (\<lambda>expected_version.
       if sl_tenant_id (sr_locator r) \<noteq> tenant_id \<or> sl_namespace (sr_locator r) \<noteq> namespace \<or> sl_key (sr_locator r) \<noteq> key
          \<or> sr_version r \<noteq> expected_version \<or> sr_store_revision r \<le> prior_revision \<or> sr_store_revision r > state_revision
          \<or> sr_bytes r = [] \<or> length (sr_bytes r) > MAX_SERVICE_RECORD_BYTES \<or> exact_digest sha256 (sr_bytes r) \<noteq> sr_digest r
       then Inl VUnavailable
       else validate_history_loop sha256 state_revision tenant_id namespace key (index + 1) (sr_store_revision r) rs)"

definition validate_record_history ::
    "(string \<Rightarrow> string) \<Rightarrow> u64 \<Rightarrow> record_id \<Rightarrow> string \<Rightarrow> string \<Rightarrow> service_record list \<Rightarrow> (service_error, unit) result" where
  "validate_record_history sha256 state_revision tenant_id namespace key history =
     validate_history_loop sha256 state_revision tenant_id namespace key 0 0 history"

definition service_history :: "committed_state \<Rightarrow> record_id \<Rightarrow> string \<Rightarrow> string \<Rightarrow> service_record list option" where
  "service_history st tenant_id namespace key =
     Option.bind (bt_get (st_tenants st) tenant_id) (\<lambda>t. bt_get (ts_service_records t) (namespace, key))"

definition history_get :: "service_record list \<Rightarrow> nat \<Rightarrow> service_record option" where
  "history_get history i = (if i < length history then Some (history ! i) else None)"

definition version_retained :: "committed_state \<Rightarrow> record_id \<Rightarrow> u64 \<Rightarrow> service_record_version \<Rightarrow> (service_error, unit) result" where
  "version_retained st tenant_id revision v =
     rbind (map_err (\<lambda>_. VUnavailable) (service_selector (rv_namespace v) MAX_SERVICE_NAMESPACE_BYTES False)) (\<lambda>_.
     rbind (map_err (\<lambda>_. VUnavailable) (service_selector (rv_key v) MAX_SERVICE_KEY_BYTES False)) (\<lambda>_.
       if rv_version v = 0 then Inl VUnavailable
       else rbind (ok_or (Option.bind (service_history st tenant_id (rv_namespace v) (rv_key v)) (\<lambda>history.
              history_get history (unat (rv_version v - 1)))) VUnavailable) (\<lambda>r.
         if sr_digest r \<noteq> rv_digest v \<or> sr_store_revision r \<noteq> revision then Inl VUnavailable else Inr ())))"

fun versions_retained ::
    "committed_state \<Rightarrow> record_id \<Rightarrow> u64 \<Rightarrow> service_record_version list \<Rightarrow> (service_error, unit) result" where
  "versions_retained st tenant_id revision [] = Inr ()"
| "versions_retained st tenant_id revision (v # vs) =
     rbind (version_retained st tenant_id revision v) (\<lambda>_. versions_retained st tenant_id revision vs)"

definition validate_idempotency_entry ::
    "(string \<Rightarrow> string) \<Rightarrow> committed_state \<Rightarrow> record_id \<Rightarrow> service_idempotency_entry \<Rightarrow> (service_error, unit) result" where
  "validate_idempotency_entry sha256 st tenant_id entry =
     (let receipt = ie_receipt entry
      in rbind (validate_response sha256 (sb_response receipt)) (\<lambda>_.
         if sb_replayed receipt \<or> sb_revision receipt = 0 \<or> sb_revision receipt > st_revision st \<or> sb_records receipt = []
            \<or> length (sb_records receipt) > MAX_SERVICE_BATCH_RECORDS
         then Inl VUnavailable
         else versions_retained st tenant_id (sb_revision receipt) (sb_records receipt)))"

subsection \<open>Reading\<close>

definition service_get_from_state ::
    "(string \<Rightarrow> string) \<Rightarrow> committed_state \<Rightarrow> service_record_locator \<Rightarrow> service_record_selection
      \<Rightarrow> (service_error, service_record option) result" where
  "service_get_from_state sha256 st locator selection =
     (case service_history st (sl_tenant_id locator) (sl_namespace locator) (sl_key locator) of
        None \<Rightarrow> Inr None
      | Some history \<Rightarrow>
          rbind (validate_record_history sha256 (st_revision st) (sl_tenant_id locator) (sl_namespace locator) (sl_key locator) history) (\<lambda>_.
            case selection of
              LatestVersion \<Rightarrow> Inr (if history = [] then None else Some (last history))
            | ExactVersion version \<Rightarrow>
                if version > 0 then Inr (history_get history (unat (version - 1))) else Inl VInvalidInput))"

record service_list_scope =
  lsc_tenant_id :: record_id
  lsc_namespace :: string
  lsc_key_prefix :: "string option"

definition list_scope_new :: "record_id \<Rightarrow> string \<Rightarrow> string option \<Rightarrow> (service_error, service_list_scope) result" where
  "list_scope_new tenant_id namespace key_prefix =
     rbind (service_selector namespace MAX_SERVICE_NAMESPACE_BYTES False) (\<lambda>_.
     rbind (case key_prefix of None \<Rightarrow> Inr () | Some p \<Rightarrow> service_selector p MAX_SERVICE_KEY_BYTES True) (\<lambda>_.
       Inr \<lparr>lsc_tenant_id = tenant_id, lsc_namespace = namespace, lsc_key_prefix = key_prefix\<rparr>))"

record service_list_cursor =
  lc_scope :: service_list_scope
  lc_revision :: u64
  lc_last_key :: string

definition list_cursor_resume :: "service_list_scope \<Rightarrow> u64 \<Rightarrow> string \<Rightarrow> (service_error, service_list_cursor) result" where
  "list_cursor_resume scope revision last_key =
     rbind (service_selector last_key MAX_SERVICE_KEY_BYTES False) (\<lambda>_.
       if revision = 0 \<or> (case lsc_key_prefix scope of None \<Rightarrow> False | Some p \<Rightarrow> \<not> prefix p last_key) then Inl VInvalidInput
       else Inr \<lparr>lc_scope = scope, lc_revision = revision, lc_last_key = last_key\<rparr>)"

record service_list_query =
  lq_scope :: service_list_scope
  lq_limit :: nat
  lq_cursor :: "service_list_cursor option"

definition validate_page_limit :: "nat \<Rightarrow> (service_error, unit) result" where
  "validate_page_limit limit = (if limit = 0 \<or> limit > MAX_SERVICE_PAGE_ITEMS then Inl VLimitExceeded else Inr ())"

definition list_query_new ::
    "service_list_scope \<Rightarrow> nat \<Rightarrow> service_list_cursor option \<Rightarrow> (service_error, service_list_query) result" where
  "list_query_new scope limit cursor =
     rbind (validate_page_limit limit) (\<lambda>_.
       if (case cursor of None \<Rightarrow> False | Some c \<Rightarrow> lc_scope c \<noteq> scope) then Inl VCursorScopeMismatch
       else Inr \<lparr>lq_scope = scope, lq_limit = limit, lq_cursor = cursor\<rparr>)"

record service_list_page =
  lp_revision :: u64
  lp_items :: "service_record list"
  lp_next :: "service_list_cursor option"

definition listed :: "committed_state \<Rightarrow> service_list_scope \<Rightarrow> string option \<Rightarrow> ((string \<times> string) \<times> service_record list) list" where
  "listed st scope after =
     filter (\<lambda>((namespace, key), history). namespace = lsc_namespace scope \<and> history \<noteq> [] \<and>
         (case lsc_key_prefix scope of None \<Rightarrow> True | Some p \<Rightarrow> prefix p key) \<and>
         (case after of None \<Rightarrow> True | Some a \<Rightarrow> key > a))
       (case bt_get (st_tenants st) (lsc_tenant_id scope) of None \<Rightarrow> [] | Some t \<Rightarrow> ts_service_records t)"

fun histories_valid :: "(string \<Rightarrow> string) \<Rightarrow> committed_state \<Rightarrow> service_list_scope \<Rightarrow> service_record list \<Rightarrow> (service_error, unit) result" where
  "histories_valid sha256 st scope [] = Inr ()"
| "histories_valid sha256 st scope (r # rs) =
     rbind (ok_or (service_history st (lsc_tenant_id scope) (lsc_namespace scope) (sl_key (sr_locator r))) VUnavailable) (\<lambda>history.
     rbind (validate_record_history sha256 (st_revision st) (lsc_tenant_id scope) (lsc_namespace scope) (sl_key (sr_locator r)) history) (\<lambda>_.
       histories_valid sha256 st scope rs))"

definition service_list_from_state ::
    "(string \<Rightarrow> string) \<Rightarrow> committed_state \<Rightarrow> service_list_query \<Rightarrow> (service_error, service_list_page) result" where
  "service_list_from_state sha256 st query =
     (if (case lq_cursor query of None \<Rightarrow> False | Some c \<Rightarrow> lc_scope c \<noteq> lq_scope query \<or> lc_revision c \<noteq> st_revision st)
      then Inl VCursorScopeMismatch
      else
        let found = take (lq_limit query + 1) (map (\<lambda>(_, history). last history)
              (listed st (lq_scope query) (map_option lc_last_key (lq_cursor query))))
        in rbind (histories_valid sha256 st (lq_scope query) found) (\<lambda>_.
             let items = take (lq_limit query) found
             in Inr \<lparr>lp_revision = st_revision st, lp_items = items,
                  lp_next = (if length found > lq_limit query \<and> items \<noteq> []
                    then Some \<lparr>lc_scope = lq_scope query, lc_revision = st_revision st,
                           lc_last_key = sl_key (sr_locator (last items))\<rparr>
                    else None)\<rparr>))"

subsection \<open>Recovery\<close>

record effect_recovery_cursor =
  ec_tenant_id :: record_id
  ec_revision :: u64
  ec_last_effect_id :: record_id

definition effect_cursor_resume :: "record_id \<Rightarrow> u64 \<Rightarrow> record_id \<Rightarrow> (service_error, effect_recovery_cursor) result" where
  "effect_cursor_resume tenant_id revision last_effect_id =
     (if revision = 0 then Inl VInvalidInput
      else Inr \<lparr>ec_tenant_id = tenant_id, ec_revision = revision, ec_last_effect_id = last_effect_id\<rparr>)"

record effect_recovery_query =
  eq_tenant_id :: record_id
  eq_limit :: nat
  eq_cursor :: "effect_recovery_cursor option"

definition effect_query_new ::
    "record_id \<Rightarrow> nat \<Rightarrow> effect_recovery_cursor option \<Rightarrow> (service_error, effect_recovery_query) result" where
  "effect_query_new tenant_id limit cursor =
     rbind (validate_page_limit limit) (\<lambda>_.
       if (case cursor of None \<Rightarrow> False | Some c \<Rightarrow> ec_tenant_id c \<noteq> tenant_id) then Inl VCursorScopeMismatch
       else Inr \<lparr>eq_tenant_id = tenant_id, eq_limit = limit, eq_cursor = cursor\<rparr>)"

record effect_recovery_item =
  ei_record :: effect_record_envelope
  ei_latest_event :: "effect_journal_event option"

record effect_recovery_page =
  ep_revision :: u64
  ep_items :: "effect_recovery_item list"
  ep_next :: "effect_recovery_cursor option"

definition recovery_items :: "tenant_state \<Rightarrow> record_id option \<Rightarrow> effect_recovery_item list" where
  "recovery_items t after = map (\<lambda>(effect_id, envelope). \<lparr>ei_record = envelope, ei_latest_event =
       Option.bind (bt_get (ts_effects t) effect_id) (\<lambda>events. if events = [] then None else Some (last events))\<rparr>)
     (filter (\<lambda>(effect_id, envelope). case after of None \<Rightarrow> True | Some a \<Rightarrow> effect_id > a) (ts_effect_records t))"

definition effect_recovery_from_state ::
    "(string \<Rightarrow> string) \<Rightarrow> committed_state \<Rightarrow> effect_recovery_query \<Rightarrow> (service_error, effect_recovery_page) result" where
  "effect_recovery_from_state sha256 st query =
     (if (case eq_cursor query of None \<Rightarrow> False | Some c \<Rightarrow> ec_tenant_id c \<noteq> eq_tenant_id query \<or> ec_revision c \<noteq> st_revision st)
      then Inl VCursorScopeMismatch
      else
        let t = bt_get (st_tenants st) (eq_tenant_id query);
            found = take (eq_limit query + 1)
              (case t of None \<Rightarrow> [] | Some t \<Rightarrow> recovery_items t (map_option ec_last_effect_id (eq_cursor query)))
        in if list_ex (\<lambda>i. exact_digest sha256 (ev_bytes (ei_record i)) \<noteq> ev_record_digest (ei_record i) \<or>
                (case t of None \<Rightarrow> True
                 | Some t \<Rightarrow> bt_get (ts_effect_records t) (ev_effect_id (ei_record i)) \<noteq> Some (ei_record i))) found
           then Inl VUnavailable
           else let items = take (eq_limit query) found
             in Inr \<lparr>ep_revision = st_revision st, ep_items = items,
                  ep_next = (if length found > eq_limit query \<and> items \<noteq> []
                    then Some \<lparr>ec_tenant_id = eq_tenant_id query, ec_revision = st_revision st,
                           ec_last_effect_id = ev_effect_id (ei_record (last items))\<rparr>
                    else None)\<rparr>)"

record outbox_recovery_cursor =
  oc_tenant_id :: record_id
  oc_revision :: u64
  oc_last_causal_revision :: u64
  oc_last_message_id :: record_id

definition outbox_cursor_resume ::
    "record_id \<Rightarrow> u64 \<Rightarrow> u64 \<Rightarrow> record_id \<Rightarrow> (service_error, outbox_recovery_cursor) result" where
  "outbox_cursor_resume tenant_id revision last_causal_revision last_message_id =
     (if revision = 0 \<or> last_causal_revision = 0 \<or> last_causal_revision > revision then Inl VInvalidInput
      else Inr \<lparr>oc_tenant_id = tenant_id, oc_revision = revision, oc_last_causal_revision = last_causal_revision,
             oc_last_message_id = last_message_id\<rparr>)"

record outbox_recovery_query =
  oq_tenant_id :: record_id
  oq_limit :: nat
  oq_cursor :: "outbox_recovery_cursor option"

definition outbox_query_new ::
    "record_id \<Rightarrow> nat \<Rightarrow> outbox_recovery_cursor option \<Rightarrow> (service_error, outbox_recovery_query) result" where
  "outbox_query_new tenant_id limit cursor =
     rbind (validate_page_limit limit) (\<lambda>_.
       if (case cursor of None \<Rightarrow> False | Some c \<Rightarrow> oc_tenant_id c \<noteq> tenant_id) then Inl VCursorScopeMismatch
       else Inr \<lparr>oq_tenant_id = tenant_id, oq_limit = limit, oq_cursor = cursor\<rparr>)"

record outbox_recovery_page =
  op_revision :: u64
  op_items :: "outbox_record list"
  op_next :: "outbox_recovery_cursor option"

text \<open>Wakeups are ordered by causal revision and then by message identity.\<close>

definition outbox_position :: "outbox_record \<Rightarrow> u64 \<times> record_id" where
  "outbox_position r = (or_causal_revision r, om_message_id (or_message r))"

definition outbox_recovery_from_state ::
    "committed_state \<Rightarrow> outbox_recovery_query \<Rightarrow> (service_error, outbox_recovery_page) result" where
  "outbox_recovery_from_state st query =
     (if (case oq_cursor query of None \<Rightarrow> False | Some c \<Rightarrow> oc_tenant_id c \<noteq> oq_tenant_id query \<or> oc_revision c \<noteq> st_revision st)
      then Inl VCursorScopeMismatch
      else
        let pending = filter (\<lambda>r. case oq_cursor query of None \<Rightarrow> True
                | Some c \<Rightarrow> outbox_position r > (oc_last_causal_revision c, oc_last_message_id c))
              (case bt_get (st_tenants st) (oq_tenant_id query) of None \<Rightarrow> [] | Some t \<Rightarrow> ts_outbox t)
        in if list_ex (\<lambda>r. \<not> is_ok (message_validate (or_message r))) pending then Inl VUnavailable
           else let found = take (oq_limit query + 1) (sort_key outbox_position pending);
                    items = take (oq_limit query) found
             in Inr \<lparr>op_revision = st_revision st, op_items = items,
                  op_next = (if length found > oq_limit query \<and> items \<noteq> []
                    then Some \<lparr>oc_tenant_id = oq_tenant_id query, oc_revision = st_revision st,
                           oc_last_causal_revision = or_causal_revision (last items),
                           oc_last_message_id = om_message_id (or_message (last items))\<rparr>
                    else None)\<rparr>)"

definition worker_get_from_state ::
    "(string \<Rightarrow> string) \<Rightarrow> committed_state \<Rightarrow> worker_locator \<Rightarrow> (service_error, worker_state option) result" where
  "worker_get_from_state sha256 st locator =
     (let worker = Option.bind (bt_get (st_tenants st) (wl_tenant_id locator)) (\<lambda>t. bt_get (ts_worker_states t) (wl_worker locator))
      in rbind (case worker of None \<Rightarrow> Inr () | Some w \<Rightarrow> validate_worker_state sha256 (st_revision st) locator w) (\<lambda>_. Inr worker))"

subsection \<open>Batches\<close>

definition service_entry :: "committed_state \<Rightarrow> record_id \<Rightarrow> service_idempotency option \<Rightarrow> (service_idempotency \<times> service_idempotency_entry) option" where
  "service_entry st tenant_id idempotency =
     Option.bind idempotency (\<lambda>i. Option.bind (bt_get (st_tenants st) tenant_id) (\<lambda>t.
       map_option (Pair i) (bt_get (ts_service_idempotency t) (vi_operation i, vi_key i))))"

definition retained_versions :: "tenant_state \<Rightarrow> nat" where
  "retained_versions t = sum_list (map length (bt_values (ts_service_records t)))"

definition validate_service_batch_retention :: "committed_state \<Rightarrow> service_batch \<Rightarrow> (service_error, unit) result" where
  "validate_service_batch_retention st b =
     (let t = (case bt_get (st_tenants st) (ba_tenant_id b) of None \<Rightarrow> tenant_default | Some t \<Rightarrow> t);
          new_keys = length (filter (\<lambda>w. bt_get (ts_service_records t) (sw_namespace w, sw_key w) = None) (ba_writes b))
      in if (ba_idempotency b \<noteq> None \<and> length (ts_service_idempotency t) \<ge> MAX_RETAINED_SERVICE_IDEMPOTENCY_ENTRIES)
            \<or> length (ts_service_records t) + new_keys > MAX_RETAINED_SERVICE_RECORD_KEYS
            \<or> retained_versions t + length (ba_writes b) > MAX_RETAINED_SERVICE_VERSIONS_PER_TENANT
            \<or> list_ex (\<lambda>w. (case bt_get (ts_service_records t) (sw_namespace w, sw_key w) of None \<Rightarrow> 0 | Some h \<Rightarrow> length h)
                 \<ge> MAX_RETAINED_SERVICE_VERSIONS_PER_KEY) (ba_writes b)
         then Inl VLimitExceeded else Inr ())"

definition validate_tenant_service_retention :: "service_sizes \<Rightarrow> tenant_state \<Rightarrow> (service_error, unit) result" where
  "validate_tenant_service_retention sizes t =
     (if length (ts_service_idempotency t) > MAX_RETAINED_SERVICE_IDEMPOTENCY_ENTRIES
         \<or> length (ts_service_records t) > MAX_RETAINED_SERVICE_RECORD_KEYS
         \<or> list_ex (\<lambda>h. length h > MAX_RETAINED_SERVICE_VERSIONS_PER_KEY) (bt_values (ts_service_records t))
         \<or> retained_versions t > MAX_RETAINED_SERVICE_VERSIONS_PER_TENANT
      then Inl VLimitExceeded
      else rbind (ok_or (sizes (ts_service_records t) (ts_service_idempotency t) (ts_worker_states t)) VUnavailable) (\<lambda>bytes.
        if bytes > MAX_RETAINED_SERVICE_STATE_BYTES then Inl VLimitExceeded else Inr ()))"

definition apply_write ::
    "(string \<Rightarrow> string) \<Rightarrow> u64 \<Rightarrow> u64 \<Rightarrow> record_id \<Rightarrow> service_record_write \<Rightarrow> tenant_state
      \<Rightarrow> (service_error, tenant_state \<times> service_record_version) result" where
  "apply_write sha256 latest_revision revision tenant_id w t =
     (let history = (case bt_get (ts_service_records t) (sw_namespace w, sw_key w) of None \<Rightarrow> [] | Some h \<Rightarrow> h)
      in rbind (validate_record_history sha256 latest_revision tenant_id (sw_namespace w) (sw_key w) history) (\<lambda>_.
         rbind (check_expected (sw_expected w) (if history = [] then None else Some (sr_version (last history)))) (\<lambda>_.
         rbind (ok_or (Option.bind (u64_try_from (length history)) (\<lambda>n. checked_add n 1)) VLimitExceeded) (\<lambda>version.
           let digest = exact_digest sha256 (sw_bytes w);
               r = \<lparr>sr_locator = \<lparr>sl_tenant_id = tenant_id, sl_namespace = sw_namespace w, sl_key = sw_key w\<rparr>,
                 sr_version = version, sr_store_revision = revision, sr_digest = digest, sr_bytes = sw_bytes w\<rparr>
           in Inr (t\<lparr>ts_service_records := bt_insert (sw_namespace w, sw_key w) (history @ [r]) (ts_service_records t)\<rparr>,
                \<lparr>rv_namespace = sw_namespace w, rv_key = sw_key w, rv_version = version, rv_digest = digest\<rparr>)))))"

fun apply_writes ::
    "(string \<Rightarrow> string) \<Rightarrow> u64 \<Rightarrow> u64 \<Rightarrow> record_id \<Rightarrow> service_record_write list \<Rightarrow> tenant_state
      \<Rightarrow> (service_error, tenant_state \<times> service_record_version list) result" where
  "apply_writes sha256 latest_revision revision tenant_id [] t = Inr (t, [])"
| "apply_writes sha256 latest_revision revision tenant_id (w # ws) t =
     rbind (apply_write sha256 latest_revision revision tenant_id w t) (\<lambda>(t', v).
     rbind (apply_writes sha256 latest_revision revision tenant_id ws t') (\<lambda>(t'', vs). Inr (t'', v # vs)))"

definition remember_response :: "service_idempotency option \<Rightarrow> service_batch_receipt \<Rightarrow> tenant_state \<Rightarrow> tenant_state" where
  "remember_response idempotency receipt t = (case idempotency of None \<Rightarrow> t
     | Some i \<Rightarrow> t\<lparr>ts_service_idempotency := bt_insert (vi_operation i, vi_key i)
         \<lparr>ie_request_digest = vi_request_digest i, ie_receipt = receipt\<rparr> (ts_service_idempotency t)\<rparr>)"

definition publish_batch ::
    "(string \<Rightarrow> string) \<Rightarrow> service_sizes \<Rightarrow> committed_state \<Rightarrow> service_batch
      \<Rightarrow> (service_error, committed_state \<times> service_batch_receipt) result" where
  "publish_batch sha256 sizes latest b =
     rbind (if (case ba_expected_store_revision b of None \<Rightarrow> False | Some e \<Rightarrow> e \<noteq> st_revision latest)
            then Inl VRevisionConflict else Inr ()) (\<lambda>_.
     rbind (validate_service_batch_retention latest b) (\<lambda>_.
     rbind (ok_or (checked_add (st_revision latest) 1) VLimitExceeded) (\<lambda>revision.
     rbind (apply_writes sha256 (st_revision latest) revision (ba_tenant_id b) (ba_writes b) (tenant_of latest (ba_tenant_id b))) (\<lambda>(t, versions).
       let receipt = \<lparr>sb_revision = revision, sb_records = versions, sb_response = ba_response b, sb_replayed = False\<rparr>;
           t' = remember_response (ba_idempotency b) receipt t
       in rbind (validate_tenant_service_retention sizes t') (\<lambda>_.
            Inr (\<lparr>st_revision = revision, st_tenants = bt_insert (ba_tenant_id b) t' (st_tenants latest)\<rparr>, receipt))))))"

definition apply_service_batch ::
    "(string \<Rightarrow> string) \<Rightarrow> service_sizes \<Rightarrow> committed_state \<Rightarrow> service_batch
      \<Rightarrow> (service_error, committed_state option \<times> service_batch_receipt) result" where
  "apply_service_batch sha256 sizes latest b =
     rbind (validate_writes (ba_writes b)) (\<lambda>_.
       case service_entry latest (ba_tenant_id b) (ba_idempotency b) of
         Some (i, entry) \<Rightarrow>
           rbind (validate_idempotency_entry sha256 latest (ba_tenant_id b) entry) (\<lambda>_.
             if ie_request_digest entry \<noteq> vi_request_digest i then Inl VIdempotencyConflict
             else Inr (None, (ie_receipt entry)\<lparr>sb_replayed := True\<rparr>))
       | None \<Rightarrow> rbind (publish_batch sha256 sizes latest b) (\<lambda>(next, receipt). Inr (Some next, receipt)))"

subsection \<open>Workers\<close>

definition apply_worker_update ::
    "(string \<Rightarrow> string) \<Rightarrow> committed_state \<Rightarrow> worker_locator \<Rightarrow> worker_update \<Rightarrow> (service_error, committed_state \<times> worker_state) result" where
  "apply_worker_update sha256 latest locator update =
     rbind (validate_worker_update update) (\<lambda>_.
     rbind (ok_or (checked_add (st_revision latest) 1) VLimitExceeded) (\<lambda>revision.
       let t = tenant_of latest (wl_tenant_id locator);
           current = bt_get (ts_worker_states t) (wl_worker locator)
       in rbind (case current of None \<Rightarrow> Inr () | Some w \<Rightarrow> validate_worker_state sha256 (st_revision latest) locator w) (\<lambda>_.
          rbind (transition_worker sha256 locator current update revision) (\<lambda>w.
            Inr (\<lparr>st_revision = revision, st_tenants = bt_insert (wl_tenant_id locator)
                   (t\<lparr>ts_worker_states := bt_insert (wl_worker locator) w (ts_worker_states t)\<rparr>) (st_tenants latest)\<rparr>, w)))))"

subsection \<open>The repository operations\<close>

definition latest_state :: "memory_store \<Rightarrow> service_error \<Rightarrow> (service_error, committed_state) result" where
  "latest_state s e = (if ms_history s = [] then Inl e else Inr (last (ms_history s)))"

definition selected_state :: "memory_store \<Rightarrow> u64 option \<Rightarrow> (service_error, committed_state) result" where
  "selected_state s revision = (case revision of
     Some r \<Rightarrow> ok_or (find (\<lambda>st. st_revision st = r) (ms_history s)) VNotFound
   | None \<Rightarrow> latest_state s VNotFound)"

fun service_error_of :: "store_error \<Rightarrow> service_error" where
  "service_error_of SInvalidContext = VInvalidInput"
| "service_error_of SInvalidRecord = VInvalidInput"
| "service_error_of SNotFound = VNotFound"
| "service_error_of SMixedSnapshot = VNotFound"
| "service_error_of SRevisionConflict = VRevisionConflict"
| "service_error_of SLimitExceeded = VLimitExceeded"
| "service_error_of SCancelled = VCancelled"
| "service_error_of SInjectedAbort = VInjectedAbort"
| "service_error_of SUnavailable = VUnavailable"

definition check_cancellation :: "bool \<Rightarrow> (service_error, unit) result" where
  "check_cancellation cancelled = map_err service_error_of (if cancelled then Inl SCancelled else Inr ())"

definition service_get ::
    "(string \<Rightarrow> string) \<Rightarrow> memory_store \<Rightarrow> service_record_locator \<Rightarrow> service_record_selection \<Rightarrow> bool
      \<Rightarrow> (service_error, service_record option) result" where
  "service_get sha256 s locator selection cancelled =
     rbind (check_cancellation cancelled) (\<lambda>_. rbind (latest_state s VUnavailable) (\<lambda>st.
       service_get_from_state sha256 st locator selection))"

definition service_list ::
    "(string \<Rightarrow> string) \<Rightarrow> memory_store \<Rightarrow> service_list_query \<Rightarrow> bool \<Rightarrow> (service_error, service_list_page) result" where
  "service_list sha256 s query cancelled =
     rbind (check_cancellation cancelled) (\<lambda>_. rbind (selected_state s (map_option lc_revision (lq_cursor query))) (\<lambda>st.
       service_list_from_state sha256 st query))"

definition effect_recovery ::
    "(string \<Rightarrow> string) \<Rightarrow> memory_store \<Rightarrow> effect_recovery_query \<Rightarrow> bool \<Rightarrow> (service_error, effect_recovery_page) result" where
  "effect_recovery sha256 s query cancelled =
     rbind (check_cancellation cancelled) (\<lambda>_. rbind (selected_state s (map_option ec_revision (eq_cursor query))) (\<lambda>st.
       effect_recovery_from_state sha256 st query))"

definition outbox_recovery ::
    "memory_store \<Rightarrow> outbox_recovery_query \<Rightarrow> bool \<Rightarrow> (service_error, outbox_recovery_page) result" where
  "outbox_recovery s query cancelled =
     rbind (check_cancellation cancelled) (\<lambda>_. rbind (selected_state s (map_option oc_revision (oq_cursor query))) (\<lambda>st.
       outbox_recovery_from_state st query))"

definition worker_get ::
    "(string \<Rightarrow> string) \<Rightarrow> memory_store \<Rightarrow> worker_locator \<Rightarrow> bool \<Rightarrow> (service_error, worker_state option) result" where
  "worker_get sha256 s locator cancelled =
     rbind (check_cancellation cancelled) (\<lambda>_. rbind (latest_state s VUnavailable) (\<lambda>st. worker_get_from_state sha256 st locator))"

text \<open>
  Publication: an injected fault aborts, otherwise the next state is appended. The cancellation token is tested again
  before publication.
\<close>

definition publish :: "memory_store \<Rightarrow> committed_state \<Rightarrow> 'a \<Rightarrow> bool \<Rightarrow> memory_store \<times> (service_error, 'a) result" where
  "publish s next result cancelled =
     (if cancelled then (s, Inl VCancelled)
      else if ms_fail_next_commit s then (s\<lparr>ms_fail_next_commit := False\<rparr>, Inl VInjectedAbort)
      else (s\<lparr>ms_history := ms_history s @ [next]\<rparr>, Inr result))"

definition service_commit ::
    "(string \<Rightarrow> string) \<Rightarrow> service_sizes \<Rightarrow> memory_store \<Rightarrow> service_batch \<Rightarrow> bool \<Rightarrow> bool
      \<Rightarrow> memory_store \<times> (service_error, service_batch_receipt) result" where
  "service_commit sha256 sizes s b cancelled cancelled_late =
     (case rbind (check_cancellation cancelled) (\<lambda>_. rbind (latest_state s VUnavailable) (\<lambda>latest.
             apply_service_batch sha256 sizes latest b)) of
        Inl e \<Rightarrow> (s, Inl e)
      | Inr (None, receipt) \<Rightarrow> (s, Inr receipt)
      | Inr (Some next, receipt) \<Rightarrow> publish s next receipt cancelled_late)"

definition worker_update ::
    "(string \<Rightarrow> string) \<Rightarrow> memory_store \<Rightarrow> worker_locator \<Rightarrow> worker_update \<Rightarrow> bool \<Rightarrow> bool
      \<Rightarrow> memory_store \<times> (service_error, worker_state) result" where
  "worker_update sha256 s locator update cancelled cancelled_late =
     (case rbind (check_cancellation cancelled) (\<lambda>_. rbind (latest_state s VUnavailable) (\<lambda>latest.
             apply_worker_update sha256 latest locator update)) of
        Inl e \<Rightarrow> (s, Inl e)
      | Inr (next, w) \<Rightarrow> publish s next w cancelled_late)"

text \<open>What an operation did to the store.\<close>

lemma publish_cases:
  obtains (refused) e where "publish s next r cancelled = (s, Inl e)"
  | (aborted) "publish s next r cancelled = (s\<lparr>ms_fail_next_commit := False\<rparr>, Inl VInjectedAbort)"
  | (accepted) "publish s next r cancelled = (s\<lparr>ms_history := ms_history s @ [next]\<rparr>, Inr r)"
  by (cases cancelled; cases "ms_fail_next_commit s") (auto simp: publish_def)

lemma service_commit_cases:
  obtains (refused) e where "service_commit sha256 sizes s b c c' = (s, Inl e)"
  | (aborted) "service_commit sha256 sizes s b c c' = (s\<lparr>ms_fail_next_commit := False\<rparr>, Inl VInjectedAbort)"
  | (replayed) receipt where "service_commit sha256 sizes s b c c' = (s, Inr receipt)" "ms_history s \<noteq> []"
      "apply_service_batch sha256 sizes (last (ms_history s)) b = Inr (None, receipt)"
  | (accepted) st receipt where "service_commit sha256 sizes s b c c' = (s\<lparr>ms_history := ms_history s @ [st]\<rparr>, Inr receipt)"
      "ms_history s \<noteq> []" "apply_service_batch sha256 sizes (last (ms_history s)) b = Inr (Some st, receipt)"
proof (cases "rbind (check_cancellation c) (\<lambda>_. rbind (latest_state s VUnavailable) (\<lambda>latest. apply_service_batch sha256 sizes latest b))")
  case (Inl e)
  then show thesis using refused by (simp add: service_commit_def)
next
  case (Inr r)
  then have latest: "ms_history s \<noteq> []" "apply_service_batch sha256 sizes (last (ms_history s)) b = Inr r"
    by (auto simp: latest_state_def result_simps split: if_splits)
  obtain o1 receipt where r: "r = (o1, receipt)" by (cases r)
  show thesis
  proof (cases o1)
    case None
    with Inr r latest show thesis using replayed by (simp add: service_commit_def)
  next
    case (Some st)
    with Inr r have "service_commit sha256 sizes s b c c' = publish s st receipt c'" by (simp add: service_commit_def)
    then show thesis using latest r Some refused aborted accepted by (cases rule: publish_cases [of s st receipt c']) simp_all
  qed
qed

lemma worker_update_cases:
  obtains (refused) e where "worker_update sha256 s locator u c c' = (s, Inl e)"
  | (aborted) "worker_update sha256 s locator u c c' = (s\<lparr>ms_fail_next_commit := False\<rparr>, Inl VInjectedAbort)"
  | (accepted) st w where "worker_update sha256 s locator u c c' = (s\<lparr>ms_history := ms_history s @ [st]\<rparr>, Inr w)"
      "ms_history s \<noteq> []" "apply_worker_update sha256 (last (ms_history s)) locator u = Inr (st, w)"
proof (cases "rbind (check_cancellation c) (\<lambda>_. rbind (latest_state s VUnavailable) (\<lambda>latest. apply_worker_update sha256 latest locator u))")
  case (Inl e)
  then show thesis using refused by (simp add: worker_update_def)
next
  case (Inr r)
  then have latest: "ms_history s \<noteq> []" "apply_worker_update sha256 (last (ms_history s)) locator u = Inr r"
    by (auto simp: latest_state_def result_simps split: if_splits)
  obtain st w where r: "r = (st, w)" by (cases r)
  with Inr have "worker_update sha256 s locator u c c' = publish s st w c'" by (simp add: worker_update_def)
  then show thesis using latest r refused aborted accepted by (cases rule: publish_cases [of s st w c']) simp_all
qed

text \<open>A tenant whose service fields alone differ.\<close>

definition services_only :: "tenant_state \<Rightarrow> tenant_state \<Rightarrow> bool" where
  "services_only t t' \<longleftrightarrow> (\<exists>x y z. t' = t\<lparr>ts_service_records := x, ts_service_idempotency := y, ts_worker_states := z\<rparr>)"

lemma services_only_refl [simp]: "services_only t t"
  unfolding services_only_def by (intro exI [of _ "ts_service_records t"] exI [of _ "ts_service_idempotency t"] exI [of _ "ts_worker_states t"]) simp

lemma services_only_trans:
  assumes "services_only t1 t2" "services_only t2 t3"
  shows "services_only t1 t3"
proof -
  obtain x y z where "t3 = t2\<lparr>ts_service_records := x, ts_service_idempotency := y, ts_worker_states := z\<rparr>"
    using assms(2) by (auto simp: services_only_def)
  with assms(1) show ?thesis by (auto simp: services_only_def intro!: exI [of _ x] exI [of _ y] exI [of _ z])
qed

lemma services_only_update:
  "services_only t (t\<lparr>ts_service_records := x\<rparr>)" "services_only t (t\<lparr>ts_service_idempotency := y\<rparr>)"
  "services_only t (t\<lparr>ts_worker_states := z\<rparr>)"
  unfolding services_only_def
  by (rule exI [of _ x], rule exI [of _ "ts_service_idempotency t"], rule exI [of _ "ts_worker_states t"], simp)
     (rule exI [of _ "ts_service_records t"], rule exI [of _ y], rule exI [of _ "ts_worker_states t"], simp,
      rule exI [of _ "ts_service_records t"], rule exI [of _ "ts_service_idempotency t"], rule exI [of _ z], simp)

lemma apply_writes_services_only:
  "apply_writes sha256 lr r tenant ws t = Inr (t', vs) \<Longrightarrow> services_only t t'"
proof (induction ws arbitrary: t vs)
  case (Cons w ws)
  from Cons.prems obtain t1 v vs' where step: "apply_write sha256 lr r tenant w t = Inr (t1, v)"
    "apply_writes sha256 lr r tenant ws t1 = Inr (t', vs')" by (auto simp: result_simps)
  from step(1) have "services_only t t1" by (auto simp: apply_write_def Let_def result_simps intro: services_only_update)
  with Cons.IH [OF step(2)] show ?case using services_only_trans by blast
qed simp

definition services_step :: "committed_state \<Rightarrow> committed_state \<Rightarrow> bool" where
  "services_step st st' \<longleftrightarrow> unat (st_revision st') = unat (st_revision st) + 1 \<and>
     (\<forall>tenant. services_only (tenant_of st tenant) (tenant_of st' tenant))"

lemma publish_batch_services:
  assumes "publish_batch sha256 sizes latest b = Inr (st, receipt)"
  shows "services_step latest st"
proof -
  from assms obtain revision t vs where "checked_add (st_revision latest) 1 = Some revision"
    and writes: "apply_writes sha256 (st_revision latest) revision (ba_tenant_id b) (ba_writes b) (tenant_of latest (ba_tenant_id b)) = Inr (t, vs)"
    and st: "st = \<lparr>st_revision = revision, st_tenants = bt_insert (ba_tenant_id b) (remember_response (ba_idempotency b) receipt t) (st_tenants latest)\<rparr>"
    by (auto simp: publish_batch_def Let_def result_simps)
  moreover have "services_only t (remember_response (ba_idempotency b) receipt t)"
    by (auto simp: remember_response_def intro: services_only_update split: option.splits)
  ultimately show ?thesis using services_only_trans [OF apply_writes_services_only [OF writes]]
    by (auto simp: services_step_def tenant_of_def bt_get_insert dest!: checked_add_one_SomeD)
qed

lemma apply_service_batch_services:
  "apply_service_batch sha256 sizes latest b = Inr (Some st, receipt) \<Longrightarrow> services_step latest st"
  by (auto simp: apply_service_batch_def result_simps split: option.splits prod.splits if_splits dest: publish_batch_services)

lemma apply_worker_update_services:
  assumes "apply_worker_update sha256 latest locator u = Inr (st, w)"
  shows "services_step latest st"
  using assms services_only_update(3) [of "tenant_of latest (wl_tenant_id locator)"]
  by (auto simp: apply_worker_update_def Let_def services_step_def tenant_of_def bt_get_insert result_simps dest!: checked_add_one_SomeD)

text \<open>One operation of the service repository, whatever its arguments and result.\<close>

definition service_op :: "memory_store \<Rightarrow> memory_store \<Rightarrow> bool" where
  "service_op s s' \<longleftrightarrow> (\<exists>sha256 sizes b c c' x. service_commit sha256 sizes s b c c' = (s', x)) \<or>
     (\<exists>sha256 locator u c c' x. worker_update sha256 s locator u c c' = (s', x))"

lemma service_op_history:
  assumes "service_op s s'"
  shows "ms_history s' = ms_history s \<or>
    (\<exists>st. ms_history s \<noteq> [] \<and> ms_history s' = ms_history s @ [st] \<and> services_step (last (ms_history s)) st)"
  using assms unfolding service_op_def
proof (elim disjE exE)
  fix sha256 sizes b c c' x
  assume "service_commit sha256 sizes s b c c' = (s', x)"
  then show ?thesis using apply_service_batch_services
    by (cases rule: service_commit_cases [of sha256 sizes s b c c']) auto
next
  fix sha256 locator u c c' x
  assume "worker_update sha256 s locator u c c' = (s', x)"
  then show ?thesis using apply_worker_update_services
    by (cases rule: worker_update_cases [of sha256 s locator u c c']) auto
qed

subsection \<open>The integrity check of a loaded state\<close>

fun first_error :: "('a \<Rightarrow> (service_error, unit) result) \<Rightarrow> 'a list \<Rightarrow> (service_error, unit) result" where
  "first_error f [] = Inr ()"
| "first_error f (x # xs) = rbind (f x) (\<lambda>_. first_error f xs)"

definition validate_tenant_services ::
    "(string \<Rightarrow> string) \<Rightarrow> service_sizes \<Rightarrow> committed_state \<Rightarrow> record_id \<times> tenant_state \<Rightarrow> (service_error, unit) result" where
  "validate_tenant_services sha256 sizes st x =
     (let (tenant_id, t) = x
      in rbind (validate_tenant_service_retention sizes t) (\<lambda>_.
         rbind (first_error (\<lambda>((namespace, key), history).
           validate_record_history sha256 (st_revision st) tenant_id namespace key history) (ts_service_records t)) (\<lambda>_.
         rbind (first_error (validate_idempotency_entry sha256 st tenant_id) (bt_values (ts_service_idempotency t))) (\<lambda>_.
           first_error (\<lambda>(worker, w). validate_worker_state sha256 (st_revision st)
             \<lparr>wl_tenant_id = tenant_id, wl_worker = worker\<rparr> w) (ts_worker_states t)))))"

definition validate_committed_service_state ::
    "(string \<Rightarrow> string) \<Rightarrow> service_sizes \<Rightarrow> committed_state \<Rightarrow> (service_error, unit) result" where
  "validate_committed_service_state sha256 sizes st =
     first_error (validate_tenant_services sha256 sizes st) (st_tenants st)"

end
