(* ===== verification/Paging.thy ===== *)
theory Paging
  imports Cigar_Prelude
begin

text \<open>
  Cursors. The stores answer bounded queries with a page and, when there is more, a cursor for the rest. The locale
  \<open>paged_query\<close> states what such an operation promises, and a reader that follows the cursors then sees every answer
  exactly once, in order, and stops. It is interpreted on each of the paged operations.
\<close>

fun follow :: "('c option \<Rightarrow> ('e, 'i list \<times> 'c option) result) \<Rightarrow> nat \<Rightarrow> 'c option \<Rightarrow> 'i list list option" where
  "follow page 0 cursor = None"
| "follow page (Suc fuel) cursor =
     (case page cursor of
        Inl e \<Rightarrow> None
      | Inr (items, next) \<Rightarrow> (case next of
            None \<Rightarrow> Some [items]
          | Some c \<Rightarrow> map_option ((#) items) (follow page fuel (Some c))))"

locale paged_query =
  fixes page :: "'s \<Rightarrow> 'c option \<Rightarrow> ('e, 'i list \<times> 'c option) result"
    and answers :: "'s \<Rightarrow> 'c option \<Rightarrow> 'i list"
    and size :: "'s \<Rightarrow> nat"
    and ready :: "'s \<Rightarrow> bool"
    and pinned :: "'s \<Rightarrow> 'c \<Rightarrow> bool"
  assumes size_pos: "ready s \<Longrightarrow> 0 < size s"
    and last_page: "ready s \<Longrightarrow> (\<And>c. cursor = Some c \<Longrightarrow> pinned s c) \<Longrightarrow> length (answers s cursor) \<le> size s \<Longrightarrow>
      page s cursor = Inr (answers s cursor, None)"
    and more_pages: "ready s \<Longrightarrow> (\<And>c. cursor = Some c \<Longrightarrow> pinned s c) \<Longrightarrow> length (answers s cursor) > size s \<Longrightarrow>
      \<exists>c. page s cursor = Inr (take (size s) (answers s cursor), Some c) \<and> pinned s c \<and>
        answers s (Some c) = drop (size s) (answers s cursor)"
begin

lemma follow_from:
  assumes "ready s" "\<And>c. cursor = Some c \<Longrightarrow> pinned s c" "length (answers s cursor) < fuel"
  shows "\<exists>ps. follow (page s) fuel cursor = Some ps \<and> concat ps = answers s cursor \<and> list_all (\<lambda>p. length p \<le> size s) ps"
  using assms(2,3)
proof (induction fuel arbitrary: cursor)
  case (Suc fuel)
  show ?case
  proof (cases "length (answers s cursor) \<le> size s")
    case True
    with last_page [OF assms(1) Suc.prems(1)] show ?thesis by simp
  next
    case False
    then obtain c where c: "page s cursor = Inr (take (size s) (answers s cursor), Some c)" "pinned s c"
      "answers s (Some c) = drop (size s) (answers s cursor)"
      using more_pages [OF assms(1) Suc.prems(1)] by (metis not_le)
    have "length (answers s (Some c)) < fuel" using Suc.prems(2) False size_pos [OF assms(1)] by (simp add: c(3))
    with Suc.IH [of "Some c"] c(2) obtain ps where "follow (page s) fuel (Some c) = Some ps"
      "concat ps = answers s (Some c)" "list_all (\<lambda>p. length p \<le> size s) ps" by auto
    with c(1,3) show ?thesis by simp
  qed
qed simp

lemma follow_all:
  assumes "ready s" "length (answers s None) < fuel"
  obtains ps where "follow (page s) fuel None = Some ps" "concat ps = answers s None" "\<forall>p \<in> set ps. length p \<le> size s"
proof -
  have "\<exists>ps. follow (page s) fuel None = Some ps \<and> concat ps = answers s None \<and> list_all (\<lambda>p. length p \<le> size s) ps"
    using assms by (intro follow_from) simp_all
  then show thesis using that unfolding list_all_iff by blast
qed

end

lemma last_take_member:
  assumes "0 < n" "n < length xs"
  shows "take n xs \<noteq> []" "last (take n xs) \<in> set xs"
proof -
  show "take n xs \<noteq> []" using assms by (cases xs) simp_all
  then show "last (take n xs) \<in> set xs" by (rule in_set_takeD [OF last_in_set])
qed

text \<open>The rest of a strictly ordered list after a position in it.\<close>

lemma filter_after_sorted:
  fixes key :: "'i \<Rightarrow> 'k::linorder"
  assumes "sorted_wrt (<) (map key xs)" "0 < n" "n \<le> length xs"
  shows "filter (\<lambda>x. key x > key (xs ! (n - 1))) xs = drop n xs"
proof -
  have le: "key x \<le> key (xs ! (n - 1))" if "x \<in> set (take n xs)" for x
  proof -
    from that obtain i where "i < n" "x = xs ! i" using assms(3) by (auto simp: in_set_conv_nth)
    with assms show ?thesis using sorted_wrt_nth_less [of "(<)" "map key xs" i "n - 1"]
      by (cases "i = n - 1") (auto simp: less_imp_le)
  qed
  have gt: "key (xs ! (n - 1)) < key x" if "x \<in> set (drop n xs)" for x
  proof -
    from that obtain i where "i < length xs - n" "x = xs ! (n + i)" by (auto simp: in_set_conv_nth)
    then have "n + i < length xs" "x = xs ! (n + i)" by simp_all
    with assms show ?thesis using sorted_wrt_nth_less [of "(<)" "map key xs" "n - 1" "n + i"] by auto
  qed
  have "filter (\<lambda>x. key x > key (xs ! (n - 1))) (take n xs) = []"
    "filter (\<lambda>x. key x > key (xs ! (n - 1))) (drop n xs) = drop n xs"
    using le gt by (auto simp: filter_empty_conv filter_id_conv not_less)
  then show ?thesis using filter_append [of _ "take n xs" "drop n xs"] by simp
qed

text \<open>A filter by a lower bound that is continued from its own last element.\<close>

lemma continue_after:
  fixes key :: "'i \<Rightarrow> 'k::linorder"
  assumes "sorted_wrt (<) (map key xs)" "0 < n" "n < length (filter (\<lambda>x. past x \<and> P x) xs)"
    and "past = (\<lambda>x. case bound of None \<Rightarrow> True | Some b \<Rightarrow> key x > b)"
  shows "filter (\<lambda>x. key x > key (last (take n (filter (\<lambda>x. past x \<and> P x) xs))) \<and> P x) xs = drop n (filter (\<lambda>x. past x \<and> P x) xs)"
proof -
  let ?ys = "filter (\<lambda>x. past x \<and> P x) xs"
  let ?l = "?ys ! (n - 1)"
  have last: "last (take n ?ys) = ?l" using assms(2,3) by (subst last_conv_nth) (auto simp: min_def)
  have "?l \<in> set ?ys" using assms(2,3) by (intro nth_mem) simp
  then have l: "past ?l" by simp
  have "sorted_wrt (<) (map key ?ys)" using assms(1) by (simp add: sorted_wrt_map sorted_wrt_filter)
  from filter_after_sorted [OF this assms(2)] assms(3) have "filter (\<lambda>x. key x > key ?l) ?ys = drop n ?ys" by simp
  moreover have "filter (\<lambda>x. key x > key ?l) ?ys = filter (\<lambda>x. key x > key ?l \<and> P x) xs"
    unfolding filter_filter using l unfolding assms(4)
    by (intro filter_cong) (auto split: option.splits)
  ultimately show ?thesis by (simp add: last)
qed

end
