(* ===== verification/Store_History.thy ===== *)
theory Store_History
  imports Store_Catalog Service_Store Paging
begin

text \<open>
  The in-memory store over time: the laws of optimistic commits its clients rely on (the locale \<open>repository\<close>,
  interpreted on the code of \<open>Memory_Store\<close>), the stores that write transactions reach, and what holds in every
  committed snapshot: catalogue, logs and records are sound, published records stay, commits are idempotent, reads by
  identity and pages are exact.
\<close>

subsection \<open>The repository contract\<close>

text \<open>
  A commit is refused, replayed or accepted. Only an accepted one changes what readers see: it was made at the latest
  revision and appends one snapshot, with a larger revision, holding the staged mutations of that tenant.
\<close>

locale repository =
  fixes commit_op :: "record_id \<Rightarrow> u64 \<Rightarrow> staged_mutation list \<Rightarrow> idempotency_identity option \<Rightarrow> 's
      \<Rightarrow> 's \<times> (store_error, commit_receipt) result"
    and history :: "'s \<Rightarrow> committed_state list"
  assumes refused: "commit_op tenant revision staged identity s = (s', Inl e) \<Longrightarrow> history s' = history s"
    and replayed: "commit_op tenant revision staged identity s = (s', Inr receipt) \<Longrightarrow> cr_replayed receipt \<Longrightarrow> history s' = history s"
    and accepted: "commit_op tenant revision staged identity s = (s', Inr receipt) \<Longrightarrow> \<not> cr_replayed receipt \<Longrightarrow>
      history s \<noteq> [] \<and> st_revision (last (history s)) = revision \<and>
      (\<exists>new t. history s' = history s @ [new] \<and> unat (st_revision new) = unat revision + 1 \<and>
         apply_mutations staged (st_revision new) (tenant_of (last (history s)) tenant) = Inr t \<and>
         (\<exists>i. tenant_of new tenant = t\<lparr>ts_idempotency := i\<rparr>) \<and>
         (\<forall>tn. tn \<noteq> tenant \<longrightarrow> tenant_of new tn = tenant_of (last (history s)) tn))"
begin

definition ordered :: "'s \<Rightarrow> bool" where
  "ordered s \<longleftrightarrow> sorted_wrt (<) (map st_revision (history s))"

lemma append_ordered:
  assumes "ordered s" "history s \<noteq> []" "history s' = history s @ [new]" "unat (st_revision new) = unat (st_revision (last (history s))) + 1"
  shows "ordered s'"
proof -
  have "st_revision h < st_revision new" if "h \<in> set (history s)" for h
  proof -
    obtain i where i: "i < length (history s)" "history s ! i = h" using \<open>h \<in> set (history s)\<close> unfolding in_set_conv_nth by blast
    have "st_revision h \<le> st_revision (last (history s))"
    proof (cases "i = length (history s) - 1")
      case True
      with i assms(2) show ?thesis by (simp add: last_conv_nth)
    next
      case False
      with i(1) have "i < length (history s) - 1" by linarith
      with assms(1,2) i sorted_wrt_nth_less [of "(<)" "map st_revision (history s)" i "length (history s) - 1"]
      show ?thesis by (simp add: ordered_def last_conv_nth less_imp_le)
    qed
    with assms(4) show ?thesis by (simp add: word_le_nat_alt word_less_nat_alt)
  qed
  with assms(1,3) show ?thesis by (auto simp: ordered_def sorted_wrt_append)
qed

lemma commit_ordered:
  assumes "commit_op tenant revision staged identity s = (s', x)" "ordered s"
  shows "ordered s'"
proof (cases x)
  case (Inl e)
  with assms refused show ?thesis by (fastforce simp: ordered_def)
next
  case (Inr receipt)
  show ?thesis
  proof (cases "cr_replayed receipt")
    case True
    with Inr assms replayed show ?thesis by (fastforce simp: ordered_def)
  next
    case False
    with accepted [of tenant revision staged identity s s' receipt] assms(1) Inr append_ordered [OF assms(2)] show ?thesis by auto
  qed
qed

lemma snapshot_is_latest:
  assumes "ordered s" "h \<in> set (history s)" "st_revision h = st_revision (last (history s))"
  shows "h = last (history s)"
proof -
  have "inj_on st_revision (set (history s))"
    using assms(1) by (simp add: ordered_def strict_sorted_iff distinct_map)
  moreover have "last (history s) \<in> set (history s)" using assms(2) by (cases "history s") auto
  ultimately show ?thesis using assms by (auto dest: inj_onD)
qed

text \<open>Optimistic concurrency: a commit against a snapshot is accepted only while that snapshot is the latest.\<close>

lemma accepted_at_snapshot:
  assumes "ordered s" "h \<in> set (history s)"
    and "commit_op tenant (st_revision h) staged identity s = (s', Inr receipt)" "\<not> cr_replayed receipt"
  obtains new t i where "h = last (history s)" "history s' = history s @ [new]"
    "apply_mutations staged (st_revision new) (tenant_of h tenant) = Inr t" "tenant_of new tenant = t\<lparr>ts_idempotency := i\<rparr>"
  using accepted [OF assms(3,4)] snapshot_is_latest [OF assms(1,2)] that by auto

end

interpretation mem_repo: repository commit ms_history
proof
  show "ms_history s' = ms_history s" if "commit tenant revision staged identity s = (s', Inl e)"
    for tenant revision staged identity s s' e
    by (cases rule: commit_cases [of tenant revision staged identity s]) (use that in auto)
  show "ms_history s' = ms_history s" if "commit tenant revision staged identity s = (s', Inr receipt)" "cr_replayed receipt"
    for tenant revision staged identity s s' receipt
    by (cases rule: commit_cases [of tenant revision staged identity s]) (use that in auto)
next
  fix tenant revision staged identity s s' receipt
  assume c: "commit tenant revision staged identity s = (s', Inr receipt)" "\<not> cr_replayed receipt"
  show "ms_history s \<noteq> [] \<and> st_revision (last (ms_history s)) = revision \<and>
      (\<exists>new t. ms_history s' = ms_history s @ [new] \<and> unat (st_revision new) = unat revision + 1 \<and>
         apply_mutations staged (st_revision new) (tenant_of (last (ms_history s)) tenant) = Inr t \<and>
         (\<exists>i. tenant_of new tenant = t\<lparr>ts_idempotency := i\<rparr>) \<and>
         (\<forall>tn. tn \<noteq> tenant \<longrightarrow> tenant_of new tn = tenant_of (last (ms_history s)) tn))"
  proof (cases rule: commit_cases [of tenant revision staged identity s])
    case (accepted st receipt')
    from accepted(5) obtain t i where "checked_add (st_revision (last (ms_history s))) 1 = Some (st_revision st)"
      "apply_mutations staged (st_revision st) (tenant_of (last (ms_history s)) tenant) = Inr t"
      "tenant_of st tenant = t\<lparr>ts_idempotency := i\<rparr>"
      "\<And>tn. tn \<noteq> tenant \<Longrightarrow> tenant_of st tn = tenant_of (last (ms_history s)) tn" by (rule next_state_InrD) (rule that)
    with accepted(1-3) c(1) checked_add_one_SomeD [OF this(1)] show ?thesis
      by (intro conjI exI [of _ st] exI [of _ t]) auto
  qed (use c in auto)
qed

subsection \<open>Transactions and what they reach\<close>

text \<open>
  A write transaction of a tenant and purpose stages records through the operations of \<open>WriteTransaction\<close>; the store
  evolves by commits of such transactions, at any revision, accepted or not, by operations of the service repository and
  by injected faults.
\<close>

inductive transaction :: "(string \<Rightarrow> string) \<Rightarrow> record_id \<Rightarrow> string \<Rightarrow> staged_mutation list \<Rightarrow> bool" for sha256 tenant purpose where
  begin_write: "transaction sha256 tenant purpose []"
| snapshot: "transaction sha256 tenant purpose staged \<Longrightarrow> stage_snapshot snapshot staged = Inr staged' \<Longrightarrow>
    transaction sha256 tenant purpose staged'"
| atoms: "transaction sha256 tenant purpose staged \<Longrightarrow> publish_atoms tenant atoms edges staged = Inr staged' \<Longrightarrow>
    transaction sha256 tenant purpose staged'"
| bundles: "transaction sha256 tenant purpose staged \<Longrightarrow> put_bundle b staged = Inr staged' \<Longrightarrow>
    transaction sha256 tenant purpose staged'"
| commits: "transaction sha256 tenant purpose staged \<Longrightarrow> append_context_commit purpose c staged = Inr staged' \<Longrightarrow>
    transaction sha256 tenant purpose staged'"
| events: "transaction sha256 tenant purpose staged \<Longrightarrow> append_effect_event event staged = Inr staged' \<Longrightarrow>
    transaction sha256 tenant purpose staged'"
| effect_records: "transaction sha256 tenant purpose staged \<Longrightarrow> put_effect_record envelope staged = Inr staged' \<Longrightarrow>
    transaction sha256 tenant purpose staged'"
| blobs: "transaction sha256 tenant purpose staged \<Longrightarrow> put_blob sha256 blob staged = Inr staged' \<Longrightarrow>
    transaction sha256 tenant purpose staged'"
| messages: "transaction sha256 tenant purpose staged \<Longrightarrow> enqueue_outbox message staged = Inr staged' \<Longrightarrow>
    transaction sha256 tenant purpose staged'"

inductive store_evolves :: "(string \<Rightarrow> string) \<Rightarrow> memory_store \<Rightarrow> memory_store \<Rightarrow> bool" for sha256 s0 where
  start: "store_evolves sha256 s0 s0"
| commits: "store_evolves sha256 s0 s \<Longrightarrow> transaction sha256 tenant purpose staged \<Longrightarrow>
    commit tenant revision staged identity s = (s', x) \<Longrightarrow> store_evolves sha256 s0 s'"
| services: "store_evolves sha256 s0 s \<Longrightarrow> service_op s s' \<Longrightarrow> store_evolves sha256 s0 s'"
| fault: "store_evolves sha256 s0 s \<Longrightarrow> store_evolves sha256 s0 (s\<lparr>ms_fail_next_commit := b\<rparr>)"

lemma store_evolves_trans: "store_evolves sha256 s1 s2 \<Longrightarrow> store_evolves sha256 s0 s1 \<Longrightarrow> store_evolves sha256 s0 s2"
  by (induction rule: store_evolves.induct) (auto intro: store_evolves.intros)

lemma store_evolves_history:
  assumes "store_evolves sha256 s0 s"
  shows "prefix (ms_history s0) (ms_history s)"
  using assms
proof (induction rule: store_evolves.induct)
  case (commits s tenant purpose staged revision identity s' x)
  then show ?case by (cases rule: commit_cases [of tenant revision staged identity s]) (auto simp: prefix_def)
next
  case (services s s')
  then show ?case using service_op_history [OF services(2)] by (auto simp: prefix_def)
qed simp_all

lemma store_evolves_ordered:
  assumes "store_evolves sha256 s0 s" "mem_repo.ordered s0"
  shows "mem_repo.ordered s"
  using assms
proof (induction rule: store_evolves.induct)
  case commits
  then show ?case using mem_repo.commit_ordered by blast
next
  case (services s s')
  then show ?case using service_op_history [OF services(2)] mem_repo.append_ordered [of s s']
    by (auto simp: services_step_def mem_repo.ordered_def)
qed (simp_all add: mem_repo.ordered_def)

lemma store_default_ordered: "mem_repo.ordered store_default"
  by (simp add: mem_repo.ordered_def store_default_def)

text \<open>An invariant of tenants that mutations keep holds in every snapshot.\<close>

lemma store_evolves_invariant:
  assumes "store_evolves sha256 store_default s" "st \<in> set (ms_history s)"
    and "\<And>tenant. P tenant tenant_default" "\<And>tenant t i. P tenant t \<Longrightarrow> P tenant (t\<lparr>ts_idempotency := i\<rparr>)"
    and "\<And>tenant t x y z. P tenant t \<Longrightarrow> P tenant (t\<lparr>ts_service_records := x, ts_service_idempotency := y, ts_worker_states := z\<rparr>)"
    and "\<And>tenant purpose staged revision t t'. transaction sha256 tenant purpose staged \<Longrightarrow>
      apply_mutations staged revision t = Inr t' \<Longrightarrow> P tenant t \<Longrightarrow> P tenant t'"
  shows "P tenant (tenant_of st tenant)"
  using assms(1,2)
proof (induction arbitrary: st tenant rule: store_evolves.induct)
  case start
  then show ?case using assms(3) by (simp add: store_default_def tenant_of_def)
next
  case (commits s tn purpose staged revision identity s' x)
  show ?case
  proof (cases rule: commit_cases [of tn revision staged identity s])
    case (accepted new receipt)
    then have last: "last (ms_history s) \<in> set (ms_history s)" by simp
    obtain t i where t: "apply_mutations staged (st_revision new) (tenant_of (last (ms_history s)) tn) = Inr t"
      "tenant_of new tn = t\<lparr>ts_idempotency := i\<rparr>" "\<And>tn'. tn' \<noteq> tn \<Longrightarrow> tenant_of new tn' = tenant_of (last (ms_history s)) tn'"
      using next_state_InrD [OF accepted(5)] by metis
    have "P tenant (tenant_of new tenant)"
    proof (cases "tenant = tn")
      case True
      with t(2) assms(4) assms(6) [OF commits.hyps(2) t(1)] commits.IH [OF last] show ?thesis by simp
    next
      case False
      with t(3) commits.IH [OF last] show ?thesis by simp
    qed
    with accepted(1) commits show ?thesis by auto
  qed (use commits in auto)
next
  case (services s s')
  from service_op_history [OF services(2)] show ?case
  proof (elim disjE exE conjE)
    fix new
    assume "ms_history s \<noteq> []" "ms_history s' = ms_history s @ [new]" "services_step (last (ms_history s)) new"
    moreover from this(3) obtain x y z where "tenant_of new tenant =
        (tenant_of (last (ms_history s)) tenant)\<lparr>ts_service_records := x, ts_service_idempotency := y, ts_worker_states := z\<rparr>"
      unfolding services_step_def services_only_def by blast
    with \<open>ms_history s \<noteq> []\<close> services.IH assms(5) have "P tenant (tenant_of new tenant)" by simp
    ultimately show ?thesis using services by auto
  qed (use services in auto)
qed simp

subsection \<open>Only valid records are stored\<close>

fun mutation_valid :: "(string \<Rightarrow> string) \<Rightarrow> record_id \<Rightarrow> staged_mutation \<Rightarrow> bool" where
  "mutation_valid sha256 tenant (StagedSnapshot snapshot) \<longleftrightarrow> snapshot_validate snapshot = Inr ()"
| "mutation_valid sha256 tenant (StagedAtoms atoms edges) \<longleftrightarrow>
     list_all (\<lambda>a. atom_validate a = Inr () \<and> sc_tenant_id (ca_scope a) = tenant) atoms \<and>
     list_all (\<lambda>e. edge_validate e = Inr ()) edges"
| "mutation_valid sha256 tenant (StagedBundle b) \<longleftrightarrow> bundle_validate b = Inr ()"
| "mutation_valid sha256 tenant (StagedCommit c) \<longleftrightarrow> commit_validate c = Inr ()"
| "mutation_valid sha256 tenant (StagedEvent event) \<longleftrightarrow> event_validate event = Inr ()"
| "mutation_valid sha256 tenant (StagedRecord envelope) \<longleftrightarrow> True"
| "mutation_valid sha256 tenant (StagedBlob blob) \<longleftrightarrow> ''1220'' @ hex (sha256 (bl_bytes blob)) = br_digest (bl_reference blob)"
| "mutation_valid sha256 tenant (StagedOutbox message) \<longleftrightarrow> message_validate message = Inr ()"

lemma publishable_iff: "publishable tenant atoms = Inr u \<longleftrightarrow>
    list_all (\<lambda>a. atom_validate a = Inr () \<and> sc_tenant_id (ca_scope a) = tenant) atoms"
  by (induction tenant atoms rule: publishable.induct) (auto simp: result_simps)

lemma edges_valid_iff: "edges_valid edges = Inr u \<longleftrightarrow> list_all (\<lambda>e. edge_validate e = Inr ()) edges"
  by (induction edges rule: edges_valid.induct) (auto simp: result_simps)

lemmas staging_defs = stage_snapshot_def publish_atoms_def put_bundle_def append_context_commit_def append_effect_event_def
  put_effect_record_def put_blob_def enqueue_outbox_def

lemma transaction_valid: "transaction sha256 tenant purpose staged \<Longrightarrow> list_all (mutation_valid sha256 tenant) staged"
  by (induction rule: transaction.induct)
     (auto simp: staging_defs publishable_iff edges_valid_iff result_simps split: if_splits)

definition records_valid :: "(string \<Rightarrow> string) \<Rightarrow> record_id \<Rightarrow> tenant_state \<Rightarrow> bool" where
  "records_valid sha256 tenant t \<longleftrightarrow>
     (\<forall>a \<in> ran (bt_get (ts_atoms t)). atom_validate a = Inr () \<and> sc_tenant_id (ca_scope a) = tenant) \<and>
     (\<forall>e \<in> ran (bt_get (ts_edges t)). edge_validate e = Inr ()) \<and>
     (\<forall>b \<in> ran (bt_get (ts_bundles t)). bundle_validate b = Inr ()) \<and>
     (\<forall>s \<in> ran (bt_get (ts_snapshots t)). snapshot_validate s = Inr ()) \<and>
     (\<forall>cs \<in> ran (bt_get (ts_context_commits t)). list_all (\<lambda>c. commit_validate c = Inr ()) cs) \<and>
     (\<forall>es \<in> ran (bt_get (ts_effects t)). list_all (\<lambda>e. event_validate e = Inr ()) es) \<and>
     (\<forall>d b. bt_get (ts_blobs t) d = Some b \<longrightarrow> br_digest (bs_reference b) = d \<and>
        (\<exists>bytes. bs_bytes b = Some bytes \<and> ''1220'' @ hex (sha256 bytes) = d)) \<and>
     list_all (\<lambda>r. message_validate (or_message r) = Inr ()) (ts_outbox t)"

lemma insert_immutable_ran: "insert_immutable k v m = Inr m' \<Longrightarrow> ran (bt_get m') \<subseteq> insert v (ran (bt_get m))"
  by (erule insert_immutable_cases) (auto simp: bt_get_insert ran_def)

lemma apply_atom_valid:
  "apply_atom a t = Inr t' \<Longrightarrow> atom_validate a = Inr () \<Longrightarrow> sc_tenant_id (ca_scope a) = tenant \<Longrightarrow>
    records_valid sha256 tenant t \<Longrightarrow> records_valid sha256 tenant t'"
  by (auto simp: apply_atom_def records_valid_def result_simps dest!: insert_immutable_ran split: if_splits)

lemma apply_edge_valid:
  "apply_edge e t = Inr t' \<Longrightarrow> edge_validate e = Inr () \<Longrightarrow> records_valid sha256 tenant t \<Longrightarrow> records_valid sha256 tenant t'"
  by (auto simp: apply_edge_def records_valid_def result_simps dest!: insert_immutable_ran split: if_splits)

lemma ran_bt_insert_append:
  "ys \<in> ran (bt_get (bt_insert k (entries_at m k @ [x]) m)) \<Longrightarrow> ys \<in> ran (bt_get m) \<or> ys = [x] \<or> (\<exists>xs \<in> ran (bt_get m). ys = xs @ [x])"
  by (cases "bt_get m k") (auto simp: entries_at_def bt_get_insert ran_def split: if_splits)

lemma apply_mutation_valid:
  assumes "apply_mutation m revision t = Inr t'" "mutation_valid sha256 tenant m" "records_valid sha256 tenant t"
  shows "records_valid sha256 tenant t'"
proof (cases m)
  case (StagedAtoms atoms edges)
  with assms(1) obtain t1 where t1: "apply_all apply_atom atoms t = Inr t1" "apply_all apply_edge edges t1 = Inr t'"
    by (auto simp: result_simps)
  have "records_valid sha256 tenant t1" using assms(2,3) StagedAtoms
    by (intro apply_all_induct [OF t1(1), of "records_valid sha256 tenant"]) (auto simp: list_all_iff intro: apply_atom_valid)
  then show ?thesis using assms(2) StagedAtoms
    by (intro apply_all_induct [OF t1(2), of "records_valid sha256 tenant"]) (auto simp: list_all_iff intro: apply_edge_valid)
next
  case (StagedBlob blob)
  with assms(1) obtain blobs where "insert_immutable (br_digest (bl_reference blob)) (blob_in_memory blob) (ts_blobs t) = Inr blobs"
    "t' = t\<lparr>ts_blobs := blobs\<rparr>" by (auto simp: result_simps)
  then show ?thesis using assms(2,3) StagedBlob
    by (elim insert_immutable_cases) (auto simp: records_valid_def bt_get_insert blob_in_memory_def)
next
  case (StagedCommit c)
  with assms(1) have "t' = t\<lparr>ts_context_commits :=
      bt_insert (cm_space_id c) (entries_at (ts_context_commits t) (cm_space_id c) @ [c]) (ts_context_commits t)\<rparr>"
    by (auto simp: Let_def entries_at_def result_simps split: if_splits)
  with assms(2,3) StagedCommit show ?thesis by (auto simp: records_valid_def dest!: ran_bt_insert_append)
next
  case (StagedEvent e)
  with assms(1) have "t' = t\<lparr>ts_effects := bt_insert (je_effect_id e) (entries_at (ts_effects t) (je_effect_id e) @ [e]) (ts_effects t)\<rparr>"
    by (auto simp: Let_def entries_at_def result_simps split: if_splits)
  with assms(2,3) StagedEvent show ?thesis by (auto simp: records_valid_def dest!: ran_bt_insert_append)
qed (use assms in \<open>auto simp: records_valid_def result_simps dest!: insert_immutable_ran split: if_splits\<close>)

lemma records_valid_default [simp]: "records_valid sha256 tenant tenant_default"
  by (simp add: records_valid_def tenant_default_def)

lemma records_valid_idempotency [simp]:
  "records_valid sha256 tenant (t\<lparr>ts_idempotency := i\<rparr>) \<longleftrightarrow> records_valid sha256 tenant t"
  by (simp add: records_valid_def)

lemma records_valid_services [simp]:
  "records_valid sha256 tenant (t\<lparr>ts_service_records := x, ts_service_idempotency := y, ts_worker_states := z\<rparr>) \<longleftrightarrow>
    records_valid sha256 tenant t"
  by (simp add: records_valid_def)

lemma store_evolves_records_valid:
  assumes "store_evolves sha256 store_default s" "st \<in> set (ms_history s)"
  shows "records_valid sha256 tenant (tenant_of st tenant)"
  using assms
proof (rule store_evolves_invariant)
  fix tn purpose staged revision t t'
  assume "transaction sha256 tn purpose staged" "apply_mutations staged revision t = Inr t'" "records_valid sha256 tn t"
  then show "records_valid sha256 tn t'"
    by (elim apply_mutations_induct) (auto dest!: transaction_valid intro: apply_mutation_valid simp: list_all_iff)
qed simp_all

lemma store_evolves_catalog_sound:
  assumes "store_evolves sha256 store_default s" "st \<in> set (ms_history s)"
  shows "catalog_sound (tenant_of st tenant)" "logs_linked (tenant_of st tenant)"
  using store_evolves_invariant [OF assms, of "\<lambda>_. catalog_sound"] store_evolves_invariant [OF assms, of "\<lambda>_. logs_linked"]
  by (auto intro: apply_mutations_sound apply_mutations_linked)

subsection \<open>Snapshots only grow\<close>

definition grows :: "committed_state \<Rightarrow> committed_state \<Rightarrow> bool" where
  "grows st st' \<longleftrightarrow> (\<forall>tenant. extends (tenant_of st tenant) (tenant_of st' tenant) \<and>
     bt_get (ts_idempotency (tenant_of st tenant)) \<subseteq>\<^sub>m bt_get (ts_idempotency (tenant_of st' tenant)))"

lemma grows_refl: "grows st st"
  by (simp add: grows_def)

lemma grows_trans: "grows a b \<Longrightarrow> grows b c \<Longrightarrow> grows a c"
  unfolding grows_def using extends_trans map_le_trans by meson

text \<open>Mutations keep the idempotency entries and the service fields.\<close>

definition keeps :: "tenant_state \<Rightarrow> tenant_state \<Rightarrow> bool" where
  "keeps t t' \<longleftrightarrow> ts_idempotency t' = ts_idempotency t \<and> ts_service_records t' = ts_service_records t \<and>
     ts_service_idempotency t' = ts_service_idempotency t \<and> ts_worker_states t' = ts_worker_states t"

lemma keeps_refl: "keeps t t"
  by (simp add: keeps_def)

lemma keeps_trans: "keeps t1 t2 \<Longrightarrow> keeps t2 t3 \<Longrightarrow> keeps t1 t3"
  by (simp add: keeps_def)

lemma apply_atom_keeps: "apply_atom a t = Inr t' \<Longrightarrow> keeps t t'"
  by (auto simp: apply_atom_def keeps_def result_simps split: if_splits)

lemma apply_edge_keeps: "apply_edge e t = Inr t' \<Longrightarrow> keeps t t'"
  by (auto simp: apply_edge_def keeps_def result_simps split: if_splits)

lemma apply_mutation_keeps:
  assumes "apply_mutation m revision t = Inr t'"
  shows "keeps t t'"
proof (cases m)
  case (StagedAtoms atoms edges)
  with assms obtain t1 where t1: "apply_all apply_atom atoms t = Inr t1" "apply_all apply_edge edges t1 = Inr t'"
    by (auto simp: result_simps)
  have "keeps t t1" by (rule apply_all_induct [OF t1(1) keeps_refl]) (blast intro: keeps_trans apply_atom_keeps)
  then show ?thesis by (rule apply_all_induct [OF t1(2)]) (blast intro: keeps_trans apply_edge_keeps)
qed (use assms in \<open>auto simp: result_simps Let_def keeps_def split: if_splits\<close>)

lemma apply_mutations_keeps: "apply_mutations ms revision t = Inr t' \<Longrightarrow> keeps t t'"
  by (erule apply_mutations_induct) (auto intro: keeps_refl keeps_trans apply_mutation_keeps)

lemma next_state_remembers:
  assumes "next_state latest tenant staged idempotency = Inr (st, receipt)"
  obtains t where "apply_mutations staged (st_revision st) (tenant_of latest tenant) = Inr t"
    "tenant_of st tenant = remember idempotency receipt t" "ts_idempotency t = ts_idempotency (tenant_of latest tenant)"
proof -
  from assms obtain t where t: "apply_mutations staged (st_revision st) (tenant_of latest tenant) = Inr t"
    "tenant_of st tenant = remember idempotency receipt t"
    by (auto simp: next_state_def Let_def tenant_of_def bt_get_insert result_simps)
  moreover have "ts_idempotency t = ts_idempotency (tenant_of latest tenant)"
    using apply_mutations_keeps [OF t(1)] by (simp add: keeps_def)
  ultimately show thesis by (rule that)
qed

lemma recorded_iff: "recorded st tenant (Some identity) =
    map_option (\<lambda>entry. (ii_request_digest identity, entry)) (bt_get (ts_idempotency (tenant_of st tenant)) (ii_scope identity, ii_key identity))"
  by (cases "bt_get (st_tenants st) tenant") (simp_all add: recorded_def tenant_of_def tenant_default_def)

lemma next_state_grows:
  assumes "next_state latest tenant staged idempotency = Inr (st, receipt)" "recorded latest tenant idempotency = None"
  shows "grows latest st"
proof -
  obtain t where t: "apply_mutations staged (st_revision st) (tenant_of latest tenant) = Inr t"
    "tenant_of st tenant = remember idempotency receipt t" "ts_idempotency t = ts_idempotency (tenant_of latest tenant)"
    by (rule next_state_remembers [OF assms(1)])
  have "bt_get (ts_idempotency t) \<subseteq>\<^sub>m bt_get (ts_idempotency (remember idempotency receipt t))"
    using assms(2) t(3)
    by (cases idempotency) (auto simp: remember_def recorded_iff bt_get_insert map_le_def)
  moreover have "extends (tenant_of latest tenant) (remember idempotency receipt t)"
    using apply_mutations_extends [OF t(1)] remember_idempotency_only [of idempotency receipt t] by auto
  moreover have "tenant_of st tn = tenant_of latest tn" if "tn \<noteq> tenant" for tn
    using that next_state_InrD [OF assms(1)] by metis
  ultimately show ?thesis unfolding grows_def using t(2,3) by (metis extends_refl map_le_refl)
qed

lemma sorted_grows_last: "sorted_wrt grows xs \<Longrightarrow> h \<in> set xs \<Longrightarrow> grows h (last xs)"
  by (induction xs) (auto simp: grows_refl)

lemma services_only_extends: "services_only t t' \<Longrightarrow> extends t t' \<and> ts_idempotency t' = ts_idempotency t"
  by (auto simp: services_only_def extends_def)

lemma services_step_grows: "services_step st st' \<Longrightarrow> grows st st'"
  unfolding services_step_def grows_def using services_only_extends map_le_refl by metis

lemma store_evolves_grows:
  assumes "store_evolves sha256 s0 s" "sorted_wrt grows (ms_history s0)"
  shows "sorted_wrt grows (ms_history s)"
  using assms
proof (induction rule: store_evolves.induct)
  case (commits s tenant purpose staged revision identity s' x)
  show ?case
  proof (cases rule: commit_cases [of tenant revision staged identity s])
    case (accepted st receipt)
    have step: "grows (last (ms_history s)) st" by (rule next_state_grows [OF accepted(5,6)])
    have "grows h st" if "h \<in> set (ms_history s)" for h
    proof -
      have "grows h (last (ms_history s))" using commits.IH [OF commits.prems] that by (rule sorted_grows_last)
      with step grows_trans show ?thesis by blast
    qed
    with accepted(1) commits show ?thesis by (auto simp: sorted_wrt_append)
  qed (use commits in auto)
next
  case (services s s')
  from service_op_history [OF services(2)] show ?case
  proof (elim disjE exE conjE)
    fix new
    assume "ms_history s' = ms_history s @ [new]" "services_step (last (ms_history s)) new"
    moreover from this(2) have "grows h new" if "h \<in> set (ms_history s)" for h
      using sorted_grows_last [OF services.IH [OF services.prems] that] services_step_grows grows_trans by blast
    ultimately show ?thesis using services by (auto simp: sorted_wrt_append)
  qed (use services in auto)
qed simp_all

subsection \<open>Pages of atoms\<close>

definition of_kind :: "atom_kind option \<Rightarrow> context_atom \<Rightarrow> bool" where
  "of_kind kind a \<longleftrightarrow> (case kind of None \<Rightarrow> True | Some k \<Rightarrow> ca_kind a = k)"

definition matching :: "tenant_state \<Rightarrow> atom_kind option \<Rightarrow> version_id option \<Rightarrow> (version_id \<times> context_atom) list" where
  "matching t kind bound = filter (\<lambda>x. (case bound of None \<Rightarrow> True | Some b \<Rightarrow> fst x > b) \<and> of_kind kind (snd x)) (ts_atoms t)"

definition atom_page :: "committed_state \<times> record_id \<times> atom_kind option \<times> nat \<Rightarrow> atom_cursor option
    \<Rightarrow> (store_error, context_atom list \<times> atom_cursor option) result" where
  "atom_page q cursor = (case q of (st, tenant, kind, limit) \<Rightarrow>
     rbind (query_atoms st tenant kind limit cursor) (\<lambda>p. Inr (pg_items p, pg_next p)))"

definition atom_answers :: "committed_state \<times> record_id \<times> atom_kind option \<times> nat \<Rightarrow> atom_cursor option \<Rightarrow> context_atom list" where
  "atom_answers q cursor = (case q of (st, tenant, kind, limit) \<Rightarrow>
     map snd (matching (tenant_of st tenant) kind (map_option cu_last_version cursor)))"

definition atom_query_ready :: "committed_state \<times> record_id \<times> atom_kind option \<times> nat \<Rightarrow> bool" where
  "atom_query_ready q \<longleftrightarrow> (case q of (st, tenant, kind, limit) \<Rightarrow>
     keyed (ts_atoms (tenant_of st tenant)) \<and> 0 < limit \<and> limit \<le> MAX_QUERY_PAGE_ITEMS)"

lemma query_atoms_matching:
  assumes "0 < limit" "limit \<le> MAX_QUERY_PAGE_ITEMS" "\<And>c. cursor = Some c \<Longrightarrow> cu_revision c = st_revision st"
  shows "query_atoms st tenant kind limit cursor =
    (let found = matching (tenant_of st tenant) kind (map_option cu_last_version cursor); items = map snd (take limit found)
     in Inr \<lparr>pg_items = items, pg_next = (if length found > limit
          then Some \<lparr>cu_revision = st_revision st, cu_last_version = ca_version_id (last items)\<rparr> else None)\<rparr>)"
proof -
  let ?p = "\<lambda>(version, atom). (case cursor of None \<Rightarrow> True | Some c \<Rightarrow> version > cu_last_version c) \<and>
      (case kind of None \<Rightarrow> True | Some k \<Rightarrow> ca_kind atom = k)"
  have "(case bt_get (st_tenants st) tenant of None \<Rightarrow> [] | Some t \<Rightarrow> ts_atoms t) = ts_atoms (tenant_of st tenant)"
    by (simp add: tenant_of_def tenant_default_def split: option.splits)
  moreover have "matching (tenant_of st tenant) kind (map_option cu_last_version cursor) = filter ?p (ts_atoms (tenant_of st tenant))"
    unfolding matching_def by (intro filter_cong) (auto simp: of_kind_def split: option.splits)
  moreover have "\<not> (case cursor of None \<Rightarrow> False | Some c \<Rightarrow> cu_revision c \<noteq> st_revision st)"
    using assms(3) by (cases cursor) auto
  ultimately show ?thesis using assms(1,2) by (auto simp: query_atoms_def Let_def)
qed

lemma matching_next:
  assumes "keyed (ts_atoms t)" "0 < n" "n < length (matching t kind bound)"
  shows "matching t kind (Some (ca_version_id (last (map snd (take n (matching t kind bound)))))) = drop n (matching t kind bound)"
proof -
  let ?xs = "matching t kind bound"
  have sorted: "sorted_wrt (<) (map fst (ts_atoms t))" using assms(1) by (simp add: keyed_def bt_invar_def)
  note last = last_take_member [OF assms(2,3)]
  from last(2) have "last (take n ?xs) \<in> set (ts_atoms t)" unfolding matching_def by simp
  note version = keyed_member [OF assms(1) this]
  have "filter (\<lambda>x. fst x > fst (last (take n ?xs)) \<and> of_kind kind (snd x)) (ts_atoms t) = drop n ?xs"
    using continue_after [OF sorted assms(2), of "\<lambda>x. case bound of None \<Rightarrow> True | Some b \<Rightarrow> b < fst x" "\<lambda>x. of_kind kind (snd x)" bound]
      assms(3) unfolding matching_def by blast
  then show ?thesis unfolding last_map [OF last(1)] version matching_def [of t kind "Some _"] option.case .
qed

interpretation atom_query: paged_query atom_page atom_answers "\<lambda>q. snd (snd (snd q))" atom_query_ready "\<lambda>q c. cu_revision c = st_revision (fst q)"
proof
  fix q :: "committed_state \<times> record_id \<times> atom_kind option \<times> nat" and cursor :: "atom_cursor option"
  obtain st tenant kind limit where q: "q = (st, tenant, kind, limit)" by (cases q)
  assume ready: "atom_query_ready q"
  then show "0 < snd (snd (snd q))" by (simp add: q atom_query_ready_def)
  assume pinned: "\<And>c. cursor = Some c \<Longrightarrow> cu_revision c = st_revision (fst q)"
  from ready have keyed: "keyed (ts_atoms (tenant_of st tenant))" and limit: "0 < limit" "limit \<le> MAX_QUERY_PAGE_ITEMS"
    by (simp_all add: q atom_query_ready_def)
  note query = query_atoms_matching [OF limit, of cursor st tenant kind, unfolded Let_def]
  {
    assume "length (atom_answers q cursor) \<le> snd (snd (snd q))"
    then show "atom_page q cursor = Inr (atom_answers q cursor, None)"
      using pinned by (simp add: q atom_page_def atom_answers_def query)
  }
  {
    assume more: "snd (snd (snd q)) < length (atom_answers q cursor)"
    let ?c = "\<lparr>cu_revision = st_revision st, cu_last_version =
      ca_version_id (last (map snd (take limit (matching (tenant_of st tenant) kind (map_option cu_last_version cursor)))))\<rparr>"
    have "atom_page q cursor = Inr (take (snd (snd (snd q))) (atom_answers q cursor), Some ?c)"
      using pinned more by (simp add: q atom_page_def atom_answers_def query take_map)
    moreover have "atom_answers q (Some ?c) = drop (snd (snd (snd q))) (atom_answers q cursor)"
      using more matching_next [OF keyed limit(1)] by (simp add: q atom_answers_def drop_map)
    ultimately show "\<exists>c. atom_page q cursor = Inr (take (snd (snd (snd q))) (atom_answers q cursor), Some c) \<and>
        cu_revision c = st_revision (fst q) \<and> atom_answers q (Some c) = drop (snd (snd (snd q))) (atom_answers q cursor)"
      by (intro exI [of _ ?c]) (simp add: q)
  }
qed

subsection \<open>Properties\<close>

lemma begin_read_member: "begin_read s (Revision r) False = Inr st \<Longrightarrow> st \<in> set (ms_history s) \<and> st_revision st = r"
  by (auto simp: begin_read_def result_simps find_Some_iff)

lemma begin_read_in: "begin_read s selection False = Inr st \<Longrightarrow> st \<in> set (ms_history s)"
  by (cases selection) (auto simp: begin_read_def result_simps find_Some_iff split: if_splits)

lemma find_append_Some: "find P xs = Some x \<Longrightarrow> find P (xs @ ys) = Some x"
  by (induction xs) auto

lemma find_prefix: "find P xs = Some x \<Longrightarrow> prefix xs ys \<Longrightarrow> find P ys = Some x"
  by (auto simp: prefix_def find_append_Some)

lemma read_defs:
  "get_atom st tenant v = bt_get (ts_atoms (tenant_of st tenant)) v"
  "get_bundle st tenant v = bt_get (ts_bundles (tenant_of st tenant)) v"
  "get_snapshot st tenant i = bt_get (ts_snapshots (tenant_of st tenant)) i"
  "context_commits st tenant space = entries_at (ts_context_commits (tenant_of st tenant)) space"
  "get_effect st tenant effect = entries_at (ts_effects (tenant_of st tenant)) effect"
  "read_outbox st tenant = ts_outbox (tenant_of st tenant)"
  by (cases "bt_get (st_tenants st) tenant"; simp add: get_atom_def get_bundle_def get_snapshot_def context_commits_def
      get_effect_def read_outbox_def tenant_of_def tenant_default_def entries_at_def)+

lemma get_blob_tenant: "get_blob st tenant d =
    (case bt_get (ts_blobs (tenant_of st tenant)) d of None \<Rightarrow> Inr None
     | Some blob \<Rightarrow> rbind (blob_state_record blob) (\<lambda>found. case found of Some r \<Rightarrow> Inr (Some r) | None \<Rightarrow> Inl SUnavailable))"
  by (cases "bt_get (st_tenants st) tenant") (simp_all add: get_blob_def tenant_of_def tenant_default_def)

lemma grows_between:
  assumes "store_evolves sha256 store_default s" "st \<in> set (ms_history s)" "st' \<in> set (ms_history s)" "st_revision st \<le> st_revision st'"
  shows "grows st st'"
proof -
  have ordered: "sorted_wrt (<) (map st_revision (ms_history s))"
    using store_evolves_ordered [OF assms(1) store_default_ordered] by (simp add: mem_repo.ordered_def)
  have growing: "sorted_wrt grows (ms_history s)" using assms(1) by (rule store_evolves_grows) (simp add: store_default_def)
  from assms(2,3) obtain i j where ij: "i < length (ms_history s)" "st = ms_history s ! i" "j < length (ms_history s)" "st' = ms_history s ! j"
    by (auto simp: in_set_conv_nth)
  have "\<not> j < i" using sorted_wrt_nth_less [OF ordered, of j i] ij assms(4) by auto
  then consider "i = j" | "i < j" by linarith
  then show ?thesis
    using sorted_wrt_nth_less [OF growing, of i j] ij grows_refl by cases auto
qed

lemma extends_get: "extends t t' \<Longrightarrow> bt_get (ts_atoms t) v = Some a \<Longrightarrow> bt_get (ts_atoms t') v = Some a"
  "extends t t' \<Longrightarrow> bt_get (ts_bundles t) v = Some b \<Longrightarrow> bt_get (ts_bundles t') v = Some b"
  "extends t t' \<Longrightarrow> bt_get (ts_snapshots t) i = Some s \<Longrightarrow> bt_get (ts_snapshots t') i = Some s"
  "extends t t' \<Longrightarrow> bt_get (ts_blobs t) d = Some x \<Longrightarrow> bt_get (ts_blobs t') d = Some x"
  "extends t t' \<Longrightarrow> bt_get (ts_edges t) j = Some e \<Longrightarrow> bt_get (ts_edges t') j = Some e"
  unfolding extends_def map_le_def by (metis domI)+

text \<open>
  (C8) Snapshot isolation: a revision that was read once reads the same after any further transactions, and every
  snapshot at a later revision still holds, unchanged, the atoms, edges, bundles, source snapshots and blobs of an
  earlier one; commit logs, effect journals and the outbox only grow at their end.
\<close>

theorem published_records_are_immutable:
  assumes "store_evolves sha256 store_default s" "store_evolves sha256 s s'"
    and "begin_read s (Revision r) False = Inr st" "begin_read s' (Revision r') False = Inr st'" "r \<le> r'"
  shows "begin_read s' (Revision r) False = Inr st \<and>
    (\<forall>v a. get_atom st tenant v = Some a \<longrightarrow> get_atom st' tenant v = Some a) \<and>
    (\<forall>v b. get_bundle st tenant v = Some b \<longrightarrow> get_bundle st' tenant v = Some b) \<and>
    (\<forall>i x. get_snapshot st tenant i = Some x \<longrightarrow> get_snapshot st' tenant i = Some x) \<and>
    (\<forall>d b. get_blob st tenant d = Inr (Some b) \<longrightarrow> get_blob st' tenant d = Inr (Some b)) \<and>
    (\<forall>j e. bt_get (ts_edges (tenant_of st tenant)) j = Some e \<longrightarrow> bt_get (ts_edges (tenant_of st' tenant)) j = Some e) \<and>
    prefix (context_commits st tenant space) (context_commits st' tenant space) \<and>
    prefix (get_effect st tenant effect) (get_effect st' tenant effect) \<and> prefix (read_outbox st tenant) (read_outbox st' tenant)"
proof -
  have later: "store_evolves sha256 store_default s'" using assms(1,2) store_evolves_trans by blast
  have again: "begin_read s' (Revision r) False = Inr st"
    using assms(3) store_evolves_history [OF assms(2)] find_prefix by (auto simp: begin_read_def result_simps)
  have "grows st st'" using begin_read_member [OF again] begin_read_member [OF assms(4)] assms(5)
    by (intro grows_between [OF later]) auto
  then have ext: "extends (tenant_of st tenant) (tenant_of st' tenant)" by (simp add: grows_def)
  then have "prefix (entries_at (ts_context_commits (tenant_of st tenant)) space) (entries_at (ts_context_commits (tenant_of st' tenant)) space)"
    "prefix (entries_at (ts_effects (tenant_of st tenant)) effect) (entries_at (ts_effects (tenant_of st' tenant)) effect)"
    "prefix (ts_outbox (tenant_of st tenant)) (ts_outbox (tenant_of st' tenant))" by (simp_all add: extends_def)
  moreover have "get_blob st' tenant d = Inr (Some b)" if "get_blob st tenant d = Inr (Some b)" for d b
    using that extends_get(4) [OF ext, of d] by (auto simp: get_blob_tenant split: option.splits)
  ultimately show ?thesis using again extends_get(1,2,3,5) [OF ext] by (simp add: read_defs)
qed

text \<open>
  (C10) Idempotent commits: once a commit under a scope and key was answered, every later commit under the same scope and
  key, whatever it stages and at whatever revision, changes nothing. If it stages some record beside outbox messages, it
  returns the revision of the first receipt, marked as replayed, when its request digest is the same, and is refused
  otherwise; if it stages nothing, or outbox messages only, it is refused before the key is looked up.
\<close>

theorem commits_are_idempotent:
  assumes "store_evolves sha256 store_default s" "commit tenant revision staged (Some identity) s = (s1, Inr receipt)"
    and "store_evolves sha256 s1 s2" "ii_scope again = ii_scope identity" "ii_key again = ii_key identity"
    and "transaction sha256 tenant purpose staged"
  shows "commit tenant revision' staged' (Some again) s2 =
    (s2, if list_ex (\<lambda>m. \<not> is_outbox m) staged' \<and> ii_request_digest again = ii_request_digest identity
         then Inr \<lparr>cr_revision = cr_revision receipt, cr_replayed = True\<rparr> else Inl SInvalidRecord)"
proof -
  have s1: "store_evolves sha256 store_default s1" using assms(1,2,6) store_evolves.commits by blast
  have s2: "store_evolves sha256 store_default s2" using s1 assms(3) store_evolves_trans by blast
  have kept: "ms_history s \<noteq> []" "ms_history s1 \<noteq> []" "ms_history s2 \<noteq> []"
    using store_evolves_history [OF assms(1)] store_evolves_history [OF s1] store_evolves_history [OF s2] by (auto simp: store_default_def)
  let ?k = "(ii_scope identity, ii_key identity)"
  have first: "\<exists>r. cr_revision r = cr_revision receipt \<and>
      bt_get (ts_idempotency (tenant_of (last (ms_history s1)) tenant)) ?k = Some (ii_request_digest identity, r)"
  proof (cases rule: commit_cases [of tenant revision staged "Some identity" s])
    case (replayed r digest first)
    then have "s1 = s" "r = receipt" using assms(2) by auto
    with replayed(4,5) show ?thesis by (auto simp: recorded_iff)
  next
    case (accepted st r)
    then have "last (ms_history s1) = st" "r = receipt" using assms(2) by auto
    moreover from next_state_remembers [OF accepted(5)] obtain t where "tenant_of st tenant = remember (Some identity) r t" by metis
    ultimately show ?thesis by (simp add: remember_def bt_get_insert)
  qed (use assms(2) in auto)
  have "last (ms_history s1) \<in> set (ms_history s2)"
    using store_evolves_history [OF assms(3)] kept by (auto simp: prefix_def)
  then have "grows (last (ms_history s1)) (last (ms_history s2))"
    by (intro sorted_grows_last store_evolves_grows [OF s2]) (simp add: store_default_def)
  with first have "\<exists>r. cr_revision r = cr_revision receipt \<and>
      recorded (last (ms_history s2)) tenant (Some again) = Some (ii_request_digest again, ii_request_digest identity, r)"
    using assms(4,5) unfolding grows_def map_le_def by (simp add: recorded_iff) (metis domI)
  moreover have "staged' \<noteq> []" if "list_ex (\<lambda>m. \<not> is_outbox m) staged'" using that by auto
  ultimately show ?thesis using kept(3) by (auto simp: commit_def list_ex_iff list_all_iff)
qed

text \<open>
  (C9) In every committed snapshot the derivations form an acyclic graph over published atoms, the commits of a space and
  the events of an effect are numbered from one and linked to their predecessors, and outbox messages have distinct
  identities.
\<close>

theorem committed_logs_and_graph_are_sound:
  assumes "store_evolves sha256 store_default s" "begin_read s selection False = Inr st"
  shows "acyclic (derivations (bt_values (ts_edges (tenant_of st tenant)))) \<and>
    (\<forall>e \<in> set (bt_values (ts_edges (tenant_of st tenant))).
       get_atom st tenant (ed_from_version e) \<noteq> None \<and> get_atom st tenant (ed_to_version e) \<noteq> None) \<and>
    commits_linked (context_commits st tenant space) \<and> events_linked (get_effect st tenant effect) \<and>
    distinct (map (\<lambda>r. om_message_id (or_message r)) (read_outbox st tenant))"
  using store_evolves_catalog_sound [OF assms(1) begin_read_in [OF assms(2)], of tenant]
  by (simp add: read_defs catalog_sound_def graph_sound_def logs_linked_def)

text \<open>
  (C32) Whatever a write transaction staged, a committed snapshot holds only valid records: a published atom passes
  validation, belongs to the tenant and is stored under its own version; bundles, source snapshots, space commits and
  journal events are valid; a blob that is read has the digest it was asked for.
\<close>

theorem committed_records_are_valid:
  assumes "store_evolves sha256 store_default s" "begin_read s selection False = Inr st"
  shows "(\<forall>v a. get_atom st tenant v = Some a \<longrightarrow>
       atom_validate a = Inr () \<and> sc_tenant_id (ca_scope a) = tenant \<and> ca_version_id a = v) \<and>
    (\<forall>v b. get_bundle st tenant v = Some b \<longrightarrow> bundle_validate b = Inr ()) \<and>
    (\<forall>i x. get_snapshot st tenant i = Some x \<longrightarrow> snapshot_validate x = Inr ()) \<and>
    (\<forall>space. \<forall>c \<in> set (context_commits st tenant space). commit_validate c = Inr ()) \<and>
    (\<forall>effect. \<forall>e \<in> set (get_effect st tenant effect). event_validate e = Inr ()) \<and>
    (\<forall>d b. get_blob st tenant d = Inr (Some b) \<longrightarrow> ''1220'' @ hex (sha256 (bl_bytes b)) = d \<and> br_digest (bl_reference b) = d)"
proof -
  note st = begin_read_in [OF assms(2)]
  have "keyed (ts_atoms (tenant_of st tenant))"
    using store_evolves_catalog_sound(1) [OF assms(1) st] by (simp add: catalog_sound_def)
  note keyed = keyed_get [OF this]
  note valid = store_evolves_records_valid [OF assms(1) st, of tenant, unfolded records_valid_def]
  have "''1220'' @ hex (sha256 (bl_bytes b)) = d \<and> br_digest (bl_reference b) = d" if "get_blob st tenant d = Inr (Some b)" for d b
  proof -
    from that obtain blob bytes where "bt_get (ts_blobs (tenant_of st tenant)) d = Some blob" "bs_bytes blob = Some bytes"
      "b = \<lparr>bl_reference = bs_reference blob, bl_bytes = bytes\<rparr>"
      by (auto simp: get_blob_tenant blob_state_record_def blob_record_new_def result_simps split: option.splits if_splits)
    with valid show ?thesis by fastforce
  qed
  moreover have "\<forall>c \<in> set (context_commits st tenant space). commit_validate c = Inr ()" for space
    using valid by (auto simp: read_defs entries_at_def list_all_iff ranI split: option.splits)
  moreover have "\<forall>e \<in> set (get_effect st tenant effect). event_validate e = Inr ()" for effect
    using valid by (auto simp: read_defs entries_at_def list_all_iff ranI split: option.splits)
  moreover have "get_atom st tenant v = Some a \<longrightarrow> atom_validate a = Inr () \<and> sc_tenant_id (ca_scope a) = tenant \<and> ca_version_id a = v" for v a
    using valid ranI [of "bt_get (ts_atoms (tenant_of st tenant))" v a] keyed [of v a] unfolding read_defs by blast
  moreover have "get_bundle st tenant v = Some b \<longrightarrow> bundle_validate b = Inr ()" for v b
    using valid by (auto simp: read_defs dest: ranI)
  moreover have "get_snapshot st tenant i = Some x \<longrightarrow> snapshot_validate x = Inr ()" for i x
    using valid by (auto simp: read_defs dest: ranI)
  ultimately show ?thesis by blast
qed

text \<open>
  The search that guards a new derivation edge decides exactly whether the edge closes a cycle: whenever it answers,
  the answer is reachability in the stored derivation graph; it always answers when at most 100000 versions are
  derived from the end of the edge, and otherwise it can only report the limit.
\<close>

theorem derivation_search_is_exact:
  "(creates_derivation_cycle edges e = Inr b \<longrightarrow> (b \<longleftrightarrow> ed_kind e = DerivedFrom \<and>
      (ed_to_version e, ed_from_version e) \<in> (derivations (bt_values edges))\<^sup>*)) \<and>
   (card ((derivations (bt_values edges))\<^sup>* `` {ed_to_version e}) \<le> MAX_DERIVATION_VISITED \<longrightarrow>
      creates_derivation_cycle edges e \<noteq> Inl SLimitExceeded) \<and>
   creates_derivation_cycle edges e \<in> {Inr True, Inr False, Inl SLimitExceeded}"
  using creates_derivation_cycle_exact [of edges e b] creates_derivation_cycle_total [of edges e]
    creates_derivation_cycle_cases [of edges e] by (auto simp: closes_cycle_def)

text \<open>
  The by-identity and by-lineage indexes that publication maintains step by step are in every committed snapshot the
  ones a rebuild from the atoms alone computes, and the rebuild succeeds.
\<close>

theorem indexes_equal_rebuild:
  assumes "store_evolves sha256 store_default s" "begin_read s selection False = Inr st"
    and "length (ts_atoms (tenant_of st tenant)) \<le> MAX_LEGACY_ATOM_INDEX_REBUILD_ITEMS"
  shows "rebuild_atom_indexes (tenant_of st tenant) = Inr (tenant_of st tenant)"
  using store_evolves_catalog_sound(1) [OF assms(1) begin_read_in [OF assms(2)]] assms(3) by (rule rebuild_is_identity)

text \<open>
  Reading an active atom by identity never fails in a committed snapshot and returns exactly the atom published
  under that identity that is active and the newest of its lineage by observation time and version.
\<close>

theorem active_read_is_exact:
  assumes "store_evolves sha256 store_default s" "begin_read s selection False = Inr st"
  shows "\<exists>found. get_active_atom_by_id st tenant i = Inr found \<and>
    (\<forall>a. found = Some a \<longleftrightarrow> get_atom st tenant (ca_version_id a) = Some a \<and> ca_atom_id a = i \<and> ca_lifecycle a = Active \<and>
       (\<forall>v a'. get_atom st tenant v = Some a' \<longrightarrow> ca_lineage_id a' = ca_lineage_id a \<longrightarrow>
          te_observed_at (ca_temporal a') < te_observed_at (ca_temporal a) \<or>
          te_observed_at (ca_temporal a') = te_observed_at (ca_temporal a) \<and> ca_version_id a' \<le> ca_version_id a))"
proof -
  note sound = store_evolves_catalog_sound(1) [OF assms(1) begin_read_in [OF assms(2)], of tenant]
  let ?t = "tenant_of st tenant"
  note index = sound_atom_by_id [OF sound]
  have read: "get_active_atom_by_id st tenant i = rbind (atom_by_id ?t i) (\<lambda>found. case found of None \<Rightarrow> Inr None
      | Some (version, atom) \<Rightarrow> Inr (if ca_lifecycle atom = Active \<and>
            bt_get (ts_current_versions_by_lineage ?t) (ca_lineage_id atom) = Some version then Some atom else None))"
  proof (cases "bt_get (st_tenants st) tenant")
    case (Some t)
    then have "?t = t" by (simp add: tenant_of_def)
    with Some show ?thesis unfolding get_active_atom_by_id_def by (simp only: option.case)
  qed (simp add: get_active_atom_by_id_def tenant_of_def atom_by_id_def tenant_default_def)
  show ?thesis
  proof (cases "bt_get (ts_atom_versions_by_id ?t) i")
    case None
    then have "\<not> (bt_get (ts_atoms ?t) v = Some a \<and> ca_atom_id a = i)" for v a using index(2) [of i v] by auto
    with None show ?thesis by (auto simp: read index(1) read_defs)
  next
    case (Some v)
    then obtain a where a: "bt_get (ts_atoms ?t) v = Some a" "ca_atom_id a = i" using index(2) by blast
    have only: "b = a" if "bt_get (ts_atoms ?t) (ca_version_id b) = Some b" "ca_atom_id b = i" for b
      using that a Some index(2) [of i "ca_version_id b"] by auto
    have "ca_version_id a = v" using sound a(1) by (simp add: catalog_sound_def keyed_get)
    with a Some only show ?thesis by (auto simp: read index(1,3) read_defs not_newer_iff)
  qed
qed

text \<open>
  Following the cursors of a query ends, after at most one page more than there are matching atoms, and the pages
  together hold every atom of the snapshot of the requested kind exactly once, in version order, none longer than the
  limit.
\<close>

theorem pagination_is_complete:
  assumes "store_evolves sha256 store_default s" "begin_read s selection False = Inr st"
    and "0 < limit" "limit \<le> MAX_QUERY_PAGE_ITEMS" "length (ts_atoms (tenant_of st tenant)) < fuel"
  shows "\<exists>ps. follow (\<lambda>cursor. rbind (query_atoms st tenant kind limit cursor) (\<lambda>page. Inr (pg_items page, pg_next page))) fuel None = Some ps \<and>
    concat ps = filter (\<lambda>a. case kind of None \<Rightarrow> True | Some k \<Rightarrow> ca_kind a = k) (bt_values (ts_atoms (tenant_of st tenant))) \<and>
    distinct (concat ps) \<and> (\<forall>p \<in> set ps. length p \<le> limit)"
proof -
  let ?t = "tenant_of st tenant"
  have keyed: "keyed (ts_atoms ?t)"
    using store_evolves_catalog_sound(1) [OF assms(1) begin_read_in [OF assms(2)]] by (simp add: catalog_sound_def)
  have found: "atom_answers (st, tenant, kind, limit) None =
      filter (\<lambda>a. case kind of None \<Rightarrow> True | Some k \<Rightarrow> ca_kind a = k) (bt_values (ts_atoms ?t))"
    by (simp add: atom_answers_def matching_def bt_values_def filter_map comp_def of_kind_def)
  have "length (filter P (bt_values (ts_atoms ?t))) \<le> length (ts_atoms ?t)" for P
    using length_filter_le [of P "bt_values (ts_atoms ?t)"] by (simp add: bt_values_def)
  then have "length (atom_answers (st, tenant, kind, limit) None) < fuel" unfolding found using assms(5) by (rule le_less_trans)
  moreover have "atom_query_ready (st, tenant, kind, limit)" using keyed assms(3,4) by (simp add: atom_query_ready_def)
  ultimately obtain ps where ps: "follow (atom_page (st, tenant, kind, limit)) fuel None = Some ps"
    "concat ps = atom_answers (st, tenant, kind, limit) None" "\<forall>p \<in> set ps. length p \<le> limit"
    using atom_query.follow_all [of "(st, tenant, kind, limit)" fuel] by auto
  have "distinct (concat ps)" unfolding ps(2) found using keyed_distinct [OF keyed] by (rule distinct_filter)
  moreover have "atom_page (st, tenant, kind, limit) =
      (\<lambda>cursor. rbind (query_atoms st tenant kind limit cursor) (\<lambda>page. Inr (pg_items page, pg_next page)))"
    by (rule ext) (simp add: atom_page_def)
  ultimately show ?thesis using ps unfolding found by metis
qed

subsection \<open>A sample store\<close>

definition sample_atom :: "string \<Rightarrow> timestamp \<Rightarrow> context_atom" where
  "sample_atom version observed = \<lparr>ca_schema_version = \<lparr>sv_family = ''cigar.atom'', sv_major = 1\<rparr>, ca_atom_id = version,
     ca_lineage_id = ''l'', ca_version_id = version, ca_content_digest = ''d'', ca_kind = KDecision, ca_payload = InlineText ''p'',
     ca_source = \<lparr>sd_uri = ''u'', sd_relative_path = None, sd_revision = ''r'', sd_snapshot_digest = ''d''\<rparr>,
     ca_scope = \<lparr>sc_tenant_id = ''t'', sc_project_ids = [''p'']\<rparr>,
     ca_temporal = \<lparr>te_valid_from = 0, te_valid_until = None, te_observed_at = observed\<rparr>,
     ca_governance = \<lparr>gv_classification = Internal, gv_allowed_purposes = [''*''], gv_processor_constraints = [],
       gv_instruction_authority = Data\<rparr>,
     ca_quality = \<lparr>qu_confidence = 1, qu_coverage = 1, qu_authority = 1\<rparr>,
     ca_retrieval = \<lparr>rt_exact_terms = [], rt_lexical_enabled = True, rt_embedding_eligible = False\<rparr>,
     ca_lifecycle = Active, ca_superseded_by = None, ca_extensions = []\<rparr>"

definition sample_edge :: context_edge where
  "sample_edge = \<lparr>ed_schema_version = \<lparr>sv_family = ''cigar.edge'', sv_major = 1\<rparr>, ed_edge_id = ''e'', ed_from_version = ''b'',
     ed_to_version = ''a'', ed_kind = DerivedFrom, ed_provenance_digest = ''d'', ed_lifecycle = Active, ed_superseded_by = None,
     ed_extensions = []\<rparr>"

definition sample_identity :: idempotency_identity where
  "sample_identity = \<lparr>ii_scope = ''s'', ii_key = ''k'', ii_request_digest = ''q''\<rparr>"

definition sample_staged :: "staged_mutation list" where
  "sample_staged = [StagedAtoms [sample_atom ''a'' 1, sample_atom ''b'' 2] [sample_edge]]"

definition sample_snapshot :: committed_state where
  "sample_snapshot = \<lparr>st_revision = 1, st_tenants = [(''t'', tenant_default\<lparr>
     ts_atoms := [(''a'', sample_atom ''a'' 1), (''b'', sample_atom ''b'' 2)],
     ts_atom_versions_by_id := [(''a'', ''a''), (''b'', ''b'')], ts_current_versions_by_lineage := [(''l'', ''b'')],
     ts_edges := [(''e'', sample_edge)],
     ts_idempotency := [((''s'', ''k''), (''q'', \<lparr>cr_revision = 1, cr_replayed = False\<rparr>))]\<rparr>)]\<rparr>"

definition sample_store :: memory_store where
  "sample_store = \<lparr>ms_history = [\<lparr>st_revision = 0, st_tenants = []\<rparr>, sample_snapshot], ms_fail_next_commit = False\<rparr>"

lemma sample_atom_wf [simp]: "0 \<le> observed \<Longrightarrow> atom_wf (sample_atom version observed)"
  by (simp add: atom_wf_def sample_atom_def version_ok_def revision_ok_def sorted_set_ok_def string_set_ok_def extensions_ok_def
      catalog_limits)

lemma sample_atom_simps [simp]:
  "ca_version_id (sample_atom v t) = v" "ca_atom_id (sample_atom v t) = v" "ca_lineage_id (sample_atom v t) = ''l''"
  "te_observed_at (ca_temporal (sample_atom v t)) = t" "sc_tenant_id (ca_scope (sample_atom v t)) = ''t''"
  by (simp_all add: sample_atom_def)

lemma sample_transaction: "transaction (\<lambda>_. []) ''t'' ''p'' sample_staged"
proof (rule transaction.atoms [OF transaction.begin_write])
  have "edge_wf sample_edge" by (simp add: edge_wf_def sample_edge_def version_ok_def extensions_ok_def)
  then have "edges_valid [sample_edge] = Inr ()" "publishable ''t'' [sample_atom ''a'' 1, sample_atom ''b'' 2] = Inr ()"
    by (simp_all only: edges_valid_iff publishable_iff) simp_all
  then show "publish_atoms ''t'' [sample_atom ''a'' 1, sample_atom ''b'' 2] [sample_edge] [] = Inr sample_staged"
    by (simp only: publish_atoms_def sample_staged_def) simp
qed

lemmas commit_eval = commit_def store_default_def recorded_def next_state_def checked_add_def remember_def
  tenant_of_def tenant_default_def apply_atom_def insert_immutable_def update_current_lineage_def newer_def
  apply_edge_def creates_derivation_cycle_def derived_from_def bt_values_def MAX_DERIVATION_VISITED_def Let_def

lemma sample_commit: "commit ''t'' 0 sample_staged (Some sample_identity) store_default = (sample_store, Inr \<lparr>cr_revision = 1, cr_replayed = False\<rparr>)"
  by (simp add: commit_eval sample_staged_def sample_edge_def sample_identity_def sample_store_def sample_snapshot_def)

lemma sample_evolves: "store_evolves (\<lambda>_. []) store_default sample_store"
  by (rule store_evolves.commits [OF store_evolves.start sample_transaction sample_commit])

text \<open>A second transaction publishes a newer version of the same lineage.\<close>

definition sample_snapshot2 :: committed_state where
  "sample_snapshot2 = \<lparr>st_revision = 2, st_tenants = [(''t'', (tenant_of sample_snapshot ''t'')\<lparr>
     ts_atoms := [(''a'', sample_atom ''a'' 1), (''b'', sample_atom ''b'' 2), (''c'', sample_atom ''c'' 3)],
     ts_atom_versions_by_id := [(''a'', ''a''), (''b'', ''b''), (''c'', ''c'')],
     ts_current_versions_by_lineage := [(''l'', ''c'')]\<rparr>)]\<rparr>"

definition sample_store2 :: memory_store where
  "sample_store2 = \<lparr>ms_history = [\<lparr>st_revision = 0, st_tenants = []\<rparr>, sample_snapshot, sample_snapshot2], ms_fail_next_commit = False\<rparr>"

lemma sample_transaction2: "transaction (\<lambda>_. []) ''t'' ''p'' [StagedAtoms [sample_atom ''c'' 3] []]"
proof (rule transaction.atoms [OF transaction.begin_write])
  have "publishable ''t'' [sample_atom ''c'' 3] = Inr ()" by (simp only: publishable_iff) simp
  then show "publish_atoms ''t'' [sample_atom ''c'' 3] [] [] = Inr [StagedAtoms [sample_atom ''c'' 3] []]"
    by (simp only: publish_atoms_def) simp
qed

lemma sample_evolves2: "store_evolves (\<lambda>_. []) sample_store sample_store2"
proof (rule store_evolves.commits [OF store_evolves.start sample_transaction2])
  show "commit ''t'' 1 [StagedAtoms [sample_atom ''c'' 3] []] None sample_store = (sample_store2, Inr \<lparr>cr_revision = 2, cr_replayed = False\<rparr>)"
    by (simp add: commit_eval sample_store_def sample_store2_def sample_snapshot_def sample_snapshot2_def)
qed

lemmas sample_evolves_all = store_evolves_trans [OF sample_evolves2 sample_evolves]

lemma sample_reads:
  "begin_read sample_store (Revision 1) False = Inr sample_snapshot"
  "begin_read sample_store2 (Revision 2) False = Inr sample_snapshot2"
  "begin_read sample_store2 Latest False = Inr sample_snapshot2"
  by (simp_all add: begin_read_def sample_store_def sample_store2_def sample_snapshot_def sample_snapshot2_def)

lemma sample_tenant:
  "ts_atoms (tenant_of sample_snapshot ''t'') = [(''a'', sample_atom ''a'' 1), (''b'', sample_atom ''b'' 2)]"
  "ts_atoms (tenant_of sample_snapshot2 ''t'') = [(''a'', sample_atom ''a'' 1), (''b'', sample_atom ''b'' 2), (''c'', sample_atom ''c'' 3)]"
  "ts_edges (tenant_of sample_snapshot2 ''t'') = [(''e'', sample_edge)]"
  by (simp_all add: tenant_of_def sample_snapshot_def sample_snapshot2_def)

theorem published_records_are_immutable_witness: "get_atom sample_snapshot2 ''t'' ''a'' = Some (sample_atom ''a'' 1)"
proof -
  have "get_atom sample_snapshot ''t'' ''a'' = Some (sample_atom ''a'' 1)" by (simp add: read_defs sample_tenant)
  with published_records_are_immutable [OF sample_evolves sample_evolves2 sample_reads(1,2), of "''t''"] show ?thesis by simp
qed

theorem commits_are_idempotent_witness:
  "commit ''t'' 0 [StagedAtoms [] []] (Some sample_identity) sample_store2 =
     (sample_store2, Inr \<lparr>cr_revision = 1, cr_replayed = True\<rparr>)"
  using commits_are_idempotent [OF store_evolves.start sample_commit sample_evolves2 _ _ sample_transaction,
      of sample_identity 0 "[StagedAtoms [] []]"] by simp

theorem committed_logs_and_graph_are_sound_witness:
  "acyclic (derivations [sample_edge]) \<and> get_atom sample_snapshot2 ''t'' ''b'' \<noteq> None"
  using committed_logs_and_graph_are_sound [OF sample_evolves_all sample_reads(3), of "''t''"]
  by (simp add: sample_tenant bt_values_def sample_edge_def)

theorem committed_records_are_valid_witness: "atom_validate (sample_atom ''c'' 3) = Inr () \<and> ca_version_id (sample_atom ''c'' 3) = ''c''"
  using committed_records_are_valid [OF sample_evolves_all sample_reads(3), of "''t''"]
  by (simp only: read_defs sample_tenant) simp

theorem derivation_search_is_exact_witness:
  "creates_derivation_cycle [(''e'', sample_edge)] (sample_edge\<lparr>ed_from_version := ''a'', ed_to_version := ''b''\<rparr>) = Inr True \<and>
    (''b'', ''a'') \<in> (derivations [sample_edge])\<^sup>*"
proof -
  have "creates_derivation_cycle [(''e'', sample_edge)] (sample_edge\<lparr>ed_from_version := ''a'', ed_to_version := ''b''\<rparr>) = Inr True"
    by (simp add: commit_eval sample_edge_def)
  with derivation_search_is_exact [of "[(''e'', sample_edge)]" "sample_edge\<lparr>ed_from_version := ''a'', ed_to_version := ''b''\<rparr>" True]
  show ?thesis by (simp add: bt_values_def)
qed

theorem indexes_equal_rebuild_witness:
  "rebuild_atom_indexes (tenant_of sample_snapshot2 ''t'') = Inr (tenant_of sample_snapshot2 ''t'')"
  using indexes_equal_rebuild [OF sample_evolves_all sample_reads(3), of "''t''"]
  by (simp add: sample_tenant MAX_LEGACY_ATOM_INDEX_REBUILD_ITEMS_def)

theorem active_read_is_exact_witness: "get_active_atom_by_id sample_snapshot2 ''t'' ''a'' \<noteq> Inr (Some (sample_atom ''a'' 1))"
proof -
  have "get_atom sample_snapshot2 ''t'' ''c'' = Some (sample_atom ''c'' 3)" by (simp add: read_defs sample_tenant)
  moreover obtain found where "get_active_atom_by_id sample_snapshot2 ''t'' ''a'' = Inr found"
    "found = Some (sample_atom ''a'' 1) \<longrightarrow> (\<forall>v a'. get_atom sample_snapshot2 ''t'' v = Some a' \<longrightarrow> ca_lineage_id a' = ''l'' \<longrightarrow>
       te_observed_at (ca_temporal a') < 1 \<or> te_observed_at (ca_temporal a') = 1 \<and> ca_version_id a' \<le> ''a'')"
    using active_read_is_exact [OF sample_evolves_all sample_reads(3), of "''t''" "''a''"] by (metis sample_atom_simps(1,3,4))
  ultimately show ?thesis by fastforce
qed

theorem pagination_is_complete_witness:
  "\<exists>ps. follow (\<lambda>cursor. rbind (query_atoms sample_snapshot2 ''t'' None 2 cursor) (\<lambda>page. Inr (pg_items page, pg_next page))) 4 None = Some ps \<and> concat ps = [sample_atom ''a'' 1, sample_atom ''b'' 2, sample_atom ''c'' 3]"
  using pagination_is_complete [OF sample_evolves_all sample_reads(3), of 2 "''t''" 4 None]
  by (auto simp: sample_tenant bt_values_def MAX_QUERY_PAGE_ITEMS_def)

end
