(* ===== verification/Effect_System.thy ===== *)
theory Effect_System
  imports Effect_Engine Effect_Machine Store_History
begin

text \<open>
  The effect kernel over its repository: the interleaving of any number of engine operations on one store as a step
  relation over commits (with the laws of the locale \<open>repository\<close>), and the refinement of the state machine of
  \<open>Effect_Machine\<close>: what the store holds for an effect is always a record of a run, with the same connector calls.
\<close>

subsection \<open>Interleaved operations on one store\<close>

text \<open>
  Every engine operation reads snapshots and ends in at most two commits, so concurrent operations interleave at
  commits. \<open>store_run X effect_id s calls\<close>: the store \<open>s\<close> is reached from the empty one by commits of engine operations of
  tenant \<open>cx_tenant X\<close>, and \<open>calls\<close> are the connector calls committed for \<open>effect_id\<close>. An operation on the effect computed its
  successor from the record of some earlier snapshot \<open>h\<close>. Commits that do not touch the effect are arbitrary, the service
  repository is used at will, and a commit may be refused at any time.
\<close>

fun touches :: "record_id \<Rightarrow> staged_mutation \<Rightarrow> bool" where
  "touches effect_id (StagedEvent event) \<longleftrightarrow> je_effect_id event = effect_id"
| "touches effect_id (StagedRecord envelope) \<longleftrightarrow> ev_effect_id envelope = effect_id"
| "touches effect_id _ \<longleftrightarrow> False"

definition read_record :: "effect_ctx \<Rightarrow> record_id \<Rightarrow> committed_state \<Rightarrow> durable_effect_record \<Rightarrow> bool" where
  "read_record X effect_id h r \<longleftrightarrow> (\<exists>envelope authenticated. get_effect_record h (cx_tenant X) effect_id = Some envelope \<and>
     decode_authenticated_effect_record X envelope = Inr authenticated \<and> ar_record authenticated = r)"

inductive store_run :: "effect_ctx \<Rightarrow> record_id \<Rightarrow> memory_store \<Rightarrow> connector_call list \<Rightarrow> bool" for X effect_id where
  empty: "store_run X effect_id store_default []"
| prepares: "store_run X effect_id s calls \<Longrightarrow> in_effect_id intent = effect_id \<Longrightarrow>
    effect_intent_digest (cx_env X) intent = Inr d \<Longrightarrow> verify_record (cx_env X) (prepared_record intent d) = Inr () \<Longrightarrow>
    encode_record X (prepared_record intent d) = Inr envelope \<Longrightarrow> put_effect_record envelope [] = Inr staged \<Longrightarrow>
    commit (cx_tenant X) revision staged (Some identity) s = (s', Inr receipt) \<Longrightarrow> \<not> cr_replayed receipt \<Longrightarrow>
    store_run X effect_id s' calls"
| advances: "store_run X effect_id s calls \<Longrightarrow> h \<in> set (ms_history s) \<Longrightarrow> read_record X effect_id h prior \<Longrightarrow>
    act (cx_env X) a prior = Inr next \<Longrightarrow> verify_record (cx_env X) next = Inr () \<Longrightarrow> encode_record X next = Inr envelope \<Longrightarrow>
    stage_next envelope (last (de_journal next)) outbox = Inr staged \<Longrightarrow>
    commit (cx_tenant X) (st_revision h) staged identity s = (s', Inr receipt) \<Longrightarrow> \<not> cr_replayed receipt \<Longrightarrow>
    store_run X effect_id s' (calls @ calls_of a prior)"
| elsewhere: "store_run X effect_id s calls \<Longrightarrow> tenant \<noteq> cx_tenant X \<or> \<not> list_ex (touches effect_id) staged \<Longrightarrow>
    commit tenant revision staged identity s = (s', x) \<Longrightarrow> store_run X effect_id s' calls"
| refused: "store_run X effect_id s calls \<Longrightarrow> commit tenant revision staged identity s = (s', Inl e) \<Longrightarrow>
    store_run X effect_id s' calls"
| services: "store_run X effect_id s calls \<Longrightarrow> service_op s s' \<Longrightarrow> store_run X effect_id s' calls"
| fault: "store_run X effect_id s calls \<Longrightarrow> store_run X effect_id (s\<lparr>ms_fail_next_commit := b\<rparr>) calls"

text \<open>\<open>serde_json\<close> reads back what it wrote.\<close>

definition codec_sound :: "effect_ctx \<Rightarrow> bool" where
  "codec_sound X \<longleftrightarrow> (\<forall>sealed bytes. cx_sealed_json X sealed = Some bytes \<longrightarrow> cx_sealed_parse X bytes = Some sealed)"

lemma decode_encode:
  assumes "codec_sound X" "encode_record X r = Inr envelope"
  shows "\<exists>authenticated. decode_authenticated_effect_record X envelope = Inr authenticated \<and> ar_record authenticated = r"
    "ev_effect_id envelope = in_effect_id (de_intent r)" "ev_effect_version envelope = de_effect_version r"
proof -
  from assms(2) obtain canonical seal bytes d where
    json: "cx_sealed_json X \<lparr>ar_schema_version = AUTHENTICATED_RECORD_SCHEMA, ar_record = r, ar_seal = seal\<rparr> = Some bytes"
    and "seal_validate seal = Inr ()" "raw_multihash (cx_env X) bytes = Inr d"
    and new: "envelope_new (en_sha256 (cx_env X)) (in_effect_id (de_intent r)) (de_effect_version r) d bytes = Inr envelope"
    unfolding encode_record_def by (auto elim!: rbind_InrE simp: result_simps)
  moreover from new have env: "envelope = \<lparr>ev_effect_id = in_effect_id (de_intent r), ev_effect_version = de_effect_version r,
      ev_record_digest = d, ev_bytes = bytes\<rparr>"
    by (auto simp: envelope_new_def split: if_split_asm)
  moreover from json assms(1) have "cx_sealed_parse X bytes =
      Some \<lparr>ar_schema_version = AUTHENTICATED_RECORD_SCHEMA, ar_record = r, ar_seal = seal\<rparr>" by (simp add: codec_sound_def)
  ultimately show "\<exists>authenticated. decode_authenticated_effect_record X envelope = Inr authenticated \<and> ar_record authenticated = r"
    by (simp add: decode_authenticated_effect_record_def)
  from env show "ev_effect_id envelope = in_effect_id (de_intent r)" "ev_effect_version envelope = de_effect_version r" by simp_all
qed

lemma apply_all_effects:
  assumes "apply_all f xs t = Inr t'"
    and "\<And>x t t'. f x t = Inr t' \<Longrightarrow> ts_effects t' = ts_effects t \<and> ts_effect_records t' = ts_effect_records t"
  shows "ts_effects t' = ts_effects t \<and> ts_effect_records t' = ts_effect_records t"
  using assms(1)
proof (induction xs arbitrary: t)
  case (Cons x xs)
  then obtain u where "f x t = Inr u" "apply_all f xs u = Inr t'" by (auto simp: rbind_eq_Inr_iff)
  with Cons.IH [of u] assms(2) [of x t u] show ?case by simp
qed simp

lemma apply_atoms_effects:
  assumes "apply_mutation (StagedAtoms atoms edges) revision t = Inr t'"
  shows "ts_effects t' = ts_effects t" "ts_effect_records t' = ts_effect_records t"
proof -
  from assms obtain u where "apply_all apply_atom atoms t = Inr u" "apply_all apply_edge edges u = Inr t'"
    by (auto simp: rbind_eq_Inr_iff)
  moreover have "ts_effects t' = ts_effects t \<and> ts_effect_records t' = ts_effect_records t" if "apply_atom x t = Inr t'" for x t t'
    using that by (auto simp: apply_atom_def result_simps split: if_split_asm)
  moreover have "ts_effects t' = ts_effects t \<and> ts_effect_records t' = ts_effect_records t" if "apply_edge x t = Inr t'" for x t t'
    using that by (auto simp: apply_edge_def result_simps split: if_split_asm)
  ultimately show "ts_effects t' = ts_effects t" "ts_effect_records t' = ts_effect_records t"
    using apply_all_effects [of apply_atom atoms t u] apply_all_effects [of apply_edge edges u t'] by metis+
qed

lemma apply_untouched:
  assumes "apply_mutations staged revision t = Inr t'" "\<not> list_ex (touches effect_id) staged"
  shows "bt_get (ts_effects t') effect_id = bt_get (ts_effects t) effect_id"
    "bt_get (ts_effect_records t') effect_id = bt_get (ts_effect_records t) effect_id"
  using assms
proof (induction staged arbitrary: t)
  case (Cons m staged)
  case 1
  then obtain u where u: "apply_mutation m revision t = Inr u" "apply_mutations staged revision u = Inr t'"
    by (auto simp: rbind_eq_Inr_iff)
  then show ?case using 1 Cons.IH(1) [of u]
    by (cases m) (auto simp del: apply_mutation.simps(2) simp: apply_atoms_effects Let_def bt_get_insert result_simps split: if_split_asm)
next
  case (Cons m staged)
  case 2
  then obtain u where u: "apply_mutation m revision t = Inr u" "apply_mutations staged revision u = Inr t'"
    by (auto simp: rbind_eq_Inr_iff)
  then show ?case using 2 Cons.IH(2) [of u]
    by (cases m) (auto simp del: apply_mutation.simps(2) simp: apply_atoms_effects Let_def bt_get_insert result_simps split: if_split_asm)
qed simp_all

lemma get_effect_tenant:
  "get_effect_record h tenant effect_id = bt_get (ts_effect_records (tenant_of h tenant)) effect_id"
  "get_effect h tenant effect_id = (case bt_get (ts_effects (tenant_of h tenant)) effect_id of None \<Rightarrow> [] | Some es \<Rightarrow> es)"
  by (auto simp: get_effect_record_def get_effect_def tenant_of_def tenant_default_def split: option.split)

text \<open>What the latest snapshot says about the effect, as a state of the machine.\<close>

definition absent :: "effect_ctx \<Rightarrow> record_id \<Rightarrow> committed_state \<Rightarrow> bool" where
  "absent X effect_id h \<longleftrightarrow> get_effect_record h (cx_tenant X) effect_id = None \<and> get_effect h (cx_tenant X) effect_id = []"

definition holds :: "effect_ctx \<Rightarrow> record_id \<Rightarrow> committed_state \<Rightarrow> durable_effect_record \<Rightarrow> bool" where
  "holds X effect_id h r \<longleftrightarrow> read_record X effect_id h r \<and> in_effect_id (de_intent r) = effect_id \<and>
     get_effect h (cx_tenant X) effect_id = de_journal r"

definition represents :: "effect_ctx \<Rightarrow> record_id \<Rightarrow> committed_state \<Rightarrow> connector_call list \<Rightarrow> bool" where
  "represents X effect_id h calls \<longleftrightarrow> (absent X effect_id h \<and> calls = []) \<or>
     (\<exists>r. holds X effect_id h r \<and> effect_run (cx_env X) (de_intent r) r calls)"

lemma read_record_unique: "read_record X effect_id h r \<Longrightarrow> read_record X effect_id h r' \<Longrightarrow> r = r'"
  by (auto simp: read_record_def)

lemma represents_cong:
  assumes "get_effect_record h' (cx_tenant X) effect_id = get_effect_record h (cx_tenant X) effect_id"
    "get_effect h' (cx_tenant X) effect_id = get_effect h (cx_tenant X) effect_id"
  shows "represents X effect_id h' calls = represents X effect_id h calls"
  using assms by (simp add: represents_def absent_def holds_def read_record_def)

lemma represents_prepared:
  assumes "codec_sound X" "represents X effect_id h calls" "in_effect_id intent = effect_id"
    and "effect_intent_digest (cx_env X) intent = Inr d" "verify_record (cx_env X) (prepared_record intent d) = Inr ()"
    and enc: "encode_record X (prepared_record intent d) = Inr envelope"
    and app: "apply_mutations [StagedRecord envelope] revision (tenant_of h (cx_tenant X)) = Inr t"
    and new: "tenant_of new (cx_tenant X) = t\<lparr>ts_idempotency := i\<rparr>"
  shows "represents X effect_id new calls"
proof -
  note e = decode_encode [OF assms(1) enc]
  from e(2,3) assms(3) have ids: "ev_effect_id envelope = effect_id" "ev_effect_version envelope = 0"
    by (simp_all add: prepared_record_def)
  from app have "bt_get (ts_effect_records (tenant_of h (cx_tenant X))) effect_id = None"
    using ids by (auto simp: result_simps split: option.split_asm if_split_asm dest: checked_add_one_SomeD)
  then have "absent X effect_id h \<and> calls = []"
    using assms(2) by (auto simp: represents_def holds_def read_record_def get_effect_tenant)
  moreover from app ids have "t = (tenant_of h (cx_tenant X))\<lparr>ts_effect_records :=
      bt_insert effect_id envelope (ts_effect_records (tenant_of h (cx_tenant X)))\<rparr>"
    by (auto simp: result_simps split: option.split_asm if_split_asm)
  ultimately have "holds X effect_id new (prepared_record intent d)" "calls = []"
    using e(1) assms(3) new
    by (auto simp: holds_def read_record_def absent_def get_effect_tenant bt_get_insert prepared_record_def)
  moreover have "effect_run (cx_env X) intent (prepared_record intent d) []" using assms(4,5) by (rule effect_run.prepared)
  ultimately show ?thesis by (auto simp: represents_def prepared_record_def)
qed

lemma last_event_effect:
  assumes "verify_record E r = Inr ()" "de_journal r \<noteq> []"
  shows "je_effect_id (last (de_journal r)) = in_effect_id (de_intent r)"
proof -
  from assms(1) have "verify_journal E (de_intent r) None (de_journal r) = Inr ()"
    unfolding verify_record_def by (auto elim!: rbind_InrE guard_InrE)
  with assms(2) obtain previous where "event_linked E (de_intent r) previous (last (de_journal r)) = Inr ()"
    by (cases "de_journal r" rule: rev_cases) (auto simp: verify_journal_snoc)
  then show ?thesis unfolding event_linked_def by (auto elim!: rbind_InrE guard_InrE)
qed

lemma stage_next_InrD:
  assumes "stage_next envelope event outbox = Inr staged"
  obtains rest where "staged = [StagedRecord envelope, StagedEvent event] @ rest" "\<not> list_ex (touches effect_id) rest"
  using assms by (auto simp: stage_next_def put_effect_record_def append_effect_event_def enqueue_outbox_def result_simps
      split: option.split_asm)

lemma apply_staged_pair:
  assumes "apply_mutations ([StagedRecord envelope, StagedEvent event] @ rest) revision t = Inr t'"
    and "ev_effect_id envelope = effect_id" "je_effect_id event = effect_id" "\<not> list_ex (touches effect_id) rest"
  shows "bt_get (ts_effect_records t') effect_id = Some envelope"
    "bt_get (ts_effects t') effect_id =
       Some ((case bt_get (ts_effects t) effect_id of None \<Rightarrow> [] | Some es \<Rightarrow> es) @ [event])"
proof -
  from assms(1) obtain u v where "apply_mutation (StagedRecord envelope) revision t = Inr u"
    "apply_mutation (StagedEvent event) revision u = Inr v" and rest: "apply_mutations rest revision v = Inr t'"
    by (auto simp: rbind_eq_Inr_iff)
  with assms(2,3) have "bt_get (ts_effect_records v) effect_id = Some envelope"
    "bt_get (ts_effects v) effect_id = Some ((case bt_get (ts_effects t) effect_id of None \<Rightarrow> [] | Some es \<Rightarrow> es) @ [event])"
    by (auto simp: Let_def result_simps bt_get_insert split: if_split_asm)
  with apply_untouched [OF rest assms(4)] show "bt_get (ts_effect_records t') effect_id = Some envelope"
    "bt_get (ts_effects t') effect_id =
       Some ((case bt_get (ts_effects t) effect_id of None \<Rightarrow> [] | Some es \<Rightarrow> es) @ [event])" by simp_all
qed

lemma represents_advanced:
  assumes "codec_sound X" "represents X effect_id h calls" "read_record X effect_id h prior"
    and act: "act (cx_env X) a prior = Inr next" and ok: "verify_record (cx_env X) next = Inr ()"
    and enc: "encode_record X next = Inr envelope" and stage: "stage_next envelope (last (de_journal next)) outbox = Inr staged"
    and app: "apply_mutations staged revision (tenant_of h (cx_tenant X)) = Inr t"
    and new: "tenant_of new (cx_tenant X) = t\<lparr>ts_idempotency := i\<rparr>"
  shows "represents X effect_id new (calls @ calls_of a prior)"
proof -
  from assms(2,3) obtain r where "holds X effect_id h r" "effect_run (cx_env X) (de_intent r) r calls"
    by (auto simp: represents_def absent_def read_record_def)
  moreover from this(1) have "r = prior" using read_record_unique [OF _ assms(3)] by (simp add: holds_def)
  ultimately have h: "holds X effect_id h prior" and run: "effect_run (cx_env X) (de_intent prior) prior calls" by simp_all
  from act_moves [OF act] obtain event where j: "de_journal next = de_journal prior @ [event]" and
    same: "de_intent next = de_intent prior" by blast
  from h same have id: "in_effect_id (de_intent next) = effect_id" by (simp add: holds_def)
  note e = decode_encode [OF assms(1) enc]
  from stage j have "stage_next envelope event outbox = Inr staged" by simp
  then obtain rest where staged: "staged = [StagedRecord envelope, StagedEvent event] @ rest"
    and rest: "\<not> list_ex (touches effect_id) rest" by (rule stage_next_InrD)
  have "je_effect_id event = effect_id" using last_event_effect [OF ok] j id by simp
  from apply_staged_pair [OF app [unfolded staged] _ this rest] e(2) id have
    "bt_get (ts_effect_records t) effect_id = Some envelope"
    "bt_get (ts_effects t) effect_id = Some (get_effect h (cx_tenant X) effect_id @ [event])"
    by (simp_all add: get_effect_tenant)
  with e(1) h j new id have "holds X effect_id new next"
    by (auto simp: holds_def read_record_def get_effect_tenant)
  moreover have "effect_run (cx_env X) (de_intent next) next (calls @ calls_of a prior)"
    using effect_run.advanced [OF run act ok] same by simp
  ultimately show ?thesis by (auto simp: represents_def)
qed

lemma history_grows:
  assumes "commit tenant revision staged identity s = (s', x)"
  shows "prefix (ms_history s) (ms_history s')"
proof (cases "\<exists>receipt. x = Inr receipt \<and> \<not> cr_replayed receipt")
  case True
  with assms mem_repo.accepted show ?thesis by fastforce
next
  case False
  with assms mem_repo.refused mem_repo.replayed show ?thesis by (cases x) auto
qed

lemma represents_elsewhere:
  assumes "represents X effect_id (last (ms_history s)) calls" "tenant \<noteq> cx_tenant X \<or> \<not> list_ex (touches effect_id) staged"
    and commit: "commit tenant revision staged identity s = (s', x)"
  shows "represents X effect_id (last (ms_history s')) calls"
proof (cases "\<exists>receipt. x = Inr receipt \<and> \<not> cr_replayed receipt")
  case False
  then have "ms_history s' = ms_history s"
    using commit mem_repo.refused mem_repo.replayed by (cases x) auto
  with assms(1) show ?thesis by simp
next
  case True
  then obtain receipt where "x = Inr receipt" "\<not> cr_replayed receipt" by blast
  from mem_repo.accepted [OF commit [unfolded this(1)] this(2)] obtain new t i where n: "ms_history s' = ms_history s @ [new]"
    "apply_mutations staged (st_revision new) (tenant_of (last (ms_history s)) tenant) = Inr t"
    "tenant_of new tenant = t\<lparr>ts_idempotency := i\<rparr>"
    "\<And>tn. tn \<noteq> tenant \<Longrightarrow> tenant_of new tn = tenant_of (last (ms_history s)) tn" by blast
  have "bt_get (ts_effect_records (tenant_of new (cx_tenant X))) effect_id =
      bt_get (ts_effect_records (tenant_of (last (ms_history s)) (cx_tenant X))) effect_id"
    "bt_get (ts_effects (tenant_of new (cx_tenant X))) effect_id =
      bt_get (ts_effects (tenant_of (last (ms_history s)) (cx_tenant X))) effect_id"
    using assms(2) n(3,4) apply_untouched [OF n(2)] by (cases "tenant = cx_tenant X"; simp)+
  with represents_cong [of new X effect_id "last (ms_history s)" calls] assms(1) n(1) show ?thesis
    by (simp add: get_effect_tenant)
qed

lemma store_run_represents:
  assumes "codec_sound X" "store_run X effect_id s calls"
  shows "mem_repo.ordered s \<and> ms_history s \<noteq> [] \<and> represents X effect_id (last (ms_history s)) calls"
  using assms(2)
proof (induction rule: store_run.induct)
  case empty
  then show ?case by (simp add: mem_repo.ordered_def store_default_def represents_def absent_def get_effect_record_def get_effect_def)
next
  case (prepares s calls intent d envelope staged revision identity s' receipt)
  from mem_repo.accepted [OF prepares(7,8)] obtain new t i where n: "ms_history s' = ms_history s @ [new]"
    "apply_mutations staged (st_revision new) (tenant_of (last (ms_history s)) (cx_tenant X)) = Inr t"
    "tenant_of new (cx_tenant X) = t\<lparr>ts_idempotency := i\<rparr>" by blast
  from prepares(6) have "staged = [StagedRecord envelope]" by (simp add: put_effect_record_def)
  with n(2) have app: "apply_mutations [StagedRecord envelope] (st_revision new) (tenant_of (last (ms_history s)) (cx_tenant X)) = Inr t"
    by (simp del: apply_mutations.simps)
  from prepares(9) have "mem_repo.ordered s" "represents X effect_id (last (ms_history s)) calls" by simp_all
  with represents_prepared [OF assms(1) this(2) prepares(2-5) app n(3)] n(1) mem_repo.commit_ordered [OF prepares(7)]
  show ?case by simp
next
  case (advances s calls h prior a "next" envelope outbox staged identity s' receipt)
  from advances(10) have "mem_repo.ordered s" by simp
  from mem_repo.accepted_at_snapshot [OF this advances(2,8,9)] obtain new t i where
    n: "h = last (ms_history s)" "ms_history s' = ms_history s @ [new]"
    "apply_mutations staged (st_revision new) (tenant_of h (cx_tenant X)) = Inr t"
    "tenant_of new (cx_tenant X) = t\<lparr>ts_idempotency := i\<rparr>" by blast
  from advances(10) n(1) have "represents X effect_id h calls" by simp
  from represents_advanced [OF assms(1) this advances(3-7) n(3,4)] n(2) mem_repo.commit_ordered [OF advances(8) \<open>mem_repo.ordered s\<close>]
  show ?case by simp
next
  case (elsewhere s calls tenant staged revision identity s' x)
  from mem_repo.commit_ordered [OF elsewhere(3)] represents_elsewhere [OF _ elsewhere(2,3)] elsewhere(4)
    history_grows [OF elsewhere(3)] show ?case by auto
next
  case (refused s calls tenant revision staged identity s' e)
  with mem_repo.refused [OF refused(2)] show ?case by (simp add: mem_repo.ordered_def)
next
  case (services s calls s')
  from service_op_history [OF services(2)] show ?case
  proof (elim disjE exE conjE)
    fix new
    assume new: "ms_history s \<noteq> []" "ms_history s' = ms_history s @ [new]" "services_step (last (ms_history s)) new"
    then have "services_only (tenant_of (last (ms_history s)) (cx_tenant X)) (tenant_of new (cx_tenant X))"
      by (simp add: services_step_def)
    then have "represents X effect_id new calls"
      using represents_cong [of new X effect_id "last (ms_history s)" calls] services(3)
      by (auto simp: get_effect_tenant services_only_def)
    with new services(3) mem_repo.append_ordered [of s s' new] show ?thesis by (simp add: services_step_def)
  qed (use services(3) in \<open>simp add: mem_repo.ordered_def\<close>)
next
  case (fault s calls b)
  then show ?case by (simp add: mem_repo.ordered_def)
qed

text \<open>
  (C7) The store refines the state machine: after any interleaving of engine operations on the in-memory store, with
  other tenants and effects committing and commits being refused at will, the store holds no trace of the effect and no
  connector was entered for it, or the record in the latest snapshot is the record of a run of the effect with exactly
  these connector calls, and the stored journal is the journal of that record.
\<close>

theorem store_refines_machine:
  assumes "codec_sound X" and "store_run X effect_id s calls"
  shows "(absent X effect_id (last (ms_history s)) \<and> calls = []) \<or>
    (\<exists>r. read_record X effect_id (last (ms_history s)) r \<and> in_effect_id (de_intent r) = effect_id \<and>
       get_effect (last (ms_history s)) (cx_tenant X) effect_id = de_journal r \<and>
       effect_run (cx_env X) (de_intent r) r calls)"
  using store_run_represents [OF assms] by (auto simp: represents_def holds_def)

subsection \<open>The commit loop implements a commit step\<close>

text \<open>What other threads may do while an operation runs: commits of their own, so snapshots stay and runs stay runs.\<close>

definition commits_only :: "effect_ctx \<Rightarrow> record_id \<Rightarrow> interference \<Rightarrow> bool" where
  "commits_only X effect_id env \<longleftrightarrow> (\<forall>i s c. store_run X effect_id (eg_store s) c \<longrightarrow>
     (\<exists>c'. store_run X effect_id (eg_store (env i s)) c') \<and> set (ms_history (eg_store s)) \<subseteq> set (ms_history (eg_store (env i s))))"

lemma commits_onlyE:
  assumes "commits_only X effect_id env" "store_run X effect_id (eg_store s) c"
  obtains c' where "store_run X effect_id (eg_store (env i s)) c'"
    "set (ms_history (eg_store s)) \<subseteq> set (ms_history (eg_store (env i s)))"
  using assms unfolding commits_only_def by blast

lemma ebind_InrE:
  assumes "ebind m f s = (s', Inr b)" obtains s1 a where "m s = (s1, Inr a)" "f a s1 = (s', Inr b)"
  using assms by (auto simp: ebind_def split: prod.split_asm sum.split_asm)

lemma elift_Inr [simp]: "elift x s = (s', Inr a) \<longleftrightarrow> s' = s \<and> x = Inr a"
  by (auto simp: elift_def)

lemma read_store_InrD: "read_store Latest s = (s', Inr h) \<Longrightarrow> s' = s \<and> h \<in> set (ms_history (eg_store s))"
  by (auto simp: read_store_def begin_read_def result_simps split: if_split_asm)

lemma decode_record_InrD:
  assumes "with_checkpoints (decode_record X envelope observe) s = (s', Inr r)"
  shows "eg_store s' = eg_store s" "\<exists>authenticated. decode_authenticated_effect_record X envelope = Inr authenticated \<and> ar_record authenticated = r"
proof -
  from assms show "eg_store s' = eg_store s" by (auto simp: with_checkpoints_def split: prod.split_asm)
  from assms show "\<exists>authenticated. decode_authenticated_effect_record X envelope = Inr authenticated \<and> ar_record authenticated = r"
    unfolding with_checkpoints_def decode_record_def
    by (auto simp: result_simps split: prod.split_asm sum.split_asm if_split_asm)
qed

lemma commit_without_identity: "commit tenant revision staged None s = (s', Inr receipt) \<Longrightarrow> \<not> cr_replayed receipt"
  by (cases rule: commit_cases [of tenant revision staged None s]) auto

lemma store_commit_InrD:
  "store_commit X revision staged identity s = (s', x) \<Longrightarrow>
     commit (cx_tenant X) revision staged identity (eg_store s) = (eg_store s', x)"
  by (auto simp: store_commit_def split: prod.split_asm)

lemma persist_loop_commits:
  assumes "persist_loop n env X prior next (last (de_journal next)) outbox identity conflict s = (s', Inr r)"
    and "identity = None \<or> conflict" and rely: "commits_only X effect_id env" and "store_run X effect_id (eg_store s) c"
    and plan: "act (cx_env X) a prior = Inr next" "verify_record (cx_env X) next = Inr ()" "in_effect_id (de_intent prior) = effect_id"
  shows "r = next \<and> (\<exists>s1 c1. store_run X effect_id s1 c1 \<and> store_run X effect_id (eg_store s') (c1 @ calls_of a prior))"
  using assms(1,4)
proof (induction n arbitrary: s c)
  case (Suc n)
  let ?s1 = "env (2 * n + 1) s"
  from rely Suc.prems(2) obtain c1 where c1: "store_run X effect_id (eg_store ?s1) c1" by (rule commits_onlyE)
  from Suc.prems(1) obtain h current s2 envelope staged where h: "h \<in> set (ms_history (eg_store ?s1))"
    and current: "get_effect_record h (cx_tenant X) effect_id = Some current"
    and dec: "with_checkpoints (decode_record X current True) ?s1 = (s2, Inr prior)"
    and enc: "encode_record X next = Inr envelope" and stage: "stage_next envelope (last (de_journal next)) outbox = Inr staged"
    and rest: "(case store_commit X (st_revision h) staged identity (env (2 * n) s2) of
        (s'', Inr receipt) \<Rightarrow>
          if conflict \<and> cr_replayed receipt then (s'', Inl EUnauthorized)
          else ebind (with_checkpoints (decode_record X envelope True)) (\<lambda>_. elift (Inr next)) s''
      | (s'', Inl SRevisionConflict) \<Rightarrow> persist_loop n env X prior next (last (de_journal next)) outbox identity conflict s''
      | (s'', Inl e) \<Rightarrow> (s'', Inl (if identity \<noteq> None \<and> e = SInvalidRecord then EIdempotencyCollision else map_store_error e)))
      = (s', Inr r)"
    using plan(3)
    by (auto simp: interfere_def result_simps elim!: ebind_InrE dest!: read_store_InrD split: if_split_asm)
  have s2: "eg_store s2 = eg_store ?s1" and read: "read_record X effect_id h prior"
    using decode_record_InrD [OF dec] current by (auto simp: read_record_def)
  from rely c1 [folded s2] obtain c2 where c2: "store_run X effect_id (eg_store (env (2 * n) s2)) c2"
    and sub: "set (ms_history (eg_store s2)) \<subseteq> set (ms_history (eg_store (env (2 * n) s2)))" by (rule commits_onlyE)
  obtain s3 x where x: "store_commit X (st_revision h) staged identity (env (2 * n) s2) = (s3, x)" by force
  note commit = store_commit_InrD [OF x]
  show ?case
  proof (cases x)
    case (Inl e)
    with rest x have e: "e = SRevisionConflict"
      "persist_loop n env X prior next (last (de_journal next)) outbox identity conflict s3 = (s', Inr r)"
      by (auto split: store_error.split_asm)
    show ?thesis by (rule Suc.IH [OF e(2) store_run.refused [OF c2 commit [unfolded Inl]]])
  next
    case (Inr receipt)
    have fresh: "\<not> cr_replayed receipt"
      using rest x Inr assms(2) commit_without_identity commit by (auto split: if_split_asm)
    with rest x Inr have "eg_store s' = eg_store s3" "r = next"
      by (auto elim!: ebind_InrE dest: decode_record_InrD(1))
    moreover have "store_run X effect_id (eg_store s3) (c2 @ calls_of a prior)"
      using store_run.advances [OF c2 _ read plan(1,2) enc stage commit [unfolded Inr] fresh] h s2 sub by auto
    ultimately show ?thesis using c2 by auto
  qed
qed simp

lemma decode_record_keeps_store: "with_checkpoints f s = (s', x) \<Longrightarrow> eg_store s' = eg_store s"
  by (auto simp: with_checkpoints_def split: prod.split_asm)

lemma try_get_at_store: "eg_store (fst (try_get_at X effect_id selection s)) = eg_store s"
  by (auto simp: try_get_at_def ebind_def read_store_def elift_def split: prod.split sum.split option.split
      dest: decode_record_keeps_store)

lemma retry_read_store:
  assumes "\<And>s. eg_store (fst (read s)) = eg_store s"
  shows "eg_store (fst (retry_latest_checkpoint_read n read s)) = eg_store s"
proof (induction n arbitrary: s)
  case (Suc n)
  obtain s1 x where x: "read s = (s1, x)" by force
  with assms [of s] have "eg_store s1 = eg_store s" by simp
  with Suc [of s1] x show ?case by (auto split: sum.split effect_error.split)
qed simp

lemma get_record_store:
  assumes "get_record X effect_id s = (s', x)"
  shows "eg_store s' = eg_store s"
proof -
  obtain s1 y where y: "try_get X effect_id s = (s1, y)" by force
  have "eg_store (fst (try_get X effect_id s)) = eg_store s"
    unfolding try_get_def by (rule retry_read_store) (rule try_get_at_store)
  with y have "eg_store s1 = eg_store s" by simp
  moreover from assms y have "s' = s1" by (cases y) (auto simp: get_record_def ebind_def elift_def)
  ultimately show ?thesis by simp
qed

lemma not_finished [simp]: "finished m s \<noteq> (s', Inr (Inr x))"
  by (auto simp: finished_def elim!: ebind_InrE)

lemma dispatch_checked_entered:
  assumes "dispatch_checked env X preconditions r attempt permit receipt_id event_id auth s = (s', Inr (Inr (r', attempt')))"
  shows "may_send auth r attempt \<and> attempt' = attempt \<and> acquire_dispatch_ownership env X r permit receipt_id auth s = (s', Inr r')"
proof (cases "may_send auth r attempt")
  case True
  with assms obtain m where "(case preconditions (de_intent r) (ea_now auth) of
          None \<Rightarrow> finished (finalize_observation env X r attempt receipt_id event_id auth (ObsUnknown m None))
        | Some satisfied \<Rightarrow>
            if \<not> satisfied
            then finished (finalize_without_send env X r attempt receipt_id event_id auth ''precondition-failed'')
            else ebind (acquire_dispatch_ownership env X r permit receipt_id auth) (\<lambda>r'. elift (Inr (Inr (r', attempt))))) s
      = (s', Inr (Inr (r', attempt')))"
    unfolding dispatch_checked_def by (simp only: not_True_eq_False if_False) (elim ebind_InrE, simp)
  then have "ebind (acquire_dispatch_ownership env X r permit receipt_id auth)
      (\<lambda>r'. elift (Inr (Inr (r', attempt) :: durable_effect_record + durable_effect_record \<times> effect_attempt))) s = (s', Inr (Inr (r', attempt')))"
    by (cases "preconditions (de_intent r) (ea_now auth)") (simp_all split: if_split_asm)
  with True show ?thesis by (elim ebind_InrE) simp
next
  case False
  with assms show ?thesis by (simp add: dispatch_checked_def)
qed

text \<open>
  The connector is entered only after the entry is committed: when \<open>dispatch\<close> reaches the connector call, its own commit
  of this attempt under this authority is in the store, and no earlier commit stands for it.
\<close>

theorem connector_entry_is_committed:
  assumes "dispatch_enter env X current preconditions permit receipt_id event_id auth s = (s', Inr (Inr (r, attempt)))"
    and "commits_only X (dp_effect_id permit) env" and "store_run X (dp_effect_id permit) (eg_store s) calls"
  shows "\<exists>s1 calls1. store_run X (dp_effect_id permit) s1 calls1 \<and>
    store_run X (dp_effect_id permit) (eg_store s') (calls1 @ [(attempt, auth)])"
proof -
  from assms(1) obtain s1 prior where get: "get_record X (dp_effect_id permit) s = (s1, Inr prior)"
    and permit: "verify_permit (cx_env X) prior permit = Inr ()" and nonempty: "de_attempts prior \<noteq> []"
    and checked: "dispatch_checked env X preconditions prior (last (de_attempts prior)) permit receipt_id event_id auth s1
      = (s', Inr (Inr (r, attempt)))"
    unfolding dispatch_enter_def by (elim ebind_InrE) (simp split: if_split_asm, elim ebind_InrE, simp)
  note entered = dispatch_checked_entered [OF checked]
  have send: "may_send auth prior attempt" "attempt = last (de_attempts prior)"
    and own: "acquire_dispatch_ownership env X prior permit receipt_id auth s1 = (s', Inr r)" using entered by simp_all
  from own obtain "next" identity where
    acquire: "acquire_dispatch_ownership_next (cx_env X) prior permit receipt_id auth = Inr (next, identity)"
    and persist: "persist_next_exclusive env X prior next identity s1 = (s', Inr r)"
    unfolding acquire_dispatch_ownership_def by (elim ebind_InrE) (simp split: prod.split_asm)
  with nonempty send have act: "act (cx_env X) (AEnter permit receipt_id auth) prior = Inr next" by simp
  from persist have ok: "verify_record (cx_env X) next = Inr ()"
    and loop: "persist_loop MAX_PERSIST_RETRIES env X prior next (last (de_journal next)) None (Some identity) True s1 = (s', Inr r)"
    unfolding persist_next_exclusive_def persist_next_with_identity_def by (auto elim!: ebind_InrE split: if_split_asm)
  from permit have "in_effect_id (de_intent prior) = dp_effect_id permit"
    by (auto simp: verify_permit_def result_simps split: if_split_asm)
  with persist_loop_commits [OF loop _ assms(2) _ act ok] assms(3) get_record_store [OF get] \<open>attempt = _\<close>
  show ?thesis by auto
qed

text \<open>
  Where a replay is not treated as a conflict (\<open>request_compensation\<close>), the loop reports success for a record that was
  never written: another thread's commit under the same reservation is taken for its own, since the store tests the
  idempotency key before the revision.
\<close>

lemma replay_reports_unwritten_record:
  assumes "read_store Latest (env (2 * n + 1) s) = (s1, Inr h)"
    and "get_effect_record h (cx_tenant X) (in_effect_id (de_intent prior)) = Some current"
    and "with_checkpoints (decode_record X current True) s1 = (s2, Inr prior)"
    and "encode_record X next = Inr envelope" "stage_next envelope event outbox = Inr staged"
    and commit: "store_commit X (st_revision h) staged identity (env (2 * n) s2) = (s3, Inr receipt)" "cr_replayed receipt"
    and "with_checkpoints (decode_record X envelope True) s3 = (s4, Inr next)"
  shows "persist_loop (Suc n) env X prior next event outbox identity False s = (s4, Inr next) \<and>
    ms_history (eg_store s4) = ms_history (eg_store (env (2 * n) s2))"
proof -
  have "persist_loop (Suc n) env X prior next event outbox identity False s = (s4, Inr next)"
    using assms by (simp add: ebind_def elift_def interfere_def)
  moreover have "eg_store s4 = eg_store s3" by (rule decode_record_keeps_store [OF assms(8)])
  moreover have "ms_history (eg_store s3) = ms_history (eg_store (env (2 * n) s2))"
    by (rule mem_repo.replayed [OF store_commit_InrD [OF commit(1)] commit(2)])
  ultimately show ?thesis by simp
qed

subsection \<open>A store with a prepared effect\<close>

definition sample_seal :: effect_record_seal where
  "sample_seal = \<lparr>es_key_id = ''k'', es_authenticator = zero_digest, es_signed_proof = None\<rparr>"

definition sample_sealed :: authenticated_effect_record where
  "sample_sealed = \<lparr>ar_schema_version = AUTHENTICATED_RECORD_SCHEMA, ar_record = prepared_record sample_intent zero_digest,
     ar_seal = sample_seal\<rparr>"

definition sample_ctx :: effect_ctx where
  "sample_ctx = \<lparr>cx_env = sample_env, cx_tenant = ''t'', cx_key_id = ''k'', cx_key = Some (replicate 32 (CHR 0x01)),
     cx_record_json = (\<lambda>_. Some ''r''), cx_sealed_json = (\<lambda>sealed. if sealed = sample_sealed then Some ''x'' else None),
     cx_sealed_parse = (\<lambda>bytes. if bytes = ''x'' then Some sample_sealed else None)\<rparr>"

lemma sample_encode: "encode_record sample_ctx (prepared_record sample_intent zero_digest) =
  Inr \<lparr>ev_effect_id = ''e'', ev_effect_version = 0, ev_record_digest = zero_digest, ev_bytes = ''x''\<rparr>"
proof -
  have k: "\<not> is_ascii_control (CHR ''k'')" by code_simp
  have hash: "digest_to_multihash (en_sha256 sample_env bytes) = Inr zero_digest" for bytes by (rule sample_hash)
  moreover have "''1220'' @ hex (en_sha256 sample_env ''x'') = zero_digest" unfolding sample_env_def by code_simp
  ultimately show ?thesis
    by (simp add: encode_record_def authenticator_seal_def keyed_record_authenticator_def sample_ctx_def u64_try_from_def
        seal_new_def seal_validate_def key_id_ok_def k raw_multihash_def envelope_new_def MAX_EFFECT_RECORD_BYTES_def
        sample_sealed_def sample_seal_def prepared_record_def Let_def)
qed

theorem store_refines_machine_witness:
  "\<exists>s. codec_sound sample_ctx \<and> store_run sample_ctx ''e'' s [] \<and>
     (\<exists>r. read_record sample_ctx ''e'' (last (ms_history s)) r \<and> effect_run sample_env (de_intent r) r [])"
proof -
  let ?envelope = "\<lparr>ev_effect_id = ''e'', ev_effect_version = 0, ev_record_digest = zero_digest, ev_bytes = ''x''\<rparr>"
  let ?identity = "\<lparr>ii_scope = ''effect:c:s'', ii_key = ''k'', ii_request_digest = zero_digest\<rparr>"
  have sound: "codec_sound sample_ctx" by (simp add: codec_sound_def sample_ctx_def)
  have env [simp]: "cx_env sample_ctx = sample_env" "cx_tenant sample_ctx = ''t''" by (simp_all add: sample_ctx_def)
  obtain s receipt where c: "commit ''t'' 0 [StagedRecord ?envelope] (Some ?identity) store_default = (s, Inr receipt)"
    "\<not> cr_replayed receipt" and stored: "get_effect_record (last (ms_history s)) ''t'' ''e'' \<noteq> None"
    by (simp add: commit_def recorded_def next_state_def remember_def store_default_def tenant_of_def tenant_default_def
        checked_add_def get_effect_record_def bt_get_insert Let_def)
  have "store_run sample_ctx ''e'' s []"
    by (rule store_run.prepares [OF store_run.empty, where intent = sample_intent and d = zero_digest and envelope = ?envelope
          and staged = "[StagedRecord ?envelope]" and revision = 0 and identity = ?identity and receipt = receipt])
       (use c sample_encode in \<open>simp_all add: machine_eval put_effect_record_def\<close>)
  moreover from store_refines_machine [OF sound this] stored have
    "\<exists>r. read_record sample_ctx ''e'' (last (ms_history s)) r \<and> effect_run sample_env (de_intent r) r []"
    by (auto simp: absent_def)
  ultimately show ?thesis using sound by blast
qed

end
