(* ===== verification/Service_History.thy ===== *)
theory Service_History
  imports Store_History
begin

text \<open>
  The runs of the service repository, and what makes its state sound: histories of records whose versions count from one
  at increasing store revisions, retained responses whose records are still there, and well-formed worker leases. These
  are the conditions the integrity checks of \<open>service_repository.rs\<close> test; a later state keeps them.
\<close>

subsection \<open>Runs of the repository\<close>

text \<open>
  Responses are built by \<open>ServiceResponse::new\<close>; everything else about a batch, a worker update or a transaction is
  arbitrary.
\<close>

inductive service_run :: "(string \<Rightarrow> string) \<Rightarrow> service_sizes \<Rightarrow> memory_store \<Rightarrow> memory_store \<Rightarrow> bool" for sha256 sizes s0 where
  start: "service_run sha256 sizes s0 s0"
| batch: "service_run sha256 sizes s0 s \<Longrightarrow> response_new sha256 status content_type bytes = Inr (ba_response b) \<Longrightarrow>
    service_commit sha256 sizes s b c c' = (s', x) \<Longrightarrow> service_run sha256 sizes s0 s'"
| worker: "service_run sha256 sizes s0 s \<Longrightarrow> worker_update sha256 s locator u c c' = (s', y) \<Longrightarrow> service_run sha256 sizes s0 s'"
| transaction: "service_run sha256 sizes s0 s \<Longrightarrow> commit tenant revision staged identity s = (s', z) \<Longrightarrow> service_run sha256 sizes s0 s'"
| fault: "service_run sha256 sizes s0 s \<Longrightarrow> service_run sha256 sizes s0 (s\<lparr>ms_fail_next_commit := f\<rparr>)"

lemma service_run_trans: "service_run sha256 sizes s1 s2 \<Longrightarrow> service_run sha256 sizes s0 s1 \<Longrightarrow> service_run sha256 sizes s0 s2"
  by (induction rule: service_run.induct) (blast intro: service_run.intros)+

text \<open>What one step adds to the history.\<close>

lemma transaction_step:
  assumes "commit tenant revision staged identity s = (s', x)"
  obtains "ms_history s' = ms_history s"
  | st where "ms_history s \<noteq> []" "ms_history s' = ms_history s @ [st]"
      "unat (st_revision st) = unat (st_revision (last (ms_history s))) + 1"
      "\<And>tn. ts_service_records (tenant_of st tn) = ts_service_records (tenant_of (last (ms_history s)) tn)"
      "\<And>tn. ts_service_idempotency (tenant_of st tn) = ts_service_idempotency (tenant_of (last (ms_history s)) tn)"
      "\<And>tn. ts_worker_states (tenant_of st tn) = ts_worker_states (tenant_of (last (ms_history s)) tn)"
proof (cases rule: commit_cases [of tenant revision staged identity s])
  case (accepted st receipt)
  from next_state_InrD [OF accepted(5)] obtain t i where
    t: "checked_add (st_revision (last (ms_history s))) 1 = Some (st_revision st)"
      "apply_mutations staged (st_revision st) (tenant_of (last (ms_history s)) tenant) = Inr t"
      "tenant_of st tenant = t\<lparr>ts_idempotency := i\<rparr>"
      "\<And>tn. tn \<noteq> tenant \<Longrightarrow> tenant_of st tn = tenant_of (last (ms_history s)) tn" by metis
  have "keeps (tenant_of (last (ms_history s)) tenant) t" by (rule apply_mutations_keeps [OF t(2)])
  then have "ts_service_records (tenant_of st tn) = ts_service_records (tenant_of (last (ms_history s)) tn)"
    "ts_service_idempotency (tenant_of st tn) = ts_service_idempotency (tenant_of (last (ms_history s)) tn)"
    "ts_worker_states (tenant_of st tn) = ts_worker_states (tenant_of (last (ms_history s)) tn)" for tn
    using t(3,4) by (cases "tn = tenant"; simp add: keeps_def)+
  moreover have "ms_history s' = ms_history s @ [st]" using accepted(1) assms by auto
  moreover have "unat (st_revision st) = unat (st_revision (last (ms_history s))) + 1"
    using checked_add_one_SomeD [OF t(1)] by simp
  ultimately show thesis using accepted(2) that(2) by blast
qed (use assms that(1) in auto)

subsection \<open>Valid record histories\<close>

definition record_ok :: "(string \<Rightarrow> string) \<Rightarrow> u64 \<Rightarrow> record_id \<Rightarrow> string \<Rightarrow> string \<Rightarrow> service_record \<Rightarrow> bool" where
  "record_ok sha256 revision tenant namespace key r \<longleftrightarrow>
     sr_locator r = \<lparr>sl_tenant_id = tenant, sl_namespace = namespace, sl_key = key\<rparr> \<and> sr_store_revision r \<le> revision \<and>
     sr_bytes r \<noteq> [] \<and> length (sr_bytes r) \<le> MAX_SERVICE_RECORD_BYTES \<and> exact_digest sha256 (sr_bytes r) = sr_digest r"

definition history_ok :: "(string \<Rightarrow> string) \<Rightarrow> u64 \<Rightarrow> record_id \<Rightarrow> string \<Rightarrow> string \<Rightarrow> service_record list \<Rightarrow> bool" where
  "history_ok sha256 revision tenant namespace key h \<longleftrightarrow> list_all (record_ok sha256 revision tenant namespace key) h \<and>
     map (\<lambda>r. unat (sr_version r)) h = [1..<length h + 1] \<and> sorted_wrt (<) (0 # map sr_store_revision h)"

lemma next_version_iff: "Option.bind (u64_try_from n) (\<lambda>k. checked_add k 1) = Some s \<longleftrightarrow> unat s = n + 1"
proof
  assume s: "unat s = n + 1"
  moreover have "unat s < 2 ^ 64" using unsigned_less [of s] by simp
  ultimately have n: "n + 1 < 2 ^ 64" by linarith
  then have "unat (of_nat n :: u64) = n" by (simp add: unsigned_of_nat take_bit_nat_eq_self)
  moreover have "s = of_nat (unat s)" by simp
  then have "(of_nat n + 1 :: u64) = s" using s by simp
  ultimately show "Option.bind (u64_try_from n) (\<lambda>k. checked_add k 1) = Some s"
    using n by (simp add: u64_try_from_def checked_add_def)
qed (rule next_sequence)

lemma locator_eq_iff: "sr_locator r = \<lparr>sl_tenant_id = tenant, sl_namespace = namespace, sl_key = key\<rparr> \<longleftrightarrow>
    sl_tenant_id (sr_locator r) = tenant \<and> sl_namespace (sr_locator r) = namespace \<and> sl_key (sr_locator r) = key"
  by (cases "sr_locator r") auto

lemma validate_history_loop_Cons:
  "validate_history_loop sha256 revision tenant namespace key index prior (r # h) = Inr () \<longleftrightarrow>
    unat (sr_version r) = index + 1 \<and> prior < sr_store_revision r \<and> record_ok sha256 revision tenant namespace key r \<and>
    validate_history_loop sha256 revision tenant namespace key (index + 1) (sr_store_revision r) h = Inr ()"
  unfolding next_version_iff [symmetric]
  by (cases "Option.bind (u64_try_from index) (\<lambda>k. checked_add k 1)") (auto simp: record_ok_def locator_eq_iff not_less not_le)

lemma validate_history_loop_iff:
  "validate_history_loop sha256 revision tenant namespace key index prior h = Inr () \<longleftrightarrow>
    list_all (record_ok sha256 revision tenant namespace key) h \<and>
    map (\<lambda>r. unat (sr_version r)) h = [index + 1..<index + length h + 1] \<and> sorted_wrt (<) (prior # map sr_store_revision h)"
proof (induction h arbitrary: index prior)
  case (Cons r h)
  have "[index + 1..<index + length (r # h) + 1] = (index + 1) # [index + 1 + 1..<index + 1 + length h + 1]"
    using upt_conv_Cons [of "index + 1" "index + length (r # h) + 1"] by (simp del: upt_Suc)
  moreover have "sorted_wrt (<) (prior # map sr_store_revision (r # h)) \<longleftrightarrow>
      prior < sr_store_revision r \<and> sorted_wrt (<) (sr_store_revision r # map sr_store_revision h)"
    by (auto intro: less_trans)
  ultimately show ?case unfolding validate_history_loop_Cons Cons.IH by (auto simp del: upt_Suc)
qed simp

lemma validate_record_history_iff [simp]:
  "validate_record_history sha256 revision tenant namespace key h = Inr () \<longleftrightarrow> history_ok sha256 revision tenant namespace key h"
  by (simp add: validate_record_history_def validate_history_loop_iff history_ok_def)

lemma history_ok_mono: "history_ok sha256 r tenant namespace key h \<Longrightarrow> r \<le> r' \<Longrightarrow> history_ok sha256 r' tenant namespace key h"
  by (auto simp: history_ok_def list_all_iff record_ok_def)

lemma history_ok_nth:
  assumes "history_ok sha256 revision tenant namespace key h" "i < length h"
  shows "unat (sr_version (h ! i)) = i + 1" "record_ok sha256 revision tenant namespace key (h ! i)"
proof -
  have "map (\<lambda>r. unat (sr_version r)) h ! i = [1..<length h + 1] ! i" using assms(1) by (simp add: history_ok_def)
  with assms(2) show "unat (sr_version (h ! i)) = i + 1" by (simp del: upt_Suc)
  show "record_ok sha256 revision tenant namespace key (h ! i)" using assms by (simp add: history_ok_def list_all_length)
qed

lemma history_ok_append:
  assumes "history_ok sha256 latest tenant namespace key h" "latest < revision"
    and "record_ok sha256 revision tenant namespace key r" "unat (sr_version r) = length h + 1" "sr_store_revision r = revision"
  shows "history_ok sha256 revision tenant namespace key (h @ [r])"
proof -
  have "0 < revision" using assms(2) by (metis word_not_simps(1) word_neq_0_conv)
  moreover have "sr_store_revision x < revision" if "x \<in> set h" for x
    using that assms(1,2) by (auto simp: history_ok_def list_all_iff record_ok_def intro: le_less_trans)
  ultimately show ?thesis using assms history_ok_mono [OF assms(1) less_imp_le [OF assms(2)]]
    by (auto simp: history_ok_def sorted_wrt_append)
qed

subsection \<open>The writes of a batch\<close>

definition write_key :: "service_record_write \<Rightarrow> string \<times> string" where
  "write_key w = (sw_namespace w, sw_key w)"

text \<open>What one write did: the expectation held, and the record is appended to its valid history.\<close>

definition written ::
    "(string \<Rightarrow> string) \<Rightarrow> u64 \<Rightarrow> u64 \<Rightarrow> record_id \<Rightarrow> (string \<times> string, service_record list) btree
      \<Rightarrow> (string \<times> string, service_record list) btree \<Rightarrow> service_record_write \<Rightarrow> service_record_version \<Rightarrow> bool" where
  "written sha256 latest revision tenant m m' w v \<longleftrightarrow>
     (let h = entries_at m (write_key w);
          r = \<lparr>sr_locator = \<lparr>sl_tenant_id = tenant, sl_namespace = sw_namespace w, sl_key = sw_key w\<rparr>, sr_version = rv_version v,
            sr_store_revision = revision, sr_digest = exact_digest sha256 (sw_bytes w), sr_bytes = sw_bytes w\<rparr>
      in history_ok sha256 latest tenant (sw_namespace w) (sw_key w) h \<and>
         check_expected (sw_expected w) (if h = [] then None else Some (sr_version (last h))) = Inr () \<and>
         unat (rv_version v) = length h + 1 \<and> bt_get m' (write_key w) = Some (h @ [r]) \<and>
         rv_namespace v = sw_namespace w \<and> rv_key v = sw_key w \<and> rv_digest v = exact_digest sha256 (sw_bytes w))"

lemma apply_write_written:
  assumes "apply_write sha256 latest revision tenant w t = Inr (t', v)"
  shows "written sha256 latest revision tenant (ts_service_records t) (ts_service_records t') w v"
    and "\<And>k. k \<noteq> write_key w \<Longrightarrow> bt_get (ts_service_records t') k = bt_get (ts_service_records t) k"
proof -
  from assms obtain version where "history_ok sha256 latest tenant (sw_namespace w) (sw_key w) (entries_at (ts_service_records t) (write_key w))"
    "check_expected (sw_expected w) (if entries_at (ts_service_records t) (write_key w) = [] then None
       else Some (sr_version (last (entries_at (ts_service_records t) (write_key w))))) = Inr ()"
    "unat version = length (entries_at (ts_service_records t) (write_key w)) + 1"
    "ts_service_records t' = bt_insert (write_key w) (entries_at (ts_service_records t) (write_key w) @
       [\<lparr>sr_locator = \<lparr>sl_tenant_id = tenant, sl_namespace = sw_namespace w, sl_key = sw_key w\<rparr>, sr_version = version,
         sr_store_revision = revision, sr_digest = exact_digest sha256 (sw_bytes w), sr_bytes = sw_bytes w\<rparr>]) (ts_service_records t)"
    "v = \<lparr>rv_namespace = sw_namespace w, rv_key = sw_key w, rv_version = version, rv_digest = exact_digest sha256 (sw_bytes w)\<rparr>"
    by (auto simp: apply_write_def Let_def result_simps next_version_iff simp flip: write_key_def entries_at_def)
  then show "written sha256 latest revision tenant (ts_service_records t) (ts_service_records t') w v"
    "\<And>k. k \<noteq> write_key w \<Longrightarrow> bt_get (ts_service_records t') k = bt_get (ts_service_records t) k"
    by (simp_all add: written_def Let_def bt_get_insert)
qed

lemma written_cong:
  assumes "bt_get m (write_key w) = bt_get m1 (write_key w)" "bt_get m' (write_key w) = bt_get m1' (write_key w)"
  shows "written sha256 latest revision tenant m m' w v \<longleftrightarrow> written sha256 latest revision tenant m1 m1' w v"
  using assms by (simp add: written_def entries_at_def)

lemma apply_writes_untouched:
  assumes "apply_writes sha256 latest revision tenant ws t = Inr (t', vs)" "k \<notin> set (map write_key ws)"
  shows "bt_get (ts_service_records t') k = bt_get (ts_service_records t) k"
  using assms
proof (induction ws arbitrary: t vs)
  case (Cons w ws)
  then obtain t1 v vs' where "apply_write sha256 latest revision tenant w t = Inr (t1, v)"
    "apply_writes sha256 latest revision tenant ws t1 = Inr (t', vs')" by (auto simp: result_simps)
  with Cons.IH [of t1 vs'] Cons.prems(2) apply_write_written(2) [of sha256 latest revision tenant w t t1 v k] show ?case by simp
qed simp

lemma apply_writes_written:
  assumes "apply_writes sha256 latest revision tenant ws t = Inr (t', vs)" "distinct (map write_key ws)"
  shows "list_all2 (written sha256 latest revision tenant (ts_service_records t) (ts_service_records t')) ws vs"
  using assms
proof (induction ws arbitrary: t vs)
  case (Cons w ws)
  from Cons.prems(1) obtain t1 v vs' where step: "apply_write sha256 latest revision tenant w t = Inr (t1, v)"
    "apply_writes sha256 latest revision tenant ws t1 = Inr (t', vs')" "vs = v # vs'" by (auto simp: result_simps)
  have "bt_get (ts_service_records t1) (write_key w) = bt_get (ts_service_records t') (write_key w)"
    using apply_writes_untouched [OF step(2)] Cons.prems(2) by simp
  with apply_write_written(1) [OF step(1)]
  have "written sha256 latest revision tenant (ts_service_records t) (ts_service_records t') w v" by (simp cong: written_cong)
  moreover have "list_all2 (written sha256 latest revision tenant (ts_service_records t1) (ts_service_records t')) ws vs'"
    using Cons.IH [OF step(2)] Cons.prems(2) by simp
  then have "list_all2 (written sha256 latest revision tenant (ts_service_records t) (ts_service_records t')) ws vs'"
  proof (rule list.rel_mono_strong)
    fix w' v'
    assume "w' \<in> set ws"
    with Cons.prems(2) have "write_key w' \<noteq> write_key w" by (metis distinct.simps(2) image_eqI list.set_map list.simps(9))
    then have "bt_get (ts_service_records t1) (write_key w') = bt_get (ts_service_records t) (write_key w')"
      by (rule apply_write_written(2) [OF step(1)])
    moreover assume "written sha256 latest revision tenant (ts_service_records t1) (ts_service_records t') w' v'"
    ultimately show "written sha256 latest revision tenant (ts_service_records t) (ts_service_records t') w' v'"
      by (simp cong: written_cong)
  qed
  ultimately show ?case by (simp add: step(3))
qed simp

text \<open>What validation says of the writes of a batch.\<close>

lemma validate_writes_loop_valid:
  "validate_writes_loop ws bytes keys = Inr u \<Longrightarrow>
    list_all (\<lambda>w. validate_write w = Inr ()) ws \<and> distinct (map write_key ws) \<and> set (map write_key ws) \<inter> set keys = {}"
  by (induction ws bytes keys rule: validate_writes_loop.induct) (auto simp: result_simps write_key_def split: if_splits)

lemma validate_writes_valid:
  assumes "validate_writes ws = Inr u"
  shows "ws \<noteq> []" "length ws \<le> MAX_SERVICE_BATCH_RECORDS" "list_all (\<lambda>w. validate_write w = Inr ()) ws" "distinct (map write_key ws)"
  using assms validate_writes_loop_valid [of ws 0 "[]"] by (auto simp: validate_writes_def split: if_splits)

lemma validate_write_valid:
  assumes "validate_write w = Inr u"
  shows "service_selector (sw_namespace w) MAX_SERVICE_NAMESPACE_BYTES False = Inr ()"
    "service_selector (sw_key w) MAX_SERVICE_KEY_BYTES False = Inr ()" "sw_bytes w \<noteq> []" "length (sw_bytes w) \<le> MAX_SERVICE_RECORD_BYTES"
  using assms by (auto simp: validate_write_def result_simps split: if_splits)

subsection \<open>Sound service states\<close>

lemma service_history_tenant: "service_history st tn ns k = bt_get (ts_service_records (tenant_of st tn)) (ns, k)"
  by (cases "bt_get (st_tenants st) tn") (simp_all add: service_history_def tenant_of_def tenant_default_def)

definition services_sound :: "(string \<Rightarrow> string) \<Rightarrow> committed_state \<Rightarrow> bool" where
  "services_sound sha256 st \<longleftrightarrow>
     (\<forall>tn ns k h. bt_get (ts_service_records (tenant_of st tn)) (ns, k) = Some h \<longrightarrow> history_ok sha256 (st_revision st) tn ns k h) \<and>
     (\<forall>tn k e. bt_get (ts_service_idempotency (tenant_of st tn)) k = Some e \<longrightarrow> validate_idempotency_entry sha256 st tn e = Inr ()) \<and>
     (\<forall>tn w x. bt_get (ts_worker_states (tenant_of st tn)) w = Some x \<longrightarrow>
        validate_worker_state sha256 (st_revision st) \<lparr>wl_tenant_id = tn, wl_worker = w\<rparr> x = Inr ())"

text \<open>A later state: a larger revision, and histories that only grow.\<close>

definition services_later :: "committed_state \<Rightarrow> committed_state \<Rightarrow> bool" where
  "services_later st st' \<longleftrightarrow> st_revision st \<le> st_revision st' \<and>
     (\<forall>tn k. prefix (entries_at (ts_service_records (tenant_of st tn)) k) (entries_at (ts_service_records (tenant_of st' tn)) k))"

lemma services_later_refl [simp]: "services_later st st"
  by (simp add: services_later_def)

lemma services_later_trans: "services_later a b \<Longrightarrow> services_later b c \<Longrightarrow> services_later a c"
  unfolding services_later_def using order_trans prefix_order.trans by blast

lemma history_get_prefix: "history_get h i = Some r \<Longrightarrow> prefix h h' \<Longrightarrow> history_get h' i = Some r"
  by (auto simp: history_get_def prefix_def nth_append split: if_splits)

lemma version_history_get:
  "Option.bind (service_history st tn ns k) (\<lambda>h. history_get h i) = history_get (entries_at (ts_service_records (tenant_of st tn)) (ns, k)) i"
  by (simp add: service_history_tenant entries_at_def history_get_def split: option.splits)

lemma version_retained_iff:
  "version_retained st tn revision v = Inr () \<longleftrightarrow>
    service_selector (rv_namespace v) MAX_SERVICE_NAMESPACE_BYTES False = Inr () \<and>
    service_selector (rv_key v) MAX_SERVICE_KEY_BYTES False = Inr () \<and> rv_version v \<noteq> 0 \<and>
    (\<exists>r. history_get (entries_at (ts_service_records (tenant_of st tn)) (rv_namespace v, rv_key v)) (unat (rv_version v - 1)) = Some r \<and>
       sr_digest r = rv_digest v \<and> sr_store_revision r = revision)"
  by (auto simp: version_retained_def version_history_get result_simps split: if_splits)

lemma versions_retained_iff: "versions_retained st tn revision vs = Inr () \<longleftrightarrow> list_all (\<lambda>v. version_retained st tn revision v = Inr ()) vs"
  by (induction vs) (auto simp: result_simps)

lemma entry_valid_iff: "validate_idempotency_entry sha256 st tn e = Inr () \<longleftrightarrow>
    validate_response sha256 (sb_response (ie_receipt e)) = Inr () \<and> \<not> sb_replayed (ie_receipt e) \<and> sb_revision (ie_receipt e) \<noteq> 0 \<and>
    sb_revision (ie_receipt e) \<le> st_revision st \<and> sb_records (ie_receipt e) \<noteq> [] \<and>
    length (sb_records (ie_receipt e)) \<le> MAX_SERVICE_BATCH_RECORDS \<and>
    list_all (\<lambda>v. version_retained st tn (sb_revision (ie_receipt e)) v = Inr ()) (sb_records (ie_receipt e))"
  by (auto simp: validate_idempotency_entry_def Let_def result_simps versions_retained_iff not_less split: if_splits)

lemma version_retained_later:
  "version_retained st tn revision v = Inr () \<Longrightarrow> services_later st st' \<Longrightarrow> version_retained st' tn revision v = Inr ()"
  unfolding version_retained_iff services_later_def using history_get_prefix by blast

lemma entry_valid_later:
  "validate_idempotency_entry sha256 st tn e = Inr () \<Longrightarrow> services_later st st' \<Longrightarrow> validate_idempotency_entry sha256 st' tn e = Inr ()"
  unfolding entry_valid_iff list_all_iff using version_retained_later services_later_def order_trans by metis

lemma worker_valid_later:
  "validate_worker_state sha256 r locator w = Inr () \<Longrightarrow> r \<le> r' \<Longrightarrow> validate_worker_state sha256 r' locator w = Inr ()"
  by (auto simp: validate_worker_state_def not_less split: if_splits)

end
