(* ===== verification/Service_Runs.thy ===== *)
theory Service_Runs
  imports Service_History
begin

text \<open>
  What the operations of the service repository do over time: whatever sequence of batches, worker updates, transactions
  and faults a store goes through, its service state passes the integrity checks, batches are atomic compare-and-set
  operations with exact replay, and fencing tokens exclude stale workers.
\<close>

subsection \<open>What a published batch did\<close>

definition batch_published ::
    "(string \<Rightarrow> string) \<Rightarrow> committed_state \<Rightarrow> service_batch \<Rightarrow> committed_state \<Rightarrow> service_batch_receipt \<Rightarrow> bool" where
  "batch_published sha256 latest b st receipt \<longleftrightarrow>
     (let t = tenant_of latest (ba_tenant_id b); t' = tenant_of st (ba_tenant_id b)
      in unat (st_revision st) = unat (st_revision latest) + 1 \<and>
         (case ba_expected_store_revision b of None \<Rightarrow> True | Some e \<Rightarrow> e = st_revision latest) \<and>
         list_all2 (written sha256 (st_revision latest) (st_revision st) (ba_tenant_id b) (ts_service_records t) (ts_service_records t'))
           (ba_writes b) (sb_records receipt) \<and>
         (\<forall>k. k \<notin> set (map write_key (ba_writes b)) \<longrightarrow> bt_get (ts_service_records t') k = bt_get (ts_service_records t) k) \<and>
         (\<forall>tn. tn \<noteq> ba_tenant_id b \<longrightarrow> tenant_of st tn = tenant_of latest tn) \<and>
         receipt = \<lparr>sb_revision = st_revision st, sb_records = sb_records receipt, sb_response = ba_response b, sb_replayed = False\<rparr> \<and>
         ts_service_idempotency t' = (case ba_idempotency b of None \<Rightarrow> ts_service_idempotency t
           | Some i \<Rightarrow> bt_insert (vi_operation i, vi_key i)
               \<lparr>ie_request_digest = vi_request_digest i, ie_receipt = receipt\<rparr> (ts_service_idempotency t)) \<and>
         ts_worker_states t' = ts_worker_states t)"

lemma remember_response_fields [simp]:
  "ts_service_records (remember_response i receipt t) = ts_service_records t"
  "ts_worker_states (remember_response i receipt t) = ts_worker_states t"
  by (cases i; simp add: remember_response_def)+

lemma apply_write_fields:
  "apply_write sha256 latest revision tenant w t = Inr (t', v) \<Longrightarrow>
    ts_service_idempotency t' = ts_service_idempotency t \<and> ts_worker_states t' = ts_worker_states t"
  by (auto simp: apply_write_def Let_def result_simps)

lemma apply_writes_fields:
  "apply_writes sha256 latest revision tenant ws t = Inr (t', vs) \<Longrightarrow>
    ts_service_idempotency t' = ts_service_idempotency t \<and> ts_worker_states t' = ts_worker_states t"
  by (induction ws arbitrary: t vs) (fastforce simp: result_simps dest: apply_write_fields)+

lemma publish_batch_published:
  assumes "publish_batch sha256 sizes latest b = Inr (st, receipt)" "validate_writes (ba_writes b) = Inr u"
  shows "batch_published sha256 latest b st receipt"
proof -
  from assms(1) obtain revision t vs where
    expected: "case ba_expected_store_revision b of None \<Rightarrow> True | Some e \<Rightarrow> e = st_revision latest"
    and revision: "checked_add (st_revision latest) 1 = Some revision"
    and writes: "apply_writes sha256 (st_revision latest) revision (ba_tenant_id b) (ba_writes b) (tenant_of latest (ba_tenant_id b)) = Inr (t, vs)"
    and receipt: "receipt = \<lparr>sb_revision = revision, sb_records = vs, sb_response = ba_response b, sb_replayed = False\<rparr>"
    and st: "st = \<lparr>st_revision = revision, st_tenants = bt_insert (ba_tenant_id b) (remember_response (ba_idempotency b) receipt t) (st_tenants latest)\<rparr>"
    by (auto simp: publish_batch_def Let_def result_simps split: option.splits if_splits)
  have new: "tenant_of st (ba_tenant_id b) = remember_response (ba_idempotency b) receipt t"
    and other: "tn \<noteq> ba_tenant_id b \<Longrightarrow> tenant_of st tn = tenant_of latest tn" for tn
    by (simp_all add: st tenant_of_def bt_get_insert)
  have "ts_service_idempotency (remember_response (ba_idempotency b) receipt t) =
      (case ba_idempotency b of None \<Rightarrow> ts_service_idempotency t
       | Some i \<Rightarrow> bt_insert (vi_operation i, vi_key i)
           \<lparr>ie_request_digest = vi_request_digest i, ie_receipt = receipt\<rparr> (ts_service_idempotency t))"
    by (simp add: remember_response_def split: option.splits)
  with apply_writes_fields [OF writes] apply_writes_untouched [OF writes]
    apply_writes_written [OF writes validate_writes_valid(4) [OF assms(2)]] checked_add_one_SomeD [OF revision]
  show ?thesis unfolding batch_published_def Let_def new using expected other by (simp add: receipt st split: option.splits)
qed

lemma apply_service_batch_published:
  assumes "apply_service_batch sha256 sizes latest b = Inr (Some st, receipt)"
  shows "batch_published sha256 latest b st receipt" "validate_writes (ba_writes b) = Inr ()"
    "service_entry latest (ba_tenant_id b) (ba_idempotency b) = None"
  using assms publish_batch_published
  by (auto simp: apply_service_batch_def result_simps split: option.splits prod.splits if_splits)

lemma published_revision:
  assumes "batch_published sha256 latest b st receipt"
  shows "st_revision latest < st_revision st" "0 < unat (st_revision st)"
  using assms by (auto simp: batch_published_def Let_def word_less_nat_alt)

lemma written_histories:
  assumes "batch_published sha256 latest b st receipt"
  obtains (untouched) "bt_get (ts_service_records (tenant_of st tn)) k = bt_get (ts_service_records (tenant_of latest tn)) k"
  | (touched) w v where "tn = ba_tenant_id b" "w \<in> set (ba_writes b)" "v \<in> set (sb_records receipt)" "k = write_key w"
      "written sha256 (st_revision latest) (st_revision st) tn (ts_service_records (tenant_of latest tn))
         (ts_service_records (tenant_of st tn)) w v"
proof (cases "tn = ba_tenant_id b \<and> k \<in> set (map write_key (ba_writes b))")
  case True
  then obtain w where w: "w \<in> set (ba_writes b)" "k = write_key w" by auto
  moreover have "list_all2 (written sha256 (st_revision latest) (st_revision st) tn (ts_service_records (tenant_of latest tn))
      (ts_service_records (tenant_of st tn))) (ba_writes b) (sb_records receipt)"
    using assms True by (simp add: batch_published_def Let_def)
  ultimately show thesis using touched True unfolding list_all2_conv_all_nth by (metis in_set_conv_nth)
next
  case False
  then show thesis using untouched assms unfolding batch_published_def Let_def by metis
qed

lemma published_later:
  assumes "batch_published sha256 latest b st receipt"
  shows "services_later latest st"
  unfolding services_later_def
proof (intro conjI allI)
  show "st_revision latest \<le> st_revision st" using published_revision(1) [OF assms] by simp
  fix tn k
  show "prefix (entries_at (ts_service_records (tenant_of latest tn)) k) (entries_at (ts_service_records (tenant_of st tn)) k)"
    by (rule written_histories [OF assms, of tn k]) (auto simp: written_def Let_def entries_at_def)
qed

lemma published_history_ok:
  assumes "batch_published sha256 latest b st receipt" "services_sound sha256 latest" "validate_writes (ba_writes b) = Inr ()"
    and "bt_get (ts_service_records (tenant_of st tn)) (ns, k) = Some h"
  shows "history_ok sha256 (st_revision st) tn ns k h"
proof (rule written_histories [OF assms(1), of tn "(ns, k)"])
  assume "bt_get (ts_service_records (tenant_of st tn)) (ns, k) = bt_get (ts_service_records (tenant_of latest tn)) (ns, k)"
  with assms(2,4) have "history_ok sha256 (st_revision latest) tn ns k h" by (auto simp: services_sound_def)
  with published_revision(1) [OF assms(1)] show ?thesis by (auto intro: history_ok_mono)
next
  fix w v
  assume w: "w \<in> set (ba_writes b)" "(ns, k) = write_key w"
    "written sha256 (st_revision latest) (st_revision st) tn (ts_service_records (tenant_of latest tn)) (ts_service_records (tenant_of st tn)) w v"
  have "validate_write w = Inr ()" using validate_writes_valid(3) [OF assms(3)] w(1) by (simp add: list_all_iff)
  note valid = validate_write_valid [OF this]
  from w(2,3) assms(4) published_revision(1) [OF assms(1)] valid show ?thesis
    by (auto simp: written_def Let_def write_key_def record_ok_def intro!: history_ok_append)
qed

lemma published_version_retained:
  assumes "batch_published sha256 latest b st receipt" "validate_writes (ba_writes b) = Inr ()" "v \<in> set (sb_records receipt)"
  shows "version_retained st (ba_tenant_id b) (st_revision st) v = Inr ()"
proof -
  have "list_all2 (written sha256 (st_revision latest) (st_revision st) (ba_tenant_id b)
      (ts_service_records (tenant_of latest (ba_tenant_id b))) (ts_service_records (tenant_of st (ba_tenant_id b)))) (ba_writes b) (sb_records receipt)"
    using assms(1) by (simp add: batch_published_def Let_def)
  with assms(3) obtain w where w: "w \<in> set (ba_writes b)" "written sha256 (st_revision latest) (st_revision st) (ba_tenant_id b)
      (ts_service_records (tenant_of latest (ba_tenant_id b))) (ts_service_records (tenant_of st (ba_tenant_id b))) w v"
    unfolding list_all2_conv_all_nth by (metis in_set_conv_nth)
  have "validate_write w = Inr ()" using validate_writes_valid(3) [OF assms(2)] w(1) by (simp add: list_all_iff)
  note valid = validate_write_valid [OF this]
  let ?h = "entries_at (ts_service_records (tenant_of latest (ba_tenant_id b))) (write_key w)"
  have v: "unat (rv_version v) = length ?h + 1" "rv_namespace v = sw_namespace w" "rv_key v = sw_key w"
    "rv_digest v = exact_digest sha256 (sw_bytes w)" using w(2) by (simp_all add: written_def Let_def)
  have "rv_version v \<noteq> 0" using v(1) by auto
  then have "unat (rv_version v - 1) = length ?h" using v(1) by (simp add: unat_minus_one)
  with \<open>rv_version v \<noteq> 0\<close> v valid(1,2) w(2) show ?thesis
    by (simp add: version_retained_iff written_def Let_def entries_at_def history_get_def write_key_def nth_append)
qed

lemma published_sound:
  assumes "batch_published sha256 latest b st receipt" "services_sound sha256 latest" "validate_writes (ba_writes b) = Inr ()"
    and "validate_response sha256 (ba_response b) = Inr ()"
  shows "services_sound sha256 st"
  unfolding services_sound_def
proof (intro conjI allI impI)
  fix tn ns k h
  assume "bt_get (ts_service_records (tenant_of st tn)) (ns, k) = Some h"
  then show "history_ok sha256 (st_revision st) tn ns k h" by (rule published_history_ok [OF assms(1-3)])
next
  fix tn k e
  assume e: "bt_get (ts_service_idempotency (tenant_of st tn)) k = Some e"
  have old: "validate_idempotency_entry sha256 st tn e = Inr ()" if "bt_get (ts_service_idempotency (tenant_of latest tn)) k = Some e"
    using that assms(2) entry_valid_later published_later [OF assms(1)] unfolding services_sound_def by blast
  show "validate_idempotency_entry sha256 st tn e = Inr ()"
  proof (cases "tn = ba_tenant_id b \<and> ie_receipt e = receipt")
    case True
    have "sb_records receipt \<noteq> []" "length (sb_records receipt) \<le> MAX_SERVICE_BATCH_RECORDS"
      using assms(1) validate_writes_valid(1,2) [OF assms(3)] by (auto simp: batch_published_def Let_def dest: list_all2_lengthD)
    moreover have "sb_response receipt = ba_response b" "\<not> sb_replayed receipt" "sb_revision receipt = st_revision st"
      using assms(1) unfolding batch_published_def Let_def by (metis service_batch_receipt.simps)+
    ultimately show ?thesis using True assms(4) published_revision(2) [OF assms(1)] published_version_retained [OF assms(1,3)]
      by (auto simp: entry_valid_iff list_all_iff)
  next
    case False
    then have "bt_get (ts_service_idempotency (tenant_of latest tn)) k = Some e" using e assms(1)
      by (cases "tn = ba_tenant_id b") (auto simp: batch_published_def Let_def bt_get_insert split: option.splits if_splits)
    then show ?thesis by (rule old)
  qed
next
  fix tn w x
  assume "bt_get (ts_worker_states (tenant_of st tn)) w = Some x"
  then have "bt_get (ts_worker_states (tenant_of latest tn)) w = Some x" using assms(1)
    by (cases "tn = ba_tenant_id b") (auto simp: batch_published_def Let_def)
  then show "validate_worker_state sha256 (st_revision st) \<lparr>wl_tenant_id = tn, wl_worker = w\<rparr> x = Inr ()"
    using assms(2) worker_valid_later less_imp_le [OF published_revision(1) [OF assms(1)]] unfolding services_sound_def by blast
qed

subsection \<open>What an accepted worker update did\<close>

definition worker_at :: "committed_state \<Rightarrow> worker_locator \<Rightarrow> worker_state option" where
  "worker_at st locator = bt_get (ts_worker_states (tenant_of st (wl_tenant_id locator))) (wl_worker locator)"

definition worker_updated ::
    "(string \<Rightarrow> string) \<Rightarrow> committed_state \<Rightarrow> worker_locator \<Rightarrow> worker_update \<Rightarrow> committed_state \<Rightarrow> worker_state \<Rightarrow> bool" where
  "worker_updated sha256 latest locator u st w \<longleftrightarrow>
     unat (st_revision st) = unat (st_revision latest) + 1 \<and> validate_worker_update u = Inr () \<and>
     transition_worker sha256 locator (worker_at latest locator) u (st_revision st) = Inr w \<and>
     (\<forall>x. worker_at latest locator = Some x \<longrightarrow> validate_worker_state sha256 (st_revision latest) locator x = Inr ()) \<and>
     worker_at st locator = Some w \<and>
     (\<forall>locator'. locator' \<noteq> locator \<longrightarrow> worker_at st locator' = worker_at latest locator') \<and>
     (\<forall>tn. ts_service_records (tenant_of st tn) = ts_service_records (tenant_of latest tn) \<and>
        ts_service_idempotency (tenant_of st tn) = ts_service_idempotency (tenant_of latest tn))"

lemma apply_worker_update_updated:
  assumes "apply_worker_update sha256 latest locator u = Inr (st, w)"
  shows "worker_updated sha256 latest locator u st w"
proof -
  let ?tn = "wl_tenant_id locator"
  from assms obtain revision where revision: "checked_add (st_revision latest) 1 = Some revision"
    and valid: "validate_worker_update u = Inr ()"
      "case worker_at latest locator of None \<Rightarrow> True | Some x \<Rightarrow> validate_worker_state sha256 (st_revision latest) locator x = Inr ()"
    and w: "transition_worker sha256 locator (worker_at latest locator) u revision = Inr w"
    and st: "st = \<lparr>st_revision = revision, st_tenants = bt_insert ?tn
        ((tenant_of latest ?tn)\<lparr>ts_worker_states := bt_insert (wl_worker locator) w (ts_worker_states (tenant_of latest ?tn))\<rparr>) (st_tenants latest)\<rparr>"
    by (auto simp: apply_worker_update_def Let_def result_simps simp flip: worker_at_def split: option.splits)
  have new: "tenant_of st ?tn = (tenant_of latest ?tn)\<lparr>ts_worker_states := bt_insert (wl_worker locator) w (ts_worker_states (tenant_of latest ?tn))\<rparr>"
    and other: "tn \<noteq> ?tn \<Longrightarrow> tenant_of st tn = tenant_of latest tn" for tn
    by (simp_all add: st tenant_of_def bt_get_insert)
  have "worker_at st locator = Some w" by (simp add: worker_at_def new bt_get_insert)
  moreover have "worker_at st l = worker_at latest l" if "l \<noteq> locator" for l
  proof (cases "wl_tenant_id l = ?tn")
    case True
    with that have "wl_worker l \<noteq> wl_worker locator" by (cases l; cases locator) simp
    with True new show ?thesis by (simp add: worker_at_def bt_get_insert)
  qed (simp add: worker_at_def other)
  moreover have "ts_service_records (tenant_of st tn) = ts_service_records (tenant_of latest tn) \<and>
      ts_service_idempotency (tenant_of st tn) = ts_service_idempotency (tenant_of latest tn)" for tn
    using other [of tn] new by (cases "tn = ?tn") simp_all
  moreover have "unat (st_revision st) = unat (st_revision latest) + 1" "st_revision st = revision"
    using checked_add_one_SomeD [OF revision] by (simp_all add: st)
  ultimately show ?thesis using valid w unfolding worker_updated_def by (simp split: option.splits)
qed

lemma increment_Inr [simp]: "increment n = Inr m \<longleftrightarrow> checked_add n 1 = Some m"
  by (simp add: increment_def result_simps)

lemma check_update_Inr [simp]: "check_update bad e = Inr u \<longleftrightarrow> \<not> bad"
  by (simp add: check_update_def)

lemma incremented: "checked_add (n :: u64) 1 = Some m \<Longrightarrow> n < m \<and> m \<noteq> 0"
  using checked_add_one_SomeD [of n m] by (auto simp: word_less_nat_alt)

lemma transition_worker_valid:
  assumes "transition_worker sha256 locator current u revision = Inr w" "validate_worker_update u = Inr ()" "revision \<noteq> 0"
    and "\<And>x. current = Some x \<Longrightarrow> validate_worker_state sha256 latest locator x = Inr ()"
  shows "validate_worker_state sha256 revision locator w = Inr ()"
  using assms
  by (cases u; cases current)
     (auto simp: validate_worker_state_def lease_shape_valid_def validate_worker_update_def Let_def result_simps
       split: if_splits dest!: incremented)


lemma updated_later:
  assumes "worker_updated sha256 latest locator u st w"
  shows "services_later latest st" "st_revision latest < st_revision st" "st_revision st \<noteq> 0"
  using assms by (auto simp: worker_updated_def services_later_def word_less_nat_alt word_le_nat_alt entries_at_def)

lemma worker_at_fields: "bt_get (ts_worker_states (tenant_of st tn)) worker = worker_at st \<lparr>wl_tenant_id = tn, wl_worker = worker\<rparr>"
  by (simp add: worker_at_def)

lemma updated_sound:
  assumes "worker_updated sha256 latest locator u st w" "services_sound sha256 latest"
  shows "services_sound sha256 st"
  unfolding services_sound_def
proof (intro conjI allI impI)
  fix tn ns k h
  assume "bt_get (ts_service_records (tenant_of st tn)) (ns, k) = Some h"
  then have "history_ok sha256 (st_revision latest) tn ns k h" using assms by (simp add: worker_updated_def services_sound_def)
  with updated_later(2) [OF assms(1)] show "history_ok sha256 (st_revision st) tn ns k h" by (auto intro: history_ok_mono)
next
  fix tn k e
  assume "bt_get (ts_service_idempotency (tenant_of st tn)) k = Some e"
  then have "bt_get (ts_service_idempotency (tenant_of latest tn)) k = Some e" using assms(1) by (simp add: worker_updated_def)
  then have "validate_idempotency_entry sha256 latest tn e = Inr ()" using assms(2) unfolding services_sound_def by blast
  then show "validate_idempotency_entry sha256 st tn e = Inr ()" by (rule entry_valid_later [OF _ updated_later(1) [OF assms(1)]])
next
  fix tn worker x
  let ?l = "\<lparr>wl_tenant_id = tn, wl_worker = worker\<rparr>"
  assume "bt_get (ts_worker_states (tenant_of st tn)) worker = Some x"
  then have x: "worker_at st ?l = Some x" by (simp add: worker_at_fields)
  show "validate_worker_state sha256 (st_revision st) ?l x = Inr ()"
  proof (cases "?l = locator")
    case True
    with x have "x = w" using assms(1) by (auto simp: worker_updated_def)
    moreover have "validate_worker_state sha256 (st_revision st) locator w = Inr ()"
      by (rule transition_worker_valid [of sha256 locator "worker_at latest locator" u _ _ "st_revision latest"])
        (use assms(1) updated_later(3) [OF assms(1)] in \<open>auto simp: worker_updated_def\<close>)
    ultimately show ?thesis using True by simp
  next
    case False
    with x assms(1) have "worker_at latest ?l = Some x" unfolding worker_updated_def by metis
    then have "validate_worker_state sha256 (st_revision latest) ?l x = Inr ()"
      using assms(2) unfolding services_sound_def worker_at_fields by blast
    then show ?thesis by (rule worker_valid_later) (use updated_later(2) [OF assms(1)] in simp)
  qed
qed

subsection \<open>Along a run\<close>

text \<open>What one step of the repository does to the latest state.\<close>

inductive step_of :: "(string \<Rightarrow> string) \<Rightarrow> committed_state \<Rightarrow> committed_state \<Rightarrow> bool" for sha256 latest where
  published: "batch_published sha256 latest b st receipt \<Longrightarrow> validate_writes (ba_writes b) = Inr () \<Longrightarrow>
    service_entry latest (ba_tenant_id b) (ba_idempotency b) = None \<Longrightarrow> validate_response sha256 (ba_response b) = Inr () \<Longrightarrow>
    step_of sha256 latest st"
| updated: "worker_updated sha256 latest locator u st w \<Longrightarrow> step_of sha256 latest st"
| carried: "unat (st_revision st) = unat (st_revision latest) + 1 \<Longrightarrow>
    (\<And>tn. ts_service_records (tenant_of st tn) = ts_service_records (tenant_of latest tn)) \<Longrightarrow>
    (\<And>tn. ts_service_idempotency (tenant_of st tn) = ts_service_idempotency (tenant_of latest tn)) \<Longrightarrow>
    (\<And>tn. ts_worker_states (tenant_of st tn) = ts_worker_states (tenant_of latest tn)) \<Longrightarrow> step_of sha256 latest st"

lemma response_new_valid: "response_new sha256 status content_type bytes = Inr r \<Longrightarrow> validate_response sha256 r = Inr ()"
  by (auto simp: response_new_def validate_response_def split: if_splits)

lemma service_commit_step:
  assumes "service_commit sha256 sizes s b c c' = (s', x)" "validate_response sha256 (ba_response b) = Inr ()"
  shows "ms_history s' = ms_history s \<or>
    (\<exists>st. ms_history s \<noteq> [] \<and> ms_history s' = ms_history s @ [st] \<and> step_of sha256 (last (ms_history s)) st)"
proof (cases rule: service_commit_cases [of sha256 sizes s b c c'])
  case (accepted st receipt)
  have "step_of sha256 (last (ms_history s)) st"
    by (rule step_of.published [OF apply_service_batch_published [OF accepted(3)] assms(2)])
  with accepted(1,2) assms(1) show ?thesis by auto
qed (use assms(1) in auto)

lemma worker_update_step:
  assumes "worker_update sha256 s locator u c c' = (s', x)"
  shows "ms_history s' = ms_history s \<or>
    (\<exists>st. ms_history s \<noteq> [] \<and> ms_history s' = ms_history s @ [st] \<and> step_of sha256 (last (ms_history s)) st)"
proof (cases rule: worker_update_cases [of sha256 s locator u c c'])
  case (accepted st w)
  with step_of.updated [OF apply_worker_update_updated] assms show ?thesis by auto
qed (use assms in auto)

lemma service_run_induct [consumes 1, case_names start step]:
  assumes "service_run sha256 sizes s0 s" "P (ms_history s0)"
    and "\<And>h st. h \<noteq> [] \<Longrightarrow> P h \<Longrightarrow> step_of sha256 (last h) st \<Longrightarrow> P (h @ [st])"
  shows "P (ms_history s)"
  using assms(1)
proof (induction rule: service_run.induct)
  case (batch s status content_type bytes b c c' s' x)
  with service_commit_step [OF batch(3) response_new_valid [OF batch(2)]] assms(3) show ?case by metis
next
  case (worker s locator u c c' s' y)
  with worker_update_step [OF worker(2)] assms(3) show ?case by metis
next
  case (transaction s tenant revision staged identity s' z)
  show ?case
  proof (rule transaction_step [OF transaction(2)])
    fix st
    assume st: "ms_history s \<noteq> []" "ms_history s' = ms_history s @ [st]" "unat (st_revision st) = unat (st_revision (last (ms_history s))) + 1"
      "\<And>tn. ts_service_records (tenant_of st tn) = ts_service_records (tenant_of (last (ms_history s)) tn)"
      "\<And>tn. ts_service_idempotency (tenant_of st tn) = ts_service_idempotency (tenant_of (last (ms_history s)) tn)"
      "\<And>tn. ts_worker_states (tenant_of st tn) = ts_worker_states (tenant_of (last (ms_history s)) tn)"
    from step_of.carried [OF st(3-6)] transaction.IH st(1,2) assms(3) show ?thesis by simp
  qed (use transaction.IH in simp)
qed (simp_all add: assms(2))

lemma carried_worker:
  "(\<And>tn. ts_worker_states (tenant_of st tn) = ts_worker_states (tenant_of latest tn)) \<Longrightarrow> worker_at st l = worker_at latest l"
  by (simp add: worker_at_def)

lemma step_later: "step_of sha256 latest st \<Longrightarrow> services_later latest st"
  by (induction rule: step_of.induct)
     (blast intro: published_later updated_later(1), blast intro: updated_later(1),
      simp add: services_later_def word_le_nat_alt entries_at_def)

lemma step_sound: "step_of sha256 latest st \<Longrightarrow> services_sound sha256 latest \<Longrightarrow> services_sound sha256 st"
proof (induction rule: step_of.induct)
  case (published b st receipt)
  from published_sound [OF published(1,5,2,4)] show ?case .
next
  case (updated locator u st w)
  from updated_sound [OF updated] show ?case .
next
  case (carried st)
  then have later: "services_later latest st" by (simp add: services_later_def word_le_nat_alt entries_at_def)
  then have "st_revision latest \<le> st_revision st" by (simp add: services_later_def)
  note revision = this
  show ?case unfolding services_sound_def carried(2-4)
    using carried(5) revision later unfolding services_sound_def
    by (intro conjI allI impI) (blast intro: history_ok_mono, blast intro: entry_valid_later, blast intro: worker_valid_later)
qed

lemma run_sound:
  assumes "service_run sha256 sizes store_default s"
  shows "ms_history s \<noteq> [] \<and> (\<forall>st \<in> set (ms_history s). services_sound sha256 st)"
  using assms
proof (induction rule: service_run_induct)
  case start
  show ?case by (simp add: store_default_def services_sound_def tenant_of_def tenant_default_def)
next
  case (step h st)
  then show ?case using step_sound [of sha256 "last h" st] by auto
qed

lemma run_later:
  assumes "service_run sha256 sizes s s'" "ms_history s \<noteq> []"
  shows "ms_history s' \<noteq> [] \<and> services_later (last (ms_history s)) (last (ms_history s'))"
  using assms by (induction rule: service_run_induct) (auto intro: services_later_trans step_later)

text \<open>Retained responses stay.\<close>

lemma step_entries:
  assumes "step_of sha256 latest st" "bt_get (ts_service_idempotency (tenant_of latest tn)) k = Some e"
  shows "bt_get (ts_service_idempotency (tenant_of st tn)) k = Some e"
  using assms
proof (induction rule: step_of.induct)
  case (published b st receipt)
  have "service_entry latest (ba_tenant_id b) (Some i) = None \<longleftrightarrow>
      bt_get (ts_service_idempotency (tenant_of latest (ba_tenant_id b))) (vi_operation i, vi_key i) = None" for i
    by (simp add: service_entry_def tenant_of_def tenant_default_def split: option.splits)
  with published show ?case
    by (cases "tn = ba_tenant_id b") (auto simp: batch_published_def Let_def bt_get_insert split: option.splits)
qed (auto simp: worker_updated_def)

lemma run_entries:
  assumes "service_run sha256 sizes s s'" "ms_history s \<noteq> []"
    and "bt_get (ts_service_idempotency (tenant_of (last (ms_history s)) tn)) k = Some e"
  shows "bt_get (ts_service_idempotency (tenant_of (last (ms_history s')) tn)) k = Some e"
  using assms by (induction rule: service_run_induct) (auto dest: step_entries)

text \<open>Fencing tokens: a later state has a larger token, or the same one and the same owner unless it was released.\<close>

definition fence_le :: "worker_state \<Rightarrow> worker_state \<Rightarrow> bool" where
  "fence_le a b \<longleftrightarrow> ws_fencing_token a < ws_fencing_token b \<or>
     ws_fencing_token a = ws_fencing_token b \<and> (ws_lease_owner b = ws_lease_owner a \<or> ws_lease_owner b = None)"

lemma fence_le_refl [simp]: "fence_le a a"
  by (simp add: fence_le_def)

lemma fence_le_trans: "fence_le a b \<Longrightarrow> fence_le b c \<Longrightarrow> fence_le a c"
  by (auto simp: fence_le_def)

lemma transition_worker_fence:
  "transition_worker sha256 locator (Some a) u revision = Inr b \<Longrightarrow> fence_le a b"
  by (cases u) (auto simp: fence_le_def Let_def result_simps dest!: incremented)

lemma step_fence:
  assumes "step_of sha256 latest st" "worker_at latest l = Some a"
  shows "\<exists>b. worker_at st l = Some b \<and> fence_le a b"
  using assms(1)
proof cases
  case (published b receipt)
  then have "ts_worker_states (tenant_of st tn) = ts_worker_states (tenant_of latest tn)" for tn
    by (cases "tn = ba_tenant_id b") (simp_all add: batch_published_def Let_def)
  from carried_worker [OF this] assms(2) show ?thesis by simp
next
  case (updated locator u w)
  show ?thesis
  proof (cases "l = locator")
    case True
    with updated assms(2) have "worker_at st l = Some w" "transition_worker sha256 locator (Some a) u (st_revision st) = Inr w"
      by (simp_all add: worker_updated_def)
    with transition_worker_fence show ?thesis by blast
  next
    case False
    with updated assms(2) have "worker_at st l = Some a" unfolding worker_updated_def by metis
    then show ?thesis by simp
  qed
next
  case carried
  then show ?thesis using carried_worker [of st latest l] assms(2) by simp
qed

lemma run_fence:
  assumes "service_run sha256 sizes s s'" "ms_history s \<noteq> []" "worker_at (last (ms_history s)) l = Some a"
  obtains b where "worker_at (last (ms_history s')) l = Some b" "fence_le a b"
proof -
  have "\<exists>b. worker_at (last (ms_history s')) l = Some b \<and> fence_le a b"
    using assms
  proof (induction rule: service_run_induct)
    case (step h st)
    then obtain b where "worker_at (last h) l = Some b" "fence_le a b" by auto
    moreover have "step_of sha256 (last h) st" by fact
    ultimately show ?case using step_fence fence_le_trans by (metis last_snoc)
  qed auto
  with that show thesis by blast
qed

end
