(* ===== verification/Service_Guarantees.thy ===== *)
theory Service_Guarantees
  imports Service_Runs
begin

text \<open>
  What the service repository guarantees its clients: batches are atomic compare-and-set operations, retained responses
  are replayed exactly, published versions are immutable, every committed state passes the integrity check of the durable
  stores, and stale workers are fenced off.
\<close>

subsection \<open>Ordered maps\<close>

definition services_shaped :: "committed_state \<Rightarrow> bool" where
  "services_shaped st \<longleftrightarrow> bt_invar (st_tenants st) \<and> (\<forall>tn. bt_invar (ts_service_records (tenant_of st tn)) \<and>
     bt_invar (ts_service_idempotency (tenant_of st tn)) \<and> bt_invar (ts_worker_states (tenant_of st tn)))"

lemma services_shaped_insert:
  assumes "services_shaped latest" "st_tenants st = bt_insert tn t (st_tenants latest)"
    and "bt_invar (ts_service_records t)" "bt_invar (ts_service_idempotency t)" "bt_invar (ts_worker_states t)"
  shows "services_shaped st"
  using assms by (auto simp: services_shaped_def tenant_of_def bt_get_insert bt_invar_insert)

lemma apply_writes_shaped:
  "apply_writes sha256 latest revision tn ws t = Inr (t', vs) \<Longrightarrow> bt_invar (ts_service_records t) \<Longrightarrow> bt_invar (ts_service_records t')"
proof (induction ws arbitrary: t vs)
  case (Cons w ws)
  then obtain t1 v vs' where step: "apply_write sha256 latest revision tn w t = Inr (t1, v)"
    "apply_writes sha256 latest revision tn ws t1 = Inr (t', vs')" by (auto simp: result_simps)
  from step(1) Cons.prems(2) have "bt_invar (ts_service_records t1)"
    by (auto simp: apply_write_def Let_def result_simps bt_invar_insert)
  with Cons.IH [OF step(2)] show ?case .
qed simp

lemma publish_batch_shaped:
  assumes "publish_batch sha256 sizes latest b = Inr (st, receipt)" "services_shaped latest"
  shows "services_shaped st"
proof -
  from assms(1) obtain revision t vs where
    writes: "apply_writes sha256 (st_revision latest) revision (ba_tenant_id b) (ba_writes b) (tenant_of latest (ba_tenant_id b)) = Inr (t, vs)"
    and st: "st_tenants st = bt_insert (ba_tenant_id b) (remember_response (ba_idempotency b) receipt t) (st_tenants latest)"
    by (auto simp: publish_batch_def Let_def result_simps)
  have t: "bt_invar (ts_service_records t)" "bt_invar (ts_service_idempotency t)" "bt_invar (ts_worker_states t)"
    using assms(2) apply_writes_fields [OF writes] apply_writes_shaped [OF writes] by (simp_all add: services_shaped_def)
  moreover from t(2) have "bt_invar (ts_service_idempotency (remember_response (ba_idempotency b) receipt t))"
    by (simp add: remember_response_def bt_invar_insert split: option.splits)
  ultimately show ?thesis by (intro services_shaped_insert [OF assms(2) st]) simp_all
qed

lemma apply_service_batch_shaped:
  "apply_service_batch sha256 sizes latest b = Inr (Some st, receipt) \<Longrightarrow> services_shaped latest \<Longrightarrow> services_shaped st"
  by (auto simp: apply_service_batch_def result_simps split: option.splits prod.splits if_splits dest: publish_batch_shaped)

lemma apply_worker_update_shaped:
  assumes "apply_worker_update sha256 latest locator u = Inr (st, w)" "services_shaped latest"
  shows "services_shaped st"
proof -
  let ?t = "tenant_of latest (wl_tenant_id locator)"
  from assms(1) have "st_tenants st = bt_insert (wl_tenant_id locator)
      (?t\<lparr>ts_worker_states := bt_insert (wl_worker locator) w (ts_worker_states ?t)\<rparr>) (st_tenants latest)"
    by (auto simp: apply_worker_update_def Let_def result_simps)
  then show ?thesis
    by (rule services_shaped_insert [OF assms(2)]) (use assms(2) in \<open>simp_all add: services_shaped_def bt_invar_insert\<close>)
qed

lemma next_state_shaped:
  assumes "next_state latest tenant staged identity = Inr (st, receipt)" "services_shaped latest"
  shows "services_shaped st"
proof -
  from assms(1) obtain revision t where t: "apply_mutations staged revision (tenant_of latest tenant) = Inr t"
    and st: "st_tenants st = bt_insert tenant (remember identity receipt t) (st_tenants latest)"
    by (auto simp: next_state_def Let_def result_simps)
  have "keeps (tenant_of latest tenant) t" by (rule apply_mutations_keeps [OF t])
  moreover obtain i where "remember identity receipt t = t\<lparr>ts_idempotency := i\<rparr>" using remember_idempotency_only by blast
  ultimately show ?thesis using assms(2)
    by (intro services_shaped_insert [OF assms(2) st]) (simp_all add: keeps_def services_shaped_def)
qed

lemma run_shaped:
  assumes "service_run sha256 sizes s s'" "\<forall>st \<in> set (ms_history s). services_shaped st"
  shows "\<forall>st \<in> set (ms_history s'). services_shaped st"
  using assms
proof (induction rule: service_run.induct)
  case (batch s status content_type bytes b c c' s' x)
  then show ?case using apply_service_batch_shaped [of sha256 sizes "last (ms_history s)" b]
    by (cases rule: service_commit_cases [of sha256 sizes s b c c']) auto
next
  case (worker s locator u c c' s' y)
  then show ?case using apply_worker_update_shaped [of sha256 "last (ms_history s)" locator u]
    by (cases rule: worker_update_cases [of sha256 s locator u c c']) auto
next
  case (transaction s tenant revision staged identity s' z)
  then show ?case using next_state_shaped [of "last (ms_history s)" tenant staged identity]
    by (cases rule: commit_cases [of tenant revision staged identity s]) auto
qed simp_all

lemma run_shaped_default:
  "service_run sha256 sizes store_default s \<Longrightarrow> st \<in> set (ms_history s) \<Longrightarrow> services_shaped st"
  using run_shaped [of sha256 sizes store_default s] by (simp add: store_default_def services_shaped_def tenant_of_def tenant_default_def)

lemma first_error_iff: "first_error f xs = Inr () \<longleftrightarrow> (\<forall>x \<in> set xs. f x = Inr ())"
  by (induction xs) (auto simp: result_simps)

subsection \<open>Properties\<close>

text \<open>
  (C12) Service batches are atomic compare-and-set operations. A refused batch leaves every committed state as it was; a
  replayed one changes nothing; and a batch that is published at a new revision appends to the history of each key it
  writes exactly the record it asked for, under the next version and only if the expectation held of the version before,
  and leaves every other key and every other tenant alone.
\<close>

theorem service_batches_are_atomic:
  assumes "service_commit sha256 sizes s b cancelled cancelled_late = (s', r)"
  shows "case r of
      Inl e \<Rightarrow> ms_history s' = ms_history s
    | Inr receipt \<Rightarrow> if sb_replayed receipt then s' = s
        else \<exists>st. ms_history s' = ms_history s @ [st] \<and> batch_published sha256 (last (ms_history s)) b st receipt"
proof (cases rule: service_commit_cases [of sha256 sizes s b cancelled cancelled_late])
  case (replayed receipt)
  then have "sb_replayed receipt"
    by (auto simp: apply_service_batch_def result_simps split: option.splits prod.splits if_splits)
  with replayed(1) assms show ?thesis by auto
next
  case (accepted st receipt)
  note published = apply_service_batch_published(1) [OF accepted(3)]
  then have "\<not> sb_replayed receipt" unfolding batch_published_def Let_def by (metis service_batch_receipt.select_convs(4))
  with published accepted(1) assms show ?thesis by auto
qed (use assms in auto)

lemma service_entry_Some:
  "service_entry st tn (Some i) = map_option (Pair i) (bt_get (ts_service_idempotency (tenant_of st tn)) (vi_operation i, vi_key i))"
  by (simp add: service_entry_def tenant_of_def tenant_default_def split: option.splits)

lemma accepted_entry:
  assumes "service_commit sha256 sizes s b c c' = (s', Inr receipt)" "ba_idempotency b = Some i"
  obtains e where "ms_history s' \<noteq> []"
    "bt_get (ts_service_idempotency (tenant_of (last (ms_history s')) (ba_tenant_id b))) (vi_operation i, vi_key i) = Some e"
    "ie_request_digest e = vi_request_digest i" "(ie_receipt e)\<lparr>sb_replayed := True\<rparr> = receipt\<lparr>sb_replayed := True\<rparr>"
proof (cases rule: service_commit_cases [of sha256 sizes s b c c'])
  case (replayed receipt')
  then show thesis using assms that
    by (auto simp: apply_service_batch_def service_entry_Some result_simps split: option.splits prod.splits if_splits)
next
  case (accepted st receipt')
  with assms have s': "ms_history s' = ms_history s @ [st]" "receipt' = receipt" by auto
  have "batch_published sha256 (last (ms_history s)) b st receipt" using apply_service_batch_published(1) [OF accepted(3)] s'(2) by simp
  then have "bt_get (ts_service_idempotency (tenant_of st (ba_tenant_id b))) (vi_operation i, vi_key i) =
      Some \<lparr>ie_request_digest = vi_request_digest i, ie_receipt = receipt\<rparr>"
    by (simp add: batch_published_def Let_def assms(2) bt_get_insert)
  then show thesis using that [of "\<lparr>ie_request_digest = vi_request_digest i, ie_receipt = receipt\<rparr>"] by (simp add: s'(1))
qed (use assms in auto)

text \<open>
  (C13) A retained response is replayed exactly. Once a batch with an idempotency identity has been answered, then whatever
  happens to the store in between, a batch of the same tenant under the same operation and key gets the same revision,
  records and response again, marked as replayed, without a change to the store; a different request under that identity
  is refused.
\<close>

theorem service_responses_replay_exactly:
  assumes "service_run sha256 sizes store_default s" "response_new sha256 status content_type bytes = Inr (ba_response b)"
    and "service_commit sha256 sizes s b cancelled cancelled_late = (s1, Inr receipt)" "ba_idempotency b = Some i"
    and "service_run sha256 sizes s1 s2"
    and "ba_tenant_id b' = ba_tenant_id b" "ba_idempotency b' = Some i'" "vi_operation i' = vi_operation i" "vi_key i' = vi_key i"
    and "validate_writes (ba_writes b') = Inr ()"
  shows "service_commit sha256 sizes s2 b' False late =
    (s2, if vi_request_digest i' = vi_request_digest i then Inr (receipt\<lparr>sb_replayed := True\<rparr>) else Inl VIdempotencyConflict)"
proof -
  obtain e where e: "ms_history s1 \<noteq> []"
    "bt_get (ts_service_idempotency (tenant_of (last (ms_history s1)) (ba_tenant_id b))) (vi_operation i, vi_key i) = Some e"
    "ie_request_digest e = vi_request_digest i" "(ie_receipt e)\<lparr>sb_replayed := True\<rparr> = receipt\<lparr>sb_replayed := True\<rparr>"
    using accepted_entry [OF assms(3,4)] by blast
  have run: "service_run sha256 sizes store_default s2"
    using service_run_trans [OF assms(5)] service_run.batch [OF assms(1,2,3)] by blast
  have "ms_history s2 \<noteq> []" "services_sound sha256 (last (ms_history s2))" using run_sound [OF run] by simp_all
  moreover have entry: "service_entry (last (ms_history s2)) (ba_tenant_id b') (ba_idempotency b') = Some (i', e)"
    using run_entries [OF assms(5) e(1,2)] assms(6-9) by (simp add: service_entry_Some)
  ultimately have "validate_idempotency_entry sha256 (last (ms_history s2)) (ba_tenant_id b') e = Inr ()"
    using run_entries [OF assms(5) e(1,2)] assms(6) unfolding services_sound_def by metis
  with \<open>ms_history s2 \<noteq> []\<close> entry e(3,4) assms(10) show ?thesis
    by (auto simp: service_commit_def check_cancellation_def latest_state_def apply_service_batch_def)
qed

lemma service_get_sound:
  assumes "ms_history s \<noteq> []" "services_sound sha256 (last (ms_history s))"
  shows "service_get sha256 s l selection False = (let h = entries_at (ts_service_records (tenant_of (last (ms_history s)) (sl_tenant_id l)))
      (sl_namespace l, sl_key l) in case selection of
        LatestVersion \<Rightarrow> Inr (if h = [] then None else Some (last h))
      | ExactVersion v \<Rightarrow> if service_history (last (ms_history s)) (sl_tenant_id l) (sl_namespace l) (sl_key l) \<noteq> None \<and> v = 0
          then Inl VInvalidInput else Inr (history_get h (unat (v - 1))))"
proof (cases "service_history (last (ms_history s)) (sl_tenant_id l) (sl_namespace l) (sl_key l)")
  case None
  then show ?thesis using assms(1)
    by (auto simp: service_get_def check_cancellation_def latest_state_def service_get_from_state_def service_history_tenant
        entries_at_def history_get_def split: service_record_selection.splits)
next
  case (Some h)
  then have "validate_record_history sha256 (st_revision (last (ms_history s))) (sl_tenant_id l) (sl_namespace l) (sl_key l) h = Inr ()"
    using assms(2) by (auto simp: services_sound_def service_history_tenant)
  with Some assms(1) show ?thesis
    by (auto simp: service_get_def check_cancellation_def latest_state_def service_get_from_state_def service_history_tenant
        entries_at_def word_neq_0_conv simp del: validate_record_history_iff split: service_record_selection.splits)
qed

text \<open>
  (C14) Published versions of service records are immutable: what any read returned stays readable under its exact
  version, digest and bytes included, after every later operation, and the latest version never falls behind it.
\<close>

theorem service_versions_are_immutable:
  assumes "service_run sha256 sizes store_default s" "service_get sha256 s l selection False = Inr (Some r)"
    and "service_run sha256 sizes s s'"
  shows "service_get sha256 s' l (ExactVersion (sr_version r)) False = Inr (Some r) \<and> sr_locator r = l \<and>
    exact_digest sha256 (sr_bytes r) = sr_digest r \<and>
    (\<exists>latest. service_get sha256 s' l LatestVersion False = Inr (Some latest) \<and> sr_version r \<le> sr_version latest)"
proof -
  let ?h = "\<lambda>s. entries_at (ts_service_records (tenant_of (last (ms_history s)) (sl_tenant_id l))) (sl_namespace l, sl_key l)"
  note run = service_run_trans [OF assms(3,1)]
  have s: "ms_history s \<noteq> []" "services_sound sha256 (last (ms_history s))"
    and s': "ms_history s' \<noteq> []" "services_sound sha256 (last (ms_history s'))" using run_sound [OF assms(1)] run_sound [OF run] by simp_all
  from assms(2) obtain i where i: "i < length (?h s)" "r = ?h s ! i"
    unfolding service_get_sound [OF s] Let_def
    by (cases selection) (auto simp: history_get_def in_set_conv_nth dest!: last_in_set split: if_splits)
  have pre: "prefix (?h s) (?h s')" using run_later [OF assms(3) s(1)] by (simp add: services_later_def)
  then have i': "i < length (?h s')" "r = ?h s' ! i" using i by (auto simp: prefix_def nth_append)
  from i'(1) have some: "service_history (last (ms_history s')) (sl_tenant_id l) (sl_namespace l) (sl_key l) = Some (?h s')"
    by (simp add: service_history_tenant entries_at_def split: option.splits)
  then have ok: "history_ok sha256 (st_revision (last (ms_history s'))) (sl_tenant_id l) (sl_namespace l) (sl_key l) (?h s')"
    using s'(2) by (auto simp: services_sound_def service_history_tenant)
  from history_ok_nth [OF ok i'(1)] have version: "unat (sr_version r) = i + 1" and valid: "record_ok sha256 (st_revision (last (ms_history s'))) (sl_tenant_id l) (sl_namespace l) (sl_key l) r"
    by (simp_all add: i'(2))
  then have "sr_version r \<noteq> 0" by auto
  then have "unat (sr_version r - 1) = i" using version by (simp add: unat_minus_one)
  with i' \<open>sr_version r \<noteq> 0\<close> have "service_get sha256 s' l (ExactVersion (sr_version r)) False = Inr (Some r)"
    unfolding service_get_sound [OF s'] Let_def by (simp add: history_get_def)
  moreover have "service_get sha256 s' l LatestVersion False = Inr (Some (last (?h s')))"
    unfolding service_get_sound [OF s'] Let_def using i'(1) by auto
  moreover have "sr_version r \<le> sr_version (last (?h s'))"
    using history_ok_nth(1) [OF ok, of "length (?h s') - 1"] version i'(1) by (subst last_conv_nth) (auto simp: word_le_nat_alt)
  moreover have "sr_locator r = l" using valid by (cases l) (simp add: record_ok_def)
  ultimately show ?thesis using valid by (auto simp: record_ok_def)
qed

text \<open>
  (C15) Every state the repository commits passes the integrity check that the durable stores run on a loaded state, up to
  the retention limits: histories, retained responses and worker leases are always valid, so that only a tenant that holds
  more than the limits allow is refused.
\<close>

theorem committed_services_load:
  assumes "service_run sha256 sizes store_default s" "st \<in> set (ms_history s)"
    and "list_all (\<lambda>(tenant, t). validate_tenant_service_retention sizes t = Inr ()) (st_tenants st)"
  shows "validate_committed_service_state sha256 sizes st = Inr ()"
  unfolding validate_committed_service_state_def first_error_iff
proof
  fix x
  assume x: "x \<in> set (st_tenants st)"
  obtain tn t where [simp]: "x = (tn, t)" by (cases x)
  note shaped = run_shaped_default [OF assms(1,2)]
  have t: "tenant_of st tn = t" using x shaped by (simp add: services_shaped_def tenant_of_def bt_invar_distinct)
  have get: "bt_get m k = Some v" if "bt_invar m" "(k, v) \<in> set m" for m :: "('k::linorder \<times> 'v) list" and k v
    using that by (simp add: bt_invar_distinct)
  have sound: "services_sound sha256 st" using run_sound [OF assms(1)] assms(2) by blast
  have "first_error (\<lambda>((namespace, key), history). validate_record_history sha256 (st_revision st) tn namespace key history) (ts_service_records t) = Inr ()"
    unfolding first_error_iff using sound shaped get [of "ts_service_records t"]
    by (auto simp: services_sound_def services_shaped_def simp flip: t)
  moreover have "first_error (validate_idempotency_entry sha256 st tn) (bt_values (ts_service_idempotency t)) = Inr ()"
    unfolding first_error_iff bt_values_def using sound shaped get [of "ts_service_idempotency t"]
    by (fastforce simp: services_sound_def services_shaped_def simp flip: t)
  moreover have "first_error (\<lambda>(worker, w). validate_worker_state sha256 (st_revision st) \<lparr>wl_tenant_id = tn, wl_worker = worker\<rparr> w) (ts_worker_states t) = Inr ()"
    unfolding first_error_iff using sound shaped get [of "ts_worker_states t"]
    by (auto simp: services_sound_def services_shaped_def simp flip: t)
  ultimately show "validate_tenant_services sha256 sizes st x = Inr ()"
    using assms(3) x by (auto simp: validate_tenant_services_def list_all_iff)
qed

definition respects_fence :: "worker_state option \<Rightarrow> string \<Rightarrow> u64 \<Rightarrow> worker_update \<Rightarrow> bool" where
  "respects_fence current owner token u \<longleftrightarrow> (case u of
     Claim expected owner' now expiry \<Rightarrow> (\<exists>w. current = Some w \<and> token \<le> ws_fencing_token w \<and>
       (ws_lease_owner w = None \<or> (\<exists>e. ws_lease_expires_at w = Some e \<and> e \<le> now)))
   | Checkpoint expected owner' token' cursor heartbeat expiry \<Rightarrow> token \<le> token' \<and> (token' = token \<longrightarrow> owner' = owner)
   | Release expected owner' token' heartbeat \<Rightarrow> token \<le> token' \<and> (token' = token \<longrightarrow> owner' = owner))"

lemma worker_get_sound:
  assumes "ms_history s \<noteq> []" "services_sound sha256 (last (ms_history s))"
  shows "worker_get sha256 s l False = Inr (worker_at (last (ms_history s)) l)"
proof -
  have "Option.bind (bt_get (st_tenants st) (wl_tenant_id l)) (\<lambda>t. bt_get (ts_worker_states t) (wl_worker l)) = worker_at st l" for st
    by (simp add: worker_at_def tenant_of_def tenant_default_def split: option.splits)
  moreover have "validate_worker_state sha256 (st_revision (last (ms_history s))) l w = Inr ()"
    if "worker_at (last (ms_history s)) l = Some w" for w
    using that assms(2) unfolding services_sound_def worker_at_def by (cases l) auto
  ultimately show ?thesis using assms(1)
    by (auto simp: worker_get_def check_cancellation_def latest_state_def worker_get_from_state_def Let_def split: option.splits)
qed

lemma worker_update_accepted:
  assumes "worker_update sha256 s l u c c' = (s', Inr w)"
  obtains st where "ms_history s \<noteq> []" "ms_history s' = ms_history s @ [st]" "worker_updated sha256 (last (ms_history s)) l u st w"
proof (cases rule: worker_update_cases [of sha256 s l u c c'])
  case (accepted st w')
  with assms have "apply_worker_update sha256 (last (ms_history s)) l u = Inr (st, w)" "ms_history s' = ms_history s @ [st]" by auto
  with accepted(2) apply_worker_update_updated show thesis using that by blast
qed (use assms in auto)

lemma transition_worker_respects:
  assumes "transition_worker sha256 l (Some a) u revision = Inr b" "lease_shape_valid a"
    and "ws_lease_owner w = Some owner" "fence_le w a"
  shows "respects_fence (Some a) owner (ws_fencing_token w) u" "ws_fencing_token w \<le> ws_fencing_token b"
    "(\<exists>e o1 n x. u = Claim e o1 n x) \<Longrightarrow> ws_fencing_token w < ws_fencing_token b"
  using assms
  by (cases u; auto simp: respects_fence_def fence_le_def lease_shape_valid_def Let_def result_simps split: option.splits
      dest!: incremented)+

text \<open>
  (C11) Stale workers are fenced off. After a worker has claimed a lease, every later accepted update of that worker state
  respects the fence, whatever else happened in between: another claim gets a larger fencing token, and is accepted only
  when the lease has been released or has expired; a checkpoint or a release carries a token that is not smaller, and
  with the token of the claim it comes from the claimant.
\<close>

theorem stale_workers_are_fenced:
  assumes "service_run sha256 sizes store_default s"
    and "worker_update sha256 s l (Claim expected owner now expiry) cancelled cancelled_late = (s1, Inr w)"
    and "service_run sha256 sizes s1 s2" "worker_update sha256 s2 l u cancelled' cancelled_late' = (s3, Inr w')"
  shows "ws_lease_owner w = Some owner \<and> (\<exists>current. worker_get sha256 s2 l False = Inr (Some current) \<and>
    respects_fence (Some current) owner (ws_fencing_token w) u) \<and> ws_fencing_token w \<le> ws_fencing_token w' \<and>
    ((\<exists>expected' owner' now' expiry'. u = Claim expected' owner' now' expiry') \<longrightarrow> ws_fencing_token w < ws_fencing_token w')"
proof -
  from worker_update_accepted [OF assms(2)] obtain st where st: "ms_history s1 = ms_history s @ [st]"
    "worker_updated sha256 (last (ms_history s)) l (Claim expected owner now expiry) st w" by blast
  then have w: "worker_at (last (ms_history s1)) l = Some w" "ws_lease_owner w = Some owner"
    by (auto simp: worker_updated_def Let_def result_simps)
  have "ms_history s1 \<noteq> []" by (simp add: st(1))
  from run_fence [OF assms(3) this w(1)] obtain a where a: "worker_at (last (ms_history s2)) l = Some a" "fence_le w a" by blast
  from worker_update_accepted [OF assms(4)] obtain st' where
    "worker_updated sha256 (last (ms_history s2)) l u st' w'" by blast
  then have step: "transition_worker sha256 l (Some a) u (st_revision st') = Inr w'" "lease_shape_valid a"
    using a(1) by (auto simp: worker_updated_def validate_worker_state_def split: if_splits)
  have "service_run sha256 sizes store_default s2"
    using service_run_trans [OF assms(3)] service_run.worker [OF assms(1,2)] by blast
  then have "worker_get sha256 s2 l False = Inr (Some a)" using worker_get_sound run_sound a(1) by (metis last_in_set)
  with transition_worker_respects [OF step w(2) a(2)] w(2) show ?thesis by blast
qed

subsection \<open>Witnesses\<close>

definition plain_sizes :: service_sizes where
  "plain_sizes records responses workers = Some 0"

definition sample_response :: service_response where
  "sample_response = \<lparr>rs_status_code = 200, rs_content_type = ''j'', rs_digest = ''1220'', rs_bytes = ''ok''\<rparr>"

definition sample_batch :: "service_expected_version \<Rightarrow> string \<Rightarrow> service_idempotency option \<Rightarrow> service_batch" where
  "sample_batch expected bytes idempotency = \<lparr>ba_tenant_id = ''t'', ba_expected_store_revision = None,
     ba_writes = [\<lparr>sw_namespace = ''n'', sw_key = ''k'', sw_expected = expected, sw_bytes = bytes\<rparr>],
     ba_idempotency = idempotency, ba_response = sample_response\<rparr>"

definition retained_identity :: service_idempotency where
  "retained_identity = \<lparr>vi_operation = ''o'', vi_key = ''i'', vi_request_digest = ''q''\<rparr>"

definition sample_locator :: service_record_locator where
  "sample_locator = \<lparr>sl_tenant_id = ''t'', sl_namespace = ''n'', sl_key = ''k''\<rparr>"

definition sample_version :: "u64 \<Rightarrow> string \<Rightarrow> service_record" where
  "sample_version version bytes = \<lparr>sr_locator = sample_locator, sr_version = version, sr_store_revision = version, sr_digest = ''1220'', sr_bytes = bytes\<rparr>"

definition sample_receipt :: "u64 \<Rightarrow> service_batch_receipt" where
  "sample_receipt revision = \<lparr>sb_revision = revision,
     sb_records = [\<lparr>rv_namespace = ''n'', rv_key = ''k'', rv_version = revision, rv_digest = ''1220''\<rparr>], sb_response = sample_response, sb_replayed = False\<rparr>"

definition service_state :: "u64 \<Rightarrow> service_record list \<Rightarrow> committed_state" where
  "service_state revision history = \<lparr>st_revision = revision, st_tenants = [(''t'', tenant_default\<lparr>
     ts_service_records := [((''n'', ''k''), history)],
     ts_service_idempotency := [((''o'', ''i''), \<lparr>ie_request_digest = ''q'', ie_receipt = sample_receipt 1\<rparr>)]\<rparr>)]\<rparr>"

definition service_store1 :: memory_store where
  "service_store1 = store_default\<lparr>ms_history := ms_history store_default @ [service_state 1 [sample_version 1 ''a'']]\<rparr>"

definition service_store2 :: memory_store where
  "service_store2 = service_store1\<lparr>ms_history := ms_history service_store1 @ [service_state 2 [sample_version 1 ''a'', sample_version 2 ''b'']]\<rparr>"

lemmas service_eval = service_commit_def check_cancellation_def latest_state_def apply_service_batch_def validate_writes_def
  validate_write_def service_selector_def validate_expected_def check_expected_def service_entry_def publish_batch_def
  validate_service_batch_retention_def validate_tenant_service_retention_def apply_write_def publish_def remember_response_def
  retained_versions_def bt_values_def plain_sizes_def exact_digest_def validate_record_history_def service_limits tenant_of_def
  Let_def u64_try_from_def checked_add_def tenant_default_def byte_defs

lemmas service_samples = sample_batch_def sample_response_def retained_identity_def sample_locator_def sample_version_def
  sample_receipt_def service_state_def service_store1_def service_store2_def store_default_def

lemma first_batch: "service_commit (\<lambda>_. []) plain_sizes store_default (sample_batch ExpectAbsent ''a'' (Some retained_identity)) False False =
    (service_store1, Inr (sample_receipt 1))"
  by (simp add: service_eval service_samples)

lemma second_batch: "service_commit (\<lambda>_. []) plain_sizes service_store1 (sample_batch (ExpectVersion 1) ''b'' None) False False =
    (service_store2, Inr ((sample_receipt 2)))"
  by (simp add: service_eval service_samples del: validate_record_history_iff)

lemma sample_response_new: "response_new (\<lambda>_. []) 200 ''j'' ''ok'' = Inr (ba_response (sample_batch expected bytes idempotency))"
  by (simp add: response_new_def response_shape_def service_eval sample_batch_def sample_response_def)

lemma service_run1: "service_run (\<lambda>_. []) plain_sizes store_default service_store1"
  by (rule service_run.batch [OF service_run.start sample_response_new first_batch])

lemma service_run2: "service_run (\<lambda>_. []) plain_sizes service_store1 service_store2"
  by (rule service_run.batch [OF service_run.start sample_response_new second_batch])

lemma first_read: "service_get (\<lambda>_. []) service_store1 sample_locator LatestVersion False = Inr (Some (sample_version 1 ''a''))"
  by (simp add: service_get_def service_get_from_state_def service_history_def service_eval service_samples del: validate_record_history_iff)

theorem service_batches_are_atomic_witness:
  "batch_published (\<lambda>_. []) (last (ms_history service_store1)) (sample_batch (ExpectVersion 1) ''b'' None)
    (last (ms_history service_store2)) (sample_receipt 2)"
  using service_batches_are_atomic [OF second_batch] by (auto simp: sample_receipt_def service_store2_def)

theorem service_responses_replay_exactly_witness:
  "service_commit (\<lambda>_. []) plain_sizes service_store2 (sample_batch ExpectAbsent ''z'' (Some retained_identity)) False False =
    (service_store2, Inr ((sample_receipt 1)\<lparr>sb_replayed := True\<rparr>))"
proof -
  have "validate_writes (ba_writes (sample_batch ExpectAbsent ''z'' (Some retained_identity))) = Inr ()"
    by (simp add: service_eval sample_batch_def)
  from service_responses_replay_exactly [OF service_run.start sample_response_new first_batch _ service_run2 _ _ _ _ this,
      of retained_identity retained_identity False] show ?thesis by (simp add: sample_batch_def)
qed

theorem service_versions_are_immutable_witness:
  "service_get (\<lambda>_. []) service_store2 sample_locator (ExactVersion 1) False = Inr (Some (sample_version 1 ''a''))"
  using service_versions_are_immutable [OF service_run1 first_read service_run2] by (simp add: sample_version_def)

theorem committed_services_load_witness:
  "validate_committed_service_state (\<lambda>_. []) plain_sizes (service_state 1 [sample_version 1 ''a'']) = Inr ()"
proof (rule committed_services_load [OF service_run1])
  show "service_state 1 [sample_version 1 ''a''] \<in> set (ms_history service_store1)" by (simp add: service_store1_def)
  show "list_all (\<lambda>(tenant, t). validate_tenant_service_retention plain_sizes t = Inr ()) (st_tenants (service_state 1 [sample_version 1 ''a'']))"
    by (simp add: service_eval service_state_def)
qed

subsubsection \<open>A lease that expires\<close>

definition sample_worker :: worker_locator where
  "sample_worker = \<lparr>wl_tenant_id = ''t'', wl_worker = ''w''\<rparr>"

definition leased :: "u64 \<Rightarrow> string \<Rightarrow> u64 \<Rightarrow> u64 \<Rightarrow> worker_state" where
  "leased n owner now expiry = \<lparr>ws_locator = sample_worker, ws_version = n, ws_store_revision = n, ws_cursor_digest = ''1220'', ws_cursor = [],
     ws_heartbeat = now, ws_lease_owner = Some owner, ws_fencing_token = n, ws_lease_expires_at = Some expiry\<rparr>"

definition worker_store :: "memory_store \<Rightarrow> u64 \<Rightarrow> worker_state \<Rightarrow> memory_store" where
  "worker_store s revision w = s\<lparr>ms_history := ms_history s @ [\<lparr>st_revision = revision,
     st_tenants = [(''t'', tenant_default\<lparr>ts_worker_states := [(''w'', w)]\<rparr>)]\<rparr>]\<rparr>"

lemmas worker_eval = worker_update_def apply_worker_update_def validate_worker_update_def validate_worker_state_def
  lease_shape_valid_def check_update_def increment_def leased_def worker_store_def sample_worker_def store_default_def

lemma first_claim: "worker_update (\<lambda>_. []) store_default sample_worker (Claim ExpectAbsent ''a'' 2 5) False False =
    (worker_store store_default 1 (leased 1 ''a'' 2 5), Inr (leased 1 ''a'' 2 5))"
  by (simp add: service_eval worker_eval)

lemma second_claim: "worker_update (\<lambda>_. []) (worker_store store_default 1 (leased 1 ''a'' 2 5)) sample_worker
      (Claim (ExpectVersion 1) ''b'' 6 9) False False =
    (worker_store (worker_store store_default 1 (leased 1 ''a'' 2 5)) 2 (leased 2 ''b'' 6 9), Inr (leased 2 ''b'' 6 9))"
  by (simp add: service_eval worker_eval)

theorem stale_workers_are_fenced_witness:
  "respects_fence (Some (leased 1 ''a'' 2 5)) ''a'' 1 (Claim (ExpectVersion 1) ''b'' 6 9) \<and>
    ws_fencing_token (leased 1 ''a'' 2 5) < ws_fencing_token (leased 2 ''b'' 6 9)"
proof -
  have "worker_get (\<lambda>_. []) (worker_store store_default 1 (leased 1 ''a'' 2 5)) sample_worker False = Inr (Some (leased 1 ''a'' 2 5))"
    by (simp add: worker_get_def worker_get_from_state_def service_eval worker_eval)
  with stale_workers_are_fenced [where sizes = plain_sizes, OF service_run.start first_claim service_run.start second_claim]
  show ?thesis by (simp add: leased_def)
qed

end
