(* ===== verification/Service_Pages.thy ===== *)
theory Service_Pages
  imports Service_Guarantees "HOL-Library.Multiset"
begin

text \<open>
  The paged operations of the service repository: recovery of the outbox and listings of service records. Both keep the
  contract of \<open>paged_query\<close>, so that a client that follows the cursors sees everything exactly once and stops.
\<close>

subsection \<open>Pages of pending wakeups\<close>

definition wakeups :: "committed_state \<Rightarrow> record_id \<Rightarrow> outbox_record list" where
  "wakeups st tenant = sort_key outbox_position (ts_outbox (tenant_of st tenant))"

definition outbox_page :: "memory_store \<times> record_id \<times> nat \<Rightarrow> outbox_recovery_cursor option
    \<Rightarrow> (service_error, outbox_record list \<times> outbox_recovery_cursor option) result" where
  "outbox_page q cursor = (case q of (s, tenant, limit) \<Rightarrow>
     rbind (outbox_recovery s \<lparr>oq_tenant_id = tenant, oq_limit = limit, oq_cursor = cursor\<rparr> False)
       (\<lambda>p. Inr (op_items p, op_next p)))"

definition outbox_answers :: "memory_store \<times> record_id \<times> nat \<Rightarrow> outbox_recovery_cursor option \<Rightarrow> outbox_record list" where
  "outbox_answers q cursor = (case q of (s, tenant, limit) \<Rightarrow>
     filter (\<lambda>r. case map_option (\<lambda>c. (oc_last_causal_revision c, oc_last_message_id c)) cursor of
         None \<Rightarrow> True | Some p \<Rightarrow> outbox_position r > p) (wakeups (last (ms_history s)) tenant))"

definition latest_found :: "memory_store \<Rightarrow> bool" where
  "latest_found s \<longleftrightarrow> ms_history s \<noteq> [] \<and> find (\<lambda>st. st_revision st = st_revision (last (ms_history s))) (ms_history s) = Some (last (ms_history s))"

definition outbox_ready :: "memory_store \<times> record_id \<times> nat \<Rightarrow> bool" where
  "outbox_ready q \<longleftrightarrow> (case q of (s, tenant, limit) \<Rightarrow> 0 < limit \<and> latest_found s \<and>
     list_all (\<lambda>r. message_validate (or_message r) = Inr ()) (ts_outbox (tenant_of (last (ms_history s)) tenant)) \<and>
     distinct (map outbox_position (ts_outbox (tenant_of (last (ms_history s)) tenant))))"

definition outbox_pinned :: "memory_store \<times> record_id \<times> nat \<Rightarrow> outbox_recovery_cursor \<Rightarrow> bool" where
  "outbox_pinned q c \<longleftrightarrow> (case q of (s, tenant, limit) \<Rightarrow> oc_tenant_id c = tenant \<and> oc_revision c = st_revision (last (ms_history s)))"

lemma selected_latest: "latest_found s \<Longrightarrow> (\<And>r. revision = Some r \<Longrightarrow> r = st_revision (last (ms_history s))) \<Longrightarrow>
    selected_state s revision = Inr (last (ms_history s))"
  by (cases revision) (auto simp: selected_state_def latest_found_def latest_state_def)

lemma outbox_page_eq:
  assumes "outbox_ready (s, tenant, limit)" "\<And>c. cursor = Some c \<Longrightarrow> outbox_pinned (s, tenant, limit) c"
  shows "outbox_page (s, tenant, limit) cursor =
    (let found = outbox_answers (s, tenant, limit) cursor; items = take limit found
     in Inr (items, if length found > limit
          then Some \<lparr>oc_tenant_id = tenant, oc_revision = st_revision (last (ms_history s)),
                 oc_last_causal_revision = or_causal_revision (last items), oc_last_message_id = om_message_id (or_message (last items))\<rparr>
          else None))"
proof -
  let ?st = "last (ms_history s)"
  let ?pending = "filter (\<lambda>r. case cursor of None \<Rightarrow> True
      | Some c \<Rightarrow> outbox_position r > (oc_last_causal_revision c, oc_last_message_id c)) (ts_outbox (tenant_of ?st tenant))"
  have outbox: "(case bt_get (st_tenants ?st) tenant of None \<Rightarrow> [] | Some t \<Rightarrow> ts_outbox t) = ts_outbox (tenant_of ?st tenant)"
    by (simp add: tenant_of_def tenant_default_def split: option.splits)
  have found: "sort_key outbox_position ?pending = outbox_answers (s, tenant, limit) cursor"
    by (cases cursor) (simp_all add: outbox_answers_def wakeups_def filter_sort)
  have "\<not> list_ex (\<lambda>r. \<not> is_ok (message_validate (or_message r))) ?pending"
    using assms(1) by (auto simp: outbox_ready_def list_all_iff list_ex_iff)
  moreover have "selected_state s (map_option oc_revision cursor) = Inr ?st"
    using assms by (intro selected_latest) (auto simp: outbox_ready_def outbox_pinned_def)
  moreover have "\<not> (case cursor of None \<Rightarrow> False | Some c \<Rightarrow> oc_tenant_id c \<noteq> tenant \<or> oc_revision c \<noteq> st_revision ?st)"
    using assms(2) by (cases cursor) (auto simp: outbox_pinned_def)
  moreover have "0 < limit" using assms(1) by (simp add: outbox_ready_def)
  ultimately show ?thesis
    by (auto simp: outbox_page_def outbox_recovery_def check_cancellation_def outbox_recovery_from_state_def outbox found Let_def
        split: option.splits)
qed

interpretation outbox_query: paged_query outbox_page outbox_answers "\<lambda>q. snd (snd q)" outbox_ready outbox_pinned
proof
  fix q :: "memory_store \<times> record_id \<times> nat" and cursor :: "outbox_recovery_cursor option"
  obtain s tenant limit where q: "q = (s, tenant, limit)" by (cases q)
  assume ready: "outbox_ready q"
  then show pos: "0 < snd (snd q)" by (simp add: q outbox_ready_def)
  assume pinned: "\<And>c. cursor = Some c \<Longrightarrow> outbox_pinned q c"
  have page: "outbox_page q cursor =
      (let found = outbox_answers q cursor; items = take limit found
       in Inr (items, if length found > limit
            then Some \<lparr>oc_tenant_id = tenant, oc_revision = st_revision (last (ms_history s)),
                   oc_last_causal_revision = or_causal_revision (last items), oc_last_message_id = om_message_id (or_message (last items))\<rparr>
            else None))"
    unfolding q by (rule outbox_page_eq) (use ready pinned in \<open>simp_all add: q\<close>)
  {
    assume "length (outbox_answers q cursor) \<le> snd (snd q)"
    then show "outbox_page q cursor = Inr (outbox_answers q cursor, None)" unfolding page by (simp add: q Let_def)
  }
  {
    assume more: "snd (snd q) < length (outbox_answers q cursor)"
    let ?l = "last (take limit (outbox_answers q cursor))"
    let ?c = "\<lparr>oc_tenant_id = tenant, oc_revision = st_revision (last (ms_history s)), oc_last_causal_revision = or_causal_revision ?l,
        oc_last_message_id = om_message_id (or_message ?l)\<rparr>"
    let ?xs = "wakeups (last (ms_history s)) tenant"
    let ?bound = "map_option (\<lambda>c. (oc_last_causal_revision c, oc_last_message_id c)) cursor"
    have "sorted_wrt (<) (map outbox_position ?xs)"
      using ready by (simp add: q outbox_ready_def wakeups_def strict_sorted_iff distinct_map)
    from continue_after [OF this, of limit "\<lambda>r. case ?bound of None \<Rightarrow> True | Some p \<Rightarrow> p < outbox_position r" "\<lambda>_. True" ?bound]
    have "outbox_answers q (Some ?c) = drop limit (outbox_answers q cursor)"
      using more pos by (simp add: q outbox_answers_def outbox_position_def)
    moreover have "outbox_page q cursor = Inr (take limit (outbox_answers q cursor), Some ?c)"
      unfolding page using more by (simp add: q Let_def)
    ultimately show "\<exists>c. outbox_page q cursor = Inr (take (snd (snd q)) (outbox_answers q cursor), Some c) \<and> outbox_pinned q c \<and>
        outbox_answers q (Some c) = drop (snd (snd q)) (outbox_answers q cursor)"
      by (intro exI [of _ ?c]) (simp add: q outbox_pinned_def)
  }
qed

lemma ordered_latest_found:
  assumes "mem_repo.ordered s" "ms_history s \<noteq> []"
  shows "latest_found s"
proof -
  obtain xs x where h: "ms_history s = xs @ [x]" using assms(2) by (cases "ms_history s" rule: rev_cases) auto
  with assms(1) have "\<forall>y \<in> set xs. st_revision y \<noteq> st_revision x" by (auto simp: mem_repo.ordered_def sorted_wrt_append)
  then have "find (\<lambda>st. st_revision st = st_revision x) (xs @ [x]) = Some x" by (induction xs) auto
  with h show ?thesis by (simp add: latest_found_def)
qed

lemma evolved_latest_found: "store_evolves sha256 store_default s \<Longrightarrow> latest_found s"
proof (rule ordered_latest_found)
  assume evolved: "store_evolves sha256 store_default s"
  from store_evolves_history [OF this] show "ms_history s \<noteq> []" by (auto simp: store_default_def)
  from evolved show "mem_repo.ordered s" by (rule store_evolves_ordered [OF _ store_default_ordered])
qed

lemma evolved_outbox_ready:
  assumes "store_evolves sha256 store_default s" "0 < limit"
  shows "outbox_ready (s, tenant, limit)"
proof -
  have found: "latest_found s" by (rule evolved_latest_found [OF assms(1)])
  then have latest: "last (ms_history s) \<in> set (ms_history s)" by (simp add: latest_found_def)
  let ?outbox = "ts_outbox (tenant_of (last (ms_history s)) tenant)"
  have "distinct (map (\<lambda>r. om_message_id (or_message r)) ?outbox)"
    using store_evolves_catalog_sound(2) [OF assms(1) latest] by (simp add: logs_linked_def)
  then have "distinct (map outbox_position ?outbox)"
    by (auto simp: distinct_map inj_on_def outbox_position_def)
  moreover have "list_all (\<lambda>r. message_validate (or_message r) = Inr ()) ?outbox"
    using store_evolves_records_valid [OF assms(1) latest] by (simp add: records_valid_def)
  ultimately show ?thesis using found assms(2) by (simp add: outbox_ready_def)
qed

text \<open>A cursor pins its revision: later stores answer it as the store that issued it did.\<close>

lemma selected_state_pinned:
  assumes "prefix (ms_history s) (ms_history s')" "st \<in> set (ms_history s)"
  shows "selected_state s' (Some (st_revision st)) = selected_state s (Some (st_revision st))"
proof -
  from assms(1) obtain later where h: "ms_history s' = ms_history s @ later" by (auto simp: prefix_def)
  from assms(2) obtain x where "find (\<lambda>x. st_revision x = st_revision st) (ms_history s) = Some x"
    by (cases "find (\<lambda>x. st_revision x = st_revision st) (ms_history s)") (auto simp: find_None_iff)
  then show ?thesis using find_append_Some [of "\<lambda>x. st_revision x = st_revision st" "ms_history s" x later]
    by (simp add: selected_state_def h)
qed

subsection \<open>Pages of service records\<close>

definition in_scope :: "service_list_scope \<Rightarrow> (string \<times> string) \<times> service_record list \<Rightarrow> bool" where
  "in_scope scope x \<longleftrightarrow> snd x \<noteq> [] \<and> (case lsc_key_prefix scope of None \<Rightarrow> True | Some p \<Rightarrow> prefix p (snd (fst x)))"

definition scope_records :: "committed_state \<Rightarrow> service_list_scope \<Rightarrow> ((string \<times> string) \<times> service_record list) list" where
  "scope_records st scope = filter (\<lambda>x. fst (fst x) = lsc_namespace scope) (ts_service_records (tenant_of st (lsc_tenant_id scope)))"

type_synonym list_request = "(string \<Rightarrow> string) \<times> memory_store \<times> service_list_scope \<times> nat"

definition list_page :: "list_request \<Rightarrow> service_list_cursor option
    \<Rightarrow> (service_error, service_record list \<times> service_list_cursor option) result" where
  "list_page q cursor = (case q of (sha256, s, scope, limit) \<Rightarrow>
     rbind (service_list sha256 s \<lparr>lq_scope = scope, lq_limit = limit, lq_cursor = cursor\<rparr> False) (\<lambda>p. Inr (lp_items p, lp_next p)))"

definition list_answers :: "list_request \<Rightarrow> service_list_cursor option \<Rightarrow> service_record list" where
  "list_answers q cursor = (case q of (sha256, s, scope, limit) \<Rightarrow>
     map (\<lambda>x. last (snd x)) (filter (\<lambda>x. (case map_option lc_last_key cursor of None \<Rightarrow> True | Some a \<Rightarrow> snd (fst x) > a) \<and> in_scope scope x)
       (scope_records (last (ms_history s)) scope)))"

definition list_ready :: "list_request \<Rightarrow> bool" where
  "list_ready q \<longleftrightarrow> (case q of (sha256, s, scope, limit) \<Rightarrow> 0 < limit \<and> latest_found s \<and>
     services_sound sha256 (last (ms_history s)) \<and> bt_invar (ts_service_records (tenant_of (last (ms_history s)) (lsc_tenant_id scope))))"

definition list_pinned :: "list_request \<Rightarrow> service_list_cursor \<Rightarrow> bool" where
  "list_pinned q c \<longleftrightarrow> (case q of (sha256, s, scope, limit) \<Rightarrow> lc_scope c = scope \<and> lc_revision c = st_revision (last (ms_history s)))"

lemma listed_scope:
  "listed st scope after = filter (\<lambda>x. (case after of None \<Rightarrow> True | Some a \<Rightarrow> snd (fst x) > a) \<and> in_scope scope x) (scope_records st scope)"
proof -
  have "(case bt_get (st_tenants st) (lsc_tenant_id scope) of None \<Rightarrow> [] | Some t \<Rightarrow> ts_service_records t) =
      ts_service_records (tenant_of st (lsc_tenant_id scope))"
    by (simp add: tenant_of_def tenant_default_def split: option.splits)
  then show ?thesis unfolding listed_def scope_records_def filter_filter
    by (auto simp: in_scope_def intro!: filter_cong split: option.splits)
qed

lemma scope_record:
  assumes "bt_invar (ts_service_records (tenant_of st (lsc_tenant_id scope)))" "services_sound sha256 st"
    and "x \<in> set (scope_records st scope)" "snd x \<noteq> []"
  shows "sl_key (sr_locator (last (snd x))) = snd (fst x)" "service_history st (lsc_tenant_id scope) (lsc_namespace scope) (snd (fst x)) = Some (snd x)"
    "history_ok sha256 (st_revision st) (lsc_tenant_id scope) (lsc_namespace scope) (snd (fst x)) (snd x)"
proof -
  obtain namespace key h where "x = ((namespace, key), h)" by (metis prod.exhaust)
  moreover from this have "namespace = lsc_namespace scope" using assms(3) by (simp add: scope_records_def)
  ultimately have x: "x = ((lsc_namespace scope, key), h)" by simp
  with assms(1,3) have get: "bt_get (ts_service_records (tenant_of st (lsc_tenant_id scope))) (lsc_namespace scope, key) = Some h"
    by (auto simp: scope_records_def bt_invar_distinct)
  then show "service_history st (lsc_tenant_id scope) (lsc_namespace scope) (snd (fst x)) = Some (snd x)" by (simp add: x service_history_tenant)
  from get assms(2) show ok: "history_ok sha256 (st_revision st) (lsc_tenant_id scope) (lsc_namespace scope) (snd (fst x)) (snd x)"
    by (auto simp: x services_sound_def)
  then show "sl_key (sr_locator (last (snd x))) = snd (fst x)"
    using assms(4) by (auto simp: history_ok_def record_ok_def list_all_iff x)
qed

lemma scope_records_sorted:
  assumes "bt_invar (ts_service_records (tenant_of st (lsc_tenant_id scope)))"
  shows "sorted_wrt (<) (map (\<lambda>x. snd (fst x)) (scope_records st scope))"
proof -
  have "sorted_wrt (\<lambda>x y. fst x < fst y) (scope_records st scope)" using assms
    by (simp add: scope_records_def bt_invar_def sorted_wrt_map sorted_wrt_filter)
  moreover have "fst (fst x) = lsc_namespace scope" if "x \<in> set (scope_records st scope)" for x
    using that by (simp add: scope_records_def)
  then have "snd (fst x) < snd (fst y)" if "fst x < fst y" "x \<in> set (scope_records st scope)" "y \<in> set (scope_records st scope)" for x y
    using that by (auto simp: less_prod_def)
  ultimately show ?thesis unfolding sorted_wrt_map by (rule sorted_wrt_mono_rel [rotated])
qed

lemma histories_valid_iff: "histories_valid sha256 st scope rs = Inr () \<longleftrightarrow>
    (\<forall>r \<in> set rs. \<exists>h. service_history st (lsc_tenant_id scope) (lsc_namespace scope) (sl_key (sr_locator r)) = Some h \<and>
      history_ok sha256 (st_revision st) (lsc_tenant_id scope) (lsc_namespace scope) (sl_key (sr_locator r)) h)"
  by (induction rs) (auto simp: result_simps)

lemma list_page_eq:
  assumes "list_ready (sha256, s, scope, limit)" "\<And>c. cursor = Some c \<Longrightarrow> list_pinned (sha256, s, scope, limit) c"
  shows "list_page (sha256, s, scope, limit) cursor =
    (let found = list_answers (sha256, s, scope, limit) cursor; items = take limit found
     in Inr (items, if length found > limit
          then Some \<lparr>lc_scope = scope, lc_revision = st_revision (last (ms_history s)), lc_last_key = sl_key (sr_locator (last items))\<rparr>
          else None))"
proof -
  let ?st = "last (ms_history s)"
  have found: "map (\<lambda>(_, history). last history) (listed ?st scope (map_option lc_last_key cursor)) = list_answers (sha256, s, scope, limit) cursor"
    by (simp add: list_answers_def listed_scope split_beta)
  have "histories_valid sha256 ?st scope (list_answers (sha256, s, scope, limit) cursor) = Inr ()"
    unfolding histories_valid_iff using scope_record [of ?st scope sha256] assms(1)
    by (auto simp: list_answers_def list_ready_def in_scope_def)
  then have "histories_valid sha256 ?st scope (take n (list_answers (sha256, s, scope, limit) cursor)) = Inr ()" for n
    unfolding histories_valid_iff by (blast dest: in_set_takeD)
  moreover have "selected_state s (map_option lc_revision cursor) = Inr ?st"
    using assms by (intro selected_latest) (auto simp: list_ready_def list_pinned_def)
  moreover have "\<not> (case cursor of None \<Rightarrow> False | Some c \<Rightarrow> lc_scope c \<noteq> scope \<or> lc_revision c \<noteq> st_revision ?st)"
    using assms(2) by (cases cursor) (auto simp: list_pinned_def)
  moreover have "0 < limit" using assms(1) by (simp add: list_ready_def)
  ultimately show ?thesis
    by (auto simp: list_page_def service_list_def check_cancellation_def service_list_from_state_def found Let_def
        simp del: histories_valid.simps split: option.splits)
qed

interpretation list_query: paged_query list_page list_answers "\<lambda>q. snd (snd (snd q))" list_ready list_pinned
proof
  fix q :: list_request and cursor :: "service_list_cursor option"
  obtain sha256 s scope limit where q: "q = (sha256, s, scope, limit)" by (cases q)
  assume ready: "list_ready q"
  then show pos: "0 < snd (snd (snd q))" by (simp add: q list_ready_def)
  assume pinned: "\<And>c. cursor = Some c \<Longrightarrow> list_pinned q c"
  have page: "list_page q cursor = (let found = list_answers q cursor; items = take limit found
     in Inr (items, if length found > limit
          then Some \<lparr>lc_scope = scope, lc_revision = st_revision (last (ms_history s)), lc_last_key = sl_key (sr_locator (last items))\<rparr>
          else None))"
    unfolding q by (rule list_page_eq) (use ready pinned in \<open>simp_all add: q\<close>)
  {
    assume "length (list_answers q cursor) \<le> snd (snd (snd q))"
    then show "list_page q cursor = Inr (list_answers q cursor, None)" unfolding page by (simp add: q Let_def)
  }
  {
    assume more: "snd (snd (snd q)) < length (list_answers q cursor)"
    let ?l = "last (take limit (list_answers q cursor))"
    let ?c = "\<lparr>lc_scope = scope, lc_revision = st_revision (last (ms_history s)), lc_last_key = sl_key (sr_locator ?l)\<rparr>"
    let ?xs = "scope_records (last (ms_history s)) scope"
    let ?past = "\<lambda>x :: (string \<times> string) \<times> service_record list. case map_option lc_last_key cursor of None \<Rightarrow> True | Some a \<Rightarrow> snd (fst x) > a"
    let ?ys = "filter (\<lambda>x. ?past x \<and> in_scope scope x) ?xs"
    have shape: "bt_invar (ts_service_records (tenant_of (last (ms_history s)) (lsc_tenant_id scope)))"
      "services_sound sha256 (last (ms_history s))" "0 < limit" using ready by (simp_all add: q list_ready_def)
    have n: "limit < length ?ys" using more by (simp add: q list_answers_def)
    note member = last_take_member [OF shape(3) n]
    have "sl_key (sr_locator ?l) = snd (fst (last (take limit ?ys)))"
      using scope_record(1) [OF shape(1,2), of "last (take limit ?ys)"] member
      by (simp add: q list_answers_def take_map last_map in_scope_def)
    moreover from continue_after [OF scope_records_sorted [OF shape(1)] shape(3), of ?past "in_scope scope" "map_option lc_last_key cursor"] n
    have "filter (\<lambda>x. snd (fst x) > snd (fst (last (take limit ?ys))) \<and> in_scope scope x) ?xs = drop limit ?ys" by simp
    ultimately have "list_answers q (Some ?c) = drop limit (list_answers q cursor)"
      by (simp add: q list_answers_def drop_map)
    moreover have "list_page q cursor = Inr (take limit (list_answers q cursor), Some ?c)"
      unfolding page using more by (simp add: q Let_def)
    ultimately show "\<exists>c. list_page q cursor = Inr (take (snd (snd (snd q))) (list_answers q cursor), Some c) \<and> list_pinned q c \<and>
        list_answers q (Some c) = drop (snd (snd (snd q))) (list_answers q cursor)"
      by (intro exI [of _ ?c]) (simp add: q list_pinned_def)
  }
qed

subsection \<open>Properties\<close>

text \<open>
  (C16) Recovery of the outbox misses nothing. Following the cursors of \<open>outbox_recovery\<close> ends, and the pages together hold
  every pending wakeup of the latest state exactly once, in the order of their causal revisions and message identities,
  none longer than the limit; the cursors stay pinned to that state however the store evolves meanwhile.
\<close>

theorem outbox_recovery_is_complete:
  assumes "store_evolves sha256 store_default s" "0 < limit" "length (read_outbox (last (ms_history s)) tenant) < fuel"
  shows "\<exists>ps. follow (\<lambda>cursor. rbind (outbox_recovery s \<lparr>oq_tenant_id = tenant, oq_limit = limit, oq_cursor = cursor\<rparr> False)
        (\<lambda>page. Inr (op_items page, op_next page))) fuel None = Some ps \<and>
      mset (concat ps) = mset (read_outbox (last (ms_history s)) tenant) \<and> distinct (concat ps) \<and>
      sorted (map outbox_position (concat ps)) \<and> (\<forall>p \<in> set ps. length p \<le> limit) \<and>
      (\<forall>s' c. store_evolves sha256 s s' \<and> oc_revision c = st_revision (last (ms_history s)) \<longrightarrow>
        outbox_recovery s' \<lparr>oq_tenant_id = tenant, oq_limit = limit, oq_cursor = Some c\<rparr> False =
        outbox_recovery s \<lparr>oq_tenant_id = tenant, oq_limit = limit, oq_cursor = Some c\<rparr> False)"
proof -
  note ready = evolved_outbox_ready [OF assms(1,2), of tenant]
  have outbox: "read_outbox (last (ms_history s)) tenant = ts_outbox (tenant_of (last (ms_history s)) tenant)"
    by (simp add: read_outbox_def tenant_of_def tenant_default_def split: option.splits)
  have answers: "outbox_answers (s, tenant, limit) None = wakeups (last (ms_history s)) tenant" by (simp add: outbox_answers_def)
  have "length (outbox_answers (s, tenant, limit) None) < fuel" using assms(3) by (simp add: answers outbox wakeups_def)
  from outbox_query.follow_all [OF ready this] obtain ps where ps: "follow (outbox_page (s, tenant, limit)) fuel None = Some ps"
    "concat ps = wakeups (last (ms_history s)) tenant" "\<forall>p \<in> set ps. length p \<le> limit" unfolding answers by auto
  have "distinct (ts_outbox (tenant_of (last (ms_history s)) tenant))" using ready by (auto simp: outbox_ready_def distinct_map)
  moreover have "outbox_page (s, tenant, limit) = (\<lambda>cursor. rbind (outbox_recovery s \<lparr>oq_tenant_id = tenant, oq_limit = limit,
      oq_cursor = cursor\<rparr> False) (\<lambda>page. Inr (op_items page, op_next page)))"
    by (simp add: outbox_page_def fun_eq_iff)
  moreover have "outbox_recovery s' \<lparr>oq_tenant_id = tenant, oq_limit = limit, oq_cursor = Some c\<rparr> False =
        outbox_recovery s \<lparr>oq_tenant_id = tenant, oq_limit = limit, oq_cursor = Some c\<rparr> False"
    if "store_evolves sha256 s s'" "oc_revision c = st_revision (last (ms_history s))" for s' c
  proof -
    have "last (ms_history s) \<in> set (ms_history s)" using evolved_latest_found [OF assms(1)] by (simp add: latest_found_def)
    from selected_state_pinned [OF store_evolves_history [OF that(1)] this] that(2) show ?thesis by (simp add: outbox_recovery_def)
  qed
  ultimately show ?thesis using ps by (intro exI [of _ ps]) (simp add: outbox wakeups_def)
qed

lemma listed_sorted:
  assumes "bt_invar (ts_service_records (tenant_of (last (ms_history s)) (lsc_tenant_id scope)))" "services_sound sha256 (last (ms_history s))"
  shows "sorted_wrt (<) (map (\<lambda>r. sl_key (sr_locator r)) (list_answers (sha256, s, scope, limit) None))"
proof -
  let ?xs = "filter (in_scope scope) (scope_records (last (ms_history s)) scope)"
  have "sl_key (sr_locator (last (snd x))) = snd (fst x)" if "x \<in> set ?xs" for x
    using that scope_record(1) [OF assms] by (simp add: in_scope_def)
  then have "map (\<lambda>r. sl_key (sr_locator r)) (list_answers (sha256, s, scope, limit) None) = map (\<lambda>x. snd (fst x)) ?xs"
    by (simp add: list_answers_def)
  moreover have "sorted_wrt (<) (map (\<lambda>x. snd (fst x)) ?xs)"
    using scope_records_sorted [OF assms(1)] by (simp add: sorted_wrt_map sorted_wrt_filter)
  ultimately show ?thesis by simp
qed

lemma step_revision: "step_of sha256 latest st \<Longrightarrow> unat (st_revision st) = unat (st_revision latest) + 1"
  by (induction rule: step_of.induct) (auto simp: batch_published_def worker_updated_def Let_def)

lemma run_latest_found:
  assumes "service_run sha256 sizes store_default s"
  shows "latest_found s"
proof -
  have "mem_repo.ordered \<lparr>ms_history = ms_history s, ms_fail_next_commit = False\<rparr>"
    using assms
  proof (induction rule: service_run_induct)
    case start
    then show ?case using store_default_ordered by (simp add: store_default_def)
  next
    case (step h st)
    then show ?case using step_revision
      by (intro mem_repo.append_ordered [of "\<lparr>ms_history = h, ms_fail_next_commit = False\<rparr>" "\<lparr>ms_history = h @ [st], ms_fail_next_commit = False\<rparr>" st]) auto
  qed
  then have "mem_repo.ordered s" by (simp add: mem_repo.ordered_def)
  with run_sound [OF assms] show ?thesis by (auto intro: ordered_latest_found)
qed

lemma run_history: "service_run sha256 sizes s s' \<Longrightarrow> prefix (ms_history s) (ms_history s')"
  by (induction rule: service_run_induct) auto

lemma listed_latest:
  assumes "latest_found s" "services_sound sha256 (last (ms_history s))"
    and "bt_invar (ts_service_records (tenant_of (last (ms_history s)) (lsc_tenant_id scope)))"
  shows "r \<in> set (list_answers (sha256, s, scope, limit) None) \<longleftrightarrow> lsc_tenant_id scope = sl_tenant_id (sr_locator r) \<and>
    lsc_namespace scope = sl_namespace (sr_locator r) \<and> (case lsc_key_prefix scope of None \<Rightarrow> True | Some p \<Rightarrow> prefix p (sl_key (sr_locator r))) \<and>
    service_get sha256 s (sr_locator r) LatestVersion False = Inr (Some r)" (is "?listed \<longleftrightarrow> ?latest")
proof -
  let ?st = "last (ms_history s)"
  have get: "service_get sha256 s (sr_locator r) LatestVersion False =
      (let h = entries_at (ts_service_records (tenant_of ?st (sl_tenant_id (sr_locator r)))) (sl_namespace (sr_locator r), sl_key (sr_locator r))
       in Inr (if h = [] then None else Some (last h)))"
    using service_get_sound [OF _ assms(2), of "sr_locator r" LatestVersion] assms(1) by (simp add: latest_found_def Let_def)
  show ?thesis
  proof
    assume ?listed
    then obtain x where x: "x \<in> set (scope_records ?st scope)" "in_scope scope x" "r = last (snd x)" by (auto simp: list_answers_def)
    then have "snd x \<noteq> []" by (simp add: in_scope_def)
    note x' = scope_record [OF assms(3,2) x(1) this]
    have "record_ok sha256 (st_revision ?st) (lsc_tenant_id scope) (lsc_namespace scope) (snd (fst x)) r"
      using x'(3) \<open>snd x \<noteq> []\<close> x(3) by (auto simp: history_ok_def list_all_iff)
    with x' x(2,3) \<open>snd x \<noteq> []\<close> show ?latest unfolding get
      by (auto simp: record_ok_def service_history_tenant entries_at_def Let_def in_scope_def split: option.splits)
  next
    assume latest: ?latest
    let ?k = "(lsc_namespace scope, sl_key (sr_locator r))"
    from latest have "entries_at (ts_service_records (tenant_of ?st (lsc_tenant_id scope))) ?k \<noteq> [] \<and>
        last (entries_at (ts_service_records (tenant_of ?st (lsc_tenant_id scope))) ?k) = r"
      unfolding get by (auto simp: Let_def split: if_splits)
    then obtain h where h: "bt_get (ts_service_records (tenant_of ?st (lsc_tenant_id scope))) ?k = Some h" "h \<noteq> []" "last h = r"
      by (auto simp: entries_at_def split: option.splits)
    then have "(?k, h) \<in> set (scope_records ?st scope)" by (auto simp: scope_records_def dest: map_of_SomeD)
    moreover have "in_scope scope (?k, h)" using latest h(2) by (simp add: in_scope_def split: option.splits)
    ultimately show ?listed using h(3) by (force simp: list_answers_def)
  qed
qed

text \<open>
  (C17) Listings of service records are complete. Following the cursors of \<open>service_list\<close> ends, and the pages together hold the
  latest version of every record of the namespace whose key has the prefix, exactly once, in key order, none longer than
  the limit; later operations do not disturb a listing that has begun.
\<close>

theorem service_listing_is_complete:
  assumes "service_run sha256 sizes store_default s" "0 < limit"
    and "length (ts_service_records (tenant_of (last (ms_history s)) (lsc_tenant_id scope))) < fuel"
  shows "\<exists>ps. follow (\<lambda>cursor. rbind (service_list sha256 s \<lparr>lq_scope = scope, lq_limit = limit, lq_cursor = cursor\<rparr> False)
        (\<lambda>page. Inr (lp_items page, lp_next page))) fuel None = Some ps \<and> (\<forall>p \<in> set ps. length p \<le> limit) \<and>
      sorted_wrt (<) (map (\<lambda>r. sl_key (sr_locator r)) (concat ps)) \<and>
      (\<forall>r. r \<in> set (concat ps) \<longleftrightarrow> lsc_tenant_id scope = sl_tenant_id (sr_locator r) \<and> lsc_namespace scope = sl_namespace (sr_locator r) \<and>
        (case lsc_key_prefix scope of None \<Rightarrow> True | Some p \<Rightarrow> prefix p (sl_key (sr_locator r))) \<and>
        service_get sha256 s (sr_locator r) LatestVersion False = Inr (Some r)) \<and>
      (\<forall>s' c. service_run sha256 sizes s s' \<and> lc_revision c = st_revision (last (ms_history s)) \<longrightarrow>
        service_list sha256 s' \<lparr>lq_scope = scope, lq_limit = limit, lq_cursor = Some c\<rparr> False =
        service_list sha256 s \<lparr>lq_scope = scope, lq_limit = limit, lq_cursor = Some c\<rparr> False)"
proof -
  let ?q = "(sha256, s, scope, limit)" and ?st = "last (ms_history s)"
  have found: "latest_found s" and sound: "services_sound sha256 ?st"
    using run_latest_found [OF assms(1)] run_sound [OF assms(1)] by simp_all
  have latest: "?st \<in> set (ms_history s)" using found by (simp add: latest_found_def)
  have shaped: "bt_invar (ts_service_records (tenant_of ?st (lsc_tenant_id scope)))"
    using run_shaped_default [OF assms(1) latest] by (simp add: services_shaped_def)
  have "list_ready ?q" using found sound shaped assms(2) by (simp add: list_ready_def)
  moreover have "length (list_answers ?q None) \<le> length (ts_service_records (tenant_of ?st (lsc_tenant_id scope)))"
    by (simp add: list_answers_def scope_records_def length_filter_le)
  then have "length (list_answers ?q None) < fuel" using assms(3) by (rule le_less_trans)
  ultimately obtain ps where ps: "follow (list_page ?q) fuel None = Some ps" "concat ps = list_answers ?q None" "\<forall>p \<in> set ps. length p \<le> limit"
    using list_query.follow_all [of ?q fuel] by auto
  have "list_page ?q = (\<lambda>cursor. rbind (service_list sha256 s \<lparr>lq_scope = scope, lq_limit = limit, lq_cursor = cursor\<rparr> False)
      (\<lambda>page. Inr (lp_items page, lp_next page)))" by (simp add: list_page_def fun_eq_iff)
  moreover have "sorted_wrt (<) (map (\<lambda>r. sl_key (sr_locator r)) (list_answers ?q None))" by (rule listed_sorted [OF shaped sound])
  moreover have "service_list sha256 s' \<lparr>lq_scope = scope, lq_limit = limit, lq_cursor = Some c\<rparr> False =
        service_list sha256 s \<lparr>lq_scope = scope, lq_limit = limit, lq_cursor = Some c\<rparr> False"
    if "service_run sha256 sizes s s'" "lc_revision c = st_revision ?st" for s' c
    using selected_state_pinned [OF run_history [OF that(1)] latest] that(2) by (simp add: service_list_def)
  ultimately show ?thesis using ps listed_latest [OF found sound shaped] by (intro exI [of _ ps]) simp
qed

subsection \<open>Witnesses\<close>

definition sample_message :: outbox_message where
  "sample_message = \<lparr>om_message_id = ''m'', om_topic = ''w'', om_payload_digest = ''d''\<rparr>"

definition wakeup_store :: memory_store where
  "wakeup_store = store_default\<lparr>ms_history := ms_history store_default @ [\<lparr>st_revision = 1, st_tenants = [(''t'',
     (tenant_of sample_snapshot ''t'')\<lparr>ts_outbox := [\<lparr>or_message = sample_message, or_causal_revision = 1\<rparr>]\<rparr>)]\<rparr>]\<rparr>"

lemma wakeup_evolves: "store_evolves (\<lambda>_. []) store_default wakeup_store"
proof (rule store_evolves.commits [OF store_evolves.start])
  show "transaction (\<lambda>_. []) ''t'' ''p'' (sample_staged @ [StagedOutbox sample_message])"
    by (rule transaction.messages [OF sample_transaction, where message = sample_message])
       (simp add: enqueue_outbox_def message_validate_def sample_message_def MAX_OUTBOX_TOPIC_BYTES_def byte_defs)
  show "commit ''t'' 0 (sample_staged @ [StagedOutbox sample_message]) (Some sample_identity) store_default =
      (wakeup_store, Inr \<lparr>cr_revision = 1, cr_replayed = False\<rparr>)"
    by (simp add: commit_eval sample_staged_def sample_edge_def sample_identity_def sample_snapshot_def sample_message_def wakeup_store_def)
qed

theorem outbox_recovery_is_complete_witness:
  "\<exists>ps. follow (\<lambda>cursor. rbind (outbox_recovery wakeup_store \<lparr>oq_tenant_id = ''t'', oq_limit = 1, oq_cursor = cursor\<rparr> False)
      (\<lambda>page. Inr (op_items page, op_next page))) 2 None = Some ps \<and>
    mset (concat ps) = {#\<lparr>or_message = sample_message, or_causal_revision = 1\<rparr>#}"
proof -
  have outbox: "read_outbox (last (ms_history wakeup_store)) ''t'' = [\<lparr>or_message = sample_message, or_causal_revision = 1\<rparr>]"
    by (simp add: read_outbox_def wakeup_store_def)
  have "length (read_outbox (last (ms_history wakeup_store)) ''t'') < 2" by (simp add: outbox)
  from outbox_recovery_is_complete [OF wakeup_evolves _ this, of 1] show ?thesis unfolding outbox by auto
qed

definition sample_scope :: service_list_scope where
  "sample_scope = \<lparr>lsc_tenant_id = ''t'', lsc_namespace = ''n'', lsc_key_prefix = Some ''k''\<rparr>"

theorem service_listing_is_complete_witness:
  "\<exists>ps. follow (\<lambda>cursor. rbind (service_list (\<lambda>_. []) service_store1 \<lparr>lq_scope = sample_scope, lq_limit = 1, lq_cursor = cursor\<rparr> False)
      (\<lambda>page. Inr (lp_items page, lp_next page))) 2 None = Some ps \<and> sample_version 1 ''a'' \<in> set (concat ps)"
proof -
  have size: "length (ts_service_records (tenant_of (last (ms_history service_store1)) (lsc_tenant_id sample_scope))) < 2"
    by (simp add: service_store1_def service_state_def tenant_of_def sample_scope_def)
  have "sr_locator (sample_version 1 ''a'') = sample_locator" by (simp add: sample_version_def)
  with first_read have "lsc_tenant_id sample_scope = sl_tenant_id (sr_locator (sample_version 1 ''a'')) \<and>
      lsc_namespace sample_scope = sl_namespace (sr_locator (sample_version 1 ''a'')) \<and>
      (case lsc_key_prefix sample_scope of None \<Rightarrow> True | Some p \<Rightarrow> prefix p (sl_key (sr_locator (sample_version 1 ''a'')))) \<and>
      service_get (\<lambda>_. []) service_store1 (sr_locator (sample_version 1 ''a'')) LatestVersion False = Inr (Some (sample_version 1 ''a''))"
    by (simp add: sample_scope_def sample_locator_def)
  then show ?thesis using service_listing_is_complete [OF service_run1 zero_less_one size]
    by (elim exE conjE) (intro exI conjI, assumption, blast)
qed

end
