(* ===== verification/Compilation_Records.thy ===== *)
theory Compilation_Records
  imports Catalog_Records
begin

text \<open>
  The records of a compilation, \<open>cigar-protocol/src/compilation.rs\<close>, besides the bundles of \<open>Catalog_Records\<close>: plans with
  their lanes and dispositions, selection manifests, materialized contexts and deltas between bundles, each with its
  validator and the predicate the validator decides.
\<close>

definition MAX_PLAN_CANDIDATES :: nat where "MAX_PLAN_CANDIDATES = 10000"
definition MAX_PLAN_LANES :: nat where "MAX_PLAN_LANES = 32"
definition MAX_MATERIALIZED_BYTES :: nat where "MAX_MATERIALIZED_BYTES = 67108864"
definition MAX_REASON_CODES :: nat where "MAX_REASON_CODES = 64"

lemmas compilation_limits = MAX_PLAN_CANDIDATES_def MAX_PLAN_LANES_def MAX_MATERIALIZED_BYTES_def MAX_REASON_CODES_def

datatype disposition_reason =
  RScopeDenied | RPurposeDenied | RTemporalMismatch | RTrustInsufficient | RInstructionAuthorityDenied | RProcessorDenied
  | RIntegrityFailed | RBudgetDisplaced | RLifecycleIneligible | RConflictLost | RRequiredMissing

text \<open>Reasons are ordered as they are declared.\<close>

fun reason_rank :: "disposition_reason \<Rightarrow> nat" where
  "reason_rank RScopeDenied = 0"
| "reason_rank RPurposeDenied = 1"
| "reason_rank RTemporalMismatch = 2"
| "reason_rank RTrustInsufficient = 3"
| "reason_rank RInstructionAuthorityDenied = 4"
| "reason_rank RProcessorDenied = 5"
| "reason_rank RIntegrityFailed = 6"
| "reason_rank RBudgetDisplaced = 7"
| "reason_rank RLifecycleIneligible = 8"
| "reason_rank RConflictLost = 9"
| "reason_rank RRequiredMissing = 10"

lemma reason_rank_inject [simp]: "reason_rank x = reason_rank y \<longleftrightarrow> x = y"
  by (cases x; cases y) simp_all

instantiation disposition_reason :: linorder
begin

definition less_eq_disposition_reason :: "disposition_reason \<Rightarrow> disposition_reason \<Rightarrow> bool" where
  "less_eq_disposition_reason x y \<longleftrightarrow> reason_rank x \<le> reason_rank y"

definition less_disposition_reason :: "disposition_reason \<Rightarrow> disposition_reason \<Rightarrow> bool" where
  "less_disposition_reason x y \<longleftrightarrow> reason_rank x < reason_rank y"

instance
  by standard (auto simp: less_eq_disposition_reason_def less_disposition_reason_def simp flip: reason_rank_inject)

end

datatype candidate_disposition =
  Selected lane_kind u32 | Excluded disposition_reason | RedactedFor disposition_reason | RequiredMissing

fun is_selected :: "candidate_disposition \<Rightarrow> bool" where
  "is_selected (Selected lane score) = True"
| "is_selected _ = False"

subsection \<open>Plans\<close>

record plan_lane =
  pl_kind :: lane_kind
  pl_budget_tokens :: u32
  pl_candidate_versions :: "version_id list"

record context_plan =
  cp_schema_version :: schema_version
  cp_plan_id :: record_id
  cp_contract_digest :: content_digest
  cp_catalog_watermark :: content_digest
  cp_total_input_tokens :: u32
  cp_lanes :: "plan_lane list"
  cp_dispositions :: "(version_id \<times> candidate_disposition) list"
  cp_extensions :: extension_map

fun lane_sum :: "u32 \<Rightarrow> plan_lane list \<Rightarrow> u32 option" where
  "lane_sum acc [] = Some acc"
| "lane_sum acc (l # ls) = Option.bind (checked_add acc (pl_budget_tokens l)) (\<lambda>t. lane_sum t ls)"

text \<open>The set of versions assigned so far goes through the lanes with the errors.\<close>

fun assign_versions :: "version_id list \<Rightarrow> version_id set \<times> validation_errors \<Rightarrow> version_id set \<times> validation_errors" where
  "assign_versions [] acc = acc"
| "assign_versions (v # vs) (assigned, errors) =
     assign_versions vs (insert v assigned,
       push_if (v \<in> assigned) (issue InvalidValue ''/lanes'' ''candidate version cannot be assigned to multiple lanes'') errors)"

fun assign_lanes :: "nat \<Rightarrow> plan_lane list \<Rightarrow> version_id set \<times> validation_errors \<Rightarrow> version_id set \<times> validation_errors" where
  "assign_lanes index [] acc = acc"
| "assign_lanes index (l # ls) (assigned, errors) =
     assign_lanes (index + 1) ls (assign_versions (pl_candidate_versions l) (assigned,
       push_if (length (pl_candidate_versions l) > MAX_PLAN_CANDIDATES \<or> \<not> strictly_sorted_unique (pl_candidate_versions l))
         (issue InvalidValue (''/lanes/'' @ show_nat index @ ''/candidate_versions'') ''lane candidates must be sorted and unique'') errors))"

fun check_dispositions :: "version_id set \<Rightarrow> (version_id \<times> candidate_disposition) list \<Rightarrow> validation_errors \<Rightarrow> validation_errors" where
  "check_dispositions assigned [] errors = errors"
| "check_dispositions assigned ((v, d) # ds) errors =
     check_dispositions assigned ds
       (push_if (is_selected d \<noteq> (v \<in> assigned)) (issue InvalidValue ''/dispositions'' ''selected disposition and lane assignment disagree'') errors)"

definition plan_errors :: "context_plan \<Rightarrow> validation_errors" where
  "plan_errors p =
     (let (assigned, errors) = assign_lanes 0 (cp_lanes p) ({},
            push_if (lane_sum 0 (cp_lanes p) \<noteq> Some (cp_total_input_tokens p) \<or> list_ex (\<lambda>l. pl_budget_tokens l = 0) (cp_lanes p))
              (issue InvalidValue ''/lanes'' ''non-zero lane budgets must sum exactly to total input tokens'')
           (push_if (\<not> sorted_unique_by (\<lambda>a b. pl_kind a < pl_kind b) (cp_lanes p))
              (issue InvalidValue ''/lanes'' ''plan lanes must be sorted and unique by kind'')
           (push_if (cp_lanes p = [] \<or> length (cp_lanes p) > MAX_PLAN_LANES)
              (issue LimitExceeded ''/lanes'' ''plan lanes must be non-empty and bounded'')
           (validate_version (cp_schema_version p) ''cigar.context-plan'' []))))
      in validate_extensions (cp_extensions p)
        (check_dispositions assigned (cp_dispositions p)
        (push_if (length (cp_dispositions p) > MAX_PLAN_CANDIDATES \<or> \<not> sorted_unique_by (\<lambda>a b. fst a < fst b) (cp_dispositions p))
           (issue InvalidValue ''/dispositions'' ''candidate dispositions must be bounded, sorted, and unique'') errors)))"

definition plan_validate :: "context_plan \<Rightarrow> (validation_errors, unit) result" where
  "plan_validate p = into_result (plan_errors p)"

subsection \<open>Manifests and materialized contexts\<close>

record manifest_entry =
  me_version_id :: version_id
  me_disposition :: candidate_disposition
  me_reason_codes :: "disposition_reason list"
  me_provenance_digest :: content_digest

record selection_manifest =
  mf_schema_version :: schema_version
  mf_manifest_id :: version_id
  mf_contract_digest :: content_digest
  mf_entries :: "manifest_entry list"
  mf_extensions :: extension_map

definition entry_errors :: "manifest_entry \<Rightarrow> nat \<Rightarrow> validation_errors \<Rightarrow> validation_errors" where
  "entry_errors entry index errors =
     push_if (length (me_reason_codes entry) > MAX_REASON_CODES \<or> \<not> strictly_sorted_unique (me_reason_codes entry))
       (issue InvalidValue (''/entries/'' @ show_nat index @ ''/reason_codes'') ''reason codes must be bounded, sorted, and unique'') errors"

definition manifest_errors :: "selection_manifest \<Rightarrow> validation_errors" where
  "manifest_errors m =
     validate_extensions (mf_extensions m)
    (fold (\<lambda>(index, entry). entry_errors entry index) (enumerate 0 (mf_entries m))
    (push_if (length (mf_entries m) > MAX_PLAN_CANDIDATES \<or> \<not> sorted_unique_by (\<lambda>a b. me_version_id a < me_version_id b) (mf_entries m))
       (issue InvalidValue ''/entries'' ''manifest entries must be bounded, sorted, and unique'')
    (validate_version (mf_schema_version m) ''cigar.selection-manifest'' [])))"

definition manifest_validate :: "selection_manifest \<Rightarrow> (validation_errors, unit) result" where
  "manifest_validate m = into_result (manifest_errors m)"

record materialized_context =
  mc_schema_version :: schema_version
  mc_bundle_id :: version_id
  mc_media_type :: string
  mc_bytes :: string
  mc_token_count :: u32
  mc_tokenizer_fingerprint :: content_digest
  mc_materializer_fingerprint :: content_digest

definition materialized_errors :: "materialized_context \<Rightarrow> validation_errors" where
  "materialized_errors c =
     push_if (mc_token_count c = 0)
       (issue InvalidValue ''/token_count'' ''materialized token count must be non-zero'')
    (push_if (mc_bytes c = [] \<or> length (mc_bytes c) > MAX_MATERIALIZED_BYTES)
       (issue LimitExceeded ''/bytes'' ''materialized bytes must be non-empty and bounded'')
    (validate_version (mc_schema_version c) ''cigar.materialized-context'' []))"

definition materialized_validate :: "materialized_context \<Rightarrow> (validation_errors, unit) result" where
  "materialized_validate c = into_result (materialized_errors c)"

subsection \<open>Deltas between bundles\<close>

record context_delta =
  cd_schema_version :: schema_version
  cd_base_bundle_id :: version_id
  cd_target_bundle_id :: version_id
  cd_added_blocks :: "context_block list"
  cd_removed_block_ids :: "version_id list"
  cd_resulting_tokens :: u32

definition context_delta_errors :: "context_delta \<Rightarrow> validation_errors" where
  "context_delta_errors d =
     fold (\<lambda>(index, block). block_validate_into block index) (enumerate 0 (cd_added_blocks d))
    (push_if (list_ex (\<lambda>b. cb_block_id b \<in> set (cd_removed_block_ids d)) (cd_added_blocks d))
       (issue InvalidValue ''/added_blocks'' ''the same block cannot be both added and removed'')
    (push_if (length (cd_added_blocks d) > MAX_CONTEXT_BLOCKS \<or> length (cd_removed_block_ids d) > MAX_CONTEXT_BLOCKS
         \<or> \<not> sorted_unique_by (\<lambda>a b. cb_block_id a < cb_block_id b) (cd_added_blocks d)
         \<or> \<not> strictly_sorted_unique (cd_removed_block_ids d))
       (issue InvalidValue ''/added_blocks'' ''delta block sets must be bounded, sorted, and unique'')
    (push_if (cd_base_bundle_id d = cd_target_bundle_id d)
       (issue InvalidValue ''/target_bundle_id'' ''delta target must differ from its base'')
    (validate_version (cd_schema_version d) ''cigar.context-delta'' []))))"

definition context_delta_validate :: "context_delta \<Rightarrow> (validation_errors, unit) result" where
  "context_delta_validate d = into_result (context_delta_errors d)"

subsection \<open>What the validators decide\<close>

definition plan_versions :: "plan_lane list \<Rightarrow> version_id list" where
  "plan_versions lanes = concat (map pl_candidate_versions lanes)"

text \<open>
  A plan splits its budget over its lanes without overflow, assigns no version twice, and selects exactly the considered
  versions that it assigns.
\<close>

definition plan_wf :: "context_plan \<Rightarrow> bool" where
  "plan_wf p \<longleftrightarrow> version_ok ''cigar.context-plan'' (cp_schema_version p) \<and>
     cp_lanes p \<noteq> [] \<and> length (cp_lanes p) \<le> MAX_PLAN_LANES \<and> sorted_wrt (<) (map pl_kind (cp_lanes p)) \<and>
     sum_list (map (unat \<circ> pl_budget_tokens) (cp_lanes p)) = unat (cp_total_input_tokens p) \<and>
     list_all (\<lambda>l. pl_budget_tokens l \<noteq> 0 \<and> sorted_set_ok MAX_PLAN_CANDIDATES (pl_candidate_versions l)) (cp_lanes p) \<and>
     distinct (plan_versions (cp_lanes p)) \<and>
     length (cp_dispositions p) \<le> MAX_PLAN_CANDIDATES \<and> sorted_wrt (<) (map fst (cp_dispositions p)) \<and>
     list_all (\<lambda>(v, d). is_selected d \<longleftrightarrow> v \<in> set (plan_versions (cp_lanes p))) (cp_dispositions p) \<and>
     extensions_ok (cp_extensions p)"

definition manifest_wf :: "selection_manifest \<Rightarrow> bool" where
  "manifest_wf m \<longleftrightarrow> version_ok ''cigar.selection-manifest'' (mf_schema_version m) \<and> length (mf_entries m) \<le> MAX_PLAN_CANDIDATES \<and>
     sorted_wrt (<) (map me_version_id (mf_entries m)) \<and>
     list_all (\<lambda>e. sorted_set_ok MAX_REASON_CODES (me_reason_codes e)) (mf_entries m) \<and> extensions_ok (mf_extensions m)"

definition materialized_wf :: "materialized_context \<Rightarrow> bool" where
  "materialized_wf c \<longleftrightarrow> version_ok ''cigar.materialized-context'' (mc_schema_version c) \<and> mc_bytes c \<noteq> [] \<and>
     length (mc_bytes c) \<le> MAX_MATERIALIZED_BYTES \<and> mc_token_count c \<noteq> 0"

definition context_delta_wf :: "context_delta \<Rightarrow> bool" where
  "context_delta_wf d \<longleftrightarrow> version_ok ''cigar.context-delta'' (cd_schema_version d) \<and> cd_base_bundle_id d \<noteq> cd_target_bundle_id d \<and>
     length (cd_added_blocks d) \<le> MAX_CONTEXT_BLOCKS \<and> sorted_wrt (<) (map cb_block_id (cd_added_blocks d)) \<and>
     sorted_set_ok MAX_CONTEXT_BLOCKS (cd_removed_block_ids d) \<and>
     set (map cb_block_id (cd_added_blocks d)) \<inter> set (cd_removed_block_ids d) = {} \<and> list_all block_wf (cd_added_blocks d)"

lemma sorted_unique_by_key: "sorted_unique_by (\<lambda>a b. key a < key b) xs \<longleftrightarrow> sorted_wrt (<) (map key xs)" for key :: "'a \<Rightarrow> 'k::linorder"
  unfolding sorted_wrt_map by (rule sorted_unique_by_iff) (rule less_trans)

lemma lane_sum_iff: "lane_sum acc ls = Some t \<longleftrightarrow> unat acc + sum_list (map (unat \<circ> pl_budget_tokens) ls) = unat t"
proof (induction ls arbitrary: acc)
  case (Cons l ls)
  show ?case
  proof (cases "checked_add acc (pl_budget_tokens l)")
    case None
    then have "unat acc + unat (pl_budget_tokens l) \<ge> 2 ^ 32" by (auto simp: checked_add_def split: if_split_asm)
    moreover have "unat t < 2 ^ 32" using unsigned_less [of t] by simp
    ultimately show ?thesis using None by simp
  next
    case (Some u)
    then show ?thesis using Cons [of u] checked_add_SomeD [OF Some] by (simp add: add.assoc)
  qed
qed (simp add: word_unat_eq_iff)

lemma assign_versions_eq:
  "fst (assign_versions vs (assigned, es)) = assigned \<union> set vs"
  "snd (assign_versions vs (assigned, es)) = [] \<longleftrightarrow> es = [] \<and> distinct vs \<and> set vs \<inter> assigned = {}"
  by (induction vs "(assigned, es)" arbitrary: assigned es rule: assign_versions.induct) auto

lemma within_assign_versions: "within es \<Longrightarrow> within (snd (assign_versions vs (assigned, es)))"
  by (induction vs arbitrary: assigned es) auto

lemma assign_lanes_eq:
  "fst (assign_lanes i ls (assigned, es)) = assigned \<union> set (plan_versions ls) \<and>
   (snd (assign_lanes i ls (assigned, es)) = [] \<longleftrightarrow> es = [] \<and>
     list_all (\<lambda>l. sorted_set_ok MAX_PLAN_CANDIDATES (pl_candidate_versions l)) ls \<and> distinct (plan_versions ls) \<and>
     set (plan_versions ls) \<inter> assigned = {})"
proof (induction ls arbitrary: i assigned es)
  case (Cons l ls)
  let ?es = "push_if (length (pl_candidate_versions l) > MAX_PLAN_CANDIDATES \<or> \<not> strictly_sorted_unique (pl_candidate_versions l))
      (issue InvalidValue (''/lanes/'' @ show_nat i @ ''/candidate_versions'') ''lane candidates must be sorted and unique'') es"
  obtain a e where step: "assign_versions (pl_candidate_versions l) (assigned, ?es) = (a, e)" by fastforce
  note facts = assign_versions_eq [of "pl_candidate_versions l" assigned ?es, unfolded step fst_conv snd_conv]
  show ?case using Cons.IH [of "i + 1" a e] unfolding assign_lanes.simps step facts
    by (auto simp: plan_versions_def sorted_set_ok_def strictly_sorted_unique_iff)
qed (simp add: plan_versions_def)

lemma within_assign_lanes: "within es \<Longrightarrow> within (snd (assign_lanes i ls (assigned, es)))"
proof (induction ls arbitrary: i assigned es)
  case (Cons l ls)
  then show ?case using within_assign_versions
    by (metis assign_lanes.simps(2) prod.collapse within_push_if)
qed simp

lemma check_dispositions_eq:
  "check_dispositions assigned ds es = [] \<longleftrightarrow> es = [] \<and> list_all (\<lambda>(v, d). is_selected d \<longleftrightarrow> v \<in> assigned) ds"
  by (induction assigned ds es rule: check_dispositions.induct) auto

lemma within_check_dispositions: "within es \<Longrightarrow> within (check_dispositions assigned ds es)"
  by (induction assigned ds es rule: check_dispositions.induct) auto

lemma entries_iff: "fold (\<lambda>(index, entry). entry_errors entry index) (enumerate n ms) es = [] \<longleftrightarrow>
    es = [] \<and> list_all (\<lambda>e. sorted_set_ok MAX_REASON_CODES (me_reason_codes e)) ms"
  by (induction ms arbitrary: n es) (auto simp: entry_errors_def sorted_set_ok_def strictly_sorted_unique_iff)

lemma within_entries: "within es \<Longrightarrow> within (fold (\<lambda>(index, entry). entry_errors entry index) xs es)"
  by (rule within_fold) (auto simp: entry_errors_def)

interpretation plan: validated_record plan_errors plan_wf
proof
  fix p :: context_plan
  let ?es = "push_if (lane_sum 0 (cp_lanes p) \<noteq> Some (cp_total_input_tokens p) \<or> list_ex (\<lambda>l. pl_budget_tokens l = 0) (cp_lanes p))
              (issue InvalidValue ''/lanes'' ''non-zero lane budgets must sum exactly to total input tokens'')
           (push_if (\<not> sorted_unique_by (\<lambda>a b. pl_kind a < pl_kind b) (cp_lanes p))
              (issue InvalidValue ''/lanes'' ''plan lanes must be sorted and unique by kind'')
           (push_if (cp_lanes p = [] \<or> length (cp_lanes p) > MAX_PLAN_LANES)
              (issue LimitExceeded ''/lanes'' ''plan lanes must be non-empty and bounded'')
           (validate_version (cp_schema_version p) ''cigar.context-plan'' [])))"
  obtain a e where step: "assign_lanes 0 (cp_lanes p) ({}, ?es) = (a, e)" by fastforce
  note facts = assign_lanes_eq [of 0 "cp_lanes p" "{}" ?es, unfolded step fst_conv snd_conv]
  show "plan_errors p = [] \<longleftrightarrow> plan_wf p"
    unfolding plan_errors_def step by (auto simp: facts check_dispositions_eq plan_wf_def sorted_unique_by_key lane_sum_iff list_ex_iff list_all_iff)
  have "within e" using within_assign_lanes [of ?es 0 "cp_lanes p" "{}"] step by simp
  then show "length (plan_errors p) \<le> MAX_VALIDATION_ERRORS"
    unfolding plan_errors_def step by (simp add: within_check_dispositions flip: within_def)
qed

interpretation manifest: validated_record manifest_errors manifest_wf
proof
  show "manifest_errors m = [] \<longleftrightarrow> manifest_wf m" for m
    by (auto simp: manifest_errors_def manifest_wf_def entries_iff sorted_unique_by_key)
  show "length (manifest_errors m) \<le> MAX_VALIDATION_ERRORS" for m
    by (simp add: manifest_errors_def within_entries flip: within_def)
qed

interpretation materialized: validated_record materialized_errors materialized_wf
  by unfold_locales (auto simp: materialized_errors_def materialized_wf_def simp flip: within_def)

interpretation context_delta: validated_record context_delta_errors context_delta_wf
proof
  show "context_delta_errors d = [] \<longleftrightarrow> context_delta_wf d" for d
    by (auto simp: context_delta_errors_def context_delta_wf_def blocks_iff sorted_unique_by_key sorted_set_ok_def
        strictly_sorted_unique_iff list_ex_iff)
  show "length (context_delta_errors d) \<le> MAX_VALIDATION_ERRORS" for d
    by (simp add: context_delta_errors_def within_blocks flip: within_def)
qed

lemma compilation_validate_iff [simp]:
  "plan_validate p = Inr () \<longleftrightarrow> plan_wf p" "manifest_validate m = Inr () \<longleftrightarrow> manifest_wf m"
  "materialized_validate c = Inr () \<longleftrightarrow> materialized_wf c" "context_delta_validate d = Inr () \<longleftrightarrow> context_delta_wf d"
  unfolding plan_validate_def manifest_validate_def materialized_validate_def context_delta_validate_def
  by (rule plan.accepts_iff manifest.accepts_iff materialized.accepts_iff context_delta.accepts_iff)+

subsection \<open>Digests of materialized bytes\<close>

text \<open>
  \<open>digest\<close> of \<open>cigar-compiler/src/materializer.rs\<close>: the multihash prefix and the SHA-256 of the bytes in hexadecimal. A
  SHA-256 has 32 bytes, so the text always is a \<open>ContentDigest\<close> and the error branches of the code are never taken.
\<close>

definition materializer_digest :: "(string \<Rightarrow> string) \<Rightarrow> string \<Rightarrow> content_digest" where
  "materializer_digest sha256 bytes = ''1220'' @ hex (sha256 bytes)"

end
