(* ===== verification/Compiler_Delta.thy ===== *)
theory Compiler_Delta
  imports Compilation_Records BTree_Map
begin

text \<open>
  Deltas between compiled bundles, \<open>cigar-compiler/src/delta.rs\<close>: generation of the block delta from a base to a target,
  its verified application, acknowledgements and overflow repairs. The JSON encoding of a delta (\<open>serde_json\<close>) and SHA-256
  are parameters. A sealed delta reproduces its target exactly, and evidence of an application exists for no other.
\<close>

datatype delta_error = DInvalidInput | DWrongBase | DTampered | DTargetMismatch | DDigest

record sealed_delta =
  se_delta :: context_delta
  se_delta_digest :: content_digest

record delta_reuse_evidence =
  re_reused_blocks :: u32
  re_reused_tokens :: u32
  re_added_blocks :: u32
  re_removed_blocks :: u32

record applied_delta =
  ap_bundle :: context_bundle
  ap_base_bundle_id :: version_id
  ap_target_bundle_id :: version_id
  ap_delta_digest :: content_digest
  ap_reuse :: delta_reuse_evidence

record delta_acknowledgement =
  ak_provider_session :: string
  ak_target_fingerprint :: content_digest
  ak_base_bundle_id :: version_id
  ak_target_bundle_id :: version_id
  ak_delta_digest :: content_digest
  ak_sequence :: u64

record target_overflow_repair_request =
  tr_bundle_id :: version_id
  tr_target_fingerprint :: content_digest
  tr_observed_tokens :: u32
  tr_maximum_input_tokens :: u32

definition repair_request_new :: "version_id \<Rightarrow> content_digest \<Rightarrow> u32 \<Rightarrow> u32 \<Rightarrow> target_overflow_repair_request option" where
  "repair_request_new bundle_id target_fingerprint observed_tokens maximum_input_tokens =
     (if maximum_input_tokens > 0 \<and> observed_tokens > maximum_input_tokens
      then Some \<lparr>tr_bundle_id = bundle_id, tr_target_fingerprint = target_fingerprint, tr_observed_tokens = observed_tokens,
             tr_maximum_input_tokens = maximum_input_tokens\<rparr>
      else None)"

definition u32_try_from :: "nat \<Rightarrow> u32 option" where
  "u32_try_from n = (if n < 2 ^ 32 then Some (of_nat n) else None)"

definition delta_digest :: "(context_delta \<Rightarrow> string option) \<Rightarrow> (string \<Rightarrow> string) \<Rightarrow> context_delta \<Rightarrow> (delta_error, content_digest) result" where
  "delta_digest json sha256 delta = rbind (ok_or (json delta) DDigest) (\<lambda>bytes. Inr (materializer_digest sha256 bytes))"

text \<open>The map of the blocks by identity; of two blocks with one identity the later stays.\<close>

definition blocks_by_id :: "context_block list \<Rightarrow> (version_id, context_block) btree" where
  "blocks_by_id blocks = foldl (\<lambda>m b. bt_insert (cb_block_id b) b m) [] blocks"

definition context_delta_v1 :: schema_version where
  "context_delta_v1 = \<lparr>sv_family = ''cigar.context-delta'', sv_major = 1\<rparr>"

definition generate_delta ::
    "(context_delta \<Rightarrow> string option) \<Rightarrow> (string \<Rightarrow> string) \<Rightarrow> context_bundle \<Rightarrow> context_bundle \<Rightarrow> (delta_error, sealed_delta) result" where
  "generate_delta json sha256 base target =
     rbind (map_err (\<lambda>_. DInvalidInput) (bundle_validate base)) (\<lambda>_.
     rbind (map_err (\<lambda>_. DInvalidInput) (bundle_validate target)) (\<lambda>_.
       if bn_bundle_id base = bn_bundle_id target then Inl DInvalidInput
       else
         let base_by_id = blocks_by_id (bn_blocks base); target_by_id = blocks_by_id (bn_blocks target)
         in if list_ex (\<lambda>(i, block). case bt_get base_by_id i of None \<Rightarrow> False | Some b \<Rightarrow> b \<noteq> block) target_by_id
            then Inl DInvalidInput
            else
              let delta = \<lparr>cd_schema_version = context_delta_v1, cd_base_bundle_id = bn_bundle_id base,
                    cd_target_bundle_id = bn_bundle_id target,
                    cd_added_blocks = map snd (filter (\<lambda>(i, block). bt_get base_by_id i = None) target_by_id),
                    cd_removed_block_ids = filter (\<lambda>i. bt_get target_by_id i = None) (bt_keys base_by_id),
                    cd_resulting_tokens = bn_total_tokens target\<rparr>
              in rbind (map_err (\<lambda>_. DInvalidInput) (context_delta_validate delta)) (\<lambda>_.
                 rbind (delta_digest json sha256 delta) (\<lambda>digest.
                   Inr \<lparr>se_delta = delta, se_delta_digest = digest\<rparr>))))"

fun remove_blocks :: "version_id list \<Rightarrow> (version_id, context_block) btree \<Rightarrow> (delta_error, (version_id, context_block) btree) result" where
  "remove_blocks [] blocks = Inr blocks"
| "remove_blocks (i # ids) blocks =
     (if bt_get blocks i = None then Inl DWrongBase else remove_blocks ids (bt_remove i blocks))"

fun add_blocks :: "context_block list \<Rightarrow> (version_id, context_block) btree \<Rightarrow> (delta_error, (version_id, context_block) btree) result" where
  "add_blocks [] blocks = Inr blocks"
| "add_blocks (b # bs) blocks =
     (if bt_get blocks (cb_block_id b) \<noteq> None then Inl DInvalidInput else add_blocks bs (bt_insert (cb_block_id b) b blocks))"

definition reuse_evidence :: "context_bundle \<Rightarrow> context_bundle \<Rightarrow> context_delta \<Rightarrow> (delta_error, delta_reuse_evidence) result" where
  "reuse_evidence base expected_target delta =
     (let reused = filter (\<lambda>b. bt_get (blocks_by_id (bn_blocks base)) (cb_block_id b) = Some b) (bn_blocks expected_target)
      in rbind (ok_or (token_sum 0 reused) DInvalidInput) (\<lambda>reused_tokens.
         rbind (ok_or (u32_try_from (length reused)) DInvalidInput) (\<lambda>reused_blocks.
         rbind (ok_or (u32_try_from (length (cd_added_blocks delta))) DInvalidInput) (\<lambda>added_blocks.
         rbind (ok_or (u32_try_from (length (cd_removed_block_ids delta))) DInvalidInput) (\<lambda>removed_blocks.
           if checked_add reused_blocks added_blocks \<noteq> u32_try_from (length (bn_blocks expected_target)) then Inl DTargetMismatch
           else Inr \<lparr>re_reused_blocks = reused_blocks, re_reused_tokens = reused_tokens, re_added_blocks = added_blocks,
                  re_removed_blocks = removed_blocks\<rparr>)))))"

definition apply_delta_verified ::
    "(context_delta \<Rightarrow> string option) \<Rightarrow> (string \<Rightarrow> string) \<Rightarrow> context_bundle \<Rightarrow> context_bundle \<Rightarrow> sealed_delta
      \<Rightarrow> (delta_error, applied_delta) result" where
  "apply_delta_verified json sha256 base expected_target sealed =
     rbind (map_err (\<lambda>_. DInvalidInput) (bundle_validate base)) (\<lambda>_.
     rbind (map_err (\<lambda>_. DInvalidInput) (bundle_validate expected_target)) (\<lambda>_.
     rbind (map_err (\<lambda>_. DInvalidInput) (context_delta_validate (se_delta sealed))) (\<lambda>_.
     rbind (delta_digest json sha256 (se_delta sealed)) (\<lambda>digest.
       if digest \<noteq> se_delta_digest sealed then Inl DTampered
       else if cd_base_bundle_id (se_delta sealed) \<noteq> bn_bundle_id base then Inl DWrongBase
       else if cd_target_bundle_id (se_delta sealed) \<noteq> bn_bundle_id expected_target then Inl DTargetMismatch
       else rbind (remove_blocks (cd_removed_block_ids (se_delta sealed)) (blocks_by_id (bn_blocks base))) (\<lambda>kept.
            rbind (add_blocks (cd_added_blocks (se_delta sealed)) kept) (\<lambda>blocks.
              if set (bt_keys blocks) \<noteq> set (map cb_block_id (bn_blocks expected_target))
                 \<or> \<not> list_all (\<lambda>b. bt_get blocks (cb_block_id b) = Some b) (bn_blocks expected_target)
                 \<or> cd_resulting_tokens (se_delta sealed) \<noteq> bn_total_tokens expected_target
              then Inl DTargetMismatch
              else rbind (reuse_evidence base expected_target (se_delta sealed)) (\<lambda>reuse.
                Inr \<lparr>ap_bundle = expected_target, ap_base_bundle_id = bn_bundle_id base,
                  ap_target_bundle_id = bn_bundle_id expected_target, ap_delta_digest = se_delta_digest sealed,
                  ap_reuse = reuse\<rparr>)))))))"

definition apply_delta ::
    "(context_delta \<Rightarrow> string option) \<Rightarrow> (string \<Rightarrow> string) \<Rightarrow> context_bundle \<Rightarrow> context_bundle \<Rightarrow> sealed_delta
      \<Rightarrow> (delta_error, context_bundle) result" where
  "apply_delta json sha256 base expected_target sealed =
     rbind (apply_delta_verified json sha256 base expected_target sealed) (\<lambda>applied. Inr (ap_bundle applied))"

definition acknowledge_delta :: "string \<Rightarrow> content_digest \<Rightarrow> applied_delta \<Rightarrow> u64 \<Rightarrow> delta_acknowledgement option" where
  "acknowledge_delta provider_session target_fingerprint applied sequence =
     (if provider_session \<noteq> [] \<and> sequence > 0
      then Some \<lparr>ak_provider_session = provider_session, ak_target_fingerprint = target_fingerprint,
             ak_base_bundle_id = ap_base_bundle_id applied, ak_target_bundle_id = ap_target_bundle_id applied,
             ak_delta_digest = ap_delta_digest applied, ak_sequence = sequence\<rparr>
      else None)"

subsection \<open>Blocks by identity\<close>

definition block_ids :: "context_block list \<Rightarrow> version_id set" where
  "block_ids bs = cb_block_id ` set bs"

lemma blocks_by_id_snoc: "blocks_by_id (bs @ [b]) = bt_insert (cb_block_id b) b (blocks_by_id bs)"
  by (simp add: blocks_by_id_def)

lemma blocks_by_id_invar: "bt_invar (blocks_by_id bs)"
  by (induction bs rule: rev_induct) (simp_all add: blocks_by_id_snoc bt_invar_insert, simp add: blocks_by_id_def)

lemma blocks_by_id_None [simp]: "bt_get (blocks_by_id bs) i = None \<longleftrightarrow> i \<notin> block_ids bs"
  by (induction bs rule: rev_induct) (auto simp: blocks_by_id_snoc bt_get_insert block_ids_def, auto simp: blocks_by_id_def)

lemma blocks_by_id_Some: "bt_get (blocks_by_id bs) i = Some b \<Longrightarrow> b \<in> set bs \<and> cb_block_id b = i"
  by (induction bs rule: rev_induct) (auto simp: blocks_by_id_snoc bt_get_insert split: if_splits, auto simp: blocks_by_id_def)

lemma blocks_by_id_distinct:
  assumes "distinct (map cb_block_id bs)" "b \<in> set bs"
  shows "bt_get (blocks_by_id bs) (cb_block_id b) = Some b"
proof -
  have "bt_get (blocks_by_id bs) (cb_block_id b) \<noteq> None" using assms(2) by (simp add: block_ids_def)
  then obtain b' where b': "bt_get (blocks_by_id bs) (cb_block_id b) = Some b'" by blast
  have "inj_on cb_block_id (set bs)" using assms(1) by (simp add: distinct_map)
  from inj_onD [OF this] blocks_by_id_Some [OF b'] assms(2) have "b' = b" by blast
  with b' show ?thesis by simp
qed

lemma set_blocks_by_id: "(i, b) \<in> set (blocks_by_id bs) \<longleftrightarrow> bt_get (blocks_by_id bs) i = Some b"
  by (simp add: bt_invar_distinct blocks_by_id_invar)

lemma keys_blocks_by_id: "set (bt_keys (blocks_by_id bs)) = block_ids bs"
proof -
  have "i \<in> dom (bt_get (blocks_by_id bs)) \<longleftrightarrow> i \<in> block_ids bs" for i unfolding domIff by simp
  then show ?thesis unfolding bt_keys_def set_map by (subst dom_map_of_conv_image_fst [symmetric]) blast
qed

lemma remove_blocks_eq:
  "distinct ids \<Longrightarrow> remove_blocks ids m = (if set ids \<subseteq> dom (bt_get m) then Inr (fold bt_remove ids m) else Inl DWrongBase)"
  by (induction ids m rule: remove_blocks.induct) (auto simp: bt_get_remove)

lemma get_removed: "bt_get (fold bt_remove ids m) i = (if i \<in> set ids then None else bt_get m i)"
  by (induction ids arbitrary: m) (simp_all add: bt_get_remove)

lemma add_blocks_eq:
  "distinct (map cb_block_id bs) \<Longrightarrow> add_blocks bs m =
    (if block_ids bs \<inter> dom (bt_get m) = {} then Inr (foldl (\<lambda>m b. bt_insert (cb_block_id b) b m) m bs) else Inl DInvalidInput)"
  by (induction bs m rule: add_blocks.induct) (auto simp: bt_get_insert block_ids_def)

lemma get_added:
  "bt_get (foldl (\<lambda>m b. bt_insert (cb_block_id b) b m) m bs) i =
    (case bt_get (blocks_by_id bs) i of None \<Rightarrow> bt_get m i | Some b \<Rightarrow> Some b)"
  by (induction bs rule: rev_induct) (auto simp: bt_get_insert blocks_by_id_snoc, simp add: blocks_by_id_def)

text \<open>What a delta does to the map of its base.\<close>

definition applied_blocks :: "context_delta \<Rightarrow> context_block list \<Rightarrow> version_id \<Rightarrow> context_block option" where
  "applied_blocks d bs i = (case bt_get (blocks_by_id (cd_added_blocks d)) i of
     Some b \<Rightarrow> Some b
   | None \<Rightarrow> if i \<in> set (cd_removed_block_ids d) then None else bt_get (blocks_by_id bs) i)"

lemma delta_wf_distinct:
  assumes "context_delta_wf d"
  shows "distinct (cd_removed_block_ids d)" "distinct (map cb_block_id (cd_added_blocks d))"
  using assms by (auto simp: context_delta_wf_def sorted_set_ok_def strict_sorted_iff)

lemma apply_blocks_eq:
  assumes "context_delta_wf d"
  shows "rbind (remove_blocks (cd_removed_block_ids d) (blocks_by_id bs)) (\<lambda>kept. rbind (add_blocks (cd_added_blocks d) kept) f) =
    (let kept = fold bt_remove (cd_removed_block_ids d) (blocks_by_id bs)
     in if \<not> set (cd_removed_block_ids d) \<subseteq> block_ids bs then Inl DWrongBase
        else if \<not> block_ids (cd_added_blocks d) \<inter> block_ids bs \<subseteq> set (cd_removed_block_ids d) then Inl DInvalidInput
        else f (foldl (\<lambda>m b. bt_insert (cb_block_id b) b m) kept (cd_added_blocks d)))"
proof -
  let ?kept = "fold bt_remove (cd_removed_block_ids d) (blocks_by_id bs)"
  have base: "dom (bt_get (blocks_by_id bs)) = block_ids bs"
    using keys_blocks_by_id [of bs] by (simp add: bt_keys_def dom_map_of_conv_image_fst)
  have "i \<in> dom (bt_get ?kept) \<longleftrightarrow> i \<in> block_ids bs \<and> i \<notin> set (cd_removed_block_ids d)" for i
    unfolding domIff get_removed by (simp del: not_None_eq)
  then have kept: "dom (bt_get ?kept) = block_ids bs - set (cd_removed_block_ids d)" by blast
  have "block_ids (cd_added_blocks d) \<inter> (block_ids bs - set (cd_removed_block_ids d)) = {} \<longleftrightarrow>
      block_ids (cd_added_blocks d) \<inter> block_ids bs \<subseteq> set (cd_removed_block_ids d)" by blast
  then show ?thesis
    unfolding remove_blocks_eq [OF delta_wf_distinct(1) [OF assms]] add_blocks_eq [OF delta_wf_distinct(2) [OF assms]] base kept Let_def
    by (simp add: kept add_blocks_eq [OF delta_wf_distinct(2) [OF assms]])
qed

lemma get_applied_blocks:
  "bt_get (foldl (\<lambda>m b. bt_insert (cb_block_id b) b m) (fold bt_remove (cd_removed_block_ids d) (blocks_by_id bs)) (cd_added_blocks d)) =
    applied_blocks d bs"
  unfolding applied_blocks_def get_added get_removed fun_eq_iff by simp

text \<open>The blocks of a bundle are distinct; their identities need not be.\<close>

lemma sorted_blocks_distinct: "sorted_wrt block_below bs \<Longrightarrow> distinct bs"
  by (induction bs) (auto simp: block_below_def)

lemma bundle_blocks_distinct: "bundle_wf b \<Longrightarrow> distinct (bn_blocks b)"
  by (simp add: bundle_wf_def sorted_blocks_distinct)

lemma exact_blocks_iff:
  assumes "distinct bs"
  shows "list_all (\<lambda>b. bt_get (blocks_by_id bs) (cb_block_id b) = Some b) bs \<longleftrightarrow> distinct (map cb_block_id bs)"
proof
  assume "list_all (\<lambda>b. bt_get (blocks_by_id bs) (cb_block_id b) = Some b) bs"
  then have "inj_on cb_block_id (set bs)" unfolding list_all_iff by (intro inj_onI) (metis option.inject)
  with assms show "distinct (map cb_block_id bs)" by (simp add: distinct_map)
qed (simp add: list_all_iff blocks_by_id_distinct)

text \<open>The delta of a successful generation.\<close>

definition delta_of :: "context_bundle \<Rightarrow> context_bundle \<Rightarrow> context_delta" where
  "delta_of base target = \<lparr>cd_schema_version = context_delta_v1, cd_base_bundle_id = bn_bundle_id base,
     cd_target_bundle_id = bn_bundle_id target,
     cd_added_blocks = map snd (filter (\<lambda>(i, block). bt_get (blocks_by_id (bn_blocks base)) i = None) (blocks_by_id (bn_blocks target))),
     cd_removed_block_ids = filter (\<lambda>i. bt_get (blocks_by_id (bn_blocks target)) i = None) (bt_keys (blocks_by_id (bn_blocks base))),
     cd_resulting_tokens = bn_total_tokens target\<rparr>"

definition compatible :: "context_bundle \<Rightarrow> context_bundle \<Rightarrow> bool" where
  "compatible base target \<longleftrightarrow> (\<forall>i b b'. bt_get (blocks_by_id (bn_blocks target)) i = Some b \<and>
     bt_get (blocks_by_id (bn_blocks base)) i = Some b' \<longrightarrow> b' = b)"

lemma generate_delta_InrD:
  assumes "generate_delta json sha256 base target = Inr sealed"
  shows "bundle_wf base" "bundle_wf target" "bn_bundle_id base \<noteq> bn_bundle_id target" "compatible base target"
    "se_delta sealed = delta_of base target" "context_delta_wf (delta_of base target)"
    "delta_digest json sha256 (se_delta sealed) = Inr (se_delta_digest sealed)"
proof -
  from assms show "bundle_wf base" "bundle_wf target" "bn_bundle_id base \<noteq> bn_bundle_id target"
    "se_delta sealed = delta_of base target" "context_delta_wf (delta_of base target)"
    "delta_digest json sha256 (se_delta sealed) = Inr (se_delta_digest sealed)"
    unfolding generate_delta_def Let_def delta_of_def [symmetric]
    by (auto simp: result_simps split: if_splits)
  from assms have "\<not> list_ex (\<lambda>(i, block). case bt_get (blocks_by_id (bn_blocks base)) i of None \<Rightarrow> False | Some b \<Rightarrow> b \<noteq> block)
      (blocks_by_id (bn_blocks target))"
    unfolding generate_delta_def Let_def by (auto simp: result_simps split: if_splits)
  note free = this [unfolded list_ex_iff]
  show "compatible base target" unfolding compatible_def
  proof (intro allI impI)
    fix i b b'
    assume "bt_get (blocks_by_id (bn_blocks target)) i = Some b \<and> bt_get (blocks_by_id (bn_blocks base)) i = Some b'"
    moreover from this have "(i, b) \<in> set (blocks_by_id (bn_blocks target))" by (simp add: set_blocks_by_id)
    ultimately show "b' = b" using free by force
  qed
qed

lemma delta_of_ids:
  "set (cd_removed_block_ids (delta_of base target)) = block_ids (bn_blocks base) - block_ids (bn_blocks target)"
  "b \<in> set (cd_added_blocks (delta_of base target)) \<longleftrightarrow>
    bt_get (blocks_by_id (bn_blocks target)) (cb_block_id b) = Some b \<and> cb_block_id b \<notin> block_ids (bn_blocks base)"
proof -
  show "set (cd_removed_block_ids (delta_of base target)) = block_ids (bn_blocks base) - block_ids (bn_blocks target)"
    using keys_blocks_by_id [of "bn_blocks base"] by (auto simp: delta_of_def)
  show "b \<in> set (cd_added_blocks (delta_of base target)) \<longleftrightarrow>
      bt_get (blocks_by_id (bn_blocks target)) (cb_block_id b) = Some b \<and> cb_block_id b \<notin> block_ids (bn_blocks base)"
  proof
    assume "b \<in> set (cd_added_blocks (delta_of base target))"
    then obtain i where i: "(i, b) \<in> set (blocks_by_id (bn_blocks target))" "i \<notin> block_ids (bn_blocks base)"
      by (auto simp: delta_of_def)
    moreover from i(1) have "cb_block_id b = i" using blocks_by_id_Some unfolding set_blocks_by_id by blast
    ultimately show "bt_get (blocks_by_id (bn_blocks target)) (cb_block_id b) = Some b \<and> cb_block_id b \<notin> block_ids (bn_blocks base)"
      by (simp add: set_blocks_by_id)
  next
    assume "bt_get (blocks_by_id (bn_blocks target)) (cb_block_id b) = Some b \<and> cb_block_id b \<notin> block_ids (bn_blocks base)"
    then have "(cb_block_id b, b) \<in> set (blocks_by_id (bn_blocks target))" "cb_block_id b \<notin> block_ids (bn_blocks base)"
      by (simp_all add: set_blocks_by_id)
    then show "b \<in> set (cd_added_blocks (delta_of base target))" by (force simp: delta_of_def)
  qed
qed

lemma added_ids: "block_ids (cd_added_blocks (delta_of base target)) = block_ids (bn_blocks target) - block_ids (bn_blocks base)"
proof (intro set_eqI iffI)
  fix i
  assume "i \<in> block_ids (cd_added_blocks (delta_of base target))"
  then obtain b where "b \<in> set (cd_added_blocks (delta_of base target))" "i = cb_block_id b" by (auto simp: block_ids_def)
  then show "i \<in> block_ids (bn_blocks target) - block_ids (bn_blocks base)"
    unfolding delta_of_ids(2) by (auto simp: block_ids_def dest: blocks_by_id_Some)
next
  fix i
  assume i: "i \<in> block_ids (bn_blocks target) - block_ids (bn_blocks base)"
  then obtain b where b: "bt_get (blocks_by_id (bn_blocks target)) i = Some b"
    using blocks_by_id_None [of "bn_blocks target" i] by blast
  then have "cb_block_id b = i" by (simp add: blocks_by_id_Some)
  with b i have "b \<in> set (cd_added_blocks (delta_of base target))" unfolding delta_of_ids(2) by simp
  with \<open>cb_block_id b = i\<close> show "i \<in> block_ids (cd_added_blocks (delta_of base target))" by (auto simp: block_ids_def)
qed

text \<open>Applied to its base, the delta gives the blocks of its target.\<close>

lemma delta_of_applied:
  assumes "compatible base target" "context_delta_wf (delta_of base target)"
  shows "applied_blocks (delta_of base target) (bn_blocks base) = bt_get (blocks_by_id (bn_blocks target))"
proof
  fix i
  let ?d = "delta_of base target" and ?B = "bt_get (blocks_by_id (bn_blocks base))" and ?T = "bt_get (blocks_by_id (bn_blocks target))"
  consider (gone) "i \<notin> block_ids (bn_blocks target)" | (added) "i \<in> block_ids (bn_blocks target)" "i \<notin> block_ids (bn_blocks base)"
    | (kept) "i \<in> block_ids (bn_blocks target)" "i \<in> block_ids (bn_blocks base)" by blast
  then show "applied_blocks ?d (bn_blocks base) i = ?T i"
  proof cases
    case gone
    then have "i \<notin> block_ids (cd_added_blocks ?d)" by (simp add: added_ids)
    then have "bt_get (blocks_by_id (cd_added_blocks ?d)) i = None" by simp
    moreover have "?T i = None" using gone by simp
    moreover have "?B i = None" if "i \<notin> set (cd_removed_block_ids ?d)" using that gone by (simp add: delta_of_ids(1))
    ultimately show ?thesis by (auto simp: applied_blocks_def simp del: blocks_by_id_None)
  next
    case added
    then obtain b where b: "?T i = Some b" using blocks_by_id_None [of "bn_blocks target" i] by blast
    then have "cb_block_id b = i" by (simp add: blocks_by_id_Some)
    moreover from this b added have "b \<in> set (cd_added_blocks ?d)" unfolding delta_of_ids(2) by simp
    ultimately have "bt_get (blocks_by_id (cd_added_blocks ?d)) i = Some b"
      using blocks_by_id_distinct [OF delta_wf_distinct(2) [OF assms(2)]] by blast
    with b show ?thesis by (simp add: applied_blocks_def)
  next
    case kept
    then obtain b b' where b: "?T i = Some b" "?B i = Some b'"
      using blocks_by_id_None [of "bn_blocks target" i] blocks_by_id_None [of "bn_blocks base" i] by blast
    then have "?B i = Some b" using assms(1) unfolding compatible_def by blast
    moreover have "bt_get (blocks_by_id (cd_added_blocks ?d)) i = None" using kept by (simp add: added_ids)
    moreover have "i \<notin> set (cd_removed_block_ids ?d)" using kept by (simp add: delta_of_ids(1))
    ultimately show ?thesis using b(1) by (simp add: applied_blocks_def del: blocks_by_id_None)
  qed
qed

subsection \<open>Application\<close>

lemma u32_try_from_Some: "u32_try_from n = Some w \<longleftrightarrow> unat w = n"
proof
  assume "unat w = n"
  moreover have "unat w < 2 ^ 32" using unsigned_less [of w] by simp
  moreover have "of_nat (unat w) = w" by simp
  ultimately show "u32_try_from n = Some w" unfolding u32_try_from_def by auto
qed (auto simp: u32_try_from_def unsigned_of_nat take_bit_nat_eq_self split: if_splits)

lemma u32_try_from_small: "n < 2 ^ 32 \<Longrightarrow> \<exists>w. u32_try_from n = Some w \<and> unat w = n"
  by (simp add: u32_try_from_def unsigned_of_nat take_bit_nat_eq_self)

lemma apply_delta_verified_eq:
  assumes "bundle_wf base" "bundle_wf target" "context_delta_wf (se_delta sealed)"
    and "delta_digest json sha256 (se_delta sealed) = Inr (se_delta_digest sealed)"
    and "cd_base_bundle_id (se_delta sealed) = bn_bundle_id base" "cd_target_bundle_id (se_delta sealed) = bn_bundle_id target"
  shows "apply_delta_verified json sha256 base target sealed =
    (if \<not> set (cd_removed_block_ids (se_delta sealed)) \<subseteq> block_ids (bn_blocks base) then Inl DWrongBase
     else if \<not> block_ids (cd_added_blocks (se_delta sealed)) \<inter> block_ids (bn_blocks base) \<subseteq> set (cd_removed_block_ids (se_delta sealed))
     then Inl DInvalidInput
     else if dom (applied_blocks (se_delta sealed) (bn_blocks base)) \<noteq> block_ids (bn_blocks target)
        \<or> \<not> list_all (\<lambda>b. applied_blocks (se_delta sealed) (bn_blocks base) (cb_block_id b) = Some b) (bn_blocks target)
        \<or> cd_resulting_tokens (se_delta sealed) \<noteq> bn_total_tokens target
     then Inl DTargetMismatch
     else rbind (reuse_evidence base target (se_delta sealed)) (\<lambda>reuse.
       Inr \<lparr>ap_bundle = target, ap_base_bundle_id = bn_bundle_id base, ap_target_bundle_id = bn_bundle_id target,
         ap_delta_digest = se_delta_digest sealed, ap_reuse = reuse\<rparr>))"
proof -
  have "set (bt_keys m) = dom (bt_get m)" for m :: "(version_id, context_block) btree"
    by (simp add: bt_keys_def dom_map_of_conv_image_fst)
  moreover have "bundle_validate base = Inr ()" "bundle_validate target = Inr ()" "context_delta_validate (se_delta sealed) = Inr ()"
    using assms(1-3) by simp_all
  note valid = this
  ultimately show ?thesis using assms(4-6)
    unfolding apply_delta_verified_def valid
    by (simp add: apply_blocks_eq [OF assms(3)] get_applied_blocks Let_def block_ids_def)
qed

lemma added_length:
  assumes "distinct (map cb_block_id (bn_blocks target))" "context_delta_wf (delta_of base target)"
  shows "length (cd_added_blocks (delta_of base target)) =
    length (filter (\<lambda>b. cb_block_id b \<notin> block_ids (bn_blocks base)) (bn_blocks target))"
proof -
  have "set (cd_added_blocks (delta_of base target)) = set (filter (\<lambda>b. cb_block_id b \<notin> block_ids (bn_blocks base)) (bn_blocks target))"
  proof (intro set_eqI)
    fix b
    show "b \<in> set (cd_added_blocks (delta_of base target)) \<longleftrightarrow>
        b \<in> set (filter (\<lambda>b. cb_block_id b \<notin> block_ids (bn_blocks base)) (bn_blocks target))"
      unfolding delta_of_ids(2) using blocks_by_id_distinct [OF assms(1), of b] blocks_by_id_Some [of "bn_blocks target" "cb_block_id b" b] by auto
  qed
  moreover have "distinct (cd_added_blocks (delta_of base target))" using delta_wf_distinct(2) [OF assms(2)] by (simp add: distinct_map)
  moreover have "distinct (bn_blocks target)" using assms(1) by (simp add: distinct_map)
  ultimately show ?thesis by (metis distinct_card distinct_filter)
qed

lemma sum_list_filter_le: "sum_list (map f (filter P xs)) \<le> (sum_list (map f xs) :: nat)"
  by (induction xs) auto

lemma reuse_evidence_delta_of:
  assumes "compatible base target" "bundle_wf base" "bundle_wf target" "distinct (map cb_block_id (bn_blocks target))"
    and "context_delta_wf (delta_of base target)"
  shows "\<exists>reuse. reuse_evidence base target (delta_of base target) = Inr reuse \<and>
    unat (re_reused_blocks reuse) = length (filter (\<lambda>b. b \<in> set (bn_blocks base)) (bn_blocks target)) \<and>
    unat (re_reused_tokens reuse) = sum_list (map (unat \<circ> cb_token_count) (filter (\<lambda>b. b \<in> set (bn_blocks base)) (bn_blocks target))) \<and>
    unat (re_added_blocks reuse) = length (filter (\<lambda>b. b \<notin> set (bn_blocks base)) (bn_blocks target))"
proof -
  let ?d = "delta_of base target" and ?bs = "bn_blocks target"
  have in_base: "bt_get (blocks_by_id (bn_blocks base)) (cb_block_id b) = Some b \<longleftrightarrow> b \<in> set (bn_blocks base)"
    "cb_block_id b \<in> block_ids (bn_blocks base) \<longleftrightarrow> b \<in> set (bn_blocks base)" if "b \<in> set ?bs" for b
  proof -
    have target: "bt_get (blocks_by_id ?bs) (cb_block_id b) = Some b" by (rule blocks_by_id_distinct [OF assms(4) that])
    have "bt_get (blocks_by_id (bn_blocks base)) (cb_block_id b) = Some b" if "cb_block_id b \<in> block_ids (bn_blocks base)"
    proof -
      from that obtain b' where b': "bt_get (blocks_by_id (bn_blocks base)) (cb_block_id b) = Some b'"
        using blocks_by_id_None [of "bn_blocks base" "cb_block_id b"] by blast
      with target assms(1) have "b' = b" unfolding compatible_def by blast
      with b' show ?thesis by simp
    qed
    then show "bt_get (blocks_by_id (bn_blocks base)) (cb_block_id b) = Some b \<longleftrightarrow> b \<in> set (bn_blocks base)"
      "cb_block_id b \<in> block_ids (bn_blocks base) \<longleftrightarrow> b \<in> set (bn_blocks base)"
      using blocks_by_id_Some [of "bn_blocks base" "cb_block_id b" b] by (auto simp: block_ids_def)
  qed
  let ?reused = "filter (\<lambda>b. b \<in> set (bn_blocks base)) ?bs"
  have reused: "filter (\<lambda>b. bt_get (blocks_by_id (bn_blocks base)) (cb_block_id b) = Some b) ?bs = ?reused"
    using in_base(1) by (intro filter_cong) auto
  have added: "length (cd_added_blocks ?d) = length (filter (\<lambda>b. b \<notin> set (bn_blocks base)) ?bs)"
    unfolding added_length [OF assms(4,5)] using in_base(2) by (intro arg_cong [where f = length] filter_cong) auto
  have total: "length ?reused + length (cd_added_blocks ?d) = length ?bs" unfolding added by (rule sum_length_filter_compl)
  have bounds: "length ?bs < 2 ^ 32" "length (cd_removed_block_ids ?d) < 2 ^ 32"
    using assms(3,5) by (auto simp: bundle_wf_def context_delta_wf_def sorted_set_ok_def catalog_limits)
  have "sum_list (map (unat \<circ> cb_token_count) ?reused) \<le> sum_list (map (unat \<circ> cb_token_count) ?bs)"
    by (rule sum_list_filter_le)
  moreover have "sum_list (map (unat \<circ> cb_token_count) ?bs) = unat (bn_total_tokens target)" using assms(3) by (simp add: bundle_wf_def)
  moreover have "unat (bn_total_tokens target) < 2 ^ 32" using unsigned_less [of "bn_total_tokens target"] by simp
  ultimately have "sum_list (map (unat \<circ> cb_token_count) ?reused) < 2 ^ 32" by linarith
  from u32_try_from_small [OF this] obtain tokens :: u32 where tokens: "unat tokens = sum_list (map (unat \<circ> cb_token_count) ?reused)" by blast
  then have sum: "token_sum 0 ?reused = Some tokens" by (simp add: token_sum_iff)
  have "length ?reused < 2 ^ 32" "length (cd_added_blocks ?d) < 2 ^ 32" using total bounds(1) by linarith+
  from u32_try_from_small [OF this(1)] u32_try_from_small [OF this(2)] u32_try_from_small [OF bounds(2)]
  obtain n a r where words: "u32_try_from (length ?reused) = Some n" "unat n = length ?reused"
      "u32_try_from (length (cd_added_blocks ?d)) = Some a" "unat a = length (cd_added_blocks ?d)"
      "u32_try_from (length (cd_removed_block_ids ?d)) = Some r" by blast
  have "unat n + unat a < 2 ^ 32" using words(2,4) total bounds(1) by simp
  then have add: "checked_add n a = Some (n + a)" by (simp add: checked_add_def)
  from checked_add_SomeD [OF this] words(2,4) total have "unat (n + a) = length ?bs" by simp
  with add have "checked_add n a = u32_try_from (length ?bs)" by (simp add: u32_try_from_Some [THEN iffD2])
  with words sum tokens show ?thesis unfolding reuse_evidence_def Let_def reused by (simp add: added)
qed

subsection \<open>Properties\<close>

lemma generated_applies:
  assumes "generate_delta json sha256 base target = Inr sealed"
  shows "apply_delta_verified json sha256 base target sealed =
      (if \<not> distinct (map cb_block_id (bn_blocks target)) then Inl DTargetMismatch
       else rbind (reuse_evidence base target (delta_of base target)) (\<lambda>reuse.
         Inr \<lparr>ap_bundle = target, ap_base_bundle_id = bn_bundle_id base, ap_target_bundle_id = bn_bundle_id target,
           ap_delta_digest = se_delta_digest sealed, ap_reuse = reuse\<rparr>))"
proof -
  note g = generate_delta_InrD [OF assms]
  let ?d = "delta_of base target"
  have ids: "set (cd_removed_block_ids ?d) \<subseteq> block_ids (bn_blocks base)"
    "block_ids (cd_added_blocks ?d) \<inter> block_ids (bn_blocks base) \<subseteq> set (cd_removed_block_ids ?d)"
    by (auto simp: delta_of_ids(1) added_ids)
  have dom: "dom (bt_get (blocks_by_id (bn_blocks target))) = block_ids (bn_blocks target)"
    using keys_blocks_by_id [of "bn_blocks target"] by (simp add: bt_keys_def dom_map_of_conv_image_fst)
  have "cd_base_bundle_id ?d = bn_bundle_id base" "cd_target_bundle_id ?d = bn_bundle_id target" "cd_resulting_tokens ?d = bn_total_tokens target"
    by (simp_all add: delta_of_def)
  then show ?thesis using apply_delta_verified_eq [OF g(1,2), of sealed json sha256] g ids dom
    by (simp add: delta_of_applied [OF g(4,6)] exact_blocks_iff [OF bundle_blocks_distinct [OF g(2)]])
qed

lemma delta_round_trip_applied:
  assumes "generate_delta json sha256 base target = Inr sealed" "distinct (map cb_block_id (bn_blocks target))"
  shows "\<exists>applied. apply_delta_verified json sha256 base target sealed = Inr applied"
  using reuse_evidence_delta_of [OF generate_delta_InrD(4,1,2) [OF assms(1)] assms(2) generate_delta_InrD(6) [OF assms(1)]] assms(2)
  by (auto simp: generated_applies [OF assms(1)])

text \<open>
  (C21) A generated delta reproduces its target: applied to the base it was generated from, it is accepted with the target
  as its result and with exact counts of the reused and added blocks and the reused tokens, provided the target does not
  hold two blocks under one identity. A valid bundle may hold such blocks in different lanes; then the application is
  refused as a mismatch.
\<close>

theorem delta_round_trip:
  assumes "generate_delta json sha256 base target = Inr sealed"
  shows "if distinct (map cb_block_id (bn_blocks target))
    then \<exists>reuse. apply_delta_verified json sha256 base target sealed =
        Inr \<lparr>ap_bundle = target, ap_base_bundle_id = bn_bundle_id base, ap_target_bundle_id = bn_bundle_id target,
          ap_delta_digest = se_delta_digest sealed, ap_reuse = reuse\<rparr> \<and>
      apply_delta json sha256 base target sealed = Inr target \<and>
      unat (re_reused_blocks reuse) = length (filter (\<lambda>b. b \<in> set (bn_blocks base)) (bn_blocks target)) \<and>
      unat (re_reused_tokens reuse) = sum_list (map (unat \<circ> cb_token_count) (filter (\<lambda>b. b \<in> set (bn_blocks base)) (bn_blocks target))) \<and>
      unat (re_added_blocks reuse) = length (filter (\<lambda>b. b \<notin> set (bn_blocks base)) (bn_blocks target))
    else apply_delta_verified json sha256 base target sealed = Inl DTargetMismatch"
proof -
  note g = generate_delta_InrD [OF assms] and applies = generated_applies [OF assms]
  show ?thesis
  proof (cases "distinct (map cb_block_id (bn_blocks target))")
    case True
    from reuse_evidence_delta_of [OF g(4,1,2) True g(6)] True show ?thesis by (auto simp: applies apply_delta_def)
  qed (simp add: applies)
qed

text \<open>
  (C22) Evidence of an application is exact. Whatever delta a peer presents, an application is accepted, and can then be
  acknowledged, only if its seal is the digest of the delta, both bundles are the ones it names, it removes only blocks of
  the base and adds no block that is still there, and the blocks that result are exactly those of the target.
\<close>

theorem applied_delta_is_exact:
  assumes "apply_delta_verified json sha256 base target sealed = Inr applied"
    and "acknowledge_delta session fingerprint applied sequence = Some ack"
  shows "delta_digest json sha256 (se_delta sealed) = Inr (ak_delta_digest ack) \<and> ap_bundle applied = target \<and>
    ak_base_bundle_id ack = bn_bundle_id base \<and> cd_base_bundle_id (se_delta sealed) = bn_bundle_id base \<and>
    ak_target_bundle_id ack = bn_bundle_id target \<and> cd_target_bundle_id (se_delta sealed) = bn_bundle_id target \<and>
    bundle_wf base \<and> bundle_wf target \<and> distinct (map cb_block_id (bn_blocks target)) \<and>
    set (cd_removed_block_ids (se_delta sealed)) \<subseteq> block_ids (bn_blocks base) \<and>
    block_ids (cd_added_blocks (se_delta sealed)) \<inter> block_ids (bn_blocks base) = {} \<and>
    (\<forall>i. applied_blocks (se_delta sealed) (bn_blocks base) i = bt_get (blocks_by_id (bn_blocks target)) i)"
proof -
  from assms(1) have wf: "bundle_wf base" "bundle_wf target" "context_delta_wf (se_delta sealed)"
    and digest: "delta_digest json sha256 (se_delta sealed) = Inr (se_delta_digest sealed)"
    and ids: "cd_base_bundle_id (se_delta sealed) = bn_bundle_id base" "cd_target_bundle_id (se_delta sealed) = bn_bundle_id target"
    unfolding apply_delta_verified_def by (auto simp: result_simps split: if_splits)
  let ?a = "applied_blocks (se_delta sealed) (bn_blocks base)"
  from assms(1) have applied: "set (cd_removed_block_ids (se_delta sealed)) \<subseteq> block_ids (bn_blocks base)"
    "block_ids (cd_added_blocks (se_delta sealed)) \<inter> block_ids (bn_blocks base) \<subseteq> set (cd_removed_block_ids (se_delta sealed))"
    "dom ?a = block_ids (bn_blocks target)" "list_all (\<lambda>b. ?a (cb_block_id b) = Some b) (bn_blocks target)"
    "ap_bundle applied = target" "ap_base_bundle_id applied = bn_bundle_id base" "ap_target_bundle_id applied = bn_bundle_id target"
    "ap_delta_digest applied = se_delta_digest sealed"
    unfolding apply_delta_verified_eq [OF wf digest ids] by (auto simp: result_simps split: if_splits)
  have "inj_on cb_block_id (set (bn_blocks target))" using applied(4) unfolding list_all_iff by (intro inj_onI) (metis option.inject)
  then have distinct: "distinct (map cb_block_id (bn_blocks target))"
    using bundle_blocks_distinct [OF wf(2)] by (simp add: distinct_map)
  have "?a i = bt_get (blocks_by_id (bn_blocks target)) i" for i
  proof (cases "i \<in> block_ids (bn_blocks target)")
    case True
    then obtain b where "b \<in> set (bn_blocks target)" "i = cb_block_id b" by (auto simp: block_ids_def)
    with applied(4) blocks_by_id_distinct [OF distinct] show ?thesis by (simp add: list_all_iff)
  next
    case False
    then have "?a i = None" using applied(3) by blast
    with False show ?thesis using blocks_by_id_None by metis
  qed
  moreover have "block_ids (cd_added_blocks (se_delta sealed)) \<inter> set (cd_removed_block_ids (se_delta sealed)) = {}"
    using wf(3) by (simp add: context_delta_wf_def block_ids_def)
  ultimately show ?thesis using assms(2) wf digest ids applied distinct
    by (auto simp: acknowledge_delta_def split: if_splits)
qed

subsection \<open>Witnesses\<close>

definition sample_block :: "string \<Rightarrow> context_block" where
  "sample_block i = \<lparr>cb_block_id = i, cb_lane = LTask, cb_representation = Exact, cb_content_digest = ''d'', cb_token_count = 2,
     cb_provenance = [''v''], cb_transform_receipt = None\<rparr>"

definition sample_bundle :: "string \<Rightarrow> context_block list \<Rightarrow> u32 \<Rightarrow> context_bundle" where
  "sample_bundle i blocks tokens = \<lparr>bn_schema_version = \<lparr>sv_family = ''cigar.context-bundle'', sv_major = 1\<rparr>, bn_bundle_id = i,
     bn_contract_digest = ''c'', bn_manifest_digest = ''m'', bn_blocks = blocks, bn_total_tokens = tokens, bn_extensions = []\<rparr>"

definition sample_base :: context_bundle where
  "sample_base = sample_bundle ''x'' [sample_block ''a'', sample_block ''b''] 4"

definition sample_target :: context_bundle where
  "sample_target = sample_bundle ''y'' [sample_block ''b'', sample_block ''c''] 4"

definition sample_delta :: context_delta where
  "sample_delta = \<lparr>cd_schema_version = context_delta_v1, cd_base_bundle_id = ''x'', cd_target_bundle_id = ''y'',
     cd_added_blocks = [sample_block ''c''], cd_removed_block_ids = [''a''], cd_resulting_tokens = 4\<rparr>"

definition sample_json :: "context_delta \<Rightarrow> string option" where
  "sample_json d = Some (concat (cd_removed_block_ids d))"

lemmas sample_deltas = sample_base_def sample_target_def sample_bundle_def sample_block_def sample_delta_def sample_json_def
  blocks_by_id_def context_delta_v1_def delta_digest_def materializer_digest_def

lemma sample_wf: "bundle_wf sample_base" "bundle_wf sample_target" "context_delta_wf sample_delta"
  by (simp_all add: bundle_wf_def block_wf_def block_below_def context_delta_wf_def sorted_set_ok_def version_ok_def extensions_ok_def
      catalog_limits sample_deltas)

lemma sample_valid: "bundle_validate sample_base = Inr ()" "bundle_validate sample_target = Inr ()" "context_delta_validate sample_delta = Inr ()"
  using sample_wf by simp_all

lemma sample_generate: "generate_delta sample_json (\<lambda>_. []) sample_base sample_target = Inr \<lparr>se_delta = sample_delta, se_delta_digest = ''1220''\<rparr>"
proof -
  have "delta_of sample_base sample_target = sample_delta"
    by (simp add: delta_of_def sample_deltas bt_keys_def del: blocks_by_id_None)
  moreover have "bn_bundle_id sample_base \<noteq> bn_bundle_id sample_target" by (simp add: sample_deltas)
  moreover have "\<not> list_ex (\<lambda>(i, block). case bt_get (blocks_by_id (bn_blocks sample_base)) i of None \<Rightarrow> False | Some b \<Rightarrow> b \<noteq> block)
      (blocks_by_id (bn_blocks sample_target))" by (simp add: sample_deltas del: blocks_by_id_None)
  moreover have "delta_digest sample_json (\<lambda>_. []) sample_delta = Inr ''1220''" by (simp add: sample_deltas)
  ultimately show ?thesis unfolding generate_delta_def Let_def delta_of_def [symmetric] sample_valid
    by (simp only: sample_valid rbind_simps map_err_simps if_False simp_thms)
qed

theorem delta_round_trip_witness:
  "apply_delta sample_json (\<lambda>_. []) sample_base sample_target \<lparr>se_delta = sample_delta, se_delta_digest = ''1220''\<rparr> = Inr sample_target"
proof -
  have "distinct (map cb_block_id (bn_blocks sample_target))" by (simp add: sample_deltas)
  with delta_round_trip [OF sample_generate] show ?thesis by auto
qed

theorem applied_delta_is_exact_witness:
  "set (cd_removed_block_ids sample_delta) \<subseteq> block_ids (bn_blocks sample_base)"
proof -
  have "distinct (map cb_block_id (bn_blocks sample_target))" by (simp add: sample_deltas)
  with delta_round_trip_applied [OF sample_generate] obtain applied where
    applied: "apply_delta_verified sample_json (\<lambda>_. []) sample_base sample_target \<lparr>se_delta = sample_delta, se_delta_digest = ''1220''\<rparr> = Inr applied"
    by blast
  have "acknowledge_delta ''s'' ''f'' applied 1 = Some \<lparr>ak_provider_session = ''s'', ak_target_fingerprint = ''f'',
      ak_base_bundle_id = ap_base_bundle_id applied, ak_target_bundle_id = ap_target_bundle_id applied,
      ak_delta_digest = ap_delta_digest applied, ak_sequence = 1\<rparr>" by (simp add: acknowledge_delta_def)
  from applied_delta_is_exact [OF applied this] show ?thesis by simp
qed

end
