(* ===== verification/Compiler_Cache.thy ===== *)
theory Compiler_Cache
  imports Compilation_Records BTree_Map "HOL-Library.Product_Lexorder"
begin

text \<open>
  The governed cache of the compiler, \<open>cigar-compiler/src/cache.rs\<close>: entries are scoped by layer, tenant and disclosure
  domain, carry the policy digest and revocation epoch that authorized them and a digest of their bytes, and are evicted
  least recently used first. SHA-256 is a parameter; byte and entry counts of what fits in memory are natural numbers, so
  that only the access clock saturates. Histories of calls then say what a hit may rest on: exactly the bytes some call
  stored for this key, policy digest and epoch, with nothing since that withdrew them.
\<close>

datatype cache_layer = LayerAtom | LayerTransform | LayerRetrieval | LayerPlan | LayerBundle | LayerMaterialization

fun layer_rank :: "cache_layer \<Rightarrow> nat" where
  "layer_rank LayerAtom = 0"
| "layer_rank LayerTransform = 1"
| "layer_rank LayerRetrieval = 2"
| "layer_rank LayerPlan = 3"
| "layer_rank LayerBundle = 4"
| "layer_rank LayerMaterialization = 5"

lemma layer_rank_inject [simp]: "layer_rank x = layer_rank y \<longleftrightarrow> x = y"
  by (cases x; cases y) simp_all

datatype cache_key = CacheKey (ck_layer: cache_layer) (ck_tenant: string) (ck_disclosure_domain: string) (ck_fingerprint: content_digest)

text \<open>Keys are ordered by their fields in the order of declaration.\<close>

definition key_position :: "cache_key \<Rightarrow> nat \<times> string \<times> string \<times> string" where
  "key_position k = (layer_rank (ck_layer k), ck_tenant k, ck_disclosure_domain k, ck_fingerprint k)"

lemma key_position_inject [simp]: "key_position x = key_position y \<longleftrightarrow> x = y"
  by (cases x; cases y) (auto simp: key_position_def)

instantiation cache_key :: linorder
begin

definition less_eq_cache_key :: "cache_key \<Rightarrow> cache_key \<Rightarrow> bool" where
  "less_eq_cache_key x y \<longleftrightarrow> key_position x \<le> key_position y"

definition less_cache_key :: "cache_key \<Rightarrow> cache_key \<Rightarrow> bool" where
  "less_cache_key x y \<longleftrightarrow> key_position x < key_position y"

instance
proof
  fix x y z :: cache_key
  show "x < y \<longleftrightarrow> x \<le> y \<and> \<not> y \<le> x" unfolding less_cache_key_def less_eq_cache_key_def by (rule less_le_not_le)
  show "x \<le> x" by (simp add: less_eq_cache_key_def)
  show "x \<le> y \<Longrightarrow> y \<le> z \<Longrightarrow> x \<le> z" unfolding less_eq_cache_key_def by (rule order_trans)
  show "x \<le> y \<Longrightarrow> y \<le> x \<Longrightarrow> x = y" unfolding less_eq_cache_key_def key_position_inject [symmetric] by (rule antisym)
  show "x \<le> y \<or> y \<le> x" unfolding less_eq_cache_key_def by (rule linear)
qed

end

definition cache_key_new :: "cache_layer \<Rightarrow> string \<Rightarrow> string \<Rightarrow> content_digest \<Rightarrow> cache_key option" where
  "cache_key_new layer tenant disclosure_domain fingerprint =
     (if tenant = [] \<or> disclosure_domain = [] then None else Some (CacheKey layer tenant disclosure_domain fingerprint))"

record cache_entry =
  ge_bytes :: string
  ge_integrity :: content_digest
  ge_policy_digest :: content_digest
  ge_revocation_epoch :: u64
  ge_last_access :: u64

record governed_cache =
  gc_maximum_entries :: nat
  gc_maximum_bytes :: nat
  gc_resident_bytes :: nat
  gc_access_clock :: u64
  gc_entries :: "(cache_key, cache_entry) btree"

record governed_cache_metrics =
  gm_maximum_entries :: nat
  gm_maximum_bytes :: nat
  gm_entries :: nat
  gm_resident_bytes :: nat

definition cache_new :: "nat \<Rightarrow> nat \<Rightarrow> governed_cache option" where
  "cache_new maximum_entries maximum_bytes =
     (if maximum_entries > 0 \<and> maximum_bytes > 0
      then Some \<lparr>gc_maximum_entries = maximum_entries, gc_maximum_bytes = maximum_bytes, gc_resident_bytes = 0,
             gc_access_clock = 0, gc_entries = []\<rparr>
      else None)"

definition cache_remove :: "cache_key \<Rightarrow> governed_cache \<Rightarrow> governed_cache" where
  "cache_remove key c = (case bt_get (gc_entries c) key of
     None \<Rightarrow> c
   | Some entry \<Rightarrow> c\<lparr>gc_entries := bt_remove key (gc_entries c), gc_resident_bytes := gc_resident_bytes c - length (ge_bytes entry)\<rparr>)"

subsection \<open>Eviction\<close>

definition older :: "cache_key \<times> cache_entry \<Rightarrow> cache_key \<times> cache_entry \<Rightarrow> bool" where
  "older a b \<longleftrightarrow> ge_last_access (snd a) < ge_last_access (snd b) \<or>
     ge_last_access (snd a) = ge_last_access (snd b) \<and> fst a < fst b"

fun lru_victim :: "(cache_key \<times> cache_entry) list \<Rightarrow> cache_key option" where
  "lru_victim [] = None"
| "lru_victim (x # xs) = Some (fst (fold (\<lambda>y best. if older y best then y else best) xs x))"

lemma oldest_member: "fold (\<lambda>y best. if older y best then y else best) xs x \<in> set (x # xs)"
proof (induction xs arbitrary: x)
  case (Cons y xs)
  from Cons [of "if older y x then y else x"] show ?case by (auto split: if_splits)
qed simp

lemma lru_victim_member: "lru_victim m = Some k \<Longrightarrow> k \<in> fst ` set m"
proof (cases m)
  case (Cons x xs)
  assume "lru_victim m = Some k"
  with Cons have "k = fst (fold (\<lambda>y best. if older y best then y else best) xs x)" by simp
  with oldest_member [of xs x] Cons show ?thesis by blast
qed simp

lemma length_bt_remove_less: "k \<in> fst ` set m \<Longrightarrow> length (bt_remove k m) < length m"
  by (auto simp: bt_remove_def intro: length_filter_less)

function evict_to_bounds :: "governed_cache \<Rightarrow> governed_cache" where
  "evict_to_bounds c =
     (if length (gc_entries c) > gc_maximum_entries c \<or> gc_resident_bytes c > gc_maximum_bytes c
      then (case lru_victim (gc_entries c) of None \<Rightarrow> c | Some victim \<Rightarrow> evict_to_bounds (cache_remove victim c))
      else c)"
  by pat_completeness auto
termination
proof (relation "measure (\<lambda>c. length (gc_entries c))")
  fix c :: governed_cache and victim
  assume "lru_victim (gc_entries c) = Some victim"
  note member = lru_victim_member [OF this]
  then have "bt_get (gc_entries c) victim \<noteq> None" by (simp add: map_of_eq_None_iff)
  with length_bt_remove_less [OF member] show "(cache_remove victim c, c) \<in> measure (\<lambda>c. length (gc_entries c))"
    by (auto simp: cache_remove_def)
qed simp

declare evict_to_bounds.simps [simp del]

subsection \<open>Operations\<close>

definition cache_insert ::
    "(string \<Rightarrow> string) \<Rightarrow> cache_key \<Rightarrow> string \<Rightarrow> content_digest \<Rightarrow> u64 \<Rightarrow> governed_cache \<Rightarrow> governed_cache \<times> bool" where
  "cache_insert sha256 key bytes policy_digest revocation_epoch c =
     (if bytes = [] \<or> length bytes > gc_maximum_bytes c then (c, False)
      else let c1 = cache_remove key (c\<lparr>gc_access_clock := saturating_add (gc_access_clock c) 1\<rparr>);
               entry = \<lparr>ge_bytes = bytes, ge_integrity = materializer_digest sha256 bytes, ge_policy_digest = policy_digest,
                 ge_revocation_epoch = revocation_epoch, ge_last_access = gc_access_clock c1\<rparr>
           in (evict_to_bounds (c1\<lparr>gc_resident_bytes := gc_resident_bytes c1 + length bytes,
                 gc_entries := bt_insert key entry (gc_entries c1)\<rparr>), True))"

definition reusable :: "(string \<Rightarrow> string) \<Rightarrow> content_digest \<Rightarrow> u64 \<Rightarrow> cache_entry \<Rightarrow> bool" where
  "reusable sha256 current_policy_digest current_revocation_epoch entry \<longleftrightarrow>
     ge_policy_digest entry = current_policy_digest \<and> ge_revocation_epoch entry = current_revocation_epoch \<and>
     materializer_digest sha256 (ge_bytes entry) = ge_integrity entry"

definition cache_get ::
    "(string \<Rightarrow> string) \<Rightarrow> cache_key \<Rightarrow> content_digest \<Rightarrow> u64 \<Rightarrow> (cache_key \<Rightarrow> bool) \<Rightarrow> governed_cache
      \<Rightarrow> governed_cache \<times> string option" where
  "cache_get sha256 key current_policy_digest current_revocation_epoch currently_eligible c =
     (case bt_get (gc_entries c) key of
        None \<Rightarrow> (cache_remove key c, None)
      | Some entry \<Rightarrow>
          if \<not> reusable sha256 current_policy_digest current_revocation_epoch entry \<or> \<not> currently_eligible key
          then (cache_remove key c, None)
          else let clock = saturating_add (gc_access_clock c) 1
            in (c\<lparr>gc_access_clock := clock, gc_entries := bt_update key (\<lambda>e. e\<lparr>ge_last_access := clock\<rparr>) (gc_entries c)\<rparr>,
                Some (ge_bytes entry)))"

definition get_or_try_insert_with ::
    "(string \<Rightarrow> string) \<Rightarrow> cache_key \<Rightarrow> content_digest \<Rightarrow> u64 \<Rightarrow> (cache_key \<Rightarrow> bool) \<Rightarrow> ('e, string) result \<Rightarrow> governed_cache
      \<Rightarrow> governed_cache \<times> ('e, string option) result" where
  "get_or_try_insert_with sha256 key current_policy_digest current_revocation_epoch currently_eligible recompute c =
     (if \<not> currently_eligible key then (cache_remove key c, Inr None)
      else case cache_get sha256 key current_policy_digest current_revocation_epoch (\<lambda>_. True) c of
        (c1, Some hit) \<Rightarrow> (c1, Inr (Some hit))
      | (c1, None) \<Rightarrow> (case recompute of
            Inl e \<Rightarrow> (c1, Inl e)
          | Inr bytes \<Rightarrow>
              (case cache_insert sha256 key bytes current_policy_digest current_revocation_epoch c1 of
                 (c2, stored) \<Rightarrow> (c2, Inr (if stored then Some bytes else None)))))"

definition scope_keys :: "string \<Rightarrow> string \<Rightarrow> governed_cache \<Rightarrow> cache_key list" where
  "scope_keys tenant disclosure_domain c =
     filter (\<lambda>k. ck_tenant k = tenant \<and> ck_disclosure_domain k = disclosure_domain) (bt_keys (gc_entries c))"

definition invalidate_scope :: "string \<Rightarrow> string \<Rightarrow> governed_cache \<Rightarrow> governed_cache \<times> nat" where
  "invalidate_scope tenant disclosure_domain c =
     (let keys = scope_keys tenant disclosure_domain c in (fold cache_remove keys c, length keys))"

definition cache_metrics :: "governed_cache \<Rightarrow> governed_cache_metrics" where
  "cache_metrics c = \<lparr>gm_maximum_entries = gc_maximum_entries c, gm_maximum_bytes = gc_maximum_bytes c,
     gm_entries = length (gc_entries c), gm_resident_bytes = gc_resident_bytes c\<rparr>"

subsection \<open>Invariant\<close>

definition entry_ok :: "(string \<Rightarrow> string) \<Rightarrow> u64 \<Rightarrow> cache_entry \<Rightarrow> bool" where
  "entry_ok sha256 clock e \<longleftrightarrow> ge_bytes e \<noteq> [] \<and> ge_integrity e = materializer_digest sha256 (ge_bytes e) \<and> ge_last_access e \<le> clock"

definition cache_inv :: "(string \<Rightarrow> string) \<Rightarrow> governed_cache \<Rightarrow> bool" where
  "cache_inv sha256 c \<longleftrightarrow> 0 < gc_maximum_entries c \<and> 0 < gc_maximum_bytes c \<and> bt_invar (gc_entries c) \<and>
     gc_resident_bytes c = bt_sum (\<lambda>e. length (ge_bytes e)) (gc_entries c) \<and>
     (\<forall>k e. bt_get (gc_entries c) k = Some e \<longrightarrow> entry_ok sha256 (gc_access_clock c) e)"

definition cache_bounded :: "governed_cache \<Rightarrow> bool" where
  "cache_bounded c \<longleftrightarrow> length (gc_entries c) \<le> gc_maximum_entries c \<and> gc_resident_bytes c \<le> gc_maximum_bytes c"

lemma cache_remove_entries: "gc_entries (cache_remove k c) = bt_remove k (gc_entries c)"
proof (cases "bt_get (gc_entries c) k")
  case None
  then have "k \<notin> fst ` set (gc_entries c)" by (simp add: map_of_eq_None_iff)
  with None show ?thesis by (simp add: cache_remove_def bt_remove_absent)
qed (simp add: cache_remove_def)

lemma cache_remove_fields [simp]:
  "gc_maximum_entries (cache_remove k c) = gc_maximum_entries c" "gc_maximum_bytes (cache_remove k c) = gc_maximum_bytes c"
  "gc_access_clock (cache_remove k c) = gc_access_clock c"
  by (simp_all add: cache_remove_def split: option.splits)

lemma cache_remove_resident:
  assumes "cache_inv sha256 c"
  shows "gc_resident_bytes (cache_remove k c) = bt_sum (\<lambda>e. length (ge_bytes e)) (bt_remove k (gc_entries c))"
proof (cases "bt_get (gc_entries c) k")
  case None
  then have "k \<notin> fst ` set (gc_entries c)" by (simp add: map_of_eq_None_iff)
  with None assms show ?thesis by (simp add: cache_remove_def bt_remove_absent cache_inv_def)
next
  case (Some e)
  with assms bt_sum_remove [of "gc_entries c" k e "\<lambda>e. length (ge_bytes e)"] show ?thesis by (simp add: cache_remove_def cache_inv_def)
qed

lemma cache_remove_inv:
  assumes "cache_inv sha256 c"
  shows "cache_inv sha256 (cache_remove k c)"
  using assms cache_remove_resident [OF assms, of k]
  by (auto simp: cache_inv_def cache_remove_entries bt_invar_remove bt_get_remove)

lemma cache_remove_bounded: "cache_inv sha256 c \<Longrightarrow> cache_bounded c \<Longrightarrow> cache_bounded (cache_remove k c)"
  using cache_remove_resident [of sha256 c k] bt_sum_remove_le [of "\<lambda>e. length (ge_bytes e)" k "gc_entries c"]
  by (auto simp: cache_bounded_def cache_remove_entries cache_inv_def bt_remove_def intro: order_trans [OF length_filter_le])

lemma evict_inv: "cache_inv sha256 c \<Longrightarrow> cache_inv sha256 (evict_to_bounds c)"
proof (induction c rule: evict_to_bounds.induct)
  case (1 c)
  then show ?case by (subst evict_to_bounds.simps) (auto simp: cache_remove_inv split: option.splits)
qed

lemma evict_bounded: "cache_inv sha256 c \<Longrightarrow> cache_bounded (evict_to_bounds c)"
proof (induction c rule: evict_to_bounds.induct)
  case (1 c)
  show ?case
  proof (cases "lru_victim (gc_entries c)")
    case None
    then have "gc_entries c = []" by (cases "gc_entries c") simp_all
    with "1.prems" show ?thesis by (subst evict_to_bounds.simps) (simp add: cache_bounded_def cache_inv_def)
  next
    case (Some victim)
    with 1 cache_remove_inv [OF "1.prems", of victim] show ?thesis
      by (subst evict_to_bounds.simps) (auto simp: cache_bounded_def)
  qed
qed

lemma evict_fields [simp]:
  "gc_maximum_entries (evict_to_bounds c) = gc_maximum_entries c" "gc_maximum_bytes (evict_to_bounds c) = gc_maximum_bytes c"
  "gc_access_clock (evict_to_bounds c) = gc_access_clock c"
  by (induction c rule: evict_to_bounds.induct; subst evict_to_bounds.simps; simp split: option.splits)+

lemma evict_subset: "bt_get (gc_entries (evict_to_bounds c)) k = Some e \<Longrightarrow> bt_get (gc_entries c) k = Some e"
proof (induction c rule: evict_to_bounds.induct)
  case (1 c)
  show ?case
  proof (cases "(length (gc_entries c) > gc_maximum_entries c \<or> gc_resident_bytes c > gc_maximum_bytes c) \<and> lru_victim (gc_entries c) \<noteq> None")
    case True
    then obtain victim where victim: "lru_victim (gc_entries c) = Some victim" by blast
    with True "1.prems" have "bt_get (gc_entries (evict_to_bounds (cache_remove victim c))) k = Some e"
      by (subst (asm) evict_to_bounds.simps) simp
    with "1.IH" victim True have "bt_get (gc_entries (cache_remove victim c)) k = Some e" by blast
    then show ?thesis by (simp add: cache_remove_entries bt_get_remove split: if_splits)
  next
    case False
    with "1.prems" show ?thesis by (subst (asm) evict_to_bounds.simps) (auto split: if_splits option.splits)
  qed
qed

subsection \<open>Every operation keeps the invariant\<close>

lemma saturating_add_ge: "(x :: u64) \<le> saturating_add x 1"
proof (cases "unat x + 1 < 2 ^ 64")
  case True
  then have "unat (x + 1) = unat x + 1" by (simp add: unat_word_ariths)
  with True show ?thesis by (simp add: saturating_add_def word_le_nat_alt)
next
  case False
  then show ?thesis by (simp add: saturating_add_def)
qed

lemma entry_ok_mono: "entry_ok sha256 clock e \<Longrightarrow> clock \<le> clock' \<Longrightarrow> entry_ok sha256 clock' e"
  by (auto simp: entry_ok_def)

lemma tick_inv: "cache_inv sha256 c \<Longrightarrow> cache_inv sha256 (c\<lparr>gc_access_clock := saturating_add (gc_access_clock c) 1\<rparr>)"
  using entry_ok_mono [OF _ saturating_add_ge] by (auto simp: cache_inv_def)

lemma store_inv:
  assumes inv: "cache_inv sha256 c" and fresh: "bt_get (gc_entries c) k = None" and ok: "entry_ok sha256 (gc_access_clock c) e"
  shows "cache_inv sha256 (c\<lparr>gc_resident_bytes := gc_resident_bytes c + length (ge_bytes e), gc_entries := bt_insert k e (gc_entries c)\<rparr>)"
  using inv ok bt_sum_insert_fresh [OF fresh, of "\<lambda>e. length (ge_bytes e)" e]
  by (auto simp: cache_inv_def bt_invar_insert bt_get_insert split: if_splits)

text \<open>The cache just before eviction, with the new entry in place.\<close>

definition stored :: "(string \<Rightarrow> string) \<Rightarrow> cache_key \<Rightarrow> string \<Rightarrow> content_digest \<Rightarrow> u64 \<Rightarrow> governed_cache \<Rightarrow> governed_cache" where
  "stored sha256 key bytes policy_digest revocation_epoch c =
     (let c1 = cache_remove key (c\<lparr>gc_access_clock := saturating_add (gc_access_clock c) 1\<rparr>)
      in c1\<lparr>gc_resident_bytes := gc_resident_bytes c1 + length bytes,
           gc_entries := bt_insert key \<lparr>ge_bytes = bytes, ge_integrity = materializer_digest sha256 bytes,
             ge_policy_digest = policy_digest, ge_revocation_epoch = revocation_epoch, ge_last_access = gc_access_clock c1\<rparr>
             (gc_entries c1)\<rparr>)"

lemma cache_insert_stored:
  "cache_insert sha256 key bytes policy_digest revocation_epoch c =
    (if bytes = [] \<or> length bytes > gc_maximum_bytes c then (c, False)
     else (evict_to_bounds (stored sha256 key bytes policy_digest revocation_epoch c), True))"
  by (simp add: cache_insert_def stored_def Let_def)

lemma stored_fields [simp]:
  "gc_maximum_entries (stored sha256 key bytes p r c) = gc_maximum_entries c"
  "gc_maximum_bytes (stored sha256 key bytes p r c) = gc_maximum_bytes c"
  "gc_access_clock (stored sha256 key bytes p r c) = saturating_add (gc_access_clock c) 1"
  by (simp_all add: stored_def Let_def)

lemma stored_get: "bt_get (gc_entries (stored sha256 key bytes p r c)) =
    (bt_get (gc_entries c))(key \<mapsto> \<lparr>ge_bytes = bytes, ge_integrity = materializer_digest sha256 bytes,
       ge_policy_digest = p, ge_revocation_epoch = r, ge_last_access = saturating_add (gc_access_clock c) 1\<rparr>)"
  by (simp add: stored_def Let_def bt_get_insert cache_remove_entries bt_get_remove)

lemma stored_inv:
  assumes "cache_inv sha256 c" "bytes \<noteq> []"
  shows "cache_inv sha256 (stored sha256 key bytes p r c)"
proof -
  let ?c1 = "cache_remove key (c\<lparr>gc_access_clock := saturating_add (gc_access_clock c) 1\<rparr>)"
  let ?e = "\<lparr>ge_bytes = bytes, ge_integrity = materializer_digest sha256 bytes, ge_policy_digest = p, ge_revocation_epoch = r,
    ge_last_access = gc_access_clock ?c1\<rparr>"
  have "cache_inv sha256 ?c1" by (intro cache_remove_inv tick_inv assms(1))
  moreover have "bt_get (gc_entries ?c1) key = None" by (simp add: cache_remove_entries bt_get_remove)
  moreover have "entry_ok sha256 (gc_access_clock ?c1) ?e" using assms(2) by (simp add: entry_ok_def)
  ultimately show ?thesis using store_inv [of sha256 ?c1 key ?e] by (simp add: stored_def Let_def)
qed

lemma insert_inv:
  assumes "cache_inv sha256 c" "cache_bounded c" "cache_insert sha256 key bytes p r c = (c', accepted)"
  shows "cache_inv sha256 c' \<and> cache_bounded c'"
  using assms stored_inv [OF assms(1), of bytes key p r]
  by (auto simp: cache_insert_stored evict_inv evict_bounded split: if_splits)

lemma touch_inv:
  assumes inv: "cache_inv sha256 c" and found: "bt_get (gc_entries c) key = Some e" and clock: "gc_access_clock c \<le> clock"
  shows "cache_inv sha256 (c\<lparr>gc_access_clock := clock, gc_entries := bt_update key (\<lambda>e. e\<lparr>ge_last_access := clock\<rparr>) (gc_entries c)\<rparr>)"
proof -
  have "bt_sum (\<lambda>e. length (ge_bytes e)) (bt_update key (\<lambda>e. e\<lparr>ge_last_access := clock\<rparr>) (gc_entries c)) =
      bt_sum (\<lambda>e. length (ge_bytes e)) (gc_entries c)"
    using bt_sum_update [OF _ found, of "\<lambda>e. length (ge_bytes e)" "\<lambda>e. e\<lparr>ge_last_access := clock\<rparr>"] inv by (simp add: cache_inv_def)
  moreover have "entry_ok sha256 clock e'" if "((bt_get (gc_entries c))(key \<mapsto> e\<lparr>ge_last_access := clock\<rparr>)) k = Some e'" for k e'
    using that inv found clock entry_ok_mono [OF _ clock]
    by (auto simp: cache_inv_def entry_ok_def split: if_splits)
  ultimately show ?thesis using inv found by (auto simp: cache_inv_def bt_invar_update bt_get_update)
qed

lemma get_inv:
  assumes "cache_inv sha256 c" "cache_bounded c" "cache_get sha256 key p r eligible c = (c', hit)"
  shows "cache_inv sha256 c' \<and> cache_bounded c'"
proof (cases "bt_get (gc_entries c) key")
  case None
  with assms show ?thesis by (auto simp: cache_get_def cache_remove_inv cache_remove_bounded)
next
  case (Some e)
  show ?thesis
  proof (cases "reusable sha256 p r e \<and> eligible key")
    case True
    with Some assms have "c' = c\<lparr>gc_access_clock := saturating_add (gc_access_clock c) 1,
        gc_entries := bt_update key (\<lambda>e. e\<lparr>ge_last_access := saturating_add (gc_access_clock c) 1\<rparr>) (gc_entries c)\<rparr>"
      by (simp add: cache_get_def Let_def)
    with touch_inv [OF assms(1) Some saturating_add_ge] assms(2) show ?thesis by (simp add: cache_bounded_def bt_update_def)
  next
    case False
    with Some assms have "c' = cache_remove key c" by (auto simp: cache_get_def)
    with assms show ?thesis by (simp add: cache_remove_inv cache_remove_bounded)
  qed
qed

lemma fold_remove_inv:
  "cache_inv sha256 c \<Longrightarrow> cache_bounded c \<Longrightarrow> cache_inv sha256 (fold cache_remove ks c) \<and> cache_bounded (fold cache_remove ks c)"
  by (induction ks arbitrary: c) (simp_all add: cache_remove_inv cache_remove_bounded)

lemma fold_remove_get:
  "bt_get (gc_entries (fold cache_remove ks c)) k = (if k \<in> set ks then None else bt_get (gc_entries c) k)"
  by (induction ks arbitrary: c) (simp_all add: cache_remove_entries bt_get_remove)

lemma invalidate_get:
  "bt_get (gc_entries (fst (invalidate_scope tenant domain c))) k =
    (if ck_tenant k = tenant \<and> ck_disclosure_domain k = domain then None else bt_get (gc_entries c) k)"
proof -
  have "bt_get (gc_entries c) k = None" if "k \<notin> set (bt_keys (gc_entries c))"
    using that by (simp add: bt_keys_def map_of_eq_None_iff)
  then show ?thesis by (auto simp: invalidate_scope_def Let_def fold_remove_get scope_keys_def)
qed

subsection \<open>The entry just stored survives eviction\<close>

definition age :: "cache_key \<times> cache_entry \<Rightarrow> u64 \<times> cache_key" where
  "age x = (ge_last_access (snd x), fst x)"

lemma older_age: "older x y \<longleftrightarrow> age x < age y"
  by (auto simp: older_def age_def less_prod_def)

lemma oldest_least: "y \<in> set (x # xs) \<Longrightarrow> age (fold (\<lambda>y best. if older y best then y else best) xs x) \<le> age y"
proof (induction xs arbitrary: x y)
  case (Cons z xs)
  let ?x = "if older z x then z else x"
  have first: "age ?x \<le> age x" "age ?x \<le> age z" by (auto simp: older_age)
  have "age (fold (\<lambda>y best. if older y best then y else best) xs ?x) \<le> age ?x" by (rule Cons.IH) simp
  with first Cons.IH [of y ?x] Cons.prems show ?case by (auto intro: order_trans)
qed simp

lemma lru_victim_oldest:
  assumes "lru_victim m = Some k" "(k', e') \<in> set m"
  shows "\<exists>e. (k, e) \<in> set m \<and> ge_last_access e \<le> ge_last_access e'"
proof (cases m)
  case (Cons x xs)
  let ?v = "fold (\<lambda>y best. if older y best then y else best) xs x"
  have "age ?v \<le> age (k', e')" using oldest_least [of "(k', e')" x xs] assms(2) Cons by simp
  then have "ge_last_access (snd ?v) \<le> ge_last_access e'" by (auto simp: age_def less_eq_prod_def)
  moreover have "(k, snd ?v) = ?v" using assms(1) Cons by (simp add: prod_eq_iff)
  then have "(k, snd ?v) \<in> set m" using oldest_member [of xs x] Cons by metis
  ultimately show ?thesis by blast
qed (use assms in simp)

definition newest :: "cache_key \<Rightarrow> cache_entry \<Rightarrow> governed_cache \<Rightarrow> bool" where
  "newest k e c \<longleftrightarrow> bt_get (gc_entries c) k = Some e \<and> length (ge_bytes e) \<le> gc_maximum_bytes c \<and>
     (\<forall>k' e'. k' \<noteq> k \<longrightarrow> bt_get (gc_entries c) k' = Some e' \<longrightarrow> ge_last_access e' < ge_last_access e)"

lemma newest_alone:
  assumes inv: "cache_inv sha256 c" and newest: "newest k e c" and victim: "lru_victim (gc_entries c) = Some k"
  shows "gc_entries c = [(k, e)]"
proof -
  have distinct: "distinct (map fst (gc_entries c))" using inv by (simp add: cache_inv_def bt_invar_distinct)
  have "x = (k, e)" if "x \<in> set (gc_entries c)" for x
  proof -
    obtain k' e' where x: "x = (k', e')" by (cases x)
    from lru_victim_oldest [OF victim, of k' e'] that x obtain e0
      where "(k, e0) \<in> set (gc_entries c)" and le: "ge_last_access e0 \<le> ge_last_access e'" by blast
    with distinct newest have "e0 = e" by (simp add: newest_def)
    moreover have got: "bt_get (gc_entries c) k' = Some e'" using that x distinct by simp
    ultimately have "k' = k" using newest le by (auto simp: newest_def)
    with got x newest show ?thesis by (simp add: newest_def)
  qed
  then have "set (gc_entries c) = {(k, e)}" using newest by (auto simp: newest_def dest: map_of_SomeD)
  moreover have "distinct (gc_entries c)" using distinct by (simp add: distinct_map)
  ultimately show ?thesis
    by (metis distinct.simps(2) empty_set insert_not_empty list.set_cases list.set_intros(1,2) list.exhaust singletonD set_ConsD)
qed

lemma newest_remove: "newest k e c \<Longrightarrow> k' \<noteq> k \<Longrightarrow> newest k e (cache_remove k' c)"
  by (auto simp: newest_def cache_remove_entries bt_get_remove split: if_splits)

lemma evict_keeps_newest: "cache_inv sha256 c \<Longrightarrow> newest k e c \<Longrightarrow> bt_get (gc_entries (evict_to_bounds c)) k = Some e"
proof (induction c rule: evict_to_bounds.induct)
  case (1 c)
  show ?case
  proof (cases "(length (gc_entries c) > gc_maximum_entries c \<or> gc_resident_bytes c > gc_maximum_bytes c) \<and> lru_victim (gc_entries c) \<noteq> None")
    case True
    then obtain victim where victim: "lru_victim (gc_entries c) = Some victim" by blast
    have "victim \<noteq> k"
    proof
      assume "victim = k"
      with newest_alone [OF "1.prems"] victim have "gc_entries c = [(k, e)]" by simp
      with True "1.prems" show False by (auto simp: cache_inv_def newest_def)
    qed
    with "1.IH" [OF _ victim] True "1.prems" have "bt_get (gc_entries (evict_to_bounds (cache_remove victim c))) k = Some e"
      by (simp add: newest_remove cache_remove_inv)
    with victim True show ?thesis by (subst evict_to_bounds.simps) simp
  next
    case False
    with "1.prems" show ?thesis by (subst evict_to_bounds.simps) (auto simp: newest_def split: option.splits)
  qed
qed

subsection \<open>Histories\<close>

text \<open>
  A cache is used through sequences of calls. A call \<^emph>\<open>offers\<close> an entry when it may store it, and \<^emph>\<open>withdraws\<close> an
  entry when nothing with that content may be left under the key afterwards: the scope was invalidated, a read found
  the entry stale or the key ineligible, or other content was accepted under the same key.
\<close>

datatype 'e governed_call =
    CallInsert cache_key string content_digest u64
  | CallGet cache_key content_digest u64 "cache_key \<Rightarrow> bool"
  | CallGetOrTryInsert cache_key content_digest u64 "cache_key \<Rightarrow> bool" "('e, string) result"
  | CallInvalidate string string

fun cache_call :: "(string \<Rightarrow> string) \<Rightarrow> 'e governed_call \<Rightarrow> governed_cache \<Rightarrow> governed_cache" where
  "cache_call sha256 (CallInsert key bytes p r) c = fst (cache_insert sha256 key bytes p r c)"
| "cache_call sha256 (CallGet key p r eligible) c = fst (cache_get sha256 key p r eligible c)"
| "cache_call sha256 (CallGetOrTryInsert key p r eligible recompute) c = fst (get_or_try_insert_with sha256 key p r eligible recompute c)"
| "cache_call sha256 (CallInvalidate tenant domain) c = fst (invalidate_scope tenant domain c)"

definition cache_calls :: "(string \<Rightarrow> string) \<Rightarrow> 'e governed_call list \<Rightarrow> governed_cache \<Rightarrow> governed_cache" where
  "cache_calls sha256 calls c = fold (cache_call sha256) calls c"

fun offers :: "cache_key \<Rightarrow> string \<Rightarrow> content_digest \<Rightarrow> u64 \<Rightarrow> 'e governed_call \<Rightarrow> bool" where
  "offers k b p r (CallInsert key bytes p' r') \<longleftrightarrow> key = k \<and> bytes = b \<and> p' = p \<and> r' = r"
| "offers k b p r (CallGetOrTryInsert key p' r' eligible recompute) \<longleftrightarrow>
     key = k \<and> p' = p \<and> r' = r \<and> eligible k \<and> recompute = Inr b"
| "offers k b p r _ \<longleftrightarrow> False"

fun withdraws :: "nat \<Rightarrow> cache_key \<Rightarrow> string \<Rightarrow> content_digest \<Rightarrow> u64 \<Rightarrow> 'e governed_call \<Rightarrow> bool" where
  "withdraws limit k b p r (CallInsert key bytes p' r') \<longleftrightarrow>
     key = k \<and> bytes \<noteq> [] \<and> length bytes \<le> limit \<and> (bytes, p', r') \<noteq> (b, p, r)"
| "withdraws limit k b p r (CallGet key p' r' eligible) \<longleftrightarrow> key = k \<and> (p' \<noteq> p \<or> r' \<noteq> r \<or> \<not> eligible k)"
| "withdraws limit k b p r (CallGetOrTryInsert key p' r' eligible recompute) \<longleftrightarrow>
     key = k \<and> (p' \<noteq> p \<or> r' \<noteq> r \<or> \<not> eligible k)"
| "withdraws limit k b p r (CallInvalidate tenant domain) \<longleftrightarrow> ck_tenant k = tenant \<and> ck_disclosure_domain k = domain"

lemma insert_entries:
  assumes "cache_insert sha256 key bytes p r c = (c', accepted)" "bt_get (gc_entries c') k = Some e"
  shows "(\<exists>e0. bt_get (gc_entries c) k = Some e0 \<and> (k = key \<longrightarrow> \<not> accepted) \<and> e0 = e) \<or>
    k = key \<and> accepted \<and> ge_bytes e = bytes \<and> ge_policy_digest e = p \<and> ge_revocation_epoch e = r"
  using assms by (auto simp: cache_insert_stored stored_get dest!: evict_subset split: if_splits)

lemma get_entries:
  assumes "cache_get sha256 key p r eligible c = (c', hit)" "bt_get (gc_entries c') k = Some e"
  shows "\<exists>e0. bt_get (gc_entries c) k = Some e0 \<and> ge_bytes e0 = ge_bytes e \<and> ge_policy_digest e0 = ge_policy_digest e \<and>
    ge_revocation_epoch e0 = ge_revocation_epoch e \<and>
    (k = key \<longrightarrow> ge_policy_digest e = p \<and> ge_revocation_epoch e = r \<and> eligible key \<and> hit \<noteq> None)"
  using assms
  by (cases "bt_get (gc_entries c) key")
    (auto simp: cache_get_def Let_def reusable_def cache_remove_entries bt_get_remove bt_get_update split: if_splits)

lemma get_miss_absent: "cache_get sha256 key p r eligible c = (c', None) \<Longrightarrow> bt_get (gc_entries c') key = None"
  by (auto simp: cache_get_def Let_def cache_remove_entries bt_get_remove split: option.splits if_splits)

lemma get_limits: "cache_get sha256 key p r eligible c = (c', hit) \<Longrightarrow> gc_maximum_bytes c' = gc_maximum_bytes c"
  by (auto simp: cache_get_def Let_def split: option.splits if_splits)

text \<open>\<open>get_or_try_insert_with\<close> is a removal, a read, or a read that missed followed by an insertion.\<close>

lemma get_or_try_insert_cases:
  obtains (ineligible) "\<not> eligible key"
      "get_or_try_insert_with sha256 key p r eligible recompute c = (cache_remove key c, Inr None)"
  | (hit) c1 b where "eligible key" "cache_get sha256 key p r (\<lambda>_. True) c = (c1, Some b)"
      "get_or_try_insert_with sha256 key p r eligible recompute c = (c1, Inr (Some b))"
  | (failed) c1 err where "eligible key" "cache_get sha256 key p r (\<lambda>_. True) c = (c1, None)" "recompute = Inl err"
      "get_or_try_insert_with sha256 key p r eligible recompute c = (c1, Inl err)"
  | (computed) c1 b c2 accepted where "eligible key" "cache_get sha256 key p r (\<lambda>_. True) c = (c1, None)" "recompute = Inr b"
      "cache_insert sha256 key b p r c1 = (c2, accepted)"
      "get_or_try_insert_with sha256 key p r eligible recompute c = (c2, Inr (if accepted then Some b else None))"
proof (cases "eligible key")
  case eligible: True
  obtain c1 h where got: "cache_get sha256 key p r (\<lambda>_. True) c = (c1, h)" by fastforce
  show thesis
  proof (cases h)
    case None
    show thesis
    proof (cases recompute)
      case (Inl err)
      with eligible got None show thesis by (intro failed [of c1 err]) (simp_all add: get_or_try_insert_with_def)
    next
      case (Inr b)
      obtain c2 accepted where "cache_insert sha256 key b p r c1 = (c2, accepted)" by fastforce
      with eligible got None Inr show thesis by (intro computed [of c1 b c2 accepted]) (simp_all add: get_or_try_insert_with_def)
    qed
  next
    case (Some b)
    with eligible got show thesis by (intro hit [of c1 b]) (simp_all add: get_or_try_insert_with_def)
  qed
qed (intro ineligible, simp_all add: get_or_try_insert_with_def)

lemma call_inv:
  assumes "cache_inv sha256 c" "cache_bounded c"
  shows "cache_inv sha256 (cache_call sha256 call c) \<and> cache_bounded (cache_call sha256 call c)"
proof (cases call)
  case (CallInsert key bytes p r)
  with insert_inv [OF assms] show ?thesis by (metis cache_call.simps(1) prod.collapse)
next
  case (CallGet key p r eligible)
  with get_inv [OF assms] show ?thesis by (metis cache_call.simps(2) prod.collapse)
next
  case (CallGetOrTryInsert key p r eligible recompute)
  show ?thesis
  proof (cases rule: get_or_try_insert_cases [of eligible key sha256 p r recompute c])
    case ineligible
    with assms show ?thesis by (simp add: CallGetOrTryInsert cache_remove_inv cache_remove_bounded)
  next
    case (hit c1 b)
    with get_inv [OF assms hit(2)] show ?thesis by (simp add: CallGetOrTryInsert)
  next
    case (failed c1 err)
    with get_inv [OF assms failed(2)] show ?thesis by (simp add: CallGetOrTryInsert)
  next
    case (computed c1 b c2 accepted)
    from get_inv [OF assms computed(2)] insert_inv [OF _ _ computed(4)] have "cache_inv sha256 c2 \<and> cache_bounded c2" by blast
    with computed(5) show ?thesis by (simp add: CallGetOrTryInsert)
  qed
next
  case (CallInvalidate tenant domain)
  with fold_remove_inv [OF assms] show ?thesis by (simp add: invalidate_scope_def Let_def)
qed

lemma call_entries:
  assumes "bt_get (gc_entries (cache_call sha256 call c)) k = Some e"
  shows "offers k (ge_bytes e) (ge_policy_digest e) (ge_revocation_epoch e) call \<or>
    (\<exists>e0. bt_get (gc_entries c) k = Some e0 \<and> ge_bytes e0 = ge_bytes e \<and> ge_policy_digest e0 = ge_policy_digest e \<and>
       ge_revocation_epoch e0 = ge_revocation_epoch e \<and>
       \<not> withdraws (gc_maximum_bytes c) k (ge_bytes e) (ge_policy_digest e) (ge_revocation_epoch e) call)"
proof (cases call)
  case (CallInsert key bytes p r)
  obtain c' accepted where step: "cache_insert sha256 key bytes p r c = (c', accepted)" by fastforce
  then have "accepted \<longleftrightarrow> bytes \<noteq> [] \<and> length bytes \<le> gc_maximum_bytes c" by (auto simp: cache_insert_stored split: if_splits)
  with insert_entries [OF step, of k e] assms step show ?thesis unfolding CallInsert by auto
next
  case (CallGet key p r eligible)
  obtain c' hit where step: "cache_get sha256 key p r eligible c = (c', hit)" by fastforce
  with get_entries [OF step, of k e] assms show ?thesis unfolding CallGet by auto
next
  case (CallGetOrTryInsert key p r eligible recompute)
  show ?thesis
  proof (cases rule: get_or_try_insert_cases [of eligible key sha256 p r recompute c])
    case ineligible
    with assms show ?thesis unfolding CallGetOrTryInsert by (auto simp: cache_remove_entries bt_get_remove split: if_splits)
  next
    case (hit c1 b)
    with assms get_entries [OF hit(2), of k e] show ?thesis unfolding CallGetOrTryInsert by auto
  next
    case (failed c1 err)
    with assms get_entries [OF failed(2), of k e] show ?thesis unfolding CallGetOrTryInsert by auto
  next
    case (computed c1 b c2 accepted)
    with assms have got: "bt_get (gc_entries c2) k = Some e" unfolding CallGetOrTryInsert by simp
    from insert_entries [OF computed(4) got] show ?thesis
    proof
      assume "\<exists>e0. bt_get (gc_entries c1) k = Some e0 \<and> (k = key \<longrightarrow> \<not> accepted) \<and> e0 = e"
      with get_entries [OF computed(2), of k e] show ?thesis unfolding CallGetOrTryInsert by auto
    qed (use computed in \<open>simp add: CallGetOrTryInsert\<close>)
  qed
next
  case (CallInvalidate tenant domain)
  with assms show ?thesis by (auto simp: invalidate_get split: if_splits)
qed

lemma call_limits [simp]: "gc_maximum_bytes (cache_call sha256 call c) = gc_maximum_bytes c"
proof (cases call)
  case (CallGetOrTryInsert key p r eligible recompute)
  have insert: "gc_maximum_bytes c2 = gc_maximum_bytes c1" if "cache_insert sha256 k b p r c1 = (c2, a)" for k b c1 c2 a
    using that by (auto simp: cache_insert_stored split: if_splits)
  show ?thesis unfolding CallGetOrTryInsert cache_call.simps
    by (cases rule: get_or_try_insert_cases [of eligible key sha256 p r recompute c]) (auto dest!: get_limits insert)
next
  case (CallGet key p r eligible)
  then show ?thesis using get_limits [of sha256 key p r eligible c] by (metis cache_call.simps(2) prod.collapse)
next
  case (CallInvalidate tenant domain)
  have "gc_maximum_bytes (fold cache_remove ks c) = gc_maximum_bytes c" for ks by (induction ks arbitrary: c) simp_all
  with CallInvalidate show ?thesis by (simp add: invalidate_scope_def Let_def)
qed (simp add: cache_insert_stored)

lemma calls_inv:
  assumes "cache_new maximum_entries maximum_bytes = Some c0"
  shows "cache_inv sha256 (cache_calls sha256 calls c0) \<and> cache_bounded (cache_calls sha256 calls c0)"
proof (induction calls rule: rev_induct)
  case Nil
  from assms show ?case by (auto simp: cache_calls_def cache_new_def cache_inv_def cache_bounded_def split: if_splits)
next
  case (snoc call calls)
  with call_inv [of sha256 "cache_calls sha256 calls c0" call] show ?case by (simp add: cache_calls_def)
qed

lemma calls_maximum_bytes:
  assumes "cache_new maximum_entries maximum_bytes = Some c0"
  shows "gc_maximum_bytes (cache_calls sha256 calls c0) = maximum_bytes"
proof (induction calls rule: rev_induct)
  case Nil
  from assms show ?case by (auto simp: cache_calls_def cache_new_def split: if_splits)
qed (simp add: cache_calls_def)

lemma calls_provenance:
  assumes new: "cache_new maximum_entries maximum_bytes = Some c0"
    and "bt_get (gc_entries (cache_calls sha256 calls c0)) k = Some e"
  shows "\<exists>earlier call after. calls = earlier @ call # after \<and>
    offers k (ge_bytes e) (ge_policy_digest e) (ge_revocation_epoch e) call \<and>
    (\<forall>later \<in> set after. \<not> withdraws maximum_bytes k (ge_bytes e) (ge_policy_digest e) (ge_revocation_epoch e) later)"
  using assms(2)
proof (induction calls arbitrary: e rule: rev_induct)
  case Nil
  with new show ?case by (auto simp: cache_calls_def cache_new_def split: if_splits)
next
  case (snoc call calls)
  have "bt_get (gc_entries (cache_call sha256 call (cache_calls sha256 calls c0))) k = Some e"
    using snoc.prems by (simp add: cache_calls_def)
  from call_entries [OF this] show ?case
  proof
    assume "offers k (ge_bytes e) (ge_policy_digest e) (ge_revocation_epoch e) call"
    then show ?thesis by (intro exI [of _ calls] exI [of _ call] exI [of _ "[]"]) simp
  next
    assume "\<exists>e0. bt_get (gc_entries (cache_calls sha256 calls c0)) k = Some e0 \<and> ge_bytes e0 = ge_bytes e \<and>
      ge_policy_digest e0 = ge_policy_digest e \<and> ge_revocation_epoch e0 = ge_revocation_epoch e \<and>
      \<not> withdraws (gc_maximum_bytes (cache_calls sha256 calls c0)) k (ge_bytes e) (ge_policy_digest e) (ge_revocation_epoch e) call"
    then obtain e0 where e0: "bt_get (gc_entries (cache_calls sha256 calls c0)) k = Some e0" "ge_bytes e0 = ge_bytes e"
        "ge_policy_digest e0 = ge_policy_digest e" "ge_revocation_epoch e0 = ge_revocation_epoch e"
      and last: "\<not> withdraws maximum_bytes k (ge_bytes e) (ge_policy_digest e) (ge_revocation_epoch e) call"
      using calls_maximum_bytes [OF new, of sha256 calls] by auto
    from snoc.IH [OF e0(1)] obtain earlier w after where split: "calls = earlier @ w # after"
      and "offers k (ge_bytes e) (ge_policy_digest e) (ge_revocation_epoch e) w"
      and "\<forall>later \<in> set after. \<not> withdraws maximum_bytes k (ge_bytes e) (ge_policy_digest e) (ge_revocation_epoch e) later"
      using e0 by auto
    with last show ?thesis by (intro exI [of _ earlier] exI [of _ w] exI [of _ "after @ [call]"]) auto
  qed
qed

lemma get_hit:
  assumes "cache_get sha256 key p r eligible c = (c', Some bytes)"
  shows "eligible key \<and> (\<exists>e. bt_get (gc_entries c) key = Some e \<and> ge_bytes e = bytes \<and> ge_policy_digest e = p \<and> ge_revocation_epoch e = r)"
  using assms by (auto simp: cache_get_def Let_def reusable_def split: option.splits if_splits)

text \<open>The clock counts the calls at most, so it cannot saturate in fewer than \<open>2 ^ 64 - 1\<close> of them.\<close>

lemma saturating_add_le: "unat (saturating_add (x :: u64) 1) \<le> unat x + 1"
proof (cases "unat x + 1 < 2 ^ 64")
  case True
  then show ?thesis by (simp add: saturating_add_def unat_word_ariths)
next
  case False
  moreover have "unat (- 1 :: u64) < 2 ^ 64" by (rule order_less_le_trans [OF unsigned_less]) simp
  ultimately show ?thesis by (simp add: saturating_add_def)
qed

lemma insert_clock: "cache_insert sha256 key bytes p r c = (c', a) \<Longrightarrow> unat (gc_access_clock c') \<le> unat (gc_access_clock c) + 1"
  using saturating_add_le [of "gc_access_clock c"] by (auto simp: cache_insert_stored split: if_splits)

lemma get_clock:
  assumes "cache_get sha256 key p r eligible c = (c', hit)"
  shows "unat (gc_access_clock c') \<le> unat (gc_access_clock c) + (if hit = None then 0 else 1)"
  using assms saturating_add_le [of "gc_access_clock c"] by (auto simp: cache_get_def Let_def split: option.splits if_splits)

lemma call_clock: "unat (gc_access_clock (cache_call sha256 call c)) \<le> unat (gc_access_clock c) + 1"
proof (cases call)
  case (CallInsert key bytes p r)
  then show ?thesis using insert_clock [of sha256 key bytes p r c] by (metis cache_call.simps(1) prod.collapse)
next
  case (CallGet key p r eligible)
  obtain c' hit where step: "cache_get sha256 key p r eligible c = (c', hit)" by fastforce
  with get_clock [OF step] CallGet show ?thesis by (auto split: if_splits)
next
  case (CallGetOrTryInsert key p r eligible recompute)
  show ?thesis
  proof (cases rule: get_or_try_insert_cases [of eligible key sha256 p r recompute c])
    case ineligible
    then show ?thesis by (simp add: CallGetOrTryInsert)
  next
    case (hit c1 b)
    with get_clock [OF hit(2)] show ?thesis by (simp add: CallGetOrTryInsert)
  next
    case (failed c1 err)
    with get_clock [OF failed(2)] show ?thesis by (simp add: CallGetOrTryInsert)
  next
    case (computed c1 b c2 accepted)
    with get_clock [OF computed(2)] insert_clock [OF computed(4)] show ?thesis by (simp add: CallGetOrTryInsert)
  qed
next
  case (CallInvalidate tenant domain)
  have "gc_access_clock (fold cache_remove ks c) = gc_access_clock c" for ks by (induction ks arbitrary: c) simp_all
  with CallInvalidate show ?thesis by (simp add: invalidate_scope_def Let_def)
qed

lemma calls_clock:
  assumes "cache_new maximum_entries maximum_bytes = Some c0"
  shows "unat (gc_access_clock (cache_calls sha256 calls c0)) \<le> length calls"
proof (induction calls rule: rev_induct)
  case Nil
  from assms show ?case by (auto simp: cache_calls_def cache_new_def split: if_splits)
next
  case (snoc call calls)
  with call_clock [of sha256 call "cache_calls sha256 calls c0"] show ?case by (simp add: cache_calls_def)
qed

lemma stored_newest:
  assumes inv: "cache_inv sha256 c" and clock: "unat (gc_access_clock c) + 1 < 2 ^ 64" and "length bytes \<le> gc_maximum_bytes c"
  shows "newest key \<lparr>ge_bytes = bytes, ge_integrity = materializer_digest sha256 bytes, ge_policy_digest = p, ge_revocation_epoch = r,
    ge_last_access = saturating_add (gc_access_clock c) 1\<rparr> (stored sha256 key bytes p r c)"
proof -
  have "gc_access_clock c < saturating_add (gc_access_clock c) 1"
    using clock by (simp add: saturating_add_def word_less_nat_alt unat_word_ariths)
  with inv assms(3) show ?thesis by (auto simp: newest_def stored_get cache_inv_def entry_ok_def intro: le_less_trans)
qed

lemma get_of_entry:
  assumes "bt_get (gc_entries c) key = Some e" "ge_integrity e = materializer_digest sha256 (ge_bytes e)"
  shows "snd (cache_get sha256 key p r eligible c) =
    (if ge_policy_digest e = p \<and> ge_revocation_epoch e = r \<and> eligible key then Some (ge_bytes e) else None)"
  using assms by (simp add: cache_get_def reusable_def Let_def)

subsection \<open>What the cache serves\<close>

text \<open>A cache of two entries and eight bytes: the second insertion does not fit beside the first, the third scope is another one.\<close>

definition sample_cache :: governed_cache where
  "sample_cache = \<lparr>gc_maximum_entries = 2, gc_maximum_bytes = 8, gc_resident_bytes = 0, gc_access_clock = 0, gc_entries = []\<rparr>"

definition sample_key :: "string \<Rightarrow> cache_key" where
  "sample_key tenant = CacheKey LayerPlan tenant ''d'' ''f''"

definition sample_calls :: "unit governed_call list" where
  "sample_calls = [CallInsert (sample_key ''a'') ''abcd'' ''p'' 7, CallGetOrTryInsert (sample_key ''b'') ''p'' 7 (\<lambda>_. True) (Inr ''efghi''),
     CallInvalidate ''c'' ''d'']"

lemma sample_key_simps [simp]:
  "sample_key s < sample_key t \<longleftrightarrow> s < t" "sample_key s = sample_key t \<longleftrightarrow> s = t" "ck_tenant (sample_key s) = s"
  by (simp_all add: sample_key_def less_cache_key_def key_position_def)

lemma sample_cache_new: "cache_new 2 8 = Some sample_cache"
  by (simp add: cache_new_def sample_cache_def)

text \<open>
  (C18) Whatever a cache built by \<open>GovernedCache::new\<close> serves after any sequence of calls is authorized now and was
  stored for exactly this request: the key is eligible, some earlier call stored or recomputed exactly these bytes under
  this key, policy digest and revocation epoch, and no later call invalidated the scope, read the key under another
  policy, epoch or eligibility, or replaced the content.
\<close>

theorem governed_hits_are_authorized:
  assumes "cache_new maximum_entries maximum_bytes = Some c0"
    and "cache_get sha256 key policy_digest epoch eligible (cache_calls sha256 calls c0) = (c', Some bytes)"
  shows "eligible key \<and> (\<exists>earlier call after. calls = earlier @ call # after \<and> offers key bytes policy_digest epoch call \<and>
    (\<forall>later \<in> set after. \<not> withdraws maximum_bytes key bytes policy_digest epoch later))"
  using get_hit [OF assms(2)] calls_provenance [OF assms(1), of sha256 calls key] by blast

theorem governed_hits_are_authorized_witness:
  "\<exists>c'. cache_get (\<lambda>s. s) (sample_key ''b'') ''p'' 7 (\<lambda>_. True) (cache_calls (\<lambda>s. s) sample_calls sample_cache) = (c', Some ''efghi'') \<and>
    (\<exists>earlier call after. sample_calls = earlier @ call # after \<and> offers (sample_key ''b'') ''efghi'' ''p'' 7 call \<and>
      (\<forall>later \<in> set after. \<not> withdraws 8 (sample_key ''b'') ''efghi'' ''p'' 7 later))"
proof -
  let ?get = "cache_get (\<lambda>s. s) (sample_key ''b'') ''p'' 7 (\<lambda>_. True) (cache_calls (\<lambda>s. s) sample_calls sample_cache)"
  have "snd ?get = Some ''efghi''"
    by (simp add: cache_calls_def sample_calls_def sample_cache_def cache_insert_def get_or_try_insert_with_def cache_get_def
      reusable_def invalidate_scope_def scope_keys_def cache_remove_def bt_keys_def bt_remove_def bt_update_def older_def
      evict_to_bounds.simps saturating_add_def Let_def)
  then have got: "?get = (fst ?get, Some ''efghi'')" by (metis prod.collapse)
  from got governed_hits_are_authorized [OF sample_cache_new got] show ?thesis by blast
qed

text \<open>
  (C23) Until the access clock has counted \<open>2 ^ 64 - 1\<close> calls, an insertion of bytes that fit the cache is accepted and never
  evicts itself: the cache stays within both bounds, and the next read of the key returns exactly these bytes when the
  policy digest and epoch are the ones stored and the key is eligible, and nothing otherwise.
\<close>

theorem inserted_entry_is_served:
  assumes "cache_new maximum_entries maximum_bytes = Some c0" "length calls < 2 ^ 64 - 1"
    and "bytes \<noteq> []" "length bytes \<le> maximum_bytes"
    and "cache_insert sha256 key bytes policy_digest epoch (cache_calls sha256 calls c0) = (c', accepted)"
  shows "accepted \<and> gm_entries (cache_metrics c') \<le> gm_maximum_entries (cache_metrics c') \<and>
    gm_resident_bytes (cache_metrics c') \<le> gm_maximum_bytes (cache_metrics c') \<and>
    snd (cache_get sha256 key policy' epoch' eligible c') =
      (if policy_digest = policy' \<and> epoch = epoch' \<and> eligible key then Some bytes else None)"
proof -
  let ?c = "cache_calls sha256 calls c0"
  let ?e = "\<lparr>ge_bytes = bytes, ge_integrity = materializer_digest sha256 bytes, ge_policy_digest = policy_digest,
    ge_revocation_epoch = epoch, ge_last_access = saturating_add (gc_access_clock ?c) 1\<rparr>"
  have inv: "cache_inv sha256 ?c" "cache_bounded ?c" using calls_inv [OF assms(1), of sha256 calls] by blast+
  have fits: "length bytes \<le> gc_maximum_bytes ?c" using calls_maximum_bytes [OF assms(1), of sha256 calls] assms(4) by simp
  have clock: "unat (gc_access_clock ?c) + 1 < 2 ^ 64" using calls_clock [OF assms(1), of sha256 calls] assms(2) by simp
  have c': "c' = evict_to_bounds (stored sha256 key bytes policy_digest epoch ?c)" and accepted
    using assms(3,5) fits by (auto simp: cache_insert_stored)
  moreover have "bt_get (gc_entries c') key = Some ?e"
    unfolding c' by (rule evict_keeps_newest [OF stored_inv [OF inv(1) assms(3)] stored_newest [OF inv(1) clock fits]])
  from get_of_entry [OF this, of sha256 policy' epoch' eligible]
  have "snd (cache_get sha256 key policy' epoch' eligible c') =
      (if policy_digest = policy' \<and> epoch = epoch' \<and> eligible key then Some bytes else None)" by simp
  moreover have "cache_bounded c'" using insert_inv [OF inv assms(5)] by blast
  ultimately show ?thesis by (simp add: cache_bounded_def cache_metrics_def)
qed

theorem inserted_entry_is_served_witness:
  "\<exists>c'. cache_insert (\<lambda>s. s) (sample_key ''c'') ''xyzxyz'' ''q'' 8 (cache_calls (\<lambda>s. s) sample_calls sample_cache) = (c', True) \<and>
    gm_entries (cache_metrics c') \<le> gm_maximum_entries (cache_metrics c') \<and>
    snd (cache_get (\<lambda>s. s) (sample_key ''c'') ''q'' 8 (\<lambda>_. True) c') = Some ''xyzxyz'' \<and>
    snd (cache_get (\<lambda>s. s) (sample_key ''c'') ''q'' 9 (\<lambda>_. True) c') = None"
proof -
  let ?insert = "cache_insert (\<lambda>s. s) (sample_key ''c'') ''xyzxyz'' ''q'' 8 (cache_calls (\<lambda>s. s) sample_calls sample_cache)"
  have step: "?insert = (fst ?insert, snd ?insert)" by simp
  have few: "length sample_calls < 2 ^ 64 - 1" by (simp add: sample_calls_def)
  note served = inserted_entry_is_served [OF sample_cache_new few _ _ step]
  from served [of "''q''" 8 "\<lambda>_. True"] served [of "''q''" 9 "\<lambda>_. True"] step show ?thesis
    by (intro exI [of _ "fst ?insert"]) simp
qed

end
