(* ===== verification/Catalog_Invalidation.thy ===== *)
theory Catalog_Invalidation
  imports Store_Catalog
begin

text \<open>
  Dependency invalidation of the catalogue, \<open>cigar-catalog/src/invalidation.rs\<close> with the batches of \<open>connector.rs\<close>: the
  active dependency graph is built from edges, refused when it has a cycle (Kahn's algorithm), and traversed from a
  changed version in bounded, resumable batches. An ordered set is its sorted list, \<open>insort_insert\<close> its insertion. Counters
  of elements in memory are natural numbers. The cancellation token and the clock are what each check of the context
  reads of them.
\<close>

definition MAX_CONNECTOR_ITEMS :: nat where "MAX_CONNECTOR_ITEMS = 100000"

datatype catalog_error = CEInvalidMetadata | CEDenied | CENotFound | CESourceChanged | CELimitExceeded | CECancelled
  | CEDeadlineExceeded | CEUnavailable | CEInvalidRecord

datatype invalidation_cause = CauseRevocation | CauseSourceChanged | CausePolicyChanged | CauseProjectionRepair

type_synonym version_set = "version_id list"

record invalidation_batch =
  ib_root :: version_id
  ib_cause :: invalidation_cause
  ib_prior_version :: "version_id option"
  ib_new_version :: "version_id option"
  ib_causal_revision :: u64
  ib_frontier :: version_set
  ib_invalidated :: version_set

record dependency_invalidator =
  di_dependents :: "(version_id, version_set) btree"

text \<open>What a check of the context observes: the token, the clock and the deadline.\<close>

record connector_context =
  co_cancelled :: bool
  co_now :: nat
  co_deadline :: nat

definition connector_check :: "connector_context \<Rightarrow> (catalog_error, unit) result" where
  "connector_check c = (if co_cancelled c then Inl CECancelled else if co_now c \<ge> co_deadline c then Inl CEDeadlineExceeded else Inr ())"

subsection \<open>The dependency graph\<close>

definition neighbours :: "(version_id, version_set) btree \<Rightarrow> version_id \<Rightarrow> version_set" where
  "neighbours m k = (case bt_get m k of None \<Rightarrow> [] | Some vs \<Rightarrow> vs)"

text \<open>\<open>entry(k).or_default()\<close>, alone and followed by an insertion.\<close>

definition or_default :: "version_id \<Rightarrow> (version_id, version_set) btree \<Rightarrow> (version_id, version_set) btree" where
  "or_default k m = bt_insert k (neighbours m k) m"

definition link :: "version_id \<Rightarrow> version_id \<Rightarrow> (version_id, version_set) btree \<Rightarrow> (version_id, version_set) btree" where
  "link k v m = bt_insert k (insort_insert v (neighbours m k)) m"

definition is_dependency :: "context_edge \<Rightarrow> bool" where
  "is_dependency e \<longleftrightarrow> ed_lifecycle e = Active \<and> (ed_kind e = DependsOn \<or> ed_kind e = DerivedFrom)"

fun dependency_maps ::
    "context_edge list \<Rightarrow> (version_id, version_set) btree \<times> (version_id, version_set) btree
      \<Rightarrow> (version_id, version_set) btree \<times> (version_id, version_set) btree" where
  "dependency_maps [] maps = maps"
| "dependency_maps (e # es) (dependents, forward) =
     (if \<not> is_dependency e then dependency_maps es (dependents, forward)
      else dependency_maps es (link (ed_to_version e) (ed_from_version e) dependents,
             or_default (ed_to_version e) (link (ed_from_version e) (ed_to_version e) forward)))"

subsection \<open>Rejection of cycles\<close>

fun count_degrees :: "version_id list \<Rightarrow> (version_id, nat) btree \<Rightarrow> (catalog_error, (version_id, nat) btree) result" where
  "count_degrees [] degrees = Inr degrees"
| "count_degrees (t # ts) degrees =
     (if bt_get degrees t = None then Inl CEInvalidRecord else count_degrees ts (bt_update t Suc degrees))"

fun release ::
    "version_id list \<Rightarrow> (version_id, nat) btree \<Rightarrow> version_set \<Rightarrow> (catalog_error, (version_id, nat) btree \<times> version_set) result" where
  "release [] degrees ready = Inr (degrees, ready)"
| "release (t # ts) degrees ready =
     (case bt_get degrees t of
        None \<Rightarrow> Inl CEInvalidRecord
      | Some 0 \<Rightarrow> Inl CEInvalidRecord
      | Some (Suc d) \<Rightarrow> release ts (bt_update t (\<lambda>n. n - 1) degrees) (if d = 0 then insort_insert t ready else ready))"

lemma bt_sum_decrement_le: "bt_sum (\<lambda>n. n) (bt_update k (\<lambda>n. n - 1) m) \<le> (bt_sum (\<lambda>n. n) m :: nat)"
  by (induction m) (auto simp: bt_update_def)

lemma bt_sum_decrement: "bt_get m k = Some (Suc d) \<Longrightarrow> Suc (bt_sum (\<lambda>n. n) (bt_update k (\<lambda>n. n - 1) m)) \<le> bt_sum (\<lambda>n. n) m"
proof (induction m)
  case (Cons x m)
  with bt_sum_decrement_le [of k m] show ?case by (cases x) (auto simp: bt_update_def split: if_splits)
qed simp

lemma length_insort_insert_le: "length (insort_insert x xs) \<le> Suc (length xs)"
  by (simp add: insort_insert_key_def)

lemma release_measure:
  "release ts degrees ready = Inr (degrees', ready') \<Longrightarrow> bt_sum (\<lambda>n. n) degrees' + length ready' \<le> bt_sum (\<lambda>n. n) degrees + length ready"
proof (induction ts degrees ready rule: release.induct)
  case (2 t ts degrees ready)
  then obtain d where d: "bt_get degrees t = Some (Suc d)" by (auto split: option.splits nat.splits)
  with 2 have "bt_sum (\<lambda>n. n) degrees' + length ready' \<le>
      bt_sum (\<lambda>n. n) (bt_update t (\<lambda>n. n - 1) degrees) + length (if d = 0 then insort_insert t ready else ready)" by simp
  also have "\<dots> \<le> bt_sum (\<lambda>n. n) (bt_update t (\<lambda>n. n - 1) degrees) + Suc (length ready)"
    using length_insort_insert_le [of t ready] by simp
  also have "\<dots> \<le> bt_sum (\<lambda>n. n) degrees + length ready" using bt_sum_decrement [OF d] by simp
  finally show ?case .
qed simp

text \<open>The loop over the ready versions returns how many it visited.\<close>

function visit_ready ::
    "(version_id, version_set) btree \<Rightarrow> (version_id, nat) btree \<Rightarrow> version_set \<Rightarrow> nat \<Rightarrow> (catalog_error, nat) result" where
  "visit_ready forward degrees [] visited = Inr visited"
| "visit_ready forward degrees (v # ready) visited =
     (case release (neighbours forward v) degrees ready of
        Inl e \<Rightarrow> Inl e
      | Inr (degrees', ready') \<Rightarrow> visit_ready forward degrees' ready' (visited + 1))"
  by pat_completeness auto
termination
  by (relation "measure (\<lambda>(forward, degrees, ready, visited). bt_sum (\<lambda>n. n) degrees + length ready)")
    (auto dest: release_measure simp: less_Suc_eq_le)

definition reject_cycles :: "(version_id, version_set) btree \<Rightarrow> (catalog_error, unit) result" where
  "reject_cycles forward =
     rbind (count_degrees (concat (bt_values forward)) (map (\<lambda>v. (v, 0)) (bt_keys forward))) (\<lambda>degrees.
     rbind (visit_ready forward degrees (map fst (filter (\<lambda>(v, d). d = 0) degrees)) 0) (\<lambda>visited.
       if visited = length forward then Inr () else Inl CEInvalidRecord))"

definition invalidator_new :: "context_edge list \<Rightarrow> (catalog_error, dependency_invalidator) result" where
  "invalidator_new edges =
     (let (dependents, forward) = dependency_maps edges ([], [])
      in rbind (reject_cycles forward) (\<lambda>_. Inr \<lparr>di_dependents = dependents\<rparr>))"

subsection \<open>Traversal in batches\<close>

definition invalidation_start ::
    "version_id \<Rightarrow> invalidation_cause \<Rightarrow> version_id option \<Rightarrow> version_id option \<Rightarrow> u64 \<Rightarrow> invalidation_batch" where
  "invalidation_start root cause prior_version new_version causal_revision =
     \<lparr>ib_root = root, ib_cause = cause, ib_prior_version = prior_version, ib_new_version = new_version,
       ib_causal_revision = causal_revision, ib_frontier = [root], ib_invalidated = []\<rparr>"

definition invalidate_next :: "dependency_invalidator \<Rightarrow> version_id \<Rightarrow> version_set \<Rightarrow> invalidation_batch \<Rightarrow> invalidation_batch" where
  "invalidate_next w current rest b =
     (if current \<in> set (ib_invalidated b) then b\<lparr>ib_frontier := rest\<rparr>
      else let invalidated = insort_insert current (ib_invalidated b)
           in b\<lparr>ib_invalidated := invalidated,
                ib_frontier := fold (\<lambda>d frontier. if d \<in> set invalidated then frontier else insort_insert d frontier)
                  (neighbours (di_dependents w) current) rest\<rparr>)"

text \<open>The contexts are what the checks of the successive steps observe.\<close>

fun process_steps ::
    "dependency_invalidator \<Rightarrow> nat \<Rightarrow> (nat \<Rightarrow> connector_context) \<Rightarrow> invalidation_batch \<Rightarrow> (catalog_error, invalidation_batch) result" where
  "process_steps w 0 ctx b = Inr b"
| "process_steps w (Suc n) ctx b =
     rbind (connector_check (ctx 0)) (\<lambda>_.
       case ib_frontier b of
         [] \<Rightarrow> Inr b
       | current # rest \<Rightarrow> process_steps w n (\<lambda>i. ctx (Suc i)) (invalidate_next w current rest b))"

definition process ::
    "dependency_invalidator \<Rightarrow> invalidation_batch \<Rightarrow> nat \<Rightarrow> (nat \<Rightarrow> connector_context) \<Rightarrow> (catalog_error, invalidation_batch) result" where
  "process w b limit ctx =
     (if limit = 0 \<or> limit > MAX_CONNECTOR_ITEMS then Inl CELimitExceeded else process_steps w limit ctx b)"

subsection \<open>The maps are the dependency relation\<close>

definition depends :: "context_edge list \<Rightarrow> (version_id \<times> version_id) set" where
  "depends edges = {(ed_from_version e, ed_to_version e) |e. e \<in> set edges \<and> is_dependency e}"

definition adjacency_ok :: "(version_id, version_set) btree \<Rightarrow> bool" where
  "adjacency_ok m \<longleftrightarrow> bt_invar m \<and> (\<forall>k. distinct (neighbours m k) \<and> sorted (neighbours m k))"

lemma neighbours_simps [simp]:
  "neighbours [] k = []" "neighbours (or_default k m) = neighbours m"
  "neighbours (link k v m) = (neighbours m)(k := insort_insert v (neighbours m k))"
  by (auto simp: neighbours_def or_default_def link_def bt_get_insert fun_eq_iff)

lemma dom_maps [simp]:
  "dom (bt_get (or_default k m)) = insert k (dom (bt_get m))" "dom (bt_get (link k v m)) = insert k (dom (bt_get m))"
  by (auto simp: or_default_def link_def bt_get_insert)

lemma adjacency_ok_maps:
  "adjacency_ok []" "adjacency_ok m \<Longrightarrow> adjacency_ok (or_default k m)" "adjacency_ok m \<Longrightarrow> adjacency_ok (link k v m)"
  unfolding adjacency_ok_def neighbours_simps
  by (auto simp: or_default_def link_def bt_invar_insert distinct_insort_insert sorted_insort_insert)

lemma depends_Cons: "depends (e # es) = (if is_dependency e then {(ed_from_version e, ed_to_version e)} else {}) \<union> depends es"
  by (auto simp: depends_def)

lemma dependency_maps_spec:
  "dependency_maps es (d, f) = (d', f') \<Longrightarrow> adjacency_ok d \<Longrightarrow> adjacency_ok f \<Longrightarrow>
    adjacency_ok d' \<and> adjacency_ok f' \<and> dom (bt_get f') = dom (bt_get f) \<union> Field (depends es) \<and>
    (\<forall>k. set (neighbours d' k) = set (neighbours d k) \<union> (depends es)\<inverse> `` {k}) \<and>
    (\<forall>k. set (neighbours f' k) = set (neighbours f k) \<union> depends es `` {k})"
proof (induction es arbitrary: d f)
  case Nil
  then show ?case by (simp add: depends_def)
next
  case (Cons e es)
  show ?case
  proof (cases "is_dependency e")
    case True
    let ?d = "link (ed_to_version e) (ed_from_version e) d"
    let ?f = "or_default (ed_to_version e) (link (ed_from_version e) (ed_to_version e) f)"
    have "adjacency_ok d' \<and> adjacency_ok f' \<and> dom (bt_get f') = dom (bt_get ?f) \<union> Field (depends es) \<and>
      (\<forall>k. set (neighbours d' k) = set (neighbours ?d k) \<union> (depends es)\<inverse> `` {k}) \<and>
      (\<forall>k. set (neighbours f' k) = set (neighbours ?f k) \<union> depends es `` {k})"
      using Cons True by (intro Cons.IH) (simp_all add: adjacency_ok_maps)
    with True show ?thesis by (auto simp: depends_Cons set_insort_insert)
  qed (use Cons in \<open>simp add: depends_Cons\<close>)
qed

lemma dependency_maps_exact:
  assumes "dependency_maps edges ([], []) = (d, f)"
  shows "adjacency_ok d" "adjacency_ok f" "dom (bt_get f) = Field (depends edges)"
    "set (neighbours d k) = (depends edges)\<inverse> `` {k}" "set (neighbours f k) = depends edges `` {k}"
  using dependency_maps_spec [OF assms adjacency_ok_maps(1,1)] by simp_all

lemma finite_depends: "finite (depends edges)"
proof -
  have "depends edges \<subseteq> (\<lambda>e. (ed_from_version e, ed_to_version e)) ` set edges" by (auto simp: depends_def)
  then show ?thesis by (rule finite_subset) simp
qed

subsection \<open>Degrees\<close>

lemma count_degrees_spec:
  "set ts \<subseteq> dom (bt_get degrees) \<Longrightarrow> bt_invar degrees \<Longrightarrow>
    \<exists>degrees'. count_degrees ts degrees = Inr degrees' \<and> bt_invar degrees' \<and>
      (\<forall>t. bt_get degrees' t = map_option (\<lambda>n. n + count_list ts t) (bt_get degrees t))"
proof (induction ts degrees rule: count_degrees.induct)
  case (2 t ts degrees)
  from "2.prems"(1) have "bt_get degrees t \<noteq> None" by auto
  moreover have "set ts \<subseteq> dom (bt_get (bt_update t Suc degrees))" using "2.prems"(1) by (auto simp: bt_get_update dom_def)
  ultimately obtain degrees' where "count_degrees ts (bt_update t Suc degrees) = Inr degrees'" "bt_invar degrees'"
    and get: "\<forall>u. bt_get degrees' u = map_option (\<lambda>n. n + count_list ts u) (bt_get (bt_update t Suc degrees) u)"
    using "2.IH" "2.prems"(2) bt_invar_update by blast
  moreover have "bt_get degrees' u = map_option (\<lambda>n. n + count_list (t # ts) u) (bt_get degrees u)" for u
    using get by (cases "bt_get degrees u") (auto simp: bt_get_update)
  ultimately show ?case using \<open>bt_get degrees t \<noteq> None\<close> by auto
qed (simp add: option.map_ident)

lemma neighbours_absent: "k \<notin> fst ` set m \<Longrightarrow> neighbours m k = []"
  by (simp add: neighbours_def map_of_eq_None_iff [THEN iffD2])

lemma neighbours_Cons: "neighbours ((k, vs) # m) k' = (if k' = k then vs else neighbours m k')"
  by (simp add: neighbours_def)

lemma count_concat:
  "distinct (map fst m) \<Longrightarrow> (\<And>k vs. (k, vs) \<in> set m \<Longrightarrow> distinct vs) \<Longrightarrow>
    count_list (concat (bt_values m)) t = card {k. t \<in> set (neighbours m k)}"
proof (induction m)
  case (Cons x m)
  obtain k vs where x: "x = (k, vs)" by (cases x)
  have fresh: "neighbours m k = []" using Cons.prems(1) x by (intro neighbours_absent) simp
  have fin: "finite {k. t \<in> set (neighbours m k)}"
  proof (rule finite_subset)
    show "{k. t \<in> set (neighbours m k)} \<subseteq> fst ` set m" using neighbours_absent [of _ m] by (fastforce simp del: image_iff)
  qed simp
  have "distinct vs" using Cons.prems(2) [of k vs] x by simp
  then have once: "count_list vs t = (if t \<in> set vs then 1 else 0)" by (induction vs) auto
  have "{k'. t \<in> set (neighbours (x # m) k')} = (if t \<in> set vs then insert k {k. t \<in> set (neighbours m k)} else {k. t \<in> set (neighbours m k)})"
    using fresh by (auto simp: x neighbours_Cons)
  with fin fresh once Cons show ?case by (auto simp: x bt_values_def)
qed (simp add: bt_values_def)

lemma release_spec:
  assumes "distinct ts" "bt_invar degrees" "\<And>t. t \<in> set ts \<Longrightarrow> \<exists>d. bt_get degrees t = Some (Suc d)" "distinct ready" "sorted ready"
  shows "\<exists>degrees' ready'. release ts degrees ready = Inr (degrees', ready') \<and> bt_invar degrees' \<and> distinct ready' \<and> sorted ready' \<and>
    (\<forall>t. bt_get degrees' t = (if t \<in> set ts then map_option (\<lambda>n. n - 1) (bt_get degrees t) else bt_get degrees t)) \<and>
    set ready' = set ready \<union> {t \<in> set ts. bt_get degrees t = Some 1}"
  using assms
proof (induction ts arbitrary: degrees ready)
  case (Cons t ts)
  from Cons.prems(3) obtain d where d: "bt_get degrees t = Some (Suc d)" by fastforce
  let ?degrees = "bt_update t (\<lambda>n. n - 1) degrees"
  let ?ready = "if d = 0 then insort_insert t ready else ready"
  have "\<exists>degrees' ready'. release ts ?degrees ?ready = Inr (degrees', ready') \<and> bt_invar degrees' \<and> distinct ready' \<and> sorted ready' \<and>
    (\<forall>u. bt_get degrees' u = (if u \<in> set ts then map_option (\<lambda>n. n - 1) (bt_get ?degrees u) else bt_get ?degrees u)) \<and>
    set ready' = set ?ready \<union> {u \<in> set ts. bt_get ?degrees u = Some 1}"
  proof (rule Cons.IH)
    show "\<exists>d. bt_get ?degrees u = Some (Suc d)" if "u \<in> set ts" for u
    proof -
      from that Cons.prems(1) have "u \<noteq> t" by auto
      with that Cons.prems(3) [of u] show ?thesis by (simp add: bt_get_update)
    qed
  qed (use Cons.prems in \<open>auto simp: bt_invar_update distinct_insort_insert sorted_insort_insert\<close>)
  then obtain degrees' ready' where rest: "release ts ?degrees ?ready = Inr (degrees', ready')" "bt_invar degrees'" "distinct ready'" "sorted ready'"
    and get: "\<And>u. bt_get degrees' u = (if u \<in> set ts then map_option (\<lambda>n. n - 1) (bt_get ?degrees u) else bt_get ?degrees u)"
    and set: "set ready' = set ?ready \<union> {u \<in> set ts. bt_get ?degrees u = Some 1}" by blast
  have "bt_get degrees' u = (if u \<in> set (t # ts) then map_option (\<lambda>n. n - 1) (bt_get degrees u) else bt_get degrees u)" for u
    using Cons.prems(1) by (cases "u = t") (auto simp: get bt_get_update)
  moreover have "set ready' = set ready \<union> {u \<in> set (t # ts). bt_get degrees u = Some 1}"
    unfolding set using Cons.prems(1) d by (auto simp: set_insort_insert bt_get_update split: if_splits)
  ultimately show ?case using d rest by auto
qed auto

subsection \<open>The loop accepts exactly the acyclic graphs\<close>

definition edges_of :: "(version_id, version_set) btree \<Rightarrow> (version_id \<times> version_id) set" where
  "edges_of f = {(u, v). v \<in> set (neighbours f u)}"

text \<open>
  The state of the loop for a set of visited versions: the degree of a version counts its unvisited predecessors, the
  ready versions are the unvisited ones without any, and the visited ones are closed under predecessors and acyclic.
\<close>

definition visiting :: "(version_id, version_set) btree \<Rightarrow> version_id set \<Rightarrow> (version_id, nat) btree \<Rightarrow> version_set \<Rightarrow> bool" where
  "visiting f V degrees ready \<longleftrightarrow> V \<subseteq> dom (bt_get f) \<and> bt_invar degrees \<and> distinct ready \<and> sorted ready \<and>
     (\<forall>t. bt_get degrees t = (if t \<in> dom (bt_get f) then Some (card ((edges_of f)\<inverse> `` {t} - V)) else None)) \<and>
     set ready = {v \<in> dom (bt_get f) - V. (edges_of f)\<inverse> `` {v} \<subseteq> V} \<and>
     (edges_of f)\<inverse> `` V \<subseteq> V \<and> acyclic (edges_of f \<inter> V \<times> V)"

definition graph_ok :: "(version_id, version_set) btree \<Rightarrow> bool" where
  "graph_ok f \<longleftrightarrow> adjacency_ok f \<and> edges_of f \<subseteq> dom (bt_get f) \<times> dom (bt_get f)"

lemma graph_finite:
  assumes "graph_ok f"
  shows "finite (dom (bt_get f))" "finite (edges_of f)" "finite ((edges_of f)\<inverse> `` {t})"
proof -
  show "finite (dom (bt_get f))" by (rule finite_dom_map_of)
  then have "finite (dom (bt_get f) \<times> dom (bt_get f))" by simp
  then show edges: "finite (edges_of f)" using assms unfolding graph_ok_def by (blast intro: finite_subset)
  then have "finite (fst ` edges_of f)" by simp
  moreover have "(edges_of f)\<inverse> `` {t} \<subseteq> fst ` edges_of f" by force
  ultimately show "finite ((edges_of f)\<inverse> `` {t})" by (rule finite_subset [rotated])
qed

text \<open>A version whose predecessors are all among closed, acyclic ones can join them.\<close>

lemma acyclic_join:
  assumes "acyclic (E \<inter> V \<times> V)" "E\<inverse> `` V \<subseteq> V" "E\<inverse> `` {v} \<subseteq> V" "v \<notin> V"
  shows "acyclic (E \<inter> insert v V \<times> insert v V)"
proof (rule acyclicI, rule allI, rule notI)
  let ?R = "E \<inter> insert v V \<times> insert v V"
  have source: "y \<in> V" if "(y, z) \<in> ?R" for y z using that assms(2-4) by auto
  have inside: "(x, z) \<in> (E \<inter> V \<times> V)\<^sup>+" if "(x, z) \<in> ?R\<^sup>+" "z \<in> V" for x z
    using that
  proof (induction rule: trancl_induct)
    case (base z)
    with source show ?case by blast
  next
    case (step y z)
    with source have "(x, y) \<in> (E \<inter> V \<times> V)\<^sup>+" "(y, z) \<in> E \<inter> V \<times> V" by blast+
    then show ?case by (rule trancl_into_trancl)
  qed
  fix x
  assume cycle: "(x, x) \<in> ?R\<^sup>+"
  then have "x \<in> V" using source by (blast dest: tranclD)
  with inside [OF cycle] assms(1) show False by (simp add: acyclic_def)
qed

lemma card_one_left: "v \<in> P - V \<Longrightarrow> card (P - V) = 1 \<longleftrightarrow> P \<subseteq> insert v V"
proof
  assume "v \<in> P - V" "card (P - V) = 1"
  then have "P - V = {v}" by (metis card_1_singletonE singletonD)
  then show "P \<subseteq> insert v V" by blast
next
  assume "v \<in> P - V" "P \<subseteq> insert v V"
  then have "P - V = {v}" by blast
  then show "card (P - V) = 1" by simp
qed

lemma visit_step:
  assumes graph: "graph_ok f" and state: "visiting f V degrees (v # ready)"
  obtains degrees' ready' where "release (neighbours f v) degrees ready = Inr (degrees', ready')" "visiting f (insert v V) degrees' ready'"
proof -
  let ?E = "edges_of f"
  have v: "v \<in> dom (bt_get f)" "v \<notin> V" "?E\<inverse> `` {v} \<subseteq> V" and closed: "?E\<inverse> `` V \<subseteq> V" "acyclic (?E \<inter> V \<times> V)"
    and degree: "\<And>t. bt_get degrees t = (if t \<in> dom (bt_get f) then Some (card (?E\<inverse> `` {t} - V)) else None)"
    and ready: "set (v # ready) = {v \<in> dom (bt_get f) - V. ?E\<inverse> `` {v} \<subseteq> V}"
    using state by (auto simp: visiting_def)
  have target: "v \<in> ?E\<inverse> `` {t} - V" "t \<in> dom (bt_get f)" if "t \<in> set (neighbours f v)" for t
    using that v graph by (auto simp: edges_of_def graph_ok_def)
  have "\<exists>degrees' ready'. release (neighbours f v) degrees ready = Inr (degrees', ready') \<and> bt_invar degrees' \<and>
      distinct ready' \<and> sorted ready' \<and>
      (\<forall>t. bt_get degrees' t = (if t \<in> set (neighbours f v) then map_option (\<lambda>n. n - 1) (bt_get degrees t) else bt_get degrees t)) \<and>
      set ready' = set ready \<union> {t \<in> set (neighbours f v). bt_get degrees t = Some 1}"
  proof (rule release_spec)
    show "\<exists>d. bt_get degrees t = Some (Suc d)" if "t \<in> set (neighbours f v)" for t
    proof -
      have "card (?E\<inverse> `` {t} - V) \<noteq> 0" using target(1) [OF that] graph_finite(3) [OF graph, of t] by (auto simp: card_eq_0_iff)
      with target(2) [OF that] show ?thesis by (auto simp: degree gr0_conv_Suc)
    qed
  qed (use state graph in \<open>auto simp: visiting_def graph_ok_def adjacency_ok_def\<close>)
  then obtain degrees' ready' where released: "release (neighbours f v) degrees ready = Inr (degrees', ready')"
    "bt_invar degrees'" "distinct ready'" "sorted ready'"
    and get: "\<And>t. bt_get degrees' t = (if t \<in> set (neighbours f v) then map_option (\<lambda>n. n - 1) (bt_get degrees t) else bt_get degrees t)"
    and set: "set ready' = set ready \<union> {t \<in> set (neighbours f v). bt_get degrees t = Some 1}" by blast
  have card: "card (?E\<inverse> `` {t} - insert v V) = card (?E\<inverse> `` {t} - V) - (if t \<in> set (neighbours f v) then 1 else 0)" for t
    using target(1) [of t] graph_finite(3) [OF graph, of t] v(2) by (auto simp: edges_of_def Diff_insert [of _ v V] card_Diff_singleton)
  have get': "bt_get degrees' t = (if t \<in> dom (bt_get f) then Some (card (?E\<inverse> `` {t} - insert v V)) else None)" for t
    unfolding get card using target(2) [of t] by (auto simp: degree)
  have ready_iff: "u \<in> set ready \<longleftrightarrow> u \<in> dom (bt_get f) - insert v V \<and> ?E\<inverse> `` {u} \<subseteq> V" for u
    using ready state by (auto simp: visiting_def)
  have "u \<in> set ready' \<longleftrightarrow> u \<in> dom (bt_get f) - insert v V \<and> ?E\<inverse> `` {u} \<subseteq> insert v V" for u
  proof (cases "u \<in> set (neighbours f v)")
    case True
    note pred = target [OF True]
    have "u \<notin> V" "u \<noteq> v" using pred(1) v(2,3) closed(1) by blast+
    moreover have "u \<notin> set ready" using pred(1) ready_iff [of u] by blast
    ultimately show ?thesis unfolding set using True pred(2) card_one_left [OF pred(1)] by (simp add: degree [of u])
  next
    case False
    then have "v \<notin> ?E\<inverse> `` {u}" by (auto simp: edges_of_def)
    then have "?E\<inverse> `` {u} \<subseteq> insert v V \<longleftrightarrow> ?E\<inverse> `` {u} \<subseteq> V" by blast
    with False show ?thesis unfolding set using ready_iff [of u] by simp
  qed
  then have set': "set ready' = {u \<in> dom (bt_get f) - insert v V. ?E\<inverse> `` {u} \<subseteq> insert v V}" by blast
  have "insert v V \<subseteq> dom (bt_get f)" using v(1) state by (simp add: visiting_def)
  moreover have "?E\<inverse> `` insert v V \<subseteq> insert v V" using closed(1) v(3) by blast
  ultimately have "visiting f (insert v V) degrees' ready'"
    unfolding visiting_def using released(2-4) get' set' acyclic_join [OF closed(2,1) v(3,2)] by simp
  with released(1) show thesis by (rule that)
qed

lemma visit_ready_total:
  "graph_ok f \<Longrightarrow> visiting f V degrees ready \<Longrightarrow> n = card V \<Longrightarrow>
    \<exists>V' degrees'. visit_ready f degrees ready n = Inr (card V') \<and> visiting f V' degrees' []"
proof (induction f degrees ready n arbitrary: V rule: visit_ready.induct)
  case (2 f degrees v ready n)
  from visit_step [OF "2.prems"(1,2)] obtain degrees' ready' where
    step: "release (neighbours f v) degrees ready = Inr (degrees', ready')" "visiting f (insert v V) degrees' ready'" .
  have "v \<notin> V" "finite V"
    using "2.prems"(2) graph_finite(1) [OF "2.prems"(1)] by (auto simp: visiting_def intro: finite_subset)
  then have "n + 1 = card (insert v V)" using "2.prems"(3) by simp
  with "2.IH" [OF step(1) refl "2.prems"(1) step(2)] step(1) show ?case by simp
qed auto

lemma visited_all_iff:
  assumes graph: "graph_ok f" and finished: "visiting f V degrees []"
  shows "V = dom (bt_get f) \<longleftrightarrow> acyclic (edges_of f)"
proof
  assume "V = dom (bt_get f)"
  then have "edges_of f \<inter> V \<times> V = edges_of f" using graph by (auto simp: graph_ok_def)
  with finished show "acyclic (edges_of f)" by (simp add: visiting_def)
next
  assume "acyclic (edges_of f)"
  then have wf: "wf (edges_of f)" using graph_finite(2) [OF graph] by (rule finite_acyclic_wf [rotated])
  show "V = dom (bt_get f)"
  proof (rule ccontr)
    assume "V \<noteq> dom (bt_get f)"
    then obtain u where "u \<in> dom (bt_get f) - V" using finished by (auto simp: visiting_def)
    with wf obtain z where z: "z \<in> dom (bt_get f) - V" "\<And>y. (y, z) \<in> edges_of f \<Longrightarrow> y \<notin> dom (bt_get f) - V"
      by (rule wfE_min) blast
    then have "(edges_of f)\<inverse> `` {z} \<subseteq> V" using graph by (auto simp: graph_ok_def)
    with z(1) finished show False by (auto simp: visiting_def)
  qed
qed

lemma zero_degrees: "bt_get (map (\<lambda>v. (v, 0 :: nat)) (bt_keys f)) t = (if t \<in> dom (bt_get f) then Some 0 else None)"
  by (induction f) (auto simp: bt_keys_def)

lemma degrees_counted:
  assumes graph: "graph_ok f"
  obtains degrees where "count_degrees (concat (bt_values f)) (map (\<lambda>v. (v, 0)) (bt_keys f)) = Inr degrees" "bt_invar degrees"
    "\<And>t. bt_get degrees t = (if t \<in> dom (bt_get f) then Some (card ((edges_of f)\<inverse> `` {t})) else None)"
proof -
  let ?zero = "map (\<lambda>v. (v, 0 :: nat)) (bt_keys f)"
  have distinct: "distinct (map fst f)" using graph by (simp add: graph_ok_def adjacency_ok_def bt_invar_distinct)
  have entry: "neighbours f k = vs" if "(k, vs) \<in> set f" for k vs using that distinct by (simp add: neighbours_def)
  have zero_dom: "dom (bt_get ?zero) = dom (bt_get f)" by (auto simp: zero_degrees split: if_splits)
  have "t \<in> dom (bt_get f)" if "t \<in> set (concat (bt_values f))" for t
  proof -
    from that obtain k vs where "(k, vs) \<in> set f" "t \<in> set vs" by (auto simp: bt_values_def)
    with entry have "(k, t) \<in> edges_of f" by (auto simp: edges_of_def)
    with graph show ?thesis by (auto simp: graph_ok_def)
  qed
  then have "set (concat (bt_values f)) \<subseteq> dom (bt_get ?zero)" unfolding zero_dom by blast
  moreover have "bt_invar ?zero" using graph by (simp add: graph_ok_def adjacency_ok_def bt_invar_def bt_keys_def o_def)
  ultimately obtain degrees where counted: "count_degrees (concat (bt_values f)) ?zero = Inr degrees" "bt_invar degrees"
    and get: "\<And>t. bt_get degrees t = map_option (\<lambda>n. n + count_list (concat (bt_values f)) t) (bt_get ?zero t)"
    using count_degrees_spec [of "concat (bt_values f)" ?zero] by blast
  have "distinct vs" if "(k, vs) \<in> set f" for k vs using entry [OF that] graph by (auto simp: graph_ok_def adjacency_ok_def)
  from count_concat [OF distinct this]
  have count: "count_list (concat (bt_values f)) t = card ((edges_of f)\<inverse> `` {t})" for t
    by (simp add: edges_of_def Image_def)
  show thesis by (rule that [OF counted]) (simp add: get zero_degrees count)
qed

lemma zero_ready:
  assumes "bt_invar degrees"
  shows "distinct (map fst (filter (\<lambda>(v, d). d = 0) degrees))" "sorted (map fst (filter (\<lambda>(v, d). d = 0) degrees))"
    "set (map fst (filter (\<lambda>(v, d). d = 0) degrees)) = {v. bt_get degrees v = Some (0 :: nat)}"
proof -
  have "sorted_wrt (<) (map fst (filter (\<lambda>(v, d). d = 0) degrees))"
    using bt_invar_filter [OF assms, of "\<lambda>(v, d). d = 0"] by (simp add: bt_invar_def)
  then show "distinct (map fst (filter (\<lambda>(v, d). d = 0) degrees))" "sorted (map fst (filter (\<lambda>(v, d). d = 0) degrees))"
    by (simp_all add: strict_sorted_iff)
  show "set (map fst (filter (\<lambda>(v, d). d = 0) degrees)) = {v. bt_get degrees v = Some (0 :: nat)}"
    using bt_invar_distinct [OF assms] by (force simp: map_of_eq_Some_iff)
qed

lemma visiting_start:
  assumes graph: "graph_ok f" and invar: "bt_invar degrees"
    and get: "\<And>t. bt_get degrees t = (if t \<in> dom (bt_get f) then Some (card ((edges_of f)\<inverse> `` {t})) else None)"
  shows "visiting f {} degrees (map fst (filter (\<lambda>(v, d). d = 0) degrees))"
proof -
  have "set (map fst (filter (\<lambda>(v, d). d = 0) degrees)) = {v \<in> dom (bt_get f) - {}. (edges_of f)\<inverse> `` {v} \<subseteq> {}}"
    unfolding zero_ready(3) [OF invar] get using graph_finite(3) [OF graph] by (auto split: if_splits)
  with invar zero_ready(1,2) [OF invar] get show ?thesis unfolding visiting_def by (simp add: acyclic_def)
qed

lemma reject_cycles_exact:
  assumes "graph_ok f"
  shows "reject_cycles f = (if acyclic (edges_of f) then Inr () else Inl CEInvalidRecord)"
proof -
  from degrees_counted [OF assms] obtain degrees where counted: "count_degrees (concat (bt_values f)) (map (\<lambda>v. (v, 0)) (bt_keys f)) = Inr degrees"
    "bt_invar degrees" "\<And>t. bt_get degrees t = (if t \<in> dom (bt_get f) then Some (card ((edges_of f)\<inverse> `` {t})) else None)" by blast
  from visit_ready_total [OF assms visiting_start [OF assms counted(2,3)]] obtain V degrees' where
    visited: "visit_ready f degrees (map fst (filter (\<lambda>(v, d). d = 0) degrees)) 0 = Inr (card V)" "visiting f V degrees' []" by auto
  have "V \<subseteq> dom (bt_get f)" using visited(2) by (simp add: visiting_def)
  then have "card V = card (dom (bt_get f)) \<longleftrightarrow> V = dom (bt_get f)"
    using card_subset_eq graph_finite(1) [OF assms] by blast
  moreover have "card (dom (bt_get f)) = length f"
    using assms distinct_card [of "map fst f"] by (simp add: graph_ok_def adjacency_ok_def bt_invar_distinct dom_map_of_conv_image_fst)
  ultimately show ?thesis using visited_all_iff [OF assms visited(2)] by (simp add: reject_cycles_def counted(1) visited(1))
qed

lemma invalidator_new_exact:
  "invalidator_new edges =
    (if acyclic (depends edges) then Inr \<lparr>di_dependents = fst (dependency_maps edges ([], []))\<rparr> else Inl CEInvalidRecord)"
proof -
  obtain d f where maps: "dependency_maps edges ([], []) = (d, f)" by fastforce
  note exact = dependency_maps_exact [OF maps]
  have edges: "edges_of f = depends edges" by (auto simp: edges_of_def exact(5))
  have "graph_ok f" unfolding graph_ok_def edges exact(3) using exact(2) by (auto simp: Field_def)
  from reject_cycles_exact [OF this] show ?thesis by (simp add: invalidator_new_def maps edges)
qed

text \<open>
  (C20) The invalidator is built exactly for the acyclic dependency graphs: a set of edges is refused, as an invalid
  record, if and only if its active dependency and derivation edges form a cycle, and otherwise the invalidator maps
  every version to exactly its direct dependents.
\<close>

theorem cycles_are_rejected:
  "case invalidator_new edges of
     Inl e \<Rightarrow> e = CEInvalidRecord \<and> \<not> acyclic (depends edges)
   | Inr w \<Rightarrow> acyclic (depends edges) \<and> (\<forall>v. set (neighbours (di_dependents w) v) = {u. (u, v) \<in> depends edges})"
proof -
  obtain d f where maps: "dependency_maps edges ([], []) = (d, f)" by fastforce
  have "set (neighbours d v) = {u. (u, v) \<in> depends edges}" for v using dependency_maps_exact(4) [OF maps] by auto
  with maps show ?thesis by (simp add: invalidator_new_exact)
qed

subsection \<open>What a traversal reaches\<close>

definition affected :: "context_edge list \<Rightarrow> version_id \<Rightarrow> version_id set" where
  "affected edges root = ((depends edges)\<inverse>)\<^sup>* `` {root}"

definition follows :: "dependency_invalidator \<Rightarrow> context_edge list \<Rightarrow> bool" where
  "follows w edges \<longleftrightarrow> (\<forall>v. set (neighbours (di_dependents w) v) = (depends edges)\<inverse> `` {v})"

lemma invalidator_follows: "invalidator_new edges = Inr w \<Longrightarrow> follows w edges"
  using dependency_maps_exact(4) [of edges] by (cases "dependency_maps edges ([], [])") (auto simp: invalidator_new_exact follows_def split: if_splits)

definition batch_ok :: "context_edge list \<Rightarrow> invalidation_batch \<Rightarrow> bool" where
  "batch_ok edges b \<longleftrightarrow> distinct (ib_frontier b) \<and> sorted (ib_frontier b) \<and> distinct (ib_invalidated b) \<and> sorted (ib_invalidated b) \<and>
     set (ib_frontier b) \<inter> set (ib_invalidated b) = {} \<and>
     set (ib_frontier b) \<union> set (ib_invalidated b) \<subseteq> affected edges (ib_root b) \<and>
     ib_root b \<in> set (ib_frontier b) \<union> set (ib_invalidated b) \<and>
     (depends edges)\<inverse> `` set (ib_invalidated b) \<subseteq> set (ib_frontier b) \<union> set (ib_invalidated b)"

lemma fold_frontier:
  fixes A :: "version_id set" and ds frontier :: version_set
  assumes "distinct frontier" "sorted frontier"
  defines "f \<equiv> fold (\<lambda>d frontier. if d \<in> A then frontier else insort_insert d frontier) ds frontier"
  shows "distinct f \<and> sorted f \<and> set f = set frontier \<union> (set ds - A)"
  using assms(1,2) unfolding f_def
  by (induction ds arbitrary: frontier) (auto simp: distinct_insort_insert sorted_insort_insert set_insort_insert)

lemma invalidate_next_fields [simp]:
  "ib_root (invalidate_next w v rest b) = ib_root b" "ib_cause (invalidate_next w v rest b) = ib_cause b"
  "ib_prior_version (invalidate_next w v rest b) = ib_prior_version b" "ib_new_version (invalidate_next w v rest b) = ib_new_version b"
  "ib_causal_revision (invalidate_next w v rest b) = ib_causal_revision b"
  by (simp_all add: invalidate_next_def Let_def)

lemma invalidate_next_ok:
  assumes follows: "follows w edges" and ok: "batch_ok edges b" and frontier: "ib_frontier b = v # rest"
  shows "batch_ok edges (invalidate_next w v rest b) \<and>
    length (ib_invalidated (invalidate_next w v rest b)) = Suc (length (ib_invalidated b))"
proof -
  define inv' where "inv' = insort_insert v (ib_invalidated b)"
  define front' where "front' = fold (\<lambda>d frontier. if d \<in> set inv' then frontier else insort_insert d frontier) (neighbours (di_dependents w) v) rest"
  have new: "v \<notin> set (ib_invalidated b)" "v \<notin> set rest" using ok frontier by (auto simp: batch_ok_def)
  then have next_b: "invalidate_next w v rest b = b\<lparr>ib_invalidated := inv', ib_frontier := front'\<rparr>"
    by (simp add: invalidate_next_def Let_def inv'_def front'_def)
  have f: "distinct front'" "sorted front'" "set front' = set rest \<union> ((depends edges)\<inverse> `` {v} - set inv')"
    unfolding front'_def using fold_frontier [of rest "set inv'" "neighbours (di_dependents w) v"] ok frontier follows by (auto simp: batch_ok_def follows_def)
  have i: "set inv' = insert v (set (ib_invalidated b))" "distinct inv'" "sorted inv'" "length inv' = Suc (length (ib_invalidated b))"
    using ok new by (simp_all add: inv'_def batch_ok_def set_insort_insert distinct_insort_insert sorted_insort_insert)
      (simp add: insort_insert_key_def)
  have "v \<in> affected edges (ib_root b)" using ok frontier by (simp add: batch_ok_def)
  then have reach: "(depends edges)\<inverse> `` {v} \<subseteq> affected edges (ib_root b)" by (auto simp: affected_def intro: rtrancl_into_rtrancl)
  have "set front' \<inter> set inv' = {}" using ok frontier new unfolding f(3) i(1) by (auto simp: batch_ok_def)
  moreover have "set front' \<union> set inv' \<subseteq> affected edges (ib_root b)" using ok frontier reach unfolding f(3) i(1) by (auto simp: batch_ok_def)
  moreover have "ib_root b \<in> set front' \<union> set inv'" using ok frontier unfolding f(3) i(1) by (auto simp: batch_ok_def)
  moreover have "(depends edges)\<inverse> `` set inv' \<subseteq> set front' \<union> set inv'" using ok frontier unfolding f(3) i(1) by (auto simp: batch_ok_def)
  ultimately show ?thesis unfolding next_b batch_ok_def using f(1,2) i(2-4) by simp
qed

lemma process_steps_ok:
  "process_steps w n ctx b = Inr b' \<Longrightarrow> follows w edges \<Longrightarrow> batch_ok edges b \<Longrightarrow>
    batch_ok edges b' \<and> (ib_frontier b' = [] \<or> length (ib_invalidated b') = length (ib_invalidated b) + n) \<and>
    ib_root b' = ib_root b \<and> ib_cause b' = ib_cause b"
proof (induction n arbitrary: ctx b)
  case (Suc n)
  show ?case
  proof (cases "ib_frontier b")
    case Nil
    with Suc.prems show ?thesis by (cases "connector_check (ctx 0)") simp_all
  next
    case (Cons v rest)
    with Suc.prems(1) have "process_steps w n (\<lambda>i. ctx (Suc i)) (invalidate_next w v rest b) = Inr b'"
      by (cases "connector_check (ctx 0)") simp_all
    from Suc.IH [OF this Suc.prems(2)] invalidate_next_ok [OF Suc.prems(2,3) Cons] show ?thesis by auto
  qed
qed simp

lemma process_steps_returns: "(\<And>i. connector_check (ctx i) = Inr ()) \<Longrightarrow> \<exists>b'. process_steps w n ctx b = Inr b'"
  by (induction n arbitrary: ctx b) (auto split: list.splits)

text \<open>A worker resumes the batch call by call, each with its own limit and context.\<close>

fun process_all :: "dependency_invalidator \<Rightarrow> (nat \<times> (nat \<Rightarrow> connector_context)) list \<Rightarrow> invalidation_batch \<Rightarrow> (catalog_error, invalidation_batch) result" where
  "process_all w [] b = Inr b"
| "process_all w ((limit, ctx) # calls) b = rbind (process w b limit ctx) (process_all w calls)"

lemma process_empty: "process w b limit ctx = Inr b' \<Longrightarrow> ib_frontier b = [] \<Longrightarrow> b' = b"
  by (cases limit; cases "connector_check (ctx 0)") (auto simp: process_def split: if_splits)

lemma process_all_empty: "process_all w calls b = Inr b' \<Longrightarrow> ib_frontier b = [] \<Longrightarrow> b' = b"
proof (induction w calls b rule: process_all.induct)
  case (2 w limit ctx calls b)
  then show ?case by (cases "process w b limit ctx") (auto dest: process_empty)
qed simp

lemma process_all_ok:
  "process_all w calls b = Inr b' \<Longrightarrow> follows w edges \<Longrightarrow> batch_ok edges b \<Longrightarrow>
    batch_ok edges b' \<and> (ib_frontier b' = [] \<or> length (ib_invalidated b') = length (ib_invalidated b) + sum_list (map fst calls)) \<and>
    ib_root b' = ib_root b \<and> ib_cause b' = ib_cause b"
proof (induction w calls b rule: process_all.induct)
  case (2 w limit ctx calls b)
  then obtain b1 where first: "process w b limit ctx = Inr b1" "process_all w calls b1 = Inr b'"
    by (cases "process w b limit ctx") auto
  then have steps: "process_steps w limit ctx b = Inr b1" by (auto simp: process_def split: if_splits)
  note b1 = process_steps_ok [OF steps "2.prems"(2,3)]
  have "b' = b1" if "ib_frontier b1 = []" using first(2) that by (rule process_all_empty)
  with b1 "2.IH" [OF first(2) "2.prems"(2)] show ?case by auto
qed simp

lemma process_all_returns:
  "(\<And>limit ctx. (limit, ctx) \<in> set calls \<Longrightarrow> 0 < limit \<and> limit \<le> MAX_CONNECTOR_ITEMS \<and> (\<forall>i. connector_check (ctx i) = Inr ())) \<Longrightarrow>
    \<exists>b'. process_all w calls b = Inr b'"
proof (induction w calls b rule: process_all.induct)
  case (2 w limit ctx calls b)
  have "0 < limit \<and> limit \<le> MAX_CONNECTOR_ITEMS \<and> (\<forall>i. connector_check (ctx i) = Inr ())" by (rule "2.prems") simp
  then obtain b1 where "process w b limit ctx = Inr b1" using process_steps_returns [of ctx w limit b] by (auto simp: process_def)
  moreover have "\<exists>b'. process_all w calls b1 = Inr b'" by (rule "2.IH") (rule "2.prems", simp)
  ultimately show ?case by simp
qed simp

lemma finite_affected: "finite (affected edges root)"
  unfolding affected_def by (rule finite_reachable) (simp add: finite_depends)

text \<open>
  (C19) Invalidation reaches exactly what depends on a change. From the batch that starts at a version, calls of the worker
  within its limits and deadlines return; whatever limits the calls have, they invalidate only transitive dependents of
  the version, an exhausted frontier means that all of them are invalidated, and the frontier is exhausted once the
  limits add up to the number of dependents.
\<close>

theorem invalidation_is_exact:
  assumes "invalidator_new edges = Inr w" and "b = process_all w calls (invalidation_start root cause prior_version new_version revision)"
    and "\<forall>(limit, ctx) \<in> set calls. 0 < limit \<and> limit \<le> MAX_CONNECTOR_ITEMS \<and> (\<forall>i. connector_check (ctx i) = Inr ())"
  shows "\<exists>b'. b = Inr b' \<and> ib_root b' = root \<and> ib_cause b' = cause \<and> set (ib_invalidated b') \<subseteq> affected edges root \<and>
    (ib_frontier b' = [] \<longrightarrow> set (ib_invalidated b') = affected edges root) \<and>
    (card (affected edges root) \<le> sum_list (map fst calls) \<longrightarrow> ib_frontier b' = [])"
proof -
  let ?start = "invalidation_start root cause prior_version new_version revision"
  from assms(3) process_all_returns [of calls w ?start] obtain b' where b': "process_all w calls ?start = Inr b'" by blast
  have "batch_ok edges ?start" by (auto simp: batch_ok_def invalidation_start_def affected_def)
  from process_all_ok [OF b' invalidator_follows [OF assms(1)] this]
  have ok: "batch_ok edges b'" and size: "ib_frontier b' = [] \<or> length (ib_invalidated b') = sum_list (map fst calls)"
    and fields: "ib_root b' = root" "ib_cause b' = cause" by (auto simp: invalidation_start_def)
  have sound: "set (ib_invalidated b') \<subseteq> affected edges root" using ok fields by (simp add: batch_ok_def)
  have complete: "set (ib_invalidated b') = affected edges root" if "ib_frontier b' = []"
  proof -
    have "v \<in> set (ib_invalidated b')" if "(root, v) \<in> ((depends edges)\<inverse>)\<^sup>*" for v
      using closed_rtrancl [OF _ that, of "set (ib_invalidated b')"] ok fields \<open>ib_frontier b' = []\<close> by (simp add: batch_ok_def)
    with sound show ?thesis by (auto simp: affected_def)
  qed
  have "ib_frontier b' = []" if "card (affected edges root) \<le> sum_list (map fst calls)"
  proof (rule ccontr)
    assume more: "ib_frontier b' \<noteq> []"
    let ?v = "hd (ib_frontier b')"
    have "?v \<in> set (ib_frontier b')" using more by simp
    then have "?v \<notin> set (ib_invalidated b')" "insert ?v (set (ib_invalidated b')) \<subseteq> affected edges root"
      using ok fields by (auto simp: batch_ok_def)
    then have "Suc (card (set (ib_invalidated b'))) \<le> card (affected edges root)"
      using card_mono [OF finite_affected, of "insert ?v (set (ib_invalidated b'))"] by simp
    moreover have "card (set (ib_invalidated b')) = sum_list (map fst calls)"
      using size more ok by (simp add: batch_ok_def distinct_card)
    ultimately show False using that by simp
  qed
  with b' assms(2) fields sound complete show ?thesis by blast
qed

definition sample_dependency :: "version_id \<Rightarrow> version_id \<Rightarrow> context_edge" where
  "sample_dependency from to = \<lparr>ed_schema_version = \<lparr>sv_family = ''cigar.edge'', sv_major = 1\<rparr>, ed_edge_id = from @ to,
     ed_from_version = from, ed_to_version = to, ed_kind = DerivedFrom, ed_provenance_digest = ''1220'', ed_lifecycle = Active,
     ed_superseded_by = None, ed_extensions = []\<rparr>"

definition sample_dependencies :: "context_edge list" where
  "sample_dependencies = [sample_dependency ''b'' ''a'', sample_dependency ''c'' ''b'', sample_dependency ''x'' ''y'']"

definition sample_context :: "nat \<Rightarrow> connector_context" where
  "sample_context i = \<lparr>co_cancelled = False, co_now = 0, co_deadline = 1\<rparr>"

lemma sample_invalidator: "invalidator_new sample_dependencies =
    Inr \<lparr>di_dependents = [(''a'', [''b'']), (''b'', [''c'']), (''y'', [''x''])]\<rparr>"
  by code_simp

theorem invalidation_is_exact_witness:
  "process_all \<lparr>di_dependents = [(''a'', [''b'']), (''b'', [''c'']), (''y'', [''x''])]\<rparr> [(2, sample_context), (3, sample_context)]
      (invalidation_start ''a'' CauseSourceChanged None None 7) =
    Inr \<lparr>ib_root = ''a'', ib_cause = CauseSourceChanged, ib_prior_version = None, ib_new_version = None, ib_causal_revision = 7,
      ib_frontier = [], ib_invalidated = [''a'', ''b'', ''c'']\<rparr> \<and> affected sample_dependencies ''a'' = {''a'', ''b'', ''c''}"
proof -
  let ?calls = "[(2, sample_context), (3, sample_context)]"
  have run: "process_all \<lparr>di_dependents = [(''a'', [''b'']), (''b'', [''c'']), (''y'', [''x''])]\<rparr> ?calls
      (invalidation_start ''a'' CauseSourceChanged None None 7) =
    Inr \<lparr>ib_root = ''a'', ib_cause = CauseSourceChanged, ib_prior_version = None, ib_new_version = None, ib_causal_revision = 7,
      ib_frontier = [], ib_invalidated = [''a'', ''b'', ''c'']\<rparr>"
    unfolding numeral_2_eq_2 numeral_3_eq_3
    by (simp add: invalidation_start_def process_def MAX_CONNECTOR_ITEMS_def connector_check_def sample_context_def
      invalidate_next_def neighbours_def insort_insert_key_def)
  have "\<forall>(limit, ctx) \<in> set ?calls. 0 < limit \<and> limit \<le> MAX_CONNECTOR_ITEMS \<and> (\<forall>i. connector_check (ctx i) = Inr ())"
    by (simp add: MAX_CONNECTOR_ITEMS_def connector_check_def sample_context_def)
  from invalidation_is_exact [OF sample_invalidator refl this, of "''a''" CauseSourceChanged None None 7] run show ?thesis by simp
qed

end
