(* ===== verification/Spec2Isabelle.thy ===== *)
theory Spec2Isabelle
  imports Broker_Dispatch Policy_Engine Protocol_Coordination Capability_Authority Redaction Effect_System Service_Pages
    Compiler_Delta Compiler_Cache Catalog_Invalidation
begin

text \<open>
  \<^bold>\<open>CIGAR\<close> governs the context that agents work with: every read of a record, every delegation of a right and every
  effect on the outside world passes through a policy decision, is recorded in an append-only store and can be checked
  afterwards. This development models the trusted core of the Rust workspace under \<open>src/crates\<close> and proves what makes
  it correct. Names of definitions follow the source; a field of a record carries a short prefix of its record.

  \<^bold>\<open>The parts and how they meet.\<close> Protocol records (\<open>cigar-protocol\<close>) are validated, encoded canonically (\<open>cigar-canon\<close>) and
  signed by keys of the provider (\<open>cigar-crypto\<close>). The policy engine (\<open>cigar-policy\<close>) decides requests from compiled rules,
  capabilities and revocations; the capability authority of the same crate checks signed delegation chains, and redaction
  cuts denied fields out of an answer. The store (\<open>cigar-store\<close>) keeps tenants as revisions of one committed state: the
  catalogue of atoms and edges, space commits, effect journals and records, blobs, the outbox, and the versioned records
  and worker leases of the service repository. The effect engine (\<open>cigar-effects\<close>) drives every effect on a connector
  through a journalled state machine whose records it keeps in the store. The broker (\<open>cigar-context\<close>) authenticates clients
  and schedules their jobs. The compiler (\<open>cigar-compiler\<close>) turns selected records into bundles, ships changes of a bundle
  as sealed deltas and keeps what it computed in a governed cache.

  \<^bold>\<open>Shared theories.\<close>
  \<^item> \<open>Cigar_Prelude\<close>: results (\<open>Inl\<close> an error, \<open>Inr\<close> a value; \<open>rbind\<close> is the \<open>?\<close> of the source), checked and saturating
    arithmetic on \<open>64 word\<close>, bytes and hexadecimal text, reachable states and the locale \<open>invariant_system\<close>.
  \<^item> \<open>BTree_Map\<close>: ordered maps as strictly sorted association lists, behind the locale \<open>ordered_map\<close>.
  \<^item> \<open>Paging\<close>: the locale \<open>paged_query\<close>, the contract of every operation that answers with a page and a cursor, and that
    following the cursors sees every answer once and stops; interpreted on atom queries, service listings and outbox recovery.

  \<^bold>\<open>Protocol records.\<close> \<open>Protocol_Base\<close> (\<open>validation.rs\<close>, \<open>schema.rs\<close>, \<open>identity.rs\<close>, \<open>extension.rs\<close>), \<open>Protocol_Types\<close> (the
  ordered enumerations), \<open>Protocol_Coordination\<close> (\<open>coordination.rs\<close>: grants, space commits, overlays, handoff capsules and
  acceptances, deltas, leases), \<open>Catalog_Records\<close> (\<open>atom.rs\<close>, \<open>catalog.rs\<close> and the bundles of \<open>compilation.rs\<close>),
  \<open>Compilation_Records\<close> (the plans, manifests, materialized contexts and deltas of \<open>compilation.rs\<close>) and \<open>Effect_Protocol\<close> (\<open>effect.rs\<close>). Validators collect a bounded list of errors, as the source does; the locale
  \<open>validated_record\<close> relates each to the plain predicate it decides (for a grant that predicate, \<open>grant_checked\<close>, is weaker than the documented
  \<open>grant_wf\<close>, which also orders the processors), and attenuation of a grant is exactly the subset
  relation on its components.

  \<^bold>\<open>Canonical encoding.\<close> \<open>Canon_Cbor\<close> has the deterministic encoder and the strict decoder of \<open>cigar-canon/src/lib.rs\<close>,
  canonical encodings as a relation that describes the bytes (\<open>canonical_encoding\<close>, with narrowest heads and strictly increasing
  encoded keys, independent of the encoder's sort and head writer), which the encoder is shown to compute, and the round trip; \<open>Canon_Envelope\<close> the semantic envelopes and signing bytes, which determine the
  record they sign. Encoder and decoder are total functions with their termination proofs; the depth limit is the
  source's 64.

  \<^bold>\<open>Keys.\<close> \<open>Key_Provider\<close> has \<open>MemoryKeyProvider\<close> of \<open>provider.rs\<close>: creation, rotation, destruction, signing, verification,
  wrapping. Retired keys verify what they signed while active; destroyed ones neither sign nor unwrap for ever, but the time
  of destruction replaces the time of retirement in what verification accepts. Ed25519, SHA-256 and
  XChaCha20-Poly1305 are parameters with their documented laws as named hypotheses. A fresh key reference is tried sixteen
  times, as in the source.

  \<^bold>\<open>Policy.\<close> \<open>Policy_Contract\<close> (\<open>contract.rs\<close>), \<open>Policy_Digest\<close>, \<open>Policy_Rules\<close> and \<open>Policy_Engine\<close> (\<open>engine.rs\<close>): compilation of
  a rule profile, evaluation, the decision cache with its eviction, revocation, and proofs of authorized retrieval.
  Evaluation allows exactly the requests that pass every hard gate and that every matching rule allows; the cache
  refines evaluation when SHA-256 has no collisions on the requests at hand (\<open>collision_free\<close>); a successful revocation takes effect at
  once, whatever other threads do inside a later authorization; a retrieval proof is sound when made and fails closed after a change. \<open>Capability_Authority\<close> (\<open>capability.rs\<close>)
  shows that a verified chain never amplifies a right, \<open>Redaction\<close> (\<open>redaction.rs\<close>) that redaction removes exactly the
  named fields.

  \<^bold>\<open>Broker.\<close> \<open>Broker_Auth\<close> (\<open>authentication.rs\<close>) is the handshake, \<open>Broker_Scheduler\<close> (\<open>scheduler.rs\<close>) the bounded queues,
  and \<open>Broker_Dispatch\<close> their correctness over arbitrary interleavings: jobs are conserved and dispatched at most once,
  cancellation is final, dispatch is fair between clients, and only a holder of the registered secret gets a lane.
  HMAC-SHA-256 and random bytes are parameters.

  \<^bold>\<open>Store.\<close> \<open>Memory_Store\<close> is \<open>InMemoryStore\<close> of \<open>memory.rs\<close> and \<open>model.rs\<close>: snapshots, staging, optimistic and idempotent
  commits, all reads. \<open>Store_Catalog\<close> shows that the search for derivation cycles decides reachability and that the atom
  indexes are those of a rebuild; \<open>Store_History\<close> states the laws of the locale \<open>repository\<close> and what holds over time:
  published records never change, logs are linked and the derivation graph is acyclic, a commit is replayed exactly,
  committed records are valid. The search and the rebuild are bounded by 100,000 items, as in the source, and report
  exceeding the bound as an error. \<open>Service_Records\<close> and \<open>Service_Store\<close> model \<open>service_repository.rs\<close> and its
  implementation for the in-memory store; \<open>Service_History\<close> and \<open>Service_Runs\<close> show that every run of batches, worker
  updates, transactions and faults keeps the service state sound, \<open>Service_Guarantees\<close> that batches are atomic
  compare-and-set operations, responses are replayed exactly, versions are immutable, every committed state passes the
  integrity check and stale workers are fenced off, and \<open>Service_Pages\<close> that listings and outbox recovery are complete.

  \<^bold>\<open>Effects.\<close> \<open>Effect_Kernel\<close> has the records and checks of \<open>cigar-effects/src/contract.rs\<close> and \<open>engine.rs\<close>,
  \<open>Effect_Plans\<close> what each operation of \<open>EffectEngine\<close> does to a record, \<open>Effect_Engine\<close> the operations themselves over the
  store, with their sixteen attempts to persist and to read. \<open>Effect_Machine\<close> shows of every run of operations that a
  connector is entered at most once for an attempt, that whatever is sent was authorized, that retries follow the policy
  and that a changed journal does not verify; \<open>Effect_System\<close> that interleaved engines on one store refine that machine.
  The connectors, the clock and the authenticator's keys are parameters.

  \<^bold>\<open>Compiler.\<close> \<open>Compiler_Delta\<close> is \<open>delta.rs\<close>: a generated delta reproduces its target with exact evidence of what was reused,
  and an application is acknowledged only if the sealed delta leads from the named base to exactly the named target.
  \<open>Compiler_Cache\<close> is \<open>cache.rs\<close>: over any sequence of calls a hit is what some call stored for this key, policy digest and
  epoch with nothing since that withdrew it, the bounds hold, and an insertion does not evict itself before the access
  clock saturates, which takes \<open>2 ^ 64 - 1\<close> calls. SHA-256 and the JSON encoding of deltas are parameters.

  \<^bold>\<open>Catalogue.\<close> \<open>Catalog_Invalidation\<close> is \<open>cigar-catalog/src/invalidation.rs\<close>: an invalidator is built exactly for acyclic dependency
  graphs (Kahn's algorithm, with its termination proof), and its bounded batches invalidate exactly the transitive
  dependents of a changed version, all of them once the limits of the calls add up to their number.

  \<^bold>\<open>Not modelled.\<close> The SQL, file and object stores (they persist the same state through SQL and I/O;
  the in-memory store is the reference they are tested against), the strict JSON reader and writer
  (\<open>serde_json\<close>, \<open>unicode-normalization\<close>), the connectors, ingestion and lifecycle planning of
  the catalogue, the selection, packing and presentation of the compiler, retrieval and code intelligence, the context
  graph and the broker's ingestion and execution, spaces and handoff, replay, the API, daemon, command line, MCP server,
  dashboard, hooks and observability: they are clients of the parts above or I/O around them. Threads appear as
  interleavings of whole operations under the locks of the source; a poisoned lock, allocation failure and
  \<open>usize\<close> overflow of collections in memory do not occur in the model.
\<close>

end
